(* ===== verification/Prelude.thy ===== *)
theory Prelude
  imports Main "HOL-Library.Word"
begin

text \<open>
  Shared vocabulary of the development: how Go values are represented, the generic list lemmas
  the components use, and the named collections their automation draws on.

  \<^item> Go text is a list of code points (\<open>gotext\<close>); \<open>lit\<close> turns an ASCII literal of the source into
    such a list. Only the ASCII part of Unicode case mapping is written out; the rest of the
    table is a function argument.
  \<^item> Enumerations that the source keeps as string constants stay strings.
  \<^item> A fallible call returns \<open>'e + 'a\<close> (\<open>Inl\<close> is the error), together with the new state where
    it has one.
  \<^item> Instants and durations are integers (nanoseconds), read from a clock that is an argument.
\<close>

named_theorems view_simps \<open>what an operation leaves in the abstract view of a store\<close>
named_theorems step_inv \<open>an operation or a step keeps the invariant of its component\<close>

type_synonym rune = nat
type_synonym gotext = "rune list"
type_synonym instant = int
type_synonym ('e, 'a, 's) outcome = "('e + 'a) \<times> 's"

definition lit :: "string \<Rightarrow> gotext" where
  "lit s = map of_char s"

text \<open>\<open>unicode.IsSpace\<close> and \<open>strings.TrimSpace\<close> of the Go standard library.\<close>

definition is_space :: "rune \<Rightarrow> bool" where
  "is_space r \<longleftrightarrow> r \<in> {9, 10, 11, 12, 13, 32, 0x85, 0xA0, 0x1680, 0x2028, 0x2029, 0x202F, 0x205F, 0x3000}
     \<or> (0x2000 \<le> r \<and> r \<le> 0x200A)"

lemma is_space_code [code]:
  "is_space r = (if r < 128 then r \<in> {9, 10, 11, 12, 13, 32}
     else r \<in> {0x85, 0xA0, 0x1680, 0x2028, 0x2029, 0x202F, 0x205F, 0x3000} \<or> (0x2000 \<le> r \<and> r \<le> 0x200A))"
  by (auto simp: is_space_def)

definition trim_space :: "gotext \<Rightarrow> gotext" where
  "trim_space s = rev (dropWhile is_space (rev (dropWhile is_space s)))"

text \<open>
  \<open>strings.ToUpper\<close> and \<open>strings.ToLower\<close>: the ASCII letters are mapped here; \<open>uc\<close> stands for the
  Unicode table outside ASCII.
\<close>

definition to_upper :: "(rune \<Rightarrow> rune) \<Rightarrow> gotext \<Rightarrow> gotext" where
  "to_upper uc s = map (\<lambda>r. if r < 128 then (if 97 \<le> r \<and> r \<le> 122 then r - 32 else r) else uc r) s"

definition to_lower :: "(rune \<Rightarrow> rune) \<Rightarrow> gotext \<Rightarrow> gotext" where
  "to_lower lc s = map (\<lambda>r. if r < 128 then (if 65 \<le> r \<and> r \<le> 90 then r + 32 else r) else lc r) s"

lemma lit_eq_Nil [simp]: "lit s = [] \<longleftrightarrow> s = []"
  by (simp add: lit_def)

lemma length_lit [simp]: "length (lit s) = length s"
  by (simp add: lit_def)

lemma length_to_upper [simp]: "length (to_upper uc s) = length s"
  by (simp add: to_upper_def)

lemma trim_space_Nil [simp]: "trim_space [] = []"
  by (simp add: trim_space_def)

lemma trim_space_trimmed:
  assumes "trim_space s = x # xs"
  shows "\<not> is_space x"
proof -
  let ?t = "dropWhile is_space s"
  have pre: "trim_space s @ rev (takeWhile is_space (rev ?t)) = ?t"
    by (metis rev_append rev_rev_ident takeWhile_dropWhile_id trim_space_def)
  then have "hd ?t = x" and "?t \<noteq> []"
    using assms by (metis append_Cons list.sel(1), fastforce)
  then show ?thesis
    using hd_dropWhile by metis
qed

text \<open>\<open>List.find\<close>, the first row of a query in primary-key order.\<close>

lemma find_SomeD: "List.find P xs = Some x \<Longrightarrow> x \<in> set xs \<and> P x"
  by (induction xs) (auto split: if_splits)

lemma find_Some_ex: "x \<in> set xs \<Longrightarrow> P x \<Longrightarrow> \<exists>y. List.find P xs = Some y"
  by (induction xs) auto

lemma find_NoneD: "List.find P xs = None \<Longrightarrow> x \<in> set xs \<Longrightarrow> \<not> P x"
  by (induction xs) (auto split: if_splits)

lemma filter_length_pos: "0 < length (filter P xs) \<longleftrightarrow> (\<exists>x\<in>set xs. P x)"
  by (induction xs) auto

lemma distinct_map_unique:
  "distinct (map f xs) \<Longrightarrow> x \<in> set xs \<Longrightarrow> y \<in> set xs \<Longrightarrow> f x = f y \<Longrightarrow> x = y"
  by (auto simp: distinct_map inj_on_def)

text \<open>Rewriting the one row that carries a given key.\<close>

lemma map_update_key:
  assumes "\<And>x. k (f x) = k x"
  shows "map k (map (\<lambda>x. if k x = i then f x else x) xs) = map k xs"
  using assms by (induction xs) auto

lemma map_if_other:
  "(\<And>x. x \<in> set xs \<Longrightarrow> \<not> P x) \<Longrightarrow> map (\<lambda>x. if P x then f x else x) xs = xs"
  by (induction xs) auto

lemma filter_map_toggle:
  assumes "distinct (map k xs)" "a \<in> set xs" "\<not> P a" "P (f a)"
  shows "length (filter P (map (\<lambda>x. if k x = k a then f a else x) xs)) = Suc (length (filter P xs))"
  using assms
proof (induction xs)
  case Nil
  then show ?case by simp
next
  case (Cons b xs)
  show ?case
  proof (cases "a = b")
    case True
    then have "k x \<noteq> k a" if "x \<in> set xs" for x
      using Cons.prems(1) that by (auto simp: image_iff)
    then have "map (\<lambda>x. if k x = k a then f a else x) xs = xs"
      by (rule map_if_other)
    with True Cons.prems show ?thesis by simp
  next
    case False
    then have "k b \<noteq> k a" using Cons.prems by (auto simp: image_iff)
    with False Cons show ?thesis by auto
  qed
qed

lemma length_filter_imp:
  "(\<And>x. x \<in> set xs \<Longrightarrow> P x \<Longrightarrow> Q x) \<Longrightarrow> length (filter P xs) \<le> length (filter Q xs)"
  by (induction xs) (auto simp: le_SucI)

lemma length_filter_map_le:
  "(\<And>x. x \<in> set xs \<Longrightarrow> P (g x) \<Longrightarrow> P x) \<Longrightarrow> length (filter P (map g xs)) \<le> length (filter P xs)"
  by (induction xs) (auto simp: le_SucI)

lemma filter_map_skip:
  "(\<And>x. x \<in> set xs \<Longrightarrow> Q x \<Longrightarrow> \<not> P x \<and> \<not> P (g x)) \<Longrightarrow>
    filter P (map (\<lambda>x. if Q x then g x else x) xs) = filter P xs"
  by (induction xs) auto

end
