(* ===== verification/SpeakPath.thy ===== *)
theory SpeakPath
  imports Prelude
begin

text \<open>
  The path of a spoken notification of \<open>chat.go\<close>: whether the device has to be asked first (\<open>speak_request\<close>), the one
  request that can be pending, what resolves it (the device's \<open>speak_ready\<close>, the timer, a failed send, a reset of
  the conversation) and the time the path was last warm. The operations are the critical sections of the code; a call
  that finishes a request detaches it from the manager first and resolves it afterwards, and other calls run between.
\<close>

subsection \<open>Data\<close>

datatype transport_kind = Websocket | MqttUdp

text \<open>The reasons of \<open>session.go\<close> for closing a chat session.\<close>

datatype close_reason = ManagerShutdown | ExplicitExit | FatalError | AudioIdleTimeout | RetainedIdleTimeout

datatype speak_error = SpeakSendFailed | SpeakReadyTimeout | SpeakGoodbyeReset | SpeakSessionClosed close_reason
  | SpeakRebootstrap | SpeakCancelled

record pending_speak_request =
  ps_sessionID :: gotext
  ps_timer :: bool
  ps_once :: bool
  ps_err :: "speak_error option"
  ps_closes :: nat

text \<open>
  \<open>ps_closes\<close> counts the calls of \<open>close(p.done)\<close>. Requests are named by their position in \<open>sk_requests\<close>, the order in
  which they were made.
\<close>

record speak_path =
  sk_requests :: "pending_speak_request list"
  sk_pending :: "nat option"
  sk_warmAt :: int
  sk_rebootstrap :: bool

record speak_ready_message =
  sr_state :: string
  sr_sessionID :: gotext
  sr_udpReady :: "bool option"

subsection \<open>Requests\<close>

definition resolve :: "speak_error option \<Rightarrow> pending_speak_request \<Rightarrow> pending_speak_request" where
  "resolve err p =
     (if ps_once p then p
      else p\<lparr>ps_once := True, ps_timer := False, ps_err := err, ps_closes := Suc (ps_closes p)\<rparr>)"

definition hasPendingSpeakRequest :: "speak_path \<Rightarrow> bool" where
  "hasPendingSpeakRequest sp \<longleftrightarrow> sk_pending sp \<noteq> None"

definition getOrCreatePendingSpeakRequest :: "gotext \<Rightarrow> speak_path \<Rightarrow> nat \<times> bool \<times> speak_path" where
  "getOrCreatePendingSpeakRequest clientSessionID sp =
     (case sk_pending sp of
        Some k \<Rightarrow> (k, False, sp)
      | None \<Rightarrow>
          (let k = length (sk_requests sp);
               p = \<lparr>ps_sessionID = trim_space clientSessionID, ps_timer = True, ps_once = False, ps_err = None, ps_closes = 0\<rparr>
           in (k, True, sp\<lparr>sk_requests := sk_requests sp @ [p], sk_pending := Some k\<rparr>)))"

text \<open>\<open>finishPendingSpeakRequest\<close>: under the lock the request is detached, after it it is resolved.\<close>

definition detachPending :: "nat \<Rightarrow> speak_path \<Rightarrow> speak_path" where
  "detachPending k sp = (if sk_pending sp = Some k then sp\<lparr>sk_pending := None\<rparr> else sp)"

definition resolvePending :: "nat \<Rightarrow> speak_error option \<Rightarrow> speak_path \<Rightarrow> speak_path" where
  "resolvePending k err sp = sp\<lparr>sk_requests := (sk_requests sp)[k := resolve err (sk_requests sp ! k)]\<rparr>"

definition finishPendingSpeakRequest :: "nat \<Rightarrow> speak_error option \<Rightarrow> speak_path \<Rightarrow> speak_path" where
  "finishPendingSpeakRequest k err sp = resolvePending k err (detachPending k sp)"

text \<open>
  \<open>waitPendingSpeakRequest\<close>: \<open>None\<close> while it blocks. When the request and the context are both done, \<open>select\<close> may take
  either (\<open>preferCtx\<close>).
\<close>

definition waitPendingSpeakRequest :: "bool \<Rightarrow> bool \<Rightarrow> nat \<Rightarrow> speak_path \<Rightarrow> speak_error option option" where
  "waitPendingSpeakRequest ctxDone preferCtx k sp =
     (let p = sk_requests sp ! k in
      if 0 < ps_closes p \<and> \<not> (ctxDone \<and> preferCtx) then Some (ps_err p)
      else if ctxDone then Some (Some SpeakCancelled) else None)"

subsection \<open>Warmth\<close>

definition updateSpeakPathWarmAt :: "int \<Rightarrow> speak_path \<Rightarrow> speak_path" where
  "updateSpeakPathWarmAt ts sp = (if ts \<le> 0 then sp else if ts \<le> sk_warmAt sp then sp else sp\<lparr>sk_warmAt := ts\<rparr>)"

definition currentSpeakPathWarmAt :: "int \<Rightarrow> speak_path \<Rightarrow> int" where
  "currentSpeakPathWarmAt transportTs sp = (if transportTs > sk_warmAt sp then transportTs else sk_warmAt sp)"

definition clearMqttRebootstrapPending :: "speak_path \<Rightarrow> speak_path" where
  "clearMqttRebootstrapPending sp = sp\<lparr>sk_rebootstrap := False\<rparr>"

text \<open>\<open>refreshSpeakPathWarmFromTransport\<close> of a bound channel whose last packet is of \<open>transportTs\<close> milliseconds.\<close>

definition refreshSpeakPathWarmFromTransport :: "bool \<Rightarrow> int \<Rightarrow> int \<Rightarrow> speak_path \<Rightarrow> speak_path" where
  "refreshSpeakPathWarmFromTransport bound transportTs nowMs sp =
     (if \<not> bound \<or> hasPendingSpeakRequest sp \<or> sk_rebootstrap sp then sp
      else if transportTs > 0 then updateSpeakPathWarmAt transportTs sp
      else updateSpeakPathWarmAt nowMs sp)"

definition speakRequestReuseWindow :: "int option \<Rightarrow> int" where
  "speakRequestReuseWindow configured =
     (case configured of
        None \<Rightarrow> 60 * 1000000000
      | Some ms \<Rightarrow> if ms \<le> 0 then 60 * 1000000000 else ms * 1000000)"

text \<open>
  \<open>shouldSendSpeakRequest\<close>. The arguments are what it asks of the manager and of the device: the configuration, the
  transport, whether a session needs a new hello, whether a conversation is going on, the last packet of the
  transport (in milliseconds) and the clock (in nanoseconds).
\<close>

definition shouldSendSpeakRequest :: "bool \<Rightarrow> transport_kind \<Rightarrow> bool \<Rightarrow> bool \<Rightarrow> int \<Rightarrow> int option \<Rightarrow> instant \<Rightarrow> speak_path \<Rightarrow> bool" where
  "shouldSendSpeakRequest enabled kind needsHello active transportTs configured now sp =
     (if \<not> enabled then False
      else if kind \<noteq> MqttUdp then False
      else if needsHello then True
      else if sk_rebootstrap sp then True
      else if active then False
      else (let warmAt = currentSpeakPathWarmAt transportTs sp in
            if warmAt \<le> 0 then True
            else \<not> now - warmAt * 1000000 \<le> speakRequestReuseWindow configured))"

subsection \<open>Calls that finish a request\<close>

text \<open>
  Each of these ends in \<open>finishPendingSpeakRequest(pending, err)\<close> for the request it read: the result names the
  request and the verdict.
\<close>

definition HandleSpeakReadyMessage :: "transport_kind \<Rightarrow> int \<Rightarrow> speak_ready_message \<Rightarrow> speak_path
    \<Rightarrow> (nat \<times> speak_error option) option \<times> speak_path" where
  "HandleSpeakReadyMessage kind nowMs msg sp =
     (if kind \<noteq> MqttUdp then (None, sp)
      else if sr_state msg \<noteq> '''' \<and> sr_state msg \<noteq> ''ready'' then (None, sp)
      else if sr_udpReady msg = Some False then (None, sp)
      else case sk_pending sp of
             None \<Rightarrow> (None, sp)
           | Some k \<Rightarrow>
               if ps_sessionID (sk_requests sp ! k) \<noteq> [] \<and> trim_space (sr_sessionID msg) \<noteq> ps_sessionID (sk_requests sp ! k)
               then (None, sp)
               else (Some (k, None), clearMqttRebootstrapPending (updateSpeakPathWarmAt nowMs sp)))"

definition resetSpeakPath :: "speak_error \<Rightarrow> speak_path \<Rightarrow> (nat \<times> speak_error option) option \<times> speak_path" where
  "resetSpeakPath err sp =
     (let sp1 = sp\<lparr>sk_warmAt := 0\<rparr> in (map_option (\<lambda>k. (k, Some err)) (sk_pending sp1), sp1))"

definition timer_fires :: "nat \<Rightarrow> speak_path \<Rightarrow> (nat \<times> speak_error option) option \<times> speak_path" where
  "timer_fires k sp =
     (if k < length (sk_requests sp) \<and> ps_timer (sk_requests sp ! k)
      then (Some (k, Some SpeakReadyTimeout), sp\<lparr>sk_requests := (sk_requests sp)[k := (sk_requests sp ! k)\<lparr>ps_timer := False\<rparr>]\<rparr>)
      else (None, sp))"
subsection \<open>Runs\<close>

text \<open>
  What can happen to the path, one critical section at a time. The calls under way in \<open>finishPendingSpeakRequest\<close> are
  a list: the request, the verdict, and whether the request has been detached.
\<close>

type_synonym finisher = "nat \<times> speak_error option \<times> bool"

datatype speak_event =
    SpeakBegins gotext
  | SendFails nat
  | TimerFires nat
  | ReadyArrives transport_kind int speak_ready_message
  | PathReset speak_error
  | FinisherDetaches nat
  | FinisherResolves nat

definition add_finisher :: "(nat \<times> speak_error option) option \<times> speak_path \<Rightarrow> finisher list \<Rightarrow> speak_path \<times> finisher list" where
  "add_finisher r fs = (case r of (None, sp) \<Rightarrow> (sp, fs) | (Some (k, err), sp) \<Rightarrow> (sp, fs @ [(k, err, False)]))"

fun speak_exec :: "speak_event \<Rightarrow> speak_path \<times> finisher list \<Rightarrow> speak_path \<times> finisher list" where
  "speak_exec (SpeakBegins sid) (sp, fs) = (snd (snd (getOrCreatePendingSpeakRequest sid sp)), fs)"
| "speak_exec (SendFails k) (sp, fs) =
     (if k < length (sk_requests sp) then (sp, fs @ [(k, Some SpeakSendFailed, False)]) else (sp, fs))"
| "speak_exec (TimerFires k) (sp, fs) = add_finisher (timer_fires k sp) fs"
| "speak_exec (ReadyArrives kind nowMs msg) (sp, fs) = add_finisher (HandleSpeakReadyMessage kind nowMs msg sp) fs"
| "speak_exec (PathReset err) (sp, fs) = add_finisher (resetSpeakPath err sp) fs"
| "speak_exec (FinisherDetaches i) (sp, fs) =
     (if i < length fs then (detachPending (fst (fs ! i)) sp, fs[i := (fst (fs ! i), fst (snd (fs ! i)), True)]) else (sp, fs))"
| "speak_exec (FinisherResolves i) (sp, fs) =
     (if i < length fs \<and> snd (snd (fs ! i))
      then (resolvePending (fst (fs ! i)) (fst (snd (fs ! i))) sp, take i fs @ drop (Suc i) fs) else (sp, fs))"

definition fresh_speak_path :: speak_path where
  "fresh_speak_path = \<lparr>sk_requests = [], sk_pending = None, sk_warmAt = 0, sk_rebootstrap = False\<rparr>"

definition speak_run :: "speak_event list \<Rightarrow> speak_path \<times> finisher list" where
  "speak_run evs = fold speak_exec evs (fresh_speak_path, [])"

lemma speak_run_Nil: "speak_run [] = (fresh_speak_path, [])"
  by (simp add: speak_run_def)

lemma speak_run_snoc: "speak_run (evs @ [ev]) = speak_exec ev (speak_run evs)"
  by (simp add: speak_run_def)

text \<open>A \<open>speak_ready\<close> of the run that answers the session of the request.\<close>

definition ready_for :: "speak_event list \<Rightarrow> pending_speak_request \<Rightarrow> bool" where
  "ready_for evs p \<longleftrightarrow> (\<exists>nowMs msg. ReadyArrives MqttUdp nowMs msg \<in> set evs
     \<and> (ps_sessionID p = [] \<or> trim_space (sr_sessionID msg) = ps_sessionID p))"

text \<open>
  What holds of every request: the channel is closed exactly when the request is resolved, and only once; until then
  it is the pending one with its timer running, or a call is about to resolve it; a good verdict comes from the device.
\<close>

definition request_ok :: "speak_event list \<Rightarrow> speak_path \<times> finisher list \<Rightarrow> nat \<Rightarrow> bool" where
  "request_ok evs st k \<longleftrightarrow>
     (let p = sk_requests (fst st) ! k in
      ps_closes p = (if ps_once p then 1 else 0) \<and> \<not> (ps_once p \<and> ps_timer p)
      \<and> (ps_once p \<or> (ps_timer p \<and> sk_pending (fst st) = Some k) \<or> (\<exists>f\<in>set (snd st). fst f = k))
      \<and> (ps_once p \<longrightarrow> ps_err p = None \<longrightarrow> ready_for evs p))"

definition speak_inv :: "speak_event list \<Rightarrow> speak_path \<times> finisher list \<Rightarrow> bool" where
  "speak_inv evs st \<longleftrightarrow>
     (\<forall>k. sk_pending (fst st) = Some k \<longrightarrow> k < length (sk_requests (fst st)))
     \<and> (\<forall>f\<in>set (snd st). fst f < length (sk_requests (fst st))
          \<and> (fst (snd f) = None \<longrightarrow> ready_for evs (sk_requests (fst st) ! fst f)))
     \<and> (\<forall>k<length (sk_requests (fst st)). request_ok evs st k)"

lemma ready_for_mono: "ready_for evs p \<Longrightarrow> ready_for (evs @ [ev]) p"
  by (auto simp: ready_for_def)

lemma ready_for_sessionID: "ps_sessionID p = ps_sessionID q \<Longrightarrow> ready_for evs p = ready_for evs q"
  by (simp add: ready_for_def)

lemma resolve_sessionID [simp]: "ps_sessionID (resolve e p) = ps_sessionID p"
  by (simp add: resolve_def)

lemma speak_inv_mono: "speak_inv evs st \<Longrightarrow> speak_inv (evs @ [ev]) st"
  unfolding speak_inv_def request_ok_def Let_def by (blast intro: ready_for_mono)

lemma speak_inv_warm:
  "speak_inv evs (sp, fs) \<Longrightarrow> sk_requests sp' = sk_requests sp \<Longrightarrow> sk_pending sp' = sk_pending sp \<Longrightarrow> speak_inv evs (sp', fs)"
  by (simp add: speak_inv_def request_ok_def)

lemma speak_inv_finisherD:
  "speak_inv evs (sp, fs) \<Longrightarrow> (k, e, d) \<in> set fs \<Longrightarrow>
    k < length (sk_requests sp) \<and> (e = None \<longrightarrow> ready_for evs (sk_requests sp ! k))"
  unfolding speak_inv_def by force

lemma speak_inv_finisher:
  assumes "speak_inv evs (sp, fs)" "k < length (sk_requests sp)" "err = None \<Longrightarrow> ready_for evs (sk_requests sp ! k)"
  shows "speak_inv evs (sp, fs @ [(k, err, False)])"
  using assms unfolding speak_inv_def request_ok_def Let_def by fastforce

lemma speak_inv_timer:
  assumes "speak_inv evs (sp, fs)" "k < length (sk_requests sp)"
  shows "speak_inv evs (sp\<lparr>sk_requests := (sk_requests sp)[k := (sk_requests sp ! k)\<lparr>ps_timer := False\<rparr>]\<rparr>,
    fs @ [(k, Some SpeakReadyTimeout, False)])"
proof -
  have id: "ready_for evs ((sk_requests sp ! k)\<lparr>ps_timer := False\<rparr>) = ready_for evs (sk_requests sp ! k)"
    by (rule ready_for_sessionID) simp
  show ?thesis
    using assms speak_inv_finisherD[OF assms(1)] unfolding speak_inv_def request_ok_def Let_def
    by (auto simp: nth_list_update id)
qed

lemma speak_inv_begin:
  assumes "speak_inv evs (sp, fs)"
  shows "speak_inv evs (snd (snd (getOrCreatePendingSpeakRequest sid sp)), fs)"
proof (cases "sk_pending sp")
  case None
  have "request_ok evs (snd (snd (getOrCreatePendingSpeakRequest sid sp)), fs) k"
    if "k \<le> length (sk_requests sp)" for k
    using assms that None unfolding speak_inv_def request_ok_def Let_def
    by (cases "k = length (sk_requests sp)")
       (auto simp: getOrCreatePendingSpeakRequest_def nth_append Let_def)
  then show ?thesis
    using assms None unfolding speak_inv_def
    by (auto simp: getOrCreatePendingSpeakRequest_def Let_def nth_append less_Suc_eq_le)
qed (use assms in \<open>simp add: getOrCreatePendingSpeakRequest_def\<close>)

lemma fst_update_finisher:
  "i < length fs \<Longrightarrow> fst ` set (fs[i := (fst (fs ! i), x)]) = fst ` set fs"
  by (metis fst_conv list.set_map list_update_id map_update)

lemma speak_inv_detach:
  assumes inv: "speak_inv evs (sp, fs)" and i: "i < length fs"
  shows "speak_inv evs (detachPending (fst (fs ! i)) sp, fs[i := (fst (fs ! i), fst (snd (fs ! i)), True)])"
proof -
  let ?fs = "fs[i := (fst (fs ! i), fst (snd (fs ! i)), True)]"
  have reqs: "sk_requests (detachPending k sp) = sk_requests sp" for k
    by (simp add: detachPending_def)
  have mem: "f \<in> set ?fs \<Longrightarrow> \<exists>g\<in>set fs. fst g = fst f \<and> fst (snd g) = fst (snd f)" for f
    using i set_update_subset_insert[of fs i "(fst (fs ! i), fst (snd (fs ! i)), True)"] by fastforce
  have fins: "(\<exists>f\<in>set ?fs. fst f = k) = (\<exists>f\<in>set fs. fst f = k)" for k
    using fst_update_finisher[OF i, of "(fst (snd (fs ! i)), True)"] by (metis (no_types, lifting) image_iff)
  have here: "\<exists>f\<in>set fs. fst f = fst (fs ! i)" using i by auto
  have pend: "sk_pending sp = Some k \<Longrightarrow> sk_pending (detachPending j sp) = Some k \<or> j = k" for j k
    by (auto simp: detachPending_def)
  have "request_ok evs (detachPending (fst (fs ! i)) sp, ?fs) k" if "request_ok evs (sp, fs) k" for k
    using that here pend[of k "fst (fs ! i)"] unfolding request_ok_def Let_def fst_conv snd_conv fins reqs by blast
  moreover have "sk_pending (detachPending k sp) = Some j \<Longrightarrow> sk_pending sp = Some j" for k j
    by (simp add: detachPending_def split: if_splits)
  moreover have "fst f < length (sk_requests sp) \<and> (fst (snd f) = None \<longrightarrow> ready_for evs (sk_requests sp ! fst f))"
    if f: "f \<in> set ?fs" for f
  proof -
    obtain g where "g \<in> set fs" "fst g = fst f" "fst (snd g) = fst (snd f)" using mem[OF f] by auto
    then show ?thesis using inv by (auto simp: speak_inv_def)
  qed
  ultimately show ?thesis
    using inv unfolding speak_inv_def fst_conv snd_conv reqs by metis
qed

lemma in_rest: "f \<in> set (take i fs @ drop (Suc i) fs) \<Longrightarrow> f \<in> set fs"
  by (auto dest: in_set_takeD in_set_dropD)

lemma rest_or_here: "i < length fs \<Longrightarrow> f \<in> set fs \<Longrightarrow> f = fs ! i \<or> f \<in> set (take i fs @ drop (Suc i) fs)"
  by (metis Un_iff id_take_nth_drop set_ConsD set_append list.set_intros(2))

lemma speak_inv_resolve:
  assumes inv: "speak_inv evs (sp, fs)" and i: "i < length fs"
  shows "speak_inv evs (resolvePending (fst (fs ! i)) (fst (snd (fs ! i))) sp, take i fs @ drop (Suc i) fs)"
proof -
  obtain k e d where f: "fs ! i = (k, e, d)" using prod_cases3 by blast
  have k: "k < length (sk_requests sp)" and e: "e = None \<Longrightarrow> ready_for evs (sk_requests sp ! k)"
    using speak_inv_finisherD[OF inv, of k e d] nth_mem[OF i] f by auto
  have id: "ready_for evs (resolve e p) = ready_for evs p" for p
    by (rule ready_for_sessionID) simp
  have at: "sk_requests (resolvePending k e sp) ! j = (if j = k then resolve e (sk_requests sp ! k) else sk_requests sp ! j)"
    if "j < length (sk_requests sp)" for j
    using that k by (simp add: resolvePending_def nth_list_update)
  have "request_ok evs (resolvePending k e sp, take i fs @ drop (Suc i) fs) j" if j: "j < length (sk_requests sp)" for j
  proof (cases "j = k")
    case True
    have "request_ok evs (sp, fs) k" using inv k by (simp add: speak_inv_def)
    then show ?thesis
      using True e at[OF k] id unfolding request_ok_def Let_def fst_conv snd_conv
      by (simp add: resolve_def)
  next
    case False
    have "request_ok evs (sp, fs) j" using inv j by (simp add: speak_inv_def)
    moreover have "\<exists>g\<in>set (take i fs @ drop (Suc i) fs). fst g = j" if "\<exists>g\<in>set fs. fst g = j"
      using that rest_or_here[OF i] f False by fastforce
    ultimately show ?thesis
      using False at[OF j] unfolding request_ok_def Let_def fst_conv snd_conv
      by (auto simp: resolvePending_def simp del: set_append)
  qed
  moreover have "ready_for evs (sk_requests (resolvePending k e sp) ! j) = ready_for evs (sk_requests sp ! j)"
    if "j < length (sk_requests sp)" for j
    using at[OF that] id by simp
  ultimately show ?thesis
    using inv in_rest[of _ i fs] unfolding speak_inv_def fst_conv snd_conv f
    by (simp add: resolvePending_def)
qed

lemma speak_inv_exec: "speak_inv evs st \<Longrightarrow> speak_inv (evs @ [ev]) (speak_exec ev st)"
proof -
  assume inv0: "speak_inv evs st"
  obtain sp fs where st: "st = (sp, fs)" by fastforce
  have inv: "speak_inv (evs @ [ev]) (sp, fs)" using speak_inv_mono[OF inv0] st by simp
  have pend: "sk_pending sp = Some k \<Longrightarrow> k < length (sk_requests sp)" for k
    using inv by (simp add: speak_inv_def)
  have warm: "speak_inv (evs @ [ev]) (sp', fs @ [(k, e, False)])"
    if "sk_requests sp' = sk_requests sp" "sk_pending sp' = sk_pending sp" "k < length (sk_requests sp)"
      "e = None \<Longrightarrow> ready_for (evs @ [ev]) (sk_requests sp ! k)" for sp' k e
    using speak_inv_finisher[OF speak_inv_warm[OF inv that(1,2)], of k e] that by simp
  show ?thesis
  proof (cases ev)
    case (SendFails k)
    then show ?thesis using inv warm[of sp k "Some SpeakSendFailed"] by (auto simp: st)
  next
    case (TimerFires k)
    then show ?thesis using inv speak_inv_timer[OF inv, of k] by (simp add: st timer_fires_def add_finisher_def)
  next
    case (ReadyArrives kind nowMs msg)
    show ?thesis
    proof (cases "fst (HandleSpeakReadyMessage kind nowMs msg sp)")
      case None
      then have "HandleSpeakReadyMessage kind nowMs msg sp = (None, sp)"
        by (auto simp: HandleSpeakReadyMessage_def split: option.splits if_splits)
      then show ?thesis using inv ReadyArrives by (simp add: st add_finisher_def)
    next
      case (Some r)
      then obtain k where k: "sk_pending sp = Some k" "kind = MqttUdp"
        "ps_sessionID (sk_requests sp ! k) = [] \<or> trim_space (sr_sessionID msg) = ps_sessionID (sk_requests sp ! k)"
        "HandleSpeakReadyMessage kind nowMs msg sp = (Some (k, None), clearMqttRebootstrapPending (updateSpeakPathWarmAt nowMs sp))"
        by (auto simp: HandleSpeakReadyMessage_def split: option.splits if_splits)
      have "ready_for (evs @ [ev]) (sk_requests sp ! k)"
        using k ReadyArrives unfolding ready_for_def by auto
      then show ?thesis
        using warm[of "clearMqttRebootstrapPending (updateSpeakPathWarmAt nowMs sp)" k None] pend[OF k(1)] k ReadyArrives
        by (simp add: st add_finisher_def clearMqttRebootstrapPending_def updateSpeakPathWarmAt_def split: if_splits)
    qed
  next
    case (PathReset err)
    then show ?thesis
      using warm[of "sp\<lparr>sk_warmAt := 0\<rparr>" _ "Some err"] pend speak_inv_warm[OF inv, of "sp\<lparr>sk_warmAt := 0\<rparr>"]
      by (cases "sk_pending sp") (simp_all add: st resetSpeakPath_def add_finisher_def Let_def)
  next
    case (FinisherDetaches i)
    then show ?thesis using inv speak_inv_detach[OF inv, of i] by (simp add: st)
  next
    case (FinisherResolves i)
    then show ?thesis using inv speak_inv_resolve[OF inv, of i] by (simp add: st)
  qed (use inv warm[of sp] speak_inv_begin[OF inv] in \<open>simp_all add: st\<close>)
qed

lemma speak_run_inv: "speak_inv evs (speak_run evs)"
proof (induction evs rule: rev_induct)
  case Nil
  show ?case by (simp add: speak_run_Nil speak_inv_def fresh_speak_path_def)
next
  case (snoc ev evs)
  then show ?case by (simp add: speak_run_snoc speak_inv_exec)
qed

text \<open>A resolved request stays as it is.\<close>

lemma resolved_exec:
  assumes "\<not> (ps_once (sk_requests sp ! k) \<and> ps_timer (sk_requests sp ! k))" "k < length (sk_requests sp)" "ps_once (sk_requests sp ! k)"
  shows "k < length (sk_requests (fst (speak_exec ev (sp, fs)))) \<and>
    sk_requests (fst (speak_exec ev (sp, fs))) ! k = sk_requests sp ! k"
proof (cases ev)
  case (ReadyArrives kind nowMs msg)
  then show ?thesis
    using assms by (auto simp: add_finisher_def HandleSpeakReadyMessage_def clearMqttRebootstrapPending_def
        updateSpeakPathWarmAt_def split: option.splits if_splits)
next
  case (TimerFires j)
  then show ?thesis using assms by (auto simp: add_finisher_def timer_fires_def nth_list_update)
next
  case (PathReset err)
  then show ?thesis using assms by (auto simp: add_finisher_def resetSpeakPath_def Let_def split: option.splits)
next
  case (FinisherDetaches i)
  then show ?thesis using assms by (auto simp: detachPending_def)
next
  case (FinisherResolves i)
  then show ?thesis using assms by (cases "fst (fs ! i) = k") (auto simp: resolvePending_def nth_list_update resolve_def)
qed (use assms in \<open>auto simp: getOrCreatePendingSpeakRequest_def nth_append Let_def split: option.splits\<close>)

lemma resolved_run:
  assumes "k < length (sk_requests (fst (speak_run evs)))" "ps_once (sk_requests (fst (speak_run evs)) ! k)"
  shows "k < length (sk_requests (fst (speak_run (evs @ later)))) \<and>
    sk_requests (fst (speak_run (evs @ later))) ! k = sk_requests (fst (speak_run evs)) ! k"
proof (induction later rule: rev_induct)
  case (snoc ev later)
  obtain sp fs where run: "speak_run (evs @ later) = (sp, fs)" by fastforce
  have "\<not> (ps_once (sk_requests sp ! k) \<and> ps_timer (sk_requests sp ! k))"
    using speak_run_inv[of "evs @ later"] snoc run by (auto simp: speak_inv_def request_ok_def Let_def)
  moreover have "k < length (sk_requests sp)" "ps_once (sk_requests sp ! k)"
    using snoc assms(2) run by auto
  ultimately have "k < length (sk_requests (fst (speak_exec ev (sp, fs)))) \<and>
      sk_requests (fst (speak_exec ev (sp, fs))) ! k = sk_requests sp ! k"
    by (rule resolved_exec)
  moreover have "speak_run (evs @ later @ [ev]) = speak_exec ev (sp, fs)"
    using speak_run_snoc[of "evs @ later" ev] run by simp
  ultimately show ?case using snoc run by simp
qed (use assms in simp)

lemma request_ok_run:
  "k < length (sk_requests (fst (speak_run evs))) \<Longrightarrow> request_ok evs (speak_run evs) k"
  using speak_run_inv[of evs] by (simp add: speak_inv_def)

text \<open>
  C30. However the calls, the timers and the device's messages interleave: the channel of a speak request is closed at
  most once (a second close would panic), and it is closed exactly when the request is resolved; a request that is not resolved is
  the pending one with its timer running, or some call has taken it and is about to resolve it; its verdict never changes
  afterwards; and it is the good one only if a \<open>speak_ready\<close> for the session of the request arrived over MQTT.
\<close>

theorem speak_request_answered_once:
  assumes "k < length (sk_requests (fst (speak_run evs)))"
  shows "let (sp, finishers) = speak_run evs; p = sk_requests sp ! k in
    ps_closes p \<le> 1 \<and> (ps_closes p = 1 \<longleftrightarrow> ps_once p)
    \<and> (ps_once p \<or> (ps_timer p \<and> sk_pending sp = Some k) \<or> (\<exists>f\<in>set finishers. fst f = k))
    \<and> (ps_once p \<longrightarrow> sk_requests (fst (speak_run (evs @ later))) ! k = p)
    \<and> (ps_once p \<longrightarrow> ps_err p = None \<longrightarrow> ready_for evs p)"
proof -
  obtain sp finishers where run: "speak_run evs = (sp, finishers)" by fastforce
  show ?thesis
    using request_ok_run[OF assms] resolved_run[OF assms, of later] unfolding run request_ok_def Let_def
    by (auto split: if_splits)
qed

definition example_speak_events :: "speak_event list" where
  "example_speak_events =
     [SpeakBegins (lit ''s1''), ReadyArrives MqttUdp 5 \<lparr>sr_state = ''ready'', sr_sessionID = lit '' s1'', sr_udpReady = None\<rparr>,
      TimerFires 0, FinisherDetaches 1, FinisherDetaches 0, FinisherResolves 0, FinisherResolves 0]"

theorem speak_request_answered_once_witness:
  "let (sp, finishers) = speak_run example_speak_events; p = sk_requests sp ! 0 in
    ps_closes p = 1 \<and> ps_err p = None
    \<and> sk_requests (fst (speak_run (example_speak_events @ [TimerFires 0]))) ! 0 = p"
proof -
  have run: "speak_run example_speak_events = (\<lparr>sk_requests =
      [\<lparr>ps_sessionID = lit ''s1'', ps_timer = False, ps_once = True, ps_err = None, ps_closes = 1\<rparr>],
      sk_pending = None, sk_warmAt = 5, sk_rebootstrap = False\<rparr>, [])"
    by (simp add: speak_run_def example_speak_events_def fresh_speak_path_def getOrCreatePendingSpeakRequest_def
        HandleSpeakReadyMessage_def add_finisher_def timer_fires_def detachPending_def resolvePending_def resolve_def
        clearMqttRebootstrapPending_def updateSpeakPathWarmAt_def trim_space_def lit_def is_space_def)
  show ?thesis
    using speak_request_answered_once[of 0 example_speak_events "[TimerFires 0]"] by (simp add: run Let_def)
qed

end
