(* ===== verification/ChatManager.thy ===== *)
theory ChatManager
  imports SpeakPath
begin

text \<open>
  The sessions of one device connection: \<open>ChatManager\<close> of \<open>chat.go\<close> with the start and the close of a \<open>ChatSession\<close>
  (\<open>session.go\<close>) and of the \<open>ServerTransport\<close>. Any number of goroutines run its methods. A goroutine is a stack of
  frames; one frame is the code up to the next access to shared state (a critical section, an atomic, a channel
  operation, the entry or the exit of a \<open>sync.Once\<close>), and taking the frame off the stack and doing it is one step.

  Left outside are the insides of the calls that reach other components: what \<open>ChatSession.Start\<close> and the part of
  \<open>CloseWithReason\<close> before the close handler do to the speech pipeline, the MCP runtime, the hook hub, the parent
  messages, and what the handlers set in the client's state (its idle window, its identity, its configuration). Whether such a call succeeds is decided by the step (\<open>ok\<close>). The transport is the \<open>WebSocketConn\<close>, whose
  \<open>Close\<close> does not run the \<open>OnClose\<close> callbacks, or the \<open>MqttUdpConn\<close>, whose \<open>Close\<close> runs them before it returns.
\<close>

subsection \<open>State\<close>

text \<open>A \<open>sync.Once\<close>: which goroutine is inside.\<close>

datatype once_state = OnceFresh | OnceRunning nat | OnceDone

record chat_session =
  ss_closing :: bool
  ss_closeOnce :: once_state

datatype sent_control = SentHello | SentGoodbye

text \<open>
  Sessions, the channels \<open>startingSessionDone\<close> and the \<open>time.AfterFunc\<close> timers are numbered as they are made.
  \<open>cm_doneCloses\<close> counts the calls of \<open>close\<close> on a channel; a timer that has neither fired nor been stopped names
  the session it is for.
\<close>

record chat_manager =
  cm_kind :: transport_kind
  cm_sessions :: "nat \<Rightarrow> chat_session"
  cm_nextSession :: nat
  cm_session :: "nat option"
  cm_startingSession :: "nat option"
  cm_startingSessionDone :: "nat option"
  cm_doneCloses :: "nat \<Rightarrow> nat"
  cm_nextDone :: nat
  cm_helloMu :: "nat option"
  cm_helloInited :: bool
  cm_needFreshHello :: bool
  cm_closeOnce :: once_state
  cm_managerClosing :: bool
  cm_cleanupTarget :: "nat option"
  cm_cleanupTimer :: "nat option"
  cm_timers :: "nat \<Rightarrow> nat option"
  cm_nextTimer :: nat
  cm_speak :: speak_path
  cm_serverClosed :: bool
  cm_ctxDone :: bool
  cm_sent :: "sent_control list"

datatype ensure_error = ErrSessionClosing | ErrSessionStarting | ErrHelloMissing | ErrFreshHelloMissing | ErrStartFailed

datatype ensure_result = GotSession nat | NoSession ensure_error

text \<open>The frames, by the functions they belong to.\<close>

datatype ensure_pc =
    EnsureLoop bool
  | WaitDone nat bool
  | ReturnSession nat
  | ReturnError ensure_error
  | StartSession nat bool
  | StartFailed nat bool
  | FinishStart nat bool bool
  | CloseDone nat

datatype close_pc =
    CloseSession nat close_reason
  | SessionOnce nat close_reason
  | ClearSession nat close_reason
  | AfterClear close_reason
  | RequireFreshHello
  | SendGoodbye
  | SessionOnceEnd nat

datatype shutdown_pc =
    Shutdown bool
  | ShutdownSessions bool
  | ShutdownRest bool
  | CloseTransport
  | TransportClosed
  | CancelContext
  | ManagerUnclosing
  | ManagerOnceEnd

datatype cleanup_pc =
    CancelCleanup
  | StopTimer nat
  | ScheduleCleanup nat
  | ArmCleanup nat
  | CleanupFires nat
  | CleanupChecks nat
  | CleanupConfirms nat

datatype speak_pc =
    SpeakBegin gotext
  | SpeakReady int speak_ready_message
  | ResetSpeak speak_error
  | DetachSpeak nat
  | ResolveSpeak nat "speak_error option"

datatype message_pc =
    HelloLock
  | HelloBody
  | HelloAuth bool
  | HelloRespond bool
  | HelloSession bool
  | HelloUnlock
  | ListenGuard
  | ListenInited
  | ListenFresh
  | ListenSession
  | GoodbyeReceived
  | MarkStale
  | StaleSession
  | ResetLock
  | ResetHello

datatype frame =
    InEnsure ensure_pc
  | InClose close_pc
  | InShutdown shutdown_pc
  | InCleanup cleanup_pc
  | InSpeak speak_pc
  | InMessage message_pc

text \<open>A step leaves the frames that replace the one taken off and the new state.\<close>

type_synonym advance = "frame list \<times> chat_manager"

definition session_closing :: "chat_manager \<Rightarrow> nat \<Rightarrow> bool" where
  "session_closing w s = ss_closing (cm_sessions w s)"

definition session_once :: "chat_manager \<Rightarrow> nat \<Rightarrow> once_state" where
  "session_once w s = ss_closeOnce (cm_sessions w s)"

definition set_closing :: "nat \<Rightarrow> chat_manager \<Rightarrow> chat_manager" where
  "set_closing s w = w\<lparr>cm_sessions := (cm_sessions w)(s := (cm_sessions w s)\<lparr>ss_closing := True\<rparr>)\<rparr>"

definition set_once :: "nat \<Rightarrow> once_state \<Rightarrow> chat_manager \<Rightarrow> chat_manager" where
  "set_once s once w = w\<lparr>cm_sessions := (cm_sessions w)(s := (cm_sessions w s)\<lparr>ss_closeOnce := once\<rparr>)\<rparr>"

subsection \<open>\<open>ensureSessionInternal\<close> and \<open>finishSessionStart\<close>\<close>

definition NewChatSession :: "chat_manager \<Rightarrow> nat \<times> chat_manager" where
  "NewChatSession w =
     (cm_nextSession w,
      w\<lparr>cm_sessions := (cm_sessions w)(cm_nextSession w := \<lparr>ss_closing = False, ss_closeOnce = OnceFresh\<rparr>),
        cm_nextSession := Suc (cm_nextSession w)\<rparr>)"

definition ensureSessionInternal :: "bool \<Rightarrow> chat_manager \<Rightarrow> advance" where
  "ensureSessionInternal allowFreshHello w =
     (case cm_session w of
        Some s \<Rightarrow> ([InEnsure (ReturnSession s)], w)
      | None \<Rightarrow>
          (case cm_startingSession w of
             Some _ \<Rightarrow>
               (case cm_startingSessionDone w of
                  None \<Rightarrow> ([InEnsure (ReturnError ErrSessionStarting)], w)
                | Some c \<Rightarrow> ([InEnsure (WaitDone c allowFreshHello)], w))
           | None \<Rightarrow>
               if \<not> cm_helloInited w then ([InEnsure (ReturnError ErrHelloMissing)], w)
               else if cm_needFreshHello w \<and> \<not> allowFreshHello then ([InEnsure (ReturnError ErrFreshHelloMissing)], w)
               else (let (s, w1) = NewChatSession w in
                     ([InEnsure (StartSession s allowFreshHello)],
                      w1\<lparr>cm_startingSession := Some s, cm_startingSessionDone := Some (cm_nextDone w),
                         cm_nextDone := Suc (cm_nextDone w)\<rparr>))))"

definition close_starting :: "chat_manager \<Rightarrow> chat_manager" where
  "close_starting w = w\<lparr>cm_startingSession := None, cm_startingSessionDone := None\<rparr>"

definition wake :: "nat option \<Rightarrow> frame list" where
  "wake waitCh = (case waitCh of None \<Rightarrow> [] | Some c \<Rightarrow> [InEnsure (CloseDone c)])"

definition finishSessionStart :: "nat \<Rightarrow> bool \<Rightarrow> bool \<Rightarrow> chat_manager \<Rightarrow> advance" where
  "finishSessionStart s allowFreshHello started w =
     (if cm_startingSession w = Some s
      then (let waitCh = cm_startingSessionDone w; w1 = close_starting w;
                w2 = (if started \<and> \<not> session_closing w s
                      then (let w3 = w1\<lparr>cm_session := Some s\<rparr> in
                            if allowFreshHello then w3\<lparr>cm_needFreshHello := False\<rparr> else w3)
                      else w1)
            in (wake waitCh, w2))
      else ([], w))"

definition close_done :: "nat \<Rightarrow> chat_manager \<Rightarrow> chat_manager" where
  "close_done c w = w\<lparr>cm_doneCloses := (cm_doneCloses w)(c := Suc (cm_doneCloses w c))\<rparr>"

subsection \<open>\<open>CloseWithReason\<close> and \<open>handleSessionClosed\<close>\<close>

text \<open>\<open>sync.Once.Do\<close> by goroutine \<open>i\<close>: \<open>None\<close> while another call is inside.\<close>

definition CloseWithReason_once :: "nat \<Rightarrow> nat \<Rightarrow> close_reason \<Rightarrow> chat_manager \<Rightarrow> advance option" where
  "CloseWithReason_once i s reason w =
     (case session_once w s of
        OnceFresh \<Rightarrow> Some ([InCleanup CancelCleanup, InClose (ClearSession s reason), InClose (SessionOnceEnd s)], set_once s (OnceRunning i) w)
      | OnceRunning _ \<Rightarrow> None
      | OnceDone \<Rightarrow> Some ([], w))"

definition handleSessionClosed :: "nat \<Rightarrow> close_reason \<Rightarrow> chat_manager \<Rightarrow> advance" where
  "handleSessionClosed s reason w =
     (if cm_session w = Some s then ([InClose (AfterClear reason)], w\<lparr>cm_session := None\<rparr>)
      else if cm_startingSession w = Some s
      then (case cm_startingSessionDone w of
              None \<Rightarrow> ([InClose (AfterClear reason)], close_starting w)
            | Some c \<Rightarrow> ([InEnsure (CloseDone c)], close_starting w))
      else ([], w))"

definition shouldSendMqttGoodbyeOnSessionClose :: "close_reason \<Rightarrow> bool" where
  "shouldSendMqttGoodbyeOnSessionClose reason \<longleftrightarrow> reason \<in> {ExplicitExit, FatalError, AudioIdleTimeout}"

definition session_cleared :: "close_reason \<Rightarrow> chat_manager \<Rightarrow> frame list" where
  "session_cleared reason w =
     (if reason = ManagerShutdown then []
      else case cm_kind w of
             Websocket \<Rightarrow> [InShutdown (Shutdown True)]
           | MqttUdp \<Rightarrow>
               if reason = RetainedIdleTimeout then [InClose RequireFreshHello, InSpeak (ResetSpeak (SpeakSessionClosed reason))]
               else if \<not> shouldSendMqttGoodbyeOnSessionClose reason then []
               else [InClose RequireFreshHello, InSpeak (ResetSpeak (SpeakSessionClosed reason)), InClose SendGoodbye])"

definition say :: "sent_control \<Rightarrow> chat_manager \<Rightarrow> chat_manager" where
  "say c w = w\<lparr>cm_sent := cm_sent w @ [c]\<rparr>"

subsection \<open>\<open>shutdown\<close>\<close>

definition shutdown_once :: "nat \<Rightarrow> bool \<Rightarrow> chat_manager \<Rightarrow> advance option" where
  "shutdown_once i closeTransport w =
     (case cm_closeOnce w of
        OnceFresh \<Rightarrow> Some ([InCleanup CancelCleanup, InShutdown (ShutdownSessions closeTransport), InShutdown ManagerOnceEnd], w\<lparr>cm_closeOnce := OnceRunning i\<rparr>)
      | OnceRunning _ \<Rightarrow> None
      | OnceDone \<Rightarrow> Some ([], w))"

definition shutdown_sessions :: "bool \<Rightarrow> chat_manager \<Rightarrow> frame list" where
  "shutdown_sessions closeTransport w =
     (case cm_session w of None \<Rightarrow> [] | Some s \<Rightarrow> [InClose (CloseSession s ManagerShutdown)])
     @ (case cm_startingSession w of None \<Rightarrow> []
        | Some s \<Rightarrow> if cm_session w \<noteq> Some s then [InClose (CloseSession s ManagerShutdown)] else [])
     @ [InShutdown (ShutdownRest closeTransport)]"

definition shutdown_rest :: "bool \<Rightarrow> chat_manager \<Rightarrow> advance" where
  "shutdown_rest closeTransport w =
     (if closeTransport then ([InShutdown CloseTransport, InShutdown CancelContext, InShutdown ManagerUnclosing], w\<lparr>cm_managerClosing := True\<rparr>)
      else ([InShutdown CancelContext], w\<lparr>cm_serverClosed := True\<rparr>))"

text \<open>\<open>ServerTransport.close(true)\<close>.\<close>

definition serverTransport_Close :: "chat_manager \<Rightarrow> advance" where
  "serverTransport_Close w =
     (if cm_serverClosed w then ([], w)
      else (let w1 = w\<lparr>cm_serverClosed := True\<rparr> in
            case cm_kind w of
              MqttUdp \<Rightarrow> ([InShutdown TransportClosed], say SentGoodbye w1)
            | Websocket \<Rightarrow> ([], w1)))"

definition chat_OnClose :: "chat_manager \<Rightarrow> frame list" where
  "chat_OnClose w = (if cm_managerClosing w then [] else [InShutdown (Shutdown False)])"

subsection \<open>Cleanup of a retained session\<close>

definition cancelRetainedSessionCleanup :: "chat_manager \<Rightarrow> advance" where
  "cancelRetainedSessionCleanup w =
     ((case cm_cleanupTimer w of None \<Rightarrow> [] | Some k \<Rightarrow> [InCleanup (StopTimer k)]),
      w\<lparr>cm_cleanupTimer := None, cm_cleanupTarget := None\<rparr>)"

definition scheduleRetainedSessionCleanup :: "nat \<Rightarrow> chat_manager \<Rightarrow> frame list" where
  "scheduleRetainedSessionCleanup s w =
     (if session_closing w s then [] else [InCleanup CancelCleanup, InCleanup (ArmCleanup s)])"

definition arm_cleanup :: "nat \<Rightarrow> chat_manager \<Rightarrow> chat_manager" where
  "arm_cleanup s w =
     w\<lparr>cm_cleanupTarget := Some s, cm_cleanupTimer := Some (cm_nextTimer w),
       cm_timers := (cm_timers w)(cm_nextTimer w := Some s), cm_nextTimer := Suc (cm_nextTimer w)\<rparr>"

definition runRetainedSessionCleanup :: "nat \<Rightarrow> chat_manager \<Rightarrow> advance" where
  "runRetainedSessionCleanup s w =
     (if cm_cleanupTarget w \<noteq> Some s then ([], w)
      else ([InCleanup (CleanupChecks s)], w\<lparr>cm_cleanupTimer := None, cm_cleanupTarget := None\<rparr>))"

subsection \<open>Messages of the device\<close>

definition speaking :: "(speak_path \<Rightarrow> speak_path) \<Rightarrow> chat_manager \<Rightarrow> chat_manager" where
  "speaking f w = w\<lparr>cm_speak := f (cm_speak w)\<rparr>"

definition finish_speak :: "(nat \<times> speak_error option) option \<times> speak_path \<Rightarrow> chat_manager \<Rightarrow> advance" where
  "finish_speak r w =
     ((case fst r of None \<Rightarrow> [] | Some (k, err) \<Rightarrow> [InSpeak (DetachSpeak k), InSpeak (ResolveSpeak k err)]),
      w\<lparr>cm_speak := snd r\<rparr>)"

text \<open>\<open>HandleHelloMessage\<close> under \<open>helloMu\<close>; \<open>b\<close> is \<open>isFirstHello || requiresFreshHello\<close>.\<close>

definition hello_auth :: "bool \<Rightarrow> bool \<Rightarrow> chat_manager \<Rightarrow> advance" where
  "hello_auth ok b w =
     (if b then (if ok then ([InMessage (HelloRespond b)], w\<lparr>cm_helloInited := True\<rparr>) else ([], w))
      else ([InMessage (HelloRespond b)], w))"

definition hello_respond :: "bool \<Rightarrow> bool \<Rightarrow> chat_manager \<Rightarrow> advance" where
  "hello_respond ok b w =
     (if ok then ([InEnsure (EnsureLoop True), InMessage (HelloSession b)], say SentHello w)
      else (if b then [InClose RequireFreshHello] else [], w))"

text \<open>\<open>HandleListenMessage\<close>: \<open>requiresHelloBootstrapForSession\<close> reads the session, the flag and the requirement in turn.\<close>

definition listen_guard :: "chat_manager \<Rightarrow> frame list" where
  "listen_guard w =
     (if cm_session w \<noteq> None then [InEnsure (EnsureLoop False), InMessage ListenSession] else [InMessage ListenInited])"

definition listen_fresh :: "chat_manager \<Rightarrow> frame list" where
  "listen_fresh w = (if cm_needFreshHello w then [] else [InEnsure (EnsureLoop False), InMessage ListenSession])"

definition HandleGoodByeMessage :: "chat_manager \<Rightarrow> frame list" where
  "HandleGoodByeMessage w =
     (case cm_session w of
        Some s \<Rightarrow> [InCleanup (ScheduleCleanup s), InSpeak (ResetSpeak SpeakGoodbyeReset)]
      | None \<Rightarrow> [InSpeak (ResetSpeak SpeakGoodbyeReset)])"

text \<open>\<open>markMqttConversationStateStale("transport_ready")\<close>.\<close>

definition markMqttConversationStateStale :: "chat_manager \<Rightarrow> advance" where
  "markMqttConversationStateStale w =
     (if cm_kind w \<noteq> MqttUdp then ([], w)
      else if cm_managerClosing w then ([], w)
      else if sk_rebootstrap (cm_speak w) then ([], w)
      else ([InMessage StaleSession, InSpeak (ResetSpeak SpeakRebootstrap)], speaking (\<lambda>sp. sp\<lparr>sk_rebootstrap := True\<rparr>) w))"

definition stale_session :: "chat_manager \<Rightarrow> frame list" where
  "stale_session w =
     (case cm_session w of
        Some s \<Rightarrow> if session_closing w s then [] else [InCleanup (ScheduleCleanup s)]
      | None \<Rightarrow> [])"

definition lock_helloMu :: "nat \<Rightarrow> frame list \<Rightarrow> chat_manager \<Rightarrow> advance option" where
  "lock_helloMu i body w = (if cm_helloMu w = None then Some (body @ [InMessage HelloUnlock], w\<lparr>cm_helloMu := Some i\<rparr>) else None)"

subsection \<open>Steps\<close>

text \<open>
  One step of goroutine \<open>i\<close> whose last call of \<open>ensureSession\<close> returned \<open>r\<close>: \<open>None\<close> while the frame blocks. \<open>ok\<close> is
  the outcome of the call to another component in the frame.
\<close>

type_synonym reg = "ensure_result option"
type_synonym step_result = "(frame list \<times> reg \<times> chat_manager) option"

definition go_on :: "reg \<Rightarrow> advance \<Rightarrow> step_result" where
  "go_on r a = Some (fst a, r, snd a)"

fun ensure_step :: "bool \<Rightarrow> ensure_pc \<Rightarrow> reg \<Rightarrow> chat_manager \<Rightarrow> step_result" where
  "ensure_step ok (EnsureLoop allow) r w = go_on r (ensureSessionInternal allow w)"
| "ensure_step ok (WaitDone c allow) r w = (if 0 < cm_doneCloses w c then go_on r ([InEnsure (EnsureLoop allow)], w) else None)"
| "ensure_step ok (ReturnSession s) r w =
     Some ([], Some (if session_closing w s then NoSession ErrSessionClosing else GotSession s), w)"
| "ensure_step ok (ReturnError e) r w = Some ([], Some (NoSession e), w)"
| "ensure_step ok (StartSession s allow) r w =
     go_on r (if ok then [InEnsure (FinishStart s allow True), InEnsure (ReturnSession s)] else [InEnsure (StartFailed s allow)], w)"
| "ensure_step ok (StartFailed s allow) r w =
     go_on r ([InClose (SessionOnce s FatalError), InEnsure (FinishStart s allow False), InEnsure (ReturnError ErrStartFailed)],
       set_closing s w)"
| "ensure_step ok (FinishStart s allow started) r w = go_on r (finishSessionStart s allow started w)"
| "ensure_step ok (CloseDone c) r w = go_on r ([], close_done c w)"

fun close_step :: "nat \<Rightarrow> close_pc \<Rightarrow> chat_manager \<Rightarrow> advance option" where
  "close_step i (CloseSession s reason) w = Some ([InClose (SessionOnce s reason)], set_closing s w)"
| "close_step i (SessionOnce s reason) w = CloseWithReason_once i s reason w"
| "close_step i (ClearSession s reason) w = Some (handleSessionClosed s reason w)"
| "close_step i (AfterClear reason) w = Some (session_cleared reason w, w)"
| "close_step i RequireFreshHello w = Some ([], w\<lparr>cm_needFreshHello := True\<rparr>)"
| "close_step i SendGoodbye w = Some ([], say SentGoodbye w)"
| "close_step i (SessionOnceEnd s) w = Some ([], set_once s OnceDone w)"

fun shutdown_step :: "nat \<Rightarrow> shutdown_pc \<Rightarrow> chat_manager \<Rightarrow> advance option" where
  "shutdown_step i (Shutdown closeTransport) w = shutdown_once i closeTransport w"
| "shutdown_step i (ShutdownSessions closeTransport) w = Some (shutdown_sessions closeTransport w, w)"
| "shutdown_step i (ShutdownRest closeTransport) w = Some (shutdown_rest closeTransport w)"
| "shutdown_step i CloseTransport w = Some (serverTransport_Close w)"
| "shutdown_step i TransportClosed w = Some (chat_OnClose w, w)"
| "shutdown_step i CancelContext w = Some ([], w\<lparr>cm_ctxDone := True\<rparr>)"
| "shutdown_step i ManagerUnclosing w = Some ([], w\<lparr>cm_managerClosing := False\<rparr>)"
| "shutdown_step i ManagerOnceEnd w = Some ([], w\<lparr>cm_closeOnce := OnceDone\<rparr>)"

fun cleanup_step :: "cleanup_pc \<Rightarrow> chat_manager \<Rightarrow> advance" where
  "cleanup_step CancelCleanup w = cancelRetainedSessionCleanup w"
| "cleanup_step (StopTimer k) w = ([], w\<lparr>cm_timers := (cm_timers w)(k := None)\<rparr>)"
| "cleanup_step (ScheduleCleanup s) w = (scheduleRetainedSessionCleanup s w, w)"
| "cleanup_step (ArmCleanup s) w = ([], arm_cleanup s w)"
| "cleanup_step (CleanupFires s) w = runRetainedSessionCleanup s w"
| "cleanup_step (CleanupChecks s) w = (if cm_session w \<noteq> Some s then [] else [InCleanup (CleanupConfirms s)], w)"
| "cleanup_step (CleanupConfirms s) w =
     (if session_closing w s then [] else [InClose (CloseSession s RetainedIdleTimeout)], w)"

fun speak_frame_step :: "speak_pc \<Rightarrow> chat_manager \<Rightarrow> advance" where
  "speak_frame_step (SpeakBegin sid) w = ([], speaking (\<lambda>sp. snd (snd (getOrCreatePendingSpeakRequest sid sp))) w)"
| "speak_frame_step (SpeakReady nowMs msg) w = finish_speak (HandleSpeakReadyMessage (cm_kind w) nowMs msg (cm_speak w)) w"
| "speak_frame_step (ResetSpeak err) w = finish_speak (resetSpeakPath err (cm_speak w)) w"
| "speak_frame_step (DetachSpeak k) w = ([], speaking (detachPending k) w)"
| "speak_frame_step (ResolveSpeak k err) w = ([], speaking (resolvePending k err) w)"

fun message_step :: "bool \<Rightarrow> nat \<Rightarrow> message_pc \<Rightarrow> reg \<Rightarrow> chat_manager \<Rightarrow> advance option" where
  "message_step ok i HelloLock r w = lock_helloMu i [InMessage HelloBody] w"
| "message_step ok i HelloBody r w = Some ([InMessage (HelloAuth (\<not> cm_helloInited w \<or> cm_needFreshHello w))], w)"
| "message_step ok i (HelloAuth b) r w = Some (hello_auth ok b w)"
| "message_step ok i (HelloRespond b) r w = Some (hello_respond ok b w)"
| "message_step ok i (HelloSession b) r w =
     Some (case r of Some (NoSession _) \<Rightarrow> if b then [InClose RequireFreshHello] else [] | _ \<Rightarrow> [], w)"
| "message_step ok i HelloUnlock r w = Some ([], w\<lparr>cm_helloMu := None\<rparr>)"
| "message_step ok i ListenGuard r w = Some (listen_guard w, w)"
| "message_step ok i ListenInited r w = Some (if cm_helloInited w then [InMessage ListenFresh] else [], w)"
| "message_step ok i ListenFresh r w = Some (listen_fresh w, w)"
| "message_step ok i ListenSession r w =
     Some ([], case r of Some (GotSession _) \<Rightarrow> speaking clearMqttRebootstrapPending w | _ \<Rightarrow> w)"
| "message_step ok i GoodbyeReceived r w = Some (HandleGoodByeMessage w, w)"
| "message_step ok i MarkStale r w = Some (markMqttConversationStateStale w)"
| "message_step ok i StaleSession r w = Some (stale_session w, w)"
| "message_step ok i ResetLock r w = lock_helloMu i [InMessage ResetHello] w"
| "message_step ok i ResetHello r w = Some ([], w\<lparr>cm_helloInited := False, cm_needFreshHello := False\<rparr>)"

definition going_on :: "reg \<Rightarrow> advance option \<Rightarrow> step_result" where
  "going_on r a = (case a of None \<Rightarrow> None | Some a \<Rightarrow> go_on r a)"

fun frame_step :: "bool \<Rightarrow> nat \<Rightarrow> frame \<Rightarrow> reg \<Rightarrow> chat_manager \<Rightarrow> step_result" where
  "frame_step ok i (InEnsure pc) r w = ensure_step ok pc r w"
| "frame_step ok i (InClose pc) r w = going_on r (close_step i pc w)"
| "frame_step ok i (InShutdown pc) r w = going_on r (shutdown_step i pc w)"
| "frame_step ok i (InCleanup pc) r w = go_on r (cleanup_step pc w)"
| "frame_step ok i (InSpeak pc) r w = go_on r (speak_frame_step pc w)"
| "frame_step ok i (InMessage pc) r w = going_on r (message_step ok i pc r w)"

subsection \<open>Runs\<close>

datatype chat_call =
    HelloArrives
  | ListenArrives
  | GoodbyeArrives
  | OtherArrives
  | SpeakReadyArrives int speak_ready_message
  | SpeakWanted gotext
  | OpenClawResponds
  | BrokerOnline
  | ManagerCloses
  | TransportDrops
  | SessionEnds nat close_reason

primrec begin_call :: "chat_call \<Rightarrow> frame list" where
  "begin_call HelloArrives = [InCleanup CancelCleanup, InMessage HelloLock]"
| "begin_call ListenArrives = [InCleanup CancelCleanup, InMessage ListenGuard]"
| "begin_call GoodbyeArrives = [InMessage GoodbyeReceived]"
| "begin_call OtherArrives = [InCleanup CancelCleanup]"
| "begin_call (SpeakReadyArrives nowMs msg) = [InCleanup CancelCleanup, InSpeak (SpeakReady nowMs msg)]"
| "begin_call (SpeakWanted sid) = [InSpeak (SpeakBegin sid)]"
| "begin_call OpenClawResponds = [InCleanup CancelCleanup, InEnsure (EnsureLoop False)]"
| "begin_call BrokerOnline = [InMessage MarkStale, InMessage ResetLock]"
| "begin_call ManagerCloses = [InShutdown (Shutdown True)]"
| "begin_call TransportDrops = [InShutdown TransportClosed]"
| "begin_call (SessionEnds s reason) = [InClose (CloseSession s reason)]"

definition call_possible :: "chat_manager \<Rightarrow> chat_call \<Rightarrow> bool" where
  "call_possible w c = (case c of SessionEnds s reason \<Rightarrow> s < cm_nextSession w | _ \<Rightarrow> True)"

type_synonym goroutine = "frame list \<times> reg"
type_synonym chat_state = "goroutine list \<times> chat_manager"

text \<open>A move of a goroutine, and what starts a new one: a call, the timer of a retained session, the timer of a speak request.\<close>

inductive chat_moves :: "chat_state \<Rightarrow> chat_state \<Rightarrow> bool" where
  move: "i < length ths \<Longrightarrow> ths ! i = (f # fs, r) \<Longrightarrow> frame_step ok i f r w = Some (gs, r', w')
    \<Longrightarrow> chat_moves (ths, w) (ths[i := (gs @ fs, r')], w')"

inductive chat_events :: "chat_state \<Rightarrow> chat_state \<Rightarrow> bool" where
  called: "call_possible w c \<Longrightarrow> chat_events (ths, w) (ths @ [(begin_call c, None)], w)"
| cleanup_due: "cm_timers w k = Some s
    \<Longrightarrow> chat_events (ths, w) (ths @ [([InCleanup (CleanupFires s)], None)], w\<lparr>cm_timers := (cm_timers w)(k := None)\<rparr>)"
| speak_due: "finish_speak (timer_fires k (cm_speak w)) w = (gs, w')
    \<Longrightarrow> chat_events (ths, w) (ths @ [(gs, None)], w')"

definition NewChatManager :: "transport_kind \<Rightarrow> chat_manager" where
  "NewChatManager kind =
     \<lparr>cm_kind = kind, cm_sessions = (\<lambda>_. \<lparr>ss_closing = False, ss_closeOnce = OnceFresh\<rparr>), cm_nextSession = 0,
      cm_session = None, cm_startingSession = None, cm_startingSessionDone = None, cm_doneCloses = (\<lambda>_. 0), cm_nextDone = 0,
      cm_helloMu = None, cm_helloInited = False, cm_needFreshHello = False, cm_closeOnce = OnceFresh,
      cm_managerClosing = False, cm_cleanupTarget = None, cm_cleanupTimer = None, cm_timers = (\<lambda>_. None), cm_nextTimer = 0,
      cm_speak = fresh_speak_path, cm_serverClosed = False, cm_ctxDone = False, cm_sent = []\<rparr>"

inductive chat_reachable :: "transport_kind \<Rightarrow> chat_state \<Rightarrow> bool" for kind where
  new: "chat_reachable kind ([], NewChatManager kind)"
| moved: "chat_reachable kind st \<Longrightarrow> chat_moves st st' \<Longrightarrow> chat_reachable kind st'"
| happened: "chat_reachable kind st \<Longrightarrow> chat_events st st' \<Longrightarrow> chat_reachable kind st'"

end
