(* ===== verification/ChatStacks.thy ===== *)
theory ChatStacks
  imports ChatManager
begin

text \<open>
  The discipline of the goroutines of a \<open>ChatManager\<close>: what can lie below a frame on its stack, and what the state
  says of the frames on the stacks. Every step and every event keeps it.
\<close>

subsection \<open>What lies below a frame\<close>

text \<open>A session that is closing and that the manager no longer names.\<close>

definition gone :: "chat_manager \<Rightarrow> nat \<Rightarrow> bool" where
  "gone w s \<longleftrightarrow> s < cm_nextSession w \<and> session_closing w s \<and> cm_session w \<noteq> Some s \<and> cm_startingSession w \<noteq> Some s"

definition unlocked :: "frame set \<Rightarrow> bool" where
  "unlocked B \<longleftrightarrow> (\<forall>s. InClose (SessionOnceEnd s) \<notin> B) \<and> InShutdown ManagerOnceEnd \<notin> B
     \<and> (\<forall>s a b. InEnsure (FinishStart s a b) \<notin> B)"

definition others_gone :: "chat_manager \<Rightarrow> nat set \<Rightarrow> frame set \<Rightarrow> bool" where
  "others_gone w X B \<longleftrightarrow> (\<forall>s. InClose (SessionOnceEnd s) \<in> B \<longrightarrow> s \<in> X \<or> gone w s)"

definition in_shutdown :: "frame set \<Rightarrow> close_reason \<Rightarrow> bool" where
  "in_shutdown B reason \<longleftrightarrow> (InShutdown ManagerOnceEnd \<in> B \<longrightarrow> reason = ManagerShutdown)"

definition nested :: "frame set \<Rightarrow> bool" where
  "nested B \<longleftrightarrow> ((\<exists>s. InClose (SessionOnceEnd s) \<in> B) \<longrightarrow> InShutdown ManagerOnceEnd \<in> B)"

definition settled :: "frame set \<Rightarrow> bool" where
  "settled B \<longleftrightarrow> (\<forall>s a. InEnsure (StartSession s a) \<notin> B \<and> InEnsure (StartFailed s a) \<notin> B) \<and> (\<forall>c. InEnsure (CloseDone c) \<notin> B)"

fun ensure_ok :: "chat_manager \<Rightarrow> frame set \<Rightarrow> ensure_pc \<Rightarrow> bool" where
  "ensure_ok w B (EnsureLoop allow) = unlocked B"
| "ensure_ok w B (WaitDone c allow) = (unlocked B \<and> c < cm_nextDone w)"
| "ensure_ok w B (StartSession s allow) = (unlocked B \<and> s < cm_nextSession w)"
| "ensure_ok w B (StartFailed s allow) = (unlocked B \<and> s < cm_nextSession w)"
| "ensure_ok w B (FinishStart s allow started) = (unlocked B \<and> s < cm_nextSession w \<and> (started \<or> session_closing w s))"
| "ensure_ok w B pc = True"

fun close_ok :: "chat_manager \<Rightarrow> frame set \<Rightarrow> close_pc \<Rightarrow> bool" where
  "close_ok w B (CloseSession s reason) =
     (s < cm_nextSession w \<and> InClose (SessionOnceEnd s) \<notin> B \<and> others_gone w {} B \<and> in_shutdown B reason \<and> nested B)"
| "close_ok w B (SessionOnce s reason) =
     (s < cm_nextSession w \<and> session_closing w s \<and> InClose (SessionOnceEnd s) \<notin> B \<and> others_gone w {} B
      \<and> in_shutdown B reason \<and> nested B)"
| "close_ok w B (ClearSession s reason) =
     (s < cm_nextSession w \<and> session_closing w s \<and> others_gone w {s} B \<and> in_shutdown B reason)"
| "close_ok w B (AfterClear reason) = (others_gone w {} B \<and> in_shutdown B reason)"
| "close_ok w B (SessionOnceEnd s) = (s < cm_nextSession w \<and> InClose (SessionOnceEnd s) \<notin> B)"
| "close_ok w B pc = True"

fun shutdown_ok :: "chat_manager \<Rightarrow> frame set \<Rightarrow> shutdown_pc \<Rightarrow> bool" where
  "shutdown_ok w B (Shutdown ct) =
     (InShutdown ManagerOnceEnd \<notin> B \<and> InShutdown ManagerUnclosing \<notin> B \<and> others_gone w {} B
      \<and> (cm_kind w = MqttUdp \<longrightarrow> (\<forall>s. InClose (SessionOnceEnd s) \<notin> B)))"
| "shutdown_ok w B (ShutdownSessions ct) =
     (InShutdown ManagerOnceEnd \<in> B \<and> InShutdown ManagerUnclosing \<notin> B \<and> others_gone w {} B)"
| "shutdown_ok w B (ShutdownRest ct) = (InShutdown ManagerOnceEnd \<in> B \<and> InShutdown ManagerUnclosing \<notin> B)"
| "shutdown_ok w B CloseTransport = (InShutdown ManagerOnceEnd \<in> B \<and> InShutdown ManagerUnclosing \<in> B)"
| "shutdown_ok w B TransportClosed =
     (InShutdown ManagerUnclosing \<in> B \<or> (InShutdown ManagerOnceEnd \<notin> B \<and> (\<forall>s. InClose (SessionOnceEnd s) \<notin> B)))"
| "shutdown_ok w B ManagerUnclosing = (InShutdown ManagerOnceEnd \<in> B \<and> InShutdown ManagerUnclosing \<notin> B)"
| "shutdown_ok w B ManagerOnceEnd = (InShutdown ManagerOnceEnd \<notin> B \<and> InShutdown ManagerUnclosing \<notin> B)"
| "shutdown_ok w B CancelContext = True"

fun cleanup_ok :: "chat_manager \<Rightarrow> frame set \<Rightarrow> cleanup_pc \<Rightarrow> bool" where
  "cleanup_ok w B (ScheduleCleanup s) = (s < cm_nextSession w)"
| "cleanup_ok w B (ArmCleanup s) = (s < cm_nextSession w)"
| "cleanup_ok w B (CleanupFires s) = (s < cm_nextSession w \<and> unlocked B)"
| "cleanup_ok w B (CleanupChecks s) = (s < cm_nextSession w \<and> unlocked B)"
| "cleanup_ok w B (CleanupConfirms s) = (s < cm_nextSession w \<and> unlocked B)"
| "cleanup_ok w B pc = True"

fun message_ok :: "frame set \<Rightarrow> message_pc \<Rightarrow> bool" where
  "message_ok B HelloLock = (unlocked B \<and> InMessage HelloUnlock \<notin> B)"
| "message_ok B ResetLock = (unlocked B \<and> InMessage HelloUnlock \<notin> B)"
| "message_ok B HelloBody = unlocked B"
| "message_ok B (HelloAuth b) = unlocked B"
| "message_ok B (HelloRespond b) = unlocked B"
| "message_ok B ListenGuard = unlocked B"
| "message_ok B ListenInited = unlocked B"
| "message_ok B ListenFresh = unlocked B"
| "message_ok B pc = True"

fun frame_ok :: "chat_manager \<Rightarrow> frame set \<Rightarrow> frame \<Rightarrow> bool" where
  "frame_ok w B (InEnsure pc) = ensure_ok w B pc"
| "frame_ok w B (InClose pc) = close_ok w B pc"
| "frame_ok w B (InShutdown pc) = shutdown_ok w B pc"
| "frame_ok w B (InCleanup pc) = cleanup_ok w B pc"
| "frame_ok w B (InSpeak pc) = True"
| "frame_ok w B (InMessage pc) = message_ok B pc"

primrec stack_ok :: "chat_manager \<Rightarrow> frame list \<Rightarrow> bool" where
  "stack_ok w [] = True"
| "stack_ok w (f # fs) = (settled (set fs) \<and> frame_ok w (set fs) f \<and> stack_ok w fs)"

text \<open>What a step leaves as it was for the other stacks.\<close>

definition moves_on :: "chat_manager \<Rightarrow> chat_manager \<Rightarrow> bool" where
  "moves_on w w' \<longleftrightarrow> cm_kind w' = cm_kind w \<and> cm_nextSession w \<le> cm_nextSession w' \<and> cm_nextDone w \<le> cm_nextDone w'
     \<and> (\<forall>s < cm_nextSession w. session_closing w s \<longrightarrow> session_closing w' s) \<and> (\<forall>s. gone w s \<longrightarrow> gone w' s)"

lemma moves_onD:
  assumes "moves_on w w'"
  shows "cm_kind w' = cm_kind w" "s < cm_nextSession w \<Longrightarrow> s < cm_nextSession w'" "c < cm_nextDone w \<Longrightarrow> c < cm_nextDone w'"
    "s < cm_nextSession w \<Longrightarrow> session_closing w s \<Longrightarrow> session_closing w' s" "gone w s \<Longrightarrow> gone w' s"
  using assms by (auto simp: moves_on_def)

lemma others_gone_mono: "moves_on w w' \<Longrightarrow> others_gone w X B \<Longrightarrow> others_gone w' X B"
  by (auto simp: others_gone_def dest: moves_onD)

lemma frame_ok_mono: "moves_on w w' \<Longrightarrow> frame_ok w B f \<Longrightarrow> frame_ok w' B f"
proof (cases f)
  case (InEnsure pc)
  then show "moves_on w w' \<Longrightarrow> frame_ok w B f \<Longrightarrow> frame_ok w' B f"
    by (cases pc) (auto dest: moves_onD)
next
  case (InClose pc)
  then show "moves_on w w' \<Longrightarrow> frame_ok w B f \<Longrightarrow> frame_ok w' B f"
    by (cases pc) (auto dest: moves_onD others_gone_mono)
next
  case (InShutdown pc)
  then show "moves_on w w' \<Longrightarrow> frame_ok w B f \<Longrightarrow> frame_ok w' B f"
    by (cases pc) (auto dest: moves_onD others_gone_mono)
next
  case (InCleanup pc)
  then show "moves_on w w' \<Longrightarrow> frame_ok w B f \<Longrightarrow> frame_ok w' B f"
    by (cases pc) (auto dest: moves_onD)
qed auto

lemma stack_ok_mono: "moves_on w w' \<Longrightarrow> stack_ok w fs \<Longrightarrow> stack_ok w' fs"
  by (induction fs) (auto intro: frame_ok_mono)

subsection \<open>The state of the manager\<close>

definition manager_ok :: "chat_manager \<Rightarrow> bool" where
  "manager_ok w \<longleftrightarrow>
     (\<forall>s. cm_session w = Some s \<longrightarrow> s < cm_nextSession w \<and> cm_startingSession w = None)
     \<and> (\<forall>s. cm_startingSession w = Some s \<longrightarrow> s < cm_nextSession w)
     \<and> (cm_startingSession w = None \<longleftrightarrow> cm_startingSessionDone w = None)
     \<and> (\<forall>c. cm_startingSessionDone w = Some c \<longrightarrow> c < cm_nextDone w)
     \<and> (\<forall>s. session_closing w s \<longrightarrow> s < cm_nextSession w)
     \<and> (\<forall>s < cm_nextSession w. session_closing w s \<or> cm_session w = Some s \<or> cm_startingSession w = Some s)
     \<and> (\<forall>k s. cm_timers w k = Some s \<longrightarrow> s < cm_nextSession w)
     \<and> (\<forall>s. session_once w s \<noteq> OnceFresh \<longrightarrow> s < cm_nextSession w)"

lemma manager_okD:
  assumes "manager_ok w"
  shows "cm_session w = Some s \<Longrightarrow> s < cm_nextSession w" "cm_session w = Some s \<Longrightarrow> cm_startingSession w = None"
    "cm_startingSession w = Some s \<Longrightarrow> s < cm_nextSession w"
    "cm_startingSession w = None \<longleftrightarrow> cm_startingSessionDone w = None"
    "cm_startingSessionDone w = Some c \<Longrightarrow> c < cm_nextDone w"
    "session_closing w s \<Longrightarrow> s < cm_nextSession w"
    "s < cm_nextSession w \<Longrightarrow> session_closing w s \<or> cm_session w = Some s \<or> cm_startingSession w = Some s"
    "cm_timers w k = Some s \<Longrightarrow> s < cm_nextSession w" "session_once w s \<noteq> OnceFresh \<Longrightarrow> s < cm_nextSession w"
  using assms by (auto simp: manager_ok_def)

text \<open>An operation that leaves the sessions and the channels alone.\<close>

definition same_sessions :: "chat_manager \<Rightarrow> chat_manager \<Rightarrow> bool" where
  "same_sessions w w' \<longleftrightarrow> cm_kind w' = cm_kind w \<and> cm_sessions w' = cm_sessions w \<and> cm_nextSession w' = cm_nextSession w
     \<and> cm_session w' = cm_session w \<and> cm_startingSession w' = cm_startingSession w
     \<and> cm_startingSessionDone w' = cm_startingSessionDone w \<and> cm_doneCloses w' = cm_doneCloses w \<and> cm_nextDone w' = cm_nextDone w"

lemma same_sessions_closing: "same_sessions w w' \<Longrightarrow> session_closing w' = session_closing w \<and> session_once w' = session_once w"
  by (auto simp: same_sessions_def session_closing_def session_once_def)

lemma same_sessions_moves_on: "same_sessions w w' \<Longrightarrow> moves_on w w'"
  using same_sessions_closing[of w w'] by (auto simp: same_sessions_def moves_on_def gone_def)

lemma same_sessions_ok:
  "same_sessions w w' \<Longrightarrow> manager_ok w \<Longrightarrow> (\<forall>k s. cm_timers w' k = Some s \<longrightarrow> s < cm_nextSession w) \<Longrightarrow> manager_ok w'"
  using same_sessions_closing[of w w'] by (auto simp: same_sessions_def manager_ok_def)

lemma moves_on_refl [simp]: "moves_on w w"
  by (simp add: moves_on_def)

lemma set_closing_simps [simp]:
  "session_closing (set_closing s w) x \<longleftrightarrow> x = s \<or> session_closing w x"
  "session_once (set_closing s w) x = session_once w x"
  "session_closing (set_once s once w) x = session_closing w x"
  "session_once (set_once s once w) x = (if x = s then once else session_once w x)"
  by (simp_all add: set_closing_def set_once_def session_closing_def session_once_def)

lemma set_closing_fields [simp]:
  "cm_kind (set_closing s w) = cm_kind w" "cm_nextSession (set_closing s w) = cm_nextSession w"
  "cm_session (set_closing s w) = cm_session w" "cm_startingSession (set_closing s w) = cm_startingSession w"
  "cm_startingSessionDone (set_closing s w) = cm_startingSessionDone w" "cm_doneCloses (set_closing s w) = cm_doneCloses w"
  "cm_nextDone (set_closing s w) = cm_nextDone w" "cm_timers (set_closing s w) = cm_timers w"
  "cm_closeOnce (set_closing s w) = cm_closeOnce w" "cm_helloMu (set_closing s w) = cm_helloMu w"
  "cm_managerClosing (set_closing s w) = cm_managerClosing w"
  by (simp_all add: set_closing_def)

lemma set_once_fields [simp]:
  "cm_kind (set_once s once w) = cm_kind w" "cm_nextSession (set_once s once w) = cm_nextSession w"
  "cm_session (set_once s once w) = cm_session w" "cm_startingSession (set_once s once w) = cm_startingSession w"
  "cm_startingSessionDone (set_once s once w) = cm_startingSessionDone w" "cm_doneCloses (set_once s once w) = cm_doneCloses w"
  "cm_nextDone (set_once s once w) = cm_nextDone w" "cm_timers (set_once s once w) = cm_timers w"
  "cm_closeOnce (set_once s once w) = cm_closeOnce w" "cm_helloMu (set_once s once w) = cm_helloMu w"
  "cm_managerClosing (set_once s once w) = cm_managerClosing w"
  by (simp_all add: set_once_def)

lemma set_closing_ok:
  "manager_ok w \<Longrightarrow> s < cm_nextSession w \<Longrightarrow> manager_ok (set_closing s w)" "moves_on w (set_closing s w)"
  by (auto simp: manager_ok_def moves_on_def gone_def)

lemma set_once_ok: "manager_ok w \<Longrightarrow> s < cm_nextSession w \<Longrightarrow> manager_ok (set_once s once w)" "moves_on w (set_once s once w)"
  by (auto simp: manager_ok_def moves_on_def gone_def)

text \<open>The record updates that concern neither.\<close>

lemma same_sessions_intros [simp]:
  "same_sessions w w"
  "same_sessions w (w\<lparr>cm_needFreshHello := b\<rparr>)" "same_sessions w (w\<lparr>cm_helloInited := b\<rparr>)"
  "same_sessions w (w\<lparr>cm_helloInited := b, cm_needFreshHello := b'\<rparr>)"
  "same_sessions w (w\<lparr>cm_helloMu := m\<rparr>)" "same_sessions w (w\<lparr>cm_closeOnce := once\<rparr>)"
  "same_sessions w (w\<lparr>cm_managerClosing := b\<rparr>)" "same_sessions w (w\<lparr>cm_ctxDone := b\<rparr>)"
  "same_sessions w (w\<lparr>cm_serverClosed := b\<rparr>)" "same_sessions w (w\<lparr>cm_speak := sp\<rparr>)" "same_sessions w (say c w)"
  "same_sessions w (w\<lparr>cm_sent := l\<rparr>)" "same_sessions w (w\<lparr>cm_serverClosed := b, cm_sent := l\<rparr>)"
  "same_sessions w (say c (w\<lparr>cm_serverClosed := b\<rparr>))" "same_sessions w (speaking g w)"
  "same_sessions w (w\<lparr>cm_cleanupTimer := t, cm_cleanupTarget := x\<rparr>)" "same_sessions w (w\<lparr>cm_timers := ts\<rparr>)"
  "same_sessions w (arm_cleanup s w)"
  by (simp_all add: same_sessions_def say_def speaking_def arm_cleanup_def)

subsection \<open>Steps keep the discipline\<close>

lemma unclosing_in_shutdown:
  "stack_ok w fs \<Longrightarrow> InShutdown ManagerUnclosing \<in> set fs \<Longrightarrow> InShutdown ManagerOnceEnd \<in> set fs"
  by (induction fs) auto

lemma unlocked_others: "unlocked B \<Longrightarrow> others_gone w X B"
  by (simp add: unlocked_def others_gone_def)

definition step_kept :: "frame list \<Rightarrow> chat_manager \<Rightarrow> frame list \<times> chat_manager \<Rightarrow> bool" where
  "step_kept fs w a \<longleftrightarrow> manager_ok (snd a) \<and> moves_on w (snd a) \<and> (stack_ok (snd a) fs \<longrightarrow> stack_ok (snd a) (fst a @ fs))"

lemma step_kept_same:
  assumes "manager_ok w" "same_sessions w (snd a)" "cm_timers (snd a) = cm_timers w"
    "stack_ok (snd a) fs \<Longrightarrow> stack_ok (snd a) (fst a @ fs)"
  shows "step_kept fs w a"
  using assms same_sessions_ok[OF assms(2,1)] same_sessions_moves_on[OF assms(2)]
  by (auto simp: step_kept_def dest: manager_okD)

lemma NewChatSession_closing:
  "NewChatSession w = (s, w1) \<Longrightarrow> session_closing w1 x \<longleftrightarrow> x \<noteq> cm_nextSession w \<and> session_closing w x"
  "NewChatSession w = (s, w1) \<Longrightarrow> session_once w1 x = (if x = cm_nextSession w then OnceFresh else session_once w x)"
  by (auto simp: NewChatSession_def session_closing_def session_once_def split: if_splits)

lemma ensureSessionInternal_kept:
  assumes ok: "manager_ok w" and un: "unlocked (set fs)" and "settled (set fs)"
  shows "step_kept fs w (ensureSessionInternal allow w)"
proof (cases "cm_session w = None \<and> cm_startingSession w = None \<and> cm_helloInited w \<and> \<not> (cm_needFreshHello w \<and> \<not> allow)")
  case True
  obtain s w1 where new: "NewChatSession w = (s, w1)" by fastforce
  let ?w = "w1\<lparr>cm_startingSession := Some s, cm_startingSessionDone := Some (cm_nextDone w), cm_nextDone := Suc (cm_nextDone w)\<rparr>"
  have run: "ensureSessionInternal allow w = ([InEnsure (StartSession s allow)], ?w)"
    using True new by (auto simp: ensureSessionInternal_def NewChatSession_def Let_def)
  have closing: "session_closing ?w x \<longleftrightarrow> x \<noteq> cm_nextSession w \<and> session_closing w x" for x
    using NewChatSession_closing(1)[OF new, of x] by (simp add: session_closing_def)
  have s: "s = cm_nextSession w" "cm_nextSession w1 = Suc (cm_nextSession w)" "cm_timers w1 = cm_timers w"
    "cm_kind w1 = cm_kind w" "cm_session w1 = cm_session w" "cm_doneCloses w1 = cm_doneCloses w"
    using new by (auto simp: NewChatSession_def)
  have once: "session_once ?w x = (if x = cm_nextSession w then OnceFresh else session_once w x)" for x
    using NewChatSession_closing(2)[OF new, of x] by (simp add: session_once_def)
  have "manager_ok ?w"
    using ok True s closing once unfolding manager_ok_def by (auto simp: less_Suc_eq split: if_splits)
  moreover have "moves_on w ?w"
    using True s closing unfolding moves_on_def gone_def by auto
  ultimately show ?thesis
    using s assms by (simp add: run step_kept_def)
next
  case False
  then have same: "snd (ensureSessionInternal allow w) = w"
    by (auto simp: ensureSessionInternal_def split: option.splits)
  have "stack_ok w fs \<Longrightarrow> stack_ok w (fst (ensureSessionInternal allow w) @ fs)"
    using False assms manager_okD[OF ok]
    by (auto simp: ensureSessionInternal_def unlocked_def settled_def split: option.splits if_splits)
  then show ?thesis
    using same ok by (simp add: step_kept_def)
qed

lemma close_starting_simps [simp]:
  "session_closing (close_starting w) = session_closing w" "session_once (close_starting w) = session_once w"
  "cm_session (close_starting w) = cm_session w" "cm_startingSession (close_starting w) = None"
  "cm_startingSessionDone (close_starting w) = None" "cm_kind (close_starting w) = cm_kind w"
  "cm_nextSession (close_starting w) = cm_nextSession w" "cm_nextDone (close_starting w) = cm_nextDone w"
  "cm_timers (close_starting w) = cm_timers w" "cm_doneCloses (close_starting w) = cm_doneCloses w"
  "cm_closeOnce (close_starting w) = cm_closeOnce w" "cm_helloMu (close_starting w) = cm_helloMu w"
  "cm_managerClosing (close_starting w) = cm_managerClosing w"
  by (simp_all add: close_starting_def session_closing_def[abs_def] session_once_def[abs_def])

lemma session_fields [simp]:
  "session_closing (w\<lparr>cm_session := x\<rparr>) = session_closing w" "session_closing (w\<lparr>cm_needFreshHello := b\<rparr>) = session_closing w"
  "session_once (w\<lparr>cm_session := x\<rparr>) = session_once w" "session_once (w\<lparr>cm_needFreshHello := b\<rparr>) = session_once w"
  by (simp_all add: session_closing_def[abs_def] session_once_def[abs_def])

lemma close_starting_ok:
  assumes "manager_ok w" "cm_startingSession w = Some s" "session_closing w s"
  shows "manager_ok (close_starting w)" "moves_on w (close_starting w)"
  using assms by (auto simp: manager_ok_def moves_on_def gone_def)

lemma installed_ok:
  assumes ok: "manager_ok w" and s: "cm_startingSession w = Some s" "\<not> session_closing w s"
  shows "manager_ok (close_starting w\<lparr>cm_session := Some s\<rparr>)" "moves_on w (close_starting w\<lparr>cm_session := Some s\<rparr>)"
proof -
  have "cm_session w = None" using manager_okD(2)[OF ok] s by (cases "cm_session w") auto
  then show "manager_ok (close_starting w\<lparr>cm_session := Some s\<rparr>)" "moves_on w (close_starting w\<lparr>cm_session := Some s\<rparr>)"
    using ok s by (auto simp: manager_ok_def moves_on_def gone_def)
qed

lemma moves_on_trans: "moves_on w w1 \<Longrightarrow> moves_on w1 w2 \<Longrightarrow> moves_on w w2"
  unfolding moves_on_def by auto

lemma finishSessionStart_kept:
  assumes ok: "manager_ok w" and "settled (set fs)" and st: "started \<or> session_closing w s"
  shows "step_kept fs w (finishSessionStart s allow started w)"
proof (cases "cm_startingSession w = Some s")
  case True
  then obtain c where c: "cm_startingSessionDone w = Some c"
    using manager_okD(4)[OF ok] by (cases "cm_startingSessionDone w") auto
  let ?i = "close_starting w\<lparr>cm_session := Some s\<rparr>"
  have fresh: "manager_ok (?i\<lparr>cm_needFreshHello := False\<rparr>)" "moves_on w (?i\<lparr>cm_needFreshHello := False\<rparr>)"
    if "\<not> session_closing w s"
  proof -
    have same: "same_sessions ?i (?i\<lparr>cm_needFreshHello := False\<rparr>)" by simp
    show "manager_ok (?i\<lparr>cm_needFreshHello := False\<rparr>)"
      using same_sessions_ok[OF same installed_ok(1)[OF ok True that]] manager_okD(8)[OF ok] by simp
    show "moves_on w (?i\<lparr>cm_needFreshHello := False\<rparr>)"
      using moves_on_trans[OF installed_ok(2)[OF ok True that] same_sessions_moves_on[OF same]] .
  qed
  show ?thesis
    using True c assms(2) st close_starting_ok[OF ok True] installed_ok[OF ok True] fresh
    by (auto simp: finishSessionStart_def step_kept_def wake_def Let_def)
qed (simp add: finishSessionStart_def step_kept_def ok)

lemma handleSessionClosed_kept:
  assumes ok: "manager_ok w" and "settled (set fs)" and pre: "close_ok w (set fs) (ClearSession s reason)"
  shows "step_kept fs w (handleSessionClosed s reason w)"
proof -
  have closing: "session_closing w s" "s < cm_nextSession w" using pre by auto
  let ?w = "w\<lparr>cm_session := None\<rparr>"
  have cleared: "manager_ok ?w \<and> moves_on w ?w \<and> gone ?w s" if "cm_session w = Some s"
    using ok that closing by (auto simp: manager_ok_def moves_on_def gone_def)
  have "others_gone ?w {} (set fs)" if s: "cm_session w = Some s"
    using pre cleared[OF s] others_gone_mono[of w ?w "{s}" "set fs"] by (auto simp: others_gone_def)
  moreover have "cm_startingSessionDone w \<noteq> None" if "cm_startingSession w = Some s"
    using manager_okD(4)[OF ok] that by auto
  ultimately show ?thesis
    using assms cleared close_starting_ok[OF ok _ closing(1)]
    by (auto simp: handleSessionClosed_def step_kept_def split: option.splits)
qed

lemma close_step_kept:
  assumes ok: "manager_ok w" and set: "settled (set fs)" and pre: "close_ok w (set fs) pc" and fs: "stack_ok w fs"
    and step: "close_step i pc w = Some a"
  shows "step_kept fs w a"
proof (cases pc)
  case (CloseSession s reason)
  then have s: "s < cm_nextSession w" using pre by simp
  then show ?thesis
    using CloseSession step pre set set_closing_ok(1)[OF ok s] set_closing_ok(2)[of w s]
      others_gone_mono[of w "set_closing s w" "{}" "set fs"]
    by (auto simp: step_kept_def)
next
  case (SessionOnce s reason)
  show ?thesis
  proof (cases "session_once w s")
    case OnceFresh
    then show ?thesis
      using SessionOnce step pre set set_once_ok(1)[OF ok, of s "OnceRunning i"] set_once_ok(2)[of w s "OnceRunning i"]
        others_gone_mono[of w "set_once s (OnceRunning i) w" "{}" "set fs"]
      by (auto simp: CloseWithReason_once_def step_kept_def settled_def others_gone_def in_shutdown_def nested_def)
  qed (use SessionOnce step ok in \<open>auto simp: CloseWithReason_once_def step_kept_def\<close>)
next
  case (ClearSession s reason)
  then show ?thesis using handleSessionClosed_kept[OF ok set, of s reason] step pre by simp
next
  case (AfterClear reason)
  have "stack_ok w (session_cleared reason w @ fs)"
    using AfterClear pre fs set unclosing_in_shutdown[OF fs]
    by (auto simp: session_cleared_def in_shutdown_def settled_def split: transport_kind.splits)
  then show ?thesis using AfterClear step ok by (auto simp: step_kept_def)
next
  case (SessionOnceEnd s)
  then show ?thesis using step pre set_once_ok(1)[OF ok, of s OnceDone] set_once_ok(2)[of w s OnceDone] by (auto simp: step_kept_def)
qed (use step ok in \<open>auto intro!: step_kept_same simp: say_def\<close>)

lemma shutdown_step_kept:
  assumes ok: "manager_ok w" and set: "settled (set fs)" and pre: "shutdown_ok w (set fs) pc" and fs: "stack_ok w fs"
    and busy: "InShutdown ManagerUnclosing \<in> set fs \<Longrightarrow> cm_managerClosing w"
    and step: "shutdown_step i pc w = Some a"
  shows "step_kept fs w a"
proof (cases pc)
  case (Shutdown ct)
  have og: "others_gone (w\<lparr>cm_closeOnce := OnceRunning i\<rparr>) {} (set fs)" if "others_gone w {} (set fs)"
    using others_gone_mono[OF same_sessions_moves_on, of w "w\<lparr>cm_closeOnce := OnceRunning i\<rparr>"] that by simp
  show ?thesis
    using Shutdown step ok pre set og
    by (auto intro!: step_kept_same simp: shutdown_once_def settled_def others_gone_def split: once_state.splits)
next
  case (ShutdownSessions ct)
  have "stack_ok w (shutdown_sessions ct w @ fs)"
    using ShutdownSessions pre fs set manager_okD[OF ok]
    by (auto simp: shutdown_sessions_def settled_def others_gone_def in_shutdown_def nested_def gone_def split: option.splits)
  then show ?thesis using ShutdownSessions step ok by (auto simp: step_kept_def)
next
  case (ShutdownRest ct)
  then show ?thesis
    using step ok pre set by (auto intro!: step_kept_same simp: shutdown_rest_def settled_def)
next
  case CloseTransport
  then show ?thesis
    using step ok pre set
    by (auto intro!: step_kept_same simp: serverTransport_Close_def say_def Let_def split: transport_kind.splits)
next
  case TransportClosed
  have "stack_ok w (chat_OnClose w @ fs)"
    using TransportClosed pre fs set busy unclosing_in_shutdown[OF fs]
    by (auto simp: chat_OnClose_def others_gone_def)
  then show ?thesis using TransportClosed step ok by (auto simp: step_kept_def)
qed (use step ok in \<open>auto intro!: step_kept_same\<close>)

lemma cleanup_step_kept:
  assumes ok: "manager_ok w" and set: "settled (set fs)" and pre: "cleanup_ok w (set fs) pc"
  shows "step_kept fs w (cleanup_step pc w)"
proof (cases pc)
  case (StopTimer k)
  have same: "same_sessions w (w\<lparr>cm_timers := (cm_timers w)(k := None)\<rparr>)" by simp
  show ?thesis
    using StopTimer same_sessions_ok[OF same ok] same_sessions_moves_on[OF same] manager_okD(8)[OF ok]
    by (simp add: step_kept_def)
next
  case (ArmCleanup s)
  have same: "same_sessions w (arm_cleanup s w)" by simp
  have "\<forall>k x. cm_timers (arm_cleanup s w) k = Some x \<longrightarrow> x < cm_nextSession w"
    using manager_okD(8)[OF ok] pre ArmCleanup by (auto simp: arm_cleanup_def)
  then show ?thesis
    using ArmCleanup same_sessions_ok[OF same ok] same_sessions_moves_on[OF same] by (simp add: step_kept_def)
next
  case CancelCleanup
  then show ?thesis
    using ok set by (auto intro!: step_kept_same simp: cancelRetainedSessionCleanup_def split: option.splits)
next
  case (CleanupFires s)
  then show ?thesis
    using ok set pre by (auto intro!: step_kept_same simp: runRetainedSessionCleanup_def)
qed (use ok set pre unlocked_others in \<open>auto intro!: step_kept_same
       simp: scheduleRetainedSessionCleanup_def unlocked_def in_shutdown_def nested_def settled_def others_gone_def\<close>)

lemma speak_frame_kept:
  assumes "manager_ok w" "settled (set fs)"
  shows "step_kept fs w (speak_frame_step pc w)"
  using assms
  by (cases pc) (auto intro!: step_kept_same simp: finish_speak_def settled_def speaking_def split: option.splits)

lemma message_step_kept:
  assumes ok: "manager_ok w" and set: "settled (set fs)" and pre: "message_ok (set fs) pc"
    and step: "message_step ok' i pc r w = Some a"
  shows "step_kept fs w a"
proof (cases pc)
  case HelloLock
  then show ?thesis using step ok set pre
    by (auto intro!: step_kept_same simp: lock_helloMu_def unlocked_def settled_def split: if_splits)
next
  case ResetLock
  then show ?thesis using step ok set pre
    by (auto intro!: step_kept_same simp: lock_helloMu_def unlocked_def settled_def split: if_splits)
next
  case (HelloRespond b)
  then show ?thesis using step ok set pre
    by (auto intro!: step_kept_same simp: hello_respond_def unlocked_def settled_def say_def)
next
  case (HelloAuth b)
  then show ?thesis using step ok set pre
    by (auto intro!: step_kept_same simp: hello_auth_def unlocked_def settled_def split: if_splits)
next
  case ListenGuard
  then show ?thesis using step ok set pre
    by (auto intro!: step_kept_same simp: listen_guard_def unlocked_def settled_def)
next
  case ListenFresh
  then show ?thesis using step ok set pre
    by (auto intro!: step_kept_same simp: listen_fresh_def unlocked_def settled_def)
next
  case MarkStale
  then show ?thesis using step ok set pre
    by (auto intro!: step_kept_same simp: markMqttConversationStateStale_def settled_def speaking_def split: if_splits)
next
  case GoodbyeReceived
  then show ?thesis using step ok set pre manager_okD(1)[OF ok]
    by (auto intro!: step_kept_same simp: HandleGoodByeMessage_def settled_def split: option.splits)
next
  case StaleSession
  then show ?thesis using step ok set pre manager_okD(1)[OF ok]
    by (auto intro!: step_kept_same simp: stale_session_def settled_def split: option.splits)
qed (use step ok set pre in \<open>auto intro!: step_kept_same simp: speaking_def unlocked_def settled_def
       split: option.splits ensure_result.splits\<close>)

lemma close_done_kept: "manager_ok w \<Longrightarrow> manager_ok (close_done c w)" "moves_on w (close_done c w)"
  by (auto simp: manager_ok_def moves_on_def gone_def close_done_def session_closing_def session_once_def)

lemma ensure_step_kept:
  assumes ok: "manager_ok w" and set: "settled (set fs)" and pre: "ensure_ok w (set fs) pc"
    and step: "ensure_step ok' pc r w = Some (gs, r', w')"
  shows "step_kept fs w (gs, w')"
proof (cases pc)
  case (EnsureLoop allow)
  then show ?thesis using ensureSessionInternal_kept[OF ok _ set, of allow] pre step by (auto simp: go_on_def)
next
  case (StartFailed s allow)
  then have s: "s < cm_nextSession w" using pre by simp
  show ?thesis
    using StartFailed pre step set set_closing_ok(1)[OF ok s] set_closing_ok(2)[of w s]
    by (auto simp: go_on_def step_kept_def settled_def unlocked_def others_gone_def in_shutdown_def nested_def)
next
  case (FinishStart s allow started)
  then show ?thesis using finishSessionStart_kept[OF ok set, of started s allow] pre step by (auto simp: go_on_def)
next
  case (CloseDone c)
  then show ?thesis using step close_done_kept(1)[OF ok, of c] close_done_kept(2)[of w c] by (auto simp: go_on_def step_kept_def)
qed (use step ok set pre in \<open>auto intro!: step_kept_same simp: go_on_def settled_def unlocked_def split: if_splits\<close>)

lemma frame_step_kept:
  assumes "manager_ok w" "stack_ok w (f # fs)"
    "InShutdown ManagerUnclosing \<in> set fs \<Longrightarrow> cm_managerClosing w"
    "frame_step ok i f r w = Some (gs, r', w')"
  shows "step_kept fs w (gs, w')"
proof (cases f)
  case (InEnsure pc)
  then show ?thesis using assms ensure_step_kept[of w fs pc ok r gs r' w'] by simp
next
  case (InClose pc)
  then show ?thesis using assms close_step_kept[of w fs pc i "(gs, w')"]
    by (auto simp: going_on_def go_on_def split: option.splits)
next
  case (InShutdown pc)
  then show ?thesis using assms shutdown_step_kept[of w fs pc i "(gs, w')"]
    by (auto simp: going_on_def go_on_def split: option.splits)
next
  case (InCleanup pc)
  then show ?thesis using assms cleanup_step_kept[of w fs pc] by (auto simp: go_on_def)
next
  case (InSpeak pc)
  then show ?thesis using assms speak_frame_kept[of w fs pc] by (auto simp: go_on_def)
next
  case (InMessage pc)
  then show ?thesis using assms message_step_kept[of w fs pc ok i r "(gs, w')"]
    by (auto simp: going_on_def go_on_def split: option.splits)
qed

end
