(* ===== verification/ChatManagerRuns.thy ===== *)
theory ChatManagerRuns
  imports ChatStacks
begin

text \<open>
  What holds in every state a \<open>ChatManager\<close> can reach: the locks and the channels have their owners, at most one
  session is open, and, apart from the one crosswise wait of a WebSocket connection, every call returns.
\<close>

subsection \<open>The effect of a step on locks and channels\<close>

lemmas frame_defs = go_on_def going_on_def ensureSessionInternal_def NewChatSession_def finishSessionStart_def wake_def
  close_done_def CloseWithReason_once_def handleSessionClosed_def session_cleared_def say_def shutdown_once_def
  shutdown_sessions_def shutdown_rest_def serverTransport_Close_def chat_OnClose_def cancelRetainedSessionCleanup_def
  scheduleRetainedSessionCleanup_def arm_cleanup_def runRetainedSessionCleanup_def speaking_def finish_speak_def
  hello_auth_def hello_respond_def listen_guard_def listen_fresh_def HandleGoodByeMessage_def
  markMqttConversationStateStale_def stale_session_def lock_helloMu_def Let_def

lemmas frame_splits = option.splits if_splits once_state.splits transport_kind.splits ensure_result.splits prod.splits

definition starts :: "nat \<Rightarrow> frame set \<Rightarrow> bool" where
  "starts s B \<longleftrightarrow> (\<exists>a. InEnsure (StartSession s a) \<in> B \<or> InEnsure (StartFailed s a) \<in> B \<or> (\<exists>b. InEnsure (FinishStart s a b) \<in> B))"

lemma starts_moved: "starts s B \<Longrightarrow> \<not> starts s {f} \<Longrightarrow> (\<And>x. x \<in> B \<Longrightarrow> x \<noteq> f \<Longrightarrow> x \<in> C) \<Longrightarrow> starts s C"
  unfolding starts_def by blast

abbreviation marked :: "nat option \<Rightarrow> nat \<Rightarrow> nat" where
  "marked x c \<equiv> (if x = Some c then 1 else 0)"

definition channel_marks :: "chat_manager \<Rightarrow> nat \<Rightarrow> nat" where
  "channel_marks w c = marked (cm_startingSessionDone w) c + cm_doneCloses w c"

definition channel_made :: "chat_manager \<Rightarrow> nat \<Rightarrow> nat" where
  "channel_made w c = (if c < cm_nextDone w then 1 else 0)"

lemma session_once_simp: "session_once w s = ss_closeOnce (cm_sessions w s)"
  by (simp add: session_once_def)

lemma close_starting_sessions [simp]: "cm_sessions (close_starting w) = cm_sessions w"
  by (simp add: close_starting_def)

definition step_effect :: "nat \<Rightarrow> frame \<Rightarrow> chat_manager \<Rightarrow> frame list \<Rightarrow> chat_manager \<Rightarrow> bool" where
  "step_effect i f w gs w' \<longleftrightarrow>
     (\<forall>s j. session_once w' s = OnceRunning j \<longrightarrow>
        (session_once w s = OnceRunning j \<and> f \<noteq> InClose (SessionOnceEnd s)) \<or> (j = i \<and> InClose (SessionOnceEnd s) \<in> set gs))
     \<and> (\<forall>s. InClose (SessionOnceEnd s) \<in> set gs \<longrightarrow> session_once w s = OnceFresh \<and> session_once w' s = OnceRunning i)
     \<and> (\<forall>s j. session_once w s = OnceRunning j \<longrightarrow> f \<noteq> InClose (SessionOnceEnd s) \<longrightarrow> session_once w' s = OnceRunning j)
     \<and> (\<forall>j. cm_closeOnce w' = OnceRunning j \<longrightarrow>
        (cm_closeOnce w = OnceRunning j \<and> f \<noteq> InShutdown ManagerOnceEnd) \<or> (j = i \<and> InShutdown ManagerOnceEnd \<in> set gs))
     \<and> (InShutdown ManagerOnceEnd \<in> set gs \<longrightarrow> cm_closeOnce w = OnceFresh \<and> cm_closeOnce w' = OnceRunning i)
     \<and> (\<forall>j. cm_closeOnce w = OnceRunning j \<longrightarrow> f \<noteq> InShutdown ManagerOnceEnd \<longrightarrow> cm_closeOnce w' = OnceRunning j)
     \<and> (\<forall>j. cm_helloMu w' = Some j \<longrightarrow>
        (cm_helloMu w = Some j \<and> f \<noteq> InMessage HelloUnlock) \<or> (j = i \<and> InMessage HelloUnlock \<in> set gs))
     \<and> (\<forall>s. cm_startingSession w' = Some s \<longrightarrow> (cm_startingSession w = Some s \<and> \<not> starts s {f}) \<or> starts s (set gs))
     \<and> (InShutdown ManagerUnclosing \<in> set gs \<longrightarrow> cm_managerClosing w')
     \<and> (cm_managerClosing w \<longrightarrow> f \<noteq> InShutdown ManagerUnclosing \<longrightarrow> cm_managerClosing w')
     \<and> (\<forall>c. channel_marks w' c + count_list gs (InEnsure (CloseDone c)) + channel_made w c
          = channel_marks w c + count_list [f] (InEnsure (CloseDone c)) + channel_made w' c)"

lemma step_effectD:
  assumes "step_effect i f w gs w'"
  shows "session_once w' s = OnceRunning j \<Longrightarrow>
      (session_once w s = OnceRunning j \<and> f \<noteq> InClose (SessionOnceEnd s)) \<or> (j = i \<and> InClose (SessionOnceEnd s) \<in> set gs)"
    "cm_closeOnce w' = OnceRunning j \<Longrightarrow>
      (cm_closeOnce w = OnceRunning j \<and> f \<noteq> InShutdown ManagerOnceEnd) \<or> (j = i \<and> InShutdown ManagerOnceEnd \<in> set gs)"
    "InShutdown ManagerOnceEnd \<in> set gs \<Longrightarrow> cm_closeOnce w = OnceFresh \<and> cm_closeOnce w' = OnceRunning i"
    "cm_closeOnce w = OnceRunning j \<Longrightarrow> f \<noteq> InShutdown ManagerOnceEnd \<Longrightarrow> cm_closeOnce w' = OnceRunning j"
    "cm_helloMu w' = Some j \<Longrightarrow>
      (cm_helloMu w = Some j \<and> f \<noteq> InMessage HelloUnlock) \<or> (j = i \<and> InMessage HelloUnlock \<in> set gs)"
    "cm_startingSession w' = Some s \<Longrightarrow> (cm_startingSession w = Some s \<and> \<not> starts s {f}) \<or> starts s (set gs)"
    "InShutdown ManagerUnclosing \<in> set gs \<Longrightarrow> cm_managerClosing w'"
    "cm_managerClosing w \<Longrightarrow> f \<noteq> InShutdown ManagerUnclosing \<Longrightarrow> cm_managerClosing w'"
    "channel_marks w' c + count_list gs (InEnsure (CloseDone c)) + channel_made w c
          = channel_marks w c + count_list [f] (InEnsure (CloseDone c)) + channel_made w' c"
    "InClose (SessionOnceEnd s) \<in> set gs \<Longrightarrow> session_once w s = OnceFresh \<and> session_once w' s = OnceRunning i"
    "session_once w s = OnceRunning j \<Longrightarrow> f \<noteq> InClose (SessionOnceEnd s) \<Longrightarrow> session_once w' s = OnceRunning j"
  using assms unfolding step_effect_def by metis+

lemmas effect_defs = step_effect_def starts_def channel_marks_def channel_made_def

lemma same_sessions_effect:
  assumes "same_sessions w w'" "cm_closeOnce w' = cm_closeOnce w" "cm_helloMu w' = cm_helloMu w"
    "cm_managerClosing w' = cm_managerClosing w" "\<And>s. \<not> starts s {f}" "f \<noteq> InShutdown ManagerOnceEnd"
    "f \<noteq> InMessage HelloUnlock" "f \<noteq> InShutdown ManagerUnclosing" "\<And>s. f \<noteq> InClose (SessionOnceEnd s)"
    "\<And>c. f \<noteq> InEnsure (CloseDone c)" "\<And>c. InEnsure (CloseDone c) \<notin> set gs"
    "InShutdown ManagerOnceEnd \<notin> set gs" "InShutdown ManagerUnclosing \<notin> set gs" "\<And>s. InClose (SessionOnceEnd s) \<notin> set gs"
  shows "step_effect i f w gs w'"
  using assms same_sessions_closing[OF assms(1)] unfolding same_sessions_def
  by (simp add: step_effect_def channel_marks_def channel_made_def count_list_0_iff)

lemma ensure_effect:
  assumes ok: "manager_ok w" and step: "ensure_step ok' pc r w = Some (gs, r', w')"
  shows "step_effect i (InEnsure pc) w gs w'"
proof (cases pc)
  case (EnsureLoop allow)
  have "ss_closeOnce (cm_sessions w (cm_nextSession w)) = OnceFresh"
    using manager_okD(9)[OF ok, of "cm_nextSession w"] by (auto simp: session_once_def)
  then show ?thesis
    using EnsureLoop step manager_okD(1-8)[OF ok]
    by (auto simp: frame_defs effect_defs session_once_simp split: frame_splits)
next
  case (StartFailed s a)
  then show ?thesis using step by (auto simp: frame_defs effect_defs)
next
  case (FinishStart s a b)
  then show ?thesis
    using step manager_okD(4,5)[OF ok] by (auto simp: frame_defs effect_defs session_once_simp split: frame_splits)
next
  case (CloseDone c)
  then show ?thesis using step by (auto simp: frame_defs effect_defs session_once_simp)
qed (use step in \<open>auto simp: frame_defs effect_defs split: if_splits\<close>)

lemma close_effect:
  assumes ok: "manager_ok w" and step: "close_step i pc w = Some (gs, w')"
  shows "step_effect i (InClose pc) w gs w'"
proof (cases pc)
  case (CloseSession s reason)
  then show ?thesis using step by (auto simp: effect_defs)
next
  case (SessionOnce s reason)
  then show ?thesis using step by (auto simp: CloseWithReason_once_def effect_defs split: once_state.splits if_splits)
next
  case (ClearSession s reason)
  then show ?thesis
    using step manager_okD(4,5)[OF ok] by (auto simp: handleSessionClosed_def effect_defs session_once_simp split: frame_splits)
next
  case (AfterClear reason)
  then show ?thesis
    using step by (auto intro!: same_sessions_effect simp: session_cleared_def starts_def split: frame_splits)
next
  case (SessionOnceEnd s)
  then show ?thesis using step by (auto simp: effect_defs split: if_splits)
qed (use step in \<open>auto intro!: same_sessions_effect simp: say_def starts_def\<close>)

lemma shutdown_effect:
  assumes step: "shutdown_step i pc w = Some (gs, w')"
  shows "step_effect i (InShutdown pc) w gs w'"
proof (cases pc)
  case (ShutdownSessions ct)
  then show ?thesis
    using step by (auto intro!: same_sessions_effect simp: shutdown_sessions_def starts_def split: option.splits)
next
  case TransportClosed
  then show ?thesis using step by (auto intro!: same_sessions_effect simp: chat_OnClose_def starts_def split: if_splits)
next
  case CloseTransport
  then show ?thesis
    using step by (auto intro!: same_sessions_effect simp: serverTransport_Close_def say_def starts_def Let_def split: frame_splits)
qed (use step in \<open>auto simp: shutdown_once_def shutdown_rest_def effect_defs session_once_simp split: frame_splits\<close>)

lemma cleanup_effect: "cleanup_step pc w = (gs, w') \<Longrightarrow> step_effect i (InCleanup pc) w gs w'"
  by (cases pc) (auto intro!: same_sessions_effect simp: cancelRetainedSessionCleanup_def scheduleRetainedSessionCleanup_def
      runRetainedSessionCleanup_def starts_def arm_cleanup_def same_sessions_def split: frame_splits)

lemma speak_effect: "speak_frame_step pc w = (gs, w') \<Longrightarrow> step_effect i (InSpeak pc) w gs w'"
  by (cases pc) (auto intro!: same_sessions_effect simp: finish_speak_def speaking_def starts_def split: frame_splits)

lemma message_effect:
  assumes step: "message_step ok i pc r w = Some (gs, w')"
  shows "step_effect i (InMessage pc) w gs w'"
proof (cases pc)
  case HelloLock
  then show ?thesis using step by (auto simp: lock_helloMu_def effect_defs session_once_simp split: if_splits)
next
  case ResetLock
  then show ?thesis using step by (auto simp: lock_helloMu_def effect_defs session_once_simp split: if_splits)
next
  case HelloUnlock
  then show ?thesis using step by (auto simp: effect_defs session_once_simp)
qed (use step in \<open>auto intro!: same_sessions_effect simp: hello_auth_def hello_respond_def listen_guard_def listen_fresh_def
      HandleGoodByeMessage_def markMqttConversationStateStale_def stale_session_def say_def speaking_def starts_def
      split: frame_splits\<close>)

lemma frame_effect:
  assumes "manager_ok w" "frame_step ok i f r w = Some (gs, r', w')"
  shows "step_effect i f w gs w'"
proof (cases f)
  case (InEnsure pc)
  then show ?thesis using assms ensure_effect by simp
next
  case (InClose pc)
  then show ?thesis using assms close_effect[of w i pc gs w'] by (auto simp: going_on_def go_on_def split: option.splits)
next
  case (InShutdown pc)
  then show ?thesis using assms shutdown_effect[of i pc w gs w'] by (auto simp: going_on_def go_on_def split: option.splits)
next
  case (InCleanup pc)
  then show ?thesis using assms cleanup_effect[of pc w gs w'] by (auto simp: go_on_def)
next
  case (InSpeak pc)
  then show ?thesis using assms speak_effect[of pc w gs w'] by (auto simp: go_on_def)
next
  case (InMessage pc)
  then show ?thesis using assms message_effect[of ok i pc r w gs w'] by (auto simp: going_on_def go_on_def split: option.splits)
qed

subsection \<open>Owners\<close>

abbreviation stack_of :: "goroutine list \<Rightarrow> nat \<Rightarrow> frame set" where
  "stack_of ths i \<equiv> set (fst (ths ! i))"

definition closers :: "goroutine list \<Rightarrow> nat \<Rightarrow> nat" where
  "closers ths c = sum_list (map (\<lambda>t. count_list (fst t) (InEnsure (CloseDone c))) ths)"

definition goroutine_owners :: "chat_state \<Rightarrow> bool" where
  "goroutine_owners st \<longleftrightarrow> (case st of (ths, w) \<Rightarrow>
     (\<forall>s i. session_once w s = OnceRunning i \<longrightarrow> i < length ths \<and> InClose (SessionOnceEnd s) \<in> stack_of ths i)
     \<and> (\<forall>s. \<forall>i < length ths. InClose (SessionOnceEnd s) \<in> stack_of ths i \<longrightarrow> session_once w s = OnceRunning i)
     \<and> (\<forall>i. cm_closeOnce w = OnceRunning i \<longrightarrow> i < length ths \<and> InShutdown ManagerOnceEnd \<in> stack_of ths i)
     \<and> (\<forall>i < length ths. InShutdown ManagerOnceEnd \<in> stack_of ths i \<longrightarrow> cm_closeOnce w = OnceRunning i)
     \<and> (\<forall>i. cm_helloMu w = Some i \<longrightarrow> i < length ths \<and> InMessage HelloUnlock \<in> stack_of ths i)
     \<and> (\<forall>s. cm_startingSession w = Some s \<longrightarrow> (\<exists>i < length ths. starts s (stack_of ths i)))
     \<and> (\<forall>i < length ths. InShutdown ManagerUnclosing \<in> stack_of ths i \<longrightarrow> cm_managerClosing w)
     \<and> (\<forall>c. channel_marks w c + closers ths c = channel_made w c))"

lemma goroutine_ownersD:
  assumes "goroutine_owners (ths, w)"
  shows "session_once w s = OnceRunning i \<Longrightarrow> i < length ths \<and> InClose (SessionOnceEnd s) \<in> stack_of ths i"
    "cm_closeOnce w = OnceRunning i \<Longrightarrow> i < length ths \<and> InShutdown ManagerOnceEnd \<in> stack_of ths i"
    "i < length ths \<Longrightarrow> InShutdown ManagerOnceEnd \<in> stack_of ths i \<Longrightarrow> cm_closeOnce w = OnceRunning i"
    "cm_helloMu w = Some i \<Longrightarrow> i < length ths \<and> InMessage HelloUnlock \<in> stack_of ths i"
    "cm_startingSession w = Some s \<Longrightarrow> \<exists>i < length ths. starts s (stack_of ths i)"
    "i < length ths \<Longrightarrow> InShutdown ManagerUnclosing \<in> stack_of ths i \<Longrightarrow> cm_managerClosing w"
    "channel_marks w c + closers ths c = channel_made w c"
    "i < length ths \<Longrightarrow> InClose (SessionOnceEnd s) \<in> stack_of ths i \<Longrightarrow> session_once w s = OnceRunning i"
  using assms unfolding goroutine_owners_def prod.case by metis+

definition chat_inv :: "transport_kind \<Rightarrow> chat_state \<Rightarrow> bool" where
  "chat_inv kind st \<longleftrightarrow> cm_kind (snd st) = kind \<and> manager_ok (snd st) \<and> goroutine_owners st
     \<and> (\<forall>i < length (fst st). stack_ok (snd st) (fst (fst st ! i)))"

lemma closers_update:
  assumes "i < length ths" "ths ! i = (f # fs, r)"
  shows "closers (ths[i := (gs @ fs, r')]) c + count_list [f] (InEnsure (CloseDone c))
    = closers ths c + count_list gs (InEnsure (CloseDone c))"
proof -
  let ?g = "\<lambda>t :: goroutine. count_list (fst t) (InEnsure (CloseDone c))"
  have "closers (ths[i := (gs @ fs, r')]) c = closers ths c + ?g (gs @ fs, r') - ?g (ths ! i)"
    unfolding closers_def map_update using assms(1) by (subst sum_list_update) auto
  moreover have "?g (ths ! i) \<le> closers ths c"
    unfolding closers_def using assms(1) by (intro member_le_sum_list) auto
  ultimately show ?thesis using assms(2) by simp
qed

lemma owners_moved:
  assumes own: "goroutine_owners (ths, w)" and i: "i < length ths" "ths ! i = (f # fs, r)" and eff: "step_effect i f w gs w'"
    and stacks: "\<forall>j < length ths. stack_ok w (fst (ths ! j))"
  shows "goroutine_owners (ths[i := (gs @ fs, r')], w')"
proof -
  let ?ths = "ths[i := (gs @ fs, r')]"
  have here: "stack_of ?ths i = set gs \<union> set fs" and there: "j \<noteq> i \<Longrightarrow> stack_of ?ths j = stack_of ths j" for j
    using i(1) by auto
  have old: "stack_of ths i = insert f (set fs)" using i by simp
  have keep: "x \<in> stack_of ths j \<Longrightarrow> x \<noteq> f \<Longrightarrow> x \<in> stack_of ?ths j" for x j
    using here there[of j] old by (cases "j = i") auto
  have sub: "stack_ok w (f # fs)" using stacks i by force
  have former: "x \<in> stack_of ths j \<and> (j = i \<longrightarrow> x \<in> set fs)" if "x \<in> stack_of ?ths j" "\<not> (j = i \<and> x \<in> set gs)" for x j
    using that here there[of j] old by (cases "j = i") auto
  have owner: "j < length ?ths \<and> x \<in> stack_of ?ths j"
    if "j < length ths \<and> x \<in> stack_of ths j \<and> f \<noteq> x \<or> j = i \<and> x \<in> set gs" for j x
    using that keep[of x j] here i(1) by auto
  have "j < length ?ths \<and> InClose (SessionOnceEnd s) \<in> stack_of ?ths j" if once: "session_once w' s = OnceRunning j" for s j
    using step_effectD(1)[OF eff once] goroutine_ownersD(1)[OF own, of s j] by (intro owner) blast
  moreover have "j < length ?ths \<and> InShutdown ManagerOnceEnd \<in> stack_of ?ths j" if once: "cm_closeOnce w' = OnceRunning j" for j
    using step_effectD(2)[OF eff once] goroutine_ownersD(2)[OF own, of j] by (intro owner) blast
  moreover have "j < length ?ths \<and> InMessage HelloUnlock \<in> stack_of ?ths j" if lock: "cm_helloMu w' = Some j" for j
    using step_effectD(5)[OF eff lock] goroutine_ownersD(4)[OF own, of j] by (intro owner) blast
  moreover have "cm_closeOnce w' = OnceRunning j" if j: "j < length ?ths" "InShutdown ManagerOnceEnd \<in> stack_of ?ths j" for j
  proof (cases "j = i \<and> InShutdown ManagerOnceEnd \<in> set gs")
    case True
    then show ?thesis using step_effectD(3)[OF eff] by blast
  next
    case False
    then have mem: "InShutdown ManagerOnceEnd \<in> stack_of ths j" "j = i \<longrightarrow> InShutdown ManagerOnceEnd \<in> set fs"
      using former[OF j(2)] by auto
    then have run: "cm_closeOnce w = OnceRunning j" using goroutine_ownersD(3)[OF own] j(1) by simp
    have "f \<noteq> InShutdown ManagerOnceEnd"
    proof
      assume f: "f = InShutdown ManagerOnceEnd"
      then have "cm_closeOnce w = OnceRunning i" using goroutine_ownersD(3)[OF own i(1)] old by simp
      then show False using run mem(2) sub f by auto
    qed
    then show ?thesis using run step_effectD(4)[OF eff] by blast
  qed
  moreover have "session_once w' s = OnceRunning j" if j: "j < length ?ths" "InClose (SessionOnceEnd s) \<in> stack_of ?ths j" for s j
  proof (cases "j = i \<and> InClose (SessionOnceEnd s) \<in> set gs")
    case True
    then show ?thesis using step_effectD(10)[OF eff] by blast
  next
    case False
    then have mem: "InClose (SessionOnceEnd s) \<in> stack_of ths j" "j = i \<longrightarrow> InClose (SessionOnceEnd s) \<in> set fs"
      using former[OF j(2)] by auto
    then have run: "session_once w s = OnceRunning j" using goroutine_ownersD(8)[OF own] j(1) by simp
    have "f \<noteq> InClose (SessionOnceEnd s)"
    proof
      assume f: "f = InClose (SessionOnceEnd s)"
      then have "session_once w s = OnceRunning i" using goroutine_ownersD(8)[OF own i(1)] old by simp
      then show False using run mem(2) sub f by auto
    qed
    then show ?thesis using run step_effectD(11)[OF eff] by blast
  qed
  moreover have "\<exists>j < length ?ths. starts s (stack_of ?ths j)" if s: "cm_startingSession w' = Some s" for s
  proof (cases "starts s (set gs)")
    case True
    then show ?thesis using i(1) here by (intro exI[of _ i]) (auto simp: starts_def)
  next
    case False
    then have "cm_startingSession w = Some s" "\<not> starts s {f}" using step_effectD(6)[OF eff s] by auto
    moreover then obtain j where "j < length ths" "starts s (stack_of ths j)" using goroutine_ownersD(5)[OF own] by blast
    ultimately show ?thesis using keep starts_moved[of s "stack_of ths j" f "stack_of ?ths j"] by (intro exI[of _ j]) auto
  qed
  moreover have "cm_managerClosing w'" if j: "j < length ?ths" "InShutdown ManagerUnclosing \<in> stack_of ?ths j" for j
  proof (cases "j = i \<and> InShutdown ManagerUnclosing \<in> set gs")
    case True
    then show ?thesis using step_effectD(7)[OF eff] by blast
  next
    case False
    then have mem: "InShutdown ManagerUnclosing \<in> stack_of ths j" "j = i \<longrightarrow> InShutdown ManagerUnclosing \<in> set fs"
      using former[OF j(2)] by auto
    then have closing: "cm_managerClosing w" using goroutine_ownersD(6)[OF own] j(1) by simp
    have "f \<noteq> InShutdown ManagerUnclosing"
    proof
      assume f: "f = InShutdown ManagerUnclosing"
      have "InShutdown ManagerOnceEnd \<in> stack_of ths j"
        using stacks j(1) mem(1) by (intro unclosing_in_shutdown[of w]) auto
      moreover have "InShutdown ManagerOnceEnd \<in> stack_of ths i" using f sub old by auto
      ultimately have "j = i" using goroutine_ownersD(3)[OF own, of i] goroutine_ownersD(3)[OF own, of j] j(1) i(1) by simp
      then show False using f sub mem(2) by auto
    qed
    then show ?thesis using closing step_effectD(8)[OF eff] by blast
  qed
  moreover have "channel_marks w' c + closers ?ths c = channel_made w' c" for c
    using closers_update[OF i, of gs r' c] goroutine_ownersD(7)[OF own, of c] step_effectD(9)[OF eff, of c] by linarith
  ultimately show ?thesis unfolding goroutine_owners_def prod.case by blast
qed

lemma stack_ok_here: "moves_on w w' \<Longrightarrow> step_kept fs w (gs, w') \<Longrightarrow> stack_ok w (f # fs) \<Longrightarrow> stack_ok w' (gs @ fs)"
  using stack_ok_mono[of w w' fs] by (simp add: step_kept_def)

lemma chat_inv_moves:
  assumes inv: "chat_inv kind st" and move: "chat_moves st st'"
  shows "chat_inv kind st'"
  using move
proof (cases rule: chat_moves.cases)
  case (move i ths f fs r ok w gs r' w')
  have mok: "manager_ok w" and own: "goroutine_owners (ths, w)" and kind: "cm_kind w = kind"
    and stacks: "\<forall>j < length ths. stack_ok w (fst (ths ! j))"
    using inv move(1) by (auto simp: chat_inv_def)
  have top: "stack_ok w (f # fs)" using stacks move(3,4) by force
  have "cm_managerClosing w" if "InShutdown ManagerUnclosing \<in> set fs"
    using goroutine_ownersD(6)[OF own move(3)] that move(4) by simp
  then have kept: "step_kept fs w (gs, w')" using frame_step_kept[OF mok top _ move(5)] by blast
  then have on: "moves_on w w'" by (simp add: step_kept_def)
  have "stack_ok w' (fst (ths[i := (gs @ fs, r')] ! j))" if "j < length ths" for j
    using that stacks stack_ok_mono[OF on] stack_ok_here[OF on kept top] by (cases "j = i") auto
  then show ?thesis
    using kept owners_moved[OF own move(3,4) frame_effect[OF mok move(5)] stacks, of r'] kind moves_onD(1)[OF on] move(2)
    by (simp add: chat_inv_def step_kept_def)
qed

lemma owners_started:
  assumes "goroutine_owners (ths, w)" "same_sessions w w'" "cm_closeOnce w' = cm_closeOnce w" "cm_helloMu w' = cm_helloMu w"
    "cm_managerClosing w' = cm_managerClosing w"
    "InShutdown ManagerOnceEnd \<notin> set gs" "InShutdown ManagerUnclosing \<notin> set gs" "\<forall>c. InEnsure (CloseDone c) \<notin> set gs"
    "\<forall>s. InClose (SessionOnceEnd s) \<notin> set gs"
  shows "goroutine_owners (ths @ [(gs, r)], w')"
proof -
  let ?ths = "ths @ [(gs, r)]"
  have up: "i < length ths \<and> x \<in> stack_of ths i \<Longrightarrow> i < length ?ths \<and> x \<in> stack_of ?ths i" for i x
    by (simp add: nth_append)
  have down: "i < length ths \<and> x \<in> stack_of ths i" if "i < length ?ths" "x \<in> stack_of ?ths i" "x \<notin> set gs" for i x
    using that by (auto simp: nth_append less_Suc_eq split: if_splits)
  have eqs: "session_once w' = session_once w" "cm_startingSession w' = cm_startingSession w"
    "channel_marks w' = channel_marks w" "channel_made w' = channel_made w"
    using assms(2) same_sessions_closing[OF assms(2)] by (auto simp: same_sessions_def channel_marks_def channel_made_def)
  have closers: "closers ?ths c = closers ths c" for c
    using assms(8) by (simp add: closers_def count_list_0_iff)
  have starter: "\<exists>i < length ?ths. starts s (stack_of ?ths i)" if s: "cm_startingSession w = Some s" for s
  proof -
    obtain i where i: "i < length ths" "starts s (stack_of ths i)" using goroutine_ownersD(5)[OF assms(1) s] by auto
    then have "stack_of ?ths i = stack_of ths i" by (simp add: nth_append)
    then show ?thesis using i by (intro exI[of _ i]) simp
  qed
  show ?thesis
    unfolding goroutine_owners_def prod.case eqs assms(3,4,5) closers
  proof (intro conjI allI impI)
    show "session_once w s = OnceRunning i \<Longrightarrow> i < length ?ths" "session_once w s = OnceRunning i \<Longrightarrow> InClose (SessionOnceEnd s) \<in> stack_of ?ths i" for s i
      using up[of i "InClose (SessionOnceEnd s)"] goroutine_ownersD(1)[OF assms(1)] by blast+
    show "cm_closeOnce w = OnceRunning i \<Longrightarrow> i < length ?ths" "cm_closeOnce w = OnceRunning i \<Longrightarrow> InShutdown ManagerOnceEnd \<in> stack_of ?ths i" for i
      using up[of i "InShutdown ManagerOnceEnd"] goroutine_ownersD(2)[OF assms(1)] by blast+
    show "cm_helloMu w = Some i \<Longrightarrow> i < length ?ths" "cm_helloMu w = Some i \<Longrightarrow> InMessage HelloUnlock \<in> stack_of ?ths i" for i
      using up[of i "InMessage HelloUnlock"] goroutine_ownersD(4)[OF assms(1)] by blast+
    show "cm_closeOnce w = OnceRunning i" if "i < length ?ths" "InShutdown ManagerOnceEnd \<in> stack_of ?ths i" for i
      using down[OF that assms(6)] goroutine_ownersD(3)[OF assms(1)] by blast
    show "session_once w s = OnceRunning i" if "i < length ?ths" "InClose (SessionOnceEnd s) \<in> stack_of ?ths i" for s i
      using down[OF that] goroutine_ownersD(8)[OF assms(1)] assms(9) by blast
    show "cm_managerClosing w" if "i < length ?ths" "InShutdown ManagerUnclosing \<in> stack_of ?ths i" for i
      using down[OF that assms(7)] goroutine_ownersD(6)[OF assms(1)] by blast
  qed (use starter goroutine_ownersD(7)[OF assms(1)] in auto)
qed

lemma chat_inv_started:
  assumes inv: "chat_inv kind (ths, w)" and same: "same_sessions w w'" and "cm_closeOnce w' = cm_closeOnce w"
    "cm_helloMu w' = cm_helloMu w" "cm_managerClosing w' = cm_managerClosing w"
    and timers: "\<forall>k s. cm_timers w' k = Some s \<longrightarrow> cm_timers w k = Some s"
    and "InShutdown ManagerOnceEnd \<notin> set gs" "InShutdown ManagerUnclosing \<notin> set gs" "\<forall>c. InEnsure (CloseDone c) \<notin> set gs" "\<forall>s. InClose (SessionOnceEnd s) \<notin> set gs"
    and gs: "stack_ok w gs"
  shows "chat_inv kind (ths @ [(gs, r)], w')"
proof -
  have mok: "manager_ok w" using inv by (simp add: chat_inv_def)
  have "manager_ok w'" using same_sessions_ok[OF same mok] timers manager_okD(8)[OF mok] by blast
  moreover have "stack_ok w' (fst ((ths @ [(gs, r)]) ! i))" if "i < Suc (length ths)" for i
    using that inv gs stack_ok_mono[OF same_sessions_moves_on[OF same]]
    by (auto simp: chat_inv_def nth_append less_Suc_eq)
  ultimately show ?thesis
    using inv same owners_started[of ths w w' gs r] assms by (simp add: chat_inv_def same_sessions_def)
qed

lemma chat_inv_events:
  assumes inv: "chat_inv kind st" and event: "chat_events st st'"
  shows "chat_inv kind st'"
  using event
proof (cases rule: chat_events.cases)
  case (called w c ths)
  have "stack_ok w (begin_call c)" using called(3)
    by (cases c) (auto simp: call_possible_def settled_def unlocked_def others_gone_def in_shutdown_def nested_def)
  then show ?thesis
    using called inv by (cases c) (auto intro!: chat_inv_started)
next
  case (cleanup_due w k s ths)
  have "s < cm_nextSession w" using inv cleanup_due(1,3) manager_okD(8) by (auto simp: chat_inv_def)
  then show ?thesis
    using cleanup_due inv by (auto intro!: chat_inv_started simp: settled_def unlocked_def split: if_splits)
next
  case (speak_due k w gs w' ths)
  have "w' = w\<lparr>cm_speak := snd (timer_fires k (cm_speak w))\<rparr>" using speak_due(3) by (auto simp: finish_speak_def)
  moreover have "stack_ok w gs" "\<forall>f\<in>set gs. \<exists>pc. f = InSpeak pc"
    using speak_due(3) by (auto simp: finish_speak_def settled_def split: option.splits)
  ultimately show ?thesis using speak_due inv by (auto intro!: chat_inv_started)
qed

lemma chat_inv_new: "chat_inv kind ([], NewChatManager kind)"
  by (simp add: chat_inv_def goroutine_owners_def manager_ok_def NewChatManager_def session_closing_def session_once_def
      channel_marks_def channel_made_def closers_def)

lemma chat_reachable_inv: "chat_reachable kind st \<Longrightarrow> chat_inv kind st"
  by (induction rule: chat_reachable.induct) (auto intro: chat_inv_new chat_inv_moves chat_inv_events)

subsection \<open>Where goroutines wait\<close>

definition all_returned :: "goroutine list \<Rightarrow> bool" where
  "all_returned ths \<longleftrightarrow> (\<forall>t\<in>set ths. fst t = [])"

definition stuck :: "chat_state \<Rightarrow> bool" where
  "stuck st \<longleftrightarrow> (\<forall>st'. \<not> chat_moves st st')"

text \<open>
  The crosswise wait: on a WebSocket one goroutine is inside the \<open>closeOnce\<close> of a session and waits to enter the
  \<open>closeOnce\<close> of the manager, and the goroutine inside that waits to enter the \<open>closeOnce\<close> of the session.
\<close>

definition crosswise :: "nat \<Rightarrow> nat \<Rightarrow> nat \<Rightarrow> chat_state \<Rightarrow> bool" where
  "crosswise i j s st \<longleftrightarrow> (case st of (ths, w) \<Rightarrow>
     cm_kind w = Websocket \<and> i < length ths \<and> j < length ths \<and> i \<noteq> j
     \<and> session_once w s = OnceRunning i \<and> (\<exists>ct fs r. ths ! i = (InShutdown (Shutdown ct) # fs, r))
     \<and> cm_closeOnce w = OnceRunning j \<and> (\<exists>reason fs r. ths ! j = (InClose (SessionOnce s reason) # fs, r)))"

fun blocked :: "chat_manager \<Rightarrow> frame \<Rightarrow> bool" where
  "blocked w (InEnsure (WaitDone c allow)) = (cm_doneCloses w c = 0)"
| "blocked w (InClose (SessionOnce s reason)) = (\<exists>j. session_once w s = OnceRunning j)"
| "blocked w (InShutdown (Shutdown ct)) = (\<exists>j. cm_closeOnce w = OnceRunning j)"
| "blocked w (InMessage HelloLock) = (cm_helloMu w \<noteq> None)"
| "blocked w (InMessage ResetLock) = (cm_helloMu w \<noteq> None)"
| "blocked w f = False"

lemma go_on_some [simp]: "go_on r a \<noteq> None" "going_on r (Some a) \<noteq> None"
  by (simp_all add: go_on_def going_on_def)

lemma step_blocked: "frame_step ok i f r w = None \<Longrightarrow> blocked w f"
proof (cases f)
  case (InEnsure pc)
  then show "frame_step ok i f r w = None \<Longrightarrow> blocked w f" by (cases pc) (auto split: if_splits)
next
  case (InClose pc)
  then show "frame_step ok i f r w = None \<Longrightarrow> blocked w f"
    by (cases pc) (auto simp: going_on_def CloseWithReason_once_def split: once_state.splits)
next
  case (InShutdown pc)
  then show "frame_step ok i f r w = None \<Longrightarrow> blocked w f"
    by (cases pc) (auto simp: going_on_def shutdown_once_def split: once_state.splits)
next
  case (InMessage pc)
  then show "frame_step ok i f r w = None \<Longrightarrow> blocked w f"
    by (cases pc) (auto simp: going_on_def lock_helloMu_def split: if_splits)
qed auto

lemma stuck_head:
  assumes "stuck (ths, w)" "i < length ths" "ths ! i = (f # fs, r)"
  shows "blocked w f"
proof (rule step_blocked)
  show "frame_step True i f r w = None"
    using assms chat_moves.move[OF assms(2,3), of True w] unfolding stuck_def
    by (cases "frame_step True i f r w") auto
qed

lemma stuck_below:
  assumes stuck: "stuck (ths, w)" and inv: "chat_inv kind (ths, w)" and i: "i < length ths" and x: "x \<in> stack_of ths i"
    and free: "\<not> blocked w x"
  shows "\<exists>f fs r. ths ! i = (f # fs, r) \<and> x \<in> set fs \<and> blocked w f \<and> frame_ok w (set fs) f \<and> settled (set fs)"
proof -
  obtain f fs r where here: "ths ! i = (f # fs, r)" using x by (cases "ths ! i"; cases "fst (ths ! i)") auto
  moreover have "blocked w f" by (rule stuck_head[OF stuck i here])
  moreover have "stack_ok w (f # fs)" using inv i here by (auto simp: chat_inv_def dest!: spec[of _ i])
  ultimately show ?thesis using x free by auto
qed

lemma blocked_below_manager:
  "blocked w f \<Longrightarrow> frame_ok w B f \<Longrightarrow> InShutdown ManagerOnceEnd \<in> B \<Longrightarrow>
    \<exists>s reason j. f = InClose (SessionOnce s reason) \<and> session_once w s = OnceRunning j \<and> InClose (SessionOnceEnd s) \<notin> B"
  by (cases "(w, f)" rule: blocked.cases) (auto simp: unlocked_def)

lemma blocked_below_session:
  "blocked w f \<Longrightarrow> frame_ok w B f \<Longrightarrow> InClose (SessionOnceEnd s) \<in> B \<Longrightarrow>
    (\<exists>ct. f = InShutdown (Shutdown ct)) \<and> cm_kind w \<noteq> MqttUdp \<or> InShutdown ManagerOnceEnd \<in> B"
  by (cases "(w, f)" rule: blocked.cases) (auto simp: unlocked_def nested_def)

lemma blocked_below_start:
  "blocked w f \<Longrightarrow> frame_ok w B f \<Longrightarrow> InEnsure (FinishStart s a b) \<in> B \<Longrightarrow>
    (\<exists>s j. session_once w s = OnceRunning j) \<or> (\<exists>j. cm_closeOnce w = OnceRunning j)"
  by (cases "(w, f)" rule: blocked.cases) (auto simp: unlocked_def)

lemma blocked_below_hello:
  "blocked w f \<Longrightarrow> frame_ok w B f \<Longrightarrow> InMessage HelloUnlock \<in> B \<Longrightarrow>
    (\<exists>s j. session_once w s = OnceRunning j) \<or> (\<exists>j. cm_closeOnce w = OnceRunning j)
    \<or> (\<exists>c allow. f = InEnsure (WaitDone c allow) \<and> c < cm_nextDone w)"
  by (cases "(w, f)" rule: blocked.cases) (auto simp: unlocked_def)

lemma stuck_manager:
  assumes stuck: "stuck (ths, w)" and inv: "chat_inv kind (ths, w)" and run: "cm_closeOnce w = OnceRunning j"
  shows "\<exists>i s. crosswise i j s (ths, w)"
proof -
  have own: "goroutine_owners (ths, w)" using inv by (simp add: chat_inv_def)
  have j: "j < length ths" "InShutdown ManagerOnceEnd \<in> stack_of ths j" using goroutine_ownersD(2)[OF own run] by auto
  obtain f fs r where at_j: "ths ! j = (f # fs, r)" "InShutdown ManagerOnceEnd \<in> set fs" "blocked w f" "frame_ok w (set fs) f"
    using stuck_below[OF stuck inv j] by (auto simp del: frame_ok.simps)
  then obtain s reason i where f: "f = InClose (SessionOnce s reason)" "session_once w s = OnceRunning i"
    "InClose (SessionOnceEnd s) \<notin> set fs"
    using blocked_below_manager by blast
  have i: "i < length ths" "InClose (SessionOnceEnd s) \<in> stack_of ths i" using goroutine_ownersD(1)[OF own f(2)] by auto
  obtain g gs r' where at_i: "ths ! i = (g # gs, r')" "InClose (SessionOnceEnd s) \<in> set gs" "blocked w g" "frame_ok w (set gs) g"
    using stuck_below[OF stuck inv i] by (auto simp del: frame_ok.simps)
  have "i \<noteq> j" using at_i(1,2) at_j(1) f(3) by auto
  moreover have "InShutdown ManagerOnceEnd \<notin> set gs"
    using goroutine_ownersD(3)[OF own i(1)] run at_i(1) \<open>i \<noteq> j\<close> by auto
  ultimately have "(\<exists>ct. g = InShutdown (Shutdown ct)) \<and> cm_kind w \<noteq> MqttUdp"
    using blocked_below_session[OF at_i(3,4,2)] by simp
  then show ?thesis
    using i(1) j(1) \<open>i \<noteq> j\<close> f run at_i(1) at_j(1)
    by (auto simp: crosswise_def intro!: exI[of _ i] exI[of _ s] intro: transport_kind.exhaust[of "cm_kind w"])
qed

lemma stuck_session:
  assumes stuck: "stuck (ths, w)" and inv: "chat_inv kind (ths, w)" and run: "session_once w s = OnceRunning i"
  shows "\<exists>i j s. crosswise i j s (ths, w)"
proof -
  have own: "goroutine_owners (ths, w)" using inv by (simp add: chat_inv_def)
  have i: "i < length ths" "InClose (SessionOnceEnd s) \<in> stack_of ths i" using goroutine_ownersD(1)[OF own run] by auto
  obtain g gs r' where at_i: "ths ! i = (g # gs, r')" "InClose (SessionOnceEnd s) \<in> set gs" "blocked w g" "frame_ok w (set gs) g"
    using stuck_below[OF stuck inv i] by (auto simp del: frame_ok.simps)
  have "\<exists>j. cm_closeOnce w = OnceRunning j"
    using blocked_below_session[OF at_i(3,4,2)]
  proof
    assume "(\<exists>ct. g = InShutdown (Shutdown ct)) \<and> cm_kind w \<noteq> MqttUdp"
    then show ?thesis using at_i(3) by auto
  next
    assume "InShutdown ManagerOnceEnd \<in> set gs"
    then show ?thesis using goroutine_ownersD(3)[OF own i(1)] at_i(1) by auto
  qed
  then show ?thesis using stuck_manager[OF stuck inv] by blast
qed

lemma stuck_starting:
  assumes stuck: "stuck (ths, w)" and inv: "chat_inv kind (ths, w)" and start: "cm_startingSession w = Some s"
  shows "\<exists>i j s. crosswise i j s (ths, w)"
proof -
  have own: "goroutine_owners (ths, w)" using inv by (simp add: chat_inv_def)
  obtain i x where i: "i < length ths" "x \<in> stack_of ths i"
    and x: "(\<exists>a. x = InEnsure (StartSession s a)) \<or> (\<exists>a. x = InEnsure (StartFailed s a)) \<or> (\<exists>a b. x = InEnsure (FinishStart s a b))"
    using goroutine_ownersD(5)[OF own start] unfolding starts_def by blast
  have "\<not> blocked w x" using x by auto
  then obtain f fs where f: "x \<in> set fs" "blocked w f" "frame_ok w (set fs) f" "settled (set fs)"
    using stuck_below[OF stuck inv i] by blast
  then obtain a b where "InEnsure (FinishStart s a b) \<in> set fs" using x by (auto simp: settled_def)
  then show ?thesis
    using blocked_below_start[OF f(2,3)] stuck_session[OF stuck inv] stuck_manager[OF stuck inv] by blast
qed

lemma stuck_waiting:
  assumes stuck: "stuck (ths, w)" and inv: "chat_inv kind (ths, w)" and c: "c < cm_nextDone w" "cm_doneCloses w c = 0"
  shows "\<exists>i j s. crosswise i j s (ths, w)"
proof -
  have own: "goroutine_owners (ths, w)" and mok: "manager_ok w" using inv by (simp_all add: chat_inv_def)
  have "closers ths c = 0"
  proof (rule ccontr)
    assume "closers ths c \<noteq> 0"
    then obtain t where t: "t \<in> set ths" "InEnsure (CloseDone c) \<in> set (fst t)"
      by (auto simp: closers_def sum_list_eq_0_iff count_list_0_iff)
    then obtain i where i: "i < length ths" "InEnsure (CloseDone c) \<in> stack_of ths i"
      by (metis in_set_conv_nth)
    then obtain fs where "InEnsure (CloseDone c) \<in> set fs" "settled (set fs)"
      using stuck_below[OF stuck inv i] by auto
    then show False by (simp add: settled_def)
  qed
  then have "cm_startingSessionDone w = Some c"
    using goroutine_ownersD(7)[OF own, of c] c by (auto simp: channel_marks_def channel_made_def split: if_splits)
  then obtain s where "cm_startingSession w = Some s" using manager_okD(4)[OF mok] by auto
  then show ?thesis by (rule stuck_starting[OF stuck inv])
qed

lemma stuck_crosswise:
  assumes stuck: "stuck (ths, w)" and inv: "chat_inv kind (ths, w)"
  shows "all_returned ths \<or> (\<exists>i j s. crosswise i j s (ths, w))"
proof (rule disjCI)
  assume not_cross: "\<not> (\<exists>i j s. crosswise i j s (ths, w))"
  have own: "goroutine_owners (ths, w)" using inv by (simp add: chat_inv_def)
  note runs = stuck_session[OF stuck inv] stuck_manager[OF stuck inv]
  have hello: "cm_helloMu w = None"
  proof (rule ccontr)
    assume "cm_helloMu w \<noteq> None"
    then obtain h where h: "h < length ths" "InMessage HelloUnlock \<in> stack_of ths h" using goroutine_ownersD(4)[OF own] by auto
    obtain f fs where f: "InMessage HelloUnlock \<in> set fs" "blocked w f" "frame_ok w (set fs) f"
      using stuck_below[OF stuck inv h] by (auto simp del: frame_ok.simps)
    show False using blocked_below_hello[OF f(2,3,1)] f(2) runs stuck_waiting[OF stuck inv] not_cross by auto
  qed
  show "all_returned ths"
    unfolding all_returned_def
  proof (rule ballI, rule ccontr)
    fix t assume "t \<in> set ths" and busy: "fst t \<noteq> []"
    then obtain i where "i < length ths" "ths ! i = t" by (metis in_set_conv_nth)
    then obtain f fs r where i: "i < length ths" "ths ! i = (f # fs, r)"
      using busy by (cases t; cases "fst t") auto
    have "blocked w f" by (rule stuck_head[OF stuck i])
    moreover have "frame_ok w (set fs) f" using inv i by (auto simp: chat_inv_def dest!: spec[of _ i])
    ultimately show False
      using runs hello stuck_waiting[OF stuck inv] not_cross by (cases "(w, f)" rule: blocked.cases) auto
  qed
qed

end
