(* ===== verification/ChatReturns.thy ===== *)
theory ChatReturns
  imports ChatManagerRuns
begin

text \<open>
  Every call of a \<open>ChatManager\<close> comes to an end: a measure that every step lowers, the theorems on open sessions and on
  calls that return, and the runs of the crosswise wait and of the races between a close and the calls beside it.
\<close>

subsection \<open>A measure\<close>

text \<open>
  In order of weight: the frames that may still make a session, the \<open>sync.Once\<close> values nobody has entered, the starts
  under way, the work left on the stacks (a goroutine that waits for a start already over has one more turn).
\<close>

fun may_make :: "frame \<Rightarrow> nat" where
  "may_make (InEnsure (EnsureLoop allow)) = 1"
| "may_make (InEnsure (WaitDone c allow)) = 1"
| "may_make (InMessage HelloLock) = 1"
| "may_make (InMessage HelloBody) = 1"
| "may_make (InMessage (HelloAuth b)) = 1"
| "may_make (InMessage (HelloRespond b)) = 1"
| "may_make (InMessage ListenGuard) = 1"
| "may_make (InMessage ListenInited) = 1"
| "may_make (InMessage ListenFresh) = 1"
| "may_make f = 0"

fun starting_work :: "frame \<Rightarrow> nat" where
  "starting_work (InEnsure (StartSession s allow)) = 3"
| "starting_work (InEnsure (StartFailed s allow)) = 2"
| "starting_work (InEnsure (FinishStart s allow started)) = 1"
| "starting_work f = 0"

fun ensure_work :: "nat option \<Rightarrow> ensure_pc \<Rightarrow> nat" where
  "ensure_work d (EnsureLoop allow) = (if d = None then 2 else 4)"
| "ensure_work d (WaitDone c allow) = (if d = Some c then 3 else 5)"
| "ensure_work d pc = 1"

fun close_work :: "close_pc \<Rightarrow> nat" where
  "close_work (CloseSession s reason) = 2"
| "close_work (ClearSession s reason) = 7"
| "close_work (AfterClear reason) = 6"
| "close_work pc = 1"

fun shutdown_work :: "shutdown_pc \<Rightarrow> nat" where
  "shutdown_work (ShutdownSessions ct) = 11"
| "shutdown_work (ShutdownRest ct) = 6"
| "shutdown_work CloseTransport = 3"
| "shutdown_work TransportClosed = 2"
| "shutdown_work pc = 1"

fun cleanup_work :: "cleanup_pc \<Rightarrow> nat" where
  "cleanup_work CancelCleanup = 2"
| "cleanup_work (StopTimer k) = 1"
| "cleanup_work (ScheduleCleanup s) = 4"
| "cleanup_work (ArmCleanup s) = 1"
| "cleanup_work (CleanupFires s) = 5"
| "cleanup_work (CleanupChecks s) = 4"
| "cleanup_work (CleanupConfirms s) = 3"

fun speak_work :: "speak_pc \<Rightarrow> nat" where
  "speak_work (SpeakReady nowMs msg) = 3"
| "speak_work (ResetSpeak err) = 3"
| "speak_work pc = 1"

fun message_work :: "message_pc \<Rightarrow> nat" where
  "message_work HelloLock = 12"
| "message_work HelloBody = 10"
| "message_work (HelloAuth b) = 9"
| "message_work (HelloRespond b) = 8"
| "message_work (HelloSession b) = 2"
| "message_work HelloUnlock = 1"
| "message_work ListenGuard = 8"
| "message_work ListenInited = 7"
| "message_work ListenFresh = 6"
| "message_work ListenSession = 1"
| "message_work GoodbyeReceived = 8"
| "message_work MarkStale = 9"
| "message_work StaleSession = 5"
| "message_work ResetLock = 3"
| "message_work ResetHello = 1"

fun work :: "nat option \<Rightarrow> frame \<Rightarrow> nat" where
  "work d (InEnsure pc) = ensure_work d pc"
| "work d (InClose pc) = close_work pc"
| "work d (InShutdown pc) = shutdown_work pc"
| "work d (InCleanup pc) = cleanup_work pc"
| "work d (InSpeak pc) = speak_work pc"
| "work d (InMessage pc) = message_work pc"

definition fresh_onces :: "chat_manager \<Rightarrow> nat" where
  "fresh_onces w = (if cm_closeOnce w = OnceFresh then 1 else 0)
     + card {s. s < cm_nextSession w \<and> session_once w s = OnceFresh}"

definition start_open :: "chat_manager \<Rightarrow> nat" where
  "start_open w = (if cm_startingSessionDone w = None then 0 else 1)"

definition total_of :: "(frame \<Rightarrow> nat) \<Rightarrow> goroutine list \<Rightarrow> nat" where
  "total_of m ths = sum_list (map (\<lambda>t. sum_list (map m (fst t))) ths)"

definition chat_measure :: "chat_state \<Rightarrow> nat \<times> nat \<times> nat \<times> nat" where
  "chat_measure st = (case st of (ths, w) \<Rightarrow>
     (total_of may_make ths, fresh_onces w, start_open w + total_of starting_work ths,
      total_of (work (cm_startingSessionDone w)) ths))"

definition measure_order :: "((nat \<times> nat \<times> nat \<times> nat) \<times> (nat \<times> nat \<times> nat \<times> nat)) set" where
  "measure_order = less_than <*lex*> less_than <*lex*> less_than <*lex*> less_than"

lemma wf_measure_order: "wf measure_order"
  by (simp add: measure_order_def wf_lex_prod)

lemma total_of_update:
  assumes "i < length ths" "ths ! i = (f # fs, r)"
  shows "total_of m (ths[i := (gs @ fs, r')]) + m f = total_of m ths + sum_list (map m gs)"
proof -
  let ?g = "\<lambda>t :: goroutine. sum_list (map m (fst t))"
  have "total_of m (ths[i := (gs @ fs, r')]) = total_of m ths + ?g (gs @ fs, r') - ?g (ths ! i)"
    unfolding total_of_def map_update using assms(1) by (subst sum_list_update) auto
  moreover have "?g (ths ! i) \<le> total_of m ths"
    unfolding total_of_def using assms(1) by (intro member_le_sum_list) auto
  ultimately show ?thesis using assms(2) by simp
qed

definition descends :: "frame \<Rightarrow> chat_manager \<Rightarrow> frame list \<Rightarrow> chat_manager \<Rightarrow> bool" where
  "descends f w gs w' \<longleftrightarrow>
     (let makes = sum_list (map may_make gs); starts = start_open w' + sum_list (map starting_work gs) in
      makes < may_make f
      \<or> makes = may_make f \<and> (fresh_onces w' < fresh_onces w
         \<or> fresh_onces w' = fresh_onces w \<and> (starts < start_open w + starting_work f
            \<or> starts = start_open w + starting_work f \<and> cm_startingSessionDone w' = cm_startingSessionDone w
               \<and> sum_list (map (work (cm_startingSessionDone w)) gs) < work (cm_startingSessionDone w) f)))"

lemma descends_measure:
  assumes i: "i < length ths" "ths ! i = (f # fs, r)" and desc: "descends f w gs w'"
  shows "(chat_measure (ths[i := (gs @ fs, r')], w'), chat_measure (ths, w)) \<in> measure_order"
proof -
  note upd = total_of_update[OF i, of _ gs r']
  show ?thesis
    using desc upd[of may_make] upd[of starting_work] upd[of "work (cm_startingSessionDone w)"]
    unfolding descends_def Let_def chat_measure_def measure_order_def prod.case in_lex_prod less_than_iff
    by (elim disjE conjE) auto
qed

text \<open>An operation that enters no \<open>sync.Once\<close> and leaves the channels alone.\<close>

lemma fresh_onces_same:
  "cm_closeOnce w' = cm_closeOnce w \<Longrightarrow> session_once w' = session_once w \<Longrightarrow> cm_nextSession w' = cm_nextSession w
    \<Longrightarrow> fresh_onces w' = fresh_onces w"
  by (simp add: fresh_onces_def)

lemma descends_work:
  assumes "fresh_onces w' = fresh_onces w" "cm_startingSessionDone w' = cm_startingSessionDone w"
    "sum_list (map may_make gs) = may_make f" "sum_list (map starting_work gs) = starting_work f"
    "sum_list (map (work (cm_startingSessionDone w)) gs) < work (cm_startingSessionDone w) f"
  shows "descends f w gs w'"
  using assms by (simp add: descends_def start_open_def)

lemma same_sessions_descends:
  assumes same: "same_sessions w w'" "cm_closeOnce w' = cm_closeOnce w"
    and "sum_list (map may_make gs) = may_make f" "sum_list (map starting_work gs) = starting_work f"
    "sum_list (map (work (cm_startingSessionDone w)) gs) < work (cm_startingSessionDone w) f"
  shows "descends f w gs w'"
  using assms same_sessions_closing[OF same(1)]
  by (intro descends_work fresh_onces_same) (auto simp: same_sessions_def)

lemma set_once_fresh:
  assumes "s < cm_nextSession w" "session_once w s = OnceFresh" "once \<noteq> OnceFresh"
  shows "fresh_onces (set_once s once w) < fresh_onces w"
proof -
  have "{x. x < cm_nextSession w \<and> session_once (set_once s once w) x = OnceFresh}
      \<subset> {x. x < cm_nextSession w \<and> session_once w x = OnceFresh}"
    using assms by auto
  then have "card {x. x < cm_nextSession w \<and> session_once (set_once s once w) x = OnceFresh}
      < card {x. x < cm_nextSession w \<and> session_once w x = OnceFresh}"
    by (intro psubset_card_mono) auto
  then show ?thesis by (simp add: fresh_onces_def)
qed

lemma set_once_not_fresh:
  assumes "once \<noteq> OnceFresh" "session_once w s \<noteq> OnceFresh"
  shows "fresh_onces (set_once s once w) = fresh_onces w"
proof -
  have "{x. x < cm_nextSession w \<and> session_once (set_once s once w) x = OnceFresh}
      = {x. x < cm_nextSession w \<and> session_once w x = OnceFresh}"
    using assms by auto
  then show ?thesis by (simp add: fresh_onces_def)
qed

lemma set_once_le: "once \<noteq> OnceFresh \<Longrightarrow> fresh_onces (set_once s once w) \<le> fresh_onces w"
proof -
  assume "once \<noteq> OnceFresh"
  then have "{x. x < cm_nextSession w \<and> session_once (set_once s once w) x = OnceFresh}
      \<subseteq> {x. x < cm_nextSession w \<and> session_once w x = OnceFresh}"
    by auto
  then have "card {x. x < cm_nextSession w \<and> session_once (set_once s once w) x = OnceFresh}
      \<le> card {x. x < cm_nextSession w \<and> session_once w x = OnceFresh}"
    by (intro card_mono) auto
  then show ?thesis by (simp add: fresh_onces_def)
qed

lemma descends_le:
  assumes "fresh_onces w' \<le> fresh_onces w" "cm_startingSessionDone w' = cm_startingSessionDone w"
    "sum_list (map may_make gs) = may_make f" "sum_list (map starting_work gs) = starting_work f"
    "sum_list (map (work (cm_startingSessionDone w)) gs) < work (cm_startingSessionDone w) f"
  shows "descends f w gs w'"
  using assms by (auto simp: descends_def start_open_def)

lemma fresh_onces_closing: "fresh_onces (set_closing s w) = fresh_onces w"
  by (simp add: fresh_onces_def)

lemma fresh_onces_cleared: "fresh_onces (close_starting w) = fresh_onces w" "fresh_onces (w\<lparr>cm_session := x\<rparr>) = fresh_onces w"
    "fresh_onces (w\<lparr>cm_needFreshHello := b\<rparr>) = fresh_onces w"
  by (simp_all add: fresh_onces_def)

lemma ensure_descends:
  assumes ok: "manager_ok w" and chans: "\<And>c. channel_marks w c \<le> 1"
    and step: "ensure_step ok' pc r w = Some (gs, r', w')"
  shows "descends (InEnsure pc) w gs w'"
proof (cases pc)
  case (EnsureLoop allow)
  show ?thesis
  proof (cases "cm_session w = None \<and> cm_startingSession w = None \<and> cm_helloInited w \<and> \<not> (cm_needFreshHello w \<and> \<not> allow)")
    case True
    then have "gs = [InEnsure (StartSession (cm_nextSession w) allow)]"
      using step EnsureLoop by (auto simp: ensureSessionInternal_def NewChatSession_def go_on_def Let_def)
    then show ?thesis using EnsureLoop by (simp add: descends_def)
  next
    case False
    then have "w' = w" using step EnsureLoop by (auto simp: ensureSessionInternal_def go_on_def split: option.splits)
    then show ?thesis
      using False step EnsureLoop manager_okD(4)[OF ok]
      by (auto simp: ensureSessionInternal_def go_on_def descends_def start_open_def split: option.splits if_splits)
  qed
next
  case (WaitDone c allow)
  then have "cm_startingSessionDone w \<noteq> Some c" "gs = [InEnsure (EnsureLoop allow)]" "w' = w"
    using step chans[of c] by (auto simp: channel_marks_def go_on_def split: if_splits)
  then show ?thesis using WaitDone by (simp add: descends_def)
next
  case (StartFailed s allow)
  then show ?thesis using step by (auto simp: go_on_def descends_def start_open_def fresh_onces_closing)
next
  case (FinishStart s allow started)
  show ?thesis
  proof (cases "cm_startingSession w = Some s")
    case True
    then obtain c where c: "cm_startingSessionDone w = Some c"
      using manager_okD(4)[OF ok] by (cases "cm_startingSessionDone w") auto
    have "gs = [InEnsure (CloseDone c)]" "cm_startingSessionDone w' = None" "fresh_onces w' = fresh_onces w"
      using step FinishStart True c
      by (auto simp: go_on_def finishSessionStart_def wake_def fresh_onces_cleared Let_def)
    then show ?thesis using FinishStart c by (simp add: descends_def start_open_def)
  qed (use FinishStart step in \<open>auto intro!: descends_le simp: go_on_def finishSessionStart_def descends_def\<close>)
next
  case (CloseDone c)
  then show ?thesis
    using step by (auto intro!: descends_work fresh_onces_same simp: go_on_def close_done_def session_once_def[abs_def])
qed (use step in \<open>auto simp: go_on_def descends_def split: if_splits\<close>)

lemma close_descends:
  assumes ok: "manager_ok w" and pre: "close_ok w B pc" and step: "close_step i pc w = Some (gs, w')"
  shows "descends (InClose pc) w gs w'"
proof (cases pc)
  case (CloseSession s reason)
  then show ?thesis using step by (auto intro!: descends_work fresh_onces_closing)
next
  case (SessionOnce s reason)
  show ?thesis
  proof (cases "session_once w s")
    case OnceFresh
    then show ?thesis
      using SessionOnce step pre set_once_fresh[of s w "OnceRunning i"]
      by (auto simp: CloseWithReason_once_def descends_def)
  qed (use SessionOnce step in \<open>auto intro!: descends_work simp: CloseWithReason_once_def\<close>)
next
  case (ClearSession s reason)
  then show ?thesis
    using step manager_okD(4)[OF ok]
    by (auto simp: handleSessionClosed_def descends_def start_open_def fresh_onces_cleared split: if_splits option.splits)
next
  case (AfterClear reason)
  then show ?thesis
    using step by (auto intro!: descends_work simp: session_cleared_def split: if_splits transport_kind.splits)
next
  case (SessionOnceEnd s)
  then show ?thesis using step set_once_le[of OnceDone s w] by (auto intro!: descends_le)
qed (use step in \<open>auto intro!: same_sessions_descends simp: say_def\<close>)

lemma shutdown_descends:
  assumes step: "shutdown_step i pc w = Some (gs, w')"
  shows "descends (InShutdown pc) w gs w'"
proof (cases pc)
  case (Shutdown ct)
  show ?thesis
  proof (cases "cm_closeOnce w")
    case OnceFresh
    moreover have "session_once (w\<lparr>cm_closeOnce := x\<rparr>) = session_once w" for x
      by (simp add: session_once_def[abs_def])
    ultimately show ?thesis using Shutdown step by (auto simp: shutdown_once_def descends_def fresh_onces_def)
  qed (use Shutdown step in \<open>auto intro!: descends_work simp: shutdown_once_def\<close>)
next
  case ManagerOnceEnd
  have "session_once (w\<lparr>cm_closeOnce := x\<rparr>) = session_once w" for x
    by (simp add: session_once_def[abs_def])
  then show ?thesis using ManagerOnceEnd step by (auto intro!: descends_le simp: fresh_onces_def)
qed (use step in \<open>auto intro!: same_sessions_descends simp: shutdown_sessions_def shutdown_rest_def serverTransport_Close_def
       chat_OnClose_def say_def Let_def split: option.splits if_splits transport_kind.splits\<close>)

lemma cleanup_descends: "cleanup_step pc w = (gs, w') \<Longrightarrow> descends (InCleanup pc) w gs w'"
  by (cases pc) (auto intro!: same_sessions_descends simp: cancelRetainedSessionCleanup_def scheduleRetainedSessionCleanup_def
      runRetainedSessionCleanup_def arm_cleanup_def same_sessions_def split: option.splits if_splits)

lemma speak_descends: "speak_frame_step pc w = (gs, w') \<Longrightarrow> descends (InSpeak pc) w gs w'"
  by (cases pc) (auto intro!: same_sessions_descends simp: finish_speak_def speaking_def split: option.splits)

lemma message_descends:
  assumes step: "message_step ok i pc r w = Some (gs, w')"
  shows "descends (InMessage pc) w gs w'"
proof (cases pc)
  case (HelloAuth b)
  show ?thesis
  proof (cases "b \<and> \<not> ok")
    case True
    then show ?thesis using HelloAuth step by (auto simp: hello_auth_def descends_def)
  next
    case False
    then show ?thesis
      using HelloAuth step by (cases b) (auto intro!: same_sessions_descends simp: hello_auth_def)
  qed
next
  case (HelloRespond b)
  show ?thesis
  proof (cases "ok")
    case True
    then show ?thesis using HelloRespond step by (auto intro!: same_sessions_descends simp: hello_respond_def say_def split: option.splits)
  next
    case False
    then show ?thesis using HelloRespond step by (auto simp: hello_respond_def descends_def)
  qed
next
  case ListenInited
  show ?thesis
  proof (cases "cm_helloInited w")
    case True
    then show ?thesis using ListenInited step by (auto intro!: same_sessions_descends)
  next
    case False
    then show ?thesis using ListenInited step by (auto simp: descends_def)
  qed
next
  case ListenFresh
  show ?thesis
  proof (cases "\<not> cm_needFreshHello w")
    case True
    then show ?thesis using ListenFresh step by (auto intro!: same_sessions_descends simp: listen_fresh_def split: option.splits)
  next
    case False
    then show ?thesis using ListenFresh step by (auto simp: listen_fresh_def descends_def)
  qed
qed (use step in \<open>auto intro!: same_sessions_descends simp: lock_helloMu_def listen_guard_def HandleGoodByeMessage_def
       markMqttConversationStateStale_def stale_session_def speaking_def split: option.splits if_splits ensure_result.splits\<close>)

lemma move_descends:
  assumes inv: "chat_inv kind st" and move: "chat_moves st st'"
  shows "(chat_measure st', chat_measure st) \<in> measure_order"
  using move
proof (cases rule: chat_moves.cases)
  case (move i ths f fs r ok w gs r' w')
  have mok: "manager_ok w" and own: "goroutine_owners (ths, w)" and top: "stack_ok w (f # fs)"
    using inv move(1,3,4) by (auto simp: chat_inv_def dest!: spec[of _ i])
  have chans: "channel_marks w c \<le> 1" for c
    using goroutine_ownersD(7)[OF own, of c] by (auto simp: channel_made_def split: if_splits)
  have "descends f w gs w'"
  proof (cases f)
    case (InEnsure pc)
    then show ?thesis using move(5) ensure_descends[OF mok chans] by simp
  next
    case (InClose pc)
    then show ?thesis using move(5) top close_descends[OF mok, of "set fs" pc i gs w']
      by (auto simp: going_on_def go_on_def split: option.splits)
  next
    case (InShutdown pc)
    then show ?thesis using move(5) shutdown_descends[of i pc w gs w'] by (auto simp: going_on_def go_on_def split: option.splits)
  next
    case (InCleanup pc)
    then show ?thesis using move(5) cleanup_descends[of pc w gs w'] by (auto simp: go_on_def)
  next
    case (InSpeak pc)
    then show ?thesis using move(5) speak_descends[of pc w gs w'] by (auto simp: go_on_def)
  next
    case (InMessage pc)
    then show ?thesis using move(5) message_descends[of ok i pc r w gs w'] by (auto simp: going_on_def go_on_def split: option.splits)
  qed
  then show ?thesis using descends_measure[OF move(3,4)] move(1,2) by simp
qed

lemma moves_inv: "chat_moves\<^sup>*\<^sup>* st st' \<Longrightarrow> chat_inv kind st \<Longrightarrow> chat_inv kind st'"
  by (induction rule: rtranclp_induct) (auto intro: chat_inv_moves)

lemma no_endless_moves:
  assumes "chat_inv kind (g 0)" "\<And>n. chat_moves (g n) (g (Suc n))"
  shows False
proof -
  have inv: "chat_inv kind (g n)" for n
    using assms by (induction n) (auto intro: chat_inv_moves)
  define h where "h n = chat_measure (g n)" for n
  have "\<forall>n. (h (Suc n), h n) \<in> measure_order"
    using move_descends[OF inv assms(2)] by (simp add: h_def)
  then show False using wf_measure_order unfolding wf_iff_no_infinite_down_chain by blast
qed

subsection \<open>Open sessions\<close>


subsection \<open>Calls return\<close>

text \<open>
  C8. From every state a manager can reach, the goroutines at work cannot go on for ever without a new call, message or
  timer; and when none of them can go on, all of them have returned, except that on a WebSocket two may wait for each other crosswise, one
  inside the \<open>closeOnce\<close> of a session and one inside that of the manager. On MQTT and UDP every call returns.
\<close>

theorem chat_calls_return:
  assumes "chat_reachable kind st"
  shows "(\<nexists>g. g 0 = st \<and> (\<forall>n. chat_moves (g n) (g (Suc n))))
    \<and> (\<forall>st'. chat_moves\<^sup>*\<^sup>* st st' \<longrightarrow> stuck st' \<longrightarrow>
         all_returned (fst st') \<or> (kind = Websocket \<and> (\<exists>i j s. crosswise i j s st')))"
proof (intro conjI allI impI notI)
  assume "\<exists>g. g 0 = st \<and> (\<forall>n. chat_moves (g n) (g (Suc n)))"
  then obtain g where "g 0 = st" "\<And>n. chat_moves (g n) (g (Suc n))" by blast
  then show False using no_endless_moves[of kind g] chat_reachable_inv[OF assms] by simp
next
  fix st' assume run: "chat_moves\<^sup>*\<^sup>* st st'" and stuck: "stuck st'"
  obtain ths w where st': "st' = (ths, w)" by fastforce
  have inv: "chat_inv kind (ths, w)" using moves_inv[OF run chat_reachable_inv[OF assms]] st' by simp
  have "all_returned ths \<or> (\<exists>i j s. crosswise i j s (ths, w))"
    using stuck_crosswise[OF _ inv] stuck st' by simp
  then show "all_returned (fst st') \<or> (kind = Websocket \<and> (\<exists>i j s. crosswise i j s st'))"
    using st' inv by (auto simp: chat_inv_def crosswise_def)
qed

subsection \<open>The crosswise wait is for ever\<close>

lemma crosswise_move:
  assumes inv: "chat_inv kind st" and cross: "crosswise i j s st" and move: "chat_moves st st'"
  shows "crosswise i j s st'"
  using move
proof (cases rule: chat_moves.cases)
  case (move k ths f fs r ok w gs r' w')
  have own: "goroutine_owners (ths, w)" and mok: "manager_ok w" using inv move(1) by (auto simp: chat_inv_def)
  note now = cross[unfolded crosswise_def move(1) prod.case]
  have k: "k \<noteq> i" "k \<noteq> j"
    using move(3-5) now by (auto simp: going_on_def shutdown_once_def CloseWithReason_once_def)
  have eff: "step_effect k f w gs w'" by (rule frame_effect[OF mok move(5)])
  have "f \<noteq> InClose (SessionOnceEnd s)"
    using goroutine_ownersD(8)[OF own move(3), of s] move(4) now k by auto
  then have "session_once w' s = OnceRunning i" using step_effectD(11)[OF eff] now by blast
  moreover have "f \<noteq> InShutdown ManagerOnceEnd"
    using goroutine_ownersD(3)[OF own move(3)] move(4) now k by auto
  then have "cm_closeOnce w' = OnceRunning j" using step_effectD(4)[OF eff] now by blast
  moreover have "cm_kind w' = cm_kind w"
    using chat_inv_moves[OF inv assms(3)] inv move(1,2) by (simp add: chat_inv_def)
  ultimately show ?thesis using now k move(2) by (simp add: crosswise_def)
qed

lemma crosswise_event:
  assumes "crosswise i j s st" "chat_events st st'"
  shows "crosswise i j s st'"
  using assms(2)
proof (cases rule: chat_events.cases)
  case (called w c ths)
  then show ?thesis using assms(1) by (auto simp: crosswise_def nth_append)
next
  case (cleanup_due w k x ths)
  then show ?thesis using assms(1) by (auto simp: crosswise_def nth_append session_once_def)
next
  case (speak_due k w gs w' ths)
  then have "w' = w\<lparr>cm_speak := snd (timer_fires k (cm_speak w))\<rparr>" by (auto simp: finish_speak_def)
  then show ?thesis using assms(1) speak_due by (auto simp: crosswise_def nth_append session_once_def)
qed

subsection \<open>Runs\<close>

text \<open>Schedules: a call arrives, or a goroutine runs, with the outcomes of the calls it makes outside.\<close>

datatype chat_choice = Arrives chat_call | Runs nat "bool list"

definition run_goroutine :: "nat \<Rightarrow> bool \<Rightarrow> chat_state \<Rightarrow> chat_state option" where
  "run_goroutine i ok st =
     (if i < length (fst st) then
        (case fst st ! i of
           ([], _) \<Rightarrow> None
         | (f # fs, r) \<Rightarrow>
             (case frame_step ok i f r (snd st) of
                None \<Rightarrow> None
              | Some (gs, r', w') \<Rightarrow> Some ((fst st)[i := (gs @ fs, r')], w')))
      else None)"

primrec run_steps :: "nat \<Rightarrow> bool list \<Rightarrow> chat_state \<Rightarrow> chat_state option" where
  "run_steps i [] st = Some st"
| "run_steps i (ok # oks) st = (case run_goroutine i ok st of None \<Rightarrow> None | Some st' \<Rightarrow> run_steps i oks st')"

fun run_choice :: "chat_choice \<Rightarrow> chat_state \<Rightarrow> chat_state option" where
  "run_choice (Arrives c) (ths, w) = (if call_possible w c then Some (ths @ [(begin_call c, None)], w) else None)"
| "run_choice (Runs i oks) st = run_steps i oks st"

primrec run_schedule :: "chat_choice list \<Rightarrow> chat_state \<Rightarrow> chat_state option" where
  "run_schedule [] st = Some st"
| "run_schedule (c # cs) st = (case run_choice c st of None \<Rightarrow> None | Some st' \<Rightarrow> run_schedule cs st')"

lemma run_goroutine_moves: "run_goroutine i ok st = Some st' \<Longrightarrow> chat_moves st st'"
  by (cases st) (auto simp: run_goroutine_def intro: chat_moves.move split: if_splits prod.splits list.splits option.splits)

lemma run_steps_reachable: "run_steps i oks st = Some st' \<Longrightarrow> chat_reachable kind st \<Longrightarrow> chat_reachable kind st'"
  by (induction oks arbitrary: st) (auto split: option.splits intro: chat_reachable.moved[OF _ run_goroutine_moves])

lemma run_choice_reachable: "run_choice c st = Some st' \<Longrightarrow> chat_reachable kind st \<Longrightarrow> chat_reachable kind st'"
  by (cases "(c, st)" rule: run_choice.cases)
     (auto dest: run_steps_reachable intro: chat_reachable.happened chat_events.called split: if_splits)

lemma run_schedule_reachable: "run_schedule cs st = Some st' \<Longrightarrow> chat_reachable kind st \<Longrightarrow> chat_reachable kind st'"
  by (induction cs arbitrary: st) (auto dest: run_choice_reachable split: option.splits)

lemmas run_defs = run_goroutine_def frame_defs close_starting_def set_closing_def set_once_def session_closing_def
  session_once_def cancelRetainedSessionCleanup_def NewChatManager_def call_possible_def

text \<open>A hello that opens session 0, and the two closes that then wait for each other.\<close>

definition hello_schedule :: "chat_choice list" where
  "hello_schedule = [Arrives HelloArrives, Runs 0 (replicate 12 True)]"

definition crossing_schedule :: "chat_choice list" where
  "crossing_schedule =
     [Arrives (SessionEnds 0 ExplicitExit), Runs 1 [True, True],
      Arrives TransportDrops, Runs 2 [True, True, True, True, True],
      Runs 1 [True, True, True]]"

definition opened :: "transport_kind \<Rightarrow> chat_state" where
  "opened kind = ([([], Some (GotSession 0))],
     (NewChatManager kind)\<lparr>cm_sessions := (\<lambda>_. \<lparr>ss_closing = False, ss_closeOnce = OnceFresh\<rparr>)(0 := \<lparr>ss_closing = False, ss_closeOnce = OnceFresh\<rparr>),
       cm_nextSession := 1, cm_session := Some 0, cm_doneCloses := (\<lambda>_. 0)(0 := 1), cm_nextDone := 1,
       cm_helloInited := True, cm_sent := [SentHello]\<rparr>)"

lemma hello_opens: "run_schedule hello_schedule ([], NewChatManager kind) = Some (opened kind)"
  by (simp add: hello_schedule_def run_defs numeral_eq_Suc opened_def)

lemma reachable_opened: "chat_reachable kind (opened kind)"
  using run_schedule_reachable[OF hello_opens chat_reachable.new] .

definition chat_steps :: "chat_state \<Rightarrow> chat_state \<Rightarrow> bool" where
  "chat_steps st st' \<longleftrightarrow> chat_moves st st' \<or> chat_events st st'"

lemma crosswise_waits: "crosswise i j s st \<Longrightarrow> fst (fst st ! i) \<noteq> [] \<and> fst (fst st ! j) \<noteq> []"
  by (auto simp: crosswise_def)

lemma crosswise_steps:
  "chat_steps\<^sup>*\<^sup>* st st' \<Longrightarrow> chat_inv kind st \<Longrightarrow> crosswise i j s st \<Longrightarrow> crosswise i j s st'"
proof (induction rule: rtranclp_induct)
  case (step y z)
  have "chat_inv kind y"
    using step.hyps(1) step.prems(1)
    by (induction rule: rtranclp_induct) (auto simp: chat_steps_def intro: chat_inv_moves chat_inv_events)
  then show ?case
    using step crosswise_move crosswise_event unfolding chat_steps_def by blast
qed

text \<open>
  C9. On a WebSocket the two \<open>closeOnce\<close> are entered in opposite orders: there is a run of a hello, the end of the session
  (a user's goodbye, say) and the loss of the connection after which the goroutine that ends the session is inside its
  \<open>closeOnce\<close> and waits for that of the manager, and the goroutine that shuts the manager down is inside that and
  waits for the one of the session; and nothing that happens afterwards frees them.
\<close>

theorem websocket_close_deadlock:
  "\<exists>st. chat_reachable Websocket st \<and> crosswise 1 2 0 st
    \<and> {st'. chat_steps\<^sup>*\<^sup>* st st'} \<subseteq> {st'. crosswise 1 2 0 st' \<and> fst (fst st' ! 1) \<noteq> [] \<and> fst (fst st' ! 2) \<noteq> []}"
proof -
  obtain st where run: "run_schedule crossing_schedule (opened Websocket) = Some st" and cross: "crosswise 1 2 0 st"
    by (auto simp: crossing_schedule_def opened_def run_defs crosswise_def numeral_eq_Suc nth_append)
  have reach: "chat_reachable Websocket st" by (rule run_schedule_reachable[OF run reachable_opened])
  have "crosswise 1 2 0 st'" if "chat_steps\<^sup>*\<^sup>* st st'" for st'
    using crosswise_steps[OF that chat_reachable_inv[OF reach] cross] .
  then have "{st'. chat_steps\<^sup>*\<^sup>* st st'} \<subseteq> {st'. crosswise 1 2 0 st' \<and> fst (fst st' ! 1) \<noteq> [] \<and> fst (fst st' ! 2) \<noteq> []}"
    using crosswise_waits by blast
  then show ?thesis using reach cross by blast
qed

definition late_schedule :: "chat_choice list" where
  "late_schedule =
     [Arrives HelloArrives, Runs 0 [True, True, True, True, True],
      Arrives ManagerCloses, Runs 1 (replicate 9 True),
      Runs 0 (replicate 7 True)]"

definition relisten_schedule :: "chat_choice list" where
  "relisten_schedule =
     [Arrives (SessionEnds 0 ExplicitExit), Runs 1 [True, True, True, True],
      Arrives ListenArrives, Runs 2 (replicate 10 True),
      Runs 1 (replicate 5 True)]"

text \<open>
  Two races of a close on MQTT and UDP, after which every call has returned. A hello that is being answered while the
  manager is shut down leaves an open session on the closed manager. And a listen between the moment a closing
  session is taken off the manager and the moment a new hello is required opens a session without that hello, and then the device is told
  goodbye, although the session is open.
\<close>

theorem close_races:
  "(\<exists>ths w s. chat_reachable MqttUdp (ths, w) \<and> all_returned ths
      \<and> cm_closeOnce w = OnceDone \<and> cm_ctxDone w \<and> cm_session w = Some s \<and> \<not> session_closing w s)
   \<and> (\<exists>ths w s. chat_reachable MqttUdp (ths, w) \<and> all_returned ths
      \<and> cm_session w = Some s \<and> \<not> session_closing w s \<and> cm_needFreshHello w \<and> cm_sent w = [SentHello, SentGoodbye])"
proof
  obtain ths w where run: "run_schedule late_schedule ([], NewChatManager MqttUdp) = Some (ths, w)"
    and facts: "all_returned ths" "cm_closeOnce w = OnceDone" "cm_ctxDone w" "cm_session w = Some 0" "\<not> session_closing w 0"
    by (simp add: late_schedule_def run_defs all_returned_def numeral_eq_Suc nth_append)
  have "chat_reachable MqttUdp (ths, w)" by (rule run_schedule_reachable[OF run chat_reachable.new])
  then show "\<exists>ths w s. chat_reachable MqttUdp (ths, w) \<and> all_returned ths
      \<and> cm_closeOnce w = OnceDone \<and> cm_ctxDone w \<and> cm_session w = Some s \<and> \<not> session_closing w s"
    using facts by blast
next
  obtain ths w where run: "run_schedule relisten_schedule (opened MqttUdp) = Some (ths, w)"
    and facts: "all_returned ths" "cm_session w = Some 1" "\<not> session_closing w 1" "cm_needFreshHello w"
      "cm_sent w = [SentHello, SentGoodbye]"
    by (simp add: relisten_schedule_def opened_def run_defs all_returned_def resetSpeakPath_def fresh_speak_path_def
        shouldSendMqttGoodbyeOnSessionClose_def clearMqttRebootstrapPending_def
        numeral_eq_Suc nth_append)
  have "chat_reachable MqttUdp (ths, w)" by (rule run_schedule_reachable[OF run reachable_opened])
  then show "\<exists>ths w s. chat_reachable MqttUdp (ths, w) \<and> all_returned ths
      \<and> cm_session w = Some s \<and> \<not> session_closing w s \<and> cm_needFreshHello w \<and> cm_sent w = [SentHello, SentGoodbye]"
    using facts by blast
qed


theorem chat_calls_return_witness:
  "chat_reachable MqttUdp (opened MqttUdp) \<and> \<not> (\<exists>g. g 0 = opened MqttUdp \<and> (\<forall>n. chat_moves (g n) (g (Suc n))))"
  using chat_calls_return[OF reachable_opened[of MqttUdp]] reachable_opened[of MqttUdp] by blast

end
