(* ===== verification/Gorm.thy ===== *)
theory Gorm
  imports Prelude
begin

text \<open>
  The object-relational mapper the manager backend stores its data with. GORM and the SQL server
  behind it are not part of the repository, so a table is a record of operations that the
  handlers take as an argument, over an opaque connection state \<open>'db\<close>; the locale
  \<open>gorm_table\<close> states the documented behaviour the handlers rely on: a query returns the matching
  rows in primary-key order (or stably re-ordered by the key of an \<open>ORDER BY\<close>), a write changes exactly the rows it names, and any call may fail with
  a driver error, in which case the table is as before. \<open>view\<close> reads the tables off the
  connection, \<open>get\<close> and \<open>upd\<close> select the one table.

  \<open>mem_table\<close> is an in-memory provider of the interface, on which the locale is interpreted.
\<close>

datatype gorm_error = ErrRecordNotFound | DriverError

record ('row, 'db) table_ops =
  t_first :: "('row \<Rightarrow> bool) \<Rightarrow> 'db \<Rightarrow> (gorm_error, 'row, 'db) outcome"
  t_find :: "('row \<Rightarrow> bool) \<Rightarrow> 'db \<Rightarrow> (gorm_error, 'row list, 'db) outcome"
  t_find_by :: "('row \<Rightarrow> nat) \<Rightarrow> ('row \<Rightarrow> bool) \<Rightarrow> 'db \<Rightarrow> (gorm_error, 'row list, 'db) outcome"
  t_count :: "('row \<Rightarrow> bool) \<Rightarrow> 'db \<Rightarrow> (gorm_error, nat, 'db) outcome"
  t_create :: "'row \<Rightarrow> 'db \<Rightarrow> (gorm_error, 'row, 'db) outcome"
  t_save :: "'row \<Rightarrow> 'db \<Rightarrow> (gorm_error, unit, 'db) outcome"
  t_updates :: "('row \<Rightarrow> bool) \<Rightarrow> ('row \<Rightarrow> 'row) \<Rightarrow> 'db \<Rightarrow> (gorm_error, unit, 'db) outcome"
  t_delete :: "('row \<Rightarrow> bool) \<Rightarrow> 'db \<Rightarrow> (gorm_error, unit, 'db) outcome"

locale gorm_table =
  fixes T :: "('row, 'db) table_ops"
    and view :: "'db \<Rightarrow> 'v"
    and get :: "'v \<Rightarrow> 'row list"
    and upd :: "('row list \<Rightarrow> 'row list) \<Rightarrow> 'v \<Rightarrow> 'v"
    and pk :: "'row \<Rightarrow> nat"
    and set_pk :: "nat \<Rightarrow> 'row \<Rightarrow> 'row"
  assumes first_law: "t_first T P db = (r, db') \<Longrightarrow> view db' = view db \<and>
      (r = Inl DriverError \<or>
       r = (case List.find P (get (view db)) of None \<Rightarrow> Inl ErrRecordNotFound | Some x \<Rightarrow> Inr x))"
    and find_law: "t_find T P db = (s, db') \<Longrightarrow> view db' = view db \<and>
      (s = Inl DriverError \<or> s = Inr (filter P (get (view db))))"
    and find_by_law: "t_find_by T k P db = (s, db') \<Longrightarrow> view db' = view db \<and>
      (s = Inl DriverError \<or> s = Inr (sort_key k (filter P (get (view db)))))"
    and count_law: "t_count T P db = (n, db') \<Longrightarrow> view db' = view db \<and>
      (n = Inl DriverError \<or> n = Inr (length (filter P (get (view db)))))"
    and create_law: "t_create T x db = (r, db') \<Longrightarrow>
      (r = Inl DriverError \<and> view db' = view db) \<or>
      (\<exists>i. 0 < i \<and> (\<forall>y\<in>set (get (view db)). pk y < i) \<and> r = Inr (set_pk i x) \<and>
           view db' = upd (\<lambda>xs. xs @ [set_pk i x]) (view db))"
    and save_law: "t_save T x db = (u, db') \<Longrightarrow> pk x \<in> pk ` set (get (view db)) \<Longrightarrow>
      (u = Inl DriverError \<and> view db' = view db) \<or>
      (u = Inr () \<and> view db' = upd (map (\<lambda>y. if pk y = pk x then x else y)) (view db))"
    and updates_law: "t_updates T P f db = (u, db') \<Longrightarrow>
      (u = Inl DriverError \<and> view db' = view db) \<or>
      (u = Inr () \<and> view db' = upd (map (\<lambda>y. if P y then f y else y)) (view db))"
    and delete_law: "t_delete T P db = (u, db') \<Longrightarrow>
      (u = Inl DriverError \<and> view db' = view db) \<or>
      (u = Inr () \<and> view db' = upd (filter (\<lambda>y. \<not> P y)) (view db))"
begin

lemma first_Inr:
  assumes "t_first T P db = (Inr x, db')"
  shows "view db' = view db \<and> List.find P (get (view db)) = Some x \<and>
    x \<in> set (get (view db)) \<and> P x"
  using first_law [OF assms] by (auto split: option.splits dest: find_SomeD)

lemma first_NotFound:
  assumes "t_first T P db = (Inl ErrRecordNotFound, db')"
  shows "view db' = view db \<and> List.find P (get (view db)) = None"
  using first_law [OF assms] by (auto split: option.splits)

lemma first_view: "t_first T P db = (r, db') \<Longrightarrow> view db' = view db"
  using first_law by blast

lemma find_Inr: "t_find T P db = (Inr xs, db') \<Longrightarrow> view db' = view db \<and> xs = filter P (get (view db))"
  using find_law by fastforce

lemma find_by_Inr: "t_find_by T k P db = (Inr xs, db') \<Longrightarrow>
    view db' = view db \<and> xs = sort_key k (filter P (get (view db)))"
  using find_by_law by fastforce

lemma count_Inr:
  "t_count T P db = (Inr n, db') \<Longrightarrow> view db' = view db \<and> n = length (filter P (get (view db)))"
  using count_law by fastforce

lemma create_Inl: "t_create T x db = (Inl e, db') \<Longrightarrow> view db' = view db"
  using create_law by fastforce

lemma save_Inl:
  "t_save T x db = (Inl e, db') \<Longrightarrow> pk x \<in> pk ` set (get (view db)) \<Longrightarrow> view db' = view db"
  using save_law by fastforce

lemma updates_Inl: "t_updates T P f db = (Inl e, db') \<Longrightarrow> view db' = view db"
  using updates_law by fastforce

lemma updates_Inr: "t_updates T P f db = (Inr u, db') \<Longrightarrow>
    view db' = upd (map (\<lambda>y. if P y then f y else y)) (view db)"
  using updates_law by fastforce

lemma delete_Inl: "t_delete T P db = (Inl e, db') \<Longrightarrow> view db' = view db"
  using delete_law by fastforce

lemma delete_Inr: "t_delete T P db = (Inr u, db') \<Longrightarrow> view db' = upd (filter (\<lambda>y. \<not> P y)) (view db)"
  using delete_law by fastforce

end

fun mem_next_pk :: "('row \<Rightarrow> nat) \<Rightarrow> 'row list \<Rightarrow> nat" where
  "mem_next_pk pk [] = 1"
| "mem_next_pk pk (x # xs) = max (Suc (pk x)) (mem_next_pk pk xs)"

definition mem_table :: "('v \<Rightarrow> 'row list) \<Rightarrow> (('row list \<Rightarrow> 'row list) \<Rightarrow> 'v \<Rightarrow> 'v)
    \<Rightarrow> ('row \<Rightarrow> nat) \<Rightarrow> (nat \<Rightarrow> 'row \<Rightarrow> 'row) \<Rightarrow> ('row, 'v) table_ops" where
  "mem_table get upd pk set_pk = \<lparr>
     t_first = (\<lambda>P v. (case List.find P (get v) of None \<Rightarrow> Inl ErrRecordNotFound | Some x \<Rightarrow> Inr x, v)),
     t_find = (\<lambda>P v. (Inr (filter P (get v)), v)),
     t_find_by = (\<lambda>k P v. (Inr (sort_key k (filter P (get v))), v)),
     t_count = (\<lambda>P v. (Inr (length (filter P (get v))), v)),
     t_create = (\<lambda>x v. let y = set_pk (mem_next_pk pk (get v)) x in (Inr y, upd (\<lambda>xs. xs @ [y]) v)),
     t_save = (\<lambda>x v. (Inr (), upd (map (\<lambda>y. if pk y = pk x then x else y)) v)),
     t_updates = (\<lambda>P f v. (Inr (), upd (map (\<lambda>y. if P y then f y else y)) v)),
     t_delete = (\<lambda>P v. (Inr (), upd (filter (\<lambda>y. \<not> P y)) v))\<rparr>"

lemma mem_next_pk_pos: "0 < mem_next_pk pk xs"
  by (induction xs) auto

lemma mem_next_pk_fresh: "x \<in> set xs \<Longrightarrow> pk x < mem_next_pk pk xs"
  by (induction xs) auto

interpretation mem: gorm_table "mem_table get upd pk set_pk" "\<lambda>v. v" get upd pk set_pk
proof (unfold_locales, goal_cases)
  case (5 x db r db')
  then have "r = Inr (set_pk (mem_next_pk pk (get db)) x)"
    and "db' = upd (\<lambda>xs. xs @ [set_pk (mem_next_pk pk (get db)) x]) db"
    by (auto simp: mem_table_def Let_def)
  then show ?case
    by (intro disjI2 exI [of _ "mem_next_pk pk (get db)"]) (simp add: mem_next_pk_pos mem_next_pk_fresh)
qed (auto simp: mem_table_def split: option.splits)

text \<open>
  A table with a unique index on \<open>key\<close>: the server refuses a row whose key is taken. \<open>mem_unique\<close> is
  the in-memory provider.
\<close>

locale gorm_unique = gorm_table +
  fixes key :: "'b \<Rightarrow> 'k"
  assumes unique_law: "t_create T x db = (Inr y, db') \<Longrightarrow> key x \<notin> key ` set (get (view db))"
begin

lemma create_new:
  assumes "t_create T x db = (Inr y, db')"
  shows "\<exists>i. view db' = upd (\<lambda>xs. xs @ [set_pk i x]) (view db) \<and> key x \<notin> key ` set (get (view db))"
  using create_law [OF assms] unique_law [OF assms] by blast

end

definition mem_unique :: "('v \<Rightarrow> 'row list) \<Rightarrow> (('row list \<Rightarrow> 'row list) \<Rightarrow> 'v \<Rightarrow> 'v)
    \<Rightarrow> ('row \<Rightarrow> nat) \<Rightarrow> (nat \<Rightarrow> 'row \<Rightarrow> 'row) \<Rightarrow> ('row \<Rightarrow> 'k) \<Rightarrow> ('row, 'v) table_ops" where
  "mem_unique get upd pk set_pk key = (mem_table get upd pk set_pk)\<lparr>t_create := (\<lambda>x v.
     if key x \<in> key ` set (get v) then (Inl DriverError, v) else t_create (mem_table get upd pk set_pk) x v)\<rparr>"

interpretation mem_uq: gorm_unique "mem_unique get upd pk set_pk key" "\<lambda>v. v" get upd pk set_pk key
proof (unfold_locales, goal_cases)
  case (5 x db r db')
  show ?case
  proof (cases "key x \<in> key ` set (get db)")
    case True
    with 5 show ?thesis by (simp add: mem_unique_def)
  next
    case False
    then have "t_create (mem_table get upd pk set_pk) x db = (r, db')"
      using 5 by (simp add: mem_unique_def)
    from mem.create_law [OF this] show ?thesis .
  qed
qed (auto simp: mem_unique_def mem_table_def split: option.splits if_splits)

end
