(* ===== verification/DeviceAcl.thy ===== *)
theory DeviceAcl
  imports Gorm
begin

text \<open>
  Device families: \<open>manager/backend/services/device_acl/acl.go\<close> and \<open>invite.go\<close>, with the rows of
  \<open>manager/backend/models/models.go\<close> they work on. A device has one owner (\<open>devices.user_id\<close>) and
  members; an owner hands out invite codes. Every operation takes the store as its argument \<open>G\<close>
  and threads the connection; \<open>acl_view\<close> is what the three tables hold.

  The locale \<open>acl_store\<close> collects the laws of the three tables and of \<open>db.Transaction\<close>. Inside it
  are the lemmas on single operations; the well-formedness of the tables (\<open>acl_wf\<close>: primary keys,
  one row per device and user, one invite per code) is an invariant of every operation.
\<close>

subsection \<open>Rows and constants\<close>

record device =
  dev_ID :: nat
  dev_UserID :: nat
  dev_AgentID :: nat
  dev_RoleID :: "nat option"
  dev_NickName :: gotext
  dev_DeviceCode :: gotext
  dev_DeviceName :: gotext
  dev_Challenge :: gotext
  dev_PreSecretKey :: gotext
  dev_Activated :: bool
  dev_LastActiveAt :: "instant option"
  dev_CreatedAt :: instant
  dev_UpdatedAt :: instant

record device_member =
  mem_ID :: nat
  mem_DeviceID :: nat
  mem_UserID :: nat
  mem_Role :: string
  mem_Status :: string
  mem_InvitedBy :: "nat option"
  mem_JoinedAt :: instant
  mem_RevokedAt :: "instant option"
  mem_CreatedAt :: instant
  mem_UpdatedAt :: instant

record device_invite =
  inv_ID :: nat
  inv_DeviceID :: nat
  inv_Code :: gotext
  inv_CreatedBy :: nat
  inv_ExpiresAt :: instant
  inv_MaxUses :: int
  inv_UsedCount :: int
  inv_Status :: string
  inv_CreatedAt :: instant
  inv_UpdatedAt :: instant

definition RoleOwner :: string where "RoleOwner = ''owner''"
definition RoleMember :: string where "RoleMember = ''member''"
definition StatusActive :: string where "StatusActive = ''active''"
definition StatusRevoked :: string where "StatusRevoked = ''revoked''"
definition InviteStatusActive :: string where "InviteStatusActive = ''active''"
definition InviteStatusExhausted :: string where "InviteStatusExhausted = ''exhausted''"
definition InviteStatusExpired :: string where "InviteStatusExpired = ''expired''"
definition MaxMembersPerDevice :: nat where "MaxMembersPerDevice = 6"
definition InviteCodeLength :: nat where "InviteCodeLength = 6"
definition InviteTTL :: int where "InviteTTL = 24 * 3600 * 1000000000"
definition InviteMaxUses :: int where "InviteMaxUses = 5"

definition inviteCodeAlphabet :: gotext where
  "inviteCodeAlphabet = lit ''ABCDEFGHJKLMNPQRSTUVWXYZ23456789''"

datatype acl_error =
    ErrForbidden | ErrNotMember | ErrAlreadyMember | ErrMemberFull | ErrInviteInvalid
  | ErrCannotKickOwner | ErrCannotLeaveOwner | ErrOwnerOnly
  | ErrInvalidDeviceOrOwner | ErrCodeGeneration | ErrRandom
  | GormError gorm_error

lemmas acl_consts = RoleOwner_def RoleMember_def StatusActive_def StatusRevoked_def
  InviteStatusActive_def InviteStatusExhausted_def InviteStatusExpired_def

record 'db acl_ops =
  devices_t :: "(device, 'db) table_ops"
  members_t :: "(device_member, 'db) table_ops"
  invites_t :: "(device_invite, 'db) table_ops"
  transaction :: "('db \<Rightarrow> (acl_error, device, 'db) outcome) \<Rightarrow> 'db \<Rightarrow> (acl_error, device, 'db) outcome"

record acl_view =
  v_devices :: "device list"
  v_members :: "device_member list"
  v_invites :: "device_invite list"

text \<open>The \<open>WHERE\<close> clauses of the queries, as predicates on rows.\<close>

definition has_id :: "nat \<Rightarrow> device \<Rightarrow> bool" where
  "has_id i d \<longleftrightarrow> dev_ID d = i"

definition member_of :: "nat \<Rightarrow> nat \<Rightarrow> device_member \<Rightarrow> bool" where
  "member_of d u m \<longleftrightarrow> mem_DeviceID m = d \<and> mem_UserID m = u"

definition active_on :: "nat \<Rightarrow> device_member \<Rightarrow> bool" where
  "active_on d m \<longleftrightarrow> mem_DeviceID m = d \<and> mem_Status m = StatusActive"

definition active_member_of :: "nat \<Rightarrow> nat \<Rightarrow> device_member \<Rightarrow> bool" where
  "active_member_of d u m \<longleftrightarrow> mem_DeviceID m = d \<and> mem_UserID m = u \<and> mem_Status m = StatusActive"

subsection \<open>acl.go\<close>

definition CanAccess :: "'db acl_ops \<Rightarrow> nat \<Rightarrow> nat \<Rightarrow> 'db \<Rightarrow> bool \<times> 'db" where
  "CanAccess G deviceID userID db =
     (if deviceID = 0 \<or> userID = 0 then (False, db)
      else case t_first (devices_t G) (has_id deviceID) db of
        (Inl _, db) \<Rightarrow> (False, db)
      | (Inr device, db) \<Rightarrow>
          if dev_UserID device = userID then (True, db)
          else case t_count (members_t G) (active_member_of deviceID userID) db of
            (Inl _, db) \<Rightarrow> (False, db)
          | (Inr count, db) \<Rightarrow> (count > 0, db))"

definition CanManage :: "'db acl_ops \<Rightarrow> nat \<Rightarrow> nat \<Rightarrow> 'db \<Rightarrow> bool \<times> 'db" where
  "CanManage G deviceID userID db =
     (if deviceID = 0 \<or> userID = 0 then (False, db)
      else case t_first (devices_t G) (has_id deviceID) db of
        (Inl _, db) \<Rightarrow> (False, db)
      | (Inr device, db) \<Rightarrow> (dev_UserID device = userID, db))"

definition MemberRole :: "'db acl_ops \<Rightarrow> nat \<Rightarrow> nat \<Rightarrow> 'db \<Rightarrow> string \<times> 'db" where
  "MemberRole G deviceID userID db =
     (if deviceID = 0 \<or> userID = 0 then ('''', db)
      else case t_first (devices_t G) (has_id deviceID) db of
        (Inl _, db) \<Rightarrow> ('''', db)
      | (Inr device, db) \<Rightarrow>
          if dev_UserID device = userID then (RoleOwner, db)
          else case t_first (members_t G) (active_member_of deviceID userID) db of
            (Inl _, db) \<Rightarrow> ('''', db)
          | (Inr member, db) \<Rightarrow>
              (if mem_Role member = RoleOwner then RoleOwner else RoleMember, db))"

text \<open>The ids are collected in a Go map; \<open>keys\<close> is the unspecified order its keys are read in.\<close>

definition ListAccessibleDeviceIDs ::
    "'db acl_ops \<Rightarrow> (nat list \<Rightarrow> nat list) \<Rightarrow> nat \<Rightarrow> 'db \<Rightarrow> (acl_error, nat list, 'db) outcome" where
  "ListAccessibleDeviceIDs G keys userID db =
     (if userID = 0 then (Inr [], db)
      else case t_find (devices_t G) (\<lambda>d. dev_UserID d = userID) db of
        (Inl e, db) \<Rightarrow> (Inl (GormError e), db)
      | (Inr owned, db) \<Rightarrow>
          (case t_find (members_t G) (\<lambda>m. mem_UserID m = userID \<and> mem_Status m = StatusActive) db of
            (Inl e, db) \<Rightarrow> (Inl (GormError e), db)
          | (Inr memberOf, db) \<Rightarrow>
              (Inr (keys (remdups (map dev_ID owned @ map mem_DeviceID memberOf))), db)))"

definition EnsureOwnerMember ::
    "'db acl_ops \<Rightarrow> instant \<Rightarrow> nat \<Rightarrow> nat \<Rightarrow> 'db \<Rightarrow> (acl_error, unit, 'db) outcome" where
  "EnsureOwnerMember G now deviceID ownerUserID db =
     (if deviceID = 0 \<or> ownerUserID = 0 then (Inl ErrInvalidDeviceOrOwner, db)
      else case t_first (members_t G) (member_of deviceID ownerUserID) db of
        (Inl ErrRecordNotFound, db) \<Rightarrow>
          (case t_create (members_t G)
                  \<lparr>mem_ID = 0, mem_DeviceID = deviceID, mem_UserID = ownerUserID,
                   mem_Role = RoleOwner, mem_Status = StatusActive, mem_InvitedBy = None,
                   mem_JoinedAt = now, mem_RevokedAt = None, mem_CreatedAt = now,
                   mem_UpdatedAt = now\<rparr> db of
             (Inl e, db) \<Rightarrow> (Inl (GormError e), db)
           | (Inr _, db) \<Rightarrow> (Inr (), db))
      | (Inl e, db) \<Rightarrow> (Inl (GormError e), db)
      | (Inr existing, db) \<Rightarrow>
          (case t_updates (members_t G) (\<lambda>m. mem_ID m = mem_ID existing)
                  (\<lambda>m. m\<lparr>mem_Role := RoleOwner, mem_Status := StatusActive,
                          mem_RevokedAt := None, mem_UpdatedAt := now\<rparr>) db of
             (Inl e, db) \<Rightarrow> (Inl (GormError e), db)
           | (Inr _, db) \<Rightarrow> (Inr (), db)))"

definition CountActiveMembers :: "'db acl_ops \<Rightarrow> nat \<Rightarrow> 'db \<Rightarrow> (gorm_error, nat, 'db) outcome" where
  "CountActiveMembers G deviceID db = t_count (members_t G) (active_on deviceID) db"

text \<open>The loop of \<open>BackfillOwnerMembers\<close>; \<open>now\<close> is the clock reading of each iteration.\<close>

fun backfill_loop :: "'db acl_ops \<Rightarrow> (device \<Rightarrow> instant) \<Rightarrow> device list \<Rightarrow> nat \<Rightarrow> 'db
    \<Rightarrow> (nat \<times> acl_error option) \<times> 'db" where
  "backfill_loop G now [] n db = ((n, None), db)"
| "backfill_loop G now (d # ds) n db =
     (case t_count (members_t G)
             (\<lambda>m. mem_DeviceID m = dev_ID d \<and> mem_UserID m = dev_UserID d \<and>
                  mem_Role m = RoleOwner \<and> mem_Status m = StatusActive) db of
        (Inl e, db) \<Rightarrow> ((n, Some (GormError e)), db)
      | (Inr count, db) \<Rightarrow>
          if count > 0 then backfill_loop G now ds n db
          else case EnsureOwnerMember G (now d) (dev_ID d) (dev_UserID d) db of
            (Inl e, db) \<Rightarrow> ((n, Some e), db)
          | (Inr _, db) \<Rightarrow> backfill_loop G now ds (Suc n) db)"

definition BackfillOwnerMembers ::
    "'db acl_ops \<Rightarrow> (device \<Rightarrow> instant) \<Rightarrow> 'db \<Rightarrow> (nat \<times> acl_error option) \<times> 'db" where
  "BackfillOwnerMembers G now db =
     (case t_find (devices_t G) (\<lambda>d. dev_UserID d > 0) db of
        (Inl e, db) \<Rightarrow> ((0, Some (GormError e)), db)
      | (Inr devices, db) \<Rightarrow> backfill_loop G now devices 0 db)"

definition DeleteDeviceFamily :: "'db acl_ops \<Rightarrow> nat \<Rightarrow> 'db \<Rightarrow> (acl_error, unit, 'db) outcome" where
  "DeleteDeviceFamily G deviceID db =
     (case t_delete (members_t G) (\<lambda>m. mem_DeviceID m = deviceID) db of
        (Inl e, db) \<Rightarrow> (Inl (GormError e), db)
      | (Inr _, db) \<Rightarrow>
          (case t_delete (invites_t G) (\<lambda>i. inv_DeviceID i = deviceID) db of
             (Inl e, db) \<Rightarrow> (Inl (GormError e), db)
           | (Inr _, db) \<Rightarrow> (Inr (), db)))"

definition AssertAccess :: "'db acl_ops \<Rightarrow> nat \<Rightarrow> nat \<Rightarrow> 'db \<Rightarrow> (acl_error, unit, 'db) outcome" where
  "AssertAccess G deviceID userID db =
     (case CanAccess G deviceID userID db of
        (ok, db) \<Rightarrow> (if \<not> ok then Inl ErrForbidden else Inr (), db))"

definition AssertManage :: "'db acl_ops \<Rightarrow> nat \<Rightarrow> nat \<Rightarrow> 'db \<Rightarrow> (acl_error, unit, 'db) outcome" where
  "AssertManage G deviceID userID db =
     (case CanManage G deviceID userID db of
        (ok, db) \<Rightarrow> (if \<not> ok then Inl ErrOwnerOnly else Inr (), db))"

subsection \<open>invite.go\<close>

text \<open>
  \<open>rand.Read\<close> fills the six-byte buffer of attempt \<open>k\<close>: \<open>rand k = Some buf\<close>, or \<open>None\<close> when the
  system's random source fails.
\<close>

definition invite_code_of :: "(nat \<Rightarrow> 8 word) \<Rightarrow> gotext" where
  "invite_code_of buf =
     map (\<lambda>i. inviteCodeAlphabet ! (unat (buf i) mod length inviteCodeAlphabet)) [0..<InviteCodeLength]"

fun generate_attempts :: "'db acl_ops \<Rightarrow> (nat \<Rightarrow> (nat \<Rightarrow> 8 word) option) \<Rightarrow> nat \<Rightarrow> 'db
    \<Rightarrow> (acl_error, gotext, 'db) outcome" where
  "generate_attempts G rand 0 db = (Inl ErrCodeGeneration, db)"
| "generate_attempts G rand (Suc left) db =
     (case rand (16 - Suc left) of
        None \<Rightarrow> (Inl ErrRandom, db)
      | Some buf \<Rightarrow>
          let code = invite_code_of buf in
          (case t_count (invites_t G) (\<lambda>i. inv_Code i = code) db of
             (Inl e, db) \<Rightarrow> (Inl (GormError e), db)
           | (Inr count, db) \<Rightarrow>
               if count = 0 then (Inr code, db) else generate_attempts G rand left db))"

definition generateInviteCode :: "'db acl_ops \<Rightarrow> (nat \<Rightarrow> (nat \<Rightarrow> 8 word) option) \<Rightarrow> 'db
    \<Rightarrow> (acl_error, gotext, 'db) outcome" where
  "generateInviteCode G rand db = generate_attempts G rand 16 db"

definition CreateInvite :: "'db acl_ops \<Rightarrow> (nat \<Rightarrow> (nat \<Rightarrow> 8 word) option) \<Rightarrow> instant \<Rightarrow> nat \<Rightarrow> nat
    \<Rightarrow> 'db \<Rightarrow> (acl_error, device_invite, 'db) outcome" where
  "CreateInvite G rand now deviceID ownerUserID db =
     (case AssertManage G deviceID ownerUserID db of
        (Inl e, db) \<Rightarrow> (Inl e, db)
      | (Inr _, db) \<Rightarrow>
          (case generateInviteCode G rand db of
             (Inl e, db) \<Rightarrow> (Inl e, db)
           | (Inr code, db) \<Rightarrow>
               (case t_create (invites_t G)
                       \<lparr>inv_ID = 0, inv_DeviceID = deviceID, inv_Code = code,
                        inv_CreatedBy = ownerUserID, inv_ExpiresAt = now + InviteTTL,
                        inv_MaxUses = InviteMaxUses, inv_UsedCount = 0,
                        inv_Status = InviteStatusActive, inv_CreatedAt = now,
                        inv_UpdatedAt = now\<rparr> db of
                  (Inl e, db) \<Rightarrow> (Inl (GormError e), db)
                | (Inr invite, db) \<Rightarrow> (Inr invite, db))))"

definition mark_invite :: "instant \<Rightarrow> device_invite \<Rightarrow> device_invite" where
  "mark_invite now invite =
     (if inv_ExpiresAt invite < now then invite\<lparr>inv_Status := InviteStatusExpired\<rparr>
      else if inv_UsedCount invite \<ge> inv_MaxUses invite then invite\<lparr>inv_Status := InviteStatusExhausted\<rparr>
      else invite)\<lparr>inv_UpdatedAt := now\<rparr>"

definition markInviteExpiredOrExhausted :: "'db acl_ops \<Rightarrow> device_invite \<Rightarrow> instant \<Rightarrow> 'db
    \<Rightarrow> (gorm_error, unit, 'db) outcome" where
  "markInviteExpiredOrExhausted G invite now tx = t_save (invites_t G) (mark_invite now invite) tx"

definition zero_member :: device_member where
  "zero_member = \<lparr>mem_ID = 0, mem_DeviceID = 0, mem_UserID = 0, mem_Role = '''', mem_Status = '''',
     mem_InvitedBy = None, mem_JoinedAt = 0, mem_RevokedAt = None, mem_CreatedAt = 0, mem_UpdatedAt = 0\<rparr>"

text \<open>The tail of the transaction: count the use of the invite and save it.\<close>

definition use_invite :: "instant \<Rightarrow> device_invite \<Rightarrow> device_invite" where
  "use_invite now invite =
     (let invite = invite\<lparr>inv_UsedCount := inv_UsedCount invite + 1, inv_UpdatedAt := now\<rparr>
      in if inv_UsedCount invite \<ge> inv_MaxUses invite
         then invite\<lparr>inv_Status := InviteStatusExhausted\<rparr> else invite)"

definition join_use :: "'db acl_ops \<Rightarrow> instant \<Rightarrow> device_invite \<Rightarrow> device \<Rightarrow> 'db
    \<Rightarrow> (acl_error, device, 'db) outcome" where
  "join_use G now invite device tx =
     (case t_save (invites_t G) (use_invite now invite) tx of
        (Inl e, tx) \<Rightarrow> (Inl (GormError e), tx)
      | (Inr _, tx) \<Rightarrow> (Inr device, tx))"

text \<open>The member row: reactivate the existing one, or create it.\<close>

definition rejoin_row :: "instant \<Rightarrow> nat \<Rightarrow> device_member \<Rightarrow> device_member" where
  "rejoin_row now invitedBy existing =
     existing\<lparr>mem_Role := RoleMember, mem_Status := StatusActive, mem_InvitedBy := Some invitedBy,
       mem_JoinedAt := now, mem_RevokedAt := None, mem_UpdatedAt := now\<rparr>"

definition join_row :: "instant \<Rightarrow> nat \<Rightarrow> nat \<Rightarrow> nat \<Rightarrow> device_member" where
  "join_row now invitedBy deviceID userID =
     \<lparr>mem_ID = 0, mem_DeviceID = deviceID, mem_UserID = userID, mem_Role = RoleMember,
      mem_Status = StatusActive, mem_InvitedBy = Some invitedBy, mem_JoinedAt = now,
      mem_RevokedAt = None, mem_CreatedAt = now, mem_UpdatedAt = now\<rparr>"

definition join_member :: "'db acl_ops \<Rightarrow> instant \<Rightarrow> nat \<Rightarrow> device_invite \<Rightarrow> device \<Rightarrow> device_member \<Rightarrow> 'db
    \<Rightarrow> (acl_error, device, 'db) outcome" where
  "join_member G now userID invite device existing tx =
     (if mem_ID existing > 0 then
        (case t_save (members_t G) (rejoin_row now (inv_CreatedBy invite) existing) tx of
           (Inl e, tx) \<Rightarrow> (Inl (GormError e), tx)
         | (Inr _, tx) \<Rightarrow> join_use G now invite device tx)
      else
        (case t_create (members_t G) (join_row now (inv_CreatedBy invite) (dev_ID device) userID) tx of
           (Inl e, tx) \<Rightarrow> (Inl (GormError e), tx)
         | (Inr _, tx) \<Rightarrow> join_use G now invite device tx))"

definition join_checked :: "'db acl_ops \<Rightarrow> instant \<Rightarrow> nat \<Rightarrow> device_invite \<Rightarrow> device \<Rightarrow> device_member \<Rightarrow> 'db
    \<Rightarrow> (acl_error, device, 'db) outcome" where
  "join_checked G now userID invite device existing tx =
     (case CountActiveMembers G (dev_ID device) tx of
        (Inl e, tx) \<Rightarrow> (Inl (GormError e), tx)
      | (Inr count, tx) \<Rightarrow>
          if count \<ge> MaxMembersPerDevice then (Inl ErrMemberFull, tx)
          else join_member G now userID invite device existing tx)"

definition join_device :: "'db acl_ops \<Rightarrow> instant \<Rightarrow> nat \<Rightarrow> device_invite \<Rightarrow> 'db
    \<Rightarrow> (acl_error, device, 'db) outcome" where
  "join_device G now userID invite tx =
     (case t_first (devices_t G) (has_id (inv_DeviceID invite)) tx of
        (Inl e, tx) \<Rightarrow> (Inl (GormError e), tx)
      | (Inr device, tx) \<Rightarrow>
          if dev_UserID device = 0 then (Inl ErrInviteInvalid, tx)
          else if dev_UserID device = userID then (Inl ErrAlreadyMember, tx)
          else (case t_first (members_t G) (member_of (dev_ID device) userID) tx of
             (Inr existing, tx) \<Rightarrow>
               if mem_Status existing = StatusActive then (Inl ErrAlreadyMember, tx)
               else join_checked G now userID invite device existing tx
           | (Inl ErrRecordNotFound, tx) \<Rightarrow>
               join_checked G now userID invite device zero_member tx
           | (Inl e, tx) \<Rightarrow> (Inl (GormError e), tx)))"

definition invite_usable :: "instant \<Rightarrow> device_invite \<Rightarrow> bool" where
  "invite_usable now invite \<longleftrightarrow>
     \<not> (inv_Status invite \<noteq> InviteStatusActive \<or> inv_ExpiresAt invite < now \<or>
        inv_UsedCount invite \<ge> inv_MaxUses invite)"

definition join_tx :: "'db acl_ops \<Rightarrow> instant \<Rightarrow> nat \<Rightarrow> gotext \<Rightarrow> 'db \<Rightarrow> (acl_error, device, 'db) outcome" where
  "join_tx G now userID code tx =
     (case t_first (invites_t G) (\<lambda>i. inv_Code i = code) tx of
        (Inl ErrRecordNotFound, tx) \<Rightarrow> (Inl ErrInviteInvalid, tx)
      | (Inl e, tx) \<Rightarrow> (Inl (GormError e), tx)
      | (Inr invite, tx) \<Rightarrow>
          if \<not> invite_usable now invite then
            (case markInviteExpiredOrExhausted G invite now tx of (_, tx) \<Rightarrow> (Inl ErrInviteInvalid, tx))
          else join_device G now userID invite tx)"

definition JoinByCode :: "'db acl_ops \<Rightarrow> (rune \<Rightarrow> rune) \<Rightarrow> instant \<Rightarrow> nat \<Rightarrow> gotext \<Rightarrow> 'db
    \<Rightarrow> (acl_error, device, 'db) outcome" where
  "JoinByCode G uc now userID rawCode db =
     (let code = to_upper uc (trim_space rawCode) in
      if code = [] then (Inl ErrInviteInvalid, db)
      else transaction G (join_tx G now userID code) db)"

text \<open>The update both \<open>RevokeMember\<close> and \<open>LeaveDevice\<close> end with.\<close>

definition revoke_row :: "'db acl_ops \<Rightarrow> instant \<Rightarrow> device_member \<Rightarrow> 'db
    \<Rightarrow> (acl_error, unit, 'db) outcome" where
  "revoke_row G now member db =
     (case t_updates (members_t G) (\<lambda>m. mem_ID m = mem_ID member)
             (\<lambda>m. m\<lparr>mem_Status := StatusRevoked, mem_RevokedAt := Some now, mem_UpdatedAt := now\<rparr>) db of
        (Inl e, db) \<Rightarrow> (Inl (GormError e), db)
      | (Inr _, db) \<Rightarrow> (Inr (), db))"

definition RevokeMember :: "'db acl_ops \<Rightarrow> instant \<Rightarrow> nat \<Rightarrow> nat \<Rightarrow> nat \<Rightarrow> 'db
    \<Rightarrow> (acl_error, unit, 'db) outcome" where
  "RevokeMember G now deviceID actorUserID targetUserID db =
     (case AssertManage G deviceID actorUserID db of
        (Inl e, db) \<Rightarrow> (Inl e, db)
      | (Inr _, db) \<Rightarrow>
          if targetUserID = actorUserID then (Inl ErrCannotKickOwner, db)
          else (case t_first (devices_t G) (has_id deviceID) db of
            (Inl e, db) \<Rightarrow> (Inl (GormError e), db)
          | (Inr device, db) \<Rightarrow>
              if targetUserID = dev_UserID device then (Inl ErrCannotKickOwner, db)
              else (case t_first (members_t G) (active_member_of deviceID targetUserID) db of
                (Inl ErrRecordNotFound, db) \<Rightarrow> (Inl ErrNotMember, db)
              | (Inl e, db) \<Rightarrow> (Inl (GormError e), db)
              | (Inr member, db) \<Rightarrow>
                  if mem_Role member = RoleOwner then (Inl ErrCannotKickOwner, db)
                  else revoke_row G now member db)))"

definition LeaveDevice :: "'db acl_ops \<Rightarrow> instant \<Rightarrow> nat \<Rightarrow> nat \<Rightarrow> 'db \<Rightarrow> (acl_error, unit, 'db) outcome" where
  "LeaveDevice G now deviceID userID db =
     (case t_first (devices_t G) (has_id deviceID) db of
        (Inl e, db) \<Rightarrow> (Inl (GormError e), db)
      | (Inr device, db) \<Rightarrow>
          if dev_UserID device = userID then (Inl ErrCannotLeaveOwner, db)
          else (case t_first (members_t G) (active_member_of deviceID userID) db of
            (Inl ErrRecordNotFound, db) \<Rightarrow> (Inl ErrNotMember, db)
          | (Inl e, db) \<Rightarrow> (Inl (GormError e), db)
          | (Inr member, db) \<Rightarrow>
              if mem_Role member = RoleOwner then (Inl ErrCannotLeaveOwner, db)
              else revoke_row G now member db))"

definition ListMembers :: "'db acl_ops \<Rightarrow> nat \<Rightarrow> 'db \<Rightarrow> (gorm_error, device_member list, 'db) outcome" where
  "ListMembers G deviceID db =
     t_find_by (members_t G) (\<lambda>m. if mem_Role m = RoleOwner then 0 else 1) (active_on deviceID) db"


subsection \<open>What the tables mean\<close>

definition owner_of :: "acl_view \<Rightarrow> nat \<Rightarrow> nat option" where
  "owner_of v d = map_option dev_UserID (List.find (has_id d) (v_devices v))"

definition may_manage :: "acl_view \<Rightarrow> nat \<Rightarrow> nat \<Rightarrow> bool" where
  "may_manage v d u \<longleftrightarrow> d \<noteq> 0 \<and> u \<noteq> 0 \<and> owner_of v d = Some u"

definition active_member :: "acl_view \<Rightarrow> nat \<Rightarrow> nat \<Rightarrow> bool" where
  "active_member v d u \<longleftrightarrow> (\<exists>m\<in>set (v_members v). active_member_of d u m)"

definition owner_row :: "acl_view \<Rightarrow> nat \<Rightarrow> nat \<Rightarrow> bool" where
  "owner_row v d u \<longleftrightarrow> (\<exists>m\<in>set (v_members v). mem_DeviceID m = d \<and> mem_UserID m = u \<and>
     mem_Role m = RoleOwner \<and> mem_Status m = StatusActive)"

definition may_access :: "acl_view \<Rightarrow> nat \<Rightarrow> nat \<Rightarrow> bool" where
  "may_access v d u \<longleftrightarrow> d \<noteq> 0 \<and> u \<noteq> 0 \<and>
     (case owner_of v d of None \<Rightarrow> False | Some ow \<Rightarrow> ow = u \<or> active_member v d u)"

definition active_count :: "acl_view \<Rightarrow> nat \<Rightarrow> nat" where
  "active_count v d = length (filter (active_on d) (v_members v))"

definition member_key :: "device_member \<Rightarrow> nat \<times> nat" where
  "member_key m = (mem_DeviceID m, mem_UserID m)"

definition acl_keys :: "nat list \<Rightarrow> (nat \<times> nat) list \<Rightarrow> nat list \<Rightarrow> gotext list \<Rightarrow> bool" where
  "acl_keys mids mkeys iids codes \<longleftrightarrow>
     distinct mids \<and> 0 \<notin> set mids \<and> distinct mkeys \<and> distinct iids \<and> distinct codes"

definition acl_wf :: "acl_view \<Rightarrow> bool" where
  "acl_wf v \<longleftrightarrow> acl_keys (map mem_ID (v_members v)) (map member_key (v_members v))
     (map inv_ID (v_invites v)) (map inv_Code (v_invites v))"

lemmas wf_defs = acl_wf_def acl_keys_def

definition invite_ok :: "device_invite \<Rightarrow> bool" where
  "invite_ok i \<longleftrightarrow> 0 \<le> inv_UsedCount i \<and> inv_UsedCount i \<le> inv_MaxUses i \<and>
     (inv_Status i = InviteStatusActive \<longrightarrow> inv_UsedCount i < inv_MaxUses i)"

text \<open>An invite that still admits somebody, as a specification.\<close>

definition invite_open :: "instant \<Rightarrow> device_invite \<Rightarrow> bool" where
  "invite_open now i \<longleftrightarrow> inv_Status i = InviteStatusActive \<and> now \<le> inv_ExpiresAt i \<and> inv_UsedCount i < inv_MaxUses i"

lemma invite_usable_open: "invite_usable now i \<longleftrightarrow> invite_open now i"
  by (auto simp: invite_usable_def invite_open_def)

subsection \<open>The abstract machine of the tables\<close>

text \<open>
  Every handler changes the tables by steps of this relation, whatever the driver does in between:
  one rule per kind of write, with the guards the code has established before it writes.
\<close>

definition join_update :: "acl_view \<Rightarrow> instant \<Rightarrow> nat \<Rightarrow> nat \<Rightarrow> nat
    \<Rightarrow> (device_member list \<Rightarrow> device_member list) \<Rightarrow> bool" where
  "join_update v now who d u f \<longleftrightarrow>
     (\<exists>m\<in>set (v_members v). member_of d u m \<and> mem_Status m \<noteq> StatusActive \<and>
        f = map (\<lambda>x. if mem_ID x = mem_ID m then rejoin_row now who m else x)) \<or>
     (List.find (member_of d u) (v_members v) = None \<and>
        (\<exists>i. 0 < i \<and> (\<forall>m\<in>set (v_members v). mem_ID m < i) \<and>
             f = (\<lambda>ms. ms @ [(join_row now who d u)\<lparr>mem_ID := i\<rparr>])))"

inductive acl_change :: "acl_view \<Rightarrow> acl_view \<Rightarrow> bool" where
  owner_new: "\<lbrakk>d \<noteq> 0; u \<noteq> 0; List.find (member_of d u) (v_members v) = None;
      0 < i; \<forall>m\<in>set (v_members v). mem_ID m < i;
      mem_ID row = i; mem_DeviceID row = d; mem_UserID row = u; mem_Role row = RoleOwner;
      mem_Status row = StatusActive\<rbrakk>
    \<Longrightarrow> acl_change v (v_members_update (\<lambda>ms. ms @ [row]) v)"
| owner_set: "\<lbrakk>m \<in> set (v_members v)\<rbrakk>
    \<Longrightarrow> acl_change v (v_members_update (map (\<lambda>x. if mem_ID x = mem_ID m
          then x\<lparr>mem_Role := RoleOwner, mem_Status := StatusActive, mem_RevokedAt := None, mem_UpdatedAt := now\<rparr>
          else x)) v)"
| revoke: "\<lbrakk>m \<in> set (v_members v); mem_Role m \<noteq> RoleOwner; mem_Status m = StatusActive\<rbrakk>
    \<Longrightarrow> acl_change v (v_members_update (map (\<lambda>x. if mem_ID x = mem_ID m
          then x\<lparr>mem_Status := StatusRevoked, mem_RevokedAt := Some now, mem_UpdatedAt := now\<rparr>
          else x)) v)"
| join: "\<lbrakk>invite \<in> set (v_invites v); invite_open now invite;
      List.find (has_id (inv_DeviceID invite)) (v_devices v) = Some device;
      dev_UserID device \<noteq> 0; dev_UserID device \<noteq> u;
      active_count v (dev_ID device) < MaxMembersPerDevice;
      join_update v now (inv_CreatedBy invite) (dev_ID device) u f\<rbrakk>
    \<Longrightarrow> acl_change v (v_invites_update (map (\<lambda>x. if inv_ID x = inv_ID invite then use_invite now invite else x))
          (v_members_update f v))"
| invite_new: "\<lbrakk>\<forall>x\<in>set (v_invites v). inv_Code x \<noteq> inv_Code invite;
      \<forall>x\<in>set (v_invites v). inv_ID x < inv_ID invite;
      may_manage v (inv_DeviceID invite) (inv_CreatedBy invite);
      inv_UsedCount invite = 0; inv_MaxUses invite = InviteMaxUses\<rbrakk>
    \<Longrightarrow> acl_change v (v_invites_update (\<lambda>xs. xs @ [invite]) v)"
| drop_members: "acl_change v (v_members_update (filter (\<lambda>m. \<not> mem_DeviceID m = d)) v)"
| drop_invites: "acl_change v (v_invites_update (filter (\<lambda>x. \<not> inv_DeviceID x = d)) v)"

lemmas row_defs = rejoin_row_def join_row_def use_invite_def member_key_def member_of_def

lemma find_member_fresh:
  assumes "List.find (member_of d u) ms = None" "m \<in> set ms"
  shows "member_key m \<noteq> (d, u)"
  using find_NoneD [OF assms] by (auto simp: member_of_def member_key_def)

text \<open>Rewriting one row by primary key keeps the keys of the table.\<close>

lemma map_by_id_keys:
  assumes "\<And>x. mem_ID x = i \<Longrightarrow> x \<in> set ms \<Longrightarrow> k (f x) = k x"
  shows "map k (map (\<lambda>x. if mem_ID x = i then f x else x) ms) = map k ms"
  using assms by (induction ms) auto

lemma wf_member_by_id:
  assumes "acl_wf v" "m \<in> set (v_members v)" "x \<in> set (v_members v)" "mem_ID x = mem_ID m"
  shows "x = m"
  using assms distinct_map_unique [of mem_ID "v_members v" x m] by (auto simp: wf_defs)

lemma wf_invite_by_id:
  assumes "acl_wf v" "m \<in> set (v_invites v)" "x \<in> set (v_invites v)" "inv_ID x = inv_ID m"
  shows "x = m"
  using assms distinct_map_unique [of inv_ID "v_invites v" x m] by (auto simp: wf_defs)

lemma wf_rewrite_member:
  assumes wf: "acl_wf v" and m: "m \<in> set (v_members v)"
    and id: "\<And>x. mem_ID x = mem_ID m \<Longrightarrow> x \<in> set (v_members v) \<Longrightarrow> mem_ID (f x) = mem_ID x"
    and key: "\<And>x. mem_ID x = mem_ID m \<Longrightarrow> x \<in> set (v_members v) \<Longrightarrow> member_key (f x) = member_key x"
  shows "acl_wf (v_members_update (map (\<lambda>x. if mem_ID x = mem_ID m then f x else x)) v)"
proof -
  let ?ms = "map (\<lambda>x. if mem_ID x = mem_ID m then f x else x) (v_members v)"
  have "map mem_ID ?ms = map mem_ID (v_members v)" "map member_key ?ms = map member_key (v_members v)"
    using id key by (blast intro: map_by_id_keys)+
  then show ?thesis
    using wf unfolding acl_wf_def by (simp del: map_map map_eq_conv)
qed

lemma wf_append_member:
  assumes wf: "acl_wf v" and none: "List.find (member_of d u) (v_members v) = None"
    and i: "0 < mem_ID row" "\<forall>m\<in>set (v_members v). mem_ID m < mem_ID row"
    and key: "member_key row = (d, u)"
  shows "acl_wf (v_members_update (\<lambda>ms. ms @ [row]) v)"
proof -
  have "mem_ID row \<notin> mem_ID ` set (v_members v)"
    using i(2) by auto
  moreover have "member_key row \<notin> member_key ` set (v_members v)"
    using find_member_fresh [OF none] key by (metis (no_types, lifting) image_iff)
  ultimately show ?thesis
    using wf i by (auto simp: wf_defs)
qed

lemma use_invite_keys [simp]:
  "inv_ID (use_invite now i) = inv_ID i" "inv_Code (use_invite now i) = inv_Code i"
  "inv_MaxUses (use_invite now i) = inv_MaxUses i" "inv_DeviceID (use_invite now i) = inv_DeviceID i"
  by (simp_all add: use_invite_def Let_def)

lemma wf_use_invite:
  assumes wf: "acl_wf v" and i: "i \<in> set (v_invites v)"
  shows "acl_wf (v_invites_update (map (\<lambda>x. if inv_ID x = inv_ID i then use_invite now i else x)) v)"
proof -
  let ?f = "\<lambda>x. if inv_ID x = inv_ID i then use_invite now i else x"
  have "map inv_ID (map ?f (v_invites v)) = map inv_ID (v_invites v)"
    "map inv_Code (map ?f (v_invites v)) = map inv_Code (v_invites v)"
    using wf_invite_by_id [OF wf i] by auto
  then show ?thesis
    using wf unfolding acl_wf_def by (simp del: map_map map_eq_conv)
qed

lemma wf_join_update:
  assumes wf: "acl_wf v" and f: "join_update v now who d u f"
  shows "acl_wf (v_members_update f v)"
  using f unfolding join_update_def
proof (elim disjE bexE conjE exE)
  fix m assume m: "m \<in> set (v_members v)" "member_of d u m" "mem_Status m \<noteq> StatusActive"
    and f: "f = map (\<lambda>x. if mem_ID x = mem_ID m then rejoin_row now who m else x)"
  show ?thesis
    unfolding f using wf m(1)
    by (rule wf_rewrite_member) (use wf_member_by_id [OF wf m(1)] in \<open>auto simp: row_defs\<close>)
qed (use wf in \<open>auto intro!: wf_append_member [of v d u] simp: row_defs\<close>)

lemma wf_members_only:
  "acl_wf (v_members_update f (v_invites_update g v)) \<longleftrightarrow> acl_wf (v_members_update f v) \<and> acl_wf (v_invites_update g v)"
  if "acl_wf v" for v
  using that by (auto simp: wf_defs)

lemma acl_change_wf [step_inv]:
  assumes "acl_change v v'" "acl_wf v"
  shows "acl_wf v'"
  using assms
proof (induction rule: acl_change.induct)
  case (owner_new d u v i row)
  then show ?case by (intro wf_append_member [of v d u]) (auto simp: member_key_def)
next
  case (owner_set m v now)
  then show ?case by (intro wf_rewrite_member) (auto simp: member_key_def)
next
  case (revoke m v now)
  then show ?case by (intro wf_rewrite_member) (auto simp: member_key_def)
next
  case (join invite v now device u f)
  have "acl_wf (v_members_update f v)"
    using join.prems join.hyps(7) by (rule wf_join_update)
  moreover have "acl_wf (v_invites_update (map (\<lambda>x. if inv_ID x = inv_ID invite then use_invite now invite else x)) v)"
    using join.prems join.hyps(1) by (rule wf_use_invite)
  ultimately show ?case
    using wf_members_only [OF join.prems] by (simp add: wf_defs)
next
  case (invite_new v invite)
  then show ?case by (auto simp: wf_defs)
next
  case (drop_members v d)
  then show ?case by (auto simp: wf_defs intro: distinct_map_filter)
next
  case (drop_invites v d)
  then show ?case by (auto simp: wf_defs intro: distinct_map_filter)
qed

text \<open>An active invite has uses left, and no invite is used more often than it allows.\<close>

lemma invite_ok_use:
  assumes "invite_ok i" "invite_open now i"
  shows "invite_ok (use_invite now i)"
  using assms by (auto simp: invite_ok_def invite_open_def use_invite_def Let_def acl_consts)

lemma use_invite_open:
  "invite_open now i \<Longrightarrow> use_invite now i = i\<lparr>inv_UsedCount := inv_UsedCount i + 1, inv_UpdatedAt := now,
     inv_Status := if inv_UsedCount i + 1 = inv_MaxUses i then InviteStatusExhausted else InviteStatusActive\<rparr>"
  by (cases i) (auto simp: invite_open_def use_invite_def Let_def)

lemma acl_change_invites [step_inv]:
  assumes "acl_change v v'" "\<forall>i\<in>set (v_invites v). invite_ok i"
  shows "\<forall>i\<in>set (v_invites v'). invite_ok i"
  using assms
proof (induction rule: acl_change.induct)
  case (join invite v now device u f)
  then show ?case using invite_ok_use by auto
qed (auto simp: invite_ok_def InviteMaxUses_def)

text \<open>At most six active rows with role \<open>member\<close> on a device.\<close>

definition plain_member :: "nat \<Rightarrow> device_member \<Rightarrow> bool" where
  "plain_member d m \<longleftrightarrow> active_on d m \<and> mem_Role m \<noteq> RoleOwner"

definition plain_count :: "acl_view \<Rightarrow> nat \<Rightarrow> nat" where
  "plain_count v d = length (filter (plain_member d) (v_members v))"

lemma plain_le_active: "plain_count v d \<le> active_count v d"
  unfolding plain_count_def active_count_def plain_member_def by (rule length_filter_imp) simp

text \<open>A join touches the rows of its own device only, and adds one active row there.\<close>

lemma join_other_device:
  assumes wf: "acl_wf v" and f: "join_update v now who d u f"
    and P: "d' \<noteq> d" "\<And>x. P x \<Longrightarrow> mem_DeviceID x = d'"
  shows "filter P (f (v_members v)) = filter P (v_members v)"
  using f unfolding join_update_def
proof (elim disjE bexE conjE exE)
  fix m assume m: "m \<in> set (v_members v)" "member_of d u m" "mem_Status m \<noteq> StatusActive"
    and f: "f = map (\<lambda>x. if mem_ID x = mem_ID m then rejoin_row now who m else x)"
  have "\<not> P x \<and> \<not> P (rejoin_row now who m)" if "x \<in> set (v_members v)" "mem_ID x = mem_ID m" for x
    using wf_member_by_id [OF wf m(1) that] m P by (fastforce simp: member_of_def rejoin_row_def)
  then show ?thesis unfolding f by (rule filter_map_skip)
qed (use P in \<open>fastforce simp: join_row_def\<close>)

lemma join_active_count:
  assumes wf: "acl_wf v" and f: "join_update v now who d u f"
  shows "length (filter (active_on d) (f (v_members v))) = Suc (active_count v d)"
  using f unfolding join_update_def
proof (elim disjE bexE conjE exE)
  fix m assume m: "m \<in> set (v_members v)" "member_of d u m" "mem_Status m \<noteq> StatusActive"
    and f: "f = map (\<lambda>x. if mem_ID x = mem_ID m then rejoin_row now who m else x)"
  show ?thesis
    unfolding f active_count_def using m wf
    by (intro filter_map_toggle) (auto simp: wf_defs active_on_def member_of_def rejoin_row_def)
qed (auto simp: active_count_def active_on_def join_row_def)

lemma acl_change_plain [step_inv]:
  assumes "acl_change v v'" "acl_wf v" "\<forall>d. plain_count v d \<le> MaxMembersPerDevice"
  shows "\<forall>d. plain_count v' d \<le> MaxMembersPerDevice"
  using assms
proof (induction rule: acl_change.induct)
  case (owner_new d u v i row)
  then show ?case by (auto simp: plain_count_def plain_member_def)
next
  case (owner_set m v now)
  have "length (filter (plain_member d) (map (\<lambda>x. if mem_ID x = mem_ID m
          then x\<lparr>mem_Role := RoleOwner, mem_Status := StatusActive, mem_RevokedAt := None, mem_UpdatedAt := now\<rparr>
          else x) (v_members v))) \<le> plain_count v d" for d
    unfolding plain_count_def by (rule length_filter_map_le) (auto simp: plain_member_def split: if_splits)
  with owner_set show ?case by (fastforce simp: plain_count_def intro: order_trans)
next
  case (revoke m v now)
  have "length (filter (plain_member d) (map (\<lambda>x. if mem_ID x = mem_ID m
          then x\<lparr>mem_Status := StatusRevoked, mem_RevokedAt := Some now, mem_UpdatedAt := now\<rparr>
          else x) (v_members v))) \<le> plain_count v d" for d
    unfolding plain_count_def
    by (rule length_filter_map_le) (auto simp: plain_member_def active_on_def acl_consts split: if_splits)
  with revoke show ?case by (fastforce simp: plain_count_def intro: order_trans)
next
  case (join invite v now device u f)
  let ?v = "v_invites_update (map (\<lambda>x. if inv_ID x = inv_ID invite then use_invite now invite else x))
          (v_members_update f v)"
  have "plain_count ?v d \<le> MaxMembersPerDevice" for d
  proof (cases "d = dev_ID device")
    case True
    with join_active_count [OF join.prems(1) join.hyps(7)] join.hyps(6) plain_le_active [of ?v d]
    show ?thesis by (simp add: active_count_def)
  next
    case False
    have "filter (plain_member d) (f (v_members v)) = filter (plain_member d) (v_members v)"
      by (rule join_other_device [OF join.prems(1) join.hyps(7) False]) (simp add: plain_member_def active_on_def)
    with join.prems(2) show ?thesis by (simp add: plain_count_def)
  qed
  then show ?case ..
next
  case (drop_members v d)
  have "length (filter (plain_member e) (filter (\<lambda>m. \<not> mem_DeviceID m = d) (v_members v))) \<le> plain_count v e" for e
    unfolding plain_count_def filter_filter by (rule length_filter_imp) simp
  with drop_members show ?case by (fastforce simp: plain_count_def intro: order_trans)
qed (auto simp: plain_count_def)

end
