(* ===== verification/DeviceAclStore.thy ===== *)
theory DeviceAclStore
  imports DeviceAcl
begin

text \<open>
  The device family operations over any store that obeys the laws of the mapper: each of them
  answers from the tables alone, fails closed, and moves the tables along the abstract machine
  \<open>acl_change\<close>. The lemmas are proved once in the locale \<open>acl_store\<close>, which is interpreted on the
  in-memory provider; the properties at the end are about any store.
\<close>

text \<open>
  How a revocation ends: refused or failed with the tables untouched, or the one active row of the
  target, which is not an owner row, is revoked.
\<close>

definition revoked_to :: "instant \<Rightarrow> nat \<Rightarrow> nat \<Rightarrow> acl_view \<Rightarrow> acl_view \<Rightarrow> bool" where
  "revoked_to now d u v v' \<longleftrightarrow> (\<exists>m\<in>set (v_members v). active_member_of d u m \<and> mem_Role m \<noteq> RoleOwner \<and>
     v' = v_members_update (map (\<lambda>x. if mem_ID x = mem_ID m
          then x\<lparr>mem_Status := StatusRevoked, mem_RevokedAt := Some now, mem_UpdatedAt := now\<rparr> else x)) v)"

locale acl_store =
  devs: gorm_table "devices_t G" view v_devices v_devices_update dev_ID "\<lambda>i. dev_ID_update (\<lambda>_. i)" +
  mems: gorm_table "members_t G" view v_members v_members_update mem_ID "\<lambda>i. mem_ID_update (\<lambda>_. i)" +
  invs: gorm_table "invites_t G" view v_invites v_invites_update inv_ID "\<lambda>i. inv_ID_update (\<lambda>_. i)"
  for G :: "'db acl_ops" and view :: "'db \<Rightarrow> acl_view" +
  assumes transaction_law: "transaction G f db = (r, db') \<Longrightarrow>
      (r = Inl (GormError DriverError) \<and> view db' = view db) \<or>
      (\<exists>db1 x db2. view db1 = view db \<and> f db1 = (x, db2) \<and>
         (case x of Inl e \<Rightarrow> r = Inl e \<and> view db' = view db
                  | Inr a \<Rightarrow> r = Inr a \<and> view db' = view db2))"
begin

lemmas read_laws = devs.first_law mems.first_law invs.first_law devs.find_law mems.find_law
  mems.count_law invs.count_law

lemma CanManage_sound:
  assumes "CanManage G d u db = (ok, db')"
  shows "view db' = view db \<and> (ok \<longrightarrow> may_manage (view db) d u)"
  using assms
  by (auto simp: CanManage_def may_manage_def owner_of_def split: if_splits prod.splits sum.splits
      dest!: devs.first_law split: option.splits)

lemma AssertManage_Inr:
  assumes "AssertManage G d u db = (Inr x, db')"
  shows "view db' = view db \<and> may_manage (view db) d u"
  using assms CanManage_sound by (auto simp: AssertManage_def split: prod.splits if_splits)

lemma AssertManage_view: "AssertManage G d u db = (r, db') \<Longrightarrow> view db' = view db"
  using CanManage_sound by (auto simp: AssertManage_def split: prod.splits if_splits)

lemma CanAccess_sound:
  assumes "CanAccess G d u db = (ok, db')"
  shows "view db' = view db \<and> (ok \<longrightarrow> may_access (view db) d u)"
proof (cases "d = 0 \<or> u = 0")
  case True
  with assms show ?thesis by (simp add: CanAccess_def)
next
  case False
  obtain r db1 where f: "t_first (devices_t G) (has_id d) db = (r, db1)" by fastforce
  show ?thesis
  proof (cases r)
    case (Inl e)
    with False assms f devs.first_view [OF f] show ?thesis by (auto simp: CanAccess_def)
  next
    case (Inr dv)
    note dv = devs.first_Inr [OF f [unfolded Inr]]
    obtain c db2 where c: "t_count (members_t G) (active_member_of d u) db1 = (c, db2)" by fastforce
    from False assms f Inr c dv mems.count_law [OF c] show ?thesis
      by (auto simp: CanAccess_def may_access_def owner_of_def active_member_def filter_length_pos
          filter_empty_conv split: if_splits sum.splits)
  qed
qed

lemma CanAccess_complete:
  assumes "CanAccess G d u db = (False, db')" "may_access (view db) d u"
  shows "(\<exists>s. fst (t_first (devices_t G) (has_id d) s) = Inl DriverError) \<or>
    (\<exists>s. fst (t_count (members_t G) (active_member_of d u) s) = Inl DriverError)"
proof (rule ccontr)
  assume no: "\<not> ?thesis"
  obtain r db1 where f: "t_first (devices_t G) (has_id d) db = (r, db1)" by fastforce
  obtain c db2 where c: "t_count (members_t G) (active_member_of d u) db1 = (c, db2)" by fastforce
  from no f c have "r \<noteq> Inl DriverError" "c \<noteq> Inl DriverError" by (metis fst_conv)+
  with assms f c devs.first_law [OF f] mems.count_law [OF c] show False
    by (auto simp: CanAccess_def may_access_def owner_of_def active_member_def filter_empty_conv
        split: if_splits option.splits)
qed

lemma EnsureOwnerMember_step:
  assumes "EnsureOwnerMember G now d u db = (r, db')"
  shows "view db' = view db \<or> acl_change (view db) (view db')"
proof -
  consider "d = 0 \<or> u = 0" | "d \<noteq> 0" "u \<noteq> 0" by blast
  then show ?thesis
  proof cases
    case 1
    with assms show ?thesis by (simp add: EnsureOwnerMember_def)
  next
    case 2
    obtain q db1 where f: "t_first (members_t G) (member_of d u) db = (q, db1)" by fastforce
    note v1 = mems.first_view [OF f]
    consider e where "q = Inl e" "e \<noteq> ErrRecordNotFound" | "q = Inl ErrRecordNotFound" | m where "q = Inr m"
      by (cases q) auto
    then show ?thesis
    proof cases
      case (1 e)
      with assms 2 f v1 show ?thesis by (cases e) (auto simp: EnsureOwnerMember_def)
    next
      case n: 2
      from mems.first_NotFound [OF f [unfolded n]] have none: "List.find (member_of d u) (v_members (view db1)) = None"
        by simp
      show ?thesis
        using assms 2 f n v1 none
        by (auto simp: EnsureOwnerMember_def split: prod.splits sum.splits dest!: mems.create_law
            intro!: acl_change.owner_new)
    next
      case (3 m)
      from mems.first_Inr [OF f [unfolded 3]] have "m \<in> set (v_members (view db1))" by simp
      with assms 2 f 3 v1 show ?thesis
        by (auto simp: EnsureOwnerMember_def split: prod.splits sum.splits dest!: mems.updates_law
            intro!: acl_change.owner_set)
    qed
  qed
qed

lemma generate_attempts_fresh:
  assumes "generate_attempts G rand n db = (r, db')"
  shows "view db' = view db \<and>
    (\<forall>code. r = Inr code \<longrightarrow> (\<exists>buf. code = invite_code_of buf) \<and> (\<forall>x\<in>set (v_invites (view db)). inv_Code x \<noteq> code))"
  using assms
proof (induction n arbitrary: db)
  case 0
  then show ?case by auto
next
  case (Suc n)
  show ?case
  proof (cases "rand (16 - Suc n)")
    case None
    with Suc.prems show ?thesis by auto
  next
    case (Some buf)
    obtain c db1 where c: "t_count (invites_t G) (\<lambda>i. inv_Code i = invite_code_of buf) db = (c, db1)" by fastforce
    note law = invs.count_law [OF c]
    consider e where "c = Inl e" | "c = Inr 0" | k where "c = Inr (Suc k)"
      by (metis not0_implies_Suc sum.exhaust)
    then show ?thesis
    proof cases
      case 2
      with Suc.prems Some c law show ?thesis by (auto simp: Let_def filter_empty_conv)
    next
      case (3 k)
      with Suc.prems Some c have "generate_attempts G rand n db1 = (r, db')" by (simp add: Let_def)
      from Suc.IH [OF this] law show ?thesis by auto
    qed (use Suc.prems Some c law in \<open>auto simp: Let_def\<close>)
  qed
qed

lemma CreateInvite_step:
  assumes "CreateInvite G rand now d u db = (r, db')"
  shows "view db' = view db \<or> acl_change (view db) (view db')"
proof -
  obtain a db1 where a: "AssertManage G d u db = (a, db1)" by fastforce
  note v1 = AssertManage_view [OF a]
  obtain g db2 where g: "generateInviteCode G rand db1 = (g, db2)" by fastforce
  note fresh = generate_attempts_fresh [OF g [unfolded generateInviteCode_def]]
  show ?thesis
  proof (cases a)
    case (Inl e)
    with assms a v1 show ?thesis by (auto simp: CreateInvite_def)
  next
    case ok: (Inr x)
    note man = AssertManage_Inr [OF a [unfolded ok]]
    show ?thesis
    proof (cases g)
      case (Inl e)
      with assms a ok v1 g fresh show ?thesis by (auto simp: CreateInvite_def)
    next
      case (Inr code)
      with fresh v1 have "\<forall>x\<in>set (v_invites (view db2)). inv_Code x \<noteq> code" "view db2 = view db" by auto
      with assms a ok g Inr man show ?thesis
        by (auto simp: CreateInvite_def split: prod.splits sum.splits dest!: invs.create_law
            intro!: acl_change.invite_new)
    qed
  qed
qed

lemma revoke_row_step:
  assumes "revoke_row G now m db = (r, db')" "m \<in> set (v_members (view db))"
    "mem_Role m \<noteq> RoleOwner" "mem_Status m = StatusActive"
  shows "view db' = view db \<or> acl_change (view db) (view db')"
  using assms by (auto simp: revoke_row_def split: prod.splits sum.splits dest!: mems.updates_law
      intro!: acl_change.revoke)

lemma revoke_active_cases:
  assumes "(case t_first (members_t G) (active_member_of d u) db of
                (Inl ErrRecordNotFound, db) \<Rightarrow> (Inl ErrNotMember, db)
              | (Inl e, db) \<Rightarrow> (Inl (GormError e), db)
              | (Inr member, db) \<Rightarrow>
                  if mem_Role member = RoleOwner then (Inl err, db)
                  else revoke_row G now member db) = (r, db')"
  shows "(\<exists>e. r = Inl e \<and> view db' = view db) \<or> (r = Inr () \<and> revoked_to now d u (view db) (view db'))"
proof -
  obtain q db1 where f: "t_first (members_t G) (active_member_of d u) db = (q, db1)" by fastforce
  show ?thesis
  proof (cases q)
    case (Inl e)
    with assms f mems.first_view [OF f] show ?thesis by (cases e) auto
  next
    case (Inr m)
    from mems.first_Inr [OF f [unfolded Inr]] have m: "view db1 = view db" "m \<in> set (v_members (view db))"
      "active_member_of d u m" by auto
    show ?thesis
    proof (cases "mem_Role m = RoleOwner")
      case True
      with assms f Inr m show ?thesis by auto
    next
      case False
      with assms f Inr m show ?thesis
        by (auto simp: revoke_row_def revoked_to_def split: prod.splits sum.splits dest!: mems.updates_law)
    qed
  qed
qed

lemma RevokeMember_cases:
  assumes "RevokeMember G now d a u db = (r, db')"
  shows "(\<exists>e. r = Inl e \<and> view db' = view db) \<or>
    (r = Inr () \<and> may_manage (view db) d a \<and> u \<noteq> a \<and> owner_of (view db) d \<noteq> Some u \<and>
     revoked_to now d u (view db) (view db'))"
proof -
  obtain q db1 where f: "AssertManage G d a db = (q, db1)" by fastforce
  note v1 = AssertManage_view [OF f]
  obtain q2 db2 where f2: "t_first (devices_t G) (has_id d) db1 = (q2, db2)" by fastforce
  note v2 = devs.first_view [OF f2]
  show ?thesis
  proof (cases q)
    case (Inl e)
    with assms f v1 show ?thesis by (auto simp: RevokeMember_def)
  next
    case ok: (Inr x)
    note man = AssertManage_Inr [OF f [unfolded ok]]
    show ?thesis
    proof (cases q2)
      case (Inl e)
      with assms f ok f2 v1 v2 show ?thesis by (auto simp: RevokeMember_def split: if_splits)
    next
      case (Inr dv)
      from devs.first_Inr [OF f2 [unfolded Inr]] v1 have ow: "owner_of (view db) d = Some (dev_UserID dv)"
        by (simp add: owner_of_def)
      show ?thesis
      proof (cases "u = a \<or> u = dev_UserID dv")
        case True
        with assms f ok f2 Inr v1 v2 show ?thesis by (auto simp: RevokeMember_def split: if_splits)
      next
        case False
        with assms f ok f2 Inr have "(case t_first (members_t G) (active_member_of d u) db2 of
                (Inl ErrRecordNotFound, db) \<Rightarrow> (Inl ErrNotMember, db)
              | (Inl e, db) \<Rightarrow> (Inl (GormError e), db)
              | (Inr member, db) \<Rightarrow>
                  if mem_Role member = RoleOwner then (Inl ErrCannotKickOwner, db)
                  else revoke_row G now member db) = (r, db')"
          by (simp add: RevokeMember_def)
        from revoke_active_cases [OF this] False man ow v1 v2 show ?thesis by auto
      qed
    qed
  qed
qed

lemma LeaveDevice_cases:
  assumes "LeaveDevice G now d u db = (r, db')"
  shows "(\<exists>e. r = Inl e \<and> view db' = view db) \<or>
    (r = Inr () \<and> owner_of (view db) d \<noteq> Some u \<and> revoked_to now d u (view db) (view db'))"
proof -
  obtain q2 db2 where f2: "t_first (devices_t G) (has_id d) db = (q2, db2)" by fastforce
  note v2 = devs.first_view [OF f2]
  show ?thesis
  proof (cases q2)
    case (Inl e)
    with assms f2 v2 show ?thesis by (auto simp: LeaveDevice_def split: if_splits)
  next
    case (Inr dv)
    from devs.first_Inr [OF f2 [unfolded Inr]] have ow: "owner_of (view db) d = Some (dev_UserID dv)"
      by (simp add: owner_of_def)
    show ?thesis
    proof (cases "dev_UserID dv = u")
      case True
      with assms f2 Inr v2 show ?thesis by (auto simp: LeaveDevice_def)
    next
      case False
      with assms f2 Inr have "(case t_first (members_t G) (active_member_of d u) db2 of
                (Inl ErrRecordNotFound, db) \<Rightarrow> (Inl ErrNotMember, db)
              | (Inl e, db) \<Rightarrow> (Inl (GormError e), db)
              | (Inr member, db) \<Rightarrow>
                  if mem_Role member = RoleOwner then (Inl ErrCannotLeaveOwner, db)
                  else revoke_row G now member db) = (r, db')"
        by (simp add: LeaveDevice_def)
      from revoke_active_cases [OF this] False ow v2 show ?thesis by auto
    qed
  qed
qed

lemma DeleteDeviceFamily_change:
  assumes "DeleteDeviceFamily G d db = (r, db')"
  shows "acl_change\<^sup>*\<^sup>* (view db) (view db')"
proof -
  obtain q db1 where f: "t_delete (members_t G) (\<lambda>m. mem_DeviceID m = d) db = (q, db1)" by fastforce
  obtain q2 db2 where f2: "t_delete (invites_t G) (\<lambda>i. inv_DeviceID i = d) db1 = (q2, db2)" by fastforce
  have "acl_change\<^sup>*\<^sup>* (view db) (view db1)" "acl_change\<^sup>*\<^sup>* (view db1) (view db2)"
    using mems.delete_law [OF f] invs.delete_law [OF f2] acl_change.drop_members acl_change.drop_invites by auto
  moreover from assms f f2 have "db' = db1 \<or> db' = db2"
    by (auto simp: DeleteDeviceFamily_def split: sum.splits)
  ultimately show ?thesis by (auto intro: rtranclp_trans)
qed

lemma join_use_Inr:
  assumes "join_use G now ivt dv tx = (Inr x, tx')" "ivt \<in> set (v_invites (view tx))"
  shows "x = dv \<and> view tx' =
    v_invites_update (map (\<lambda>y. if inv_ID y = inv_ID ivt then use_invite now ivt else y)) (view tx)"
proof -
  obtain q tx1 where s: "t_save (invites_t G) (use_invite now ivt) tx = (q, tx1)" by fastforce
  have "inv_ID (use_invite now ivt) \<in> inv_ID ` set (v_invites (view tx))" using assms(2) by simp
  from invs.save_law [OF s this] assms(1) s show ?thesis
    by (auto simp: join_use_def split: sum.splits)
qed

lemma join_member_Inr:
  assumes j: "join_member G now u ivt dv m tx = (Inr x, tx')" and i: "ivt \<in> set (v_invites (view tx))"
    and m: "(m \<in> set (v_members (view tx)) \<and> member_of (dev_ID dv) u m \<and> mem_Status m \<noteq> StatusActive \<and> 0 < mem_ID m) \<or>
        (m = zero_member \<and> List.find (member_of (dev_ID dv) u) (v_members (view tx)) = None)"
  shows "x = dv \<and> (\<exists>f. join_update (view tx) now (inv_CreatedBy ivt) (dev_ID dv) u f \<and>
     view tx' = v_invites_update (map (\<lambda>y. if inv_ID y = inv_ID ivt then use_invite now ivt else y))
       (v_members_update f (view tx)))"
  using m
proof
  assume *: "m \<in> set (v_members (view tx)) \<and> member_of (dev_ID dv) u m \<and> mem_Status m \<noteq> StatusActive \<and> 0 < mem_ID m"
  let ?r = "rejoin_row now (inv_CreatedBy ivt) m"
  obtain q tx1 where s: "t_save (members_t G) ?r tx = (q, tx1)" by fastforce
  have id: "mem_ID ?r = mem_ID m" by (simp add: rejoin_row_def)
  with * have "mem_ID ?r \<in> mem_ID ` set (v_members (view tx))" by simp
  from mems.save_law [OF s this] id j s * have
    v: "view tx1 = v_members_update (map (\<lambda>y. if mem_ID y = mem_ID m then ?r else y)) (view tx)"
    and u: "join_use G now ivt dv tx1 = (Inr x, tx')"
    by (auto simp: join_member_def split: sum.splits)
  have "join_update (view tx) now (inv_CreatedBy ivt) (dev_ID dv) u (map (\<lambda>y. if mem_ID y = mem_ID m then ?r else y))"
    using * by (auto simp: join_update_def)
  with join_use_Inr [OF u] v i show ?thesis by auto
next
  assume *: "m = zero_member \<and> List.find (member_of (dev_ID dv) u) (v_members (view tx)) = None"
  let ?r = "join_row now (inv_CreatedBy ivt) (dev_ID dv) u"
  obtain q tx1 where c: "t_create (members_t G) ?r tx = (q, tx1)" by fastforce
  from j c * have "\<exists>y. q = Inr y" and u: "join_use G now ivt dv tx1 = (Inr x, tx')"
    by (auto simp: join_member_def zero_member_def split: sum.splits)
  with mems.create_law [OF c] obtain k where k: "0 < k" "\<forall>y\<in>set (v_members (view tx)). mem_ID y < k"
    and v: "view tx1 = v_members_update (\<lambda>ms. ms @ [?r\<lparr>mem_ID := k\<rparr>]) (view tx)"
    by auto
  have "join_update (view tx) now (inv_CreatedBy ivt) (dev_ID dv) u (\<lambda>ms. ms @ [?r\<lparr>mem_ID := k\<rparr>])"
    using * k by (auto simp: join_update_def)
  with join_use_Inr [OF u] v i show ?thesis by auto
qed

lemma join_checked_Inr:
  assumes j: "join_checked G now u ivt dv m tx = (Inr x, tx')" and i: "ivt \<in> set (v_invites (view tx))"
    and m: "(m \<in> set (v_members (view tx)) \<and> member_of (dev_ID dv) u m \<and> mem_Status m \<noteq> StatusActive \<and> 0 < mem_ID m) \<or>
        (m = zero_member \<and> List.find (member_of (dev_ID dv) u) (v_members (view tx)) = None)"
  shows "x = dv \<and> active_count (view tx) (dev_ID dv) < MaxMembersPerDevice \<and>
    (\<exists>f. join_update (view tx) now (inv_CreatedBy ivt) (dev_ID dv) u f \<and>
     view tx' = v_invites_update (map (\<lambda>y. if inv_ID y = inv_ID ivt then use_invite now ivt else y))
       (v_members_update f (view tx)))"
proof -
  obtain q tx1 where c: "t_count (members_t G) (active_on (dev_ID dv)) tx = (q, tx1)" by fastforce
  from j c obtain n where q: "q = Inr n" and n: "n < MaxMembersPerDevice"
    and jm: "join_member G now u ivt dv m tx1 = (Inr x, tx')"
    by (auto simp: join_checked_def CountActiveMembers_def split: sum.splits if_splits)
  from mems.count_Inr [OF c [unfolded q]] n have v: "view tx1 = view tx"
    and "active_count (view tx) (dev_ID dv) < MaxMembersPerDevice"
    by (auto simp: active_count_def)
  with join_member_Inr [OF jm] i m show ?thesis by (simp add: v)
qed

text \<open>What a successful join has found and written.\<close>

lemma join_tx_Inr:
  assumes j: "join_tx G now u code tx = (Inr x, tx')" and wf: "acl_wf (view tx)"
  obtains ivt f where "ivt \<in> set (v_invites (view tx))" "inv_Code ivt = code" "invite_open now ivt"
    "List.find (has_id (inv_DeviceID ivt)) (v_devices (view tx)) = Some x"
    "dev_UserID x \<noteq> 0" "dev_UserID x \<noteq> u"
    "active_count (view tx) (dev_ID x) < MaxMembersPerDevice"
    "join_update (view tx) now (inv_CreatedBy ivt) (dev_ID x) u f"
    "view tx' = v_invites_update (map (\<lambda>y. if inv_ID y = inv_ID ivt then use_invite now ivt else y))
       (v_members_update f (view tx))"
proof -
  obtain q tx1 where f: "t_first (invites_t G) (\<lambda>i. inv_Code i = code) tx = (q, tx1)" by fastforce
  from j f obtain ivt where q: "q = Inr ivt" and us: "invite_usable now ivt"
    and jd: "join_device G now u ivt tx1 = (Inr x, tx')"
    by (auto simp: join_tx_def split: sum.splits gorm_error.splits if_splits prod.splits)
  note i = invs.first_Inr [OF f [unfolded q]]
  obtain q2 tx2 where f2: "t_first (devices_t G) (has_id (inv_DeviceID ivt)) tx1 = (q2, tx2)" by fastforce
  obtain q3 tx3 where f3: "t_first (members_t G) (member_of (inv_DeviceID ivt) u) tx2 = (q3, tx3)" by fastforce
  from jd f2 obtain dv where q2: "q2 = Inr dv" by (auto simp: join_device_def split: sum.splits)
  note d = devs.first_Inr [OF f2 [unfolded q2]]
  then have id: "dev_ID dv = inv_DeviceID ivt" by (simp add: has_id_def)
  have v3: "view tx3 = view tx" using mems.first_view [OF f3] d i by simp
  have "dev_UserID dv \<noteq> 0" "dev_UserID dv \<noteq> u"
    using jd f2 q2 by (auto simp: join_device_def split: if_splits)
  moreover obtain m where jc: "join_checked G now u ivt dv m tx3 = (Inr x, tx')"
    and m: "(m \<in> set (v_members (view tx3)) \<and> member_of (dev_ID dv) u m \<and> mem_Status m \<noteq> StatusActive \<and> 0 < mem_ID m) \<or>
        (m = zero_member \<and> List.find (member_of (dev_ID dv) u) (v_members (view tx3)) = None)"
  proof (cases q3)
    case (Inl e)
    with jd f2 q2 f3 id have "e = ErrRecordNotFound" "join_checked G now u ivt dv zero_member tx3 = (Inr x, tx')"
      by (auto simp: join_device_def split: if_splits gorm_error.splits)
    moreover have "List.find (member_of (dev_ID dv) u) (v_members (view tx3)) = None"
      using mems.first_NotFound [of "member_of (inv_DeviceID ivt) u" tx2 tx3] f3 Inl \<open>e = _\<close> id d i v3 by simp
    ultimately show ?thesis using that [of zero_member] by simp
  next
    case (Inr m)
    note mm = mems.first_Inr [OF f3 [unfolded Inr]]
    with wf d i have "0 < mem_ID m" by (force simp: wf_defs)
    moreover from jd f2 q2 f3 id Inr have "mem_Status m \<noteq> StatusActive" "join_checked G now u ivt dv m tx3 = (Inr x, tx')"
      by (auto simp: join_device_def split: if_splits)
    ultimately show ?thesis using that mm id d i v3 by auto
  qed
  moreover have "ivt \<in> set (v_invites (view tx3))" using i v3 by simp
  ultimately show ?thesis
    using that [of ivt] join_checked_Inr [OF jc _ m] i us [unfolded invite_usable_open] d v3 by auto
qed

lemma transaction_Inr:
  assumes "transaction G f db = (Inr x, db')"
  shows "\<exists>tx tx'. view tx = view db \<and> f tx = (Inr x, tx') \<and> view db' = view tx'"
  using transaction_law [OF assms] by (fastforce split: sum.split_asm)

lemma JoinByCode_Inl:
  assumes "JoinByCode G uc now u raw db = (Inl e, db')"
  shows "view db' = view db"
  using assms by (auto simp: JoinByCode_def Let_def split: if_splits sum.splits dest!: transaction_law)

lemma JoinByCode_Inr:
  assumes j: "JoinByCode G uc now u raw db = (Inr x, db')" and wf: "acl_wf (view db)"
  obtains ivt f where "ivt \<in> set (v_invites (view db))" "inv_Code ivt = to_upper uc (trim_space raw)"
    "invite_open now ivt"
    "List.find (has_id (inv_DeviceID ivt)) (v_devices (view db)) = Some x"
    "dev_UserID x \<noteq> 0" "dev_UserID x \<noteq> u"
    "active_count (view db) (dev_ID x) < MaxMembersPerDevice"
    "join_update (view db) now (inv_CreatedBy ivt) (dev_ID x) u f"
    "view db' = v_invites_update (map (\<lambda>y. if inv_ID y = inv_ID ivt then use_invite now ivt else y))
       (v_members_update f (view db))"
proof -
  from j have "transaction G (join_tx G now u (to_upper uc (trim_space raw))) db = (Inr x, db')"
    by (auto simp: JoinByCode_def Let_def split: if_splits)
  from transaction_Inr [OF this] obtain tx tx' where v: "view tx = view db" "view db' = view tx'"
    and jt: "join_tx G now u (to_upper uc (trim_space raw)) tx = (Inr x, tx')"
    by blast
  show ?thesis
    by (rule join_tx_Inr [OF jt]) (use wf v that in auto)
qed

lemma JoinByCode_step:
  assumes j: "JoinByCode G uc now u raw db = (r, db')" and wf: "acl_wf (view db)"
  shows "view db' = view db \<or> acl_change (view db) (view db')"
proof (cases r)
  case (Inl e)
  with j JoinByCode_Inl show ?thesis by blast
next
  case (Inr x)
  show ?thesis
    by (rule JoinByCode_Inr [OF j [unfolded Inr] wf]) (auto intro!: disjI2 acl_change.join)
qed

lemma EnsureOwnerMember_Inr:
  assumes "EnsureOwnerMember G now d u db = (Inr x, db')"
  shows "owner_row (view db') d u \<and> v_devices (view db') = v_devices (view db) \<and>
    (\<forall>d' u'. owner_row (view db) d' u' \<longrightarrow> owner_row (view db') d' u')"
proof -
  obtain q db1 where f: "t_first (members_t G) (member_of d u) db = (q, db1)" by fastforce
  note v1 = mems.first_view [OF f]
  from assms have du: "d \<noteq> 0" "u \<noteq> 0" by (auto simp: EnsureOwnerMember_def split: if_splits)
  show ?thesis
  proof (cases q)
    case (Inl e)
    with assms du f have "e = ErrRecordNotFound"
      by (auto simp: EnsureOwnerMember_def split: gorm_error.splits)
    with assms du f Inl v1 show ?thesis
      by (auto simp: EnsureOwnerMember_def owner_row_def split: prod.splits sum.splits dest!: mems.create_law)
  next
    case (Inr m)
    from mems.first_Inr [OF f [unfolded Inr]] have m: "m \<in> set (v_members (view db1))" "member_of d u m"
      by auto
    let ?g = "\<lambda>m. m\<lparr>mem_Role := RoleOwner, mem_Status := StatusActive, mem_RevokedAt := None, mem_UpdatedAt := now\<rparr>"
    obtain q2 db2 where u2: "t_updates (members_t G) (\<lambda>x. mem_ID x = mem_ID m) ?g db1 = (q2, db2)" by fastforce
    from assms du f Inr u2 have "\<exists>y. q2 = Inr y" and db': "db' = db2"
      by (auto simp: EnsureOwnerMember_def split: sum.splits)
    with mems.updates_law [OF u2]
    have v2: "view db2 = v_members_update (map (\<lambda>y. if mem_ID y = mem_ID m then ?g y else y)) (view db1)" by auto
    have "?g m \<in> set (v_members (view db2))" using m(1) by (auto simp: v2 image_iff)
    then have "owner_row (view db2) d u"
      unfolding owner_row_def using m(2) by (intro bexI [of _ "?g m"]) (auto simp: member_of_def)
    moreover have "owner_row (view db2) d' u'" if "owner_row (view db1) d' u'" for d' u'
    proof -
      from that obtain x where x: "x \<in> set (v_members (view db1))" "mem_DeviceID x = d'" "mem_UserID x = u'"
        "mem_Role x = RoleOwner" "mem_Status x = StatusActive" by (auto simp: owner_row_def)
      then show ?thesis
        unfolding owner_row_def v2 by (intro bexI [of _ "if mem_ID x = mem_ID m then ?g x else x"]) auto
    qed
    ultimately show ?thesis by (simp add: db' v2 v1 [symmetric])
  qed
qed

lemma backfill_loop_change:
  "backfill_loop G now ds n db = (r, db') \<Longrightarrow> acl_change\<^sup>*\<^sup>* (view db) (view db')"
proof (induction ds arbitrary: n db)
  case Nil
  then show ?case by simp
next
  case (Cons d ds)
  obtain c db1 where c: "t_count (members_t G)
             (\<lambda>m. mem_DeviceID m = dev_ID d \<and> mem_UserID m = dev_UserID d \<and>
                  mem_Role m = RoleOwner \<and> mem_Status m = StatusActive) db = (c, db1)" by fastforce
  obtain q db2 where e: "EnsureOwnerMember G (now d) (dev_ID d) (dev_UserID d) db1 = (q, db2)" by fastforce
  have "acl_change\<^sup>*\<^sup>* (view db) (view db1)" "acl_change\<^sup>*\<^sup>* (view db1) (view db2)"
    using mems.count_law [OF c] EnsureOwnerMember_step [OF e] by auto
  with Cons c e show ?case
    by (auto split: sum.splits if_splits intro: rtranclp_trans)
qed

lemma backfill_loop_owned:
  assumes "backfill_loop G now ds n db = ((k, None), db')"
  shows "(\<forall>d u. owner_row (view db) d u \<longrightarrow> owner_row (view db') d u) \<and>
    (\<forall>d\<in>set ds. owner_row (view db') (dev_ID d) (dev_UserID d)) \<and>
    v_devices (view db') = v_devices (view db) \<and> n \<le> k \<and> k \<le> n + length ds"
  using assms
proof (induction ds arbitrary: n db)
  case Nil
  then show ?case by simp
next
  case (Cons d ds)
  obtain c db1 where c: "t_count (members_t G)
             (\<lambda>m. mem_DeviceID m = dev_ID d \<and> mem_UserID m = dev_UserID d \<and>
                  mem_Role m = RoleOwner \<and> mem_Status m = StatusActive) db = (c, db1)" by fastforce
  obtain q db2 where e: "EnsureOwnerMember G (now d) (dev_ID d) (dev_UserID d) db1 = (q, db2)" by fastforce
  from Cons.prems c obtain m where m: "c = Inr m" by (auto split: sum.splits)
  note cm = mems.count_Inr [OF c [unfolded m]]
  show ?case
  proof (cases "0 < m")
    case True
    then have "owner_row (view db) (dev_ID d) (dev_UserID d)"
      using cm by (auto simp: filter_empty_conv owner_row_def)
    moreover from Cons.prems c m True have "backfill_loop G now ds n db1 = ((k, None), db')" by simp
    ultimately show ?thesis using Cons.IH cm by fastforce
  next
    case False
    with Cons.prems c m e obtain x where q: "q = Inr x"
      and l: "backfill_loop G now ds (Suc n) db2 = ((k, None), db')"
      by (auto split: sum.splits)
    from EnsureOwnerMember_Inr [OF e [unfolded q]] Cons.IH [OF l] cm show ?thesis by fastforce
  qed
qed

end

subsection \<open>The in-memory provider\<close>

definition mem_acl :: "acl_view acl_ops" where
  "mem_acl = \<lparr>
     devices_t = mem_table v_devices v_devices_update dev_ID (\<lambda>i. dev_ID_update (\<lambda>_. i)),
     members_t = mem_table v_members v_members_update mem_ID (\<lambda>i. mem_ID_update (\<lambda>_. i)),
     invites_t = mem_table v_invites v_invites_update inv_ID (\<lambda>i. inv_ID_update (\<lambda>_. i)),
     transaction = (\<lambda>f v. case f v of (Inl e, _) \<Rightarrow> (Inl e, v) | (Inr a, v') \<Rightarrow> (Inr a, v'))\<rparr>"

interpretation mem_store: acl_store mem_acl "\<lambda>v. v"
proof (intro acl_store.intro acl_store_axioms.intro)
  fix f r and db db' :: acl_view
  assume "transaction mem_acl f db = (r, db')"
  then show "(r = Inl (GormError DriverError) \<and> db' = db) \<or>
      (\<exists>db1 x db2. db1 = db \<and> f db1 = (x, db2) \<and>
         (case x of Inl e \<Rightarrow> r = Inl e \<and> db' = db | Inr a \<Rightarrow> r = Inr a \<and> db' = db2))"
    by (auto simp: mem_acl_def split: prod.splits sum.splits)
qed (simp_all add: mem_acl_def mem.gorm_table_axioms)

subsection \<open>Sequences of calls\<close>

datatype acl_call =
    CallEnsureOwner instant nat nat
  | CallBackfill "device \<Rightarrow> instant"
  | CallDeleteFamily nat
  | CallCreateInvite "nat \<Rightarrow> (nat \<Rightarrow> 8 word) option" instant nat nat
  | CallJoin "rune \<Rightarrow> rune" instant nat gotext
  | CallRevoke instant nat nat nat
  | CallLeave instant nat nat

fun acl_exec :: "'db acl_ops \<Rightarrow> acl_call \<Rightarrow> 'db \<Rightarrow> 'db" where
  "acl_exec G (CallEnsureOwner now d u) db = snd (EnsureOwnerMember G now d u db)"
| "acl_exec G (CallBackfill now) db = snd (BackfillOwnerMembers G now db)"
| "acl_exec G (CallDeleteFamily d) db = snd (DeleteDeviceFamily G d db)"
| "acl_exec G (CallCreateInvite rand now d u) db = snd (CreateInvite G rand now d u db)"
| "acl_exec G (CallJoin uc now u raw) db = snd (JoinByCode G uc now u raw db)"
| "acl_exec G (CallRevoke now d a u) db = snd (RevokeMember G now d a u db)"
| "acl_exec G (CallLeave now d u) db = snd (LeaveDevice G now d u db)"

definition acl_run :: "'db acl_ops \<Rightarrow> acl_call list \<Rightarrow> 'db \<Rightarrow> 'db" where
  "acl_run G calls db = fold (acl_exec G) calls db"

definition acl_inv :: "acl_view \<Rightarrow> bool" where
  "acl_inv v \<longleftrightarrow> acl_wf v \<and> (\<forall>i\<in>set (v_invites v). invite_ok i) \<and>
     (\<forall>d. plain_count v d \<le> MaxMembersPerDevice)"

lemma acl_changes_inv:
  assumes "acl_change\<^sup>*\<^sup>* v v'" "acl_inv v"
  shows "acl_inv v'"
  using assms
proof (induction rule: rtranclp_induct)
  case base
  then show ?case .
next
  case (step v1 v2)
  then have "acl_inv v1" by blast
  with step.hyps(2) show ?case
    unfolding acl_inv_def using acl_change_wf acl_change_invites acl_change_plain by blast
qed

context acl_store
begin

lemma revoked_to_step: "revoked_to now d u v v' \<Longrightarrow> acl_change v v'"
  by (auto simp: revoked_to_def active_member_of_def intro!: acl_change.revoke)

lemma step_or_same: "v' = v \<or> acl_change v v' \<Longrightarrow> acl_change\<^sup>*\<^sup>* v v'"
  by auto

lemma acl_exec_changes:
  assumes "acl_wf (view db)"
  shows "acl_change\<^sup>*\<^sup>* (view db) (view (acl_exec G c db))"
proof (cases c)
  case (CallEnsureOwner now d u)
  then show ?thesis by (simp add: step_or_same EnsureOwnerMember_step [OF surjective_pairing])
next
  case (CallBackfill now)
  obtain q db1 where f: "t_find (devices_t G) (\<lambda>d. dev_UserID d > 0) db = (q, db1)" by fastforce
  have "acl_change\<^sup>*\<^sup>* (view db1) (view (snd (backfill_loop G now ds 0 db1)))" for ds
    by (rule backfill_loop_change [OF surjective_pairing])
  with devs.find_law [OF f] CallBackfill f show ?thesis
    by (auto simp: BackfillOwnerMembers_def)
next
  case (CallDeleteFamily d)
  then show ?thesis using DeleteDeviceFamily_change [OF surjective_pairing] by simp
next
  case (CallCreateInvite rand now d u)
  then show ?thesis by (simp add: step_or_same CreateInvite_step [OF surjective_pairing])
next
  case (CallJoin uc now u raw)
  then show ?thesis by (simp add: step_or_same assms JoinByCode_step [OF surjective_pairing])
next
  case (CallRevoke now d a u)
  then show ?thesis
    using RevokeMember_cases [OF surjective_pairing, of now d a u db] revoked_to_step by auto
next
  case (CallLeave now d u)
  then show ?thesis
    using LeaveDevice_cases [OF surjective_pairing, of now d u db] revoked_to_step by auto
qed

lemma acl_run_refines:
  "acl_inv (view db) \<Longrightarrow> acl_change\<^sup>*\<^sup>* (view db) (view (acl_run G calls db)) \<and> acl_inv (view (acl_run G calls db))"
proof (induction calls arbitrary: db)
  case Nil
  then show ?case by (simp add: acl_run_def)
next
  case (Cons c calls)
  then have "acl_wf (view db)" by (simp add: acl_inv_def)
  note step = acl_exec_changes [OF this, of c]
  have "acl_inv (view (acl_exec G c db))" by (rule acl_changes_inv [OF step Cons.prems])
  note rest = Cons.IH [OF this]
  then show ?case using step by (auto simp: acl_run_def intro: rtranclp_trans)
qed

end

subsection \<open>Who is an active member afterwards\<close>

lemma active_member_iff: "active_member v d u \<longleftrightarrow> (\<exists>m\<in>set (v_members v). member_key m = (d, u) \<and> mem_Status m = StatusActive)"
  by (auto simp: active_member_def active_member_of_def member_key_def)

lemma wf_member_by_key:
  assumes "acl_wf v" "m \<in> set (v_members v)" "x \<in> set (v_members v)" "member_key x = member_key m"
  shows "x = m"
  using assms distinct_map_unique [of member_key "v_members v" x m] by (auto simp: wf_defs)

text \<open>Rewriting one row by primary key decides the activity of its own user and of nobody else.\<close>

lemma rewrite_active:
  assumes wf: "acl_wf v" and m: "m \<in> set (v_members v)" and k: "member_key (f m) = member_key m"
  shows "active_member (v_members_update (map (\<lambda>x. if mem_ID x = mem_ID m then f x else x)) v) d u \<longleftrightarrow>
    (if (d, u) = member_key m then mem_Status (f m) = StatusActive else active_member v d u)"
proof -
  have set': "set (map (\<lambda>x. if mem_ID x = mem_ID m then f x else x) (v_members v)) = insert (f m) (set (v_members v) - {m})"
  proof -
    have "map (\<lambda>x. if mem_ID x = mem_ID m then f x else x) (v_members v) = map (\<lambda>x. if x = m then f m else x) (v_members v)"
      using wf_member_by_id [OF wf m] by (intro map_cong) auto
    then show ?thesis using m by (auto simp del: map_eq_conv)
  qed
  have own: "member_key x \<noteq> member_key m" if "x \<in> set (v_members v) - {m}" for x
    using wf_member_by_key [OF wf m] that by blast
  show ?thesis
    unfolding active_member_iff using set' own k m by (auto split: if_splits)
qed

lemma join_update_active:
  assumes wf: "acl_wf v" and f: "join_update v now who d u f"
  shows "active_member (v_members_update f v) d' u' \<longleftrightarrow> active_member v d' u' \<or> (d', u') = (d, u)"
    and "\<not> active_member v d u"
proof -
  have "(active_member (v_members_update f v) d' u' \<longleftrightarrow> active_member v d' u' \<or> (d', u') = (d, u)) \<and> \<not> active_member v d u"
    using f unfolding join_update_def
  proof (elim disjE bexE conjE exE)
    fix m assume m: "m \<in> set (v_members v)" "member_of d u m" "mem_Status m \<noteq> StatusActive"
      and f: "f = map (\<lambda>x. if mem_ID x = mem_ID m then rejoin_row now who m else x)"
    have k: "member_key m = (d, u)" using m(2) by (simp add: member_of_def member_key_def)
    have "\<not> active_member v d u"
      unfolding active_member_iff using wf_member_by_key [OF wf m(1)] m(3) k by metis
    moreover have "active_member (v_members_update f v) d' u' \<longleftrightarrow>
        (if (d', u') = member_key m then mem_Status (rejoin_row now who m) = StatusActive else active_member v d' u')"
      unfolding f by (rule rewrite_active [OF wf m(1)]) (simp add: row_defs)
    ultimately show ?thesis using k by (auto simp: rejoin_row_def)
  next
    fix i assume none: "List.find (member_of d u) (v_members v) = None"
      and f: "f = (\<lambda>ms. ms @ [(join_row now who d u)\<lparr>mem_ID := i\<rparr>])"
    show ?thesis
      using find_member_fresh [OF none] by (auto simp: f active_member_iff join_row_def member_key_def)
  qed
  then show "active_member (v_members_update f v) d' u' \<longleftrightarrow> active_member v d' u' \<or> (d', u') = (d, u)"
    and "\<not> active_member v d u" by auto
qed

lemma revoked_to_active:
  assumes wf: "acl_wf v" and r: "revoked_to now d u v v'"
  shows "active_member v' d' u' \<longleftrightarrow> active_member v d' u' \<and> (d', u') \<noteq> (d, u)"
proof -
  from r obtain m where m: "m \<in> set (v_members v)" "active_member_of d u m"
    and v': "v' = v_members_update (map (\<lambda>x. if mem_ID x = mem_ID m
          then x\<lparr>mem_Status := StatusRevoked, mem_RevokedAt := Some now, mem_UpdatedAt := now\<rparr> else x)) v"
    by (auto simp: revoked_to_def)
  have k: "member_key m = (d, u)" using m(2) by (simp add: active_member_of_def member_key_def)
  have "active_member v' d' u' \<longleftrightarrow> (if (d', u') = member_key m
     then mem_Status (m\<lparr>mem_Status := StatusRevoked, mem_RevokedAt := Some now, mem_UpdatedAt := now\<rparr>) = StatusActive
     else active_member v d' u')"
    unfolding v' by (rule rewrite_active [OF wf m(1)]) (simp add: member_key_def)
  with k show ?thesis by (auto simp: acl_consts)
qed

lemma revoked_to_devices: "revoked_to now d u v v' \<Longrightarrow> v_devices v' = v_devices v"
  by (auto simp: revoked_to_def)

context acl_store
begin

lemma join_tx_unusable:
  assumes "join_tx G now u code tx = (r, tx')" "acl_wf (view tx)"
    "ivt \<in> set (v_invites (view tx))" "inv_Code ivt = code" "\<not> invite_open now ivt"
  shows "r = Inl ErrInviteInvalid \<or> r = Inl (GormError DriverError)"
proof -
  obtain q tx1 where f: "t_first (invites_t G) (\<lambda>i. inv_Code i = code) tx = (q, tx1)" by fastforce
  show ?thesis
  proof (cases q)
    case (Inl e)
    with assms(1) f show ?thesis by (cases e) (auto simp: join_tx_def)
  next
    case (Inr i)
    from invs.first_Inr [OF f [unfolded Inr]] have "i \<in> set (v_invites (view tx))" "inv_Code i = code" by auto
    with assms(2-4) have "i = ivt"
      using distinct_map_unique [of inv_Code "v_invites (view tx)" i ivt] by (simp add: wf_defs)
    with assms(1,5) f Inr show ?thesis by (auto simp: join_tx_def invite_usable_open split: prod.splits)
  qed
qed

lemma JoinByCode_unusable:
  assumes j: "JoinByCode G uc now u raw db = (r, db')" and wf: "acl_wf (view db)"
    and i: "ivt \<in> set (v_invites (view db))" "inv_Code ivt = to_upper uc (trim_space raw)" "\<not> invite_open now ivt"
  shows "r = Inl ErrInviteInvalid \<or> r = Inl (GormError DriverError)"
proof (cases "to_upper uc (trim_space raw) = []")
  case True
  with j show ?thesis by (auto simp: JoinByCode_def)
next
  case False
  with j have t: "transaction G (join_tx G now u (to_upper uc (trim_space raw))) db = (r, db')"
    by (simp add: JoinByCode_def Let_def)
  from transaction_law [OF t] show ?thesis
  proof
    assume "\<exists>db1 x db2. view db1 = view db \<and> join_tx G now u (to_upper uc (trim_space raw)) db1 = (x, db2) \<and>
         (case x of Inl e \<Rightarrow> r = Inl e \<and> view db' = view db | Inr a \<Rightarrow> r = Inr a \<and> view db' = view db2)"
    then obtain db1 x db2 where *: "view db1 = view db" "join_tx G now u (to_upper uc (trim_space raw)) db1 = (x, db2)"
      "case x of Inl e \<Rightarrow> r = Inl e \<and> view db' = view db | Inr a \<Rightarrow> r = Inr a \<and> view db' = view db2" by blast
    from join_tx_unusable [OF *(2), of ivt] * wf i have "x = Inl ErrInviteInvalid \<or> x = Inl (GormError DriverError)"
      by simp
    with *(3) show ?thesis by auto
  qed simp
qed

lemma CreateInvite_Inr:
  assumes "CreateInvite G rand now d u db = (Inr ivt, db')"
  shows "may_manage (view db) d u \<and> v_invites (view db') = v_invites (view db) @ [ivt] \<and>
    v_members (view db') = v_members (view db) \<and> v_devices (view db') = v_devices (view db) \<and>
    (\<exists>buf. inv_Code ivt = invite_code_of buf) \<and> inv_Code ivt \<notin> inv_Code ` set (v_invites (view db)) \<and>
    inv_DeviceID ivt = d \<and> inv_CreatedBy ivt = u \<and> inv_ExpiresAt ivt = now + InviteTTL \<and>
    inv_UsedCount ivt = 0 \<and> inv_MaxUses ivt = InviteMaxUses \<and> inv_Status ivt = InviteStatusActive"
proof -
  obtain a db1 where a: "AssertManage G d u db = (a, db1)" by fastforce
  obtain g db2 where g: "generateInviteCode G rand db1 = (g, db2)" by fastforce
  from assms a g obtain x code where ok: "a = Inr x" and gc: "g = Inr code"
    by (auto simp: CreateInvite_def split: sum.splits)
  note man = AssertManage_Inr [OF a [unfolded ok]]
    and fresh = generate_attempts_fresh [OF g [unfolded generateInviteCode_def]]
  with assms a g ok gc show ?thesis
    by (auto simp: CreateInvite_def split: prod.splits sum.splits dest!: invs.create_law)
qed

lemma DeleteDeviceFamily_Inr:
  assumes "DeleteDeviceFamily G d db = (Inr x, db')"
  shows "v_members (view db') = filter (\<lambda>m. mem_DeviceID m \<noteq> d) (v_members (view db)) \<and>
    v_invites (view db') = filter (\<lambda>i. inv_DeviceID i \<noteq> d) (v_invites (view db)) \<and>
    v_devices (view db') = v_devices (view db)"
  using assms
  by (auto simp: DeleteDeviceFamily_def split: prod.splits sum.splits dest!: mems.delete_Inr invs.delete_Inr)

lemma BackfillOwnerMembers_complete:
  assumes "BackfillOwnerMembers G now db = ((n, None), db')"
  shows "(\<forall>d\<in>set (v_devices (view db)). 0 < dev_UserID d \<longrightarrow> owner_row (view db') (dev_ID d) (dev_UserID d)) \<and>
    v_devices (view db') = v_devices (view db) \<and>
    n \<le> length (filter (\<lambda>d. 0 < dev_UserID d) (v_devices (view db)))"
proof -
  obtain q db1 where f: "t_find (devices_t G) (\<lambda>d. dev_UserID d > 0) db = (q, db1)" by fastforce
  from assms f obtain ds where q: "q = Inr ds" and l: "backfill_loop G now ds 0 db1 = ((n, None), db')"
    by (auto simp: BackfillOwnerMembers_def split: sum.splits)
  from devs.find_Inr [OF f [unfolded q]] backfill_loop_owned [OF l] show ?thesis
    by auto
qed

lemma ListAccessible_Inr:
  assumes "ListAccessibleDeviceIDs G keys u db = (Inr ids, db')" "u \<noteq> 0"
    and k: "\<And>xs. set (keys xs) = set xs"
  shows "view db' = view db \<and> set ids =
    {dev_ID dv | dv. dv \<in> set (v_devices (view db)) \<and> dev_UserID dv = u} \<union> {d. active_member (view db) d u}"
proof -
  obtain q db1 where f: "t_find (devices_t G) (\<lambda>d. dev_UserID d = u) db = (q, db1)" by fastforce
  obtain q2 db2 where f2: "t_find (members_t G) (\<lambda>m. mem_UserID m = u \<and> mem_Status m = StatusActive) db1 = (q2, db2)" by fastforce
  from assms(1,2) f f2 obtain xs ms where q: "q = Inr xs" "q2 = Inr ms" and
    ids: "ids = keys (remdups (map dev_ID xs @ map mem_DeviceID ms))" "db' = db2"
    by (auto simp: ListAccessibleDeviceIDs_def split: sum.splits)
  from devs.find_Inr [OF f [unfolded q]] mems.find_Inr [OF f2 [unfolded q]] ids k show ?thesis
    by (auto simp: active_member_def active_member_of_def)
qed

end

subsection \<open>A small family, for evaluation\<close>

definition demo_device :: device where
  "demo_device = \<lparr>dev_ID = 1, dev_UserID = 10, dev_AgentID = 2, dev_RoleID = None, dev_NickName = lit ''toy'',
     dev_DeviceCode = [], dev_DeviceName = lit ''SN1'', dev_Challenge = [], dev_PreSecretKey = [],
     dev_Activated = True, dev_LastActiveAt = None, dev_CreatedAt = 0, dev_UpdatedAt = 0\<rparr>"

definition demo_row :: "nat \<Rightarrow> nat \<Rightarrow> string \<Rightarrow> string \<Rightarrow> device_member" where
  "demo_row i u role status = \<lparr>mem_ID = i, mem_DeviceID = 1, mem_UserID = u, mem_Role = role, mem_Status = status,
     mem_InvitedBy = None, mem_JoinedAt = 0, mem_RevokedAt = None, mem_CreatedAt = 0, mem_UpdatedAt = 0\<rparr>"

definition demo_invite :: "instant \<Rightarrow> device_invite" where
  "demo_invite t = \<lparr>inv_ID = 4, inv_DeviceID = 1, inv_Code = lit ''ABC234'', inv_CreatedBy = 10, inv_ExpiresAt = t,
     inv_MaxUses = 5, inv_UsedCount = 0, inv_Status = InviteStatusActive, inv_CreatedAt = 0, inv_UpdatedAt = 0\<rparr>"

definition demo_view :: "instant \<Rightarrow> acl_view" where
  "demo_view t = \<lparr>v_devices = [demo_device],
     v_members = [demo_row 1 10 RoleOwner StatusActive, demo_row 2 20 RoleMember StatusActive,
                  demo_row 3 30 RoleMember StatusRevoked],
     v_invites = [demo_invite t]\<rparr>"

lemma demo_wf: "acl_wf (demo_view t)"
  by (simp add: wf_defs demo_view_def demo_row_def demo_invite_def member_key_def)

lemmas demo_defs = demo_view_def demo_row_def demo_invite_def demo_device_def mem_acl_def mem_table_def
  acl_consts lit_def trim_space_def to_upper_def is_space_def has_id_def member_of_def active_member_of_def
  active_on_def

subsection \<open>Properties\<close>



text \<open>
  C2. A successful \<open>JoinByCode\<close> was made with a stored invite of exactly the typed code (trimmed and
  upper-cased) that was active, unexpired and had uses left, for a device bound to another user; it
  makes the user, who was not an active member before, an active member, changes nobody else's
  membership, raises the number of active rows of the device by one to at most six, counts one use
  of that invite and touches no other invite and no device.
\<close>

theorem JoinByCode_admits:
  assumes store: "acl_store G view" and wf: "acl_wf (view db)"
    and join: "JoinByCode G uc now u raw db = (Inr x, db')"
  shows "\<exists>ivt\<in>set (v_invites (view db)).
    inv_Code ivt = to_upper uc (trim_space raw) \<and> inv_DeviceID ivt = dev_ID x \<and>
    inv_Status ivt = InviteStatusActive \<and> now \<le> inv_ExpiresAt ivt \<and> inv_UsedCount ivt < inv_MaxUses ivt \<and>
    owner_of (view db) (dev_ID x) = Some (dev_UserID x) \<and> dev_UserID x \<noteq> 0 \<and> dev_UserID x \<noteq> u \<and>
    \<not> active_member (view db) (dev_ID x) u \<and>
    (\<forall>d' u'. active_member (view db') d' u' \<longleftrightarrow> active_member (view db) d' u' \<or> (d', u') = (dev_ID x, u)) \<and>
    active_count (view db') (dev_ID x) = Suc (active_count (view db) (dev_ID x)) \<and>
    active_count (view db') (dev_ID x) \<le> 6 \<and>
    v_invites (view db') = map (\<lambda>y. if inv_ID y = inv_ID ivt then ivt\<lparr>inv_UsedCount := inv_UsedCount ivt + 1, inv_UpdatedAt := now,
        inv_Status := if inv_UsedCount ivt + 1 = inv_MaxUses ivt then InviteStatusExhausted else InviteStatusActive\<rparr> else y) (v_invites (view db)) \<and>
    v_devices (view db') = v_devices (view db)"
proof (rule acl_store.JoinByCode_Inr [OF store join wf])
  fix ivt f
  assume a: "ivt \<in> set (v_invites (view db))" "inv_Code ivt = to_upper uc (trim_space raw)" "invite_open now ivt"
    "List.find (has_id (inv_DeviceID ivt)) (v_devices (view db)) = Some x"
    "dev_UserID x \<noteq> 0" "dev_UserID x \<noteq> u" "active_count (view db) (dev_ID x) < MaxMembersPerDevice"
    and f: "join_update (view db) now (inv_CreatedBy ivt) (dev_ID x) u f"
    and v: "view db' = v_invites_update (map (\<lambda>y. if inv_ID y = inv_ID ivt then use_invite now ivt else y))
       (v_members_update f (view db))"
  have id: "dev_ID x = inv_DeviceID ivt" using find_SomeD [OF a(4)] by (simp add: has_id_def)
  have "active_member (view db') d' u' \<longleftrightarrow> active_member (v_members_update f (view db)) d' u'" for d' u'
    by (simp add: v active_member_def)
  with join_update_active [OF wf f]
  have "\<forall>d' u'. active_member (view db') d' u' \<longleftrightarrow> active_member (view db) d' u' \<or> (d', u') = (dev_ID x, u)"
    and "\<not> active_member (view db) (dev_ID x) u" by simp_all
  moreover have "active_count (view db') (dev_ID x) = Suc (active_count (view db) (dev_ID x))"
    using join_active_count [OF wf f] by (simp add: v active_count_def)
  moreover have "owner_of (view db) (dev_ID x) = Some (dev_UserID x)"
    using a(4) id by (simp add: owner_of_def)
  moreover note a(3) [unfolded invite_open_def] use_invite_open [OF a(3)]
  ultimately show ?thesis
    using a(2,5,6,7) id v by (intro bexI [OF _ a(1)]) (simp only: acl_view.simps comp_def, simp add: MaxMembersPerDevice_def)
qed

theorem JoinByCode_admits_witness:
  "acl_wf (demo_view 5) \<and> fst (JoinByCode mem_acl (\<lambda>r. r) 3 30 (lit '' abc234 '') (demo_view 5)) = Inr demo_device \<and>
   active_member (snd (JoinByCode mem_acl (\<lambda>r. r) 3 30 (lit '' abc234 '') (demo_view 5))) 1 30 \<and>
   \<not> active_member (demo_view 5) 1 30"
proof -
  let ?j = "JoinByCode mem_acl (\<lambda>r. r) 3 30 (lit '' abc234 '') (demo_view 5)"
  have r: "fst ?j = Inr demo_device"
    by (simp add: JoinByCode_def join_tx_def join_device_def join_checked_def join_member_def join_use_def
        CountActiveMembers_def invite_usable_def MaxMembersPerDevice_def demo_defs)
  then have e: "?j = (Inr demo_device, snd ?j)" by (metis prod.collapse)
  have "dev_ID demo_device = 1" by (simp add: demo_device_def)
  with JoinByCode_admits [OF mem_store.acl_store_axioms demo_wf e] r demo_wf show ?thesis by auto
qed

text \<open>
  A join that does not succeed leaves the tables exactly as they were, and a code whose invite is
  inactive, expired or used up is refused. Together: the expired or exhausted mark that the handler
  writes on such an invite is part of the transaction it then aborts, so it is never stored.
\<close>

theorem JoinByCode_refusal:
  assumes store: "acl_store G view" and wf: "acl_wf (view db)"
    and join: "JoinByCode G uc now u raw db = (r, db')"
  shows "(\<forall>e. r = Inl e \<longrightarrow> view db' = view db) \<and>
    ((\<exists>ivt\<in>set (v_invites (view db)). inv_Code ivt = to_upper uc (trim_space raw) \<and>
        (inv_Status ivt \<noteq> InviteStatusActive \<or> inv_ExpiresAt ivt < now \<or> inv_MaxUses ivt \<le> inv_UsedCount ivt)) \<longrightarrow>
       (r = Inl ErrInviteInvalid \<or> r = Inl (GormError DriverError)) \<and> view db' = view db)"
  using acl_store.JoinByCode_Inl [OF store] acl_store.JoinByCode_unusable [OF store join wf] join
  by (fastforce simp: invite_open_def)

theorem JoinByCode_refusal_witness:
  "JoinByCode mem_acl (\<lambda>r. r) 9 30 (lit ''abc234'') (demo_view 5) = (Inl ErrInviteInvalid, demo_view 5) \<and>
   inv_Status (demo_invite 5) = InviteStatusActive"
proof -
  let ?j = "JoinByCode mem_acl (\<lambda>r. r) 9 30 (lit ''abc234'') (demo_view 5)"
  have r: "fst ?j = Inl ErrInviteInvalid"
    by (simp add: JoinByCode_def join_tx_def markInviteExpiredOrExhausted_def invite_usable_def demo_defs)
  then have e: "?j = (Inl ErrInviteInvalid, snd ?j)" by (metis prod.collapse)
  from JoinByCode_refusal [OF mem_store.acl_store_axioms demo_wf e] e show ?thesis
    by (metis (no_types, lifting) demo_invite_def device_invite.select_convs(8))
qed



text \<open>
  \<open>RevokeMember\<close> fails without touching the tables, or: the caller is the owner, the target is
  neither the caller nor the owner, the target has lost access to the device, and the access of
  everybody else to every device is as before.
\<close>

theorem RevokeMember_effect:
  assumes store: "acl_store G view" and wf: "acl_wf (view db)"
    and rev: "RevokeMember G now d a u db = (r, db')"
  shows "case r of Inl _ \<Rightarrow> view db' = view db
    | Inr _ \<Rightarrow> may_manage (view db) d a \<and> u \<noteq> a \<and> \<not> may_access (view db') d u \<and>
        (\<forall>d' u'. (d', u') \<noteq> (d, u) \<longrightarrow> may_access (view db') d' u' = may_access (view db) d' u')"
  using acl_store.RevokeMember_cases [OF store rev]
proof
  assume *: "r = Inr () \<and> may_manage (view db) d a \<and> u \<noteq> a \<and> owner_of (view db) d \<noteq> Some u \<and>
     revoked_to now d u (view db) (view db')"
  then have act: "active_member (view db') d' u' \<longleftrightarrow> active_member (view db) d' u' \<and> (d', u') \<noteq> (d, u)" for d' u'
    using revoked_to_active [OF wf] by blast
  have own: "owner_of (view db') d' = owner_of (view db) d'" for d'
    using * revoked_to_devices by (auto simp: owner_of_def)
  from * show ?thesis by (auto simp: may_access_def act own split: option.splits)
qed auto

theorem RevokeMember_effect_witness:
  "fst (RevokeMember mem_acl 7 1 10 20 (demo_view 5)) = Inr () \<and> may_access (demo_view 5) 1 20 \<and>
   \<not> may_access (snd (RevokeMember mem_acl 7 1 10 20 (demo_view 5))) 1 20"
proof -
  let ?j = "RevokeMember mem_acl 7 1 10 20 (demo_view 5)"
  have r: "fst ?j = Inr ()"
    by (simp add: RevokeMember_def AssertManage_def CanManage_def revoke_row_def demo_defs)
  then have e: "?j = (Inr (), snd ?j)" by (metis prod.collapse)
  have "may_access (demo_view 5) 1 20"
    by (simp add: may_access_def owner_of_def active_member_def demo_defs)
  with RevokeMember_effect [OF mem_store.acl_store_axioms demo_wf e] r show ?thesis by simp
qed

text \<open>
  \<open>LeaveDevice\<close> fails without touching the tables, or the caller, who is not the owner of the
  device, has lost access to it and nobody else's access has changed.
\<close>

theorem LeaveDevice_effect:
  assumes store: "acl_store G view" and wf: "acl_wf (view db)"
    and lv: "LeaveDevice G now d u db = (r, db')"
  shows "case r of Inl _ \<Rightarrow> view db' = view db
    | Inr _ \<Rightarrow> owner_of (view db) d \<noteq> Some u \<and> \<not> may_access (view db') d u \<and>
        (\<forall>d' u'. (d', u') \<noteq> (d, u) \<longrightarrow> may_access (view db') d' u' = may_access (view db) d' u')"
  using acl_store.LeaveDevice_cases [OF store lv]
proof
  assume *: "r = Inr () \<and> owner_of (view db) d \<noteq> Some u \<and> revoked_to now d u (view db) (view db')"
  then have act: "active_member (view db') d' u' \<longleftrightarrow> active_member (view db) d' u' \<and> (d', u') \<noteq> (d, u)" for d' u'
    using revoked_to_active [OF wf] by blast
  have own: "owner_of (view db') d' = owner_of (view db) d'" for d'
    using * revoked_to_devices by (auto simp: owner_of_def)
  from * show ?thesis by (auto simp: may_access_def act own split: option.splits)
qed auto

theorem LeaveDevice_effect_witness:
  "fst (LeaveDevice mem_acl 7 1 20 (demo_view 5)) = Inr () \<and>
   \<not> may_access (snd (LeaveDevice mem_acl 7 1 20 (demo_view 5))) 1 20"
proof -
  let ?j = "LeaveDevice mem_acl 7 1 20 (demo_view 5)"
  have r: "fst ?j = Inr ()"
    by (simp add: LeaveDevice_def revoke_row_def demo_defs)
  then have e: "?j = (Inr (), snd ?j)" by (metis prod.collapse)
  from LeaveDevice_effect [OF mem_store.acl_store_axioms demo_wf e] r show ?thesis by simp
qed

text \<open>
  A created invite names the owner who made it, on a device that owner manages, with a code that
  no stored invite has, six letters of the invite alphabet, valid for 24 hours and five uses; nothing
  else in the tables changes.
\<close>

theorem CreateInvite_effect:
  assumes "acl_store G view" and "CreateInvite G rand now d u db = (Inr ivt, db')"
  shows "may_manage (view db) d u \<and> v_invites (view db') = v_invites (view db) @ [ivt] \<and>
    v_members (view db') = v_members (view db) \<and> v_devices (view db') = v_devices (view db) \<and>
    inv_Code ivt \<notin> inv_Code ` set (v_invites (view db)) \<and>
    length (inv_Code ivt) = 6 \<and> set (inv_Code ivt) \<subseteq> set inviteCodeAlphabet \<and>
    inv_DeviceID ivt = d \<and> inv_CreatedBy ivt = u \<and> inv_ExpiresAt ivt = now + 86400 * 1000000000 \<and>
    inv_UsedCount ivt = 0 \<and> inv_MaxUses ivt = 5 \<and> invite_usable now ivt"
proof -
  have "inviteCodeAlphabet ! (n mod length inviteCodeAlphabet) \<in> set inviteCodeAlphabet" for n
    by (rule nth_mem) (simp add: inviteCodeAlphabet_def)
  then have "length (invite_code_of buf) = 6 \<and> set (invite_code_of buf) \<subseteq> set inviteCodeAlphabet" for buf
    by (auto simp: invite_code_of_def InviteCodeLength_def)
  with acl_store.CreateInvite_Inr [OF assms]
  have "length (inv_Code ivt) = 6" "set (inv_Code ivt) \<subseteq> set inviteCodeAlphabet" by metis+
  with acl_store.CreateInvite_Inr [OF assms] show ?thesis
    by (simp add: InviteTTL_def InviteMaxUses_def invite_usable_def)
qed

theorem CreateInvite_effect_witness:
  "\<exists>ivt. fst (CreateInvite mem_acl (\<lambda>_. Some (\<lambda>_. 7)) 100 1 10 (demo_view 5)) = Inr ivt \<and>
     length (inv_Code ivt) = 6 \<and> invite_usable 100 ivt"
proof -
  let ?j = "CreateInvite mem_acl (\<lambda>_. Some (\<lambda>_. 7)) 100 1 10 (demo_view 5)"
  have code: "invite_code_of (\<lambda>_. 7) = lit ''HHHHHH''" by code_simp
  have "generate_attempts mem_acl (\<lambda>_. Some (\<lambda>_. 7)) (Suc 15) (demo_view 5) = (Inr (lit ''HHHHHH''), demo_view 5)"
    by (subst generate_attempts.simps) (simp add: code demo_defs)
  then have "generateInviteCode mem_acl (\<lambda>_. Some (\<lambda>_. 7)) (demo_view 5) = (Inr (lit ''HHHHHH''), demo_view 5)"
    by (simp add: generateInviteCode_def)
  then have "\<exists>ivt. fst ?j = Inr ivt"
    by (simp add: CreateInvite_def AssertManage_def CanManage_def demo_defs Let_def)
  then obtain ivt where r: "fst ?j = Inr ivt" by blast
  then have e: "?j = (Inr ivt, snd ?j)" by (metis prod.collapse)
  from CreateInvite_effect [OF mem_store.acl_store_axioms e] r show ?thesis by blast
qed

text \<open>
  When \<open>BackfillOwnerMembers\<close> reports success, every device bound to a user has an active owner
  row for that user, no device row has changed, and the reported number of repairs is at most the
  number of bound devices.
\<close>

theorem BackfillOwnerMembers_owned:
  assumes "acl_store G view" and "BackfillOwnerMembers G now db = ((n, None), db')"
  shows "(\<forall>d\<in>set (v_devices (view db)). 0 < dev_UserID d \<longrightarrow> owner_row (view db') (dev_ID d) (dev_UserID d)) \<and>
    v_devices (view db') = v_devices (view db) \<and>
    n \<le> length (filter (\<lambda>d. 0 < dev_UserID d) (v_devices (view db)))"
  using assms by (rule acl_store.BackfillOwnerMembers_complete)

theorem BackfillOwnerMembers_owned_witness:
  "fst (BackfillOwnerMembers mem_acl (\<lambda>_. 3) ((demo_view 5)\<lparr>v_members := []\<rparr>)) = (1, None) \<and>
   owner_row (snd (BackfillOwnerMembers mem_acl (\<lambda>_. 3) ((demo_view 5)\<lparr>v_members := []\<rparr>))) 1 10"
proof -
  let ?v = "(demo_view 5)\<lparr>v_members := []\<rparr>"
  let ?j = "BackfillOwnerMembers mem_acl (\<lambda>_. 3) ?v"
  have r: "fst ?j = (1, None)"
    by (simp add: BackfillOwnerMembers_def EnsureOwnerMember_def demo_defs Let_def)
  then have e: "?j = ((1, None), snd ?j)" by (metis prod.collapse)
  have "demo_device \<in> set (v_devices ?v)" "0 < dev_UserID demo_device" "dev_ID demo_device = 1" "dev_UserID demo_device = 10"
    by (simp_all add: demo_view_def demo_device_def)
  with BackfillOwnerMembers_owned [OF mem_store.acl_store_axioms e] r show ?thesis by metis
qed

text \<open>
  A successful \<open>DeleteDeviceFamily\<close> removes exactly the member rows and the invites of the device:
  afterwards at most its owner has access to it, no code admits anyone to it, and the access of
  everybody to every other device is as before.
\<close>

theorem DeleteDeviceFamily_effect:
  assumes "acl_store G view" and "DeleteDeviceFamily G d db = (Inr x, db')"
  shows "(\<forall>u. may_access (view db') d u \<longrightarrow> owner_of (view db) d = Some u) \<and>
    (\<forall>i\<in>set (v_invites (view db')). inv_DeviceID i \<noteq> d) \<and>
    (\<forall>d' u. d' \<noteq> d \<longrightarrow> may_access (view db') d' u = may_access (view db) d' u)"
  using acl_store.DeleteDeviceFamily_Inr [OF assms]
  by (auto simp: may_access_def owner_of_def active_member_def active_member_of_def split: option.splits)

theorem DeleteDeviceFamily_effect_witness:
  "fst (DeleteDeviceFamily mem_acl 1 (demo_view 5)) = Inr () \<and> may_access (demo_view 5) 1 20 \<and>
   \<not> may_access (snd (DeleteDeviceFamily mem_acl 1 (demo_view 5))) 1 20"
proof -
  let ?j = "DeleteDeviceFamily mem_acl 1 (demo_view 5)"
  have r: "fst ?j = Inr ()" by (simp add: DeleteDeviceFamily_def demo_defs)
  then have e: "?j = (Inr (), snd ?j)" by (metis prod.collapse)
  have "may_access (demo_view 5) 1 20" "owner_of (demo_view 5) 1 = Some 10"
    by (simp_all add: may_access_def owner_of_def active_member_def demo_defs)
  with DeleteDeviceFamily_effect [OF mem_store.acl_store_axioms e] r show ?thesis by auto
qed

end
