(* ===== verification/GoChan.thy ===== *)
theory GoChan
  imports Prelude
begin

text \<open>
  Buffered Go channels: the outcome of a send or a receive at the moment it is attempted, closed channels
  included. A \<open>select\<close> with a \<open>default\<close> takes its default exactly where an operation here blocks.
\<close>

text \<open>A call of the Go program either returns or panics.\<close>

datatype 'a run = Done 'a | Panic

primrec run_bind :: "'a run \<Rightarrow> ('a \<Rightarrow> 'b run) \<Rightarrow> 'b run" where
  "run_bind (Done x) f = f x"
| "run_bind Panic f = Panic"

lemma run_bind_Done: "run_bind r f = Done y \<longleftrightarrow> (\<exists>x. r = Done x \<and> f x = Done y)"
  by (cases r) auto

record 'a gochan =
  c_buf :: "'a list"
  c_closed :: bool

datatype 'a send_result = Sent "'a gochan" | SendBlocks | SendPanics
datatype 'a recv_result = Received 'a "'a gochan" | RecvBlocks | RecvClosed

definition chan_send :: "nat \<Rightarrow> 'a gochan \<Rightarrow> 'a \<Rightarrow> 'a send_result" where
  "chan_send capacity c v =
     (if c_closed c then SendPanics
      else if length (c_buf c) < capacity then Sent (c\<lparr>c_buf := c_buf c @ [v]\<rparr>)
      else SendBlocks)"

definition chan_recv :: "'a gochan \<Rightarrow> 'a recv_result" where
  "chan_recv c =
     (case c_buf c of
        v # vs \<Rightarrow> Received v (c\<lparr>c_buf := vs\<rparr>)
      | [] \<Rightarrow> if c_closed c then RecvClosed else RecvBlocks)"

definition close_chan :: "'a gochan \<Rightarrow> 'a gochan" where
  "close_chan c = c\<lparr>c_closed := True\<rparr>"

end
