(* ===== verification/GoQueue.thy ===== *)
theory GoQueue
  imports GoChan "HOL-Library.Multiset"
begin

text \<open>
  The clearable queue of \<open>internal/util/queue.go\<close>, which the speech pipeline hands audio and text
  through. A queue owns a Go channel; clearing it swaps in a fresh channel and closes the old one,
  and a generation counter tells a sender that was caught on the old channel to retry.

  Callers run concurrently, so the model is a transition system: \<open>tick\<close> is one atomic step of one
  caller (a critical section of \<open>mu\<close>, or the resolution of one \<open>select\<close>), \<open>qsys\<close> the shared queue
  with the callers and, for the theorems only, the log of every channel. Channels are kept in a list
  in order of creation, so a caller's reference to an old channel stays meaningful. Channels are
  buffered, as every queue of the server is (capacity at least one).
\<close>

subsection \<open>The queue and its callers\<close>

datatype queue_error = ErrQueueClosed | ErrQueueTimeout | ErrQueueEmpty | ErrQueueCtxDone | ErrPushTimeout | CtxErr

record 'a queue =
  q_chans :: "'a gochan list"
  q_ch :: nat
  q_cap :: nat
  q_closed :: bool
  q_gen :: "64 word"

definition NewQueue :: "nat \<Rightarrow> 'a queue" where
  "NewQueue capacity = \<lparr>q_chans = [\<lparr>c_buf = [], c_closed = False\<rparr>], q_ch = 0, q_cap = capacity,
     q_closed = False, q_gen = 0\<rparr>"

text \<open>
  \<open>PushWithTimeout\<close> (and \<open>Push\<close>) resolve their select by the timer, \<open>PushBlocking\<close> by its context; \<open>Pop\<close>
  has three ways to wait.
\<close>

datatype push_mode = WithTimeout | UntilCtx
datatype pop_mode = NonBlocking | BlockUntilCtx | BlockWithTimeout

datatype 'a caller =
    Idle
  | PushEntry 'a push_mode
  | PushSelect 'a push_mode nat "64 word"
  | PushRecheck 'a push_mode "64 word"
  | PopEntry pop_mode
  | PopSelect pop_mode nat
  | ClearEntry
  | Draining nat "'a list"
  | CloseEntry
  | PushReturned "queue_error option"
  | PopReturned "queue_error + 'a"
  | ClearReturned "'a list"
  | CloseReturned

text \<open>Which alternative of a \<open>select\<close> fires: the channel operation, the timer, or \<open>ctx.Done()\<close>.\<close>

datatype choice = OnChan | OnTimer | OnCtx

datatype 'a effect = NoEffect | DidSend nat 'a | DidRecv nat 'a

text \<open>
  \<open>safeQueueSendWithTimeout\<close> and \<open>safeQueueSendWithContext\<close>: the send, with the panic of a closed
  channel recovered, against the timer or the context. \<open>Inl True\<close> is \<open>closed\<close>, \<open>Inl False\<close> is neither
  sent nor closed, \<open>Inr\<close> is sent; \<open>None\<close> means the alternative chosen is not ready.
\<close>

definition safeQueueSend :: "push_mode \<Rightarrow> choice \<Rightarrow> nat \<Rightarrow> 'a gochan \<Rightarrow> 'a \<Rightarrow> (bool + 'a gochan) option" where
  "safeQueueSend mode ch capacity c v =
     (case ch of
        OnChan \<Rightarrow> (case chan_send capacity c v of
                    Sent c' \<Rightarrow> Some (Inr c') | SendPanics \<Rightarrow> Some (Inl True) | SendBlocks \<Rightarrow> None)
      | OnTimer \<Rightarrow> if mode = WithTimeout then Some (Inl False) else None
      | OnCtx \<Rightarrow> if mode = UntilCtx then Some (Inl False) else None)"

definition push_select :: "choice \<Rightarrow> 'a queue \<Rightarrow> 'a \<Rightarrow> push_mode \<Rightarrow> nat \<Rightarrow> 64 word
    \<Rightarrow> ('a queue \<times> 'a caller \<times> 'a effect) option" where
  "push_select ch q v mode c gen =
     (case safeQueueSend mode ch (q_cap q) (q_chans q ! c) v of
        None \<Rightarrow> None
      | Some (Inr c') \<Rightarrow> Some (q\<lparr>q_chans := (q_chans q)[c := c']\<rparr>, PushReturned None, DidSend c v)
      | Some (Inl closed) \<Rightarrow>
          (if mode = UntilCtx \<and> ch = OnCtx then Some (q, PushReturned (Some CtxErr), NoEffect)
           else if \<not> closed then
             Some (q, if mode = WithTimeout then PushReturned (Some ErrPushTimeout) else PushEntry v mode, NoEffect)
           else Some (q, PushRecheck v mode gen, NoEffect)))"

definition pop_select :: "choice \<Rightarrow> 'a queue \<Rightarrow> pop_mode \<Rightarrow> nat
    \<Rightarrow> ('a queue \<times> 'a caller \<times> 'a effect) option" where
  "pop_select ch q mode c =
     (case ch of
        OnChan \<Rightarrow>
          (case chan_recv (q_chans q ! c) of
             Received v c' \<Rightarrow> Some (q\<lparr>q_chans := (q_chans q)[c := c']\<rparr>, PopReturned (Inr v), DidRecv c v)
           | RecvClosed \<Rightarrow> Some (q, PopReturned (Inl ErrQueueClosed), NoEffect)
           | RecvBlocks \<Rightarrow>
               if mode = NonBlocking then Some (q, PopReturned (Inl ErrQueueEmpty), NoEffect) else None)
      | OnTimer \<Rightarrow> if mode = BlockWithTimeout then Some (q, PopReturned (Inl ErrQueueTimeout), NoEffect) else None
      | OnCtx \<Rightarrow>
          (case mode of
             NonBlocking \<Rightarrow> None
           | BlockUntilCtx \<Rightarrow> Some (q, PopReturned (Inl ErrQueueCtxDone), NoEffect)
           | BlockWithTimeout \<Rightarrow> Some (q, PopReturned (Inl CtxErr), NoEffect)))"

definition clear_swap :: "'a queue \<Rightarrow> 'a queue \<times> 'a caller" where
  "clear_swap q =
     (if q_closed q then (q, ClearReturned [])
      else (q\<lparr>q_chans := (q_chans q)[q_ch q := close_chan (q_chans q ! q_ch q)] @ [\<lparr>c_buf = [], c_closed = False\<rparr>],
              q_ch := length (q_chans q), q_gen := q_gen q + 1\<rparr>,
            Draining (q_ch q) []))"

definition queue_Close :: "'a queue \<Rightarrow> 'a queue" where
  "queue_Close q =
     (if \<not> q_closed q then
        q\<lparr>q_closed := True, q_gen := q_gen q + 1,
          q_chans := (q_chans q)[q_ch q := close_chan (q_chans q ! q_ch q)]\<rparr>
      else q)"

text \<open>One atomic step of a caller; \<open>None\<close>: it has to wait, or it has returned.\<close>

fun tick :: "choice \<Rightarrow> 'a queue \<Rightarrow> 'a caller \<Rightarrow> ('a queue \<times> 'a caller \<times> 'a effect) option" where
  "tick ch q (PushEntry v mode) =
     (if q_closed q then Some (q, PushReturned (Some ErrQueueClosed), NoEffect)
      else Some (q, PushSelect v mode (q_ch q) (q_gen q), NoEffect))"
| "tick ch q (PushSelect v mode c gen) = push_select ch q v mode c gen"
| "tick ch q (PushRecheck v mode gen) =
     (let queueClosed = q_closed q; shouldRetry = (\<not> queueClosed \<and> q_gen q \<noteq> gen) in
      if queueClosed then Some (q, PushReturned (Some ErrQueueClosed), NoEffect)
      else if shouldRetry then Some (q, PushEntry v mode, NoEffect)
      else Some (q, PushReturned (Some ErrQueueClosed), NoEffect))"
| "tick ch q (PopEntry mode) =
     (if q_closed q then Some (q, PopReturned (Inl ErrQueueClosed), NoEffect)
      else Some (q, PopSelect mode (q_ch q), NoEffect))"
| "tick ch q (PopSelect mode c) = pop_select ch q mode c"
| "tick ch q ClearEntry = (case clear_swap q of (q', k) \<Rightarrow> Some (q', k, NoEffect))"
| "tick ch q (Draining c acc) =
     (case chan_recv (q_chans q ! c) of
        Received v c' \<Rightarrow> Some (q\<lparr>q_chans := (q_chans q)[c := c']\<rparr>, Draining c (acc @ [v]), DidRecv c v)
      | RecvClosed \<Rightarrow> Some (q, ClearReturned acc, NoEffect)
      | RecvBlocks \<Rightarrow> None)"
| "tick ch q CloseEntry = Some (queue_Close q, CloseReturned, NoEffect)"
| "tick ch q _ = None"

subsection \<open>The system\<close>

record 'a qsys =
  s_queue :: "'a queue"
  s_callers :: "nat \<Rightarrow> 'a caller"
  s_sent :: "nat \<Rightarrow> 'a list"
  s_recv :: "nat \<Rightarrow> 'a list"
  s_epoch :: nat

datatype 'a qevent = Call nat "'a caller" | Tick nat choice

definition entry_point :: "'a caller \<Rightarrow> bool" where
  "entry_point k \<longleftrightarrow> (case k of PushEntry _ _ \<Rightarrow> True | PopEntry _ \<Rightarrow> True | ClearEntry \<Rightarrow> True | CloseEntry \<Rightarrow> True | _ \<Rightarrow> False)"

definition busy :: "'a caller \<Rightarrow> bool" where
  "busy k \<longleftrightarrow> (case k of Idle \<Rightarrow> False | PushReturned _ \<Rightarrow> False | PopReturned _ \<Rightarrow> False
     | ClearReturned _ \<Rightarrow> False | CloseReturned \<Rightarrow> False | _ \<Rightarrow> True)"

definition log_effect :: "'a effect \<Rightarrow> 'a qsys \<Rightarrow> 'a qsys" where
  "log_effect e s =
     (case e of NoEffect \<Rightarrow> s
      | DidSend c v \<Rightarrow> s\<lparr>s_sent := (s_sent s)(c := s_sent s c @ [v])\<rparr>
      | DidRecv c v \<Rightarrow> s\<lparr>s_recv := (s_recv s)(c := s_recv s c @ [v])\<rparr>)"

text \<open>\<open>s_epoch\<close> counts the swaps and the close, of which the 64-bit generation is the remainder.\<close>

definition qstep :: "'a qevent \<Rightarrow> 'a qsys \<Rightarrow> 'a qsys option" where
  "qstep e s =
     (case e of
        Call t k \<Rightarrow> if \<not> busy (s_callers s t) \<and> entry_point k
                    then Some (s\<lparr>s_callers := (s_callers s)(t := k)\<rparr>) else None
      | Tick t ch \<Rightarrow>
          (case tick ch (s_queue s) (s_callers s t) of
             None \<Rightarrow> None
           | Some (q, k, eff) \<Rightarrow>
               Some (log_effect eff (s\<lparr>s_queue := q, s_callers := (s_callers s)(t := k),
                 s_epoch := (if q_gen q = q_gen (s_queue s) then s_epoch s else Suc (s_epoch s))\<rparr>))))"

definition init_qsys :: "nat \<Rightarrow> 'a qsys" where
  "init_qsys capacity = \<lparr>s_queue = NewQueue capacity, s_callers = (\<lambda>_. Idle),
     s_sent = (\<lambda>_. []), s_recv = (\<lambda>_. []), s_epoch = 0\<rparr>"

inductive qreach :: "nat \<Rightarrow> 'a qsys \<Rightarrow> bool" for capacity :: nat where
  init: "qreach capacity (init_qsys capacity)"
| step: "qreach capacity s \<Longrightarrow> qstep e s = Some s' \<Longrightarrow> qreach capacity s'"

fun qrun :: "'a qevent list \<Rightarrow> 'a qsys \<Rightarrow> 'a qsys option" where
  "qrun [] s = Some s"
| "qrun (e # es) s = (case qstep e s of None \<Rightarrow> None | Some s' \<Rightarrow> qrun es s')"

lemma qrun_reach: "qreach capacity s \<Longrightarrow> qrun es s = Some s' \<Longrightarrow> qreach capacity s'"
  by (induction es arbitrary: s) (auto split: option.splits intro: qreach.step)

subsection \<open>Invariant\<close>

definition chan_inv :: "nat \<Rightarrow> 'a gochan \<Rightarrow> 'a list \<Rightarrow> 'a list \<Rightarrow> bool" where
  "chan_inv capacity c snt rcv \<longleftrightarrow> snt = rcv @ c_buf c \<and> length (c_buf c) \<le> capacity"

definition queue_inv :: "'a queue \<Rightarrow> nat \<Rightarrow> bool" where
  "queue_inv q epoch \<longleftrightarrow> q_ch q < length (q_chans q) \<and> q_gen q = of_nat epoch \<and>
     (\<forall>c < length (q_chans q). c_closed (q_chans q ! c) \<longleftrightarrow> c \<noteq> q_ch q \<or> q_closed q)"

definition logs_inv :: "'a queue \<Rightarrow> (nat \<Rightarrow> 'a list) \<Rightarrow> (nat \<Rightarrow> 'a list) \<Rightarrow> bool" where
  "logs_inv q snt rcv \<longleftrightarrow>
     (\<forall>c < length (q_chans q). chan_inv (q_cap q) (q_chans q ! c) (snt c) (rcv c)) \<and>
     (\<forall>c \<ge> length (q_chans q). snt c = [] \<and> rcv c = [])"

text \<open>
  What a caller in the middle of an operation may rely on: the channel it holds exists; the
  generation it noted is an earlier or the present one, and an earlier one if that channel has been
  closed since.
\<close>

fun caller_inv :: "'a queue \<Rightarrow> nat \<Rightarrow> 'a caller \<Rightarrow> bool" where
  "caller_inv q epoch (PushSelect v mode c gen) \<longleftrightarrow> c < length (q_chans q) \<and>
     (\<exists>e\<le>epoch. gen = of_nat e \<and> (c_closed (q_chans q ! c) \<longrightarrow> e < epoch))"
| "caller_inv q epoch (PushRecheck v mode gen) \<longleftrightarrow> (\<exists>e<epoch. gen = of_nat e)"
| "caller_inv q epoch (PopSelect mode c) \<longleftrightarrow> c < length (q_chans q)"
| "caller_inv q epoch (Draining c acc) \<longleftrightarrow> c < length (q_chans q) \<and> c_closed (q_chans q ! c)"
| "caller_inv q epoch (PushReturned (Some ErrQueueClosed)) \<longleftrightarrow> (epoch < 2 ^ 64 \<longrightarrow> q_closed q)"
| "caller_inv q epoch _ \<longleftrightarrow> True"

definition qsys_inv :: "nat \<Rightarrow> 'a qsys \<Rightarrow> bool" where
  "qsys_inv capacity s \<longleftrightarrow> q_cap (s_queue s) = capacity \<and> queue_inv (s_queue s) (s_epoch s) \<and>
     logs_inv (s_queue s) (s_sent s) (s_recv s) \<and> (\<forall>t. caller_inv (s_queue s) (s_epoch s) (s_callers s t))"

text \<open>How one step may change the queue, as far as the other callers are concerned.\<close>

definition queue_le :: "'a queue \<Rightarrow> nat \<Rightarrow> 'a queue \<Rightarrow> nat \<Rightarrow> bool" where
  "queue_le q e q' e' \<longleftrightarrow> length (q_chans q) \<le> length (q_chans q') \<and> e \<le> e' \<and> (q_closed q \<longrightarrow> q_closed q') \<and>
     (\<forall>c < length (q_chans q). (c_closed (q_chans q ! c) \<longrightarrow> c_closed (q_chans q' ! c)) \<and>
        (c_closed (q_chans q' ! c) \<longrightarrow> c_closed (q_chans q ! c) \<or> e < e'))"

lemma caller_inv_mono:
  assumes "queue_le q e q' e'" "caller_inv q e k"
  shows "caller_inv q' e' k"
  using assms
proof (induction q e k rule: caller_inv.induct)
  case (1 q epoch v mode c gen)
  then obtain n where n: "n \<le> epoch" "gen = of_nat n" "c_closed (q_chans q ! c) \<longrightarrow> n < epoch"
    and c: "c < length (q_chans q)" by auto
  with 1(1) have "n \<le> e'" "c_closed (q_chans q' ! c) \<longrightarrow> n < e'" "c < length (q_chans q')"
    by (auto simp: queue_le_def dest: spec [of _ c])
  with n(2) show ?case by auto
qed (auto simp: queue_le_def intro: less_le_trans)

lemma of_nat64_neq:
  assumes "a < b" "b < 2 ^ 64"
  shows "(of_nat a :: 64 word) \<noteq> of_nat b"
proof -
  have "unat (of_nat a :: 64 word) = a" "unat (of_nat b :: 64 word) = b"
    using assms by (simp_all add: unat_of_nat)
  with assms(1) show ?thesis by auto
qed

text \<open>Replacing the contents of a channel, open or closed state unchanged.\<close>

lemma queue_le_refl [simp]: "queue_le q e q e"
  by (simp add: queue_le_def)

lemma queue_le_update:
  assumes "c < length (q_chans q)" "c_closed c' = c_closed (q_chans q ! c)"
  shows "queue_le q e (q\<lparr>q_chans := (q_chans q)[c := c']\<rparr>) e"
  using assms by (auto simp: queue_le_def nth_list_update)

lemma queue_inv_update:
  assumes "c < length (q_chans q)" "c_closed c' = c_closed (q_chans q ! c)" "queue_inv q e"
  shows "queue_inv (q\<lparr>q_chans := (q_chans q)[c := c']\<rparr>) e"
  using assms by (auto simp: queue_inv_def nth_list_update)

lemma chan_send_Sent:
  assumes "chan_send capacity c v = Sent c'"
  shows "c_closed c' = c_closed c \<and> \<not> c_closed c \<and> c_buf c' = c_buf c @ [v] \<and> length (c_buf c) < capacity"
  using assms by (auto simp: chan_send_def split: if_splits)

lemma chan_recv_Received:
  assumes "chan_recv c = Received v c'"
  shows "c_closed c' = c_closed c \<and> c_buf c = v # c_buf c'"
  using assms by (auto simp: chan_recv_def split: list.splits if_splits)

lemma logs_send:
  assumes "logs_inv q snt rcv" "c < length (q_chans q)" "chan_send (q_cap q) (q_chans q ! c) v = Sent c'"
  shows "logs_inv (q\<lparr>q_chans := (q_chans q)[c := c']\<rparr>) (snt(c := snt c @ [v])) rcv"
  using assms chan_send_Sent [OF assms(3)]
  by (auto simp: logs_inv_def chan_inv_def nth_list_update)

lemma logs_recv:
  assumes "logs_inv q snt rcv" "c < length (q_chans q)" "chan_recv (q_chans q ! c) = Received v c'"
  shows "logs_inv (q\<lparr>q_chans := (q_chans q)[c := c']\<rparr>) snt (rcv(c := rcv c @ [v]))"
  using assms chan_recv_Received [OF assms(3)]
  by (fastforce simp: logs_inv_def chan_inv_def nth_list_update)

text \<open>The whole obligation of one step.\<close>

definition log_sent :: "'a effect \<Rightarrow> (nat \<Rightarrow> 'a list) \<Rightarrow> nat \<Rightarrow> 'a list" where
  "log_sent e l = (case e of DidSend c v \<Rightarrow> l(c := l c @ [v]) | _ \<Rightarrow> l)"

definition log_recv :: "'a effect \<Rightarrow> (nat \<Rightarrow> 'a list) \<Rightarrow> nat \<Rightarrow> 'a list" where
  "log_recv e l = (case e of DidRecv c v \<Rightarrow> l(c := l c @ [v]) | _ \<Rightarrow> l)"

definition good_step :: "'a queue \<Rightarrow> nat \<Rightarrow> (nat \<Rightarrow> 'a list) \<Rightarrow> (nat \<Rightarrow> 'a list)
    \<Rightarrow> 'a queue \<times> 'a caller \<times> 'a effect \<Rightarrow> bool" where
  "good_step q e snt rcv out \<longleftrightarrow> (case out of (q', k', eff) \<Rightarrow>
     let e' = (if q_gen q' = q_gen q then e else Suc e) in
     q_cap q' = q_cap q \<and> queue_inv q' e' \<and> queue_le q e q' e' \<and> caller_inv q' e' k' \<and>
     logs_inv q' (log_sent eff snt) (log_recv eff rcv))"

lemma good_step_stay:
  assumes "queue_inv q e" "logs_inv q snt rcv" "caller_inv q e k'"
  shows "good_step q e snt rcv (q, k', NoEffect)"
  using assms by (simp add: good_step_def log_sent_def log_recv_def)

lemma good_step_send:
  assumes q: "queue_inv q e" "logs_inv q snt rcv" and c: "c < length (q_chans q)"
    and s: "chan_send (q_cap q) (q_chans q ! c) v = Sent c'"
  shows "good_step q e snt rcv (q\<lparr>q_chans := (q_chans q)[c := c']\<rparr>, PushReturned None, DidSend c v)"
  using chan_send_Sent [OF s] logs_send [OF q(2) c s] queue_inv_update [OF c _ q(1)] queue_le_update [OF c]
  by (simp add: good_step_def log_sent_def log_recv_def)

lemma good_step_recv:
  assumes q: "queue_inv q e" "logs_inv q snt rcv" and c: "c < length (q_chans q)"
    and s: "chan_recv (q_chans q ! c) = Received v c'"
    and k: "caller_inv (q\<lparr>q_chans := (q_chans q)[c := c']\<rparr>) e k'"
  shows "good_step q e snt rcv (q\<lparr>q_chans := (q_chans q)[c := c']\<rparr>, k', DidRecv c v)"
  using chan_recv_Received [OF s] logs_recv [OF q(2) c s] queue_inv_update [OF c _ q(1)] queue_le_update [OF c] k
  by (simp add: good_step_def log_sent_def log_recv_def)

lemma push_select_good:
  assumes q: "queue_inv q e" "logs_inv q snt rcv" and k: "caller_inv q e (PushSelect v mode c gen)"
    and p: "push_select ch q v mode c gen = Some out"
  shows "good_step q e snt rcv out"
proof -
  from k have c: "c < length (q_chans q)" by simp
  consider (sent) c' where "ch = OnChan" "chan_send (q_cap q) (q_chans q ! c) v = Sent c'"
      "out = (q\<lparr>q_chans := (q_chans q)[c := c']\<rparr>, PushReturned None, DidSend c v)"
    | (panic) "ch = OnChan" "chan_send (q_cap q) (q_chans q ! c) v = SendPanics" "out = (q, PushRecheck v mode gen, NoEffect)"
    | (other) err where "out = (q, PushReturned (Some err), NoEffect)" "err \<noteq> ErrQueueClosed"
    using p by (cases ch; cases mode)
      (auto simp: push_select_def safeQueueSend_def split: send_result.splits if_splits)
  then show ?thesis
  proof cases
    case sent
    with good_step_send [OF q c] show ?thesis by simp
  next
    case panic
    then have "c_closed (q_chans q ! c)" by (auto simp: chan_send_def split: if_splits)
    with k have "caller_inv q e (PushRecheck v mode gen)" by auto
    with good_step_stay [OF q] panic show ?thesis by simp
  next
    case other
    have "caller_inv q e (PushReturned (Some err))" using other by (cases err) auto
    with good_step_stay [OF q] other show ?thesis by simp
  qed
qed

lemma pop_select_good:
  assumes q: "queue_inv q e" "logs_inv q snt rcv" and c: "c < length (q_chans q)"
    and p: "pop_select ch q mode c = Some out"
  shows "good_step q e snt rcv out"
proof -
  consider v c' where "chan_recv (q_chans q ! c) = Received v c'"
      "out = (q\<lparr>q_chans := (q_chans q)[c := c']\<rparr>, PopReturned (Inr v), DidRecv c v)"
    | r where "out = (q, PopReturned r, NoEffect)"
    using p by (auto simp: pop_select_def split: choice.splits recv_result.splits if_splits pop_mode.splits)
  then show ?thesis
    using good_step_recv [OF q c] good_step_stay [OF q] by cases auto
qed

lemma word64_Suc_neq: "(of_nat n :: 64 word) + 1 \<noteq> of_nat n"
  by simp

lemma clear_good:
  assumes q: "queue_inv q e" "logs_inv q snt rcv"
  shows "good_step q e snt rcv (case clear_swap q of (q', k) \<Rightarrow> (q', k, NoEffect))"
proof (cases "q_closed q")
  case True
  with good_step_stay [OF q] show ?thesis by (simp add: clear_swap_def)
next
  case False
  let ?q = "fst (clear_swap q)"
  have q': "queue_inv ?q (Suc e)" "queue_le q e ?q (Suc e)"
    using q(1) False by (auto simp: clear_swap_def queue_inv_def queue_le_def nth_append nth_list_update close_chan_def)
  have "logs_inv ?q snt rcv"
    using q False by (auto simp: clear_swap_def queue_inv_def logs_inv_def chan_inv_def nth_append nth_list_update close_chan_def)
  with q' q(1) False show ?thesis
    by (auto simp: good_step_def clear_swap_def log_sent_def log_recv_def queue_inv_def nth_append
        nth_list_update close_chan_def Let_def)
qed

lemma close_good:
  assumes q: "queue_inv q e" "logs_inv q snt rcv"
  shows "good_step q e snt rcv (queue_Close q, CloseReturned, NoEffect)"
proof (cases "q_closed q")
  case True
  with good_step_stay [OF q] show ?thesis by (simp add: queue_Close_def)
next
  case False
  have "queue_inv (queue_Close q) (Suc e)" "queue_le q e (queue_Close q) (Suc e)"
    using q(1) False by (auto simp: queue_Close_def queue_inv_def queue_le_def nth_list_update close_chan_def)
  moreover have "logs_inv (queue_Close q) snt rcv"
    using q False by (auto simp: queue_Close_def queue_inv_def logs_inv_def chan_inv_def nth_list_update close_chan_def)
  ultimately show ?thesis
    using q(1) False by (auto simp: good_step_def queue_Close_def log_sent_def log_recv_def queue_inv_def Let_def)
qed

lemma tick_good:
  assumes q: "queue_inv q e" "logs_inv q snt rcv" and k: "caller_inv q e k" and t: "tick ch q k = Some out"
  shows "good_step q e snt rcv out"
proof (cases k)
  case (PushEntry v mode)
  with t have "out = (q, PushReturned (Some ErrQueueClosed), NoEffect) \<and> q_closed q \<or>
      out = (q, PushSelect v mode (q_ch q) (q_gen q), NoEffect) \<and> \<not> q_closed q" by (auto split: if_splits)
  moreover have "caller_inv q e (PushSelect v mode (q_ch q) (q_gen q))" if "\<not> q_closed q"
    using q(1) that by (auto simp: queue_inv_def)
  ultimately show ?thesis using good_step_stay [OF q] by auto
next
  case (PushRecheck v mode gen)
  with k obtain n where n: "n < e" "gen = of_nat n" by auto
  with q(1) of_nat64_neq have "e < 2 ^ 64 \<Longrightarrow> q_gen q \<noteq> gen" by (fastforce simp: queue_inv_def)
  then have "caller_inv q e (PushReturned (Some ErrQueueClosed))" if "q_closed q \<or> q_gen q = gen"
    using that by auto
  moreover have "caller_inv q e (PushEntry v mode)" by simp
  moreover from PushRecheck t have "out = (q, PushReturned (Some ErrQueueClosed), NoEffect) \<and> (q_closed q \<or> q_gen q = gen) \<or>
      out = (q, PushEntry v mode, NoEffect)" by (auto simp: Let_def split: if_splits)
  ultimately show ?thesis using good_step_stay [OF q] by blast
next
  case (Draining c acc)
  with k have c: "c < length (q_chans q)" "c_closed (q_chans q ! c)" by auto
  show ?thesis
  proof (cases "chan_recv (q_chans q ! c)")
    case (Received v c')
    with c chan_recv_Received [OF Received]
    have "caller_inv (q\<lparr>q_chans := (q_chans q)[c := c']\<rparr>) e (Draining c (acc @ [v]))" by simp
    with Draining t good_step_recv [OF q c(1) Received] Received show ?thesis by auto
  qed (use Draining t good_step_stay [OF q] in auto)
next
  case (PopEntry mode)
  with t q(1) good_step_stay [OF q] show ?thesis by (auto simp: queue_inv_def split: if_splits)
next
  case ClearEntry
  with t clear_good [OF q] show ?thesis by (auto split: prod.splits)
next
  case (PushSelect v mode c gen)
  with k t push_select_good [OF q] show ?thesis by (metis tick.simps(2))
next
  case (PopSelect mode c)
  with k t pop_select_good [OF q] show ?thesis by auto
next
  case CloseEntry
  with t close_good [OF q] show ?thesis by auto
qed (use t in auto)

lemma qstep_inv [step_inv]:
  assumes inv: "qsys_inv capacity s" and st: "qstep ev s = Some s'"
  shows "qsys_inv capacity s'"
proof (cases ev)
  case (Call t k)
  have "entry_point k \<Longrightarrow> caller_inv (s_queue s) (s_epoch s) k"
    by (cases k) (auto simp: entry_point_def)
  with assms Call show ?thesis by (auto simp: qstep_def qsys_inv_def split: if_splits)
next
  case (Tick t ch)
  with st obtain q k eff where tk: "tick ch (s_queue s) (s_callers s t) = Some (q, k, eff)"
    and s': "s' = log_effect eff (s\<lparr>s_queue := q, s_callers := (s_callers s)(t := k),
                 s_epoch := (if q_gen q = q_gen (s_queue s) then s_epoch s else Suc (s_epoch s))\<rparr>)"
    by (auto simp: qstep_def split: option.splits)
  let ?e = "if q_gen q = q_gen (s_queue s) then s_epoch s else Suc (s_epoch s)"
  have "good_step (s_queue s) (s_epoch s) (s_sent s) (s_recv s) (q, k, eff)"
    using inv tk by (intro tick_good) (auto simp: qsys_inv_def)
  then have g: "q_cap q = q_cap (s_queue s)" "queue_inv q ?e" "queue_le (s_queue s) (s_epoch s) q ?e" "caller_inv q ?e k"
    "logs_inv q (log_sent eff (s_sent s)) (log_recv eff (s_recv s))"
    by (auto simp: good_step_def Let_def)
  have "s_queue s' = q" "s_epoch s' = ?e" "s_callers s' = (s_callers s)(t := k)"
    "s_sent s' = log_sent eff (s_sent s)" "s_recv s' = log_recv eff (s_recv s)"
    unfolding s' by (auto simp: log_effect_def log_sent_def log_recv_def split: effect.splits)
  with g inv caller_inv_mono [OF g(3)] show ?thesis
    by (auto simp: qsys_inv_def)
qed

lemma qreach_inv: "qreach capacity s \<Longrightarrow> qsys_inv capacity s"
proof (induction rule: qreach.induct)
  case init
  show ?case
    by (auto simp: init_qsys_def NewQueue_def qsys_inv_def queue_inv_def logs_inv_def chan_inv_def)
next
  case (step s e s')
  then show ?case by (blast intro: qstep_inv)
qed

subsection \<open>Clearing the queue\<close>

text \<open>The \<open>range\<close> loop over the closed channel: each step takes one item, the last one ends it.\<close>

lemma drain_run:
  assumes "s_callers s t = Draining c acc" "c < length (q_chans (s_queue s))" "c_closed (q_chans (s_queue s) ! c)"
  shows "\<exists>s'. qrun (replicate (Suc (length (c_buf (q_chans (s_queue s) ! c)))) (Tick t OnChan)) s = Some s' \<and>
    s_callers s' t = ClearReturned (acc @ c_buf (q_chans (s_queue s) ! c)) \<and>
    (\<forall>d. d \<noteq> c \<longrightarrow> q_chans (s_queue s') ! d = q_chans (s_queue s) ! d) \<and>
    q_ch (s_queue s') = q_ch (s_queue s) \<and> q_closed (s_queue s') = q_closed (s_queue s)"
  using assms
proof (induction "c_buf (q_chans (s_queue s) ! c)" arbitrary: s acc)
  case Nil
  then have "chan_recv (q_chans (s_queue s) ! c) = RecvClosed" by (simp add: chan_recv_def)
  with Nil show ?case by (simp add: qstep_def log_effect_def)
next
  case (Cons v vs)
  let ?c' = "(q_chans (s_queue s) ! c)\<lparr>c_buf := vs\<rparr>"
  let ?q = "(s_queue s)\<lparr>q_chans := (q_chans (s_queue s))[c := ?c']\<rparr>"
  let ?s1 = "log_effect (DidRecv c v) (s\<lparr>s_queue := ?q, s_callers := (s_callers s)(t := Draining c (acc @ [v]))\<rparr>)"
  have "chan_recv (q_chans (s_queue s) ! c) = Received v ?c'"
    using Cons.hyps(2) [symmetric] by (simp add: chan_recv_def)
  with Cons.prems have st: "qstep (Tick t OnChan) s = Some ?s1" by (simp add: qstep_def)
  have q1: "s_queue ?s1 = ?q" by (simp add: log_effect_def)
  have "\<exists>s'. qrun (replicate (Suc (length (c_buf (q_chans (s_queue ?s1) ! c)))) (Tick t OnChan)) ?s1 = Some s' \<and>
    s_callers s' t = ClearReturned ((acc @ [v]) @ c_buf (q_chans (s_queue ?s1) ! c)) \<and>
    (\<forall>d. d \<noteq> c \<longrightarrow> q_chans (s_queue s') ! d = q_chans (s_queue ?s1) ! d) \<and>
    q_ch (s_queue s') = q_ch (s_queue ?s1) \<and> q_closed (s_queue s') = q_closed (s_queue ?s1)"
    by (rule Cons.hyps(1)) (use Cons.prems in \<open>simp_all add: log_effect_def\<close>)
  then obtain s' where "qrun (replicate (Suc (length vs)) (Tick t OnChan)) ?s1 = Some s'"
    "s_callers s' t = ClearReturned (acc @ v # vs)"
    "\<forall>d. d \<noteq> c \<longrightarrow> q_chans (s_queue s') ! d = q_chans (s_queue s) ! d"
    "q_ch (s_queue s') = q_ch (s_queue s)" "q_closed (s_queue s') = q_closed (s_queue s)"
    using Cons.prems(2) unfolding q1 by auto
  with st Cons.hyps(2) [symmetric] show ?case by simp
qed

lemma clear_run:
  assumes inv: "qsys_inv capacity s" and k: "s_callers s t = ClearEntry" and opn: "\<not> q_closed (s_queue s)"
  shows "\<exists>s'. qrun (replicate (length (c_buf (q_chans (s_queue s) ! q_ch (s_queue s))) + 2) (Tick t OnChan)) s = Some s' \<and>
    s_callers s' t = ClearReturned (c_buf (q_chans (s_queue s) ! q_ch (s_queue s))) \<and>
    c_buf (q_chans (s_queue s') ! q_ch (s_queue s')) = [] \<and> \<not> c_closed (q_chans (s_queue s') ! q_ch (s_queue s')) \<and>
    \<not> q_closed (s_queue s')"
proof -
  let ?q = "s_queue s" and ?c = "q_ch (s_queue s)"
  from inv have c: "?c < length (q_chans ?q)" by (simp add: qsys_inv_def queue_inv_def)
  obtain s1 where st: "qstep (Tick t OnChan) s = Some s1"
    and s1: "s_queue s1 = fst (clear_swap ?q)" "s_callers s1 t = Draining ?c []"
    using k opn by (auto simp: qstep_def clear_swap_def log_effect_def)
  have ch: "q_chans (s_queue s1) ! ?c = close_chan (q_chans ?q ! ?c)" "?c < length (q_chans (s_queue s1))"
    "q_ch (s_queue s1) = length (q_chans ?q)" "q_chans (s_queue s1) ! length (q_chans ?q) = \<lparr>c_buf = [], c_closed = False\<rparr>"
    "\<not> q_closed (s_queue s1)"
    using c opn by (simp_all add: s1 clear_swap_def nth_append)
  then have "c_closed (q_chans (s_queue s1) ! ?c)" by (simp add: close_chan_def)
  from drain_run [OF s1(2) ch(2) this] ch obtain s' where
    "qrun (replicate (Suc (length (c_buf (q_chans ?q ! ?c)))) (Tick t OnChan)) s1 = Some s'"
    "s_callers s' t = ClearReturned (c_buf (q_chans ?q ! ?c))"
    "\<forall>d. d \<noteq> ?c \<longrightarrow> q_chans (s_queue s') ! d = q_chans (s_queue s1) ! d"
    "q_ch (s_queue s') = length (q_chans ?q)" "\<not> q_closed (s_queue s')"
    by (auto simp: close_chan_def)
  with st c ch(4) show ?thesis by auto
qed

subsection \<open>Properties\<close>


definition demo_events :: "nat qevent list" where
  "demo_events = [Call 0 (PushEntry 7 WithTimeout), Tick 0 OnChan, Tick 0 OnChan,
     Call 0 (PushEntry 8 UntilCtx), Tick 0 OnChan, Tick 0 OnChan,
     Call 1 (PopEntry NonBlocking), Tick 1 OnChan, Tick 1 OnChan]"


text \<open>
  Clearing never makes a push fail: as long as fewer than \<open>2 ^ 64\<close> clears have happened, a push that
  returned \<open>ErrQueueClosed\<close> did so because the queue has been closed for good. (A sender caught on a
  channel that was closed under it finds the generation changed and retries on the new channel.)
\<close>

theorem push_closed_means_closed:
  assumes "qreach capacity s" and "s_epoch s < 2 ^ 64"
    and "s_callers s t = PushReturned (Some ErrQueueClosed)"
  shows "q_closed (s_queue s)"
proof -
  from qreach_inv [OF assms(1)] have "caller_inv (s_queue s) (s_epoch s) (s_callers s t)"
    by (simp add: qsys_inv_def)
  with assms(2,3) show ?thesis by simp
qed

theorem push_closed_means_closed_witness:
  "\<exists>s. qrun [Call 0 (CloseEntry :: nat caller), Tick 0 OnChan, Call 1 (PushEntry 3 WithTimeout), Tick 1 OnChan] (init_qsys 4) = Some s \<and>
     s_callers s 1 = PushReturned (Some ErrQueueClosed) \<and> q_closed (s_queue s)"
proof -
  obtain s :: "nat qsys" where r: "qrun [Call 0 CloseEntry, Tick 0 OnChan, Call 1 (PushEntry 3 WithTimeout), Tick 1 OnChan]
        (init_qsys 4) = Some s" "s_callers s 1 = PushReturned (Some ErrQueueClosed)" "s_epoch s < 2 ^ 64"
    by (simp add: qstep_def init_qsys_def NewQueue_def entry_point_def busy_def queue_Close_def log_effect_def)
  from push_closed_means_closed [OF qrun_reach [OF qreach.init r(1)] r(3,2)] r show ?thesis by blast
qed

text \<open>
  \<open>ClearAndDrain\<close> always finishes: a caller that enters it on an open queue and runs on its own
  returns, after one step per buffered item and two more, exactly the buffered items in order, and
  leaves the queue open on an empty channel.
\<close>

theorem clear_and_drain_returns:
  assumes "qreach capacity s" and "s_callers s t = ClearEntry" and "\<not> q_closed (s_queue s)"
  shows "\<exists>s'. qrun (replicate (length (c_buf (q_chans (s_queue s) ! q_ch (s_queue s))) + 2) (Tick t OnChan)) s = Some s' \<and>
    s_callers s' t = ClearReturned (c_buf (q_chans (s_queue s) ! q_ch (s_queue s))) \<and>
    c_buf (q_chans (s_queue s') ! q_ch (s_queue s')) = [] \<and> \<not> c_closed (q_chans (s_queue s') ! q_ch (s_queue s')) \<and>
    \<not> q_closed (s_queue s')"
  using qreach_inv [OF assms(1)] assms(2,3) by (rule clear_run)

theorem clear_and_drain_returns_witness:
  "\<exists>s s'. qrun (demo_events @ [Call 2 ClearEntry]) (init_qsys 4) = Some s \<and>
     qrun [Tick 2 OnChan, Tick 2 OnChan, Tick 2 OnChan] s = Some s' \<and> s_callers s' 2 = ClearReturned [8]"
proof -
  obtain s where r: "qrun (demo_events @ [Call 2 ClearEntry]) (init_qsys 4) = Some s" "s_callers s 2 = ClearEntry"
      "\<not> q_closed (s_queue s)" "c_buf (q_chans (s_queue s) ! q_ch (s_queue s)) = [8]"
    by (simp add: demo_events_def qstep_def init_qsys_def NewQueue_def entry_point_def busy_def push_select_def
        safeQueueSend_def chan_send_def pop_select_def chan_recv_def log_effect_def)
  from clear_and_drain_returns [OF qrun_reach [OF qreach.init r(1)] r(2,3)] r show ?thesis
    by (auto simp: numeral_3_eq_3)
qed

end
