(* ===== verification/ResourcePool.thy ===== *)
theory ResourcePool
  imports Prelude "HOL-Library.AList"
begin

text \<open>
  The generic resource pool of \<open>internal/util/resource_pool.go\<close>, which lends recognisers, language
  models and synthesisers to sessions. The factory that makes, checks, resets and closes resources is
  an interface the pool is given; here it is the record \<open>pool_factory\<close> over its own world \<open>'w\<close>.

  The Go map \<open>resources\<close> is an association list (its length is \<open>len\<close> of the map); a
  \<open>*pooledResource\<close> is named by its resource, which is what the map is keyed by. Critical sections of
  \<open>mu\<close> are atomic functions; \<open>AcquireWithTimeout\<close>, which works between critical sections, is a small
  program (\<open>borrower\<close>) whose steps interleave with everything else in \<open>pstep\<close>.
\<close>

subsection \<open>Configuration, factory, state\<close>

record pool_config =
  MaxSize :: int
  MinSize :: int
  MaxIdle :: int
  AcquireTimeout :: int
  IdleTimeout :: int
  ValidateOnBorrow :: bool
  ValidateOnReturn :: bool

definition DefaultConfig :: pool_config where
  "DefaultConfig = \<lparr>MaxSize = 1000, MinSize = 1, MaxIdle = 5, AcquireTimeout = 30 * 1000000000,
     IdleTimeout = 5 * 60 * 1000000000, ValidateOnBorrow = True, ValidateOnReturn = False\<rparr>"

record ('r, 'w) pool_factory =
  f_create :: "'w \<Rightarrow> 'r option \<times> 'w"
  f_is_valid :: "'r \<Rightarrow> 'w \<Rightarrow> bool"
  f_validate :: "'r \<Rightarrow> 'w \<Rightarrow> bool"
  f_reset :: "'r \<Rightarrow> 'w \<Rightarrow> bool \<times> 'w"
  f_close :: "'r \<Rightarrow> 'w \<Rightarrow> 'w"

record pooled_resource =
  pr_createTime :: instant
  pr_lastUsed :: instant
  pr_inUse :: bool

record 'r resource_pool =
  p_config :: pool_config
  p_available :: "'r list"
  p_chan_cap :: nat
  p_chan_closed :: bool
  p_resources :: "('r \<times> pooled_resource) list"
  p_closed :: bool

datatype pool_error = ErrFactoryNil | ErrMaxSize | ErrMinSize | ErrMinGreater | ErrPreCreate | ErrPoolClosed
  | ErrAcquireTimeout | ErrPoolFull | ErrCreate | ErrNotManaged | ErrNotInUse

definition entry :: "instant \<Rightarrow> bool \<Rightarrow> pooled_resource" where
  "entry now used = \<lparr>pr_createTime = now, pr_lastUsed = now, pr_inUse = used\<rparr>"

subsection \<open>Critical sections\<close>

definition destroyResourceUnsafe :: "('r, 'w) pool_factory \<Rightarrow> 'r \<Rightarrow> 'r resource_pool \<times> 'w \<Rightarrow> 'r resource_pool \<times> 'w" where
  "destroyResourceUnsafe F r pw =
     (case pw of (p, w) \<Rightarrow> (p\<lparr>p_resources := AList.delete r (p_resources p)\<rparr>, f_close F r w))"

definition tryCreateResource :: "('r, 'w) pool_factory \<Rightarrow> instant \<Rightarrow> 'r resource_pool \<times> 'w
    \<Rightarrow> (pool_error + 'r) \<times> 'r resource_pool \<times> 'w" where
  "tryCreateResource F now pw =
     (case pw of (p, w) \<Rightarrow>
        if int (length (p_resources p)) \<ge> MaxSize (p_config p) then (Inl ErrPoolFull, p, w)
        else (case f_create F w of
          (None, w) \<Rightarrow> (Inl ErrCreate, p, w)
        | (Some r, w) \<Rightarrow> (Inr r, p\<lparr>p_resources := AList.update r (entry now True) (p_resources p)\<rparr>, w)))"

text \<open>\<open>preCreateResources\<close>: \<open>n\<close> resources, each sent to the channel of idle ones.\<close>

fun preCreate :: "('r, 'w) pool_factory \<Rightarrow> instant \<Rightarrow> nat \<Rightarrow> 'r resource_pool \<times> 'w
    \<Rightarrow> bool \<times> 'r resource_pool \<times> 'w" where
  "preCreate F now 0 pw = (True, pw)"
| "preCreate F now (Suc n) pw =
     (case pw of (p, w) \<Rightarrow>
        (case f_create F w of
           (None, w) \<Rightarrow> (False, p, w)
         | (Some r, w) \<Rightarrow>
             preCreate F now n (p\<lparr>p_resources := AList.update r (entry now False) (p_resources p),
                                  p_available := p_available p @ [r]\<rparr>, w)))"

definition destroy_all :: "('r, 'w) pool_factory \<Rightarrow> 'r list \<Rightarrow> 'r resource_pool \<times> 'w \<Rightarrow> 'r resource_pool \<times> 'w" where
  "destroy_all F rs pw = fold (destroyResourceUnsafe F) rs pw"

text \<open>\<open>Close\<close>: the first critical section sets the flag, the second closes the channel and destroys what it held, then everything.\<close>

definition close_mark :: "'r resource_pool \<Rightarrow> 'r resource_pool" where
  "close_mark p = p\<lparr>p_closed := True\<rparr>"

definition close_finish :: "('r, 'w) pool_factory \<Rightarrow> 'r resource_pool \<times> 'w \<Rightarrow> 'r resource_pool \<times> 'w" where
  "close_finish F pw =
     (case pw of (p, w) \<Rightarrow>
        let idle = p_available p;
            (p1, w1) = destroy_all F idle (p\<lparr>p_chan_closed := True, p_available := []\<rparr>, w)
        in destroy_all F (map fst (p_resources p1)) (p1, w1))"

definition pool_Close :: "('r, 'w) pool_factory \<Rightarrow> 'r resource_pool \<times> 'w \<Rightarrow> 'r resource_pool \<times> 'w" where
  "pool_Close F pw =
     (case pw of (p, w) \<Rightarrow> if p_closed p then (p, w) else close_finish F (close_mark p, w))"

definition NewResourcePool :: "pool_config option \<Rightarrow> ('r, 'w) pool_factory option \<Rightarrow> instant \<Rightarrow> 'w
    \<Rightarrow> (pool_error + 'r resource_pool) \<times> 'w" where
  "NewResourcePool config factory now w =
     (let config = (case config of None \<Rightarrow> DefaultConfig | Some c \<Rightarrow> c) in
      case factory of
        None \<Rightarrow> (Inl ErrFactoryNil, w)
      | Some F \<Rightarrow>
          if MaxSize config \<le> 0 then (Inl ErrMaxSize, w)
          else if MinSize config < 0 then (Inl ErrMinSize, w)
          else if MinSize config > MaxSize config then (Inl ErrMinGreater, w)
          else
            let pool = \<lparr>p_config = config, p_available = [], p_chan_cap = nat (MaxSize config),
                        p_chan_closed = False, p_resources = [], p_closed = False\<rparr>
            in (case preCreate F now (nat (MinSize config)) (pool, w) of
                  (True, pool, w) \<Rightarrow> (Inr pool, w)
                | (False, pool, w) \<Rightarrow> (case pool_Close F (pool, w) of (_, w) \<Rightarrow> (Inl ErrPreCreate, w))))"

definition Release :: "('r, 'w) pool_factory \<Rightarrow> instant \<Rightarrow> 'r \<Rightarrow> 'r resource_pool \<times> 'w
    \<Rightarrow> (pool_error option) \<times> 'r resource_pool \<times> 'w" where
  "Release F now r pw =
     (case pw of (p, w) \<Rightarrow>
        if p_closed p then (Some ErrPoolClosed, p, w)
        else (case map_of (p_resources p) r of
          None \<Rightarrow> (Some ErrNotManaged, p, w)
        | Some pooled \<Rightarrow>
            if \<not> pr_inUse pooled then (Some ErrNotInUse, p, w)
            else if ValidateOnReturn (p_config p) \<and> (\<not> f_is_valid F r w \<or> \<not> f_validate F r w) then
              (None, destroyResourceUnsafe F r (p, w))
            else if int (length (p_available p)) \<ge> MaxIdle (p_config p) then
              (None, destroyResourceUnsafe F r (p, w))
            else
              let p = p\<lparr>p_resources := AList.update r (pooled\<lparr>pr_inUse := False, pr_lastUsed := now\<rparr>) (p_resources p)\<rparr>
              in if length (p_available p) < p_chan_cap p
                 then (None, p\<lparr>p_available := p_available p @ [r]\<rparr>, w)
                 else (None, destroyResourceUnsafe F r (p, w))))"

text \<open>
  The loop of \<open>Resize\<close>. The \<open>break\<close> of its \<open>default\<close> case leaves the \<open>select\<close>, not the loop: with no
  idle resource left the iteration changes nothing and runs again. \<open>None\<close> is fuel running out.
\<close>

fun resize_loop :: "nat \<Rightarrow> ('r, 'w) pool_factory \<Rightarrow> int \<Rightarrow> 'r resource_pool \<times> 'w \<Rightarrow> ('r resource_pool \<times> 'w) option" where
  "resize_loop 0 F excess pw = None"
| "resize_loop (Suc fuel) F excess pw =
     (if excess > 0 then
        (case pw of (p, w) \<Rightarrow>
           (case p_available p of
              r # rs \<Rightarrow> resize_loop fuel F (excess - 1) (destroyResourceUnsafe F r (p\<lparr>p_available := rs\<rparr>, w))
            | [] \<Rightarrow> resize_loop fuel F excess (p, w)))
      else Some pw)"

definition Resize :: "nat \<Rightarrow> ('r, 'w) pool_factory \<Rightarrow> int \<Rightarrow> 'r resource_pool \<times> 'w
    \<Rightarrow> (pool_error option \<times> 'r resource_pool \<times> 'w) option" where
  "Resize fuel F newMaxSize pw =
     (case pw of (p, w) \<Rightarrow>
        if newMaxSize \<le> 0 then Some (Some ErrMaxSize, p, w)
        else if p_closed p then Some (Some ErrPoolClosed, p, w)
        else
          let oldMaxSize = MaxSize (p_config p);
              p = p\<lparr>p_config := (p_config p)\<lparr>MaxSize := newMaxSize\<rparr>\<rparr>
          in if newMaxSize < oldMaxSize then
               (case resize_loop fuel F (int (length (p_resources p)) - newMaxSize) (p, w) of
                  None \<Rightarrow> None | Some (p, w) \<Rightarrow> Some (None, p, w))
             else Some (None, p, w))"

text \<open>
  \<open>cleanupIdleResources\<close>: expired resources are taken off the front of the channel; the first one that is
  still fresh is sent to its back and ends the scan.
\<close>

fun cleanup_scan :: "instant \<Rightarrow> int \<Rightarrow> ('r \<rightharpoonup> pooled_resource) \<Rightarrow> 'r list \<Rightarrow> 'r list \<Rightarrow> 'r list \<times> 'r list" where
  "cleanup_scan now idle look [] removed = ([], removed)"
| "cleanup_scan now idle look (r # rs) removed =
     (case look r of
        Some pooled \<Rightarrow>
          if now - pr_lastUsed pooled > idle then cleanup_scan now idle look rs (removed @ [r])
          else (rs @ [r], removed)
      | None \<Rightarrow> (rs @ [r], removed))"

definition cleanupIdleResources :: "('r, 'w) pool_factory \<Rightarrow> instant \<Rightarrow> 'r resource_pool \<times> 'w \<Rightarrow> 'r resource_pool \<times> 'w" where
  "cleanupIdleResources F now pw =
     (case pw of (p, w) \<Rightarrow>
        if p_closed p then (p, w)
        else case cleanup_scan now (IdleTimeout (p_config p)) (map_of (p_resources p)) (p_available p) [] of
          (avail, toRemove) \<Rightarrow> destroy_all F toRemove (p\<lparr>p_available := avail\<rparr>, w))"

record pool_stats =
  total_resources :: nat
  available_resources :: nat
  in_use_resources :: nat
  max_size :: int
  min_size :: int
  max_idle :: int
  is_closed :: bool

definition pool_Stats :: "'r resource_pool \<Rightarrow> pool_stats" where
  "pool_Stats p = \<lparr>total_resources = length (p_resources p), available_resources = length (p_available p),
     in_use_resources = length (filter (\<lambda>(_, e). pr_inUse e) (p_resources p)),
     max_size = MaxSize (p_config p), min_size = MinSize (p_config p), max_idle = MaxIdle (p_config p),
     is_closed = p_closed p\<rparr>"

subsection \<open>Borrowers\<close>

datatype 'r borrower =
    AcqCheck
  | AcqTop
  | AcqGot 'r
  | AcqReplace
  | AcqMark 'r
  | Holding 'r
  | BorrowIdle
  | BorrowFailed pool_error
  | Panicked

datatype acq_choice = ChooseDone | ChooseAvail | ChooseDefault

text \<open>
  One step of \<open>AcquireWithTimeout\<close>. A receive from the closed and drained channel yields a nil
  \<open>*pooledResource\<close>, whose field the next statement reads.
\<close>

fun acquire_step :: "('r, 'w) pool_factory \<Rightarrow> instant \<Rightarrow> acq_choice \<Rightarrow> 'r borrower \<Rightarrow> 'r resource_pool \<times> 'w
    \<Rightarrow> ('r borrower \<times> 'r resource_pool \<times> 'w) option" where
  "acquire_step F now ch AcqCheck (p, w) =
     Some (if p_closed p then BorrowFailed ErrPoolClosed else AcqTop, p, w)"
| "acquire_step F now ch AcqTop (p, w) =
     (case ch of
        ChooseDone \<Rightarrow> Some (BorrowFailed ErrAcquireTimeout, p, w)
      | ChooseAvail \<Rightarrow>
          (case p_available p of
             r # rs \<Rightarrow> Some (AcqGot r, p\<lparr>p_available := rs\<rparr>, w)
           | [] \<Rightarrow> if p_chan_closed p then Some (Panicked, p, w) else None)
      | ChooseDefault \<Rightarrow>
          if p_available p \<noteq> [] \<or> p_chan_closed p then None
          else (case tryCreateResource F now (p, w) of
             (Inr r, pw) \<Rightarrow> Some (Holding r, pw)
           | (Inl _, pw) \<Rightarrow> Some (AcqTop, pw)))"
| "acquire_step F now ch (AcqGot r) (p, w) =
     (if ValidateOnBorrow (p_config p) \<and> (\<not> f_is_valid F r w \<or> \<not> f_validate F r w) then
        Some (AcqReplace, destroyResourceUnsafe F r (p, w))
      else (case f_reset F r w of
          (False, w) \<Rightarrow> Some (AcqTop, destroyResourceUnsafe F r (p, w))
        | (True, w) \<Rightarrow> Some (AcqMark r, p, w)))"
| "acquire_step F now ch AcqReplace (p, w) =
     (case tryCreateResource F now (p, w) of
        (Inr r, pw) \<Rightarrow> Some (Holding r, pw)
      | (Inl _, pw) \<Rightarrow> Some (AcqTop, pw))"
| "acquire_step F now ch (AcqMark r) (p, w) =
     Some (Holding r,
       p\<lparr>p_resources := (case map_of (p_resources p) r of
            Some e \<Rightarrow> AList.update r (e\<lparr>pr_inUse := True, pr_lastUsed := now\<rparr>) (p_resources p)
          | None \<Rightarrow> p_resources p)\<rparr>, w)"
| "acquire_step F now ch _ pw = None"

record ('r, 'w) psys =
  ps_pool :: "'r resource_pool"
  ps_world :: 'w
  ps_who :: "nat \<Rightarrow> 'r borrower"

datatype pool_event = EvAcquire nat | EvStep nat acq_choice | EvRelease nat | EvCleanup | EvResize nat int
  | EvCloseMark | EvCloseFinish

text \<open>
  Only a borrower that holds a resource releases it, and then no longer holds it. \<open>EvResize\<close> is a call of
  \<open>Resize\<close> that returned within so many iterations. The two events of \<open>Close\<close> are its critical sections:
  the wait for the cleanup goroutine lies between them.
\<close>

definition pstep :: "('r, 'w) pool_factory \<Rightarrow> instant \<Rightarrow> pool_event \<Rightarrow> ('r, 'w) psys \<Rightarrow> ('r, 'w) psys option" where
  "pstep F now ev s =
     (case ev of
        EvAcquire t \<Rightarrow>
          (case ps_who s t of
             BorrowIdle \<Rightarrow> Some (s\<lparr>ps_who := (ps_who s)(t := AcqCheck)\<rparr>)
           | BorrowFailed _ \<Rightarrow> Some (s\<lparr>ps_who := (ps_who s)(t := AcqCheck)\<rparr>)
           | _ \<Rightarrow> None)
      | EvStep t ch \<Rightarrow>
          (case acquire_step F now ch (ps_who s t) (ps_pool s, ps_world s) of
             None \<Rightarrow> None
           | Some (k, p, w) \<Rightarrow> Some \<lparr>ps_pool = p, ps_world = w, ps_who = (ps_who s)(t := k)\<rparr>)
      | EvRelease t \<Rightarrow>
          (case ps_who s t of
             Holding r \<Rightarrow>
               (case Release F now r (ps_pool s, ps_world s) of
                  (_, p, w) \<Rightarrow> Some \<lparr>ps_pool = p, ps_world = w, ps_who = (ps_who s)(t := BorrowIdle)\<rparr>)
           | _ \<Rightarrow> None)
      | EvCleanup \<Rightarrow>
          (case cleanupIdleResources F now (ps_pool s, ps_world s) of
             (p, w) \<Rightarrow> Some (s\<lparr>ps_pool := p, ps_world := w\<rparr>))
      | EvResize fuel n \<Rightarrow>
          (case Resize fuel F n (ps_pool s, ps_world s) of
             None \<Rightarrow> None
           | Some (_, p, w) \<Rightarrow> Some (s\<lparr>ps_pool := p, ps_world := w\<rparr>))
      | EvCloseMark \<Rightarrow> Some (s\<lparr>ps_pool := close_mark (ps_pool s)\<rparr>)
      | EvCloseFinish \<Rightarrow>
          if p_closed (ps_pool s) \<and> \<not> p_chan_closed (ps_pool s) then
            (case close_finish F (ps_pool s, ps_world s) of (p, w) \<Rightarrow> Some (s\<lparr>ps_pool := p, ps_world := w\<rparr>))
          else None)"

fun prun :: "('r, 'w) pool_factory \<Rightarrow> (instant \<times> pool_event) list \<Rightarrow> ('r, 'w) psys \<Rightarrow> ('r, 'w) psys option" where
  "prun F [] s = Some s"
| "prun F ((now, ev) # es) s = (case pstep F now ev s of None \<Rightarrow> None | Some s' \<Rightarrow> prun F es s')"


subsection \<open>The factory contract\<close>

text \<open>What the pool relies on: \<open>Create\<close> returns a resource nobody has seen, and nothing forgets that a resource was made.\<close>

locale factory_laws =
  fixes F :: "('r, 'w) pool_factory" and made :: "'w \<Rightarrow> 'r set"
  assumes create_fresh: "f_create F w = (Some r, w') \<Longrightarrow> r \<notin> made w \<and> r \<in> made w'"
    and create_mono: "f_create F w = (res, w') \<Longrightarrow> made w \<subseteq> made w'"
    and reset_mono: "f_reset F r w = (ok, w') \<Longrightarrow> made w \<subseteq> made w'"
    and close_mono: "made w \<subseteq> made (f_close F r w)"

fun claims :: "'r borrower \<Rightarrow> 'r option" where
  "claims (AcqGot r) = Some r"
| "claims (AcqMark r) = Some r"
| "claims (Holding r) = Some r"
| "claims _ = None"

text \<open>
  Who has what: idle resources are managed, unused and claimed by nobody; no resource has two
  claimants; while the channel is open a claimed resource is managed, and marked in use exactly when its claimant
  holds it; while the pool is open every managed resource is idle or claimed.
\<close>

definition pool_own :: "'r set \<Rightarrow> bool \<Rightarrow> bool \<Rightarrow> ('r \<rightharpoonup> pooled_resource) \<Rightarrow> 'r set \<Rightarrow> (nat \<Rightarrow> 'r borrower) \<Rightarrow> bool" where
  "pool_own Md closed shut M A C \<longleftrightarrow>
     (\<forall>r\<in>A. \<exists>e. M r = Some e \<and> \<not> pr_inUse e) \<and>
     (\<forall>t r. claims (C t) = Some r \<longrightarrow> r \<notin> A \<and> r \<in> Md) \<and>
     (\<forall>t r. claims (C t) = Some r \<longrightarrow> \<not> closed \<longrightarrow> (\<exists>e. M r = Some e \<and> pr_inUse e = (C t = Holding r))) \<and>
     (\<forall>t u r. claims (C t) = Some r \<longrightarrow> claims (C u) = Some r \<longrightarrow> t = u) \<and>
     dom M \<subseteq> Md \<and>
     (\<not> shut \<longrightarrow> (\<forall>r\<in>dom M. r \<in> A \<or> (\<exists>t. claims (C t) = Some r)))"

text \<open>The pool invariant adds that the pool and the channel stay within their sizes.\<close>

definition pool_inv :: "('w \<Rightarrow> 'r set) \<Rightarrow> 'r resource_pool \<Rightarrow> 'w \<Rightarrow> (nat \<Rightarrow> 'r borrower) \<Rightarrow> bool" where
  "pool_inv made p w C \<longleftrightarrow>
     pool_own (made w) (p_chan_closed p) (p_closed p) (map_of (p_resources p)) (set (p_available p)) C \<and>
     distinct (map fst (p_resources p)) \<and> distinct (p_available p) \<and>
     int (length (p_resources p)) \<le> MaxSize (p_config p) \<and> length (p_available p) \<le> p_chan_cap p \<and>
     (p_chan_closed p \<longrightarrow> p_closed p \<and> p_available p = [])"

subsection \<open>Association-list facts\<close>

lemma map_of_alist_delete: "map_of (AList.delete k xs) = (map_of xs)(k := None)"
  by (rule delete_conv')

lemma map_of_alist_update: "map_of (AList.update k v xs) = (map_of xs)(k \<mapsto> v)"
  by (rule update_conv')

lemma keys_alist_delete: "fst ` set (AList.delete k xs) = fst ` set xs - {k}"
  using delete_keys [of k xs] by (metis (no_types, lifting) image_set set_removeAll removeAll_filter_not_eq)

lemma keys_alist_update: "fst ` set (AList.update k v xs) = insert k (fst ` set xs)"
  by (simp add: dom_map_of_conv_image_fst [symmetric] map_of_alist_update)

lemma length_alist_update:
  "length (AList.update k v xs) = (if k \<in> fst ` set xs then length xs else Suc (length xs))"
  by (induction xs) auto

lemma length_alist_delete:
  "distinct (map fst xs) \<Longrightarrow> k \<in> fst ` set xs \<Longrightarrow> Suc (length (AList.delete k xs)) = length xs"
proof (induction xs)
  case (Cons x xs)
  then show ?case
    by (cases "fst x = k") (auto simp: AList.delete_eq filter_id_conv image_iff split_def)
qed simp

lemma length_alist_delete_le: "length (AList.delete k xs) \<le> length xs"
  by (simp add: AList.delete_eq)

lemmas alist_facts = map_of_alist_delete map_of_alist_update keys_alist_delete keys_alist_update
  distinct_update distinct_delete


subsection \<open>The primitive changes keep the invariant\<close>

lemma pool_ownI:
  assumes "\<And>r. r \<in> A \<Longrightarrow> \<exists>e. M r = Some e \<and> \<not> pr_inUse e"
    and "\<And>t r. claims (C t) = Some r \<Longrightarrow> r \<notin> A"
    and "\<And>t r. claims (C t) = Some r \<Longrightarrow> r \<in> Md"
    and "\<And>t r. claims (C t) = Some r \<Longrightarrow> \<not> closed \<Longrightarrow> \<exists>e. M r = Some e \<and> pr_inUse e = (C t = Holding r)"
    and "\<And>t u r. claims (C t) = Some r \<Longrightarrow> claims (C u) = Some r \<Longrightarrow> t = u"
    and "\<And>r e. M r = Some e \<Longrightarrow> r \<in> Md"
    and "\<And>r e. \<not> shut \<Longrightarrow> M r = Some e \<Longrightarrow> r \<notin> A \<Longrightarrow> \<exists>t. claims (C t) = Some r"
  shows "pool_own Md closed shut M A C"
  unfolding pool_own_def using assms by (intro conjI) (blast | (auto; fail))+

lemma pool_ownD:
  assumes "pool_own Md closed shut M A C"
  shows pool_own_idle: "r \<in> A \<Longrightarrow> \<exists>e. M r = Some e \<and> \<not> pr_inUse e"
    and pool_own_away: "claims (C t) = Some r \<Longrightarrow> r \<notin> A"
    and pool_own_made: "claims (C t) = Some r \<Longrightarrow> r \<in> Md"
    and pool_own_entry: "claims (C t) = Some r \<Longrightarrow> \<not> closed \<Longrightarrow> \<exists>e. M r = Some e \<and> pr_inUse e = (C t = Holding r)"
    and pool_own_unique: "claims (C t) = Some r \<Longrightarrow> claims (C u) = Some r \<Longrightarrow> t = u"
    and pool_own_keys: "M r = Some e \<Longrightarrow> r \<in> Md"
    and pool_own_cover: "\<not> shut \<Longrightarrow> M r = Some e \<Longrightarrow> r \<notin> A \<Longrightarrow> \<exists>t. claims (C t) = Some r"
  using assms unfolding pool_own_def by blast+

lemma claims_upd: "claims ((C(t := k)) u) = (if u = t then claims k else claims (C u))"
  by simp

lemma ex_claim_upd: "\<exists>u. claims (C u) = Some r \<Longrightarrow> claims (C t) \<noteq> Some r \<Longrightarrow> \<exists>u. claims ((C(t := k)) u) = Some r"
  by (metis fun_upd_other)

lemma ex_claim_new: "claims k = Some r \<Longrightarrow> \<exists>u. claims ((C(t := k)) u) = Some r"
  by (metis fun_upd_same)

lemma pool_own_world: "pool_own Md closed shut M A C \<Longrightarrow> Md \<subseteq> Md' \<Longrightarrow> pool_own Md' closed shut M A C"
  unfolding pool_own_def by blast

lemma pool_own_take:
  assumes own: "pool_own Md closed shut M A C" and r: "r \<in> A" and t: "claims (C t) = None"
  shows "pool_own Md closed shut M (A - {r}) (C(t := AcqGot r))"
proof (rule pool_ownI)
  show "\<exists>u. claims ((C(t := AcqGot r)) u) = Some x"
    if "\<not> shut" "M x = Some e" "x \<notin> A - {r}" for x e
    using that pool_own_cover [OF own] t ex_claim_upd [of C x t "AcqGot r"] ex_claim_new [of "AcqGot r" x C t] by (cases "x = r") auto
  show "x \<in> Md" if "claims ((C(t := AcqGot r)) u) = Some x" for x u
    using that r pool_own_idle [OF own r] pool_own_keys [OF own] pool_own_made [OF own] by (auto split: if_splits)
qed (use r t pool_ownD [OF own] in \<open>auto split: if_splits\<close>)

lemma pool_own_forget:
  assumes own: "pool_own Md closed shut M A C" and t: "claims (C t) = None" "claims k = None"
  shows "pool_own Md closed shut M A (C(t := k))"
proof (rule pool_ownI)
  show "\<exists>u. claims ((C(t := k)) u) = Some x" if "\<not> shut" "M x = Some e" "x \<notin> A" for x e
    using that pool_own_cover [OF own] t ex_claim_upd [of C x t k] by auto
qed (use t pool_ownD [OF own] in \<open>auto split: if_splits\<close>)

lemma pool_own_destroy:
  assumes own: "pool_own Md closed shut M A C" and t: "claims (C t) = Some r" "claims k = None"
  shows "pool_own Md closed shut (M(r := None)) A (C(t := k))"
proof (rule pool_ownI)
  show "\<exists>u. claims ((C(t := k)) u) = Some x" if "\<not> shut" "(M(r := None)) x = Some e" "x \<notin> A" for x e
    using that pool_own_cover [OF own] t ex_claim_upd [of C x t k] by (auto split: if_splits)
  show "\<exists>e. (M(r := None)) x = Some e \<and> pr_inUse e = ((C(t := k)) u = Holding x)"
    if "claims ((C(t := k)) u) = Some x" "\<not> closed" for u x
    using that t pool_own_entry [OF own] pool_own_unique [OF own] by (auto split: if_splits)
qed (use t pool_ownD [OF own] in \<open>auto split: if_splits\<close>)

lemma pool_own_discard:
  assumes own: "pool_own Md closed shut M A C" and r: "r \<in> A"
  shows "pool_own Md closed shut (M(r := None)) (A - {r}) C"
proof (rule pool_ownI)
  show "\<exists>u. claims (C u) = Some x" if "\<not> shut" "(M(r := None)) x = Some e" "x \<notin> A - {r}" for x e
    using that pool_own_cover [OF own] by (auto split: if_splits)
  show "\<exists>e. (M(r := None)) x = Some e \<and> pr_inUse e = (C u = Holding x)"
    if "claims (C u) = Some x" "\<not> closed" for u x
    using that r pool_own_entry [OF own] pool_own_away [OF own] by auto
qed (use r pool_ownD [OF own] in \<open>auto split: if_splits\<close>)

lemma pool_own_create:
  assumes own: "pool_own Md closed shut M A C" and t: "claims (C t) = None" and fresh: "r \<notin> Md"
    and e: "pr_inUse e"
  shows "pool_own (insert r Md) closed shut (M(r \<mapsto> e)) A (C(t := Holding r))"
proof (rule pool_ownI)
  have new: "M r = None" "r \<notin> A" "\<And>u. claims (C u) \<noteq> Some r"
    using fresh pool_own_keys [OF own] pool_own_idle [OF own] pool_own_made [OF own] by fastforce+
  show "\<exists>u. claims ((C(t := Holding r)) u) = Some x" if "\<not> shut" "(M(r \<mapsto> e)) x = Some e'" "x \<notin> A" for x e'
    using that pool_own_cover [OF own] t ex_claim_upd [of C x t "Holding r"] ex_claim_new [of "Holding r" x C t]
    by (cases "x = r") auto
  show "\<exists>e'. (M(r \<mapsto> e)) x = Some e' \<and> pr_inUse e' = ((C(t := Holding r)) u = Holding x)"
    if "claims ((C(t := Holding r)) u) = Some x" "\<not> closed" for u x
    using that e new pool_own_entry [OF own] by (auto split: if_splits)
  show "\<exists>e'. (M(r \<mapsto> e)) x = Some e' \<and> \<not> pr_inUse e'" if "x \<in> A" for x
    using that new pool_own_idle [OF own] by auto
  show "x \<notin> A" if "claims ((C(t := Holding r)) u) = Some x" for u x
    using that new pool_own_away [OF own] by (auto split: if_splits)
  show "u = v" if "claims ((C(t := Holding r)) u) = Some x" "claims ((C(t := Holding r)) v) = Some x" for u v x
    using that new t pool_own_unique [OF own] by (auto split: if_splits)
qed (use pool_ownD [OF own] in \<open>auto split: if_splits\<close>)

lemma pool_own_add_idle:
  assumes own: "pool_own Md closed shut M A C" and fresh: "r \<notin> Md" and e: "\<not> pr_inUse e"
  shows "pool_own (insert r Md) closed shut (M(r \<mapsto> e)) (insert r A) C"
proof (rule pool_ownI)
  have new: "M r = None" "r \<notin> A" "\<And>u. claims (C u) \<noteq> Some r"
    using fresh pool_own_keys [OF own] pool_own_idle [OF own] pool_own_made [OF own] by fastforce+
  show "\<exists>e'. (M(r \<mapsto> e)) x = Some e' \<and> pr_inUse e' = (C u = Holding x)"
    if "claims (C u) = Some x" "\<not> closed" for u x
    using that new pool_own_entry [OF own] by (auto split: if_splits)
  show "x \<notin> insert r A" if "claims (C u) = Some x" for u x
    using that new pool_own_away [OF own] by auto
qed (use e pool_ownD [OF own] in \<open>auto split: if_splits\<close>)

lemma pool_own_mark:
  assumes own: "pool_own Md closed shut M A C" and t: "C t = AcqMark r" and e: "pr_inUse e"
    and M': "M' = (if M r = None then M else M(r \<mapsto> e))"
  shows "pool_own Md closed shut M' A (C(t := Holding r))"
proof (rule pool_ownI)
  have ct: "claims (C t) = Some r" using t by simp
  show "\<exists>u. claims ((C(t := Holding r)) u) = Some x" if "\<not> shut" "M' x = Some e'" "x \<notin> A" for x e'
    using that pool_own_cover [OF own] ct M' ex_claim_upd [of C x t "Holding r"] ex_claim_new [of "Holding r" x C t]
    by (cases "x = r") (auto split: if_splits)
  show "\<exists>e'. M' x = Some e' \<and> pr_inUse e' = ((C(t := Holding r)) u = Holding x)"
    if "claims ((C(t := Holding r)) u) = Some x" "\<not> closed" for u x
    using that e ct M' pool_own_entry [OF own, of t r] pool_own_entry [OF own, of u x] pool_own_unique [OF own]
    by (auto split: if_splits)
  show "\<exists>e'. M' x = Some e' \<and> \<not> pr_inUse e'" if "x \<in> A" for x
    using that M' pool_own_away [OF own ct] pool_own_idle [OF own] by auto
  show "u = v" if "claims ((C(t := Holding r)) u) = Some x" "claims ((C(t := Holding r)) v) = Some x" for u v x
    using that ct pool_own_unique [OF own] by (auto split: if_splits)
  show "x \<notin> A" "x \<in> Md" if "claims ((C(t := Holding r)) u) = Some x" for u x
    using that ct pool_own_away [OF own] pool_own_made [OF own] by (auto split: if_splits)
  show "x \<in> Md" if "M' x = Some e'" for x e'
    using that M' pool_own_keys [OF own] by (auto split: if_splits)
qed

lemma pool_own_pass:
  assumes own: "pool_own Md closed shut M A C" and t: "C t = AcqGot r"
  shows "pool_own Md closed shut M A (C(t := AcqMark r))"
proof -
  have same: "claims ((C(t := AcqMark r)) u) = claims (C u)" "((C(t := AcqMark r)) u = Holding x) = (C u = Holding x)" for u x
    using t by auto
  show ?thesis using own unfolding pool_own_def same .
qed

lemma pool_own_drop:
  assumes own: "pool_own Md closed True M A C" and k: "claims k = None"
  shows "pool_own Md closed True M A (C(t := k))"
  by (rule pool_ownI) (use k pool_ownD [OF own] in \<open>auto split: if_splits\<close>)

lemma pool_own_give_back:
  assumes own: "pool_own Md False False M A C" and t: "C t = Holding r" and e: "\<not> pr_inUse e"
  shows "pool_own Md False False (M(r \<mapsto> e)) (insert r A) (C(t := BorrowIdle))"
proof (rule pool_ownI)
  have ct: "claims (C t) = Some r" using t by simp
  show "\<exists>u. claims ((C(t := BorrowIdle)) u) = Some x" if "\<not> False" "(M(r \<mapsto> e)) x = Some e'" "x \<notin> insert r A" for x e'
    using that pool_own_cover [OF own, of x] ct by (intro ex_claim_upd) auto
  show "\<exists>e'. (M(r \<mapsto> e)) x = Some e' \<and> pr_inUse e' = ((C(t := BorrowIdle)) u = Holding x)"
    if "claims ((C(t := BorrowIdle)) u) = Some x" "\<not> False" for u x
    using that ct pool_own_entry [OF own] pool_own_unique [OF own] by (auto split: if_splits)
  show "\<exists>e'. (M(r \<mapsto> e)) x = Some e' \<and> \<not> pr_inUse e'" if "x \<in> insert r A" for x
    using that e pool_own_idle [OF own] by auto
  show "x \<notin> insert r A" if "claims ((C(t := BorrowIdle)) u) = Some x" for u x
    using that ct pool_own_away [OF own] pool_own_unique [OF own] by (auto split: if_splits)
  show "x \<in> Md" if "(M(r \<mapsto> e)) x = Some e'" for x e'
    using that ct pool_own_keys [OF own] pool_own_made [OF own] by (auto split: if_splits)
qed (use pool_ownD [OF own] in \<open>auto split: if_splits\<close>)


subsection \<open>The pool operations keep the invariant\<close>

lemma pool_invD:
  assumes "pool_inv made p w C"
  shows pool_inv_own: "pool_own (made w) (p_chan_closed p) (p_closed p) (map_of (p_resources p)) (set (p_available p)) C"
    and pool_inv_keys: "distinct (map fst (p_resources p))"
    and pool_inv_avail: "distinct (p_available p)"
    and pool_inv_size: "int (length (p_resources p)) \<le> MaxSize (p_config p)"
    and pool_inv_cap: "length (p_available p) \<le> p_chan_cap p"
    and pool_inv_closed: "p_chan_closed p \<Longrightarrow> p_closed p \<and> p_available p = []"
  using assms unfolding pool_inv_def by auto

lemma pool_inv_in_map:
  assumes "pool_inv made p w C" and "claims (C t) = Some r" and "\<not> p_chan_closed p"
  obtains e where "map_of (p_resources p) r = Some e" "pr_inUse e = (C t = Holding r)"
  using pool_own_entry [OF pool_inv_own [OF assms(1)] assms(2,3)] by blast

lemma pool_inv_world: "pool_inv made p w C \<Longrightarrow> made w \<subseteq> made w' \<Longrightarrow> pool_inv made p w' C"
  by (auto simp: pool_inv_def intro: pool_own_world)

lemma pool_inv_closing: "pool_inv made p w C \<Longrightarrow> pool_inv made (p\<lparr>p_closed := True\<rparr>) w C"
  by (auto simp: pool_inv_def pool_own_def)

lemma pool_inv_reorder:
  "pool_inv made p w C \<Longrightarrow> set xs = set (p_available p) \<Longrightarrow> distinct xs \<Longrightarrow> length xs = length (p_available p)
    \<Longrightarrow> pool_inv made (p\<lparr>p_available := xs\<rparr>) w C"
  by (auto simp: pool_inv_def)

lemma int_length_delete_le: "int (length xs) \<le> n \<Longrightarrow> int (length (AList.delete k xs)) \<le> n"
  using length_alist_delete_le [of k xs] by linarith

lemma destroy_all_avail:
  "destroy_all F xs (p, w) = (p', w') \<Longrightarrow>
     destroy_all F xs (p\<lparr>p_available := ys\<rparr>, w) = (p'\<lparr>p_available := ys\<rparr>, w')"
proof (induction xs arbitrary: p w)
  case (Cons x xs)
  let ?p = "p\<lparr>p_resources := AList.delete x (p_resources p)\<rparr>"
  have "destroy_all F xs (?p, f_close F x w) = (p', w')"
    using Cons.prems by (simp add: destroy_all_def destroyResourceUnsafe_def)
  from Cons.IH [OF this] have "destroy_all F xs (?p\<lparr>p_available := ys\<rparr>, f_close F x w) = (p'\<lparr>p_available := ys\<rparr>, w')" .
  moreover have "?p\<lparr>p_available := ys\<rparr> = p\<lparr>p_available := ys, p_resources := AList.delete x (p_resources p)\<rparr>"
    by (cases p) simp
  ultimately show ?case by (simp add: destroy_all_def destroyResourceUnsafe_def)
qed (simp add: destroy_all_def)

context factory_laws
begin

lemma pool_inv_destroy:
  assumes inv: "pool_inv made p w C" and t: "claims (C t) = Some r" "claims k = None"
    and d: "destroyResourceUnsafe F r (p, w) = (p', w')"
  shows "pool_inv made p' w' (C(t := k))"
  using pool_invD [OF inv] d pool_own_world [OF pool_own_destroy [OF pool_inv_own [OF inv] t] close_mono [of w r]]
  by (auto simp: pool_inv_def destroyResourceUnsafe_def alist_facts int_length_delete_le)

lemma pool_inv_discard:
  assumes inv: "pool_inv made p w C" and av: "p_available p = r # rs"
    and d: "destroyResourceUnsafe F r (p\<lparr>p_available := rs\<rparr>, w) = (p', w')"
  shows "pool_inv made p' w' C \<and> p_available p' = rs \<and> p_config p' = p_config p
    \<and> Suc (length (p_resources p')) = length (p_resources p) \<and> p_closed p' = p_closed p"
proof -
  have r: "r \<in> set (p_available p)" "r \<notin> set rs" using av pool_inv_avail [OF inv] by auto
  have A: "set (p_available p) - {r} = set rs" using av r by auto
  have mem: "r \<in> fst ` set (p_resources p)"
    using pool_own_idle [OF pool_inv_own [OF inv] r(1)] by (force dest: map_of_SomeD)
  show ?thesis
    using pool_invD [OF inv] d av A pool_own_world [OF pool_own_discard [OF pool_inv_own [OF inv] r(1)] close_mono [of w r]]
      length_alist_delete [OF pool_inv_keys [OF inv] mem]
    by (auto simp: pool_inv_def destroyResourceUnsafe_def alist_facts int_length_delete_le)
qed

lemma pool_inv_tryCreate:
  assumes inv: "pool_inv made p w C" and t: "claims (C t) = None"
    and c: "tryCreateResource F now (p, w) = (res, p', w')"
  shows "case res of Inr r \<Rightarrow> pool_inv made p' w' (C(t := Holding r))
                   | Inl _ \<Rightarrow> p' = p \<and> pool_inv made p w' C"
proof (cases "int (length (p_resources p)) \<ge> MaxSize (p_config p)")
  case True then show ?thesis using c inv by (auto simp: tryCreateResource_def)
next
  case room: False
  obtain mr w1 where cr: "f_create F w = (mr, w1)" by (cases "f_create F w")
  show ?thesis
  proof (cases mr)
    case None
    then show ?thesis using c room cr create_mono [OF cr] inv
      by (auto simp: tryCreateResource_def pool_inv_def intro: pool_own_world)
  next
    case (Some r)
    note fr = create_fresh [OF cr [unfolded Some]] create_mono [OF cr]
    have own: "pool_own (made w1) (p_chan_closed p) (p_closed p) ((map_of (p_resources p))(r \<mapsto> entry now True))
        (set (p_available p)) (C(t := Holding r))"
      using fr by (intro pool_own_world [OF pool_own_create [OF pool_inv_own [OF inv] t]]) (auto simp: entry_def)
    have "r \<notin> fst ` set (p_resources p)"
      using fr pool_own_keys [OF pool_inv_own [OF inv]] by (metis map_of_eq_None_iff not_None_eq)
    then show ?thesis using c room cr Some own pool_invD [OF inv]
      by (auto simp: tryCreateResource_def pool_inv_def alist_facts length_alist_update)
  qed
qed

lemma pool_inv_acquire:
  assumes inv: "pool_inv made p w C" and st: "acquire_step F now ch (C t) (p, w) = Some (k, p', w')"
  shows "pool_inv made p' w' (C(t := k))"
proof (cases "C t")
  case AcqCheck
  then show ?thesis using st inv by (auto simp: pool_inv_def intro!: pool_own_forget)
next
  case AcqTop
  then have t: "claims (C t) = None" by simp
  show ?thesis
  proof (cases ch)
    case ChooseDone
    then show ?thesis using st inv AcqTop t by (auto simp: pool_inv_def intro!: pool_own_forget)
  next
    case ChooseAvail
    show ?thesis
    proof (cases "p_available p")
      case Nil
      then show ?thesis using st inv AcqTop ChooseAvail t
        by (auto simp: pool_inv_def split: if_splits intro!: pool_own_forget)
    next
      case (Cons r rs)
      then have "set (p_available p) - {r} = set rs" using pool_inv_avail [OF inv] by auto
      then show ?thesis using st inv AcqTop ChooseAvail Cons pool_own_take [OF pool_inv_own [OF inv] _ t, of r]
        by (auto simp: pool_inv_def)
    qed
  next
    case ChooseDefault
    obtain res p1 w1 where c: "tryCreateResource F now (p, w) = (res, p1, w1)" by (cases "tryCreateResource F now (p, w)")
    show ?thesis using pool_inv_tryCreate [OF inv t c] st AcqTop ChooseDefault c t
      by (auto split: if_splits sum.splits simp: pool_inv_def intro!: pool_own_forget)
  qed
next
  case (AcqGot r)
  then have t: "claims (C t) = Some r" by simp
  obtain ok w1 where rs: "f_reset F r w = (ok, w1)" by (cases "f_reset F r w")
  have inv1: "pool_inv made p w1 C" by (rule pool_inv_world [OF inv reset_mono [OF rs]])
  show ?thesis
  proof (cases "ValidateOnBorrow (p_config p) \<and> (\<not> f_is_valid F r w \<or> \<not> f_validate F r w)")
    case True
    then show ?thesis using st AcqGot by (intro pool_inv_destroy [OF inv t]) (auto split: prod.splits)
  next
    case False
    show ?thesis
    proof (cases ok)
      case True
      then have "k = AcqMark r" "p' = p" "w' = w1" using st AcqGot False rs by auto
      then show ?thesis using inv1 AcqGot by (auto simp: pool_inv_def intro: pool_own_pass)
    next
      case nok: False
      then show ?thesis using st AcqGot False rs by (intro pool_inv_destroy [OF inv1 t]) (auto split: prod.splits)
    qed
  qed
next
  case AcqReplace
  then have t: "claims (C t) = None" by simp
  obtain res p1 w1 where c: "tryCreateResource F now (p, w) = (res, p1, w1)" by (cases "tryCreateResource F now (p, w)")
  show ?thesis using pool_inv_tryCreate [OF inv t c] st AcqReplace c t
    by (auto split: sum.splits simp: pool_inv_def intro!: pool_own_forget)
next
  case (AcqMark r)
  have "pool_own (made w) (p_chan_closed p) (p_closed p) (map_of (p_resources p')) (set (p_available p)) (C(t := Holding r))"
    using st AcqMark
    by (intro pool_own_mark [OF pool_inv_own [OF inv] AcqMark, where e = "(the (map_of (p_resources p) r))\<lparr>pr_inUse := True, pr_lastUsed := now\<rparr>"])
      (auto simp: alist_facts split: option.splits)
  then show ?thesis using st AcqMark pool_invD [OF inv]
    by (auto simp: pool_inv_def alist_facts length_alist_update split: option.splits dest: map_of_SomeD) (force dest: map_of_SomeD)
qed (use st in auto)

text \<open>Release by the holder of a resource, on a pool whose channel is open.\<close>

lemma Release_holder:
  assumes inv: "pool_inv made p w C" and t: "C t = Holding r"
    and rel: "Release F now r (p, w) = (err, p', w')"
  shows "pool_inv made p' w' (C(t := BorrowIdle)) \<and> err = (if p_closed p then Some ErrPoolClosed else None)"
proof (cases "p_closed p")
  case True
  then show ?thesis using rel pool_invD [OF inv] by (auto simp: Release_def pool_inv_def intro!: pool_own_drop)
next
  case False
  then have opened: "\<not> p_chan_closed p" using pool_inv_closed [OF inv] by auto
  have ct: "claims (C t) = Some r" using t by simp
  obtain e where e: "map_of (p_resources p) r = Some e" "pr_inUse e"
    using pool_inv_in_map [OF inv ct opened] t by auto
  let ?bad = "ValidateOnReturn (p_config p) \<and> (\<not> f_is_valid F r w \<or> \<not> f_validate F r w)"
  let ?e = "e\<lparr>pr_inUse := False, pr_lastUsed := now\<rparr>"
  have own: "pool_own (made w) False False ((map_of (p_resources p))(r \<mapsto> ?e)) (insert r (set (p_available p))) (C(t := BorrowIdle))"
    using pool_inv_own [OF inv] opened False by (intro pool_own_give_back) (auto simp: t)
  have kill: "pool_inv made p1 w1 (C(t := BorrowIdle))" if "destroyResourceUnsafe F r (p, w) = (p1, w1)" for p1 w1
    by (rule pool_inv_destroy [OF inv ct _ that]) simp
  have same: "AList.delete r (AList.update r x xs) = AList.delete r xs" for x and xs :: "('r \<times> pooled_resource) list"
    by (induction xs) auto
  consider (drop) "?bad \<or> int (length (p_available p)) \<ge> MaxIdle (p_config p)"
    | (keep) "\<not> ?bad" "int (length (p_available p)) < MaxIdle (p_config p)" "length (p_available p) < p_chan_cap p"
    | (full) "\<not> ?bad" "int (length (p_available p)) < MaxIdle (p_config p)" "\<not> length (p_available p) < p_chan_cap p"
    by linarith
  then show ?thesis
  proof cases
    case drop
    then show ?thesis using rel e False kill by (auto simp: Release_def split: if_splits)
  next
    case keep
    then have "err = None" "w' = w" "p' = p\<lparr>p_resources := AList.update r ?e (p_resources p), p_available := p_available p @ [r]\<rparr>"
      using rel e False by (auto simp: Release_def Let_def)
    moreover have "r \<in> fst ` set (p_resources p)" using e by (force dest: map_of_SomeD)
    ultimately show ?thesis
      using own opened keep False pool_invD [OF inv] pool_own_away [OF pool_inv_own [OF inv] ct]
      by (auto simp: pool_inv_def alist_facts length_alist_update)
  next
    case full
    then show ?thesis using rel e False kill same by (auto simp: Release_def Let_def destroyResourceUnsafe_def)
  qed
qed

lemma destroy_all_front:
  assumes "pool_inv made p w C" and "p_available p = xs @ ys"
    and "destroy_all F xs (p\<lparr>p_available := ys\<rparr>, w) = (p', w')"
  shows "pool_inv made p' w' C \<and> p_available p' = ys \<and> p_closed p' = p_closed p \<and> p_config p' = p_config p
    \<and> length (p_resources p') + length xs = length (p_resources p)"
  using assms
proof (induction xs arbitrary: p w)
  case Nil
  then have "p' = p" "w' = w" by (auto simp: destroy_all_def)
  then show ?case using Nil by simp
next
  case (Cons x xs)
  obtain p1 w1 where d: "destroyResourceUnsafe F x (p\<lparr>p_available := xs @ ys\<rparr>, w) = (p1, w1)"
    by (cases "destroyResourceUnsafe F x (p\<lparr>p_available := xs @ ys\<rparr>, w)")
  have one: "pool_inv made p1 w1 C \<and> p_available p1 = xs @ ys \<and> p_config p1 = p_config p
    \<and> Suc (length (p_resources p1)) = length (p_resources p) \<and> p_closed p1 = p_closed p"
    by (rule pool_inv_discard [OF Cons.prems(1) _ d]) (use Cons.prems(2) in simp)
  have "destroyResourceUnsafe F x (p\<lparr>p_available := ys\<rparr>, w) = (p1\<lparr>p_available := ys\<rparr>, w1)"
    using d by (auto simp: destroyResourceUnsafe_def)
  then have "destroy_all F xs (p1\<lparr>p_available := ys\<rparr>, w1) = (p', w')"
    using Cons.prems(3) by (simp add: destroy_all_def)
  from Cons.IH [OF _ _ this] one show ?case by auto
qed

end

lemma cleanup_scan_split:
  "\<exists>old kept. cleanup_scan now idle look xs removed = (kept, removed @ old) \<and>
     (\<exists>rest. xs = old @ rest \<and> kept = rotate1 rest \<and> (\<forall>r\<in>set old. \<exists>e. look r = Some e \<and> now - pr_lastUsed e > idle)
        \<and> (case rest of [] \<Rightarrow> True | r # _ \<Rightarrow> \<not> (\<exists>e. look r = Some e \<and> now - pr_lastUsed e > idle)))"
proof (induction xs arbitrary: removed)
  case (Cons r rs)
  show ?case
  proof (cases "\<exists>e. look r = Some e \<and> now - pr_lastUsed e > idle")
    case True
    then obtain e where e: "look r = Some e" "now - pr_lastUsed e > idle" by blast
    from Cons.IH [of "removed @ [r]"] obtain old kept rest where
      ih: "cleanup_scan now idle look rs (removed @ [r]) = (kept, (removed @ [r]) @ old)"
      "rs = old @ rest" "kept = rotate1 rest" "\<forall>r\<in>set old. \<exists>e. look r = Some e \<and> now - pr_lastUsed e > idle"
      "(case rest of [] \<Rightarrow> True | r # _ \<Rightarrow> \<not> (\<exists>e. look r = Some e \<and> now - pr_lastUsed e > idle))" by blast
    show ?thesis using ih e by (intro exI [of _ "r # old"] exI [of _ kept] conjI exI [of _ rest]) auto
  next
    case False
    then show ?thesis by (intro exI [of _ "[]"] exI [of _ "rs @ [r]"] conjI exI [of _ "r # rs"]) (auto split: option.splits)
  qed
qed simp

context factory_laws
begin

lemma cleanup_inv:
  assumes inv: "pool_inv made p w C" and c: "cleanupIdleResources F now (p, w) = (p', w')"
  shows "pool_inv made p' w' C"
proof (cases "p_closed p")
  case True then show ?thesis using inv c by (simp add: cleanupIdleResources_def)
next
  case False
  obtain old rest where
    sc: "cleanup_scan now (IdleTimeout (p_config p)) (map_of (p_resources p)) (p_available p) [] = (rotate1 rest, old)"
    and split: "p_available p = old @ rest"
    using cleanup_scan_split [of now "IdleTimeout (p_config p)" "map_of (p_resources p)" "p_available p" "[]"] by auto
  obtain p1 w1 where d: "destroy_all F old (p\<lparr>p_available := rest\<rparr>, w) = (p1, w1)"
    by (cases "destroy_all F old (p\<lparr>p_available := rest\<rparr>, w)")
  note fr = destroy_all_front [OF inv split d]
  have "destroy_all F old (p\<lparr>p_available := rotate1 rest\<rparr>, w) = (p1\<lparr>p_available := rotate1 rest\<rparr>, w1)"
    using destroy_all_avail [OF d] by simp
  then have "p' = p1\<lparr>p_available := rotate1 rest\<rparr>" "w' = w1"
    using c False sc by (auto simp: cleanupIdleResources_def)
  then show ?thesis using fr pool_inv_avail by (auto intro!: pool_inv_reorder)
qed

end


lemma destroy_all_eq:
  "destroy_all F xs (p, w) =
     (p\<lparr>p_resources := fold AList.delete xs (p_resources p)\<rparr>, fold (f_close F) xs w)"
  by (induction xs arbitrary: p w) (auto simp: destroy_all_def destroyResourceUnsafe_def)

lemma resize_loop_returns:
  "excess \<le> int (length (p_available p)) \<Longrightarrow> nat excess < fuel \<Longrightarrow>
   resize_loop fuel F excess (p, w) =
    Some (destroy_all F (take (nat excess) (p_available p)) (p\<lparr>p_available := drop (nat excess) (p_available p)\<rparr>, w))"
proof (induction fuel arbitrary: excess p w)
  case (Suc fuel)
  show ?case
  proof (cases "excess > 0")
    case False then show ?thesis by (simp add: destroy_all_def)
  next
    case True
    then obtain r rs n where av: "p_available p = r # rs" and n: "nat excess = Suc n"
      using Suc.prems by (cases "p_available p"; cases "nat excess") auto
    then have "nat (excess - 1) = n" by auto
    then show ?thesis using True av n Suc.prems
      by (simp add: destroyResourceUnsafe_def destroy_all_eq Suc.IH)
  qed
qed simp

lemma resize_loop_stuck:
  "excess > int (length (p_available p)) \<Longrightarrow> resize_loop fuel F excess (p, w) = None"
  by (induction fuel arbitrary: excess p w) (auto simp: destroyResourceUnsafe_def split: list.splits)

lemma resize_loop_fuel: "resize_loop fuel F excess (p, w) = Some pw \<Longrightarrow> nat excess < fuel"
proof (induction fuel arbitrary: excess p w)
  case (Suc fuel)
  then show ?case
    by (cases "p_available p") (fastforce simp: destroyResourceUnsafe_def split: if_splits)+
qed simp

lemma resize_loop_cases:
  assumes "resize_loop fuel F excess (p, w) = Some pw"
  shows "excess \<le> int (length (p_available p)) \<and>
    pw = destroy_all F (take (nat excess) (p_available p)) (p\<lparr>p_available := drop (nat excess) (p_available p)\<rparr>, w)"
proof -
  have le: "excess \<le> int (length (p_available p))"
    using assms resize_loop_stuck [of p excess fuel F w] by fastforce
  then show ?thesis using assms resize_loop_returns [OF le resize_loop_fuel [OF assms], of F w] by simp
qed

context factory_laws
begin

lemma Resize_inv:
  assumes inv: "pool_inv made p w C" and rs: "Resize fuel F n (p, w) = Some (err, p', w')"
  shows "pool_inv made p' w' C"
proof (cases "n \<le> 0 \<or> p_closed p")
  case True then show ?thesis using inv rs by (auto simp: Resize_def split: if_splits)
next
  case False
  let ?p = "p\<lparr>p_config := (p_config p)\<lparr>MaxSize := n\<rparr>\<rparr>"
  show ?thesis
  proof (cases "n < MaxSize (p_config p)")
    case grow: False
    then show ?thesis using False inv rs by (auto simp: Resize_def pool_inv_def)
  next
    case True
    let ?x = "int (length (p_resources p)) - n"
    let ?k = "nat ?x"
    have loop: "resize_loop fuel F ?x (?p, w) = Some (p', w')"
      using rs False True by (auto simp: Resize_def split: option.splits prod.splits)
    note shr = resize_loop_cases [OF loop]
    let ?d = "destroy_all F (take ?k (p_available p)) (p\<lparr>p_available := drop ?k (p_available p)\<rparr>, w)"
    have fr: "pool_inv made (fst ?d) (snd ?d) C \<and> length (p_resources (fst ?d)) + length (take ?k (p_available p)) = length (p_resources p)"
      using destroy_all_front [OF inv append_take_drop_id [symmetric] surjective_pairing, of ?k] by blast
    have eq: "p' = (fst ?d)\<lparr>p_config := (p_config p)\<lparr>MaxSize := n\<rparr>\<rparr>" "w' = snd ?d"
      using shr by (auto simp: destroy_all_eq)
    have "int (length (p_resources (fst ?d))) \<le> n"
      using fr shr by (cases "?x \<le> 0") (auto simp: min_def split: if_splits)
    then show ?thesis using fr eq by (auto simp: pool_inv_def)
  qed
qed

lemma fold_close_mono: "made w \<subseteq> made (fold (f_close F) xs w)"
  by (induction xs arbitrary: w) (auto dest: subsetD [OF close_mono])

end

lemma fold_alist_delete: "fold AList.delete ks xs = filter (\<lambda>(k, _). k \<notin> set ks) xs"
  by (induction ks arbitrary: xs) (auto simp: AList.delete_eq intro!: filter_cong)

lemma close_finish_eq:
  "close_finish F (p, w) =
     (p\<lparr>p_chan_closed := True, p_available := [], p_resources := []\<rparr>,
      fold (f_close F) (p_available p @ filter (\<lambda>r. r \<notin> set (p_available p)) (map fst (p_resources p))) w)"
proof -
  let ?rest = "filter (\<lambda>(k, _). k \<notin> set (p_available p)) (p_resources p)"
  have "map fst ?rest = filter (\<lambda>r. r \<notin> set (p_available p)) (map fst (p_resources p))"
    by (simp add: filter_map comp_def split_def)
  moreover have "filter (\<lambda>(k, _). k \<notin> fst ` set ?rest) ?rest = []"
    by (auto simp: filter_empty_conv image_iff)
  ultimately show ?thesis
    by (simp add: close_finish_def Let_def destroy_all_eq fold_alist_delete del: filter_filter)
qed

context factory_laws
begin

lemma close_inv:
  assumes inv: "pool_inv made p w C" and "p_closed p" and "close_finish F (p, w) = (p', w')"
  shows "pool_inv made p' w' C"
proof -
  have "pool_own (made w) True True Map.empty {} C"
    using pool_inv_own [OF inv] by (auto simp: pool_own_def)
  note own = pool_own_world [OF this fold_close_mono]
  obtain rs where "p' = p\<lparr>p_chan_closed := True, p_available := [], p_resources := []\<rparr>" "w' = fold (f_close F) rs w"
    using assms(3) unfolding close_finish_eq by blast
  then show ?thesis using assms(2) own [of rs] pool_inv_size [OF inv] by (simp add: pool_inv_def)
qed

lemma pool_Close_inv:
  assumes inv: "pool_inv made p w C" and c: "pool_Close F (p, w) = (p', w')"
  shows "pool_inv made p' w' C"
  using c inv close_inv [OF pool_inv_closing [OF inv], of p' w']
  by (auto simp: pool_Close_def close_mark_def split: if_splits)

lemma preCreate_inv:
  assumes "pool_inv made p w C" and "preCreate F now n (p, w) = (ok, p', w')"
    and "\<not> p_closed p" and "length (p_available p) = length (p_resources p)"
    and "int (length (p_resources p) + n) \<le> MaxSize (p_config p)" and "p_chan_cap p = nat (MaxSize (p_config p))"
  shows "pool_inv made p' w' C \<and> p_config p' = p_config p \<and> \<not> p_closed p'
    \<and> length (p_available p') = length (p_resources p') \<and> (ok \<longrightarrow> length (p_resources p') = length (p_resources p) + n)"
  using assms
proof (induction n arbitrary: p w)
  case (Suc n)
  obtain mr w1 where cr: "f_create F w = (mr, w1)" by (cases "f_create F w")
  show ?case
  proof (cases mr)
    case None
    then show ?thesis using Suc.prems cr pool_inv_world [OF Suc.prems(1) create_mono [OF cr]] by auto
  next
    case (Some r)
    note inv = Suc.prems(1)
    note fr = create_fresh [OF cr [unfolded Some]] create_mono [OF cr]
    let ?p = "p\<lparr>p_resources := AList.update r (entry now False) (p_resources p), p_available := p_available p @ [r]\<rparr>"
    have own: "pool_own (made w1) (p_chan_closed p) (p_closed p) ((map_of (p_resources p))(r \<mapsto> entry now False))
        (insert r (set (p_available p))) C"
      using fr by (intro pool_own_world [OF pool_own_add_idle [OF pool_inv_own [OF inv]]]) (auto simp: entry_def)
    have new: "r \<notin> fst ` set (p_resources p)" "r \<notin> set (p_available p)"
      using fr pool_own_keys [OF pool_inv_own [OF inv]] pool_own_idle [OF pool_inv_own [OF inv]]
      by (metis map_of_eq_None_iff not_None_eq)+
    have inv': "pool_inv made ?p w1 C"
      using own new Suc.prems pool_invD [OF inv] by (auto simp: pool_inv_def alist_facts length_alist_update)
    have "preCreate F now n (?p, w1) = (ok, p', w')" using Suc.prems(2) cr Some by simp
    from Suc.IH [OF inv' this] show ?thesis using Suc.prems new by (auto simp: length_alist_update)
  qed
qed simp

lemma NewResourcePool_inv:
  assumes "NewResourcePool cfg (Some F) now w = (Inr p, w')"
  shows "pool_inv made p w' (\<lambda>_. BorrowIdle) \<and> \<not> p_closed p \<and> int (length (p_available p)) = MinSize (p_config p)
    \<and> p_config p = (case cfg of None \<Rightarrow> DefaultConfig | Some c \<Rightarrow> c)"
proof -
  define c where "c = (case cfg of None \<Rightarrow> DefaultConfig | Some c \<Rightarrow> c)"
  define p0 :: "'r resource_pool" where "p0 = \<lparr>p_config = c, p_available = [], p_chan_cap = nat (MaxSize c),
     p_chan_closed = False, p_resources = [], p_closed = False\<rparr>"
  have ok: "0 < MaxSize c" "0 \<le> MinSize c" "MinSize c \<le> MaxSize c"
    and pre: "preCreate F now (nat (MinSize c)) (p0, w) = (True, p, w')"
    using assms by (auto simp: NewResourcePool_def Let_def c_def [symmetric] p0_def split: if_splits prod.splits bool.splits)
  have "pool_inv made p0 w (\<lambda>_. BorrowIdle)" using ok by (simp add: p0_def pool_inv_def pool_own_def)
  from preCreate_inv [OF this pre] ok show ?thesis by (simp add: p0_def c_def)
qed

lemma pstep_inv:
  assumes inv: "pool_inv made (ps_pool s) (ps_world s) (ps_who s)" and st: "pstep F now ev s = Some s'"
  shows "pool_inv made (ps_pool s') (ps_world s') (ps_who s')"
proof (cases ev)
  case (EvAcquire t)
  then show ?thesis using inv st
    by (auto simp: pstep_def pool_inv_def split: borrower.splits intro!: pool_own_forget)
next
  case (EvStep t ch)
  then obtain k p w where "acquire_step F now ch (ps_who s t) (ps_pool s, ps_world s) = Some (k, p, w)"
    "s' = \<lparr>ps_pool = p, ps_world = w, ps_who = (ps_who s)(t := k)\<rparr>"
    using st by (auto simp: pstep_def split: option.splits)
  then show ?thesis using pool_inv_acquire [OF inv] by simp
next
  case (EvRelease t)
  then obtain r err p w where t: "ps_who s t = Holding r"
    "Release F now r (ps_pool s, ps_world s) = (err, p, w)"
    "s' = \<lparr>ps_pool = p, ps_world = w, ps_who = (ps_who s)(t := BorrowIdle)\<rparr>"
    using st by (auto simp: pstep_def split: borrower.splits prod.splits)
  then show ?thesis using Release_holder [OF inv t(1,2)] by simp
next
  case EvCleanup
  then show ?thesis using st cleanup_inv [OF inv] by (auto simp: pstep_def split: prod.splits)
next
  case (EvResize fuel n)
  then show ?thesis using st Resize_inv [OF inv] by (auto simp: pstep_def split: option.splits)
next
  case EvCloseMark
  then show ?thesis using st pool_inv_closing [OF inv] by (auto simp: pstep_def close_mark_def)
next
  case EvCloseFinish
  then show ?thesis using st close_inv [OF inv] by (auto simp: pstep_def split: if_splits prod.splits)
qed

lemma prun_inv:
  "prun F evs s = Some s' \<Longrightarrow> pool_inv made (ps_pool s) (ps_world s) (ps_who s) \<Longrightarrow>
     pool_inv made (ps_pool s') (ps_world s') (ps_who s')"
proof (induction evs arbitrary: s)
  case (Cons e evs)
  obtain now ev where "e = (now, ev)" by (cases e)
  then show ?case using Cons by (auto split: option.splits intro: pstep_inv)
qed simp

end


text \<open>
  A second contract, for whoever shares the factory's world: a preorder that every call of the factory
  respects is respected by every step of the pool.
\<close>

locale factory_grows =
  fixes F :: "('r, 'w) pool_factory" and R :: "'w \<Rightarrow> 'w \<Rightarrow> bool"
  assumes R_refl: "R w w" and R_trans: "R w w' \<Longrightarrow> R w' w'' \<Longrightarrow> R w w''"
    and R_create: "R w (snd (f_create F w))"
    and R_reset: "R w (snd (f_reset F r w))"
    and R_close: "R w (f_close F r w)"
begin

lemma R_closes: "R w (fold (f_close F) xs w)"
  by (induction xs arbitrary: w) (auto intro: R_refl R_trans R_close)

lemma R_destroy: "R w (snd (destroyResourceUnsafe F r (p, w)))"
  by (simp add: destroyResourceUnsafe_def R_close)

lemma R_tryCreate: "R w (snd (snd (tryCreateResource F now (p, w))))"
  using R_create [of w] by (auto simp: tryCreateResource_def R_refl split: prod.splits option.splits)

lemma R_preCreate: "R w (snd (snd (preCreate F now n (p, w))))"
proof (induction n arbitrary: p w)
  case (Suc n)
  show ?case using R_create [of w] Suc.IH
    by (auto split: prod.splits option.splits intro: R_trans)
qed (simp add: R_refl)

lemma R_Close: "R w (snd (pool_Close F (p, w)))"
  using R_closes by (auto simp: pool_Close_def close_finish_eq R_refl simp del: fold_append)

lemma R_New: "R w (snd (NewResourcePool cfg (Some F) now w))"
proof -
  have "R w (snd (pool_Close F (p', w')))" if "preCreate F now n (p, w) = (ok, p', w')" for n p ok p' w'
    using R_preCreate [where n = n and p = p and w = w and now = now] R_Close [of w' p'] that by (auto intro: R_trans)
  then show ?thesis
    using R_preCreate
    by (auto simp: NewResourcePool_def Let_def R_refl split: prod.splits bool.splits) (metis snd_conv)+
qed

lemma R_Release: "R w (snd (snd (Release F now r (p, w))))"
  using R_destroy by (auto simp: Release_def R_refl Let_def split: option.splits)

lemma R_cleanup: "R w (snd (cleanupIdleResources F now (p, w)))"
  using R_closes by (auto simp: cleanupIdleResources_def R_refl destroy_all_eq split: prod.splits)

lemma R_Resize: "Resize fuel F n (p, w) = Some (err, p', w') \<Longrightarrow> R w w'"
  using R_closes by (auto simp: Resize_def R_refl Let_def destroy_all_eq split: if_splits option.splits
      dest!: resize_loop_cases)

lemma R_acquire:
  assumes "acquire_step F now ch k (p, w) = Some (k', p', w')"
  shows "R w w'"
proof -
  have dest: "R w (snd (destroyResourceUnsafe F r (q, snd (f_reset F r w))))" for r q
    by (rule R_trans [OF R_reset R_destroy])
  show ?thesis
    using assms R_tryCreate [of w now p] R_destroy [of w] dest R_reset [of w]
    by (cases k) (auto simp: R_refl split: acq_choice.splits list.splits if_splits prod.splits sum.splits bool.splits,
        (metis snd_conv)+)
qed

lemma R_pstep:
  assumes "pstep F now ev s = Some s'"
  shows "R (ps_world s) (ps_world s')"
  using assms R_closes R_cleanup [of "ps_world s" now "ps_pool s"]
    R_Release [where w = "ps_world s" and now = now and p = "ps_pool s"]
  by (auto simp: pstep_def R_refl close_finish_eq simp del: fold_append split: pool_event.splits borrower.splits option.splits prod.splits if_splits
      dest: R_acquire R_Resize) (metis snd_conv)+

end

sublocale factory_laws \<subseteq> grows: factory_grows F "\<lambda>w w'. made w \<subseteq> made w'"
  by unfold_locales (auto dest: subsetD [OF create_mono [OF surjective_pairing]]
      subsetD [OF reset_mono [OF surjective_pairing]] subsetD [OF close_mono])

subsection \<open>Resizing and closing\<close>

text \<open>
  C11. Shrinking a pool returns exactly when enough resources are idle; then the surplus is closed, oldest
  idle first, and the pool takes its new size. When fewer are idle than have to go, \<open>Resize\<close> never returns
  (and keeps the lock): the \<open>break\<close> of its \<open>default\<close> case only leaves the \<open>select\<close>.
\<close>

theorem Resize_returns_iff:
  assumes "0 < n" and "\<not> p_closed p" and "n < MaxSize (p_config p)"
    and k: "k = nat (int (length (p_resources p)) - n)"
  shows "if k \<le> length (p_available p)
    then \<forall>fuel > k. Resize fuel F n (p, w) = Some (None,
        p\<lparr>p_config := (p_config p)\<lparr>MaxSize := n\<rparr>, p_available := drop k (p_available p),
          p_resources := filter (\<lambda>(r, _). r \<notin> set (take k (p_available p))) (p_resources p)\<rparr>,
        fold (f_close F) (take k (p_available p)) w)
    else \<forall>fuel. Resize fuel F n (p, w) = None"
proof (cases "k \<le> length (p_available p)")
  case True
  then have "int (length (p_resources p)) - n \<le> int (length (p_available p))" using k by linarith
  then show ?thesis using True assms by (simp add: Resize_def resize_loop_returns destroy_all_eq fold_alist_delete)
next
  case False
  then show ?thesis using assms by (simp add: Resize_def resize_loop_stuck)
qed

definition toy_factory :: "(nat, nat) pool_factory" where
  "toy_factory = \<lparr>f_create = (\<lambda>n. (Some n, Suc n)), f_is_valid = (\<lambda>r n. True), f_validate = (\<lambda>r n. r mod 2 = 0),
     f_reset = (\<lambda>r n. (True, n)), f_close = (\<lambda>r n. n)\<rparr>"

definition busy_pool :: "nat resource_pool" where
  "busy_pool = \<lparr>p_config = DefaultConfig\<lparr>MaxSize := 4\<rparr>, p_available = [0], p_chan_cap = 4, p_chan_closed = False,
     p_resources = [(0, entry 0 False), (1, entry 0 True), (2, entry 0 True)], p_closed = False\<rparr>"

theorem Resize_returns_iff_witness:
  "(\<forall>fuel. Resize fuel toy_factory 1 (busy_pool, 3) = None) \<and>
   (Resize 2 toy_factory 2 (busy_pool, 3) =
      Some (None, busy_pool\<lparr>p_config := DefaultConfig\<lparr>MaxSize := 2\<rparr>, p_available := [],
                   p_resources := [(1, entry 0 True), (2, entry 0 True)]\<rparr>, 3))"
proof (intro conjI)
  have cfg: "p_config busy_pool = DefaultConfig\<lparr>MaxSize := 4\<rparr>" "\<not> p_closed busy_pool" "p_available busy_pool = [0]"
    "p_resources busy_pool = [(0, entry 0 False), (1, entry 0 True), (2, entry 0 True)]"
    by (simp_all add: busy_pool_def)
  show "\<forall>fuel. Resize fuel toy_factory 1 (busy_pool, 3) = None"
    using Resize_returns_iff [of 1 busy_pool 2 toy_factory 3] by (simp add: cfg)
  show "Resize 2 toy_factory 2 (busy_pool, 3) =
      Some (None, busy_pool\<lparr>p_config := DefaultConfig\<lparr>MaxSize := 2\<rparr>, p_available := [],
                   p_resources := [(1, entry 0 True), (2, entry 0 True)]\<rparr>, 3)"
    using Resize_returns_iff [of 2 busy_pool 1 toy_factory 3] by (simp add: cfg toy_factory_def)
qed

text \<open>
  Closing an open pool closes each managed resource exactly once, idle or borrowed, and leaves the pool
  empty and its channel closed; a second \<open>Close\<close> does nothing.
\<close>

theorem pool_Close_closes_all:
  assumes "\<not> p_closed p" and "distinct (map fst (p_resources p))" and "distinct (p_available p)"
    and "set (p_available p) \<subseteq> fst ` set (p_resources p)"
  shows "\<exists>rs. distinct rs \<and> set rs = fst ` set (p_resources p) \<and>
     pool_Close F (p, w) = (p\<lparr>p_closed := True, p_chan_closed := True, p_available := [], p_resources := []\<rparr>,
                            fold (f_close F) rs w) \<and>
     pool_Close F (pool_Close F (p, w)) = pool_Close F (p, w)"
proof -
  let ?rs = "p_available p @ filter (\<lambda>r. r \<notin> set (p_available p)) (map fst (p_resources p))"
  have "distinct ?rs" using assms by auto
  moreover have "set ?rs = fst ` set (p_resources p)" using assms(4) by auto
  moreover have "pool_Close F (p, w) = (p\<lparr>p_closed := True, p_chan_closed := True, p_available := [], p_resources := []\<rparr>,
                            fold (f_close F) ?rs w)"
    using assms(1) by (simp add: pool_Close_def close_mark_def close_finish_eq)
  ultimately show ?thesis by (intro exI [of _ ?rs]) (simp add: pool_Close_def)
qed

theorem pool_Close_closes_all_witness:
  "\<exists>rs. distinct rs \<and> set rs = {0, 1, 2} \<and>
     pool_Close toy_factory (busy_pool, 3) =
       (busy_pool\<lparr>p_closed := True, p_chan_closed := True, p_available := [], p_resources := []\<rparr>, fold (f_close toy_factory) rs 3)"
  using pool_Close_closes_all [of busy_pool toy_factory 3] by (simp add: busy_pool_def) blast

text \<open>
  A borrower alone on an open pool is served: with a usable idle resource at the front it gets that one,
  marked in use; with an unusable one it gets a fresh resource in its place, and the unusable one is closed;
  with none idle and room in the pool it gets a fresh one.
\<close>

theorem Acquire_serves:
  assumes opened: "\<not> p_closed p" "\<not> p_chan_closed p" "C t = BorrowIdle"
    and serve: "prun F [(now, EvAcquire t), (now, EvStep t c), (now, EvStep t (if p_available p = [] then ChooseDefault else ChooseAvail))]
      \<lparr>ps_pool = p, ps_world = w, ps_who = C\<rparr> = Some s"
    and create: "\<And>w. fst (f_create F w) \<noteq> None"
  shows "case p_available p of
      [] \<Rightarrow> int (length (p_resources p)) < MaxSize (p_config p) \<longrightarrow>
         (\<exists>r w'. f_create F w = (Some r, w') \<and> ps_who s t = Holding r \<and> map_of (p_resources (ps_pool s)) r = Some (entry now True))
    | r # rs \<Rightarrow>
       if ValidateOnBorrow (p_config p) \<and> (\<not> f_is_valid F r w \<or> \<not> f_validate F r w)
       then int (length (AList.delete r (p_resources p))) < MaxSize (p_config p) \<longrightarrow>
         (\<exists>r' w' s'. f_create F (f_close F r w) = (Some r', w') \<and>
            prun F [(now, EvStep t c), (now, EvStep t c)] s = Some s' \<and> ps_who s' t = Holding r' \<and> ps_world s' = w' \<and>
            p_resources (ps_pool s') = AList.update r' (entry now True) (AList.delete r (p_resources p)) \<and>
            p_available (ps_pool s') = rs)
       else fst (f_reset F r w) \<longrightarrow> r \<in> fst ` set (p_resources p) \<longrightarrow>
         (\<exists>s' e. prun F [(now, EvStep t c), (now, EvStep t c)] s = Some s' \<and> ps_who s' t = Holding r \<and>
            p_available (ps_pool s') = rs \<and> map_of (p_resources (ps_pool s')) r = Some e \<and> pr_inUse e \<and> pr_lastUsed e = now)"
proof (cases "p_available p")
  case Nil
  obtain r w' where cr: "f_create F w = (Some r, w')" using create [of w] by (cases "f_create F w") auto
  show ?thesis using Nil opened serve cr
    by (auto simp: pstep_def tryCreateResource_def alist_facts)
next
  case (Cons r rs)
  have s: "s = \<lparr>ps_pool = p\<lparr>p_available := rs\<rparr>, ps_world = w, ps_who = C(t := AcqGot r)\<rparr>"
    using Cons opened serve by (auto simp: pstep_def)
  show ?thesis
  proof (cases "ValidateOnBorrow (p_config p) \<and> (\<not> f_is_valid F r w \<or> \<not> f_validate F r w)")
    case True
    obtain r' w' where cr: "f_create F (f_close F r w) = (Some r', w')"
      using create [of "f_close F r w"] by (cases "f_create F (f_close F r w)") auto
    show ?thesis using Cons True s cr by (auto simp: pstep_def destroyResourceUnsafe_def tryCreateResource_def)
  next
    case False
    obtain ok w' where rs: "f_reset F r w = (ok, w')" by (cases "f_reset F r w")
    show ?thesis
    proof (cases "map_of (p_resources p) r")
      case None
      then have "r \<notin> fst ` set (p_resources p)" by (simp add: map_of_eq_None_iff)
      then show ?thesis using Cons False by (simp only: list.case if_False) blast
    next
      case (Some e)
      then show ?thesis using Cons False s rs by (cases ok) (auto simp: pstep_def alist_facts)
    qed
  qed
qed

theorem Acquire_serves_witness:
  "\<exists>s s'. prun toy_factory [(7, EvAcquire 0), (7, EvStep 0 ChooseDone), (7, EvStep 0 ChooseAvail)]
     \<lparr>ps_pool = busy_pool, ps_world = 3, ps_who = (\<lambda>_. BorrowIdle)\<rparr> = Some s \<and>
     prun toy_factory [(7, EvStep 0 ChooseDone), (7, EvStep 0 ChooseDone)] s = Some s' \<and> ps_who s' 0 = Holding 0"
proof -
  define s where "s = \<lparr>ps_pool = busy_pool\<lparr>p_available := []\<rparr>, ps_world = (3::nat), ps_who = (\<lambda>_. BorrowIdle)(0 := AcqGot 0)\<rparr>"
  have run: "prun toy_factory [(7, EvAcquire 0), (7, EvStep 0 ChooseDone), (7, EvStep 0 ChooseAvail)]
     \<lparr>ps_pool = busy_pool, ps_world = 3, ps_who = (\<lambda>_. BorrowIdle)\<rparr> = Some s"
    by (simp add: pstep_def busy_pool_def s_def)
  have av: "p_available busy_pool = [0]" "\<not> p_closed busy_pool" "\<not> p_chan_closed busy_pool"
    "0 \<in> fst ` set (p_resources busy_pool)" by (simp_all add: busy_pool_def)
  have "fst (f_create toy_factory w) \<noteq> None" "f_is_valid toy_factory 0 w" "f_validate toy_factory 0 w"
    "fst (f_reset toy_factory 0 w)" for w by (simp_all add: toy_factory_def)
  then show ?thesis
    using Acquire_serves [of busy_pool "\<lambda>_. BorrowIdle" 0 toy_factory 7 ChooseDone 3 s] run av by auto
qed

text \<open>
  A borrower that passed the closed check just before \<open>Close\<close> can receive the nil element of the closed
  channel and panic on it.
\<close>

theorem late_borrower_panics:
  assumes "\<not> p_closed (ps_pool s)" and "\<not> p_chan_closed (ps_pool s)" and "ps_who s t = BorrowIdle"
  shows "\<exists>s'. prun F [(now, EvAcquire t), (now, EvStep t c), (now, EvCloseMark), (now, EvCloseFinish), (now, EvStep t ChooseAvail)] s
      = Some s' \<and> ps_who s' t = Panicked"
  using assms by (simp add: pstep_def close_mark_def close_finish_eq)

theorem late_borrower_panics_witness:
  "\<exists>s'. prun toy_factory [(0, EvAcquire 5), (0, EvStep 5 ChooseDone), (0, EvCloseMark), (0, EvCloseFinish), (0, EvStep 5 ChooseAvail)]
     \<lparr>ps_pool = busy_pool, ps_world = 3, ps_who = (\<lambda>_. BorrowIdle)\<rparr> = Some s' \<and> ps_who s' 5 = Panicked"
  by (rule late_borrower_panics) (simp_all add: busy_pool_def)

end
