(* ===== verification/PoolManager.thy ===== *)
theory PoolManager
  imports ResourcePool "HOL-Library.Word"
begin

text \<open>
  The universal pool manager: \<open>internal/pool/adapter.go\<close> (the wrapper and the factory that makes it) and
  \<open>internal/pool/manager.go\<close> (pools by resource type and configuration fingerprint).

  A \<open>*ResourceWrapper[T]\<close> is an address into the heap \<open>wheap\<close>; allocation takes the next address, objects
  are never overwritten. \<open>'a\<close> is the provider, \<open>'c\<close> its configuration, \<open>'w\<close> the world the providers act
  on; the Go type argument \<open>T\<close> is a tag. The close, validity and reset functions of a resource type are
  registered together with its creator and never change afterwards, so the closures of \<open>getOrCreatePool\<close>
  take them as they are when the pool is made.
\<close>

subsection \<open>Wrappers and the factory (adapter.go)\<close>

record ('a, 'w) resource_wrapper =
  rw_type :: nat
  rw_provider :: 'a
  rw_configKey :: string
  rw_resourceType :: string
  rw_closeFunc :: "('a \<Rightarrow> 'w \<Rightarrow> bool \<times> 'w) option"
  rw_isValidFunc :: "('a \<Rightarrow> 'w \<Rightarrow> bool) option"
  rw_resetFunc :: "('a \<Rightarrow> 'w \<Rightarrow> bool \<times> 'w) option"

record ('a, 'w) wheap =
  wh_next :: nat
  wh_obj :: "nat \<Rightarrow> ('a, 'w) resource_wrapper option"
  wh_world :: 'w

type_synonym ('a, 'c, 'w) creator_func = "string \<Rightarrow> string \<Rightarrow> 'c \<Rightarrow> 'w \<Rightarrow> 'a option \<times> 'w"

record ('a, 'c, 'w) resource_factory =
  rf_type :: nat
  rf_resourceType :: string
  rf_provider :: string
  rf_config :: 'c
  rf_configKey :: string
  rf_creator :: "('a, 'c, 'w) creator_func"
  rf_closeFunc :: "('a \<Rightarrow> 'w \<Rightarrow> bool \<times> 'w) option"
  rf_isValidFunc :: "('a \<Rightarrow> 'w \<Rightarrow> bool) option"
  rf_resetFunc :: "('a \<Rightarrow> 'w \<Rightarrow> bool \<times> 'w) option"

definition run_on :: "('a \<Rightarrow> 'w \<Rightarrow> bool \<times> 'w) option \<Rightarrow> 'a \<Rightarrow> ('a, 'w) wheap \<Rightarrow> bool \<times> ('a, 'w) wheap" where
  "run_on fn p H =
     (case fn of None \<Rightarrow> (True, H) | Some f \<Rightarrow> (case f p (wh_world H) of (ok, w) \<Rightarrow> (ok, H\<lparr>wh_world := w\<rparr>)))"

definition wrapper_Close :: "nat \<Rightarrow> ('a, 'w) wheap \<Rightarrow> bool \<times> ('a, 'w) wheap" where
  "wrapper_Close r H = (case wh_obj H r of None \<Rightarrow> (True, H) | Some o1 \<Rightarrow> run_on (rw_closeFunc o1) (rw_provider o1) H)"

text \<open>\<open>nonzero\<close> compares a provider with the zero value of \<open>T\<close>.\<close>

definition wrapper_IsValid :: "('a \<Rightarrow> bool) \<Rightarrow> nat \<Rightarrow> ('a, 'w) wheap \<Rightarrow> bool" where
  "wrapper_IsValid nonzero r H =
     (case wh_obj H r of
        None \<Rightarrow> False
      | Some o1 \<Rightarrow> (case rw_isValidFunc o1 of Some f \<Rightarrow> f (rw_provider o1) (wh_world H) | None \<Rightarrow> nonzero (rw_provider o1)))"

definition wrapper_Reset :: "nat \<Rightarrow> ('a, 'w) wheap \<Rightarrow> bool \<times> ('a, 'w) wheap" where
  "wrapper_Reset r H = (case wh_obj H r of None \<Rightarrow> (True, H) | Some o1 \<Rightarrow> run_on (rw_resetFunc o1) (rw_provider o1) H)"

definition factory_Create :: "('a, 'c, 'w) resource_factory \<Rightarrow> ('a, 'w) wheap \<Rightarrow> nat option \<times> ('a, 'w) wheap" where
  "factory_Create f H =
     (case rf_creator f (rf_resourceType f) (rf_provider f) (rf_config f) (wh_world H) of
        (None, w) \<Rightarrow> (None, H\<lparr>wh_world := w\<rparr>)
      | (Some provider, w) \<Rightarrow>
          (Some (wh_next H),
           \<lparr>wh_next = Suc (wh_next H),
            wh_obj = (wh_obj H)(wh_next H \<mapsto>
              \<lparr>rw_type = rf_type f, rw_provider = provider, rw_configKey = rf_configKey f, rw_resourceType = rf_resourceType f,
               rw_closeFunc = rf_closeFunc f, rw_isValidFunc = rf_isValidFunc f, rw_resetFunc = rf_resetFunc f\<rparr>),
            wh_world = w\<rparr>))"

definition factory_Validate :: "('a \<Rightarrow> bool) \<Rightarrow> ('a, 'c, 'w) resource_factory \<Rightarrow> nat \<Rightarrow> ('a, 'w) wheap \<Rightarrow> bool" where
  "factory_Validate nonzero f r H =
     (case wh_obj H r of
        None \<Rightarrow> False
      | Some o1 \<Rightarrow>
          if rw_type o1 = rf_type f then
            (case rf_isValidFunc f of Some g \<Rightarrow> g (rw_provider o1) (wh_world H) | None \<Rightarrow> wrapper_IsValid nonzero r H)
          else wrapper_IsValid nonzero r H)"

definition factory_Reset :: "('a, 'c, 'w) resource_factory \<Rightarrow> nat \<Rightarrow> ('a, 'w) wheap \<Rightarrow> bool \<times> ('a, 'w) wheap" where
  "factory_Reset f r H =
     (case wh_obj H r of
        None \<Rightarrow> (True, H)
      | Some o1 \<Rightarrow>
          if rw_type o1 = rf_type f then
            (if rw_resetFunc o1 \<noteq> None then run_on (rw_resetFunc o1) (rw_provider o1) H else wrapper_Reset r H)
          else (True, H))"

definition wrapper_factory :: "('a \<Rightarrow> bool) \<Rightarrow> ('a, 'c, 'w) resource_factory \<Rightarrow> (nat, ('a, 'w) wheap) pool_factory" where
  "wrapper_factory nonzero f =
     \<lparr>f_create = factory_Create f, f_is_valid = wrapper_IsValid nonzero, f_validate = factory_Validate nonzero f,
      f_reset = factory_Reset f, f_close = (\<lambda>r H. snd (wrapper_Close r H))\<rparr>"

subsection \<open>Keys and configuration (manager.go)\<close>

definition hex_digit :: "nat \<Rightarrow> char" where
  "hex_digit n = ''0123456789abcdef'' ! (n mod 16)"

text \<open>\<open>%016x\<close> of a 64-bit hash: sixteen digits, most significant first.\<close>

definition hex016 :: "64 word \<Rightarrow> string" where
  "hex016 h = map (\<lambda>i. hex_digit (unat h div 16 ^ i)) (rev [0..<16])"

text \<open>\<open>hash\<close> is \<open>hashstructure.Hash\<close> of the pair, \<open>None\<close> when it fails.\<close>

definition GenerateConfigKey :: "(string \<Rightarrow> 'c \<Rightarrow> 64 word option) \<Rightarrow> string \<Rightarrow> 'c \<Rightarrow> string" where
  "GenerateConfigKey hash provider config = (case hash provider config of None \<Rightarrow> provider | Some h \<Rightarrow> hex016 h)"

definition pool_key :: "string \<Rightarrow> string \<Rightarrow> string" where
  "pool_key resourceType configKey = resourceType @ '':'' @ configKey"

text \<open>What \<open>viper.IsSet\<close> and the typed getters answer under \<open>resource_pools\<close>.\<close>

record pool_settings =
  set_max_size :: "int option"
  set_min_size :: "int option"
  set_max_idle :: "int option"
  set_acquire_timeout :: "int option"
  set_idle_timeout :: "int option"
  set_validate_on_borrow :: "bool option"
  set_validate_on_return :: "bool option"

definition getPoolConfig :: "pool_settings \<Rightarrow> pool_config" where
  "getPoolConfig v =
     (let c = DefaultConfig;
          c = (case set_max_size v of Some n \<Rightarrow> c\<lparr>MaxSize := n\<rparr> | None \<Rightarrow> c);
          c = (case set_min_size v of Some n \<Rightarrow> c\<lparr>MinSize := n\<rparr> | None \<Rightarrow> c);
          c = (case set_max_idle v of Some n \<Rightarrow> c\<lparr>MaxIdle := n\<rparr> | None \<Rightarrow> c);
          c = (case set_acquire_timeout v of Some n \<Rightarrow> c\<lparr>AcquireTimeout := n\<rparr> | None \<Rightarrow> c);
          c = (case set_idle_timeout v of Some n \<Rightarrow> c\<lparr>IdleTimeout := n\<rparr> | None \<Rightarrow> c);
          c = (case set_validate_on_borrow v of Some b \<Rightarrow> c\<lparr>ValidateOnBorrow := b\<rparr> | None \<Rightarrow> c)
      in (case set_validate_on_return v of Some b \<Rightarrow> c\<lparr>ValidateOnReturn := b\<rparr> | None \<Rightarrow> c))"

subsection \<open>The manager (manager.go)\<close>

record ('a, 'c, 'w) pool_entry =
  pe_factory :: "('a, 'c, 'w) resource_factory"
  pe_pool :: "nat resource_pool"
  pe_who :: "nat \<Rightarrow> nat borrower"

record ('a, 'w) type_funcs =
  tf_CloseFunc :: "('a \<Rightarrow> 'w \<Rightarrow> bool \<times> 'w) option"
  tf_IsValidFunc :: "('a \<Rightarrow> 'w \<Rightarrow> bool) option"
  tf_ResetFunc :: "('a \<Rightarrow> 'w \<Rightarrow> bool \<times> 'w) option"

record ('a, 'c, 'w) pool_manager =
  m_pools :: "(string \<times> ('a, 'c, 'w) pool_entry) list"
  m_creators :: "string \<Rightarrow> (nat \<times> ('a, 'c, 'w) creator_func) option"
  m_closeFuncs :: "string \<Rightarrow> ('a \<Rightarrow> 'w \<Rightarrow> bool \<times> 'w) option"
  m_isValidFuncs :: "string \<Rightarrow> ('a \<Rightarrow> 'w \<Rightarrow> bool) option"
  m_resetFuncs :: "string \<Rightarrow> ('a \<Rightarrow> 'w \<Rightarrow> bool \<times> 'w) option"
  m_heap :: "('a, 'w) wheap"

datatype mgr_error = ErrTypeRegistered | ErrTypeNotRegistered | ErrCreatorType | ErrCreatePool pool_error
  | ErrWrapperType | ErrPool pool_error

definition RegisterResourceType :: "nat \<Rightarrow> string \<Rightarrow> ('a, 'c, 'w) creator_func \<Rightarrow> ('a, 'w) type_funcs
    \<Rightarrow> ('a, 'c, 'w) pool_manager \<Rightarrow> mgr_error option \<times> ('a, 'c, 'w) pool_manager" where
  "RegisterResourceType T resourceType creator config mgr =
     (if m_creators mgr resourceType \<noteq> None then (Some ErrTypeRegistered, mgr)
      else
        let mgr = mgr\<lparr>m_creators := (m_creators mgr)(resourceType \<mapsto> (T, creator))\<rparr>;
            mgr = (if tf_CloseFunc config \<noteq> None
                   then mgr\<lparr>m_closeFuncs := (m_closeFuncs mgr)(resourceType := tf_CloseFunc config)\<rparr> else mgr);
            mgr = (if tf_IsValidFunc config \<noteq> None
                   then mgr\<lparr>m_isValidFuncs := (m_isValidFuncs mgr)(resourceType := tf_IsValidFunc config)\<rparr> else mgr);
            mgr = (if tf_ResetFunc config \<noteq> None
                   then mgr\<lparr>m_resetFuncs := (m_resetFuncs mgr)(resourceType := tf_ResetFunc config)\<rparr> else mgr)
        in (None, mgr))"

text \<open>The factory \<open>getOrCreatePool\<close> builds: its closures look the registered function up and have a default.\<close>

definition make_factory :: "nat \<Rightarrow> string \<Rightarrow> string \<Rightarrow> 'c \<Rightarrow> string \<Rightarrow> ('a, 'c, 'w) creator_func
    \<Rightarrow> ('a, 'c, 'w) pool_manager \<Rightarrow> ('a, 'c, 'w) resource_factory" where
  "make_factory T resourceType provider config configKey creator mgr =
     \<lparr>rf_type = T, rf_resourceType = resourceType, rf_provider = provider, rf_config = config, rf_configKey = configKey,
      rf_creator = creator,
      rf_closeFunc = Some (\<lambda>p w. case m_closeFuncs mgr resourceType of Some f \<Rightarrow> f p w | None \<Rightarrow> (True, w)),
      rf_isValidFunc = Some (\<lambda>p w. case m_isValidFuncs mgr resourceType of Some f \<Rightarrow> f p w | None \<Rightarrow> True),
      rf_resetFunc = Some (\<lambda>p w. case m_resetFuncs mgr resourceType of Some f \<Rightarrow> f p w | None \<Rightarrow> (True, w))\<rparr>"

definition getOrCreatePool :: "('a \<Rightarrow> bool) \<Rightarrow> (string \<Rightarrow> 'c \<Rightarrow> 64 word option) \<Rightarrow> pool_settings \<Rightarrow> instant
    \<Rightarrow> nat \<Rightarrow> string \<Rightarrow> string \<Rightarrow> 'c \<Rightarrow> ('a, 'c, 'w) pool_manager \<Rightarrow> (mgr_error + string) \<times> ('a, 'c, 'w) pool_manager" where
  "getOrCreatePool nonzero hash settings now T resourceType provider config mgr =
     (let configKey = GenerateConfigKey hash provider config;
          poolKey = pool_key resourceType configKey
      in case map_of (m_pools mgr) poolKey of
           Some _ \<Rightarrow> (Inr poolKey, mgr)
         | None \<Rightarrow>
             (case m_creators mgr resourceType of
                None \<Rightarrow> (Inl ErrTypeNotRegistered, mgr)
              | Some (T', creator) \<Rightarrow>
                  if T' \<noteq> T then (Inl ErrCreatorType, mgr)
                  else
                    let factory = make_factory T resourceType provider config configKey creator mgr in
                    case NewResourcePool (Some (getPoolConfig settings)) (Some (wrapper_factory nonzero factory)) now (m_heap mgr) of
                      (Inl err, H) \<Rightarrow> (Inl (ErrCreatePool err), mgr\<lparr>m_heap := H\<rparr>)
                    | (Inr pool, H) \<Rightarrow>
                        (Inr poolKey, mgr\<lparr>m_heap := H,
                           m_pools := AList.update poolKey \<lparr>pe_factory = factory, pe_pool = pool, pe_who = (\<lambda>_. BorrowIdle)\<rparr> (m_pools mgr)\<rparr>)))"

text \<open>The pool-level steps of one pool of the manager: they act on its entry and on the common heap.\<close>

definition mgr_pool_step :: "('a \<Rightarrow> bool) \<Rightarrow> instant \<Rightarrow> string \<Rightarrow> pool_event
    \<Rightarrow> ('a, 'c, 'w) pool_manager \<Rightarrow> ('a, 'c, 'w) pool_manager option" where
  "mgr_pool_step nonzero now key ev mgr =
     (case map_of (m_pools mgr) key of
        None \<Rightarrow> None
      | Some e \<Rightarrow>
          (case pstep (wrapper_factory nonzero (pe_factory e)) now ev
                  \<lparr>ps_pool = pe_pool e, ps_world = m_heap mgr, ps_who = pe_who e\<rparr> of
             None \<Rightarrow> None
           | Some s \<Rightarrow> Some (mgr\<lparr>m_heap := ps_world s,
                m_pools := AList.update key (e\<lparr>pe_pool := ps_pool s, pe_who := ps_who s\<rparr>) (m_pools mgr)\<rparr>)))"

text \<open>\<open>Release\<close>: the key is recomputed from the wrapper; an unknown pool is only logged.\<close>

definition mgr_Release :: "('a \<Rightarrow> bool) \<Rightarrow> instant \<Rightarrow> nat \<Rightarrow> ('a, 'c, 'w) pool_manager
    \<Rightarrow> mgr_error option \<times> ('a, 'c, 'w) pool_manager" where
  "mgr_Release nonzero now r mgr =
     (case wh_obj (m_heap mgr) r of
        None \<Rightarrow> (None, mgr)
      | Some wrapper \<Rightarrow>
          let poolKey = pool_key (rw_resourceType wrapper) (rw_configKey wrapper) in
          case map_of (m_pools mgr) poolKey of
            None \<Rightarrow> (None, mgr)
          | Some e \<Rightarrow>
              (case Release (wrapper_factory nonzero (pe_factory e)) now r (pe_pool e, m_heap mgr) of
                 (err, pool, H) \<Rightarrow>
                   (map_option ErrPool err, mgr\<lparr>m_heap := H, m_pools := AList.update poolKey (e\<lparr>pe_pool := pool\<rparr>) (m_pools mgr)\<rparr>)))"

text \<open>The end of \<open>Acquire[T]\<close>: the type assertion on what the pool handed out.\<close>

definition mgr_Acquire_check :: "('a \<Rightarrow> bool) \<Rightarrow> instant \<Rightarrow> nat \<Rightarrow> string \<Rightarrow> nat \<Rightarrow> ('a, 'c, 'w) pool_manager
    \<Rightarrow> (mgr_error + nat) \<times> ('a, 'c, 'w) pool_manager" where
  "mgr_Acquire_check nonzero now T key r mgr =
     (case wh_obj (m_heap mgr) r of
        Some wrapper \<Rightarrow>
          if rw_type wrapper = T then (Inr r, mgr)
          else (case map_of (m_pools mgr) key of
                  None \<Rightarrow> (Inl ErrWrapperType, mgr)
                | Some e \<Rightarrow>
                    (case Release (wrapper_factory nonzero (pe_factory e)) now r (pe_pool e, m_heap mgr) of
                       (_, pool, H) \<Rightarrow>
                         (Inl ErrWrapperType, mgr\<lparr>m_heap := H, m_pools := AList.update key (e\<lparr>pe_pool := pool\<rparr>) (m_pools mgr)\<rparr>)))
      | None \<Rightarrow> (Inl ErrWrapperType, mgr))"

definition GetStats :: "('a, 'c, 'w) pool_manager \<Rightarrow> (string \<times> pool_stats) list" where
  "GetStats mgr = map (\<lambda>(k, e). (k, pool_Stats (pe_pool e))) (m_pools mgr)"

definition mgr_close_one :: "('a \<Rightarrow> bool) \<Rightarrow> string \<times> ('a, 'c, 'w) pool_entry
    \<Rightarrow> (string \<times> ('a, 'c, 'w) pool_entry) list \<times> ('a, 'w) wheap \<Rightarrow> (string \<times> ('a, 'c, 'w) pool_entry) list \<times> ('a, 'w) wheap" where
  "mgr_close_one nonzero ke st =
     (case ke of (k, e) \<Rightarrow> case st of (es, H) \<Rightarrow>
        (case pool_Close (wrapper_factory nonzero (pe_factory e)) (pe_pool e, H) of
           (p, H) \<Rightarrow> (es @ [(k, e\<lparr>pe_pool := p\<rparr>)], H)))"

text \<open>\<open>Close\<close> closes every pool; \<open>pool.Close\<close> never fails. The pools stay registered.\<close>

definition mgr_Close :: "('a \<Rightarrow> bool) \<Rightarrow> ('a, 'c, 'w) pool_manager \<Rightarrow> ('a, 'c, 'w) pool_manager" where
  "mgr_Close nonzero mgr =
     (case fold (mgr_close_one nonzero) (m_pools mgr) ([], m_heap mgr) of
        (es, H) \<Rightarrow> mgr\<lparr>m_pools := es, m_heap := H\<rparr>)"


text \<open>One call of the manager: registering a type, finding or making a pool, a pool-level step, closing everything.\<close>

datatype ('a, 'c, 'w) mgr_call =
    MRegister nat string "('a, 'c, 'w) creator_func" "('a, 'w) type_funcs"
  | MGetPool nat string string 'c
  | MPool string pool_event
  | MClose

definition mgr_exec :: "('a \<Rightarrow> bool) \<Rightarrow> (string \<Rightarrow> 'c \<Rightarrow> 64 word option) \<Rightarrow> pool_settings \<Rightarrow> instant \<Rightarrow> ('a, 'c, 'w) mgr_call
    \<Rightarrow> ('a, 'c, 'w) pool_manager \<Rightarrow> ('a, 'c, 'w) pool_manager option" where
  "mgr_exec nonzero hash settings now c mgr =
     (case c of
        MRegister T rt cr tf \<Rightarrow> Some (snd (RegisterResourceType T rt cr tf mgr))
      | MGetPool T rt pv cfg \<Rightarrow> Some (snd (getOrCreatePool nonzero hash settings now T rt pv cfg mgr))
      | MPool key ev \<Rightarrow> mgr_pool_step nonzero now key ev mgr
      | MClose \<Rightarrow> Some (mgr_Close nonzero mgr))"

fun mgr_run :: "('a \<Rightarrow> bool) \<Rightarrow> (string \<Rightarrow> 'c \<Rightarrow> 64 word option) \<Rightarrow> pool_settings
    \<Rightarrow> (instant \<times> ('a, 'c, 'w) mgr_call) list \<Rightarrow> ('a, 'c, 'w) pool_manager \<Rightarrow> ('a, 'c, 'w) pool_manager option" where
  "mgr_run nonzero hash settings [] mgr = Some mgr"
| "mgr_run nonzero hash settings ((now, c) # cs) mgr =
     (case mgr_exec nonzero hash settings now c mgr of None \<Rightarrow> None | Some mgr \<Rightarrow> mgr_run nonzero hash settings cs mgr)"

definition empty_manager :: "'w \<Rightarrow> ('a, 'c, 'w) pool_manager" where
  "empty_manager w = \<lparr>m_pools = [], m_creators = Map.empty, m_closeFuncs = Map.empty, m_isValidFuncs = Map.empty,
     m_resetFuncs = Map.empty, m_heap = \<lparr>wh_next = 0, wh_obj = Map.empty, wh_world = w\<rparr>\<rparr>"

subsection \<open>The wrapper factory keeps the pool's contracts\<close>

text \<open>The wrappers made for the pool \<open>key\<close>.\<close>

definition made_for :: "string \<Rightarrow> ('a, 'w) wheap \<Rightarrow> nat set" where
  "made_for key H = {r. r < wh_next H \<and>
     (\<exists>o1. wh_obj H r = Some o1 \<and> pool_key (rw_resourceType o1) (rw_configKey o1) = key)}"

definition factory_key :: "('a, 'c, 'w) resource_factory \<Rightarrow> string" where
  "factory_key f = pool_key (rf_resourceType f) (rf_configKey f)"

definition heap_ext :: "('a, 'w) wheap \<Rightarrow> ('a, 'w) wheap \<Rightarrow> bool" where
  "heap_ext H H' \<longleftrightarrow> wh_next H \<le> wh_next H' \<and> (\<forall>r < wh_next H. wh_obj H' r = wh_obj H r)"

lemma heap_ext_world: "heap_ext H (H\<lparr>wh_world := w\<rparr>)"
  by (simp add: heap_ext_def)

lemma heap_ext_refl: "heap_ext H H"
  by (simp add: heap_ext_def)

lemma heap_ext_run_on: "heap_ext H (snd (run_on fn p H))"
  by (auto simp: run_on_def heap_ext_refl heap_ext_world split: option.splits prod.splits)

lemma heap_ext_made: "heap_ext H H' \<Longrightarrow> made_for key H \<subseteq> made_for key H'"
  by (auto simp: heap_ext_def made_for_def)

lemma heap_ext_create: "heap_ext H (snd (factory_Create f H))"
  by (auto simp: factory_Create_def heap_ext_def split: prod.splits option.splits)

lemma heap_ext_reset: "heap_ext H (snd (factory_Reset f r H))"
  by (auto simp: factory_Reset_def wrapper_Reset_def heap_ext_refl heap_ext_run_on split: option.splits)

lemma heap_ext_close: "heap_ext H (snd (wrapper_Close r H))"
  by (auto simp: wrapper_Close_def heap_ext_refl heap_ext_run_on split: option.splits)

interpretation heap_grows: factory_grows "wrapper_factory nonzero f" heap_ext for nonzero f
  by unfold_locales
    (auto simp: wrapper_factory_def heap_ext_refl heap_ext_create heap_ext_reset heap_ext_close, auto simp: heap_ext_def)

interpretation wrap: factory_laws "wrapper_factory nonzero f" "made_for (factory_key f)"
  for nonzero :: "'a \<Rightarrow> bool" and f :: "('a, 'c, 'w) resource_factory"
proof unfold_locales
  fix w w' :: "('a, 'w) wheap" and r res ok
  show "r \<notin> made_for (factory_key f) w \<and> r \<in> made_for (factory_key f) w'"
    if "f_create (wrapper_factory nonzero f) w = (Some r, w')"
    using that by (auto simp: wrapper_factory_def factory_Create_def made_for_def factory_key_def split: prod.splits option.splits)
  show "made_for (factory_key f) w \<subseteq> made_for (factory_key f) w'" if "f_create (wrapper_factory nonzero f) w = (res, w')"
    using that heap_ext_made [OF heap_ext_create [of w f], of "factory_key f"] by (metis snd_conv pool_factory.select_convs(1) wrapper_factory_def)
  show "made_for (factory_key f) w \<subseteq> made_for (factory_key f) w'" if "f_reset (wrapper_factory nonzero f) r w = (ok, w')"
    using that heap_ext_made [OF heap_ext_reset [of w f r], of "factory_key f"] by (metis snd_conv pool_factory.select_convs(4) wrapper_factory_def)
  show "made_for (factory_key f) w \<subseteq> made_for (factory_key f) (f_close (wrapper_factory nonzero f) r w)"
    by (simp add: wrapper_factory_def heap_ext_made heap_ext_close)
qed

subsection \<open>The manager's invariant\<close>

text \<open>Every pool stands under the key of its factory, keeps the pool invariant, and only has wrappers made for it.\<close>

definition entry_ok :: "('a, 'w) wheap \<Rightarrow> string \<times> ('a, 'c, 'w) pool_entry \<Rightarrow> bool" where
  "entry_ok H ke \<longleftrightarrow> (case ke of (k, e) \<Rightarrow>
     factory_key (pe_factory e) = k \<and> pool_inv (made_for k) (pe_pool e) H (pe_who e))"

definition mgr_inv :: "('a, 'c, 'w) pool_manager \<Rightarrow> bool" where
  "mgr_inv mgr \<longleftrightarrow> distinct (map fst (m_pools mgr)) \<and> (\<forall>ke\<in>set (m_pools mgr). entry_ok (m_heap mgr) ke)"

lemma pool_inv_ext: "pool_inv (made_for k) p H C \<Longrightarrow> heap_ext H H' \<Longrightarrow> pool_inv (made_for k) p H' C"
  using heap_ext_made [of H H' k] pool_inv_world [where made = "made_for k"] by blast

lemma entry_ok_ext: "entry_ok H ke \<Longrightarrow> heap_ext H H' \<Longrightarrow> entry_ok H' ke"
  by (auto simp: entry_ok_def intro: pool_inv_ext)

lemma mgr_inv_heap: "mgr_inv mgr \<Longrightarrow> heap_ext (m_heap mgr) H \<Longrightarrow> mgr_inv (mgr\<lparr>m_heap := H\<rparr>)"
  unfolding mgr_inv_def by (auto intro: entry_ok_ext)

lemma set_alist_update: "distinct (map fst xs) \<Longrightarrow> set (AList.update k v xs) = {(k, v)} \<union> {x \<in> set xs. fst x \<noteq> k}"
proof (induction xs)
  case (Cons x xs)
  then show ?case by (cases x) (auto simp: rev_image_eqI)
qed simp

lemma mgr_inv_update:
  assumes inv: "mgr_inv mgr" and ext: "heap_ext (m_heap mgr) H" and key: "factory_key (pe_factory e) = k"
    and p: "pool_inv (made_for k) (pe_pool e) H (pe_who e)"
  shows "mgr_inv (mgr\<lparr>m_heap := H, m_pools := AList.update k e (m_pools mgr)\<rparr>)"
  using mgr_inv_heap [OF inv ext] key p
  by (auto simp: mgr_inv_def distinct_update set_alist_update entry_ok_def)

lemma mgr_inv_entry:
  assumes "mgr_inv mgr" and "map_of (m_pools mgr) k = Some e"
  shows "factory_key (pe_factory e) = k" and "pool_inv (made_for k) (pe_pool e) (m_heap mgr) (pe_who e)"
  using assms by (auto simp: mgr_inv_def entry_ok_def dest!: map_of_SomeD)

lemma mgr_pool_step_inv:
  assumes inv: "mgr_inv mgr" and st: "mgr_pool_step nonzero now key ev mgr = Some mgr'"
  shows "mgr_inv mgr'"
proof -
  obtain e s where e: "map_of (m_pools mgr) key = Some e"
    and s: "pstep (wrapper_factory nonzero (pe_factory e)) now ev \<lparr>ps_pool = pe_pool e, ps_world = m_heap mgr, ps_who = pe_who e\<rparr> = Some s"
    and mgr': "mgr' = mgr\<lparr>m_heap := ps_world s, m_pools := AList.update key (e\<lparr>pe_pool := ps_pool s, pe_who := ps_who s\<rparr>) (m_pools mgr)\<rparr>"
    using st by (auto simp: mgr_pool_step_def split: option.splits)
  note ent = mgr_inv_entry [OF inv e]
  have "pool_inv (made_for key) (ps_pool s) (ps_world s) (ps_who s)"
    using wrap.pstep_inv [OF _ s] ent by simp
  then show ?thesis unfolding mgr' using heap_grows.R_pstep [OF s] ent by (intro mgr_inv_update [OF inv]) simp_all
qed

lemma getOrCreatePool_inv:
  assumes inv: "mgr_inv mgr" and g: "getOrCreatePool nonzero hash settings now T rt pv cfg mgr = (res, mgr')"
  shows "mgr_inv mgr'"
proof -
  define ck where "ck = GenerateConfigKey hash pv cfg"
  define key where "key = pool_key rt ck"
  show ?thesis
  proof (cases "map_of (m_pools mgr) key = None \<and> (\<exists>cr. m_creators mgr rt = Some (T, cr))")
    case False
    then show ?thesis using g inv
      by (auto simp: getOrCreatePool_def Let_def ck_def key_def split: option.splits if_splits)
  next
    case True
    then obtain cr where cr: "m_creators mgr rt = Some (T, cr)" and none: "map_of (m_pools mgr) key = None" by blast
    define f where "f = make_factory T rt pv cfg ck cr mgr"
    have fk: "factory_key f = key" by (simp add: f_def make_factory_def factory_key_def key_def)
    obtain r H where N: "NewResourcePool (Some (getPoolConfig settings)) (Some (wrapper_factory nonzero f)) now (m_heap mgr) = (r, H)"
      by (cases "NewResourcePool (Some (getPoolConfig settings)) (Some (wrapper_factory nonzero f)) now (m_heap mgr)")
    have ext: "heap_ext (m_heap mgr) H"
      using heap_grows.R_New [where w = "m_heap mgr" and f = f and nonzero = nonzero and cfg = "Some (getPoolConfig settings)" and now = now] N
      by simp
    show ?thesis
    proof (cases r)
      case (Inl err)
      then have "mgr' = mgr\<lparr>m_heap := H\<rparr>" using g cr none N
        by (simp add: getOrCreatePool_def Let_def ck_def [symmetric] key_def [symmetric] f_def [symmetric])
      then show ?thesis using mgr_inv_heap [OF inv ext] by simp
    next
      case (Inr p)
      let ?e = "\<lparr>pe_factory = f, pe_pool = p, pe_who = \<lambda>_. BorrowIdle\<rparr>"
      have "mgr' = mgr\<lparr>m_heap := H, m_pools := AList.update key ?e (m_pools mgr)\<rparr>" using g cr none N Inr
        by (simp add: getOrCreatePool_def Let_def ck_def [symmetric] key_def [symmetric] f_def [symmetric])
      moreover have "pool_inv (made_for key) p H (\<lambda>_. BorrowIdle)"
        using wrap.NewResourcePool_inv [OF N [unfolded Inr]] fk by simp
      ultimately show ?thesis using mgr_inv_update [OF inv ext, of ?e key] fk by simp
    qed
  qed
qed

lemma Register_pools:
  "m_pools (snd (RegisterResourceType T rt cr tf mgr)) = m_pools mgr"
  "m_heap (snd (RegisterResourceType T rt cr tf mgr)) = m_heap mgr"
  by (auto simp: RegisterResourceType_def Let_def)

lemma close_fold:
  assumes "\<forall>ke\<in>set (es @ xs). entry_ok H ke"
    and "fold (mgr_close_one nonzero) xs (es, H) = (es', H')"
  shows "map fst es' = map fst (es @ xs) \<and> (\<forall>ke\<in>set es'. entry_ok H' ke)"
  using assms
proof (induction xs arbitrary: es H)
  case (Cons x xs)
  obtain k e where x: "x = (k, e)" by (cases x)
  obtain p1 H1 where c: "pool_Close (wrapper_factory nonzero (pe_factory e)) (pe_pool e, H) = (p1, H1)"
    by (cases "pool_Close (wrapper_factory nonzero (pe_factory e)) (pe_pool e, H)")
  have ke: "factory_key (pe_factory e) = k" "pool_inv (made_for k) (pe_pool e) H (pe_who e)" using Cons.prems(1) x by (auto simp: entry_ok_def)
  have p1: "pool_inv (made_for k) p1 H1 (pe_who e)" using wrap.pool_Close_inv [OF _ c] ke by simp
  have ext: "heap_ext H H1" using heap_grows.R_Close [of H nonzero "pe_factory e" "pe_pool e"] c by simp
  let ?es = "es @ [(k, e\<lparr>pe_pool := p1\<rparr>)]"
  have "entry_ok H1 (k, e\<lparr>pe_pool := p1\<rparr>)" using ke p1 by (simp add: entry_ok_def)
  then have "\<forall>ke\<in>set (?es @ xs). entry_ok H1 ke" using Cons.prems(1) entry_ok_ext [OF _ ext] by auto
  from Cons.IH [OF this] Cons.prems(2) show ?case by (simp add: x c mgr_close_one_def)
qed simp

lemma mgr_Close_inv:
  assumes "mgr_inv mgr" shows "mgr_inv (mgr_Close nonzero mgr)"
proof -
  obtain es H where f: "fold (mgr_close_one nonzero) (m_pools mgr) ([], m_heap mgr) = (es, H)"
    by (cases "fold (mgr_close_one nonzero) (m_pools mgr) ([], m_heap mgr)")
  show ?thesis using close_fold [OF _ f] assms f by (auto simp: mgr_inv_def mgr_Close_def)
qed

lemma mgr_exec_inv:
  assumes "mgr_inv mgr" and "mgr_exec nonzero hash settings now c mgr = Some mgr'"
  shows "mgr_inv mgr'"
proof (cases c)
  case (MRegister T rt cr tf)
  then show ?thesis using assms Register_pools [of T rt cr tf mgr] by (auto simp: mgr_exec_def mgr_inv_def)
next
  case (MGetPool T rt pv cfg)
  then show ?thesis using assms getOrCreatePool_inv [OF assms(1) surjective_pairing] by (auto simp: mgr_exec_def)
next
  case (MPool key ev)
  then show ?thesis using assms mgr_pool_step_inv by (auto simp: mgr_exec_def)
next
  case MClose
  then show ?thesis using assms mgr_Close_inv by (auto simp: mgr_exec_def)
qed

lemma mgr_run_inv:
  "mgr_run nonzero hash settings cs mgr = Some mgr' \<Longrightarrow> mgr_inv mgr \<Longrightarrow> mgr_inv mgr'"
proof (induction cs arbitrary: mgr)
  case (Cons x cs)
  obtain now c where "x = (now, c)" by (cases x)
  then show ?case using Cons by (auto split: option.splits intro: mgr_exec_inv)
qed simp

lemma empty_manager_inv: "mgr_inv (empty_manager w)"
  by (simp add: mgr_inv_def empty_manager_def)


subsection \<open>Properties of the pools\<close>

text \<open>
  C12. However borrowers, the cleanup goroutine, resizing and closing interleave on a pool made by
  \<open>NewResourcePool\<close>: no resource is handed to two borrowers, none that is handed out is also idle, the
  pool never exceeds its maximum nor the channel its capacity, and while the pool is open no resource is
  lost: each managed one is idle and unused, or claimed by exactly one borrower.
\<close>

theorem pool_exclusive:
  assumes new: "NewResourcePool cfg (Some (wrapper_factory nonzero f)) now H = (Inr p, H')"
    and run: "prun (wrapper_factory nonzero f) evs \<lparr>ps_pool = p, ps_world = H', ps_who = (\<lambda>_. BorrowIdle)\<rparr> = Some s"
  shows "(\<forall>t u r. claims (ps_who s t) = Some r \<and> claims (ps_who s u) = Some r \<longrightarrow> t = u) \<and>
    (\<forall>t r. claims (ps_who s t) = Some r \<longrightarrow> r \<notin> set (p_available (ps_pool s))) \<and>
    int (length (p_resources (ps_pool s))) \<le> MaxSize (p_config (ps_pool s)) \<and>
    length (p_available (ps_pool s)) \<le> p_chan_cap (ps_pool s) \<and> distinct (p_available (ps_pool s)) \<and>
    (\<not> p_closed (ps_pool s) \<longrightarrow> (\<forall>r e. map_of (p_resources (ps_pool s)) r = Some e \<longrightarrow>
       (if r \<in> set (p_available (ps_pool s)) then \<not> pr_inUse e
        else \<exists>!t. claims (ps_who s t) = Some r)))"
proof -
  have inv: "pool_inv (made_for (factory_key f)) (ps_pool s) (ps_world s) (ps_who s)"
    using wrap.prun_inv [OF run] wrap.NewResourcePool_inv [OF new] by simp
  note own = pool_ownD [OF pool_inv_own [OF inv]]
  have one: "\<exists>!t. claims (ps_who s t) = Some r"
    if "\<not> p_closed (ps_pool s)" "map_of (p_resources (ps_pool s)) r = Some e" "r \<notin> set (p_available (ps_pool s))" for r e
    using own(7) [OF that] own(5) by blast
  have idle: "\<not> pr_inUse e" if "r \<in> set (p_available (ps_pool s))" "map_of (p_resources (ps_pool s)) r = Some e" for r e
    using own(1) [OF that(1)] that(2) by simp
  show ?thesis
  proof (intro conjI allI impI)
    fix r e assume "\<not> p_closed (ps_pool s)" and e: "map_of (p_resources (ps_pool s)) r = Some e"
    then show "if r \<in> set (p_available (ps_pool s)) then \<not> pr_inUse e else \<exists>!t. claims (ps_who s t) = Some r"
      using one [OF _ e] idle [OF _ e] by simp
  qed (use pool_invD [OF inv] own(2,5) in blast)+
qed

text \<open>A provider that is a number, created by counting, never invalid: the smallest registered type.\<close>

definition demo_factory :: "(nat, unit, nat) resource_factory" where
  "demo_factory = \<lparr>rf_type = 0, rf_resourceType = ''vad'', rf_provider = ''silero'', rf_config = (), rf_configKey = ''k'',
     rf_creator = (\<lambda>_ _ _ n. (Some n, Suc n)), rf_closeFunc = None, rf_isValidFunc = None, rf_resetFunc = None\<rparr>"

definition demo_heap :: "(nat, nat) wheap" where
  "demo_heap = \<lparr>wh_next = 0, wh_obj = Map.empty, wh_world = 0\<rparr>"

definition demo_run :: "(instant \<times> pool_event) list" where
  "demo_run = [(1, EvAcquire 0), (1, EvStep 0 ChooseDone), (2, EvAcquire 1), (2, EvStep 1 ChooseDone), (3, EvStep 0 ChooseAvail),
     (3, EvStep 1 ChooseDefault)]"

theorem pool_exclusive_witness:
  "\<exists>p H' s. NewResourcePool None (Some (wrapper_factory (\<lambda>_. True) demo_factory)) 0 demo_heap = (Inr p, H') \<and>
     prun (wrapper_factory (\<lambda>_. True) demo_factory) demo_run \<lparr>ps_pool = p, ps_world = H', ps_who = (\<lambda>_. BorrowIdle)\<rparr> = Some s \<and>
     ps_who s 0 = AcqGot 0 \<and> ps_who s 1 = Holding 1 \<and>
     int (length (p_resources (ps_pool s))) \<le> MaxSize (p_config (ps_pool s)) \<and> 0 \<notin> set (p_available (ps_pool s))"
proof -
  obtain p H' where new: "NewResourcePool None (Some (wrapper_factory (\<lambda>_. True) demo_factory)) 0 demo_heap = (Inr p, H')"
    and pH: "p = \<lparr>p_config = DefaultConfig, p_available = [0], p_chan_cap = 1000, p_chan_closed = False,
       p_resources = [(0, entry 0 False)], p_closed = False\<rparr>" "wh_next H' = 1" "wh_world H' = 1"
    by (simp add: NewResourcePool_def DefaultConfig_def wrapper_factory_def factory_Create_def demo_factory_def demo_heap_def Let_def)
  obtain s where run: "prun (wrapper_factory (\<lambda>_. True) demo_factory) demo_run \<lparr>ps_pool = p, ps_world = H', ps_who = (\<lambda>_. BorrowIdle)\<rparr> = Some s"
    and who: "ps_who s 0 = AcqGot 0" "ps_who s 1 = Holding 1"
    using pH by (simp add: demo_run_def pstep_def tryCreateResource_def DefaultConfig_def wrapper_factory_def factory_Create_def demo_factory_def)
  have "claims (ps_who s 0) = Some 0" using who by simp
  with pool_exclusive [OF new run] new run who show ?thesis by blast
qed

text \<open>
  C13. The manager routes every wrapper home: in any state it can reach, a wrapper that a borrower holds
  from the pool \<open>key\<close> is released to that very pool, without an error unless that pool is closed, and to no
  other pool: no other pool of the manager has it.
\<close>

theorem mgr_Release_routes_home:
  assumes run: "mgr_run nonzero hash settings cs (empty_manager w) = Some mgr"
    and e: "map_of (m_pools mgr) key = Some e" and t: "pe_who e t = Holding r"
    and rel: "Release (wrapper_factory nonzero (pe_factory e)) now r (pe_pool e, m_heap mgr) = (err, pool, H)"
  shows "mgr_Release nonzero now r mgr =
      (if p_closed (pe_pool e) then Some (ErrPool ErrPoolClosed) else None,
       mgr\<lparr>m_heap := H, m_pools := AList.update key (e\<lparr>pe_pool := pool\<rparr>) (m_pools mgr)\<rparr>) \<and>
    (\<forall>k' e'. k' \<noteq> key \<longrightarrow> map_of (m_pools mgr) k' = Some e' \<longrightarrow>
       r \<notin> fst ` set (p_resources (pe_pool e')) \<and> (\<forall>u. claims (pe_who e' u) \<noteq> Some r))"
proof -
  have inv: "mgr_inv mgr" by (rule mgr_run_inv [OF run empty_manager_inv])
  note ent = mgr_inv_entry [OF inv e]
  have ct: "claims (pe_who e t) = Some r" using t by simp
  have home: "r \<in> made_for key (m_heap mgr)" by (rule pool_own_made [OF pool_inv_own [OF ent(2)] ct])
  then obtain o1 where o1: "wh_obj (m_heap mgr) r = Some o1" "pool_key (rw_resourceType o1) (rw_configKey o1) = key"
    by (auto simp: made_for_def)
  have err: "err = (if p_closed (pe_pool e) then Some ErrPoolClosed else None)"
    using wrap.Release_holder [of "pe_factory e" "pe_pool e" "m_heap mgr" "pe_who e" t r nonzero now] t rel ent by simp
  have other: "r \<notin> fst ` set (p_resources (pe_pool e')) \<and> (\<forall>u. claims (pe_who e' u) \<noteq> Some r)"
    if "k' \<noteq> key" "map_of (m_pools mgr) k' = Some e'" for k' e'
  proof -
    note own = pool_inv_own [OF mgr_inv_entry(2) [OF inv that(2)]]
    have "r \<notin> made_for k' (m_heap mgr)" using o1 that(1) by (auto simp: made_for_def)
    then show ?thesis using pool_own_keys [OF own] pool_own_made [OF own] by (metis map_of_eq_None_iff not_None_eq)
  qed
  show ?thesis using o1 e rel err other by (auto simp: mgr_Release_def)
qed


definition demo_settings :: pool_settings where
  "demo_settings = \<lparr>set_max_size = None, set_min_size = None, set_max_idle = None, set_acquire_timeout = None,
     set_idle_timeout = None, set_validate_on_borrow = None, set_validate_on_return = None\<rparr>"

definition demo_calls :: "(instant \<times> (nat, unit, nat) mgr_call) list" where
  "demo_calls = [(0, MRegister 0 ''vad'' (\<lambda>_ _ _ n. (Some n, Suc n)) \<lparr>tf_CloseFunc = None, tf_IsValidFunc = None, tf_ResetFunc = None\<rparr>),
     (1, MGetPool 0 ''vad'' ''s'' ()), (2, MPool ''vad:s'' (EvAcquire 0)), (2, MPool ''vad:s'' (EvStep 0 ChooseDone)),
     (3, MPool ''vad:s'' (EvStep 0 ChooseAvail)), (3, MPool ''vad:s'' (EvStep 0 ChooseDone)), (3, MPool ''vad:s'' (EvStep 0 ChooseDone))]"

lemmas demo_eval = demo_calls_def mgr_exec_def RegisterResourceType_def getOrCreatePool_def pool_key_def GenerateConfigKey_def
  make_factory_def getPoolConfig_def demo_settings_def NewResourcePool_def DefaultConfig_def wrapper_factory_def factory_Create_def
  Let_def mgr_pool_step_def pstep_def wrapper_IsValid_def factory_Validate_def factory_Reset_def run_on_def empty_manager_def

theorem mgr_Release_routes_home_witness:
  "\<exists>mgr e. mgr_run (\<lambda>_. True) (\<lambda>_ _. None) demo_settings demo_calls (empty_manager 0) = Some mgr \<and>
     map_of (m_pools mgr) ''vad:s'' = Some e \<and> pe_who e 0 = Holding 0 \<and>
     fst (mgr_Release (\<lambda>_. True) 9 0 mgr) = None"
proof -
  obtain mgr e where run: "mgr_run (\<lambda>_. True) (\<lambda>_ _. None) demo_settings demo_calls (empty_manager 0) = Some mgr"
    and e: "map_of (m_pools mgr) ''vad:s'' = Some e" "pe_who e 0 = Holding 0" "\<not> p_closed (pe_pool e)"
    by (simp add: demo_eval)
  obtain err p H where rel: "Release (wrapper_factory (\<lambda>_. True) (pe_factory e)) 9 0 (pe_pool e, m_heap mgr) = (err, p, H)"
    by (cases "Release (wrapper_factory (\<lambda>_. True) (pe_factory e)) 9 0 (pe_pool e, m_heap mgr)")
  from mgr_Release_routes_home [OF run e(1,2) rel] run e show ?thesis by auto
qed

end
