(* ===== verification/Sentence.thy ===== *)
theory Sentence
  imports Prelude "HOL-Library.Multiset" "HOL-Library.Sublist"
begin

text \<open>
  Sentence splitting for speech output: \<open>internal/util/sentence.go\<close>. Text is a list of code points
  (\<open>[]rune(text)\<close>), an index a natural number, \<open>-1\<close> is \<open>None\<close>. The object pools of the source only reuse
  buffers and do not show here.
\<close>

subsection \<open>Punctuation tables\<close>

definition blank :: "rune \<Rightarrow> bool" where "blank r \<longleftrightarrow> r = 32 \<or> r = 9"
definition blank_nl :: "rune \<Rightarrow> bool" where "blank_nl r \<longleftrightarrow> r = 32 \<or> r = 9 \<or> r = 10"
definition ascii_digit :: "rune \<Rightarrow> bool" where "ascii_digit r \<longleftrightarrow> 48 \<le> r \<and> r \<le> 57"

text \<open>\<open>unicode.IsDigit\<close>: the decimal digits of Unicode 15, which come in runs of ten.\<close>

definition digit_starts :: "nat list" where
  "digit_starts = [0x30, 0x660, 0x6F0, 0x7C0, 0x966, 0x9E6, 0xA66, 0xAE6, 0xB66, 0xBE6, 0xC66, 0xCE6, 0xD66, 0xDE6,
     0xE50, 0xED0, 0xF20, 0x1040, 0x1090, 0x17E0, 0x1810, 0x1946, 0x19D0, 0x1A80, 0x1A90, 0x1B50, 0x1BB0, 0x1C40,
     0x1C50, 0xA620, 0xA8D0, 0xA900, 0xA9D0, 0xA9F0, 0xAA50, 0xABF0, 0xFF10, 0x104A0, 0x10D30, 0x11066, 0x110F0,
     0x11136, 0x111D0, 0x112F0, 0x11450, 0x114D0, 0x11650, 0x116C0, 0x11730, 0x118E0, 0x11950, 0x11C50, 0x11D50,
     0x11DA0, 0x11F50, 0x16A60, 0x16AC0, 0x16B50, 0x1D7CE, 0x1D7D8, 0x1D7E2, 0x1D7EC, 0x1D7F6, 0x1E140, 0x1E2F0,
     0x1E4F0, 0x1E950, 0x1FBF0]"

definition is_digit :: "rune \<Rightarrow> bool" where
  "is_digit r \<longleftrightarrow> (\<exists>s\<in>set digit_starts. s \<le> r \<and> r < s + 10)"

definition punctuationMap :: "rune list" where
  "punctuationMap = [0x3002, 0xFF1F, 0xFF01, 0xFF1B, 0xFF1A, 10, 46, 63, 33, 59, 58]"

definition firstPunctuation :: "rune list" where
  "firstPunctuation = [0xFF0C, 44, 0x3002, 0xFF1F, 0xFF01, 0xFF1B, 0xFF1A, 10, 46, 63, 33, 59, 58]"

definition sentenceEndPunctuation :: "rune list" where
  "sentenceEndPunctuation = [46, 0x3002, 33, 0xFF01, 63, 0xFF1F, 10]"

definition sentencePausePunctuation :: "rune list" where
  "sentencePausePunctuation = [44, 0xFF0C, 59, 0xFF1B, 58, 0xFF1A]"

fun rune_in :: "rune list \<Rightarrow> rune \<Rightarrow> bool" where
  "rune_in [] r = False"
| "rune_in (p # ps) r = (if r = p then True else rune_in ps r)"

definition IsSentenceEndPunctuation :: "rune \<Rightarrow> bool" where
  "IsSentenceEndPunctuation r = rune_in sentenceEndPunctuation r"

definition IsSentencePausePunctuation :: "rune \<Rightarrow> bool" where
  "IsSentencePausePunctuation r = rune_in sentencePausePunctuation r"

text \<open>
  \<open>IsNumberWithDot\<close> looks at bytes: a byte is a digit only when it is an ASCII digit, and a string that ends
  in the byte \<open>.\<close> ends in that character.
\<close>

definition IsNumberWithDot :: "gotext \<Rightarrow> bool" where
  "IsNumberWithDot s =
     (let trimmed = trim_space s in
      if length trimmed < 2 \<or> last trimmed \<noteq> 46 then False else list_all ascii_digit (butlast trimmed))"

subsection \<open>Complete sentences\<close>

text \<open>The loop: \<open>cur\<close> is the buffer of the sentence under way. A blank sentence is not appended.\<close>

fun complete_loop :: "gotext \<Rightarrow> gotext \<Rightarrow> gotext list \<Rightarrow> gotext list \<times> gotext" where
  "complete_loop [] cur sentences = (sentences, trim_space cur)"
| "complete_loop (r # rs) cur sentences =
     (let cur = cur @ [r] in
      if IsSentenceEndPunctuation r then
        (let sentence = trim_space cur in
         complete_loop rs [] (if sentence \<noteq> [] then sentences @ [sentence] else sentences))
      else complete_loop rs cur sentences)"

definition ExtractCompleteSentences :: "gotext \<Rightarrow> gotext list \<times> gotext" where
  "ExtractCompleteSentences tx = (if tx = [] then ([], []) else complete_loop tx [] [])"

subsection \<open>Helpers of the smart splitter\<close>

text \<open>
  \<open>isNumberPrefix\<close>: before the dot, blanks, then at most three digits, then the start of the text, a blank or
  a newline. The source walks backwards from \<open>pos\<close>; here the walk is over the reversed prefix.
\<close>

definition isNumberPrefix :: "gotext \<Rightarrow> nat \<Rightarrow> bool" where
  "isNumberPrefix tx pos =
     (if pos = 0 \<or> tx ! pos \<noteq> 46 then False
      else
        let before = dropWhile blank (rev (take pos tx));
            digits = takeWhile ascii_digit before;
            rest = dropWhile ascii_digit before
        in if length digits > 3 then False
           else if rest \<noteq> [] \<and> \<not> blank_nl (hd rest) then False
           else digits \<noteq> [])"

definition trimSpaceRunes :: "gotext \<Rightarrow> gotext" where
  "trimSpaceRunes tx = rev (dropWhile blank_nl (rev (dropWhile blank_nl tx)))"

definition isDigitAdjacentColon :: "gotext \<Rightarrow> nat \<Rightarrow> bool" where
  "isDigitAdjacentColon tx pos =
     (if pos \<ge> length tx then False
      else if tx ! pos \<noteq> 58 \<and> tx ! pos \<noteq> 0xFF1A then False
      else if pos = 0 \<or> \<not> is_digit (tx ! (pos - 1)) then False
      else if pos = length tx - 1 then True
      else is_digit (tx ! (pos + 1)))"

fun findLast_loop :: "gotext \<Rightarrow> rune list \<Rightarrow> nat \<Rightarrow> nat option" where
  "findLast_loop tx seps 0 = None"
| "findLast_loop tx seps (Suc i) =
     (if rune_in seps (tx ! i) then
        if tx ! i = 46 \<and> isNumberPrefix tx i then findLast_loop tx seps i
        else if isDigitAdjacentColon tx i then findLast_loop tx seps i
        else Some i
      else findLast_loop tx seps i)"

definition findLastPunctuation :: "gotext \<Rightarrow> rune list \<Rightarrow> nat option" where
  "findLastPunctuation tx seps = findLast_loop tx seps (length tx)"

function skip_blanks :: "(rune \<Rightarrow> bool) \<Rightarrow> gotext \<Rightarrow> nat \<Rightarrow> nat \<Rightarrow> nat" where
  "skip_blanks P tx pos endPos = (if pos < endPos \<and> P (tx ! pos) then skip_blanks P tx (Suc pos) endPos else pos)"
  by pat_completeness auto
termination by (relation "measure (\<lambda>(P, tx, pos, endPos). endPos - pos)") auto

declare skip_blanks.simps [simp del]

text \<open>The two loops of \<open>findNextSplitPoint\<close>: within \<open>maxLen\<close> a newline splits only before a numbered line; beyond it, always.\<close>

function split_near :: "gotext \<Rightarrow> rune list \<Rightarrow> nat \<Rightarrow> nat \<Rightarrow> nat option" where
  "split_near tx seps i endPos =
     (if i < endPos then
        if tx ! i = 10 then
          (let nextPos = skip_blanks blank tx (i + 1) endPos in
           if int nextPos < int endPos - 2 \<and> ascii_digit (tx ! nextPos) then Some i
           else split_near tx seps (i + 1) endPos)
        else if rune_in seps (tx ! i) then
          if isDigitAdjacentColon tx i then split_near tx seps (i + 1) endPos else Some i
        else split_near tx seps (i + 1) endPos
      else None)"
  by pat_completeness auto
termination by (relation "measure (\<lambda>(tx, seps, i, endPos). endPos - i)") auto

declare split_near.simps [simp del]

function split_far :: "gotext \<Rightarrow> rune list \<Rightarrow> nat \<Rightarrow> nat option" where
  "split_far tx seps i =
     (if i < length tx then
        if tx ! i = 10 then Some i
        else if rune_in seps (tx ! i) then
          if isDigitAdjacentColon tx i then split_far tx seps (i + 1) else Some i
        else split_far tx seps (i + 1)
      else None)"
  by pat_completeness auto
termination by (relation "measure (\<lambda>(tx, seps, i). length tx - i)") auto

declare split_far.simps [simp del]

definition findNextSplitPoint :: "gotext \<Rightarrow> nat \<Rightarrow> nat \<Rightarrow> rune list \<Rightarrow> nat option" where
  "findNextSplitPoint tx startPos maxLen seps =
     (let endPos = (if startPos + maxLen > length tx then length tx else startPos + maxLen) in
      case split_near tx seps startPos endPos of
        Some i \<Rightarrow> Some i
      | None \<Rightarrow> if endPos < length tx then split_far tx seps endPos else None)"

subsection \<open>The smart splitter\<close>

definition separators :: "bool \<Rightarrow> rune list" where
  "separators isFirst = (if isFirst then firstPunctuation else punctuationMap)"

text \<open>
  The main loop of \<open>ExtractSmartSentences\<close>. Without a split point the rest of the text replaces whatever
  \<open>remaining\<close> held.
\<close>

lemma split_near_ge: "split_near tx seps i e = Some j \<Longrightarrow> i \<le> j \<and> j < e"
  by (induction tx seps i e rule: split_near.induct)
    (subst (asm) split_near.simps, auto simp: Let_def split: if_splits)

lemma split_far_ge: "split_far tx seps i = Some j \<Longrightarrow> i \<le> j \<and> j < length tx"
  by (induction tx seps i rule: split_far.induct)
    (subst (asm) split_far.simps, auto simp: Let_def split: if_splits)

lemma findNextSplitPoint_ge:
  "findNextSplitPoint tx s m seps = Some j \<Longrightarrow> s \<le> length tx \<Longrightarrow> s \<le> j \<and> j < length tx"
  by (fastforce simp: findNextSplitPoint_def Let_def split: option.splits if_splits dest!: split_near_ge split_far_ge)

lemma skip_blanks_ge: "pos \<le> skip_blanks P tx pos e"
  by (induction P tx pos e rule: skip_blanks.induct) (subst skip_blanks.simps, auto)

lemma smart_progress:
  "findNextSplitPoint tx (skip_blanks P tx s e) m seps = Some j \<Longrightarrow> skip_blanks P tx s e < length tx \<Longrightarrow> s \<le> j \<and> j < length tx"
  using findNextSplitPoint_ge [of tx "skip_blanks P tx s e" m seps j] skip_blanks_ge [of s P tx e] by simp

function smart_loop :: "gotext \<Rightarrow> int \<Rightarrow> nat \<Rightarrow> rune list \<Rightarrow> nat \<Rightarrow> gotext list \<Rightarrow> gotext \<Rightarrow> gotext list \<times> gotext" where
  "smart_loop tx minLen maxLen seps startPos sentences remaining =
     (if startPos < length tx then
        let startPos = skip_blanks blank_nl tx startPos (length tx) in
        if startPos \<ge> length tx then (sentences, remaining)
        else (case findNextSplitPoint tx startPos maxLen seps of
          None \<Rightarrow>
            (let segment = trimSpaceRunes (drop startPos tx) in
             (sentences, if length segment > 0 then segment else remaining))
        | Some splitPos \<Rightarrow>
            (let segment = trimSpaceRunes (take (splitPos + 1 - startPos) (drop startPos tx)) in
             if int (length segment) \<ge> minLen \<and> segment \<noteq> [] \<and> rune_in seps (last segment) then
               smart_loop tx minLen maxLen seps (splitPos + 1) (sentences @ [segment]) remaining
             else
               smart_loop tx minLen maxLen seps (splitPos + 1) sentences
                 (if length segment > 0 then (if length remaining > 0 then remaining @ [32] else remaining) @ segment
                  else remaining)))
      else (sentences, remaining))"
  by pat_completeness auto
termination
  by (relation "measure (\<lambda>(tx, _, _, _, startPos, _, _). length tx - startPos)")
    (auto dest!: smart_progress intro!: diff_less_mono2)

declare smart_loop.simps [simp del]

text \<open>\<open>builder.Grow\<close> panics on a negative count.\<close>

definition ExtractSmartSentences :: "gotext \<Rightarrow> int \<Rightarrow> int \<Rightarrow> bool \<Rightarrow> (gotext list \<times> gotext) option" where
  "ExtractSmartSentences tx minLen maxLen isFirst =
     (if maxLen < 0 then None
      else Some (smart_loop tx minLen (nat maxLen) (separators isFirst) 0 [] []))"

fun contains_loop :: "gotext \<Rightarrow> rune list \<Rightarrow> nat \<Rightarrow> gotext \<Rightarrow> bool" where
  "contains_loop runes seps i [] = False"
| "contains_loop runes seps i (r # rs) =
     (if \<not> rune_in seps r then contains_loop runes seps (Suc i) rs
      else if isDigitAdjacentColon runes i then contains_loop runes seps (Suc i) rs
      else True)"

definition ContainsSentenceSeparator :: "gotext \<Rightarrow> bool \<Rightarrow> bool" where
  "ContainsSentenceSeparator s isFirst = contains_loop s (separators isFirst) 0 s"


subsection \<open>Trimming and content\<close>

text \<open>The characters that count: everything but blanks and newlines (\<open>trimSpaceRunes\<close>), or but Unicode space.\<close>

definition solid :: "gotext \<Rightarrow> gotext" where "solid t = filter (\<lambda>r. \<not> blank_nl r) t"
definition inked :: "gotext \<Rightarrow> gotext" where "inked t = filter (\<lambda>r. \<not> is_space r) t"

lemma filter_dropWhile: "filter (\<lambda>r. \<not> P r) (dropWhile P t) = filter (\<lambda>r. \<not> P r) t"
  by (induction t) auto

lemma filter_trim: "filter (\<lambda>r. \<not> P r) (rev (dropWhile P (rev (dropWhile P t)))) = filter (\<lambda>r. \<not> P r) t"
  using filter_dropWhile [of P "rev (dropWhile P t)"] filter_dropWhile [of P t] by (simp add: rev_filter [symmetric])

lemma solid_trim: "solid (trimSpaceRunes t) = solid t"
  by (simp add: solid_def trimSpaceRunes_def filter_trim)

lemma inked_trim: "inked (trim_space t) = inked t"
  by (simp add: inked_def trim_space_def filter_trim)

lemma solid_append: "solid (a @ b) = solid a @ solid b"
  by (simp add: solid_def)

lemma inked_append: "inked (a @ b) = inked a @ inked b"
  by (simp add: inked_def)

lemma trim_ends:
  assumes u: "rev (dropWhile P (rev (dropWhile P t))) = u" and "u \<noteq> []"
  shows "\<not> P (last u) \<and> \<not> P (hd u)"
proof
  let ?d = "dropWhile P t" and ?e = "dropWhile P (rev (dropWhile P t))"
  have e: "?e \<noteq> []" using assms by auto
  have "last u = hd ?e" using u by (simp add: last_rev flip: u)
  then show "\<not> P (last u)" using hd_dropWhile [OF e] by simp
  have d: "?d = u @ rev (takeWhile P (rev ?d))"
    using takeWhile_dropWhile_id [of P "rev ?d"] u by (metis rev_append rev_rev_ident)
  then have "?d \<noteq> []" using assms(2) by (metis append_is_Nil_conv)
  moreover have "hd ?d = hd u" using d assms(2) by (metis hd_append2)
  ultimately show "\<not> P (hd u)" using hd_dropWhile by metis
qed

lemma trim_runes_ends:
  "trimSpaceRunes t \<noteq> [] \<Longrightarrow> \<not> blank_nl (hd (trimSpaceRunes t)) \<and> \<not> blank_nl (last (trimSpaceRunes t))"
  using trim_ends [of blank_nl t "trimSpaceRunes t"] by (simp add: trimSpaceRunes_def)

lemma trim_runes_nonempty: "\<not> blank_nl r \<Longrightarrow> trimSpaceRunes (r # t) \<noteq> []"
  using solid_trim [of "r # t"] by (auto simp: solid_def)

lemma skip_blanks_stop:
  "skip_blanks P t pos e < e \<Longrightarrow> \<not> P (t ! skip_blanks P t pos e)"
  by (induction P t pos e rule: skip_blanks.induct) (metis skip_blanks.simps)

lemma skip_blanks_le: "pos \<le> e \<Longrightarrow> skip_blanks P t pos e \<le> e"
  by (induction P t pos e rule: skip_blanks.induct) (subst skip_blanks.simps, auto)

lemma skip_blanks_drop:
  "pos \<le> length t \<Longrightarrow> filter (\<lambda>r. \<not> P r) (drop pos t) = filter (\<lambda>r. \<not> P r) (drop (skip_blanks P t pos (length t)) t)"
proof (induction P t pos "length t" rule: skip_blanks.induct)
  case (1 P t pos)
  show ?case
  proof (cases "pos < length t \<and> P (t ! pos)")
    case True
    then have "skip_blanks P t pos (length t) = skip_blanks P t (Suc pos) (length t)"
      by (subst skip_blanks.simps) simp
    then show ?thesis using 1 True by (simp add: Cons_nth_drop_Suc [symmetric])
  next
    case False
    then have "skip_blanks P t pos (length t) = pos" by (subst skip_blanks.simps) auto
    then show ?thesis by simp
  qed
qed

subsection \<open>Split points\<close>

definition splits_at :: "gotext \<Rightarrow> rune list \<Rightarrow> nat \<Rightarrow> bool" where
  "splits_at t seps j \<longleftrightarrow> t ! j \<noteq> 10 \<and> rune_in seps (t ! j) \<and> \<not> isDigitAdjacentColon t j"

definition numbered_line :: "gotext \<Rightarrow> nat \<Rightarrow> nat \<Rightarrow> bool" where
  "numbered_line t i e \<longleftrightarrow> (let n = skip_blanks blank t (i + 1) e in int n < int e - 2 \<and> ascii_digit (t ! n))"

lemma split_near_step:
  "split_near t seps i e =
     (if \<not> i < e then None
      else if splits_at t seps i \<or> (t ! i = 10 \<and> numbered_line t i e) then Some i
      else split_near t seps (Suc i) e)"
  by (subst split_near.simps) (simp add: splits_at_def numbered_line_def Let_def)

lemma split_far_step:
  "split_far t seps i =
     (if \<not> i < length t then None
      else if splits_at t seps i \<or> t ! i = 10 then Some i
      else split_far t seps (Suc i))"
  by (subst split_far.simps) (simp add: splits_at_def)

lemma split_near_Some:
  "split_near t seps i e = Some j \<Longrightarrow> (t ! j = 10 \<or> splits_at t seps j) \<and> (\<forall>k. i \<le> k \<and> k < j \<longrightarrow> \<not> splits_at t seps k)"
proof (induction "e - i" arbitrary: i rule: less_induct)
  case less
  show ?case
  proof (cases "splits_at t seps i \<or> (t ! i = 10 \<and> numbered_line t i e)")
    case True
    then show ?thesis using less.prems by (subst (asm) split_near_step) (auto split: if_splits)
  next
    case False
    then have i: "i < e" and s: "split_near t seps (Suc i) e = Some j"
      using less.prems by (subst (asm) split_near_step, auto split: if_splits)+
    from less.hyps [OF _ s] i False show ?thesis by (metis Suc_leI diff_less_mono2 le_neq_implies_less lessI)
  qed
qed

lemma split_near_None:
  "split_near t seps i e = None \<Longrightarrow> i \<le> k \<Longrightarrow> k < e \<Longrightarrow> \<not> splits_at t seps k"
proof (induction "e - i" arbitrary: i rule: less_induct)
  case less
  have i: "i < e" using less.prems by simp
  have n: "\<not> splits_at t seps i" "split_near t seps (Suc i) e = None"
    using less.prems i by (subst (asm) split_near_step, auto split: if_splits)+
  from less.hyps [OF _ n(2)] less.prems n(1) i show ?case by (metis Suc_leI diff_less_mono2 le_neq_implies_less lessI)
qed

lemma split_far_Some:
  "split_far t seps i = Some j \<Longrightarrow> (t ! j = 10 \<or> splits_at t seps j) \<and> (\<forall>k. i \<le> k \<and> k < j \<longrightarrow> \<not> splits_at t seps k)"
proof (induction "length t - i" arbitrary: i rule: less_induct)
  case less
  show ?case
  proof (cases "splits_at t seps i \<or> t ! i = 10")
    case True
    then show ?thesis using less.prems by (subst (asm) split_far_step) (auto split: if_splits)
  next
    case False
    then have i: "i < length t" and s: "split_far t seps (Suc i) = Some j"
      using less.prems by (subst (asm) split_far_step, auto split: if_splits)+
    from less.hyps [OF _ s] i False show ?thesis by (metis Suc_leI diff_less_mono2 le_neq_implies_less lessI)
  qed
qed

lemma split_far_None:
  "split_far t seps i = None \<Longrightarrow> i \<le> k \<Longrightarrow> k < length t \<Longrightarrow> \<not> splits_at t seps k"
proof (induction "length t - i" arbitrary: i rule: less_induct)
  case less
  have i: "i < length t" using less.prems by simp
  have n: "\<not> splits_at t seps i" "split_far t seps (Suc i) = None"
    using less.prems i by (subst (asm) split_far_step, auto split: if_splits)+
  from less.hyps [OF _ n(2)] less.prems n(1) i show ?case by (metis Suc_leI diff_less_mono2 le_neq_implies_less lessI)
qed


subsection \<open>What the smart splitter returns\<close>

text \<open>A piece becomes a sentence when it is long enough and ends in a separator; the others are strung together.\<close>

definition sentence_like :: "int \<Rightarrow> rune list \<Rightarrow> gotext \<Rightarrow> bool" where
  "sentence_like minLen seps c \<longleftrightarrow> int (length c) \<ge> minLen \<and> rune_in seps (last c)"

definition add_piece :: "gotext \<Rightarrow> gotext \<Rightarrow> gotext" where
  "add_piece rem c = (if rem \<noteq> [] then rem @ [32] else rem) @ c"

definition trimmed :: "gotext \<Rightarrow> bool" where
  "trimmed c \<longleftrightarrow> c \<noteq> [] \<and> \<not> blank_nl (hd c) \<and> \<not> blank_nl (last c)"

lemma smart_loop_pieces:
  assumes "pos \<le> length t" and "smart_loop t minLen maxLen seps pos ss rem = (ss', rem')"
  shows "\<exists>cs tail. solid (drop pos t) = concat (map solid cs) @ solid tail \<and> (\<forall>c\<in>set cs. trimmed c) \<and> (tail = [] \<or> trimmed tail) \<and>
    ss' = ss @ filter (sentence_like minLen seps) cs \<and>
    rem' = (if tail \<noteq> [] then tail else foldl add_piece rem (filter (\<lambda>c. \<not> sentence_like minLen seps c) cs))"
  using assms
proof (induction "length t - pos" arbitrary: pos ss rem rule: less_induct)
  case less
  define s where "s = skip_blanks blank_nl t pos (length t)"
  have skip: "solid (drop pos t) = solid (drop s t)"
    using skip_blanks_drop [OF less.prems(1), of blank_nl] by (simp add: s_def solid_def)
  show ?case
  proof (cases "s < length t")
    case False
    then have "ss' = ss" "rem' = rem"
      using less.prems(2) skip_blanks_ge [of pos blank_nl t "length t"] by (subst (asm) smart_loop.simps, auto simp: s_def Let_def split: if_splits)+
    then show ?thesis using skip False by (intro exI [of _ "[]"]) (simp add: solid_def)
  next
    case True
    have pos: "pos < length t" using True skip_blanks_ge [of pos blank_nl t "length t"] by (simp add: s_def)
    have solid_s: "\<not> blank_nl (t ! s)" using skip_blanks_stop True unfolding s_def by blast
    show ?thesis
    proof (cases "findNextSplitPoint t s maxLen seps")
      case None
      let ?tail = "trimSpaceRunes (drop s t)"
      have "?tail \<noteq> []" using True solid_s by (simp add: Cons_nth_drop_Suc [symmetric] trim_runes_nonempty)
      moreover from this have "ss' = ss" "rem' = ?tail"
        using less.prems(2) pos True None by (subst (asm) smart_loop.simps, auto simp: s_def Let_def split: if_splits)+
      ultimately show ?thesis
        using skip trim_runes_ends [of "drop s t"] by (intro exI [of _ "[]"] exI [of _ ?tail]) (simp add: solid_trim trimmed_def)
    next
      case (Some j)
      have j: "s \<le> j" "j < length t" using findNextSplitPoint_ge [OF Some] True by auto
      define c where "c = trimSpaceRunes (take (j + 1 - s) (drop s t))"
      have "take (j + 1 - s) (drop s t) = t ! s # take (j - s) (drop (Suc s) t)"
        using True j by (simp add: Cons_nth_drop_Suc [symmetric] Suc_diff_le)
      then have c: "trimmed c"
        using trim_runes_ends [of "take (j + 1 - s) (drop s t)"] trim_runes_nonempty solid_s by (simp add: c_def trimmed_def)
      have content: "solid (drop s t) = solid c @ solid (drop (j + 1) t)"
        unfolding c_def solid_trim solid_append [symmetric] using j by (metis (no_types) append_take_drop_id drop_drop le_add_diff_inverse2 le_Suc_eq Suc_eq_plus1)
      have c_Suc: "trimSpaceRunes (take (Suc j - s) (drop s t)) = c" by (simp add: c_def)
      let ?ok = "sentence_like minLen seps c"
      have step: "smart_loop t minLen maxLen seps pos ss rem =
          (if ?ok then smart_loop t minLen maxLen seps (j + 1) (ss @ [c]) rem
           else smart_loop t minLen maxLen seps (j + 1) ss (add_piece rem c))"
        using pos True Some c c_Suc by (subst smart_loop.simps)
          (simp add: s_def [symmetric] sentence_like_def add_piece_def trimmed_def Let_def)
      have next_le: "length t - (j + 1) < length t - pos" "j + 1 \<le> length t"
        using pos j skip_blanks_ge [of pos blank_nl t "length t"] by (auto simp: s_def)
      obtain ss1 rem1 where run: "smart_loop t minLen maxLen seps (j + 1) ss1 rem1 = (ss', rem')"
        and start: "ss1 = (if ?ok then ss @ [c] else ss)" "rem1 = (if ?ok then rem else add_piece rem c)"
        using less.prems(2) step by (auto split: if_splits)
      from less.hyps [OF next_le run] obtain cs tail where
        ih: "solid (drop (j + 1) t) = concat (map solid cs) @ solid tail" "\<forall>c\<in>set cs. trimmed c" "tail = [] \<or> trimmed tail"
          "ss' = ss1 @ filter (sentence_like minLen seps) cs"
          "rem' = (if tail \<noteq> [] then tail else foldl add_piece rem1 (filter (\<lambda>c. \<not> sentence_like minLen seps c) cs))" by blast
      show ?thesis using ih start skip content c
        by (intro exI [of _ "c # cs"] exI [of _ tail]) auto
    qed
  qed
qed


subsection \<open>Properties\<close>

text \<open>
  A colon that follows a digit and precedes a digit or the end of the text is taken for part of a time; every other
  separator is one to split at. This is the specification of the split points.
\<close>

definition time_colon :: "gotext \<Rightarrow> nat \<Rightarrow> bool" where
  "time_colon t j \<longleftrightarrow> (t ! j = 58 \<or> t ! j = 0xFF1A) \<and> 0 < j \<and> is_digit (t ! (j - 1)) \<and>
     (j + 1 < length t \<longrightarrow> is_digit (t ! (j + 1)))"

definition separator_at :: "gotext \<Rightarrow> rune list \<Rightarrow> nat \<Rightarrow> bool" where
  "separator_at t seps j \<longleftrightarrow> t ! j \<noteq> 10 \<and> rune_in seps (t ! j) \<and> \<not> time_colon t j"

lemma isDigitAdjacentColon_iff: "j < length t \<Longrightarrow> isDigitAdjacentColon t j \<longleftrightarrow> time_colon t j"
  by (auto simp: isDigitAdjacentColon_def time_colon_def)

lemma splits_at_iff: "j < length t \<Longrightarrow> splits_at t seps j \<longleftrightarrow> separator_at t seps j"
  by (simp add: splits_at_def separator_at_def isDigitAdjacentColon_iff)

lemma findNextSplitPoint_splits:
  assumes "s \<le> length t"
  shows "case findNextSplitPoint t s maxLen seps of
      Some j \<Rightarrow> s \<le> j \<and> j < length t \<and> (t ! j = 10 \<or> splits_at t seps j) \<and>
        (\<forall>k. s \<le> k \<and> k < j \<longrightarrow> \<not> splits_at t seps k)
    | None \<Rightarrow> \<forall>k. s \<le> k \<and> k < length t \<longrightarrow> \<not> splits_at t seps k"
proof -
  define e where "e = (if s + maxLen > length t then length t else s + maxLen)"
  have f: "findNextSplitPoint t s maxLen seps =
      (case split_near t seps s e of Some i \<Rightarrow> Some i | None \<Rightarrow> if e < length t then split_far t seps e else None)"
    unfolding findNextSplitPoint_def Let_def e_def [symmetric] ..
  have e: "s \<le> e" "e \<le> length t" using assms by (auto simp: e_def)
  show ?thesis
  proof (cases "split_near t seps s e")
    case (Some j)
    then show ?thesis using f split_near_Some [OF Some] split_near_ge [OF Some] e by (auto simp: splits_at_def)
  next
    case near: None
    show ?thesis
    proof (cases "split_far t seps e")
      case None
      then show ?thesis using f near split_near_None [OF near] split_far_None [OF None] e
        by (auto simp: not_less) (metis linorder_not_less)+
    next
      case (Some j)
      then show ?thesis
        using f near split_near_None [OF near] split_far_Some [OF Some] split_far_ge [OF Some] e
        by (auto simp: splits_at_def not_less) (metis linorder_not_less)+
    qed
  qed
qed

text \<open>
  The splitter looks for the first separator that is not the colon of a time: the split point lies in
  the text at or after the start, it is a line break or such a separator, no such separator is skipped before it,
  and when there is none the rest of the text has no separator to split at.
\<close>

theorem findNextSplitPoint_exact:
  assumes "s \<le> length t"
  shows "case findNextSplitPoint t s maxLen seps of
      Some j \<Rightarrow> s \<le> j \<and> j < length t \<and> (t ! j = 10 \<or> separator_at t seps j) \<and>
        (\<forall>k. s \<le> k \<and> k < j \<longrightarrow> \<not> separator_at t seps k)
    | None \<Rightarrow> \<forall>k. s \<le> k \<and> k < length t \<longrightarrow> \<not> separator_at t seps k"
  using findNextSplitPoint_splits [OF assms, of seps maxLen] by (auto simp: splits_at_iff split: option.splits)

theorem findNextSplitPoint_exact_witness:
  "findNextSplitPoint (lit ''1:2.'') 0 100 punctuationMap = Some 3 \<and> \<not> separator_at (lit ''1:2.'') punctuationMap 1"
proof -
  let ?t = "lit ''1:2.''"
  have t: "?t = [49, 58, 50, 46]" by (simp add: lit_def)
  have d: "is_digit 49" "is_digit 50" by (simp_all add: is_digit_def digit_starts_def)
  have "split_near ?t punctuationMap 0 (length ?t) = Some 3"
    by (simp add: t d split_near.simps punctuationMap_def isDigitAdjacentColon_def)
  then have r: "findNextSplitPoint ?t 0 100 punctuationMap = Some 3"
    by (simp add: findNextSplitPoint_def t)
  from findNextSplitPoint_exact [of 0 ?t punctuationMap 100] r show ?thesis by simp
qed




text \<open>
  Text is lost: the heading before a numbered line goes to the remainder, the number alone becomes a
  sentence, and the unfinished item then replaces the remainder. The heading is neither spoken nor kept.
\<close>

theorem ExtractSmartSentences_loses_heading:
  "ExtractSmartSentences (lit ''Hi'' @ [10] @ lit ''1. go'') 2 100 False = Some ([lit ''1.''], lit ''go'')"
  by (simp add: ExtractSmartSentences_def lit_def smart_loop.simps skip_blanks.simps findNextSplitPoint_def split_near.simps
      blank_nl_def blank_def ascii_digit_def separators_def punctuationMap_def isDigitAdjacentColon_def trimSpaceRunes_def Let_def)

lemma set_trim_space: "set (trim_space t) \<subseteq> set t"
  unfolding trim_space_def by (metis set_dropWhileD set_rev subsetI)

lemma complete_loop_content:
  assumes "complete_loop t cur ss = (ss', rem)" and "\<not> list_ex IsSentenceEndPunctuation cur"
  shows "concat (map inked ss') @ inked rem = concat (map inked ss) @ inked cur @ inked t \<and>
    \<not> list_ex IsSentenceEndPunctuation rem \<and> ([] \<in> set ss' \<longrightarrow> [] \<in> set ss)"
  using assms
proof (induction t cur ss rule: complete_loop.induct)
  case (1 cur ss)
  then show ?case using set_trim_space [of cur] by (auto simp: inked_trim list_ex_iff) (simp add: inked_def)
next
  case (2 r rs cur ss)
  let ?s = "trim_space (cur @ [r])"
  have ink: "inked ?s = inked cur @ inked [r]" by (simp add: inked_trim inked_append)
  have cons: "inked (r # rs) = inked [r] @ inked rs" by (simp add: inked_def)
  show ?case
  proof (cases "IsSentenceEndPunctuation r")
    case True
    have "inked cur @ inked [r] = []" if "?s = []" using that ink by (metis inked_def filter.simps(1))
    then show ?thesis using 2(1) [OF refl True refl] 2(3) True ink cons by (auto simp: Let_def inked_def [of "[]"] split: if_splits)
  next
    case False
    then show ?thesis using 2(2) [OF refl False] 2(3,4) cons by (auto simp: inked_append)
  qed
qed

text \<open>
  Complete sentences: the sentences and the remainder together have every character of the text but
  white space, in order; the remainder has no sentence end, and no sentence is blank.
\<close>

theorem ExtractCompleteSentences_content:
  assumes "ExtractCompleteSentences t = (ss, rem)"
  shows "concat (map inked ss) @ inked rem = inked t \<and> \<not> list_ex IsSentenceEndPunctuation rem \<and> [] \<notin> set ss"
  using assms complete_loop_content [of t "[]" "[]" ss rem]
  by (auto simp: ExtractCompleteSentences_def inked_def split: if_splits)

theorem ExtractCompleteSentences_content_witness:
  "ExtractCompleteSentences (lit ''a. b'') = ([lit ''a.''], lit ''b'') \<and> concat (map inked [lit ''a.'']) @ inked (lit ''b'') = inked (lit ''a. b'')"
proof -
  have e: "ExtractCompleteSentences (lit ''a. b'') = ([lit ''a.''], lit ''b'')"
    by (simp add: ExtractCompleteSentences_def lit_def Let_def IsSentenceEndPunctuation_def sentenceEndPunctuation_def trim_space_def is_space_def)
  from ExtractCompleteSentences_content [OF e] e show ?thesis by simp
qed

end
