(* ===== verification/StreamTransform.thy ===== *)
theory StreamTransform
  imports Sentence
begin

text \<open>
  The output pipeline of a chat turn: \<open>internal/domain/chat/streamtransform\<close> (registry and pipeline of
  transformers) and the segmenter of \<open>internal/app/server/chat/plugins/output_segmenter.go\<close>, which turns the
  deltas of a language model into sentences to be spoken.

  A transformer is an object: its state and its two methods as functions of the state. \<open>'c\<close> is a tool call,
  \<open>'m\<close> the metadata carried along.
\<close>

subsection \<open>Types (types.go)\<close>

datatype item_kind = ItemKindTextDelta | ItemKindTextSegment | ItemKindToolCalls | OtherKind string

record ('c, 'm) item =
  it_Kind :: item_kind
  it_Text :: gotext
  it_ToolCalls :: "'c list"
  it_IsEnd :: bool
  it_Meta :: 'm

record ('c, 'm) result =
  res_Items :: "('c, 'm) item list"
  res_Stop :: bool

record ('c, 'm, 's) transformer =
  tr_state :: 's
  tr_Transform :: "'s \<Rightarrow> ('c, 'm) item \<Rightarrow> (string + ('c, 'm) result) \<times> 's"
  tr_Close :: "'s \<Rightarrow> string option \<times> 's"

record ('x, 'c, 'm, 's) stage_factory =
  sf_Name :: string
  sf_Priority :: int
  sf_New :: "'x \<Rightarrow> string + ('c, 'm, 's) transformer"

type_synonym ('c, 'm, 's) pipeline = "(string \<times> ('c, 'm, 's) transformer) list"

datatype stream_error = OpenFailed string string | TransformFailed string string | CloseFailed string string

subsection \<open>Registry and pipeline (pipeline.go)\<close>

text \<open>\<open>sort.SliceStable\<close> by priority is the stable \<open>sort_key\<close>.\<close>

definition registry_Register :: "('x, 'c, 'm, 's) stage_factory \<Rightarrow> ('x, 'c, 'm, 's) stage_factory list
    \<Rightarrow> ('x, 'c, 'm, 's) stage_factory list" where
  "registry_Register factory factories = sort_key sf_Priority (factories @ [factory])"

fun registry_Open :: "'x \<Rightarrow> ('x, 'c, 'm, 's) stage_factory list \<Rightarrow> stream_error + ('c, 'm, 's) pipeline" where
  "registry_Open ctx [] = Inr []"
| "registry_Open ctx (f # fs) =
     (case sf_New f ctx of
        Inl err \<Rightarrow> Inl (OpenFailed (sf_Name f) err)
      | Inr tr \<Rightarrow> (case registry_Open ctx fs of Inl err \<Rightarrow> Inl err | Inr steps \<Rightarrow> Inr ((sf_Name f, tr) # steps)))"

text \<open>One step over the items so far: \<open>Inr (next, stop)\<close>; the state of the transformer is kept either way.\<close>

fun run_step :: "string \<Rightarrow> ('c, 'm, 's) transformer \<Rightarrow> ('c, 'm) item list \<Rightarrow> ('c, 'm) item list
    \<Rightarrow> (stream_error + ('c, 'm) item list \<times> bool) \<times> ('c, 'm, 's) transformer" where
  "run_step name tr [] out = (Inr (out, False), tr)"
| "run_step name tr (i # ins) out =
     (case tr_Transform tr (tr_state tr) i of
        (Inl err, s) \<Rightarrow> (Inl (TransformFailed name err), tr\<lparr>tr_state := s\<rparr>)
      | (Inr result, s) \<Rightarrow>
          let out = (if length (res_Items result) > 0 then out @ res_Items result else out) in
          if res_Stop result then (Inr (out, True), tr\<lparr>tr_state := s\<rparr>)
          else run_step name (tr\<lparr>tr_state := s\<rparr>) ins out)"

fun run_steps :: "('c, 'm, 's) pipeline \<Rightarrow> ('c, 'm) item list
    \<Rightarrow> (stream_error + ('c, 'm) item list \<times> bool) \<times> ('c, 'm, 's) pipeline" where
  "run_steps [] its = (Inr (its, False), [])"
| "run_steps ((name, tr) # steps) its =
     (case run_step name tr its [] of
        (Inl err, tr) \<Rightarrow> (Inl err, (name, tr) # steps)
      | (Inr (out, True), tr) \<Rightarrow> (Inr (out, True), (name, tr) # steps)
      | (Inr (out, False), tr) \<Rightarrow> (case run_steps steps out of (r, steps) \<Rightarrow> (r, (name, tr) # steps)))"

definition pipeline_Push :: "('c, 'm, 's) pipeline \<Rightarrow> ('c, 'm) item
    \<Rightarrow> (stream_error + ('c, 'm) item list \<times> bool) \<times> ('c, 'm, 's) pipeline" where
  "pipeline_Push p i = (if p = [] then (Inr ([i], False), p) else run_steps p [i])"

text \<open>Every transformer is closed; the first error is reported.\<close>

fun pipeline_Close :: "('c, 'm, 's) pipeline \<Rightarrow> stream_error option \<times> ('c, 'm, 's) pipeline" where
  "pipeline_Close [] = (None, [])"
| "pipeline_Close ((name, tr) # steps) =
     (case tr_Close tr (tr_state tr) of (err, s) \<Rightarrow>
        case pipeline_Close steps of (later, steps) \<Rightarrow>
          (case err of Some e \<Rightarrow> Some (CloseFailed name e) | None \<Rightarrow> later, (name, tr\<lparr>tr_state := s\<rparr>) # steps))"

subsection \<open>The output segmenter (output_segmenter.go)\<close>

record 'c segmenter =
  sg_textBuffer :: gotext
  sg_pendingToolCalls :: "'c list"
  sg_minLen :: int
  sg_maxLen :: int
  sg_isFirst :: bool

definition segmenter_New :: "'c segmenter" where
  "segmenter_New = \<lparr>sg_textBuffer = [], sg_pendingToolCalls = [], sg_minLen = 2, sg_maxLen = 100, sg_isFirst = True\<rparr>"

definition flushPendingText :: "'m \<Rightarrow> bool \<Rightarrow> bool \<Rightarrow> 'c segmenter \<Rightarrow> ('c, 'm) item list \<times> 'c segmenter" where
  "flushPendingText meta force isEnd t =
     (let buffered = trim_space (sg_textBuffer t) in
      if buffered = [] then ([], if isEnd then t\<lparr>sg_textBuffer := []\<rparr> else t)
      else if \<not> force then ([], t)
      else ([\<lparr>it_Kind = ItemKindTextSegment, it_Text = buffered, it_ToolCalls = [], it_IsEnd = isEnd, it_Meta = meta\<rparr>],
            t\<lparr>sg_textBuffer := [], sg_isFirst := False\<rparr>))"

definition flushPendingToolCalls :: "'m \<Rightarrow> bool \<Rightarrow> 'c segmenter \<Rightarrow> ('c, 'm) item list \<times> 'c segmenter" where
  "flushPendingToolCalls meta isEnd t =
     (if length (sg_pendingToolCalls t) = 0 then ([], t)
      else ([\<lparr>it_Kind = ItemKindToolCalls, it_Text = [], it_ToolCalls = sg_pendingToolCalls t, it_IsEnd = isEnd, it_Meta = meta\<rparr>],
            t\<lparr>sg_pendingToolCalls := []\<rparr>))"

definition mark_last_end :: "('c, 'm) item list \<Rightarrow> ('c, 'm) item list" where
  "mark_last_end out = out[length out - 1 := (last out)\<lparr>it_IsEnd := True\<rparr>]"

fun emit_sentences :: "'m \<Rightarrow> gotext list \<Rightarrow> ('c, 'm) item list \<times> 'c segmenter \<Rightarrow> ('c, 'm) item list \<times> 'c segmenter" where
  "emit_sentences meta [] st = st"
| "emit_sentences meta (sentence # ss) (out, t) =
     (if trim_space sentence = [] then emit_sentences meta ss (out, t)
      else emit_sentences meta ss
        (out @ [\<lparr>it_Kind = ItemKindTextSegment, it_Text = sentence, it_ToolCalls = [], it_IsEnd = False, it_Meta = meta\<rparr>],
         t\<lparr>sg_isFirst := False\<rparr>))"

text \<open>
  \<open>transformText\<close> in two parts: the new text and the sentences it completes, then the end of the turn. \<open>None\<close>
  is the panic of \<open>ExtractSmartSentences\<close> on a negative maximum.
\<close>

definition segment_text :: "('c, 'm) item \<Rightarrow> 'c segmenter \<Rightarrow> (('c, 'm) item list \<times> 'c segmenter) option" where
  "segment_text item t =
     (let (out, t) = flushPendingToolCalls (it_Meta item) False t;
          t = (if it_Text item \<noteq> [] then t\<lparr>sg_textBuffer := sg_textBuffer t @ it_Text item\<rparr> else t)
      in if it_Text item \<noteq> [] \<and> ContainsSentenceSeparator (it_Text item) (sg_isFirst t) then
           (case ExtractSmartSentences (sg_textBuffer t) (sg_minLen t) (sg_maxLen t) (sg_isFirst t) of
              None \<Rightarrow> None
            | Some (sentences, remaining) \<Rightarrow> Some (emit_sentences (it_Meta item) sentences (out, t\<lparr>sg_textBuffer := remaining\<rparr>)))
         else Some (out, t))"

definition end_text :: "('c, 'm) item \<Rightarrow> ('c, 'm) item list \<times> 'c segmenter \<Rightarrow> ('c, 'm) item list \<times> 'c segmenter" where
  "end_text item st =
     (case st of (out, t) \<Rightarrow>
      case flushPendingText (it_Meta item) True True t of (fl, t) \<Rightarrow>
        if length (out @ fl) > 0 then (mark_last_end (out @ fl), t)
        else ([\<lparr>it_Kind = ItemKindTextSegment, it_Text = [], it_ToolCalls = [], it_IsEnd = True, it_Meta = it_Meta item\<rparr>], t))"

definition transformText :: "('c, 'm) item \<Rightarrow> 'c segmenter \<Rightarrow> (('c, 'm) item list \<times> 'c segmenter) option" where
  "transformText item t =
     (case segment_text item t of
        None \<Rightarrow> None
      | Some st \<Rightarrow> Some (if \<not> it_IsEnd item then st else end_text item st))"

definition transformToolCalls :: "('c, 'm) item \<Rightarrow> 'c segmenter \<Rightarrow> ('c, 'm) item list \<times> 'c segmenter" where
  "transformToolCalls item t =
     (case flushPendingText (it_Meta item) True False t of (out, t) \<Rightarrow>
      let t = (if length (it_ToolCalls item) > 0 then t\<lparr>sg_pendingToolCalls := sg_pendingToolCalls t @ it_ToolCalls item\<rparr> else t)
      in if it_IsEnd item then
           (case flushPendingToolCalls (it_Meta item) True t of (fl, t) \<Rightarrow>
            if length (out @ fl) > 0 then (mark_last_end (out @ fl), t) else (out @ fl, t))
         else (out, t))"

definition segmenter_Transform :: "'c segmenter \<Rightarrow> ('c, 'm) item \<Rightarrow> (('c, 'm) item list \<times> 'c segmenter) option" where
  "segmenter_Transform t item =
     (case it_Kind item of
        ItemKindTextDelta \<Rightarrow> transformText item t
      | ItemKindToolCalls \<Rightarrow> Some (transformToolCalls item t)
      | _ \<Rightarrow>
          let (out, t) = flushPendingText (it_Meta item) True False t;
              (fl, t) = flushPendingToolCalls (it_Meta item) False t
          in Some (out @ fl @ [item], t))"

definition segmenter_Close :: "'c segmenter \<Rightarrow> 'c segmenter" where
  "segmenter_Close t = t\<lparr>sg_textBuffer := [], sg_pendingToolCalls := []\<rparr>"

text \<open>The segmenter as a transformer of the pipeline; a panic is an error of its own.\<close>

definition segmenter_transformer :: "('c, 'm, 'c segmenter) transformer" where
  "segmenter_transformer = \<lparr>tr_state = segmenter_New,
     tr_Transform = (\<lambda>t item. case segmenter_Transform t item of
         None \<Rightarrow> (Inl ''panic'', t) | Some (out, t) \<Rightarrow> (Inr \<lparr>res_Items = out, res_Stop = False\<rparr>, t)),
     tr_Close = (\<lambda>t. (None, segmenter_Close t))\<rparr>"

definition outputSegmenterFactory :: "('x, 'c, 'm, 'c segmenter) stage_factory" where
  "outputSegmenterFactory = \<lparr>sf_Name = ''output_segmenter'', sf_Priority = 200, sf_New = (\<lambda>_. Inr segmenter_transformer)\<rparr>"

text \<open>A whole turn: items pushed one after the other, and everything that came out; \<open>None\<close> once a push fails.\<close>

fun push_all :: "('c, 'm, 's) pipeline \<Rightarrow> ('c, 'm) item list \<Rightarrow> (('c, 'm) item list \<times> ('c, 'm, 's) pipeline) option" where
  "push_all p [] = Some ([], p)"
| "push_all p (i # ins) =
     (case pipeline_Push p i of
        (Inl _, p) \<Rightarrow> None
      | (Inr (out, _), p) \<Rightarrow> (case push_all p ins of None \<Rightarrow> None | Some (outs, p) \<Rightarrow> Some (out @ outs, p)))"

subsection \<open>Stages that conserve what they carry\<close>

text \<open>
  The contract of a conserving stage: what it holds and what comes in is what goes out and what it still
  holds, in order, and it never stops the pipeline.
\<close>

locale conserving_stage =
  fixes tf :: "'s \<Rightarrow> ('c, 'm) item \<Rightarrow> (string + ('c, 'm) result) \<times> 's"
    and held :: "'s \<Rightarrow> 'x list" and load :: "('c, 'm) item \<Rightarrow> 'x list"
  assumes conserve: "tf s i = (Inr r, s') \<Longrightarrow> held s @ load i = concat (map load (res_Items r)) @ held s'"
    and goes_on: "tf s i = (Inr r, s') \<Longrightarrow> \<not> res_Stop r"
begin

lemma run_step_conserves:
  assumes "tr_Transform tr = tf" and "run_step name tr ins out = (Inr (out', stop), tr')"
  shows "concat (map load out) @ held (tr_state tr) @ concat (map load ins) = concat (map load out') @ held (tr_state tr')
    \<and> \<not> stop \<and> tr_Transform tr' = tf"
  using assms
proof (induction ins arbitrary: tr out)
  case (Cons i ins)
  obtain r s where t: "tf (tr_state tr) i = (Inr r, s)"
    using Cons.prems by (auto split: prod.splits sum.splits)
  have go: "\<not> res_Stop r" by (rule goes_on [OF t])
  let ?out = "if length (res_Items r) > 0 then out @ res_Items r else out"
  have "run_step name (tr\<lparr>tr_state := s\<rparr>) ins ?out = (Inr (out', stop), tr')"
    using Cons.prems t go by (simp add: Let_def split: if_splits)
  moreover have "concat (map load ?out) = concat (map load out) @ concat (map load (res_Items r))" by auto
  ultimately have ih: "concat (map load out) @ concat (map load (res_Items r)) @ held s @ concat (map load ins)
      = concat (map load out') @ held (tr_state tr')" "\<not> stop" "tr_Transform tr' = tf"
    using Cons.IH [of "tr\<lparr>tr_state := s\<rparr>" ?out] Cons.prems(1) by auto
  have "concat (map load out) @ held (tr_state tr) @ concat (map load (i # ins))
      = concat (map load out) @ (held (tr_state tr) @ load i) @ concat (map load ins)" by simp
  also have "\<dots> = concat (map load out') @ held (tr_state tr')"
    unfolding conserve [OF t] append_assoc by (rule ih(1))
  finally show ?case using ih(2,3) by simp
qed simp

lemma push_all_conserves:
  assumes "push_all [(name, tr)] ins = Some (outs, p)" and "tr_Transform tr = tf"
  shows "\<exists>tr'. p = [(name, tr')] \<and>
    held (tr_state tr) @ concat (map load ins) = concat (map load outs) @ held (tr_state tr')"
  using assms
proof (induction ins arbitrary: tr outs)
  case (Cons i ins)
  obtain r tr1 where st: "run_step name tr [i] [] = (r, tr1)" by (cases "run_step name tr [i] []")
  obtain out stop where r: "r = Inr (out, stop)"
    using Cons.prems st by (cases r) (auto simp: pipeline_Push_def split: bool.splits)
  note c = run_step_conserves [OF Cons.prems(2) st [unfolded r]]
  obtain rest where "push_all [(name, tr1)] ins = Some (rest, p)" and o: "outs = out @ rest"
    using Cons.prems st r c by (auto simp: pipeline_Push_def split: option.splits)
  with c obtain tr' where ih: "p = [(name, tr')]"
      "held (tr_state tr1) @ concat (map load ins) = concat (map load rest) @ held (tr_state tr')"
    using Cons.IH [of tr1 rest] by auto
  have one: "held (tr_state tr) @ load i = concat (map load out) @ held (tr_state tr1)" using c by simp
  have "held (tr_state tr) @ concat (map load (i # ins)) = (held (tr_state tr) @ load i) @ concat (map load ins)" by simp
  also have "\<dots> = concat (map load outs) @ held (tr_state tr')"
    unfolding one append_assoc ih(2) o by simp
  finally show ?case using ih(1) by blast
qed auto

end

definition tool_calls_of :: "('c, 'm) item \<Rightarrow> 'c list" where
  "tool_calls_of i = (if it_Kind i = ItemKindToolCalls then it_ToolCalls i else [])"

lemma concat_mark_last_end:
  "(\<And>i b. f (i\<lparr>it_IsEnd := b\<rparr>) = f i) \<Longrightarrow> concat (map f (mark_last_end out)) = concat (map f out)"
  by (cases out rule: rev_cases) (auto simp: mark_last_end_def)

lemma emit_sentences_tools:
  "emit_sentences meta ss (out, t) = (out', t') \<Longrightarrow>
     concat (map tool_calls_of out') = concat (map tool_calls_of out) \<and> sg_pendingToolCalls t' = sg_pendingToolCalls t"
  by (induction ss arbitrary: out t) (auto simp: tool_calls_of_def split: if_splits)

lemma flush_tools:
  "flushPendingToolCalls meta e t = (out, t') \<Longrightarrow>
     concat (map tool_calls_of out) = sg_pendingToolCalls t \<and> sg_pendingToolCalls t' = []"
  by (auto simp: flushPendingToolCalls_def tool_calls_of_def split: if_splits)

lemma flush_text_tools:
  "flushPendingText meta f e t = (out, t') \<Longrightarrow>
     concat (map tool_calls_of out) = [] \<and> sg_pendingToolCalls t' = sg_pendingToolCalls t"
  by (auto simp: flushPendingText_def tool_calls_of_def Let_def split: if_splits)

lemma tool_calls_of_end [simp]: "tool_calls_of (i\<lparr>it_IsEnd := b\<rparr>) = tool_calls_of i"
  by (simp add: tool_calls_of_def)

lemma transformText_tools:
  "transformText i t = Some (out, t') \<Longrightarrow> it_Kind i = ItemKindTextDelta \<Longrightarrow>
     sg_pendingToolCalls t = concat (map tool_calls_of out) @ sg_pendingToolCalls t'"
  by (auto simp: transformText_def segment_text_def end_text_def Let_def concat_mark_last_end split: prod.splits option.splits if_splits
        dest!: flush_tools flush_text_tools emit_sentences_tools) (auto simp: tool_calls_of_def)

lemma transformToolCalls_tools:
  "transformToolCalls i t = (out, t') \<Longrightarrow>
     sg_pendingToolCalls t @ it_ToolCalls i = concat (map tool_calls_of out) @ sg_pendingToolCalls t'"
  by (auto simp: transformToolCalls_def Let_def concat_mark_last_end split: prod.splits if_splits
        dest!: flush_tools flush_text_tools)

lemma segmenter_tools:
  assumes "segmenter_Transform t i = Some (out, t')"
  shows "sg_pendingToolCalls t @ tool_calls_of i = concat (map tool_calls_of out) @ sg_pendingToolCalls t'"
proof (cases "it_Kind i")
  case ItemKindTextDelta
  then show ?thesis using assms transformText_tools [of i t out t'] by (simp add: segmenter_Transform_def tool_calls_of_def)
next
  case ItemKindToolCalls
  then show ?thesis using assms transformToolCalls_tools [of i t out t'] by (simp add: segmenter_Transform_def tool_calls_of_def)
next
  case ItemKindTextSegment
  then show ?thesis using assms
    by (auto simp: segmenter_Transform_def tool_calls_of_def Let_def split: prod.splits dest!: flush_tools flush_text_tools)
next
  case (OtherKind k)
  then show ?thesis using assms
    by (auto simp: segmenter_Transform_def tool_calls_of_def Let_def split: prod.splits dest!: flush_tools flush_text_tools)
qed

interpretation seg_tools: conserving_stage "tr_Transform segmenter_transformer" sg_pendingToolCalls tool_calls_of
  by unfold_locales (auto simp: segmenter_transformer_def segmenter_tools split: option.splits)


subsection \<open>The end marker\<close>

lemma emit_sentences_ends:
  "emit_sentences meta ss (out, t) = (out', t') \<Longrightarrow>
     (\<forall>x\<in>set out. \<not> it_IsEnd x) \<Longrightarrow> (\<forall>x\<in>set out'. \<not> it_IsEnd x)"
  by (induction ss arbitrary: out t) (auto split: if_splits)

lemma flush_tools_ends: "flushPendingToolCalls meta False t = (out, t') \<Longrightarrow> x \<in> set out \<Longrightarrow> \<not> it_IsEnd x"
  by (auto simp: flushPendingToolCalls_def split: if_splits)

lemma flush_text_ends: "flushPendingText meta f False t = (out, t') \<Longrightarrow> x \<in> set out \<Longrightarrow> \<not> it_IsEnd x"
  by (auto simp: flushPendingText_def Let_def split: if_splits)

lemma flush_text_buffer: "flushPendingText meta True True t = (out, t') \<Longrightarrow> sg_textBuffer t' = []"
  by (auto simp: flushPendingText_def Let_def split: if_splits)

lemma flush_at_most_one:
  "flushPendingText meta f e t = (out, t') \<Longrightarrow> butlast out = []"
  "flushPendingToolCalls meta e t = (out, t') \<Longrightarrow> butlast out = []"
  by (auto simp: flushPendingText_def flushPendingToolCalls_def Let_def split: if_splits)

lemma mark_last_end_eq: "out \<noteq> [] \<Longrightarrow> mark_last_end out = butlast out @ [(last out)\<lparr>it_IsEnd := True\<rparr>]"
  by (cases out rule: rev_cases) (auto simp: mark_last_end_def)

lemma ends_append:
  "(\<forall>x\<in>set out. \<not> it_IsEnd x) \<Longrightarrow> butlast fl = [] \<Longrightarrow> x \<in> set (butlast (out @ fl)) \<Longrightarrow> \<not> it_IsEnd x"
  by (cases "fl = []") (auto simp: butlast_append dest: in_set_butlastD)

lemma segment_text_ends:
  assumes "segment_text i t = Some (out, t')" and "x \<in> set out"
  shows "\<not> it_IsEnd x"
proof -
  obtain o1 t1 where f: "flushPendingToolCalls (it_Meta i) False t = (o1, t1)" by (cases "flushPendingToolCalls (it_Meta i) False t")
  have "\<forall>x\<in>set o1. \<not> it_IsEnd x" using flush_tools_ends [OF f] by blast
  then show ?thesis using assms unfolding segment_text_def f
    by (auto simp: Let_def split: option.splits if_splits dest: emit_sentences_ends)
qed

lemma end_text_ends:
  assumes o: "\<forall>x\<in>set o2. \<not> it_IsEnd x" and e: "end_text i (o2, t2) = (out, t')"
  shows "out \<noteq> [] \<and> sg_textBuffer t' = [] \<and> it_IsEnd (last out) \<and> (\<forall>x\<in>set (butlast out). \<not> it_IsEnd x)"
proof -
  obtain fl t3 where fl: "flushPendingText (it_Meta i) True True t2 = (fl, t3)" by (cases "flushPendingText (it_Meta i) True True t2")
  show ?thesis
  proof (cases "o2 @ fl = []")
    case True
    then show ?thesis using e fl flush_text_buffer [OF fl] by (auto simp: end_text_def)
  next
    case False
    then have "out = butlast (o2 @ fl) @ [(last (o2 @ fl))\<lparr>it_IsEnd := True\<rparr>]" "t' = t3"
      using e fl by (simp_all add: end_text_def mark_last_end_eq)
    then show ?thesis using flush_text_buffer [OF fl] ends_append [OF o flush_at_most_one(1) [OF fl]] by simp
  qed
qed

lemma transformText_end:
  assumes "transformText i t = Some (out, t')"
  shows "if \<not> it_IsEnd i then \<forall>x\<in>set out. \<not> it_IsEnd x
    else out \<noteq> [] \<and> sg_textBuffer t' = [] \<and> it_IsEnd (last out) \<and> (\<forall>x\<in>set (butlast out). \<not> it_IsEnd x)"
proof -
  obtain o2 t2 where seg: "segment_text i t = Some (o2, t2)" using assms by (auto simp: transformText_def split: option.splits)
  show ?thesis
    using assms seg segment_text_ends [OF seg] end_text_ends [of o2 i t2 out t'] by (auto simp: transformText_def split: if_splits)
qed

lemma transformToolCalls_end:
  assumes "transformToolCalls i t = (out, t')"
  shows "if \<not> it_IsEnd i then \<forall>x\<in>set out. \<not> it_IsEnd x
    else (out = [] \<longleftrightarrow> trim_space (sg_textBuffer t) = [] \<and> sg_pendingToolCalls t = [] \<and> it_ToolCalls i = []) \<and>
      sg_pendingToolCalls t' = [] \<and> (out \<noteq> [] \<longrightarrow> it_IsEnd (last out) \<and> (\<forall>x\<in>set (butlast out). \<not> it_IsEnd x))"
proof -
  obtain o1 t1 where f: "flushPendingText (it_Meta i) True False t = (o1, t1)" by (cases "flushPendingText (it_Meta i) True False t")
  have o1: "\<forall>x\<in>set o1. \<not> it_IsEnd x" "o1 = [] \<longleftrightarrow> trim_space (sg_textBuffer t) = []" "sg_pendingToolCalls t1 = sg_pendingToolCalls t"
    using flush_text_ends [OF f] f by (auto simp: flushPendingText_def Let_def split: if_splits)
  define t2 where "t2 = (if length (it_ToolCalls i) > 0 then t1\<lparr>sg_pendingToolCalls := sg_pendingToolCalls t1 @ it_ToolCalls i\<rparr> else t1)"
  obtain fl t3 where fl: "flushPendingToolCalls (it_Meta i) True t2 = (fl, t3)" by (cases "flushPendingToolCalls (it_Meta i) True t2")
  have fl': "fl = [] \<longleftrightarrow> sg_pendingToolCalls t = [] \<and> it_ToolCalls i = []" "sg_pendingToolCalls t3 = []"
    using fl o1(3) by (auto simp: flushPendingToolCalls_def t2_def split: if_splits)
  have eq: "(out, t') = (if it_IsEnd i then (if length (o1 @ fl) > 0 then (mark_last_end (o1 @ fl), t3) else (o1 @ fl, t3)) else (o1, t2))"
    using assms unfolding transformToolCalls_def f Let_def prod.case t2_def [symmetric] fl by (rule sym)
  show ?thesis
  proof (cases "it_IsEnd i \<and> o1 @ fl \<noteq> []")
    case True
    then have "out = butlast (o1 @ fl) @ [(last (o1 @ fl))\<lparr>it_IsEnd := True\<rparr>]" "t' = t3"
      using eq by (simp_all add: mark_last_end_eq)
    then show ?thesis using True o1 fl' ends_append [OF o1(1) flush_at_most_one(2) [OF fl]] by auto
  next
    case False
    then show ?thesis using eq o1 fl' by (auto split: if_splits)
  qed
qed

lemma segmenter_init: "sg_pendingToolCalls (tr_state segmenter_transformer) = []"
  by (simp add: segmenter_transformer_def segmenter_New_def)

text \<open>
  C15. Tool calls pass the segmenter unharmed: over a whole turn pushed through the pipeline that the registry
  opens, the tool calls that came out and those still pending are exactly those that went in, in order.
\<close>

theorem segmenter_keeps_tool_calls:
  assumes opened: "registry_Open ctx (registry_Register outputSegmenterFactory []) = Inr p"
    and run: "push_all p ins = Some (outs, p')"
  shows "\<exists>tr. p' = [(''output_segmenter'', tr)] \<and>
    concat (map tool_calls_of ins) = concat (map tool_calls_of outs) @ sg_pendingToolCalls (tr_state tr)"
proof -
  have p: "p = [(''output_segmenter'', segmenter_transformer)]"
    using opened by (simp add: registry_Register_def outputSegmenterFactory_def)
  from seg_tools.push_all_conserves [OF run [unfolded p] refl] show ?thesis by (simp add: segmenter_init)
qed

definition demo_item :: "item_kind \<Rightarrow> gotext \<Rightarrow> nat list \<Rightarrow> bool \<Rightarrow> (nat, unit) item" where
  "demo_item k tx cs e = \<lparr>it_Kind = k, it_Text = tx, it_ToolCalls = cs, it_IsEnd = e, it_Meta = ()\<rparr>"

theorem segmenter_keeps_tool_calls_witness:
  "\<exists>outs p'. push_all [(''output_segmenter'', segmenter_transformer)]
       [demo_item ItemKindToolCalls [] [7] False, demo_item ItemKindToolCalls [] [8, 9] True] = Some (outs, p') \<and>
     concat (map tool_calls_of outs) = [7, 8, 9]"
proof -
  let ?f = "outputSegmenterFactory :: (unit, nat, unit, nat segmenter) stage_factory"
  let ?ins = "[demo_item ItemKindToolCalls [] [7] False, demo_item ItemKindToolCalls [] [8, 9] True]"
  have o: "registry_Open () (registry_Register ?f []) = Inr [(''output_segmenter'', segmenter_transformer)]"
    by (simp add: registry_Register_def outputSegmenterFactory_def)
  obtain outs tr where r: "push_all [(''output_segmenter'', segmenter_transformer)] ?ins = Some (outs, [(''output_segmenter'', tr)])"
    and none: "sg_pendingToolCalls (tr_state tr) = []"
    by (simp add: pipeline_Push_def segmenter_transformer_def segmenter_Transform_def transformToolCalls_def flushPendingText_def
        flushPendingToolCalls_def segmenter_New_def demo_item_def)
  from segmenter_keeps_tool_calls [OF o r] r none show ?thesis by (auto simp: demo_item_def tool_calls_of_def)
qed

text \<open>
  The end of a turn. A text item that is not the end emits no end marker. A text item that ends the turn
  always emits something, with the end marker on the last item and on no other, and leaves no text behind. A
  tool-call item that ends the turn does the same unless there is nothing at all to emit, and leaves no tool
  call behind.
\<close>

theorem segmenter_end_marker:
  assumes step: "segmenter_Transform t i = Some (out, t')" and kind: "it_Kind i \<in> {ItemKindTextDelta, ItemKindToolCalls}"
  shows "(\<not> it_IsEnd i \<longrightarrow> (\<forall>x\<in>set out. \<not> it_IsEnd x)) \<and>
    (it_IsEnd i \<longrightarrow> it_Kind i = ItemKindTextDelta \<longrightarrow> out \<noteq> [] \<and> sg_textBuffer t' = []) \<and>
    (it_IsEnd i \<longrightarrow> it_Kind i = ItemKindToolCalls \<longrightarrow> sg_pendingToolCalls t' = [] \<and>
       (out = [] \<longleftrightarrow> trim_space (sg_textBuffer t) = [] \<and> sg_pendingToolCalls t = [] \<and> it_ToolCalls i = [])) \<and>
    (it_IsEnd i \<longrightarrow> out \<noteq> [] \<longrightarrow> it_IsEnd (last out) \<and> (\<forall>x\<in>set (butlast out). \<not> it_IsEnd x))"
proof (cases "it_Kind i = ItemKindTextDelta")
  case True
  then have tt: "transformText i t = Some (out, t')" using step by (simp add: segmenter_Transform_def)
  show ?thesis
  proof (cases "it_IsEnd i")
    case e: True
    have "out \<noteq> [] \<and> sg_textBuffer t' = [] \<and> it_IsEnd (last out) \<and> (\<forall>x\<in>set (butlast out). \<not> it_IsEnd x)"
      using transformText_end [OF tt] e by presburger
    then show ?thesis by (simp only: True e item_kind.distinct simp_thms) (elim conjE)
  next
    case False
    show ?thesis using transformText_end [OF tt] False by simp
  qed
next
  case False
  then have k: "it_Kind i = ItemKindToolCalls" using kind by simp
  then have "transformToolCalls i t = (out, t')" using step by (simp add: segmenter_Transform_def)
  from transformToolCalls_end [OF this] k show ?thesis
    by (metis (no_types, lifting) item_kind.distinct(3) item_kind.distinct(4))
qed

theorem segmenter_end_marker_witness:
  "\<exists>out t'. segmenter_Transform segmenter_New (demo_item ItemKindTextDelta [] [] True) = Some (out, t') \<and>
     out \<noteq> [] \<and> it_IsEnd (last out) \<and> sg_textBuffer t' = []"
proof -
  let ?i = "demo_item ItemKindTextDelta [] [] True"
  obtain out t' where s: "segmenter_Transform segmenter_New ?i = Some (out, t')"
    by (simp add: segmenter_Transform_def transformText_def segment_text_def end_text_def flushPendingText_def flushPendingToolCalls_def
        segmenter_New_def demo_item_def)
  from segmenter_end_marker [OF s] s show ?thesis by (simp add: demo_item_def)
qed

end
