(* ===== verification/HookHub.thy ===== *)
theory HookHub
  imports Prelude "HOL-Library.Multiset" "HOL-Library.Sublist"
begin

text \<open>
  The plugin hub of \<open>internal/pkg/hooks/hub.go\<close>: interceptors that run in priority order on the caller's
  goroutine and may change, stop or fail the payload, and observers that run on a bounded executor.

  \<open>'x\<close> is the context, \<open>'p\<close> the payload, \<open>'w\<close> the world handlers act on. A handler also answers how many
  milliseconds it took, which the hub adds up. A missing key of a handler map is the empty list. The order in
  which Go walks a map is an argument of the one operation it matters for.
\<close>

subsection \<open>Plugins and statistics\<close>

datatype plugin_kind = PluginKindInterceptor | PluginKindObserver

record plugin_meta =
  pm_Name :: string
  pm_Priority :: int
  pm_Kind :: plugin_kind
  pm_Stage :: string
  pm_Enabled :: bool

record ('x, 'p, 'w) named_sync =
  ns_meta :: plugin_meta
  ns_enabled :: bool
  ns_handler :: "'x \<Rightarrow> 'p \<Rightarrow> 'w \<Rightarrow> ('p \<times> bool \<times> string option \<times> int) \<times> 'w"

record ('x, 'p, 'w) named_async =
  na_meta :: plugin_meta
  na_enabled :: bool
  na_handler :: "'x \<Rightarrow> 'p \<Rightarrow> 'w \<Rightarrow> int \<times> 'w"

record plugin_stats =
  st_Invocations :: int
  st_Errors :: int
  st_Stops :: int
  st_Timeouts :: int
  st_DroppedAsync :: int
  st_TotalDurationMs :: int

definition zero_stats :: plugin_stats where
  "zero_stats = \<lparr>st_Invocations = 0, st_Errors = 0, st_Stops = 0, st_Timeouts = 0, st_DroppedAsync = 0, st_TotalDurationMs = 0\<rparr>"

record async_config =
  ac_QueueSize :: int
  ac_WorkerCount :: int
  ac_DropWhenFull :: bool
  ac_Timeout :: int

type_synonym ('x, 'p, 'w) hook_task = "('x, 'p, 'w) named_async \<times> 'x \<times> 'p"

subsection \<open>The executor\<close>

text \<open>\<open>ex_asleep\<close>: the goroutines in \<open>cond.Wait\<close>, workers and submitters alike.\<close>

datatype 't sleeper = SleepWorker nat | SleepSubmit nat 't

record 't executor =
  ex_cfg :: async_config
  ex_queue :: "'t list"
  ex_cancelled :: bool
  ex_asleep :: "'t sleeper list"

definition NewAsyncExecutor :: "async_config \<Rightarrow> 't executor" where
  "NewAsyncExecutor cfg =
     (let cfg = (if ac_QueueSize cfg \<le> 0 then cfg\<lparr>ac_QueueSize := 1024\<rparr> else cfg);
          cfg = (if ac_WorkerCount cfg \<le> 0 then cfg\<lparr>ac_WorkerCount := 1\<rparr> else cfg)
      in \<lparr>ex_cfg = cfg, ex_queue = [], ex_cancelled = False, ex_asleep = []\<rparr>)"

datatype 't popped = PopTask 't | PopExit | PopSleeps

text \<open>One turn of the loop of \<open>pop\<close>, on entry or after a wake-up. Taking a task signals nobody.\<close>

definition exec_pop :: "nat \<Rightarrow> 't executor \<Rightarrow> 't popped \<times> 't executor" where
  "exec_pop w e =
     (case ex_queue e of
        [] \<Rightarrow> if \<not> ex_cancelled e then (PopSleeps, e\<lparr>ex_asleep := ex_asleep e @ [SleepWorker w]\<rparr>) else (PopExit, e)
      | task # rest \<Rightarrow> (PopTask task, e\<lparr>ex_queue := rest\<rparr>))"

datatype submitted = SubmitQueued | SubmitRefused | SubmitSleeps

text \<open>
  \<open>cond.Signal\<close> wakes one sleeper, of the scheduler's choice (\<open>pick\<close>); the woken goroutine runs its loop again.
\<close>

definition cond_Signal :: "nat \<Rightarrow> 't executor \<Rightarrow> 't executor" where
  "cond_Signal pick e =
     (if ex_asleep e = [] then e
      else let k = pick mod length (ex_asleep e) in
           e\<lparr>ex_asleep := take k (ex_asleep e) @ drop (Suc k) (ex_asleep e)\<rparr>)"

definition full_queue :: "'t executor \<Rightarrow> bool" where
  "full_queue e \<longleftrightarrow> int (length (ex_queue e)) \<ge> ac_QueueSize (ex_cfg e)"

definition exec_enqueue :: "nat \<Rightarrow> 't \<Rightarrow> 't executor \<Rightarrow> submitted \<times> 't executor" where
  "exec_enqueue pick task e = (SubmitQueued, cond_Signal pick (e\<lparr>ex_queue := ex_queue e @ [task]\<rparr>))"

text \<open>\<open>Submit\<close> on entry, and the loop around its wait after a wake-up; \<open>expired\<close>: the one-second wait context is over.\<close>

definition exec_Submit :: "nat \<Rightarrow> nat \<Rightarrow> 't \<Rightarrow> 't executor \<Rightarrow> submitted \<times> 't executor" where
  "exec_Submit pick who task e =
     (if ex_cancelled e then (SubmitRefused, e)
      else if ac_QueueSize (ex_cfg e) > 0 \<and> full_queue e then
        (if ac_DropWhenFull (ex_cfg e) then (SubmitRefused, e)
         else (SubmitSleeps, e\<lparr>ex_asleep := ex_asleep e @ [SleepSubmit who task]\<rparr>))
      else exec_enqueue pick task e)"

definition submit_woken :: "nat \<Rightarrow> bool \<Rightarrow> nat \<Rightarrow> 't \<Rightarrow> 't executor \<Rightarrow> submitted \<times> 't executor" where
  "submit_woken pick expired who task e =
     (if full_queue e \<and> \<not> expired then (SubmitSleeps, e\<lparr>ex_asleep := ex_asleep e @ [SleepSubmit who task]\<rparr>)
      else if expired then (SubmitRefused, e)
      else exec_enqueue pick task e)"

definition exec_Close :: "'t executor \<Rightarrow> 't executor" where
  "exec_Close e = e\<lparr>ex_cancelled := True, ex_asleep := []\<rparr>"

subsection \<open>The hub\<close>

record ('x, 'p, 'w) hub =
  hb_cancelled :: bool
  hb_syncHandlers :: "string \<Rightarrow> ('x, 'p, 'w) named_sync list"
  hb_asyncHandlers :: "string \<Rightarrow> ('x, 'p, 'w) named_async list"
  hb_asyncConfig :: async_config
  hb_exec :: "('x, 'p, 'w) hook_task executor"
  hb_ownsAsync :: bool
  hb_droppedAsync :: int
  hb_pluginStats :: "(string \<times> plugin_stats) list"
  hb_pluginMeta :: "(string \<times> plugin_meta) list"

definition defaultAsyncConfig :: async_config where
  "defaultAsyncConfig = \<lparr>ac_QueueSize = 1024, ac_WorkerCount = 1, ac_DropWhenFull = True, ac_Timeout = 200 * 1000000\<rparr>"

definition WithAsyncConfig :: "async_config \<Rightarrow> async_config \<Rightarrow> async_config" where
  "WithAsyncConfig cfg c =
     (let c = (if ac_QueueSize cfg > 0 then c\<lparr>ac_QueueSize := ac_QueueSize cfg\<rparr> else c);
          c = (if ac_WorkerCount cfg > 0 then c\<lparr>ac_WorkerCount := ac_WorkerCount cfg\<rparr> else c);
          c = (if ac_Timeout cfg > 0 then c\<lparr>ac_Timeout := ac_Timeout cfg\<rparr> else c)
      in c\<lparr>ac_DropWhenFull := ac_DropWhenFull cfg\<rparr>)"

text \<open>\<open>NewHub\<close>, with the options applied: an executor of its own unless it was given one.\<close>

definition NewHub :: "async_config option \<Rightarrow> ('x, 'p, 'w) hook_task executor option \<Rightarrow> ('x, 'p, 'w) hub" where
  "NewHub cfg ex =
     (let c = (case cfg of None \<Rightarrow> defaultAsyncConfig | Some cfg \<Rightarrow> WithAsyncConfig cfg defaultAsyncConfig) in
      \<lparr>hb_cancelled = False, hb_syncHandlers = (\<lambda>_. []), hb_asyncHandlers = (\<lambda>_. []), hb_asyncConfig = c,
       hb_exec = (case ex of None \<Rightarrow> NewAsyncExecutor c | Some e \<Rightarrow> e), hb_ownsAsync = (ex = None),
       hb_droppedAsync = 0, hb_pluginStats = [], hb_pluginMeta = []\<rparr>)"

definition hub_Close :: "('x, 'p, 'w) hub \<Rightarrow> ('x, 'p, 'w) hub" where
  "hub_Close h = h\<lparr>hb_cancelled := True, hb_exec := (if hb_ownsAsync h then exec_Close (hb_exec h) else hb_exec h)\<rparr>"

text \<open>\<open>ensurePluginStatsLocked\<close> followed by a change of the entry.\<close>

fun touch_stats :: "string \<Rightarrow> (plugin_stats \<Rightarrow> plugin_stats) \<Rightarrow> (string \<times> plugin_stats) list \<Rightarrow> (string \<times> plugin_stats) list" where
  "touch_stats name f [] = [(name, f zero_stats)]"
| "touch_stats name f ((n, s) # rest) = (if n = name then (n, f s) # rest else (n, s) # touch_stats name f rest)"

definition hub_record :: "string \<Rightarrow> (plugin_stats \<Rightarrow> plugin_stats) \<Rightarrow> ('x, 'p, 'w) hub \<Rightarrow> ('x, 'p, 'w) hub" where
  "hub_record name f h = h\<lparr>hb_pluginStats := touch_stats name f (hb_pluginStats h)\<rparr>"

definition recordInvocation :: "string \<Rightarrow> ('x, 'p, 'w) hub \<Rightarrow> ('x, 'p, 'w) hub" where
  "recordInvocation name = hub_record name (\<lambda>s. s\<lparr>st_Invocations := st_Invocations s + 1\<rparr>)"
definition recordError :: "string \<Rightarrow> ('x, 'p, 'w) hub \<Rightarrow> ('x, 'p, 'w) hub" where
  "recordError name = hub_record name (\<lambda>s. s\<lparr>st_Errors := st_Errors s + 1\<rparr>)"
definition recordStop :: "string \<Rightarrow> ('x, 'p, 'w) hub \<Rightarrow> ('x, 'p, 'w) hub" where
  "recordStop name = hub_record name (\<lambda>s. s\<lparr>st_Stops := st_Stops s + 1\<rparr>)"
definition recordTimeout :: "string \<Rightarrow> ('x, 'p, 'w) hub \<Rightarrow> ('x, 'p, 'w) hub" where
  "recordTimeout name = hub_record name (\<lambda>s. s\<lparr>st_Timeouts := st_Timeouts s + 1\<rparr>)"
definition recordDropped :: "string \<Rightarrow> ('x, 'p, 'w) hub \<Rightarrow> ('x, 'p, 'w) hub" where
  "recordDropped name = hub_record name (\<lambda>s. s\<lparr>st_DroppedAsync := st_DroppedAsync s + 1\<rparr>)"
definition recordDuration :: "string \<Rightarrow> int \<Rightarrow> ('x, 'p, 'w) hub \<Rightarrow> ('x, 'p, 'w) hub" where
  "recordDuration name ms = hub_record name (\<lambda>s. s\<lparr>st_TotalDurationMs := st_TotalDurationMs s + ms\<rparr>)"

definition recordPluginMeta :: "plugin_meta \<Rightarrow> ('x, 'p, 'w) hub \<Rightarrow> ('x, 'p, 'w) hub" where
  "recordPluginMeta meta h =
     h\<lparr>hb_pluginMeta := filter (\<lambda>(n, _). n \<noteq> pm_Name meta) (hb_pluginMeta h) @ [(pm_Name meta, meta)]\<rparr>"

text \<open>The name, kind and stage a registration ends up with; and whether it is enabled: it always is.\<close>

definition register_meta :: "string \<Rightarrow> plugin_kind \<Rightarrow> plugin_meta \<Rightarrow> plugin_meta" where
  "register_meta event kind meta =
     (let meta = (if pm_Name meta = '''' then meta\<lparr>pm_Name := event\<rparr> else meta) in meta\<lparr>pm_Kind := kind, pm_Stage := event\<rparr>)"

definition register_enabled :: "plugin_meta \<Rightarrow> bool" where
  "register_enabled meta = (let enabled = pm_Enabled meta in if \<not> pm_Enabled meta then True else enabled)"

definition RegisterSyncMeta :: "string \<Rightarrow> plugin_meta \<Rightarrow> ('x \<Rightarrow> 'p \<Rightarrow> 'w \<Rightarrow> ('p \<times> bool \<times> string option \<times> int) \<times> 'w)
    \<Rightarrow> ('x, 'p, 'w) hub \<Rightarrow> ('x, 'p, 'w) hub" where
  "RegisterSyncMeta event meta handler h =
     (let meta = register_meta event PluginKindInterceptor meta;
          h = hub_record (pm_Name meta) (\<lambda>s. s) (recordPluginMeta meta h);
          new = \<lparr>ns_meta = meta, ns_enabled = register_enabled meta, ns_handler = handler\<rparr>
      in h\<lparr>hb_syncHandlers := (hb_syncHandlers h)(event := sort_key (\<lambda>n. pm_Priority (ns_meta n)) (hb_syncHandlers h event @ [new]))\<rparr>)"

definition RegisterAsyncMeta :: "string \<Rightarrow> plugin_meta \<Rightarrow> ('x \<Rightarrow> 'p \<Rightarrow> 'w \<Rightarrow> int \<times> 'w)
    \<Rightarrow> ('x, 'p, 'w) hub \<Rightarrow> ('x, 'p, 'w) hub" where
  "RegisterAsyncMeta event meta handler h =
     (let meta = register_meta event PluginKindObserver meta;
          h = hub_record (pm_Name meta) (\<lambda>s. s) (recordPluginMeta meta h);
          new = \<lparr>na_meta = meta, na_enabled = register_enabled meta, na_handler = handler\<rparr>
      in h\<lparr>hb_asyncHandlers := (hb_asyncHandlers h)(event := sort_key (\<lambda>n. pm_Priority (na_meta n)) (hb_asyncHandlers h event @ [new]))\<rparr>)"

text \<open>\<open>setPluginEnabled\<close> changes the first match only: interceptors before observers, events in map order.\<close>

fun enable_first :: "('a \<Rightarrow> string) \<Rightarrow> ('a \<Rightarrow> 'a) \<Rightarrow> string \<Rightarrow> 'a list \<Rightarrow> 'a list option" where
  "enable_first nm f name [] = None"
| "enable_first nm f name (x # xs) =
     (if nm x = name then Some (f x # xs) else map_option (Cons x) (enable_first nm f name xs))"

fun enable_events :: "('a \<Rightarrow> string) \<Rightarrow> ('a \<Rightarrow> 'a) \<Rightarrow> string \<Rightarrow> string list \<Rightarrow> (string \<Rightarrow> 'a list) \<Rightarrow> (string \<Rightarrow> 'a list) option" where
  "enable_events nm f name [] H = None"
| "enable_events nm f name (ev # evs) H =
     (case enable_first nm f name (H ev) of
        Some xs \<Rightarrow> Some (H(ev := xs))
      | None \<Rightarrow> enable_events nm f name evs H)"

definition setPluginEnabled :: "string list \<Rightarrow> string list \<Rightarrow> string \<Rightarrow> bool \<Rightarrow> ('x, 'p, 'w) hub \<Rightarrow> ('x, 'p, 'w) hub" where
  "setPluginEnabled order_s order_a name enabled h =
     (case enable_events (\<lambda>n. pm_Name (ns_meta n)) (\<lambda>n. n\<lparr>ns_enabled := enabled\<rparr>) name order_s (hb_syncHandlers h) of
        Some S \<Rightarrow> h\<lparr>hb_syncHandlers := S\<rparr>
      | None \<Rightarrow>
          (case enable_events (\<lambda>n. pm_Name (na_meta n)) (\<lambda>n. n\<lparr>na_enabled := enabled\<rparr>) name order_a (hb_asyncHandlers h) of
             Some A \<Rightarrow> h\<lparr>hb_asyncHandlers := A\<rparr>
           | None \<Rightarrow> h))"

record hub_stats =
  hs_AsyncQueueLength :: nat
  hs_DroppedAsync :: int
  hs_Plugins :: "(string \<times> plugin_stats) list"

definition hub_Stats :: "('x, 'p, 'w) hub \<Rightarrow> hub_stats" where
  "hub_Stats h = \<lparr>hs_AsyncQueueLength = length (ex_queue (hb_exec h)), hs_DroppedAsync = hb_droppedAsync h,
     hs_Plugins = hb_pluginStats h\<rparr>"

text \<open>The comparison \<open>PluginMetas\<close> hands to \<open>sort.Slice\<close>; strings compare bytewise.\<close>

definition str_less :: "string \<Rightarrow> string \<Rightarrow> bool" where
  "str_less a b \<longleftrightarrow> (map of_char a, map of_char b :: nat list) \<in> lexord {(x, y). x < y}"

definition kind_text :: "plugin_kind \<Rightarrow> string" where
  "kind_text k = (case k of PluginKindInterceptor \<Rightarrow> ''interceptor'' | PluginKindObserver \<Rightarrow> ''observer'')"

definition metas_less :: "plugin_meta \<Rightarrow> plugin_meta \<Rightarrow> bool" where
  "metas_less a b =
     (if pm_Stage a = pm_Stage b then pm_Priority a < pm_Priority b
      else if pm_Kind a = pm_Kind b then str_less (pm_Stage a) (pm_Stage b)
      else str_less (kind_text (pm_Kind a)) (kind_text (pm_Kind b)))"

subsection \<open>Emitting an event\<close>

text \<open>
  Observers are handed to the executor one by one. \<open>pick\<close> is the scheduler's choice for the signals. \<open>None\<close>:
  the caller sleeps in \<open>Submit\<close> (a full queue without \<open>DropWhenFull\<close>).
\<close>

fun emitAsync :: "nat \<Rightarrow> 'x \<Rightarrow> 'p \<Rightarrow> ('x, 'p, 'w) named_async list \<Rightarrow> ('x, 'p, 'w) hub \<Rightarrow> ('x, 'p, 'w) hub option" where
  "emitAsync pick ctx payload [] h = Some h"
| "emitAsync pick ctx payload (hk # hks) h =
     (if \<not> na_enabled hk then emitAsync pick ctx payload hks h
      else if hb_cancelled h then Some h
      else (case exec_Submit pick 0 (hk, ctx, payload) (hb_exec h) of
          (SubmitQueued, e) \<Rightarrow> emitAsync pick ctx payload hks (h\<lparr>hb_exec := e\<rparr>)
        | (SubmitRefused, e) \<Rightarrow>
            emitAsync pick ctx payload hks
              (recordDropped (pm_Name (na_meta hk)) (h\<lparr>hb_exec := e, hb_droppedAsync := hb_droppedAsync h + 1\<rparr>))
        | (SubmitSleeps, e) \<Rightarrow> None))"

datatype 'p emitted = EmitOut 'p bool | EmitErr 'p bool string string

text \<open>The interceptors, from the first; the flag tells whether the observers are to be run, and with what.\<close>

fun run_interceptors :: "'x \<Rightarrow> ('x, 'p, 'w) named_sync list \<Rightarrow> 'p \<Rightarrow> ('x, 'p, 'w) hub \<Rightarrow> 'w
    \<Rightarrow> 'p emitted \<times> ('x, 'p, 'w) hub \<times> 'w" where
  "run_interceptors ctx [] out h w = (EmitOut out False, h, w)"
| "run_interceptors ctx (hk # hks) out h w =
     (if \<not> ns_enabled hk then run_interceptors ctx hks out h w
      else
        let name = pm_Name (ns_meta hk); h = recordInvocation name h in
        case ns_handler hk ctx out w of
          ((next1, stop, err, ms), w) \<Rightarrow>
            let h = recordDuration name ms h in
            case err of
              Some e \<Rightarrow> (EmitErr out stop name e, recordError name h, w)
            | None \<Rightarrow>
                if stop then (EmitOut next1 True, recordStop name h, w)
                else run_interceptors ctx hks next1 h w)"

definition hub_Emit :: "nat \<Rightarrow> string \<Rightarrow> 'x \<Rightarrow> 'p \<Rightarrow> ('x, 'p, 'w) hub \<Rightarrow> 'w
    \<Rightarrow> ('p emitted \<times> ('x, 'p, 'w) hub \<times> 'w) option" where
  "hub_Emit pick event ctx payload h w =
     (case run_interceptors ctx (hb_syncHandlers h event) payload h w of
        (EmitErr out stop name e, h', w) \<Rightarrow> Some (EmitErr out stop name e, h', w)
      | (EmitOut out stop, h', w) \<Rightarrow>
          (case emitAsync pick ctx out (hb_asyncHandlers h event) h' of
             None \<Rightarrow> None
           | Some h'' \<Rightarrow> Some (EmitOut out stop, h'', w)))"

text \<open>A worker runs one task: with a timeout it may stop waiting for the handler (\<open>timed_out\<close>).\<close>

definition runAsyncHandler :: "bool \<Rightarrow> ('x, 'p, 'w) hook_task \<Rightarrow> ('x, 'p, 'w) hub \<Rightarrow> 'w \<Rightarrow> ('x, 'p, 'w) hub \<times> 'w" where
  "runAsyncHandler timed_out task h w =
     (case task of (hk, ctx, payload) \<Rightarrow>
        let name = pm_Name (na_meta hk); h = recordInvocation name h in
        case na_handler hk ctx payload w of (ms, w) \<Rightarrow>
          if ac_Timeout (hb_asyncConfig h) \<le> 0 then (recordDuration name ms h, w)
          else if timed_out then (recordDuration name ms (recordTimeout name h), w)
          else (recordDuration name ms h, w))"

definition worker_step :: "nat \<Rightarrow> bool \<Rightarrow> ('x, 'p, 'w) hub \<Rightarrow> 'w \<Rightarrow> ('x, 'p, 'w) hub \<times> 'w" where
  "worker_step wk timed_out h w =
     (case exec_pop wk (hb_exec h) of
        (PopTask task, e) \<Rightarrow> runAsyncHandler timed_out task (h\<lparr>hb_exec := e\<rparr>) w
      | (_, e) \<Rightarrow> (h\<lparr>hb_exec := e\<rparr>, w))"


subsection \<open>Calls on a hub\<close>

datatype ('x, 'p, 'w) hub_call =
    HSync string plugin_meta "'x \<Rightarrow> 'p \<Rightarrow> 'w \<Rightarrow> ('p \<times> bool \<times> string option \<times> int) \<times> 'w"
  | HAsync string plugin_meta "'x \<Rightarrow> 'p \<Rightarrow> 'w \<Rightarrow> int \<times> 'w"
  | HEnable "string list" "string list" string bool
  | HEmit nat string 'x 'p
  | HWork nat bool
  | HClose

fun hub_do :: "('x, 'p, 'w) hub_call \<Rightarrow> ('x, 'p, 'w) hub \<times> 'w \<Rightarrow> (('x, 'p, 'w) hub \<times> 'w) option" where
  "hub_do (HSync event meta f) (h, w) = Some (RegisterSyncMeta event meta f h, w)"
| "hub_do (HAsync event meta f) (h, w) = Some (RegisterAsyncMeta event meta f h, w)"
| "hub_do (HEnable os oa name b) (h, w) = Some (setPluginEnabled os oa name b h, w)"
| "hub_do (HEmit pick event ctx p) (h, w) = map_option snd (hub_Emit pick event ctx p h w)"
| "hub_do (HWork wk late) (h, w) = Some (worker_step wk late h w)"
| "hub_do HClose (h, w) = Some (hub_Close h, w)"

fun hub_run :: "('x, 'p, 'w) hub_call list \<Rightarrow> ('x, 'p, 'w) hub \<times> 'w \<Rightarrow> (('x, 'p, 'w) hub \<times> 'w) option" where
  "hub_run [] s = Some s"
| "hub_run (c # cs) s = (case hub_do c s of None \<Rightarrow> None | Some s \<Rightarrow> hub_run cs s)"

subsection \<open>Accounting\<close>

definition stat_sum :: "(plugin_stats \<Rightarrow> int) \<Rightarrow> (string \<times> plugin_stats) list \<Rightarrow> int" where
  "stat_sum g xs = sum_list (map (g \<circ> snd) xs)"

lemma stat_sum_touch:
  assumes "\<And>s. g (f s) = g s + d" and "g zero_stats = 0"
  shows "stat_sum g (touch_stats name f xs) = stat_sum g xs + d"
  using assms by (induction name f xs rule: touch_stats.induct) (auto simp: stat_sum_def)

lemma stat_sum_record:
  "(\<And>s. g (f s) = g s + d) \<Longrightarrow> g zero_stats = 0 \<Longrightarrow>
     stat_sum g (hb_pluginStats (hub_record name f h)) = stat_sum g (hb_pluginStats h) + d"
  by (simp add: hub_record_def stat_sum_touch)

lemma hub_record_frame [simp]:
  "hb_exec (hub_record name f h) = hb_exec h" "hb_droppedAsync (hub_record name f h) = hb_droppedAsync h"
  "hb_cancelled (hub_record name f h) = hb_cancelled h" "hb_syncHandlers (hub_record name f h) = hb_syncHandlers h"
  "hb_asyncHandlers (hub_record name f h) = hb_asyncHandlers h" "hb_asyncConfig (hub_record name f h) = hb_asyncConfig h"
  by (simp_all add: hub_record_def)

lemma dropped_stats [simp]:
  "stat_sum st_DroppedAsync (hb_pluginStats (recordInvocation name h)) = stat_sum st_DroppedAsync (hb_pluginStats h)"
  "stat_sum st_DroppedAsync (hb_pluginStats (recordError name h)) = stat_sum st_DroppedAsync (hb_pluginStats h)"
  "stat_sum st_DroppedAsync (hb_pluginStats (recordStop name h)) = stat_sum st_DroppedAsync (hb_pluginStats h)"
  "stat_sum st_DroppedAsync (hb_pluginStats (recordTimeout name h)) = stat_sum st_DroppedAsync (hb_pluginStats h)"
  "stat_sum st_DroppedAsync (hb_pluginStats (recordDuration name ms h)) = stat_sum st_DroppedAsync (hb_pluginStats h)"
  "stat_sum st_DroppedAsync (hb_pluginStats (recordDropped name h)) = stat_sum st_DroppedAsync (hb_pluginStats h) + 1"
  "stat_sum st_DroppedAsync (hb_pluginStats (hub_record name (\<lambda>s. s) h)) = stat_sum st_DroppedAsync (hb_pluginStats h)"
  by (simp_all add: recordInvocation_def recordError_def recordStop_def recordTimeout_def recordDuration_def recordDropped_def
      stat_sum_record [where d = 0] stat_sum_record [where d = 1] zero_stats_def)

lemmas record_defs = recordInvocation_def recordError_def recordStop_def recordTimeout_def recordDuration_def recordDropped_def

text \<open>The executor's queue stays within its configured size.\<close>

definition exec_inv :: "'t executor \<Rightarrow> bool" where
  "exec_inv e \<longleftrightarrow> 0 < ac_QueueSize (ex_cfg e) \<and> int (length (ex_queue e)) \<le> ac_QueueSize (ex_cfg e)"

lemma cond_Signal_frame [simp]: "ex_queue (cond_Signal pick e) = ex_queue e" "ex_cfg (cond_Signal pick e) = ex_cfg e"
  by (simp_all add: cond_Signal_def Let_def)

lemma exec_inv_Submit: "exec_inv e \<Longrightarrow> exec_Submit pick who task e = (r, e') \<Longrightarrow> exec_inv e'"
  by (auto simp: exec_inv_def exec_Submit_def exec_enqueue_def full_queue_def split: if_splits)

lemma exec_inv_pop: "exec_inv e \<Longrightarrow> exec_pop w e = (r, e') \<Longrightarrow> exec_inv e'"
  by (auto simp: exec_inv_def exec_pop_def split: list.splits if_splits)

lemma exec_inv_New: "exec_inv (NewAsyncExecutor cfg)"
  by (simp add: exec_inv_def NewAsyncExecutor_def Let_def)

definition hub_inv :: "('x, 'p, 'w) hub \<Rightarrow> bool" where
  "hub_inv h \<longleftrightarrow> exec_inv (hb_exec h) \<and> hb_droppedAsync h = stat_sum st_DroppedAsync (hb_pluginStats h) \<and>
     (\<forall>ev. sorted (map (\<lambda>n. pm_Priority (ns_meta n)) (hb_syncHandlers h ev))) \<and>
     (\<forall>ev. sorted (map (\<lambda>n. pm_Priority (na_meta n)) (hb_asyncHandlers h ev)))"

lemma emitAsync_inv:
  "emitAsync pick ctx p hks h = Some h' \<Longrightarrow> hub_inv h \<Longrightarrow> hub_inv h'"
proof (induction hks arbitrary: h)
  case (Cons hk hks)
  obtain r e where s: "exec_Submit pick 0 (hk, ctx, p) (hb_exec h) = (r, e)"
    by (cases "exec_Submit pick 0 (hk, ctx, p) (hb_exec h)")
  have e: "exec_inv e" using exec_inv_Submit [OF _ s] Cons.prems(2) by (simp add: hub_inv_def)
  let ?d = "recordDropped (pm_Name (na_meta hk)) (h\<lparr>hb_exec := e, hb_droppedAsync := hb_droppedAsync h + 1\<rparr>)"
  have "hub_inv (h\<lparr>hb_exec := e\<rparr>)" using e Cons.prems(2) by (simp add: hub_inv_def)
  moreover have "hub_inv ?d"
    using e Cons.prems(2) dropped_stats(6) [of "pm_Name (na_meta hk)" "h\<lparr>hb_exec := e, hb_droppedAsync := hb_droppedAsync h + 1\<rparr>"]
    by (simp add: hub_inv_def recordDropped_def)
  ultimately show ?case using Cons s by (cases r) (auto split: if_splits)
qed simp

text \<open>Running handlers changes nothing of a hub but the other statistics.\<close>

definition hub_frame :: "('x, 'p, 'w) hub \<Rightarrow> ('x, 'p, 'w) hub \<Rightarrow> bool" where
  "hub_frame h h' \<longleftrightarrow> hb_exec h' = hb_exec h \<and> hb_droppedAsync h' = hb_droppedAsync h \<and> hb_cancelled h' = hb_cancelled h \<and>
     hb_syncHandlers h' = hb_syncHandlers h \<and> hb_asyncHandlers h' = hb_asyncHandlers h \<and>
     stat_sum st_DroppedAsync (hb_pluginStats h') = stat_sum st_DroppedAsync (hb_pluginStats h)"

lemma hub_frame_refl: "hub_frame h h"
  by (simp add: hub_frame_def)

lemma hub_frame_trans [trans]: "hub_frame h h' \<Longrightarrow> hub_frame h' h'' \<Longrightarrow> hub_frame h h''"
  by (simp add: hub_frame_def)

lemma hub_frame_record:
  "hub_frame h (recordInvocation name h)" "hub_frame h (recordError name h)" "hub_frame h (recordStop name h)"
  "hub_frame h (recordTimeout name h)" "hub_frame h (recordDuration name ms h)"
  unfolding hub_frame_def dropped_stats by (simp_all add: record_defs)

lemma hub_frame_inv: "hub_frame h h' \<Longrightarrow> hub_inv h \<Longrightarrow> hub_inv h'"
  by (simp add: hub_frame_def hub_inv_def)

lemma run_interceptors_frame:
  "run_interceptors ctx hks out h w = (r, h', w') \<Longrightarrow> hub_frame h h'"
proof (induction hks arbitrary: out h w)
  case Nil
  then show ?case by (simp add: hub_frame_refl)
next
  case (Cons hk hks)
  obtain nx stop err ms w1 where hd: "ns_handler hk ctx out w = ((nx, stop, err, ms), w1)"
    by (metis prod_cases3 surj_pair)
  let ?n = "pm_Name (ns_meta hk)"
  let ?h = "recordDuration ?n ms (recordInvocation ?n h)"
  have base: "hub_frame h ?h" by (rule hub_frame_trans [OF hub_frame_record(1) hub_frame_record(5)])
  consider "\<not> ns_enabled hk" "run_interceptors ctx hks out h w = (r, h', w')"
    | e where "h' = recordError ?n ?h"
    | "h' = recordStop ?n ?h"
    | "run_interceptors ctx hks nx ?h w1 = (r, h', w')"
    using Cons.prems hd by (auto simp: Let_def split: if_splits option.splits)
  then show ?case
    using Cons.IH hub_frame_trans [OF base] hub_frame_record by cases blast+
qed

lemma runAsyncHandler_frame: "runAsyncHandler late task h w = (h', w') \<Longrightarrow> hub_frame h h'"
proof -
  obtain hk ctx p where t: "task = (hk, ctx, p)" by (cases task)
  obtain ms w1 where r: "na_handler hk ctx p w = (ms, w1)" by (cases "na_handler hk ctx p w")
  let ?n = "pm_Name (na_meta hk)"
  have "hub_frame h (recordDuration ?n ms (recordInvocation ?n h))"
    by (rule hub_frame_trans [OF hub_frame_record(1) hub_frame_record(5)])
  moreover have "hub_frame h (recordDuration ?n ms (recordTimeout ?n (recordInvocation ?n h)))"
    by (rule hub_frame_trans [OF hub_frame_trans [OF hub_frame_record(1) hub_frame_record(4)] hub_frame_record(5)])
  moreover assume "runAsyncHandler late task h w = (h', w')"
  ultimately show ?thesis by (auto simp: runAsyncHandler_def t r Let_def split: if_splits)
qed

lemma worker_step_inv: "hub_inv h \<Longrightarrow> worker_step wk late h w = (h', w') \<Longrightarrow> hub_inv h'"
proof -
  assume inv: "hub_inv h" and st: "worker_step wk late h w = (h', w')"
  obtain r e where p: "exec_pop wk (hb_exec h) = (r, e)" by (cases "exec_pop wk (hb_exec h)")
  have i: "hub_inv (h\<lparr>hb_exec := e\<rparr>)" using inv exec_inv_pop [OF _ p] by (simp add: hub_inv_def)
  show ?thesis
  proof (cases r)
    case (PopTask task)
    then have "hub_frame (h\<lparr>hb_exec := e\<rparr>) h'" using st p by (auto simp: worker_step_def intro: runAsyncHandler_frame)
    then show ?thesis using i hub_frame_inv by blast
  qed (use st p i in \<open>auto simp: worker_step_def\<close>)
qed

lemma hub_Emit_inv: "hub_inv h \<Longrightarrow> hub_Emit pick ev ctx p h w = Some (r, h', w') \<Longrightarrow> hub_inv h'"
proof -
  assume inv: "hub_inv h" and st: "hub_Emit pick ev ctx p h w = Some (r, h', w')"
  obtain r1 h1 w1 where i: "run_interceptors ctx (hb_syncHandlers h ev) p h w = (r1, h1, w1)"
    by (cases "run_interceptors ctx (hb_syncHandlers h ev) p h w")
  have "hub_inv h1" by (rule hub_frame_inv [OF run_interceptors_frame [OF i] inv])
  then show ?thesis using st i emitAsync_inv by (cases r1) (auto simp: hub_Emit_def split: option.splits)
qed

lemma enable_first_map:
  "enable_first nm f name xs = Some ys \<Longrightarrow> (\<And>x. g (f x) = g x) \<Longrightarrow> map g ys = map g xs"
  by (induction xs arbitrary: ys) (auto split: if_splits)

lemma enable_events_map:
  "enable_events nm f name evs H = Some H' \<Longrightarrow> (\<And>x. g (f x) = g x) \<Longrightarrow> map g (H' ev) = map g (H ev)"
  by (induction evs) (auto split: option.splits simp: enable_first_map)

lemma setPluginEnabled_inv: "hub_inv h \<Longrightarrow> hub_inv (setPluginEnabled os oa name b h)"
proof -
  assume inv: "hub_inv h"
  let ?gs = "\<lambda>n. pm_Priority (ns_meta n)" and ?ga = "\<lambda>n. pm_Priority (na_meta n)"
  have s: "map ?gs (S ev) = map ?gs (hb_syncHandlers h ev)"
    if "enable_events (\<lambda>n. pm_Name (ns_meta n)) (\<lambda>n. n\<lparr>ns_enabled := b\<rparr>) name os (hb_syncHandlers h) = Some S" for S ev
    by (rule enable_events_map [OF that]) simp
  have a: "map ?ga (A ev) = map ?ga (hb_asyncHandlers h ev)"
    if "enable_events (\<lambda>n. pm_Name (na_meta n)) (\<lambda>n. n\<lparr>na_enabled := b\<rparr>) name oa (hb_asyncHandlers h) = Some A" for A ev
    by (rule enable_events_map [OF that]) simp
  show ?thesis using inv s a by (auto simp: setPluginEnabled_def hub_inv_def split: option.splits)
qed

lemma Register_inv:
  "hub_inv h \<Longrightarrow> hub_inv (RegisterSyncMeta ev meta f h)" "hub_inv h \<Longrightarrow> hub_inv (RegisterAsyncMeta ev meta g h)"
proof -
  assume inv: "hub_inv h"
  have "stat_sum st_DroppedAsync (hb_pluginStats (hub_record n (\<lambda>s. s) (recordPluginMeta m h))) = stat_sum st_DroppedAsync (hb_pluginStats h)" for n m
    unfolding dropped_stats by (simp add: recordPluginMeta_def)
  then show "hub_inv (RegisterSyncMeta ev meta f h)" "hub_inv (RegisterAsyncMeta ev meta g h)"
    using inv by (simp_all add: hub_inv_def RegisterSyncMeta_def RegisterAsyncMeta_def Let_def recordPluginMeta_def)
qed

lemma hub_Close_inv: "hub_inv h \<Longrightarrow> hub_inv (hub_Close h)"
  by (simp add: hub_inv_def hub_Close_def exec_Close_def exec_inv_def)

lemma hub_do_inv: "hub_do c (h, w) = Some (h', w') \<Longrightarrow> hub_inv h \<Longrightarrow> hub_inv h'"
  by (cases c) (auto simp: Register_inv setPluginEnabled_inv hub_Close_inv dest: hub_Emit_inv worker_step_inv)

lemma hub_run_inv: "hub_run cs s = Some s' \<Longrightarrow> hub_inv (fst s) \<Longrightarrow> hub_inv (fst s')"
  by (induction cs arbitrary: s) (auto split: option.splits dest: hub_do_inv)

lemma NewHub_inv: "hub_inv (NewHub cfg None)"
  by (simp add: hub_inv_def NewHub_def Let_def exec_inv_New stat_sum_def)


subsection \<open>The chain of interceptors\<close>

text \<open>Payload and world after handlers have run one after the other, whatever they answer.\<close>

fun after_chain :: "'x \<Rightarrow> ('x, 'p, 'w) named_sync list \<Rightarrow> 'p \<times> 'w \<Rightarrow> 'p \<times> 'w" where
  "after_chain ctx [] s = s"
| "after_chain ctx (hk # hks) (p, w) =
     (case ns_handler hk ctx p w of ((next1, _), w) \<Rightarrow> after_chain ctx hks (next1, w))"

definition answer :: "'x \<Rightarrow> ('x, 'p, 'w) named_sync \<Rightarrow> 'p \<times> 'w \<Rightarrow> 'p \<times> bool \<times> string option" where
  "answer ctx hk s = (case s of (p, w) \<Rightarrow> case ns_handler hk ctx p w of ((next1, stop, err, _), _) \<Rightarrow> (next1, stop, err))"

text \<open>Interceptor \<open>i\<close> of \<open>es\<close>, called with what its predecessors made of \<open>s\<close>, lets the payload pass.\<close>

definition passes :: "'x \<Rightarrow> ('x, 'p, 'w) named_sync list \<Rightarrow> 'p \<times> 'w \<Rightarrow> nat \<Rightarrow> bool" where
  "passes ctx es s i \<longleftrightarrow> (\<exists>p. answer ctx (es ! i) (after_chain ctx (take i es) s) = (p, False, None))"

definition chain_outcome :: "'x \<Rightarrow> ('x, 'p, 'w) named_sync list \<Rightarrow> 'p \<times> 'w \<Rightarrow> 'p emitted \<Rightarrow> 'w \<Rightarrow> bool" where
  "chain_outcome ctx es s r w' \<longleftrightarrow>
     (\<exists>k \<le> length es. (\<forall>i < k. passes ctx es s i) \<and>
        (if k = length es then r = EmitOut (fst (after_chain ctx es s)) False \<and> w' = snd (after_chain ctx es s)
         else case answer ctx (es ! k) (after_chain ctx (take k es) s) of
             (p, stop, Some e) \<Rightarrow> r = EmitErr (fst (after_chain ctx (take k es) s)) stop (pm_Name (ns_meta (es ! k))) e \<and>
                w' = snd (after_chain ctx (take (Suc k) es) s)
           | (p, stop, None) \<Rightarrow> stop \<and> r = EmitOut p True \<and> w' = snd (after_chain ctx (take (Suc k) es) s)))"

lemma chain_outcome_Cons:
  assumes "ns_handler hk ctx p w = ((nx, False, None, ms), w1)" and "chain_outcome ctx es (nx, w1) r w'"
  shows "chain_outcome ctx (hk # es) (p, w) r w'"
proof -
  have step: "after_chain ctx (hk # xs) (p, w) = after_chain ctx xs (nx, w1)" for xs using assms(1) by simp
  obtain k where k: "k \<le> length es" "\<forall>i < k. passes ctx es (nx, w1) i"
    "if k = length es then r = EmitOut (fst (after_chain ctx es (nx, w1))) False \<and> w' = snd (after_chain ctx es (nx, w1))
         else case answer ctx (es ! k) (after_chain ctx (take k es) (nx, w1)) of
             (p, stop, Some e) \<Rightarrow> r = EmitErr (fst (after_chain ctx (take k es) (nx, w1))) stop (pm_Name (ns_meta (es ! k))) e \<and>
                w' = snd (after_chain ctx (take (Suc k) es) (nx, w1))
           | (p, stop, None) \<Rightarrow> stop \<and> r = EmitOut p True \<and> w' = snd (after_chain ctx (take (Suc k) es) (nx, w1))"
    using assms(2) unfolding chain_outcome_def by blast
  have "passes ctx (hk # es) (p, w) i" if "i < Suc k" for i
    using that k(2) assms(1) by (cases i) (auto simp: passes_def answer_def step)
  then show ?thesis unfolding chain_outcome_def using k(1,3) step
    by (intro exI [of _ "Suc k"]) simp
qed

lemma run_interceptors_chain:
  "run_interceptors ctx hks p h w = (r, h', w') \<Longrightarrow> chain_outcome ctx (filter ns_enabled hks) (p, w) r w'"
proof (induction hks arbitrary: p h w)
  case Nil
  then show ?case by (simp add: chain_outcome_def)
next
  case (Cons hk hks)
  obtain nx stop err ms w1 where hd: "ns_handler hk ctx p w = ((nx, stop, err, ms), w1)"
    by (metis prod_cases3 surj_pair)
  show ?case
  proof (cases "ns_enabled hk")
    case False
    then show ?thesis using Cons by simp
  next
    case True
    show ?thesis
    proof (cases "err = None \<and> \<not> stop")
      case pass: True
      then show ?thesis using Cons True hd by (auto simp: Let_def intro: chain_outcome_Cons)
    next
      case False
      then show ?thesis using Cons.prems True hd
        by (auto simp: Let_def chain_outcome_def answer_def split: if_splits option.splits intro!: exI [of _ 0])
    qed
  qed
qed

text \<open>The observers: each enabled one is queued with the final payload or counted as dropped, in order.\<close>

lemma emitAsync_effect:
  assumes "emitAsync pick ctx p hks h = Some h'" and "\<not> hb_cancelled h"
  shows "\<exists>q. subseq q (map (\<lambda>hk. (hk, ctx, p)) (filter na_enabled hks)) \<and> ex_queue (hb_exec h') = ex_queue (hb_exec h) @ q \<and>
    hb_droppedAsync h' = hb_droppedAsync h + int (length (filter na_enabled hks)) - int (length q)"
  using assms
proof (induction hks arbitrary: h)
  case Nil
  then show ?case by (intro exI [of _ "[]"]) simp
next
  case (Cons hk hks)
  obtain r e where sub: "exec_Submit pick 0 (hk, ctx, p) (hb_exec h) = (r, e)"
    by (cases "exec_Submit pick 0 (hk, ctx, p) (hb_exec h)")
  show ?case
  proof (cases "na_enabled hk")
    case False
    then show ?thesis using Cons by auto
  next
    case True
    show ?thesis
    proof (cases r)
      case SubmitQueued
      then have "ex_queue e = ex_queue (hb_exec h) @ [(hk, ctx, p)]"
        using sub by (auto simp: exec_Submit_def exec_enqueue_def split: if_splits)
      moreover obtain q where "subseq q (map (\<lambda>hk. (hk, ctx, p)) (filter na_enabled hks))" "ex_queue (hb_exec h') = ex_queue e @ q"
        "hb_droppedAsync h' = hb_droppedAsync h + int (length (filter na_enabled hks)) - int (length q)"
        using Cons.IH [of "h\<lparr>hb_exec := e\<rparr>"] Cons.prems True sub SubmitQueued by auto
      ultimately show ?thesis using True by (intro exI [of _ "(hk, ctx, p) # q"]) auto
    next
      case SubmitRefused
      then have e: "ex_queue e = ex_queue (hb_exec h)"
        using sub by (auto simp: exec_Submit_def exec_enqueue_def split: if_splits)
      let ?h = "recordDropped (pm_Name (na_meta hk)) (h\<lparr>hb_exec := e, hb_droppedAsync := hb_droppedAsync h + 1\<rparr>)"
      have f: "hb_exec ?h = e" "hb_droppedAsync ?h = hb_droppedAsync h + 1" "\<not> hb_cancelled ?h"
        using Cons.prems(2) by (simp_all add: recordDropped_def)
      obtain q where "subseq q (map (\<lambda>hk. (hk, ctx, p)) (filter na_enabled hks))" "ex_queue (hb_exec h') = ex_queue e @ q"
        "hb_droppedAsync h' = hb_droppedAsync h + 1 + int (length (filter na_enabled hks)) - int (length q)"
        using Cons.IH [of ?h] Cons.prems True sub SubmitRefused f by auto
      then show ?thesis using True e by (intro exI [of _ q]) auto
    next
      case SubmitSleeps
      then show ?thesis using Cons.prems True sub by simp
    qed
  qed
qed


definition demo_meta :: "string \<Rightarrow> int \<Rightarrow> plugin_meta" where
  "demo_meta n p = \<lparr>pm_Name = n, pm_Priority = p, pm_Kind = PluginKindInterceptor, pm_Stage = ''e'', pm_Enabled = False\<rparr>"

definition demo_hub :: "(unit, nat, unit) hub" where
  "demo_hub = RegisterAsyncMeta ''e'' (demo_meta ''o'' 0) (\<lambda>_ _ w. (1, w))
     (RegisterSyncMeta ''e'' (demo_meta ''a'' 20) (\<lambda>_ p w. ((p * 2, True, None, 3), w))
       (RegisterSyncMeta ''e'' (demo_meta ''b'' 10) (\<lambda>_ p w. ((p + 1, False, None, 5), w)) (NewHub None None)))"

lemmas demo_hub_eval = demo_hub_def RegisterAsyncMeta_def RegisterSyncMeta_def NewHub_def demo_meta_def register_meta_def
  register_enabled_def recordPluginMeta_def hub_record_def Let_def


text \<open>
  Whatever is registered, enabled, emitted, worked off or closed on a hub of its own executor: the queue
  of observers stays within its configured size, the hub's counter of dropped notifications is the sum of the
  plugins' counters, and the handlers of every event stay sorted by priority.
\<close>

theorem hub_accounting:
  assumes "hub_run cs (NewHub cfg None, w) = Some (h, w')"
  shows "int (length (ex_queue (hb_exec h))) \<le> ac_QueueSize (ex_cfg (hb_exec h)) \<and>
    hb_droppedAsync h = (\<Sum>(name, st)\<leftarrow>hb_pluginStats h. st_DroppedAsync st) \<and>
    (\<forall>ev. sorted (map (\<lambda>n. pm_Priority (ns_meta n)) (hb_syncHandlers h ev)) \<and>
          sorted (map (\<lambda>n. pm_Priority (na_meta n)) (hb_asyncHandlers h ev)))"
proof -
  have "hub_inv h" using hub_run_inv [OF assms] by (simp add: NewHub_inv)
  moreover have "stat_sum st_DroppedAsync xs = (\<Sum>(name, st)\<leftarrow>xs. st_DroppedAsync st)" for xs
    by (simp add: stat_sum_def comp_def split_def)
  ultimately show ?thesis by (simp add: hub_inv_def exec_inv_def)
qed

definition demo_hub_calls :: "(unit, nat, unit) hub_call list" where
  "demo_hub_calls = [HAsync ''e'' (demo_meta ''o'' 0) (\<lambda>_ _ w. (1, w)), HEmit 0 ''e'' () 1, HEmit 0 ''e'' () 2, HWork 0 False]"

theorem hub_accounting_witness:
  "\<exists>h. hub_run demo_hub_calls (NewHub (Some \<lparr>ac_QueueSize = 1, ac_WorkerCount = 1, ac_DropWhenFull = True, ac_Timeout = 0\<rparr>) None, ())
     = Some (h, ()) \<and> hb_droppedAsync h = 1 \<and> (\<Sum>(name, st)\<leftarrow>hb_pluginStats h. st_DroppedAsync st) = 1"
proof -
  let ?c = "Some \<lparr>ac_QueueSize = 1, ac_WorkerCount = 1, ac_DropWhenFull = True, ac_Timeout = 0\<rparr>"
  obtain h where r: "hub_run demo_hub_calls (NewHub ?c None, ()) = Some (h, ())" and d: "hb_droppedAsync h = 1"
    by (simp add: demo_hub_calls_def demo_hub_eval hub_Emit_def exec_Submit_def exec_enqueue_def full_queue_def NewAsyncExecutor_def
        defaultAsyncConfig_def WithAsyncConfig_def record_defs cond_Signal_def worker_step_def exec_pop_def runAsyncHandler_def)
  from hub_accounting [OF r] r d show ?thesis by auto
qed


lemma insort_key_stable_append:
  "sort_key f (sort_key f xs @ ys) = sort_key f (xs @ ys)"
proof (rule properties_for_sort_key)
  show "mset (sort_key f (xs @ ys)) = mset (sort_key f xs @ ys)" by simp
  show "filter (\<lambda>x. f k = f x) (sort_key f (xs @ ys)) = filter (\<lambda>x. f k = f x) (sort_key f xs @ ys)" for k
    using sort_key_stable [of f "f k" "xs @ ys"] sort_key_stable [of f "f k" xs] by (simp add: eq_commute)
  show "sorted (map f (sort_key f (xs @ ys)))" by simp
qed

definition sync_entry :: "string \<Rightarrow> plugin_meta \<times> ('x \<Rightarrow> 'p \<Rightarrow> 'w \<Rightarrow> ('p \<times> bool \<times> string option \<times> int) \<times> 'w) \<Rightarrow> ('x, 'p, 'w) named_sync" where
  "sync_entry ev mf = \<lparr>ns_meta = (fst mf)\<lparr>pm_Name := if pm_Name (fst mf) = '''' then ev else pm_Name (fst mf),
     pm_Kind := PluginKindInterceptor, pm_Stage := ev\<rparr>, ns_enabled = True, ns_handler = snd mf\<rparr>"

lemma sync_entry_register:
  "sync_entry ev (meta, f) = \<lparr>ns_meta = register_meta ev PluginKindInterceptor meta, ns_enabled = True, ns_handler = f\<rparr>"
  by (simp add: sync_entry_def register_meta_def Let_def)

lemma RegisterSync_entry:
  "hb_syncHandlers (RegisterSyncMeta ev meta f h) =
     (hb_syncHandlers h)(ev := sort_key (\<lambda>n. pm_Priority (ns_meta n)) (hb_syncHandlers h ev @ [sync_entry ev (meta, f)]))"
  by (simp add: RegisterSyncMeta_def Let_def sync_entry_register register_enabled_def recordPluginMeta_def)

text \<open>
  Interceptors of an event run in the order of the priorities they were registered with, and in the order of
  registration among equals. Every one of them is enabled, also when its metadata asked for it to be disabled; its
  name is the given one or else the event's, and its kind and stage are those of the registration.
\<close>

theorem RegisterSync_order:
  "hb_syncHandlers (fold (\<lambda>(ev, meta, f). RegisterSyncMeta ev meta f) regs (NewHub cfg ex)) event =
     sort_key (\<lambda>n. pm_Priority (ns_meta n)) (map (\<lambda>(ev, meta, f). sync_entry event (meta, f)) (filter (\<lambda>(ev, _). ev = event) regs))"
proof -
  let ?k = "\<lambda>n. pm_Priority (ns_meta n)"
  let ?es = "\<lambda>regs. map (\<lambda>(ev, meta, f). sync_entry event (meta, f)) (filter (\<lambda>(ev, _). ev = event) regs)"
  have "hb_syncHandlers (fold (\<lambda>(ev, meta, f). RegisterSyncMeta ev meta f) regs h) event = sort_key ?k (xs @ ?es regs)"
    if "hb_syncHandlers h event = sort_key ?k xs" for h xs
    using that
  proof (induction regs arbitrary: h xs)
    case (Cons r regs)
    obtain ev meta f where r: "r = (ev, meta, f)" by (cases r)
    show ?case
    proof (cases "ev = event")
      case True
      have "hb_syncHandlers (RegisterSyncMeta ev meta f h) event = sort_key ?k (xs @ [sync_entry event (meta, f)])"
        using Cons.prems True by (simp add: RegisterSync_entry insort_key_stable_append)
      from Cons.IH [OF this] True show ?thesis by (simp add: r)
    next
      case False
      then have "hb_syncHandlers (RegisterSyncMeta ev meta f h) event = sort_key ?k xs"
        using Cons.prems by (simp add: RegisterSync_entry)
      from Cons.IH [OF this] False show ?thesis by (simp add: r)
    qed
  qed simp
  from this [of "NewHub cfg ex" "[]"] show ?thesis by (simp add: NewHub_def Let_def)
qed

text \<open>
  A submitter that found the queue full and did not ask for dropping sleeps on: workers that take tasks
  wake nobody, so it still sleeps when they have emptied the queue, and its one-second limit, which is only
  looked at after a wake-up, does not help it.
\<close>

theorem submitter_sleeps_on:
  assumes "exec_Submit pick who task e = (SubmitSleeps, e')"
  shows "SleepSubmit who task \<in> set (ex_asleep (fold (\<lambda>w e. snd (exec_pop w e)) ws e')) \<and>
    ex_queue (fold (\<lambda>w e. snd (exec_pop w e)) ws e') = drop (length ws) (ex_queue e)"
proof -
  have "SleepSubmit who task \<in> set (ex_asleep (fold (\<lambda>w e. snd (exec_pop w e)) ws e1)) \<and>
      ex_queue (fold (\<lambda>w e. snd (exec_pop w e)) ws e1) = drop (length ws) (ex_queue e1)"
    if "SleepSubmit who task \<in> set (ex_asleep e1)" for e1
    using that
  proof (induction ws arbitrary: e1)
    case (Cons w ws)
    have "SleepSubmit who task \<in> set (ex_asleep (snd (exec_pop w e1)))"
      using Cons.prems by (auto simp: exec_pop_def split: list.splits)
    moreover have "drop (length ws) (ex_queue (snd (exec_pop w e1))) = drop (Suc (length ws)) (ex_queue e1)"
      by (auto simp: exec_pop_def split: list.splits)
    ultimately show ?case using Cons.IH [of "snd (exec_pop w e1)"] by simp
  qed simp
  from this [of e'] assms show ?thesis by (auto simp: exec_Submit_def exec_enqueue_def split: if_splits)
qed

definition full_exec :: "nat executor" where
  "full_exec = \<lparr>ex_cfg = \<lparr>ac_QueueSize = 1, ac_WorkerCount = 1, ac_DropWhenFull = False, ac_Timeout = 0\<rparr>, ex_queue = [7],
     ex_cancelled = False, ex_asleep = []\<rparr>"

theorem submitter_sleeps_on_witness:
  "\<exists>e'. exec_Submit 0 3 8 full_exec = (SubmitSleeps, e') \<and>
     SleepSubmit 3 8 \<in> set (ex_asleep (snd (exec_pop 0 e'))) \<and> ex_queue (snd (exec_pop 0 e')) = []"
proof -
  obtain e' where e: "exec_Submit 0 3 8 full_exec = (SubmitSleeps, e')"
    by (simp add: exec_Submit_def full_exec_def full_queue_def)
  from submitter_sleeps_on [OF e, of "[0]"] e show ?thesis by (simp add: full_exec_def)
qed

end
