(* ===== verification/TurnMetrics.thy ===== *)
theory TurnMetrics
  imports Prelude "HOL-Library.AList"
begin

text \<open>
  The statistics plugin of \<open>internal/domain/chat/hooks/statistic_plugin.go\<close>: it follows the stages of a
  session's current turn and reports the turn when it ends.

  The concurrent map of sessions is an association list of session states. A state a cleanup has marked as
  removed may still be in the map until the cleanup takes it out, which is a step of its own here, so the
  loop of \<open>onMetric\<close> meets it.
\<close>

datatype metric_stage = MetricTurnStart | MetricTurnEnd | MetricVoiceSilence | MetricAsrFirstText | MetricAsrFinalText
  | MetricLlmStart | MetricLlmFirstToken | MetricLlmFirstSentence | MetricLlmEnd | MetricTtsStart | MetricTtsFirstFrame
  | MetricTtsStop | OtherStage string

record turn_metric =
  tm_turnID :: int
  tm_turnStartTs :: int
  tm_turnEndTs :: int
  tm_voiceSilenceTs :: int
  tm_asrFirstTextTs :: int
  tm_asrFinalTextTs :: int
  tm_llmStartTs :: int
  tm_llmFirstTokenTs :: int
  tm_llmFirstSentenceTs :: int
  tm_llmEndTs :: int
  tm_ttsStartTs :: int
  tm_ttsFirstFrameTs :: int
  tm_ttsStopTs :: int

definition new_turn :: "int \<Rightarrow> turn_metric" where
  "new_turn i = \<lparr>tm_turnID = i, tm_turnStartTs = 0, tm_turnEndTs = 0, tm_voiceSilenceTs = 0, tm_asrFirstTextTs = 0,
     tm_asrFinalTextTs = 0, tm_llmStartTs = 0, tm_llmFirstTokenTs = 0, tm_llmFirstSentenceTs = 0, tm_llmEndTs = 0,
     tm_ttsStartTs = 0, tm_ttsFirstFrameTs = 0, tm_ttsStopTs = 0\<rparr>"

record session_metric =
  sm_nextTurn :: int
  sm_current :: "turn_metric option"
  sm_lastSeen :: int
  sm_removed :: bool

definition new_session_metric :: session_metric where
  "new_session_metric = \<lparr>sm_nextTurn = 0, sm_current = None, sm_lastSeen = 0, sm_removed = False\<rparr>"

record statistic_plugin =
  sp_sessions :: "(string \<times> session_metric) list"
  sp_cleanupCounter :: int
  sp_cleanupThreshold :: int

definition newStatisticPlugin :: statistic_plugin where
  "newStatisticPlugin = \<lparr>sp_sessions = [], sp_cleanupCounter = 0, sp_cleanupThreshold = 100\<rparr>"

definition statistic_Close :: "statistic_plugin \<Rightarrow> statistic_plugin" where
  "statistic_Close p = p\<lparr>sp_sessions := []\<rparr>"

definition canReuseForLateTurnStart :: "turn_metric \<Rightarrow> bool" where
  "canReuseForLateTurnStart tm \<longleftrightarrow> tm_turnStartTs tm = 0 \<and> tm_llmStartTs tm = 0 \<and> tm_ttsStartTs tm = 0 \<and> tm_ttsStopTs tm = 0"

definition canStartTurnWithoutTurnStart :: "metric_stage \<Rightarrow> bool" where
  "canStartTurnWithoutTurnStart stage \<longleftrightarrow>
     stage \<in> {MetricVoiceSilence, MetricAsrFirstText, MetricAsrFinalText, MetricLlmStart, MetricTtsStart}"

definition startNewTurnLocked :: "session_metric \<Rightarrow> turn_metric \<times> session_metric" where
  "startNewTurnLocked s =
     (let s = s\<lparr>sm_nextTurn := sm_nextTurn s + 1\<rparr>; tm = new_turn (sm_nextTurn s) in (tm, s\<lparr>sm_current := Some tm\<rparr>))"

definition getTurnForStageLocked :: "metric_stage \<Rightarrow> session_metric \<Rightarrow> turn_metric option \<times> session_metric" where
  "getTurnForStageLocked stage s =
     (if stage = MetricTurnStart then
        (case sm_current s of
           Some tm \<Rightarrow> if canReuseForLateTurnStart tm then (Some tm, s)
                      else (case startNewTurnLocked s of (tm, s) \<Rightarrow> (Some tm, s))
         | None \<Rightarrow> (case startNewTurnLocked s of (tm, s) \<Rightarrow> (Some tm, s)))
      else (case sm_current s of
           Some tm \<Rightarrow> (Some tm, s)
         | None \<Rightarrow>
             if canStartTurnWithoutTurnStart stage then (case startNewTurnLocked s of (tm, s) \<Rightarrow> (Some tm, s))
             else (None, s)))"

text \<open>Each stage keeps its first time stamp; the turn start keeps the earliest.\<close>

fun stamp :: "metric_stage \<Rightarrow> int \<Rightarrow> turn_metric \<Rightarrow> turn_metric" where
  "stamp MetricTurnStart ts tm =
     (if tm_turnStartTs tm = 0 \<or> (ts > 0 \<and> ts < tm_turnStartTs tm) then tm\<lparr>tm_turnStartTs := ts\<rparr> else tm)"
| "stamp MetricTurnEnd ts tm = (if tm_turnEndTs tm = 0 then tm\<lparr>tm_turnEndTs := ts\<rparr> else tm)"
| "stamp MetricVoiceSilence ts tm = (if tm_voiceSilenceTs tm = 0 then tm\<lparr>tm_voiceSilenceTs := ts\<rparr> else tm)"
| "stamp MetricAsrFirstText ts tm = (if tm_asrFirstTextTs tm = 0 then tm\<lparr>tm_asrFirstTextTs := ts\<rparr> else tm)"
| "stamp MetricAsrFinalText ts tm = (if tm_asrFinalTextTs tm = 0 then tm\<lparr>tm_asrFinalTextTs := ts\<rparr> else tm)"
| "stamp MetricLlmStart ts tm = (if tm_llmStartTs tm = 0 then tm\<lparr>tm_llmStartTs := ts\<rparr> else tm)"
| "stamp MetricLlmFirstToken ts tm = (if tm_llmFirstTokenTs tm = 0 then tm\<lparr>tm_llmFirstTokenTs := ts\<rparr> else tm)"
| "stamp MetricLlmFirstSentence ts tm = (if tm_llmFirstSentenceTs tm = 0 then tm\<lparr>tm_llmFirstSentenceTs := ts\<rparr> else tm)"
| "stamp MetricLlmEnd ts tm = (if tm_llmEndTs tm = 0 then tm\<lparr>tm_llmEndTs := ts\<rparr> else tm)"
| "stamp MetricTtsStart ts tm = (if tm_ttsStartTs tm = 0 then tm\<lparr>tm_ttsStartTs := ts\<rparr> else tm)"
| "stamp MetricTtsFirstFrame ts tm = (if tm_ttsFirstFrameTs tm = 0 then tm\<lparr>tm_ttsFirstFrameTs := ts\<rparr> else tm)"
| "stamp MetricTtsStop ts tm =
     (if tm_ttsStopTs tm = 0 \<and> (tm_ttsStartTs tm > 0 \<or> tm_ttsFirstFrameTs tm > 0) then tm\<lparr>tm_ttsStopTs := ts\<rparr> else tm)"
| "stamp (OtherStage _) ts tm = tm"

text \<open>\<open>tm\<close> is the session's current turn, so changing it changes the session.\<close>

definition applyMetricLocked :: "turn_metric \<Rightarrow> metric_stage \<Rightarrow> int \<Rightarrow> session_metric \<Rightarrow> turn_metric option \<times> session_metric" where
  "applyMetricLocked tm stage ts s =
     (if stage \<noteq> MetricTurnStart \<and> tm_turnStartTs tm > 0 \<and> ts > 0 \<and> ts < tm_turnStartTs tm then (None, s)
      else
        let tm = stamp stage ts tm in
        if stage = MetricTurnEnd then (Some tm, s\<lparr>sm_current := None\<rparr>)
        else (None, s\<lparr>sm_current := Some tm\<rparr>))"

definition session_metric_step :: "int \<Rightarrow> metric_stage \<Rightarrow> int \<Rightarrow> session_metric \<Rightarrow> turn_metric option \<times> session_metric" where
  "session_metric_step now stage ts s =
     (let s = s\<lparr>sm_lastSeen := now\<rparr> in
      case getTurnForStageLocked stage s of
        (None, s) \<Rightarrow> (None, s)
      | (Some tm, s) \<Rightarrow> applyMetricLocked tm stage ts s)"

definition getOrCreateSessionState :: "string \<Rightarrow> statistic_plugin \<Rightarrow> session_metric \<times> statistic_plugin" where
  "getOrCreateSessionState sid p =
     (case map_of (sp_sessions p) sid of
        Some s \<Rightarrow> (s, p)
      | None \<Rightarrow> (new_session_metric, p\<lparr>sp_sessions := AList.update sid new_session_metric (sp_sessions p)\<rparr>))"

definition removeSessionState :: "string \<Rightarrow> statistic_plugin \<Rightarrow> statistic_plugin" where
  "removeSessionState sid p = p\<lparr>sp_sessions := AList.delete sid (sp_sessions p)\<rparr>"

text \<open>The loop of \<open>onMetric\<close>; \<open>None\<close> is fuel running out.\<close>

fun metric_loop :: "nat \<Rightarrow> string \<Rightarrow> int \<Rightarrow> metric_stage \<Rightarrow> int \<Rightarrow> statistic_plugin \<Rightarrow> (turn_metric option \<times> statistic_plugin) option" where
  "metric_loop 0 sid now stage ts p = None"
| "metric_loop (Suc fuel) sid now stage ts p =
     (case getOrCreateSessionState sid p of (s, p) \<Rightarrow>
        if sm_removed s then metric_loop fuel sid now stage ts (removeSessionState sid p)
        else (case session_metric_step now stage ts s of
                (completed, s) \<Rightarrow> Some (completed, p\<lparr>sp_sessions := AList.update sid s (sp_sessions p)\<rparr>)))"

text \<open>\<open>cleanupStale\<close>: the mark and the removal of one session.\<close>

definition session_ttl :: int where "session_ttl = 2 * 60 * 1000"

definition cleanup_stale_mark :: "int \<Rightarrow> session_metric \<Rightarrow> session_metric" where
  "cleanup_stale_mark now s = (if \<not> sm_removed s \<and> now - sm_lastSeen s > session_ttl then s\<lparr>sm_removed := True\<rparr> else s)"

definition cleanupStale :: "int \<Rightarrow> statistic_plugin \<Rightarrow> statistic_plugin" where
  "cleanupStale now p =
     p\<lparr>sp_sessions := filter (\<lambda>(_, s). sm_removed s \<or> \<not> now - sm_lastSeen s > session_ttl) (sp_sessions p)\<rparr>"

definition onMetric :: "nat \<Rightarrow> string \<Rightarrow> int \<Rightarrow> metric_stage \<Rightarrow> int \<Rightarrow> statistic_plugin \<Rightarrow> (turn_metric option \<times> statistic_plugin) option" where
  "onMetric fuel sid now stage ts p =
     (if sid = '''' then Some (None, p)
      else (case metric_loop fuel sid now stage ts p of
              None \<Rightarrow> None
            | Some (completed, p) \<Rightarrow>
                if sp_cleanupThreshold p > 0 then
                  let p = p\<lparr>sp_cleanupCounter := sp_cleanupCounter p + 1\<rparr> in
                  Some (completed, if sp_cleanupCounter p mod sp_cleanupThreshold p = 0 then cleanupStale now p else p)
                else Some (completed, p)))"

definition calcDelta :: "int \<Rightarrow> int \<Rightarrow> int" where
  "calcDelta start stop = (if start \<le> 0 \<or> stop \<le> 0 \<or> stop < start then 0 else stop - start)"

text \<open>What the log line of a finished turn reports.\<close>

definition logTurnMetric :: "turn_metric \<Rightarrow> int list" where
  "logTurnMetric tm =
     (let e2eTotalEndTs = (if tm_turnEndTs tm = 0 then tm_ttsStopTs tm else tm_turnEndTs tm) in
      [calcDelta (tm_turnStartTs tm) (tm_asrFirstTextTs tm), calcDelta (tm_voiceSilenceTs tm) (tm_asrFinalTextTs tm),
       calcDelta (tm_llmStartTs tm) (tm_llmFirstTokenTs tm), calcDelta (tm_llmStartTs tm) (tm_llmFirstSentenceTs tm),
       calcDelta (tm_llmStartTs tm) (tm_llmEndTs tm), calcDelta (tm_ttsStartTs tm) (tm_ttsFirstFrameTs tm),
       calcDelta (tm_ttsStartTs tm) (tm_ttsStopTs tm), calcDelta (tm_voiceSilenceTs tm) (tm_ttsFirstFrameTs tm),
       calcDelta (tm_turnStartTs tm) (tm_ttsFirstFrameTs tm), calcDelta (tm_turnStartTs tm) e2eTotalEndTs])"

text \<open>The events of one session in sequence, with the turns that were completed.\<close>

fun session_run :: "(int \<times> metric_stage \<times> int) list \<Rightarrow> session_metric \<Rightarrow> turn_metric list \<times> session_metric" where
  "session_run [] s = ([], s)"
| "session_run ((now, stage, ts) # evs) s =
     (case session_metric_step now stage ts s of (done1, s) \<Rightarrow>
        case session_run evs s of (rest, s) \<Rightarrow> ((case done1 of None \<Rightarrow> [] | Some tm \<Rightarrow> [tm]) @ rest, s))"

subsection \<open>Turns\<close>

text \<open>The current turn is the last one started.\<close>

definition session_inv :: "session_metric \<Rightarrow> bool" where
  "session_inv s \<longleftrightarrow> 0 \<le> sm_nextTurn s \<and> (\<forall>tm. sm_current s = Some tm \<longrightarrow> tm_turnID tm = sm_nextTurn s)"

lemma stamp_id [simp]: "tm_turnID (stamp stage ts tm) = tm_turnID tm"
  by (cases stage) auto

lemma session_step_ids:
  assumes "session_inv s" and "session_metric_step now stage ts s = (d, s')"
  shows "session_inv s' \<and> sm_nextTurn s \<le> sm_nextTurn s' \<and> sm_nextTurn s' \<le> sm_nextTurn s + 1 \<and>
    (\<forall>tm. d = Some tm \<longrightarrow> stage = MetricTurnEnd \<and> sm_current s' = None \<and> tm_turnID tm = sm_nextTurn s \<and> sm_nextTurn s' = sm_nextTurn s \<and>
       sm_current s \<noteq> None)"
  using assms
  by (auto simp: session_metric_step_def getTurnForStageLocked_def startNewTurnLocked_def applyMetricLocked_def session_inv_def
      new_turn_def Let_def canStartTurnWithoutTurnStart_def split: option.splits if_splits prod.splits)

lemma session_step_fresh:
  assumes "session_inv s" and "sm_current s = None" and "session_metric_step now stage ts s = (d, s')"
  shows "d = None \<and> (sm_current s' = None \<or> sm_nextTurn s' = sm_nextTurn s + 1)"
  using assms
  by (auto simp: session_metric_step_def getTurnForStageLocked_def startNewTurnLocked_def applyMetricLocked_def session_inv_def
      new_turn_def Let_def canStartTurnWithoutTurnStart_def split: option.splits if_splits prod.splits)

lemma session_run_mono: "session_inv s \<Longrightarrow> session_run evs s = (ds, s') \<Longrightarrow> sm_nextTurn s \<le> sm_nextTurn s'"
proof (induction evs arbitrary: s ds)
  case (Cons ev evs)
  obtain now stage ts where ev: "ev = (now, stage, ts)" by (cases ev)
  obtain d s1 where st: "session_metric_step now stage ts s = (d, s1)" by (cases "session_metric_step now stage ts s")
  obtain rest where "session_run evs s1 = (rest, s')" using Cons.prems ev st by (auto split: prod.splits)
  with Cons.IH [of s1 rest] session_step_ids [OF Cons.prems(1) st] show ?case by linarith
qed simp

lemma session_run_ids:
  assumes "session_inv s" and "session_run evs s = (ds, s')"
  shows "sorted_wrt (<) (map tm_turnID ds) \<and>
    (\<forall>tm\<in>set ds. (if sm_current s = None then sm_nextTurn s < tm_turnID tm else sm_nextTurn s \<le> tm_turnID tm) \<and> tm_turnID tm \<le> sm_nextTurn s')"
  using assms
proof (induction evs arbitrary: s ds)
  case (Cons ev evs)
  obtain now stage ts where ev: "ev = (now, stage, ts)" by (cases ev)
  obtain d s1 where st: "session_metric_step now stage ts s = (d, s1)" by (cases "session_metric_step now stage ts s")
  obtain rest where run: "session_run evs s1 = (rest, s')" and ds: "ds = (case d of None \<Rightarrow> [] | Some tm \<Rightarrow> [tm]) @ rest"
    using Cons.prems ev st by (auto split: prod.splits)
  note one = session_step_ids [OF Cons.prems(1) st]
  note ih = Cons.IH [OF conjunct1 [OF one] run]
  have mono: "sm_nextTurn s1 \<le> sm_nextTurn s'" by (rule session_run_mono [OF conjunct1 [OF one] run])
  have lower: "sm_nextTurn s1 \<le> tm_turnID tm" "sm_current s1 = None \<Longrightarrow> sm_nextTurn s1 < tm_turnID tm" if "tm \<in> set rest" for tm
    using ih that by (auto split: if_splits)
  have upper: "tm_turnID tm \<le> sm_nextTurn s'" if "tm \<in> set rest" for tm using ih that by blast
  have le: "sm_nextTurn s \<le> sm_nextTurn s1" using one by blast
  show ?case
  proof (cases d)
    case None
    then have "ds = rest" using ds by simp
    moreover have "sm_nextTurn s < tm_turnID tm" if "sm_current s = None" "tm \<in> set rest" for tm
      using session_step_fresh [OF Cons.prems(1) that(1) st] lower [OF that(2)] le by linarith
    moreover have "sm_nextTurn s \<le> tm_turnID tm" if "tm \<in> set rest" for tm using lower(1) [OF that] le by linarith
    ultimately show ?thesis using ih upper by simp
  next
    case (Some tm0)
    then have t: "sm_current s1 = None" "tm_turnID tm0 = sm_nextTurn s" "sm_nextTurn s1 = sm_nextTurn s" "sm_current s \<noteq> None"
      using one by blast+
    have "ds = tm0 # rest" using ds Some by simp
    moreover have "sm_nextTurn s < tm_turnID tm" if "tm \<in> set rest" for tm using lower(2) [OF that t(1)] t(3) by simp
    ultimately show ?thesis using ih upper t mono by (auto simp: less_imp_le)
  qed
qed simp

lemma calcDelta_nonneg: "0 \<le> calcDelta a b"
  by (simp add: calcDelta_def)

text \<open>
  Over any sequence of stage events of a session the completed turns carry strictly increasing numbers,
  counted from one up to the number of turns started, and every duration their log line reports is
  non-negative, however the time stamps were ordered.
\<close>

theorem turns_counted:
  assumes "session_run evs new_session_metric = (ds, s')"
  shows "sorted_wrt (<) (map tm_turnID ds) \<and> (\<forall>tm\<in>set ds. 1 \<le> tm_turnID tm \<and> tm_turnID tm \<le> sm_nextTurn s') \<and>
    (\<forall>tm\<in>set ds. \<forall>d\<in>set (logTurnMetric tm). 0 \<le> d)"
proof -
  have "session_inv new_session_metric" by (simp add: session_inv_def new_session_metric_def)
  from session_run_ids [OF this assms] have "sorted_wrt (<) (map tm_turnID ds)"
    "\<forall>tm\<in>set ds. 1 \<le> tm_turnID tm \<and> tm_turnID tm \<le> sm_nextTurn s'" by (auto simp: new_session_metric_def)
  then show ?thesis by (auto simp: logTurnMetric_def Let_def calcDelta_nonneg)
qed

theorem turns_counted_witness:
  "\<exists>s'. session_run [(1, MetricAsrFirstText, 5), (2, MetricTurnEnd, 9), (3, MetricTurnStart, 11), (4, MetricTurnEnd, 12)] new_session_metric
      = ([(new_turn 1)\<lparr>tm_asrFirstTextTs := 5, tm_turnEndTs := 9\<rparr>, (new_turn 2)\<lparr>tm_turnStartTs := 11, tm_turnEndTs := 12\<rparr>], s') \<and>
     sorted_wrt (<) (map tm_turnID [(new_turn 1)\<lparr>tm_asrFirstTextTs := 5, tm_turnEndTs := 9\<rparr>, (new_turn 2)\<lparr>tm_turnStartTs := 11, tm_turnEndTs := 12\<rparr>])"
proof -
  obtain s' where r: "session_run [(1, MetricAsrFirstText, 5), (2, MetricTurnEnd, 9), (3, MetricTurnStart, 11), (4, MetricTurnEnd, 12)] new_session_metric
      = ([(new_turn 1)\<lparr>tm_asrFirstTextTs := 5, tm_turnEndTs := 9\<rparr>, (new_turn 2)\<lparr>tm_turnStartTs := 11, tm_turnEndTs := 12\<rparr>], s')"
    by (simp add: session_metric_step_def getTurnForStageLocked_def startNewTurnLocked_def applyMetricLocked_def
        new_session_metric_def new_turn_def canStartTurnWithoutTurnStart_def Let_def)
  from turns_counted [OF r] r show ?thesis by blast
qed

subsection \<open>Sessions\<close>

text \<open>The state an event of a session acts on: its own unless a cleanup has marked it, else a new one.\<close>

definition live_session :: "string \<Rightarrow> statistic_plugin \<Rightarrow> session_metric" where
  "live_session sid p = (case map_of (sp_sessions p) sid of
     Some s \<Rightarrow> if sm_removed s then new_session_metric else s | None \<Rightarrow> new_session_metric)"

lemma session_step_seen: "session_metric_step now stage ts s = (d, s') \<Longrightarrow> sm_lastSeen s' = now \<and> sm_removed s' = sm_removed s"
  by (auto simp: session_metric_step_def getTurnForStageLocked_def startNewTurnLocked_def applyMetricLocked_def Let_def
      split: option.splits if_splits prod.splits)

lemma metric_loop_returns:
  assumes "session_metric_step now stage ts (live_session sid p) = (d, s')"
  shows "\<exists>p'. metric_loop 2 sid now stage ts p = Some (d, p') \<and> map_of (sp_sessions p') = (map_of (sp_sessions p))(sid \<mapsto> s') \<and>
     sp_cleanupCounter p' = sp_cleanupCounter p \<and> sp_cleanupThreshold p' = sp_cleanupThreshold p \<and>
     (distinct (map fst (sp_sessions p)) \<longrightarrow> distinct (map fst (sp_sessions p')))"
proof -
  have two: "(2::nat) = Suc (Suc 0)" by simp
  show ?thesis
  proof (cases "map_of (sp_sessions p) sid")
    case None
    then show ?thesis using assms
      by (auto simp: two live_session_def getOrCreateSessionState_def new_session_metric_def update_conv' distinct_update)
  next
    case (Some s)
    then show ?thesis using assms
      by (cases "sm_removed s")
        (auto simp: two live_session_def getOrCreateSessionState_def new_session_metric_def removeSessionState_def
          update_conv' delete_conv' distinct_update distinct_delete)
  qed
qed

lemma map_of_filter_distinct:
  "distinct (map fst xs) \<Longrightarrow> map_of (filter (\<lambda>(k, v). P v) xs) k = (case map_of xs k of Some v \<Rightarrow> if P v then Some v else None | None \<Rightarrow> None)"
  by (induction xs) (auto simp: map_of_eq_None_iff rev_image_eqI split: option.splits)



end
