(* ===== verification/ChatHooks.thy ===== *)
theory ChatHooks
  imports HookHub TurnMetrics
begin

text \<open>
  The chat layer over the plugin hub: \<open>internal/domain/chat/hooks/hub.go\<close> and \<open>types.go\<close>. It fixes the chat
  events and which kind of plugin each admits, converts contexts and metadata, and registers the built-in
  plugins. \<open>'g\<close> is Go's \<open>context.Context\<close>, \<open>'p\<close> the type of payloads (\<open>any\<close>).
\<close>

subsection \<open>Types (types.go)\<close>

record 'g chat_context =
  cc_Ctx :: "'g option"
  cc_SessionID :: string
  cc_DeviceID :: string

text \<open>The hub's own context: a Go context, and \<open>Meta\<close>, here either a chat context or something else.\<close>

record 'g hub_context =
  hc_Ctx :: "'g option"
  hc_Meta :: "'g chat_context option"

record chat_plugin_meta =
  cm_Name :: string
  cm_Version :: string
  cm_Description :: string
  cm_Priority :: int
  cm_Enabled :: bool

definition eventKinds :: "(string \<times> plugin_kind) list" where
  "eventKinds = [(''chat.asr.output'', PluginKindInterceptor), (''chat.llm.input'', PluginKindInterceptor),
     (''chat.llm.output.raw'', PluginKindInterceptor), (''chat.tts.input'', PluginKindInterceptor),
     (''chat.tts.output.start'', PluginKindObserver), (''chat.tts.output.stop'', PluginKindObserver),
     (''chat.metric'', PluginKindObserver)]"

datatype hook_error = UnknownEvent string | WrongKind string | LifecycleFailed string string | RegisterFailed string hook_error

definition ValidateEventKind :: "string \<Rightarrow> plugin_kind \<Rightarrow> hook_error option" where
  "ValidateEventKind event kind =
     (case map_of eventKinds event of
        None \<Rightarrow> Some (UnknownEvent event)
      | Some expected \<Rightarrow>
          if event = ''chat.metric'' \<and> kind = PluginKindInterceptor then None
          else if expected \<noteq> kind then Some (WrongKind event)
          else None)"

subsection \<open>The chat hub (hub.go)\<close>

record ('g, 'p, 'w) chat_hub =
  ch_hub :: "('g hub_context, 'p, 'w) hub"
  ch_lifecycles :: "string list"

definition toPkgMeta :: "chat_plugin_meta \<Rightarrow> plugin_kind \<Rightarrow> string \<Rightarrow> plugin_meta" where
  "toPkgMeta meta kind event = \<lparr>pm_Name = cm_Name meta, pm_Priority = cm_Priority meta, pm_Kind = kind, pm_Stage = event,
     pm_Enabled = cm_Enabled meta\<rparr>"

definition toPlatformContext :: "'g chat_context \<Rightarrow> 'g hub_context" where
  "toPlatformContext c = \<lparr>hc_Ctx = cc_Ctx c, hc_Meta = Some c\<rparr>"

definition fromPkgContext :: "'g hub_context \<Rightarrow> 'g chat_context" where
  "fromPkgContext c =
     (case hc_Meta c of
        None \<Rightarrow> \<lparr>cc_Ctx = hc_Ctx c, cc_SessionID = '''', cc_DeviceID = ''''\<rparr>
      | Some cc \<Rightarrow> if cc_Ctx cc = None then cc\<lparr>cc_Ctx := hc_Ctx c\<rparr> else cc)"

definition chat_Emit :: "nat \<Rightarrow> string \<Rightarrow> 'g chat_context \<Rightarrow> 'p \<Rightarrow> ('g, 'p, 'w) chat_hub \<Rightarrow> 'w
    \<Rightarrow> ('p emitted \<times> ('g, 'p, 'w) chat_hub \<times> 'w) option" where
  "chat_Emit pick event ctx payload h w =
     (case hub_Emit pick event (toPlatformContext ctx) payload (ch_hub h) w of
        None \<Rightarrow> None
      | Some (r, hub, w) \<Rightarrow> Some (r, h\<lparr>ch_hub := hub\<rparr>, w))"

text \<open>
  \<open>EmitTyped\<close>: a payload of the wrong type is replaced by the one that was emitted. \<open>any\<close> and \<open>cast\<close> are the
  conversion to \<open>any\<close> and the type assertion. \<open>None\<close> in the third component is no error.
\<close>

definition emit_parts :: "'p emitted \<Rightarrow> 'p \<times> bool \<times> (string \<times> string) option" where
  "emit_parts r = (case r of EmitOut out stop \<Rightarrow> (out, stop, None) | EmitErr out stop name e \<Rightarrow> (out, stop, Some (name, e)))"

definition EmitTyped :: "('t \<Rightarrow> 'p) \<Rightarrow> ('p \<Rightarrow> 't option) \<Rightarrow> nat \<Rightarrow> string \<Rightarrow> 'g chat_context \<Rightarrow> 't \<Rightarrow> ('g, 'p, 'w) chat_hub \<Rightarrow> 'w
    \<Rightarrow> (('t \<times> bool \<times> (string \<times> string) option) \<times> ('g, 'p, 'w) chat_hub \<times> 'w) option" where
  "EmitTyped any cast pick event ctx payload h w =
     (case chat_Emit pick event ctx (any payload) h w of
        None \<Rightarrow> None
      | Some (r, h, w) \<Rightarrow>
          (case emit_parts r of (out, stop, err) \<Rightarrow>
             Some ((case cast out of Some typed \<Rightarrow> (typed, stop, err) | None \<Rightarrow> (payload, stop, err)), h, w)))"

definition RegisterInterceptor :: "string \<Rightarrow> chat_plugin_meta \<Rightarrow> ('g chat_context \<Rightarrow> 'p \<Rightarrow> 'w \<Rightarrow> ('p \<times> bool \<times> string option \<times> int) \<times> 'w)
    \<Rightarrow> ('g, 'p, 'w) chat_hub \<Rightarrow> hook_error option \<times> ('g, 'p, 'w) chat_hub" where
  "RegisterInterceptor event meta handler h =
     (case ValidateEventKind event PluginKindInterceptor of
        Some err \<Rightarrow> (Some err, h)
      | None \<Rightarrow> (None, h\<lparr>ch_hub := RegisterSyncMeta event (toPkgMeta meta PluginKindInterceptor event)
                              (\<lambda>ctx payload. handler (fromPkgContext ctx) payload) (ch_hub h)\<rparr>))"

definition RegisterObserver :: "string \<Rightarrow> chat_plugin_meta \<Rightarrow> ('g chat_context \<Rightarrow> 'p \<Rightarrow> 'w \<Rightarrow> int \<times> 'w)
    \<Rightarrow> ('g, 'p, 'w) chat_hub \<Rightarrow> hook_error option \<times> ('g, 'p, 'w) chat_hub" where
  "RegisterObserver event meta handler h =
     (case ValidateEventKind event PluginKindObserver of
        Some err \<Rightarrow> (Some err, h)
      | None \<Rightarrow> (None, h\<lparr>ch_hub := RegisterAsyncMeta event (toPkgMeta meta PluginKindObserver event)
                              (\<lambda>ctx payload. handler (fromPkgContext ctx) payload) (ch_hub h)\<rparr>))"

text \<open>\<open>RegisterSync\<close> and \<open>RegisterAsync\<close> of the chat hub panic on an error: \<open>None\<close>.\<close>

definition chat_RegisterSync :: "string \<Rightarrow> string \<Rightarrow> int \<Rightarrow> ('g chat_context \<Rightarrow> 'p \<Rightarrow> 'w \<Rightarrow> ('p \<times> bool \<times> string option \<times> int) \<times> 'w)
    \<Rightarrow> ('g, 'p, 'w) chat_hub \<Rightarrow> ('g, 'p, 'w) chat_hub option" where
  "chat_RegisterSync event name priority handler h =
     (case RegisterInterceptor event \<lparr>cm_Name = name, cm_Version = '''', cm_Description = '''', cm_Priority = priority, cm_Enabled = False\<rparr> handler h of
        (None, h) \<Rightarrow> Some h | (Some _, _) \<Rightarrow> None)"

definition chat_RegisterAsync :: "string \<Rightarrow> string \<Rightarrow> int \<Rightarrow> ('g chat_context \<Rightarrow> 'p \<Rightarrow> 'w \<Rightarrow> int \<times> 'w)
    \<Rightarrow> ('g, 'p, 'w) chat_hub \<Rightarrow> ('g, 'p, 'w) chat_hub option" where
  "chat_RegisterAsync event name priority handler h =
     (case RegisterObserver event \<lparr>cm_Name = name, cm_Version = '''', cm_Description = '''', cm_Priority = priority, cm_Enabled = False\<rparr> handler h of
        (None, h) \<Rightarrow> Some h | (Some _, _) \<Rightarrow> None)"

text \<open>A registration: a lifecycle by name with the outcome of its \<open>Init\<close>, and a function that registers the plugin.\<close>

record ('g, 'p, 'w) registration =
  rg_Meta :: chat_plugin_meta
  rg_Lifecycle :: "(string \<times> string option) option"
  rg_Register :: "(chat_plugin_meta \<Rightarrow> ('g, 'p, 'w) chat_hub \<Rightarrow> hook_error option \<times> ('g, 'p, 'w) chat_hub) option"

definition registry_Add :: "('g, 'p, 'w) registration \<Rightarrow> ('g, 'p, 'w) registration list \<Rightarrow> ('g, 'p, 'w) registration list" where
  "registry_Add reg regs = regs @ [reg]"

record builtin_config =
  bc_Enabled :: "bool option"
  bc_Priority :: int

definition apply_override :: "builtin_config option \<Rightarrow> chat_plugin_meta \<Rightarrow> chat_plugin_meta" where
  "apply_override ov meta =
     (case ov of
        None \<Rightarrow> meta
      | Some c \<Rightarrow>
          let meta = (case bc_Enabled c of Some b \<Rightarrow> meta\<lparr>cm_Enabled := b\<rparr> | None \<Rightarrow> meta)
          in if bc_Priority c \<noteq> 0 then meta\<lparr>cm_Priority := bc_Priority c\<rparr> else meta)"

definition InitLifecycle :: "string \<times> string option \<Rightarrow> ('g, 'p, 'w) chat_hub \<Rightarrow> string option \<times> ('g, 'p, 'w) chat_hub" where
  "InitLifecycle lc h = (case snd lc of Some e \<Rightarrow> (Some e, h) | None \<Rightarrow> (None, h\<lparr>ch_lifecycles := ch_lifecycles h @ [fst lc]\<rparr>))"

fun RegisterBuiltinPlugins :: "(string \<rightharpoonup> builtin_config) \<Rightarrow> ('g, 'p, 'w) registration list \<Rightarrow> ('g, 'p, 'w) chat_hub
    \<Rightarrow> hook_error option \<times> ('g, 'p, 'w) chat_hub" where
  "RegisterBuiltinPlugins overrides [] h = (None, h)"
| "RegisterBuiltinPlugins overrides (reg # regs) h =
     (let meta = apply_override (overrides (cm_Name (rg_Meta reg))) (rg_Meta reg) in
      if \<not> cm_Enabled meta then RegisterBuiltinPlugins overrides regs h
      else (case (case rg_Lifecycle reg of None \<Rightarrow> (None, h) | Some lc \<Rightarrow> InitLifecycle lc h) of
          (Some e, h) \<Rightarrow> (Some (LifecycleFailed (cm_Name meta) e), h)
        | (None, h) \<Rightarrow>
            (case (case rg_Register reg of None \<Rightarrow> (None, h) | Some f \<Rightarrow> f meta h) of
               (Some e, h) \<Rightarrow> (Some (RegisterFailed (cm_Name meta) e), h)
             | (None, h) \<Rightarrow> RegisterBuiltinPlugins overrides regs h)))"

text \<open>The one built-in registration, with the statistics plugin's handler as an argument.\<close>

definition BuiltinRegistrations :: "('g chat_context \<Rightarrow> 'p \<Rightarrow> 'w \<Rightarrow> ('p \<times> bool \<times> string option \<times> int) \<times> 'w) \<Rightarrow> ('g, 'p, 'w) registration list" where
  "BuiltinRegistrations onMetricSync =
     [\<lparr>rg_Meta = \<lparr>cm_Name = ''statistic_plugin'', cm_Version = ''v1'', cm_Description = ''Track only the latest turn metrics and log on turn end'',
                  cm_Priority = 100, cm_Enabled = True\<rparr>,
       rg_Lifecycle = Some (''statistic_plugin'', None),
       rg_Register = Some (\<lambda>meta h. RegisterInterceptor ''chat.metric'' meta onMetricSync h)\<rparr>]"

text \<open>\<open>Close\<close>: the hub first, then the lifecycles in reverse order of their initialisation (the second component).\<close>

definition chat_Close :: "('g, 'p, 'w) chat_hub \<Rightarrow> ('g, 'p, 'w) chat_hub \<times> string list" where
  "chat_Close h = (h\<lparr>ch_hub := hub_Close (ch_hub h)\<rparr>, rev (ch_lifecycles h))"

subsection \<open>Which plugin may stand where\<close>

definition kinds_ok :: "('g, 'p, 'w) chat_hub \<Rightarrow> bool" where
  "kinds_ok h \<longleftrightarrow>
     (\<forall>ev. hb_syncHandlers (ch_hub h) ev \<noteq> [] \<longrightarrow> map_of eventKinds ev = Some PluginKindInterceptor \<or> ev = ''chat.metric'') \<and>
     (\<forall>ev. hb_asyncHandlers (ch_hub h) ev \<noteq> [] \<longrightarrow> map_of eventKinds ev = Some PluginKindObserver)"

lemma sort_key_eq_Nil: "sort_key f xs = [] \<longleftrightarrow> xs = []"
  by (metis length_0_conv length_sort)

lemma RegisterSync_handlers:
  "hb_asyncHandlers (RegisterSyncMeta ev m f h) = hb_asyncHandlers h"
  "hb_syncHandlers (RegisterSyncMeta ev m f h) e \<noteq> [] \<longleftrightarrow> e = ev \<or> hb_syncHandlers h e \<noteq> []"
  by (auto simp: RegisterSyncMeta_def Let_def recordPluginMeta_def sort_key_eq_Nil)

lemma RegisterAsync_handlers:
  "hb_syncHandlers (RegisterAsyncMeta ev m f h) = hb_syncHandlers h"
  "hb_asyncHandlers (RegisterAsyncMeta ev m f h) e \<noteq> [] \<longleftrightarrow> e = ev \<or> hb_asyncHandlers h e \<noteq> []"
  by (auto simp: RegisterAsyncMeta_def Let_def recordPluginMeta_def sort_key_eq_Nil)

lemma Validate_None:
  "ValidateEventKind ev k = None \<longleftrightarrow> map_of eventKinds ev = Some k \<or> (ev = ''chat.metric'' \<and> k = PluginKindInterceptor)"
  by (auto simp: ValidateEventKind_def eventKinds_def split: option.splits if_splits)

lemma RegisterInterceptor_ok: "RegisterInterceptor ev m f h = (err, h') \<Longrightarrow> kinds_ok h \<Longrightarrow> kinds_ok h'"
  by (auto simp: RegisterInterceptor_def kinds_ok_def RegisterSync_handlers Validate_None split: option.splits)

lemma RegisterObserver_ok: "RegisterObserver ev m f h = (err, h') \<Longrightarrow> kinds_ok h \<Longrightarrow> kinds_ok h'"
  by (auto simp: RegisterObserver_def kinds_ok_def RegisterAsync_handlers Validate_None split: option.splits)

datatype ('g, 'p, 'w) chat_reg =
    RInterceptor string chat_plugin_meta "'g chat_context \<Rightarrow> 'p \<Rightarrow> 'w \<Rightarrow> ('p \<times> bool \<times> string option \<times> int) \<times> 'w"
  | RObserver string chat_plugin_meta "'g chat_context \<Rightarrow> 'p \<Rightarrow> 'w \<Rightarrow> int \<times> 'w"
  | RBuiltins "string \<rightharpoonup> builtin_config" "'g chat_context \<Rightarrow> 'p \<Rightarrow> 'w \<Rightarrow> ('p \<times> bool \<times> string option \<times> int) \<times> 'w"

definition chat_register :: "('g, 'p, 'w) chat_reg \<Rightarrow> ('g, 'p, 'w) chat_hub \<Rightarrow> ('g, 'p, 'w) chat_hub" where
  "chat_register r h = snd (case r of
      RInterceptor ev m f \<Rightarrow> RegisterInterceptor ev m f h
    | RObserver ev m f \<Rightarrow> RegisterObserver ev m f h
    | RBuiltins ov f \<Rightarrow> RegisterBuiltinPlugins ov (BuiltinRegistrations f) h)"

lemma kinds_ok_lifecycle: "kinds_ok (h\<lparr>ch_lifecycles := l\<rparr>) \<longleftrightarrow> kinds_ok h"
  by (simp add: kinds_ok_def)

lemma chat_register_ok:
  assumes "kinds_ok h" shows "kinds_ok (chat_register r h)"
proof (cases r)
  case (RInterceptor ev m f)
  then show ?thesis using assms RegisterInterceptor_ok [OF surjective_pairing] by (auto simp: chat_register_def)
next
  case (RObserver ev m f)
  then show ?thesis using assms RegisterObserver_ok [OF surjective_pairing] by (auto simp: chat_register_def)
next
  case (RBuiltins ov f)
  have "kinds_ok h'" if "RegisterInterceptor ''chat.metric'' m f (h\<lparr>ch_lifecycles := l\<rparr>) = (err, h')" for m l err h'
    using RegisterInterceptor_ok [OF that] assms by (simp add: kinds_ok_lifecycle)
  then show ?thesis using RBuiltins assms
    by (auto simp: chat_register_def BuiltinRegistrations_def InitLifecycle_def Let_def split: prod.splits option.splits)
qed

text \<open>
  C18. However the chat hub is filled, through the checked registrations and the built-in plugins with any
  overrides, interceptors stand only on events that admit them (and on the metric event) and observers only
  on observer events; emitting on an unknown event runs nothing and answers the payload as it was given.
\<close>

theorem chat_hub_kinds:
  assumes h: "h = fold chat_register regs \<lparr>ch_hub = NewHub cfg ex, ch_lifecycles = []\<rparr>"
  shows "(\<forall>ev. hb_syncHandlers (ch_hub h) ev \<noteq> [] \<longrightarrow> map_of eventKinds ev = Some PluginKindInterceptor \<or> ev = ''chat.metric'') \<and>
    (\<forall>ev. hb_asyncHandlers (ch_hub h) ev \<noteq> [] \<longrightarrow> map_of eventKinds ev = Some PluginKindObserver) \<and>
    (\<forall>ev. map_of eventKinds ev = None \<longrightarrow> chat_Emit pick ev ctx payload h w = Some (EmitOut payload False, h, w))"
proof -
  have "kinds_ok (fold chat_register regs g)" if "kinds_ok g" for g
    using that by (induction regs arbitrary: g) (auto intro: chat_register_ok)
  moreover have "kinds_ok \<lparr>ch_hub = NewHub cfg ex, ch_lifecycles = []\<rparr>" by (simp add: kinds_ok_def NewHub_def Let_def)
  ultimately have ok: "kinds_ok h" unfolding h by blast
  have metric: "map_of eventKinds ''chat.metric'' \<noteq> None" by (simp add: eventKinds_def)
  have "chat_Emit pick ev ctx payload h w = Some (EmitOut payload False, h, w)" if "map_of eventKinds ev = None" for ev
  proof -
    have "ev \<noteq> ''chat.metric''" using that metric by metis
    then have "hb_syncHandlers (ch_hub h) ev = []" "hb_asyncHandlers (ch_hub h) ev = []"
      using ok that unfolding kinds_ok_def by (metis option.distinct(1))+
    then show ?thesis by (simp add: chat_Emit_def hub_Emit_def)
  qed
  then show ?thesis using ok unfolding kinds_ok_def by blast
qed

definition demo_chat_regs :: "(unit, nat, unit) chat_reg list" where
  "demo_chat_regs = [RBuiltins Map.empty (\<lambda>_ p w. ((p, False, None, 0), w)),
     RObserver ''nowhere'' \<lparr>cm_Name = ''x'', cm_Version = '''', cm_Description = '''', cm_Priority = 1, cm_Enabled = True\<rparr> (\<lambda>_ _ w. (0, w))]"

theorem chat_hub_kinds_witness:
  "chat_Emit 0 ''nowhere'' \<lparr>cc_Ctx = None, cc_SessionID = ''s'', cc_DeviceID = ''d''\<rparr> 5
     (fold chat_register demo_chat_regs \<lparr>ch_hub = NewHub None None, ch_lifecycles = []\<rparr>) ()
   = Some (EmitOut 5 False, fold chat_register demo_chat_regs \<lparr>ch_hub = NewHub None None, ch_lifecycles = []\<rparr>, ())"
proof -
  have "map_of eventKinds ''nowhere'' = None" by (simp add: eventKinds_def)
  with chat_hub_kinds [OF refl, of demo_chat_regs None None] show ?thesis by blast
qed

end
