(* ===== verification/Bytes.thy ===== *)
theory Bytes
  imports Prelude
begin

text \<open>
  What the transport code uses of the Go packages \<open>encoding/binary\<close>, \<open>encoding/hex\<close>, \<open>encoding/base64\<close>,
  \<open>bytes\<close> and \<open>strings\<close>. Bytes are 8-bit words, byte slices lists of them; fixed-width integers are words
  and are written out and read back byte by byte.
\<close>

unbundle bit_operations_syntax

type_synonym byte = "8 word"
type_synonym bytes = "byte list"

subsection \<open>Positional notation\<close>

fun be_bytes :: "nat \<Rightarrow> nat \<Rightarrow> bytes" where
  "be_bytes 0 x = []"
| "be_bytes (Suc n) x = be_bytes n (x div 256) @ [of_nat x]"

definition be_nat :: "bytes \<Rightarrow> nat" where
  "be_nat bs = foldl (\<lambda>a b. 256 * a + unat b) 0 bs"

fun le_bytes :: "nat \<Rightarrow> nat \<Rightarrow> bytes" where
  "le_bytes 0 x = []"
| "le_bytes (Suc n) x = of_nat x # le_bytes n (x div 256)"

fun le_nat :: "bytes \<Rightarrow> nat" where
  "le_nat [] = 0"
| "le_nat (b # bs) = unat b + 256 * le_nat bs"

lemma length_be_bytes [simp]: "length (be_bytes n x) = n"
  by (induction n arbitrary: x) auto

lemma length_le_bytes [simp]: "length (le_bytes n x) = n"
  by (induction n arbitrary: x) auto

lemma unat_byte [simp]: "unat (of_nat x :: byte) = x mod 256"
  by (simp add: unat_of_nat)

lemma byte_256 [simp]: "(256 :: byte) = 0"
  by (metis of_nat_numeral unat_byte unat_eq_zero mod_self)

lemma byte_of_unat_add: "(of_nat (256 * a + unat b) :: byte) = b"
  by simp

lemma be_nat_Nil [simp]: "be_nat [] = 0"
  by (simp add: be_nat_def)

lemma be_nat_snoc [simp]: "be_nat (bs @ [b]) = 256 * be_nat bs + unat b"
  by (simp add: be_nat_def)

lemma be_nat_be_bytes [simp]: "be_nat (be_bytes n x) = x mod 256 ^ n"
proof (induction n arbitrary: x)
  case (Suc n)
  have "x mod (256 * 256 ^ n) = 256 * (x div 256 mod 256 ^ n) + x mod 256"
    by (rule mod_mult2_eq)
  then show ?case by (simp add: Suc)
qed simp

lemma be_bytes_be_nat [simp]: "be_bytes (length bs) (be_nat bs) = bs"
proof (induction bs rule: rev_induct)
  case (snoc b bs)
  have "unat b < 256" using unsigned_less [of b] by simp
  then have "(256 * be_nat bs + unat b) div 256 = be_nat bs" by simp
  with snoc show ?case by (simp only: be_nat_snoc length_append_singleton be_bytes.simps byte_of_unat_add)
qed simp

lemma be_nat_append: "be_nat (xs @ ys) = be_nat xs * 256 ^ length ys + be_nat ys"
proof (induction ys rule: rev_induct)
  case (snoc y ys)
  have "be_nat (xs @ ys @ [y]) = 256 * be_nat (xs @ ys) + unat y"
    using be_nat_snoc [of "xs @ ys" y] by simp
  with snoc show ?case by (simp add: algebra_simps)
qed simp

lemma be_nat_less: "be_nat bs < 256 ^ length bs"
proof (induction bs rule: rev_induct)
  case (snoc b bs)
  have "unat b < 256" using unsigned_less [of b] by simp
  with snoc show ?case by simp
qed simp

lemma le_nat_le_bytes [simp]: "le_nat (le_bytes n x) = x mod 256 ^ n"
proof (induction n arbitrary: x)
  case (Suc n)
  have "x mod (256 * 256 ^ n) = 256 * (x div 256 mod 256 ^ n) + x mod 256"
    by (rule mod_mult2_eq)
  then show ?case by (simp add: Suc)
qed simp

text \<open>\<open>binary.BigEndian\<close> and \<open>binary.LittleEndian\<close>.\<close>

definition be_Uint16 :: "16 word \<Rightarrow> bytes" where
  "be_Uint16 v = be_bytes 2 (unat v)"

definition be_Uint32 :: "32 word \<Rightarrow> bytes" where
  "be_Uint32 v = be_bytes 4 (unat v)"

definition be_getUint32 :: "bytes \<Rightarrow> 32 word" where
  "be_getUint32 bs = of_nat (be_nat (take 4 bs))"

definition le_Uint16 :: "16 word \<Rightarrow> bytes" where
  "le_Uint16 v = le_bytes 2 (unat v)"

definition le_Uint32 :: "32 word \<Rightarrow> bytes" where
  "le_Uint32 v = le_bytes 4 (unat v)"

definition le_Uint64 :: "64 word \<Rightarrow> bytes" where
  "le_Uint64 v = le_bytes 8 (unat v)"

lemma length_Uint [simp]:
  "length (be_Uint16 v) = 2" "length (be_Uint32 w) = 4"
  "length (le_Uint16 v) = 2" "length (le_Uint32 w) = 4" "length (le_Uint64 x) = 8"
  by (simp_all add: be_Uint16_def be_Uint32_def le_Uint16_def le_Uint32_def le_Uint64_def)

lemma be_getUint32_be_Uint32 [simp]: "be_getUint32 (be_Uint32 v @ rest) = v"
proof -
  have "unat v < 256 ^ 4" using unsigned_less [of v] by simp
  then show ?thesis by (simp add: be_getUint32_def be_Uint32_def)
qed

lemma be_nat_Uint32: "be_nat (be_Uint32 v) = unat v"
proof -
  have "unat v < 256 ^ 4" using unsigned_less [of v] by simp
  then show ?thesis by (simp add: be_Uint32_def)
qed

lemma le_nat_Uint32: "le_nat (le_Uint32 v) = unat v"
proof -
  have "unat v < 256 ^ 4" using unsigned_less [of v] by simp
  then show ?thesis by (simp add: le_Uint32_def)
qed

lemma le_nat_Uint64: "le_nat (le_Uint64 v) = unat v"
proof -
  have "unat v < 256 ^ 8" using unsigned_less [of v] by simp
  then show ?thesis by (simp add: le_Uint64_def)
qed

text \<open>\<open>copy(buf[off:], src)\<close>: as much of \<open>src\<close> as fits.\<close>

definition copy_at :: "nat \<Rightarrow> 'a list \<Rightarrow> 'a list \<Rightarrow> 'a list" where
  "copy_at off src buf = take off buf @ take (length buf - off) src @ drop (off + length src) buf"

lemma length_copy_at [simp]: "off \<le> length buf \<Longrightarrow> length (copy_at off src buf) = length buf"
  by (simp add: copy_at_def)

text \<open>\<open>hex.EncodeToString\<close>.\<close>

definition hex_digit :: "nat \<Rightarrow> rune" where
  "hex_digit n = (if n < 10 then 48 + n else 87 + n)"

definition hex_EncodeToString :: "bytes \<Rightarrow> gotext" where
  "hex_EncodeToString bs = concat (map (\<lambda>b. [hex_digit (unat b div 16), hex_digit (unat b mod 16)]) bs)"

lemma hex_digit_inj: "m < 16 \<Longrightarrow> n < 16 \<Longrightarrow> hex_digit m = hex_digit n \<longleftrightarrow> m = n"
  by (auto simp: hex_digit_def split: if_splits)

lemma hex_EncodeToString_inj: "hex_EncodeToString xs = hex_EncodeToString ys \<longleftrightarrow> xs = ys"
proof (induction xs arbitrary: ys)
  case Nil
  then show ?case by (cases ys) (auto simp: hex_EncodeToString_def)
next
  case (Cons x xs)
  show ?case
  proof (cases ys)
    case (Cons y ys')
    have b: "unat x < 256" "unat y < 256"
      using unsigned_less [of x] unsigned_less [of y] by simp_all
    then have d: "unat x div 16 < 16" "unat y div 16 < 16" by auto
    have "unat x = unat y" if "unat x div 16 = unat y div 16" "unat x mod 16 = unat y mod 16"
      using that by (metis div_mult_mod_eq)
    then have "hex_EncodeToString [x] = hex_EncodeToString [y] \<longleftrightarrow> x = y"
      using d by (auto simp: hex_EncodeToString_def hex_digit_inj unsigned_word_eqI)
    with Cons show ?thesis
      using Cons.IH [of ys'] by (auto simp: hex_EncodeToString_def)
  qed (simp add: hex_EncodeToString_def)
qed
subsection \<open>Splitting text\<close>

text \<open>\<open>strings.Split\<close> for a non-empty separator, \<open>strings.Contains\<close>, and \<open>strings.ReplaceAll\<close> of one rune by another.\<close>

fun split_from :: "'a list \<Rightarrow> 'a list \<Rightarrow> 'a list \<Rightarrow> 'a list list" where
  "split_from sep acc [] = [rev acc]"
| "split_from sep acc (c # cs) =
     (if take (length sep) (c # cs) = sep then rev acc # split_from sep [] (drop (length sep - 1) cs)
      else split_from sep (c # acc) cs)"

definition strings_Split :: "'a list \<Rightarrow> 'a list \<Rightarrow> 'a list list" where
  "strings_Split s sep = split_from sep [] s"

fun strings_Contains :: "'a list \<Rightarrow> 'a list \<Rightarrow> bool" where
  "strings_Contains [] sub = (sub = [])"
| "strings_Contains (c # cs) sub = (take (length sub) (c # cs) = sub \<or> strings_Contains cs sub)"

definition replace_rune :: "'a \<Rightarrow> 'a \<Rightarrow> 'a list \<Rightarrow> 'a list" where
  "replace_rune a b s = map (\<lambda>c. if c = a then b else c) s"

lemma split_from_free: "\<not> strings_Contains s sep \<Longrightarrow> split_from sep acc s = [rev acc @ s]"
  by (induction s arbitrary: acc) auto

text \<open>
  A part that does not contain the separator, and does not run into it, is split off whole. A separator of equal
  runes runs into nothing that does not end in that rune.
\<close>

lemma take_sep_not_within:
  assumes "s \<noteq> []" "z \<notin> set s" "0 < k"
  shows "take k (s @ t) \<noteq> replicate k z"
proof
  assume "take k (s @ t) = replicate k z"
  then have "hd (s @ t) = z"
    using assms by (metis append_is_Nil_conv hd_append2 hd_replicate hd_take not_gr_zero)
  then show False using assms by (metis hd_append2 hd_in_set)
qed

lemma split_from_rune_free:
  assumes "z \<notin> set s" "0 < k"
  shows "split_from (replicate k z) acc (s @ replicate k z @ t) = (rev acc @ s) # split_from (replicate k z) [] t"
  using assms
proof (induction s arbitrary: acc)
  case Nil
  then obtain j where "k = Suc j" by (cases k) auto
  then show ?case by simp
next
  case (Cons c s)
  have "take k (c # s @ replicate k z @ t) \<noteq> replicate k z"
    using take_sep_not_within [of "c # s" z k "replicate k z @ t"] Cons.prems by simp
  then show ?case using Cons by simp
qed

lemma contains_replicate: "strings_Contains s (replicate k z) \<Longrightarrow> 0 < k \<Longrightarrow> z \<in> set s"
proof (induction s)
  case (Cons c s)
  show ?case
  proof (cases "take k (c # s) = replicate k z")
    case True
    then show ?thesis using Cons.prems by (cases k) auto
  next
    case False
    then show ?thesis using Cons by auto
  qed
qed simp
subsection \<open>Base64\<close>

text \<open>\<open>base64.StdEncoding\<close>: padded, not strict about the unused bits, line breaks ignored when decoding.\<close>

definition b64_char :: "nat \<Rightarrow> rune" where
  "b64_char n = (if n < 26 then 65 + n else if n < 52 then 71 + n else if n < 62 then n - 4 else if n = 62 then 43 else 47)"

definition b64_val :: "rune \<Rightarrow> nat option" where
  "b64_val c = (if 65 \<le> c \<and> c \<le> 90 then Some (c - 65) else if 97 \<le> c \<and> c \<le> 122 then Some (c - 71)
     else if 48 \<le> c \<and> c \<le> 57 then Some (c + 4) else if c = 43 then Some 62 else if c = 47 then Some 63 else None)"

text \<open>Three bytes are four sextets; a missing byte counts as zero.\<close>

definition sext1 :: "byte \<Rightarrow> nat" where "sext1 a = unat a div 4"
definition sext2 :: "byte \<Rightarrow> byte \<Rightarrow> nat" where "sext2 a b = unat a mod 4 * 16 + unat b div 16"
definition sext3 :: "byte \<Rightarrow> byte \<Rightarrow> nat" where "sext3 b c = unat b mod 16 * 4 + unat c div 64"
definition sext4 :: "byte \<Rightarrow> nat" where "sext4 c = unat c mod 64"

definition octet1 :: "nat \<Rightarrow> nat \<Rightarrow> byte" where "octet1 u v = of_nat (u * 4 + v div 16)"
definition octet2 :: "nat \<Rightarrow> nat \<Rightarrow> byte" where "octet2 v t = of_nat (v mod 16 * 16 + t div 4)"
definition octet3 :: "nat \<Rightarrow> nat \<Rightarrow> byte" where "octet3 t z = of_nat (t mod 4 * 64 + z)"

fun base64_EncodeToString :: "bytes \<Rightarrow> gotext" where
  "base64_EncodeToString [] = []"
| "base64_EncodeToString [a] = [b64_char (sext1 a), b64_char (sext2 a 0), 61, 61]"
| "base64_EncodeToString [a, b] = [b64_char (sext1 a), b64_char (sext2 a b), b64_char (sext3 b 0), 61]"
| "base64_EncodeToString (a # b # c # rest) =
     [b64_char (sext1 a), b64_char (sext2 a b), b64_char (sext3 b c), b64_char (sext4 c)] @ base64_EncodeToString rest"

fun b64_quads :: "gotext \<Rightarrow> bytes option" where
  "b64_quads [] = Some []"
| "b64_quads (p # q # r # s # rest) =
     (case (b64_val p, b64_val q) of
        (Some u, Some v) \<Rightarrow>
          (case b64_val r of
             None \<Rightarrow> if r = 61 \<and> s = 61 \<and> rest = [] then Some [octet1 u v] else None
           | Some t \<Rightarrow>
               (case b64_val s of
                  None \<Rightarrow> if s = 61 \<and> rest = [] then Some [octet1 u v, octet2 v t] else None
                | Some z \<Rightarrow>
                    (case b64_quads rest of None \<Rightarrow> None | Some bs \<Rightarrow> Some (octet1 u v # octet2 v t # octet3 t z # bs))))
      | _ \<Rightarrow> None)"
| "b64_quads _ = None"

definition base64_DecodeString :: "gotext \<Rightarrow> bytes option" where
  "base64_DecodeString s = b64_quads (filter (\<lambda>c. c \<noteq> 10 \<and> c \<noteq> 13) s)"

lemma b64_val_char [simp]: "n < 64 \<Longrightarrow> b64_val (b64_char n) = Some n"
  by (auto simp: b64_val_def b64_char_def)

lemma b64_val_pad [simp]: "b64_val 61 = None"
  by (simp add: b64_val_def)

lemma b64_char_no_break [simp]: "b64_char n \<noteq> 10" "b64_char n \<noteq> 13"
  by (auto simp: b64_char_def)

lemma unat_byte_less [simp]: "unat (a :: byte) < 256"
  using unsigned_less [of a] by simp

lemma sext_ranges [simp]: "sext1 a < 64" "sext2 a b < 64" "sext3 b c < 64" "sext4 c < 64"
  using unat_byte_less [of a] unat_byte_less [of b] unat_byte_less [of c]
  unfolding sext1_def sext2_def sext3_def sext4_def by linarith+

lemma octet_sext [simp]:
  "octet1 (sext1 a) (sext2 a b) = a" "octet2 (sext2 a b) (sext3 b c) = b" "octet3 (sext3 b c) (sext4 c) = c"
proof -
  have "unat b div 16 < 16" "unat c div 64 < 4" using unat_byte_less [of b] unat_byte_less [of c] by linarith+
  then have d: "sext2 a b div 16 = unat a mod 4" "sext2 a b mod 16 = unat b div 16"
      "sext3 b c div 4 = unat b mod 16" "sext3 b c mod 4 = unat c div 64"
    by (simp_all add: sext2_def sext3_def)
  show "octet1 (sext1 a) (sext2 a b) = a"
    unfolding octet1_def d(1) sext1_def by (simp only: div_mult_mod_eq of_nat_unat ucast_id)
  show "octet2 (sext2 a b) (sext3 b c) = b"
    unfolding octet2_def d(2,3) by (simp only: div_mult_mod_eq of_nat_unat ucast_id)
  show "octet3 (sext3 b c) (sext4 c) = c"
    unfolding octet3_def d(4) sext4_def by (simp only: div_mult_mod_eq of_nat_unat ucast_id)
qed

lemma b64_quads_encode: "b64_quads (base64_EncodeToString bs) = Some bs"
  by (induction bs rule: base64_EncodeToString.induct) simp_all

lemma base64_no_break: "filter (\<lambda>c. c \<noteq> 10 \<and> c \<noteq> 13) (base64_EncodeToString bs) = base64_EncodeToString bs"
  by (induction bs rule: base64_EncodeToString.induct) simp_all

lemma base64_roundtrip [simp]: "base64_DecodeString (base64_EncodeToString bs) = Some bs"
  by (simp add: base64_DecodeString_def base64_no_break b64_quads_encode)

lemma base64_eq_Nil [simp]: "base64_EncodeToString bs = [] \<longleftrightarrow> bs = []"
  by (cases bs rule: base64_EncodeToString.cases) simp_all

subsection \<open>Decimal numbers\<close>

fun itoa :: "nat \<Rightarrow> gotext" where
  "itoa n = (if n < 10 then [48 + n] else itoa (n div 10) @ [48 + n mod 10])"

declare itoa.simps [simp del]

end
