(* ===== verification/GoCrypto.thy ===== *)
theory GoCrypto
  imports Bytes
begin

text \<open>
  What the transport code uses of \<open>crypto/aes\<close> and \<open>crypto/cipher\<close>. The AES block function is an argument
  (\<open>aes key\<close> maps a 16-byte block to a 16-byte block); the key-size check of \<open>NewCipher\<close> and the counter mode on
  top of it are written out.
\<close>

type_synonym block_cipher = "bytes \<Rightarrow> bytes"

definition NewCipher :: "(bytes \<Rightarrow> block_cipher) \<Rightarrow> bytes \<Rightarrow> block_cipher option" where
  "NewCipher aes key = (if length key \<in> {16, 24, 32} then Some (aes key) else None)"

definition ctr_keystream :: "block_cipher \<Rightarrow> nat \<Rightarrow> nat \<Rightarrow> bytes" where
  "ctr_keystream blk iv n = concat (map (\<lambda>i. blk (be_bytes 16 (iv + i))) [0..<n])"

text \<open>\<open>cipher.NewCTR(block, iv)\<close> followed by \<open>XORKeyStream\<close>: the counter is the big-endian \<open>iv\<close>, one per block.\<close>

definition XORKeyStream :: "block_cipher \<Rightarrow> bytes \<Rightarrow> bytes \<Rightarrow> bytes" where
  "XORKeyStream blk iv src = map2 (XOR) src (ctr_keystream blk (be_nat iv) ((length src + 15) div 16))"

definition block_size_16 :: "block_cipher \<Rightarrow> bool" where
  "block_size_16 blk \<longleftrightarrow> (\<forall>b. length b = 16 \<longrightarrow> length (blk b) = 16)"

text \<open>AES is a block cipher: under a 16-byte key, 16 bytes go to 16 bytes.\<close>

definition cipher_ok :: "(bytes \<Rightarrow> block_cipher) \<Rightarrow> bool" where
  "cipher_ok aes \<longleftrightarrow> (\<forall>key. length key = 16 \<longrightarrow> block_size_16 (aes key))"

lemma cipher_okD: "cipher_ok aes \<Longrightarrow> length key = 16 \<Longrightarrow> block_size_16 (aes key)"
  by (simp add: cipher_ok_def)

lemma length_ctr_keystream:
  "block_size_16 blk \<Longrightarrow> length (ctr_keystream blk iv n) = 16 * n"
  by (induction n) (auto simp: ctr_keystream_def block_size_16_def)

lemma ctr_keystream_Suc:
  "ctr_keystream blk iv (Suc n) = blk (be_bytes 16 iv) @ ctr_keystream blk (Suc iv) n"
proof -
  have "[0..<Suc n] = 0 # map Suc [0..<n]"
    by (simp add: map_Suc_upt upt_conv_Cons del: upt_Suc)
  then show ?thesis
    by (simp add: ctr_keystream_def o_def del: upt_Suc)
qed

lemma keystream_covers: "block_size_16 blk \<Longrightarrow> length src \<le> length (ctr_keystream blk iv ((length src + 15) div 16))"
  by (simp add: length_ctr_keystream)

lemma length_XORKeyStream [simp]: "block_size_16 blk \<Longrightarrow> length (XORKeyStream blk iv src) = length src"
  using keystream_covers [of blk src "be_nat iv"] by (simp add: XORKeyStream_def)

lemma map2_xor_twice: "length src \<le> length (ks :: bytes) \<Longrightarrow> map2 (XOR) (map2 (XOR) src ks) ks = src"
proof (induction src arbitrary: ks)
  case (Cons a src)
  then show ?case by (cases ks) (auto simp: xor.assoc)
qed simp

lemma XORKeyStream_twice:
  assumes "block_size_16 blk"
  shows "XORKeyStream blk iv (XORKeyStream blk iv src) = src"
proof -
  have "length (XORKeyStream blk iv src) = length src" using assms by simp
  then show ?thesis
    using map2_xor_twice [OF keystream_covers [OF assms, of src "be_nat iv"]]
    by (simp add: XORKeyStream_def)
qed

end
