(* ===== verification/UdpSession.thy ===== *)
theory UdpSession
  imports GoCrypto GoChan
begin

text \<open>
  The audio session of one device over UDP (\<open>internal/app/server/mqtt_udp/udp.go\<close>): packets of a 16-byte
  header and an AES-CTR encrypted payload, two buffered channels towards the chat session, and the sender
  goroutine that drains one of them.

  The block cipher is the field \<open>Block\<close>, a function from blocks to blocks; the counter mode of
  \<open>crypto/cipher\<close> is written out. A channel never holds more than \<open>udp_chan_cap\<close> elements, the capacity both are
  made with.
\<close>

subsection \<open>Addresses\<close>

record udp_addr =
  ua_host :: gotext
  ua_port :: nat

text \<open>\<open>UDPAddr.String\<close>, which is \<open>net.JoinHostPort\<close>: a host with a colon is put in brackets.\<close>

definition addr_String :: "udp_addr \<Rightarrow> gotext" where
  "addr_String a = (if 58 \<in> set (ua_host a) then lit ''['' @ ua_host a @ lit '']:'' else ua_host a @ lit '':'') @ itoa (ua_port a)"

subsection \<open>The session\<close>

definition UdpSessionStatusActive :: string where "UdpSessionStatusActive = ''active''"
definition UdpSessionStatusClosed :: string where "UdpSessionStatusClosed = ''closed''"

definition udp_chan_cap :: nat where "udp_chan_cap = 100"

datatype udp_error = RecvChannelFull | SendChannelFull

record udp_session =
  us_ID :: gotext
  us_ConnId :: gotext
  us_ClientId :: gotext
  us_DeviceId :: gotext
  us_AesKey :: bytes
  us_Nonce :: bytes
  us_CreatedAt :: instant
  us_LastActive :: instant
  us_RemoteAddr :: "udp_addr option"
  us_LocalSeq :: "32 word"
  us_Block :: block_cipher
  us_RemoteSeq :: "32 word"
  us_RecvChannel :: "bytes gochan"
  us_SendChannel :: "bytes gochan"
  us_Status :: string

definition SetRemoteAddr :: "udp_addr option \<Rightarrow> udp_session \<Rightarrow> udp_session" where
  "SetRemoteAddr addr s = s\<lparr>us_RemoteAddr := addr\<rparr>"

definition GetRemoteAddr :: "udp_session \<Rightarrow> udp_addr option" where
  "GetRemoteAddr s = us_RemoteAddr s"

definition IsClosed :: "udp_session \<Rightarrow> bool" where
  "IsClosed s \<longleftrightarrow> us_Status s = UdpSessionStatusClosed"

text \<open>
  \<open>WaitRemoteAddr\<close> polls every ten milliseconds. What it sees is a list: the session and the clock at each
  poll. \<open>None\<close> means that it is still polling when the list ends.
\<close>

fun wait_poll :: "instant \<Rightarrow> (udp_session \<times> instant) list \<Rightarrow> udp_addr option option" where
  "wait_poll deadline [] = None"
| "wait_poll deadline ((s, now) # rest) =
     (case GetRemoteAddr s of
        Some a \<Rightarrow> Some (Some a)
      | None \<Rightarrow> if IsClosed s \<or> \<not> now < deadline then Some None else wait_poll deadline rest)"

definition WaitRemoteAddr :: "int \<Rightarrow> instant \<Rightarrow> (udp_session \<times> instant) list \<Rightarrow> udp_addr option option" where
  "WaitRemoteAddr timeout start polls =
     (if timeout \<le> 0 then (case polls of [] \<Rightarrow> None | (s, _) # _ \<Rightarrow> Some (GetRemoteAddr s))
      else wait_poll (start + timeout) polls)"

text \<open>\<open>DrainPendingAudio\<close>: the loop ends only at the \<open>default\<close> of its \<open>select\<close>; \<open>None\<close> is a loop that does not end.\<close>

partial_function (option) DrainPendingAudio :: "bytes gochan \<Rightarrow> nat \<Rightarrow> (nat \<times> bytes gochan) option" where
  "DrainPendingAudio c drained =
     (case chan_recv c of
        Received _ c' \<Rightarrow> DrainPendingAudio c' (drained + 1)
      | RecvClosed \<Rightarrow> DrainPendingAudio c (drained + 1)
      | RecvBlocks \<Rightarrow> Some (drained, c))"

definition Decrypt :: "udp_session \<Rightarrow> bytes \<Rightarrow> (bytes \<times> udp_session) run" where
  "Decrypt s data =
     (if length data < 16 then Panic
      else let nonce = take 16 data;
               ciphertext = drop 16 data;
               seqNum = be_getUint32 (take 4 (drop 12 data));
               s' = s\<lparr>us_RemoteSeq := seqNum\<rparr>
           in Done (XORKeyStream (us_Block s) nonce ciphertext, s'))"

definition Encrypt :: "udp_session \<Rightarrow> bytes \<Rightarrow> bytes \<times> udp_session" where
  "Encrypt s data =
     (let e0 = replicate (16 + length data) 0;
          e1 = e0[0 := 0x01];
          e2 = copy_at 2 (be_Uint16 (of_nat (length data))) e1;
          e3 = copy_at 4 (us_Nonce s) e2;
          s' = s\<lparr>us_LocalSeq := us_LocalSeq s + 1\<rparr>;
          e4 = copy_at 12 (be_Uint32 (us_LocalSeq s')) e3;
          e5 = copy_at 16 (XORKeyStream (us_Block s) (take 16 e4) data) e4
      in (e5, s'))"

definition GetAesKeyAndNonce :: "udp_session \<Rightarrow> gotext \<times> gotext" where
  "GetAesKeyAndNonce s =
     (hex_EncodeToString (us_AesKey s),
      hex_EncodeToString ((([0x01, 0x00] @ [0x00, 0x00]) @ us_Nonce s) @ [0x00, 0x00, 0x00, 0x00]))"

definition RecvData :: "udp_session \<Rightarrow> bytes \<Rightarrow> ((udp_error + bool) \<times> udp_session) run" where
  "RecvData s data =
     (if us_Status s = UdpSessionStatusClosed then Done (Inr False, s)
      else case chan_send udp_chan_cap (us_RecvChannel s) data of
             Sent c \<Rightarrow> Done (Inr True, s\<lparr>us_RecvChannel := c\<rparr>)
           | SendBlocks \<Rightarrow> Done (Inl RecvChannelFull, s)
           | SendPanics \<Rightarrow> Panic)"

definition SendAudioData :: "udp_session \<Rightarrow> bytes \<Rightarrow> ((udp_error + bool) \<times> udp_session) run" where
  "SendAudioData s data =
     (if us_Status s = UdpSessionStatusClosed then Done (Inr False, s)
      else case chan_send udp_chan_cap (us_SendChannel s) data of
             Sent c \<Rightarrow> Done (Inr True, s\<lparr>us_SendChannel := c\<rparr>)
           | SendBlocks \<Rightarrow> Done (Inl SendChannelFull, s)
           | SendPanics \<Rightarrow> Panic)"

text \<open>Closing a closed channel panics.\<close>

definition chan_close :: "'a gochan \<Rightarrow> 'a gochan run" where
  "chan_close c = (if c_closed c then Panic else Done (close_chan c))"

definition us_Destroy :: "udp_session \<Rightarrow> udp_session run" where
  "us_Destroy s =
     (if us_Status s = UdpSessionStatusClosed then Done s
      else let s1 = s\<lparr>us_Status := UdpSessionStatusClosed\<rparr>
           in run_bind (chan_close (us_RecvChannel s1)) (\<lambda>rc.
              run_bind (chan_close (us_SendChannel s1)) (\<lambda>sc.
              Done (s1\<lparr>us_RecvChannel := rc, us_SendChannel := sc\<rparr>))))"
subsection \<open>Packets\<close>

definition packet_header :: "bytes \<Rightarrow> nat \<Rightarrow> 32 word \<Rightarrow> bytes" where
  "packet_header nonce len sq = [0x01, 0x00] @ be_Uint16 (of_nat len) @ nonce @ be_Uint32 sq"

lemma length_packet_header [simp]: "length nonce = 8 \<Longrightarrow> length (packet_header nonce len sq) = 16"
  by (simp add: packet_header_def)

lemma copy_at_mid:
  "length a = off \<Longrightarrow> length src = length b \<Longrightarrow> copy_at off src (a @ b @ c) = a @ src @ c"
  by (simp add: copy_at_def)

lemma list_update_append_Cons: "length a = i \<Longrightarrow> (a @ x # c)[i := v] = a @ v # c"
  by (metis list_update_length)

lemma Encrypt_packet:
  assumes "length (us_Nonce s) = 8" "block_size_16 (us_Block s)"
  shows "Encrypt s data =
    (let h = packet_header (us_Nonce s) (length data) (us_LocalSeq s + 1)
     in (h @ XORKeyStream (us_Block s) h data, s\<lparr>us_LocalSeq := us_LocalSeq s + 1\<rparr>))"
proof -
  let ?len = "be_Uint16 (of_nat (length data))" and ?sq = "be_Uint32 (us_LocalSeq s + 1)"
  let ?h = "packet_header (us_Nonce s) (length data) (us_LocalSeq s + 1)"
  have e0: "replicate (16 + length data) (0::byte) =
    [0, 0] @ [0, 0] @ replicate 8 0 @ replicate 4 0 @ replicate (length data) 0"
    by (simp add: replicate_add numeral_eq_Suc)
  have e3: "copy_at 4 (us_Nonce s) (([1, 0] @ ?len) @ replicate 8 0 @ replicate 4 0 @ replicate (length data) 0)
      = ([1, 0] @ ?len) @ us_Nonce s @ replicate 4 0 @ replicate (length data) 0"
    using assms by (intro copy_at_mid) simp_all
  have e4: "copy_at 12 ?sq (([1, 0] @ ?len @ us_Nonce s) @ replicate 4 0 @ replicate (length data) 0)
      = ([1, 0] @ ?len @ us_Nonce s) @ ?sq @ replicate (length data) 0"
    using assms by (intro copy_at_mid) simp_all
  have e5: "copy_at 16 (XORKeyStream (us_Block s) ?h data) (?h @ replicate (length data) 0 @ [])
      = ?h @ XORKeyStream (us_Block s) ?h data @ []"
    using assms by (intro copy_at_mid) simp_all
  have e2: "copy_at 2 ?len ([1, 0] @ [0, 0] @ replicate 8 0 @ replicate 4 0 @ replicate (length data) 0)
      = [1, 0] @ ?len @ replicate 8 0 @ replicate 4 0 @ replicate (length data) 0"
    by (intro copy_at_mid) simp_all
  have h: "?h = ([1, 0] @ ?len @ us_Nonce s) @ ?sq"
    by (simp add: packet_header_def)
  have th: "take 16 (?h @ replicate (length data) 0) = ?h"
    using assms by simp
  have u: "([0, 0] @ [0, 0] @ replicate 8 0 @ replicate 4 0 @ replicate (length data) 0)[0 := 1::byte]
      = [1, 0] @ [0, 0] @ replicate 8 0 @ replicate 4 0 @ replicate (length data) 0"
    by simp
  have b4: "copy_at 12 ?sq (copy_at 4 (us_Nonce s) (copy_at 2 ?len
      ((replicate (16 + length data) (0::byte))[0 := 1]))) = ?h @ replicate (length data) 0"
    unfolding e0 u e2 using e3 e4 by (simp only: append_assoc h)
  show ?thesis
    unfolding Encrypt_def Let_def
    using b4 th e5 by (simp only: udp_session.simps append_Nil2 select_convs) simp
qed

lemma Decrypt_packet:
  assumes "length nonce = 8" "block_size_16 (us_Block s)"
  shows "Decrypt s (packet_header nonce len sq @ XORKeyStream (us_Block s) (packet_header nonce len sq) data)
    = Done (data, s\<lparr>us_RemoteSeq := sq\<rparr>)"
proof -
  let ?h = "packet_header nonce len sq"
  have "drop 12 ?h = be_Uint32 sq"
    using assms by (simp add: packet_header_def)
  then have "be_getUint32 (take 4 (drop 12 (?h @ XORKeyStream (us_Block s) ?h data))) = sq"
    using be_getUint32_be_Uint32 [of sq "[]"] assms by simp
  then show ?thesis
    using assms by (simp add: Decrypt_def XORKeyStream_twice)
qed

text \<open>The counter of the packet after this one is the counter of this one, plus one.\<close>

lemma packet_header_counter:
  assumes "length nonce = 8" "sq + 1 \<noteq> 0"
  shows "be_nat (packet_header nonce len (sq + 1)) = Suc (be_nat (packet_header nonce len sq))"
proof -
  have "unat (sq + 1) = Suc (unat sq)"
    using assms(2) by (metis Suc_eq_plus1 unatSuc add.commute)
  moreover have "packet_header nonce len v = ([0x01, 0x00] @ be_Uint16 (of_nat len) @ nonce) @ be_Uint32 v" for v
    by (simp add: packet_header_def)
  ultimately show ?thesis
    by (simp only: be_nat_append be_nat_Uint32 length_Uint)
qed

subsection \<open>Draining and waiting\<close>

lemma chan_recv_simps [simp]:
  "chan_recv \<lparr>c_buf = v # vs, c_closed = b\<rparr> = Received v \<lparr>c_buf = vs, c_closed = b\<rparr>"
  "chan_recv \<lparr>c_buf = [], c_closed = True\<rparr> = RecvClosed"
  "chan_recv \<lparr>c_buf = [], c_closed = False\<rparr> = RecvBlocks"
  by (simp_all add: chan_recv_def)

lemma chan_recv_closed: "chan_recv c = Received v c' \<Longrightarrow> c_closed c' = c_closed c"
  by (auto simp: chan_recv_def split: list.splits if_splits)

lemma Drain_open:
  "DrainPendingAudio \<lparr>c_buf = vs, c_closed = False\<rparr> n
     = Some (n + length vs, \<lparr>c_buf = [], c_closed = False\<rparr>)"
  by (induction vs arbitrary: n) (subst DrainPendingAudio.simps, simp)+

lemma chan_recv_blocks_open: "chan_recv c = RecvBlocks \<Longrightarrow> \<not> c_closed c"
  by (simp add: chan_recv_def split: list.splits if_splits)

lemma Drain_step_open:
  assumes f: "\<And>c n r. f c n = Some r \<Longrightarrow> \<not> c_closed (c :: bytes gochan)"
    and step: "(case chan_recv c of Received v c' \<Rightarrow> f c' (n + 1) | RecvClosed \<Rightarrow> f c (n + 1) | RecvBlocks \<Rightarrow> Some (n, c)) = Some r"
  shows "\<not> c_closed c"
proof (cases "chan_recv c")
  case (Received v c')
  then have "\<not> c_closed c'" using step by (intro f [of c' "n + 1" r]) simp
  then show ?thesis using chan_recv_closed [OF Received] by simp
next
  case RecvBlocks
  then show ?thesis by (rule chan_recv_blocks_open)
next
  case RecvClosed
  then show ?thesis using step by (intro f [of c "n + 1" r]) simp
qed

lemma Drain_returns_open: "DrainPendingAudio c n = Some r \<Longrightarrow> \<not> c_closed c"
  by (erule DrainPendingAudio.raw_induct [rotated]) (rule Drain_step_open)
lemma Drain_closed: "c_closed c \<Longrightarrow> DrainPendingAudio c n = None"
  using Drain_returns_open by (cases "DrainPendingAudio c n") auto

lemma wait_poll_returns:
  assumes "(s, now) \<in> set polls" "\<not> now < deadline"
  shows "\<exists>a. wait_poll deadline polls = Some a"
  using assms by (induction polls) (auto split: option.splits)

lemma WaitRemoteAddr_bound:
  assumes "0 < timeout" "\<And>i. i < length polls \<Longrightarrow> start + int i * 10 ^ 7 \<le> snd (polls ! i)"
    and "timeout \<le> int (length polls - 1) * 10 ^ 7" "polls \<noteq> []"
  shows "\<exists>a. WaitRemoteAddr timeout start polls = Some a"
proof -
  let ?n = "length polls - 1"
  have "?n < length polls" using assms(4) by (cases polls) auto
  then have "\<not> snd (polls ! ?n) < start + timeout" "polls ! ?n \<in> set polls"
    using assms(2) [of ?n] assms(3) by auto
  then show ?thesis
    using wait_poll_returns [of "fst (polls ! ?n)" "snd (polls ! ?n)" polls "start + timeout"] assms(1)
    by (simp add: WaitRemoteAddr_def)
qed

subsection \<open>Well-formed sessions\<close>

definition session_wf :: "udp_session \<Rightarrow> bool" where
  "session_wf s \<longleftrightarrow>
     length (us_AesKey s) = 16 \<and> length (us_Nonce s) = 8 \<and> block_size_16 (us_Block s) \<and>
     us_ConnId s = hex_EncodeToString (take 4 (us_Nonce s)) \<and>
     (c_closed (us_RecvChannel s) \<longleftrightarrow> IsClosed s) \<and> (c_closed (us_SendChannel s) \<longleftrightarrow> IsClosed s) \<and>
     length (c_buf (us_RecvChannel s)) \<le> udp_chan_cap \<and> length (c_buf (us_SendChannel s)) \<le> udp_chan_cap"

lemma session_wf_updates [simp]:
  "session_wf (s\<lparr>us_LastActive := now\<rparr>) = session_wf s"
  "session_wf (s\<lparr>us_RemoteSeq := sq\<rparr>) = session_wf s"
  "session_wf (s\<lparr>us_LocalSeq := sq\<rparr>) = session_wf s"
  "session_wf (SetRemoteAddr a s) = session_wf s"
  by (simp_all add: session_wf_def IsClosed_def SetRemoteAddr_def)

lemma IsClosed_updates [simp]:
  "IsClosed (s\<lparr>us_LastActive := now\<rparr>) = IsClosed s"
  "IsClosed (s\<lparr>us_RemoteSeq := sq\<rparr>) = IsClosed s"
  "IsClosed (s\<lparr>us_LocalSeq := sq\<rparr>) = IsClosed s"
  "IsClosed (s\<lparr>us_RecvChannel := c\<rparr>) = IsClosed s"
  "IsClosed (s\<lparr>us_SendChannel := c\<rparr>) = IsClosed s"
  "IsClosed (SetRemoteAddr a s) = IsClosed s"
  by (simp_all add: IsClosed_def SetRemoteAddr_def)

lemma SetRemoteAddr_fields [simp]:
  "us_ConnId (SetRemoteAddr a s) = us_ConnId s" "us_RecvChannel (SetRemoteAddr a s) = us_RecvChannel s"
  "us_SendChannel (SetRemoteAddr a s) = us_SendChannel s" "us_Status (SetRemoteAddr a s) = us_Status s"
  "us_DeviceId (SetRemoteAddr a s) = us_DeviceId s" "us_RemoteAddr (SetRemoteAddr a s) = a"
  "us_RemoteSeq (SetRemoteAddr a s) = us_RemoteSeq s" "us_Block (SetRemoteAddr a s) = us_Block s"
  "us_Nonce (SetRemoteAddr a s) = us_Nonce s" "us_AesKey (SetRemoteAddr a s) = us_AesKey s"
  by (simp_all add: SetRemoteAddr_def)

lemma RecvData_cases:
  assumes "session_wf s"
  shows "RecvData s data =
    (if IsClosed s then Done (Inr False, s)
     else if length (c_buf (us_RecvChannel s)) < udp_chan_cap
          then Done (Inr True, s\<lparr>us_RecvChannel := (us_RecvChannel s)\<lparr>c_buf := c_buf (us_RecvChannel s) @ [data]\<rparr>\<rparr>)
          else Done (Inl RecvChannelFull, s))"
  using assms by (auto simp: RecvData_def session_wf_def IsClosed_def chan_send_def)

lemma SendAudioData_cases:
  assumes "session_wf s"
  shows "SendAudioData s data =
    (if IsClosed s then Done (Inr False, s)
     else if length (c_buf (us_SendChannel s)) < udp_chan_cap
          then Done (Inr True, s\<lparr>us_SendChannel := (us_SendChannel s)\<lparr>c_buf := c_buf (us_SendChannel s) @ [data]\<rparr>\<rparr>)
          else Done (Inl SendChannelFull, s))"
  using assms by (auto simp: SendAudioData_def session_wf_def IsClosed_def chan_send_def)

lemma us_Destroy_cases:
  assumes "session_wf s"
  shows "us_Destroy s =
    Done (if IsClosed s then s
          else s\<lparr>us_Status := UdpSessionStatusClosed, us_RecvChannel := close_chan (us_RecvChannel s),
                 us_SendChannel := close_chan (us_SendChannel s)\<rparr>)"
  using assms by (auto simp: us_Destroy_def session_wf_def IsClosed_def chan_close_def)

lemma session_wf_recv:
  "session_wf s \<Longrightarrow> length (c_buf (us_RecvChannel s)) < udp_chan_cap \<Longrightarrow>
    session_wf (s\<lparr>us_RecvChannel := (us_RecvChannel s)\<lparr>c_buf := c_buf (us_RecvChannel s) @ [data]\<rparr>\<rparr>)"
  by (simp add: session_wf_def)

lemma session_wf_send:
  "session_wf s \<Longrightarrow> length (c_buf (us_SendChannel s)) < udp_chan_cap \<Longrightarrow>
    session_wf (s\<lparr>us_SendChannel := (us_SendChannel s)\<lparr>c_buf := c_buf (us_SendChannel s) @ [data]\<rparr>\<rparr>)"
  by (simp add: session_wf_def)

lemma session_wf_chan_recv:
  assumes "session_wf s"
  shows "chan_recv (us_SendChannel s) = Received v c \<Longrightarrow> session_wf (s\<lparr>us_SendChannel := c\<rparr>)"
    and "chan_recv (us_RecvChannel s) = Received v c \<Longrightarrow> session_wf (s\<lparr>us_RecvChannel := c\<rparr>)"
  using assms by (auto simp: session_wf_def chan_recv_def split: list.splits if_splits)

lemma session_wf_destroyed:
  "session_wf s \<Longrightarrow> session_wf (s\<lparr>us_Status := UdpSessionStatusClosed, us_RecvChannel := close_chan (us_RecvChannel s),
     us_SendChannel := close_chan (us_SendChannel s)\<rparr>)"
  by (simp add: session_wf_def IsClosed_def close_chan_def)

end
