(* ===== verification/UdpServer.thy ===== *)
theory UdpServer
  imports UdpSession
begin

text \<open>
  The UDP server (\<open>internal/app/server/mqtt_udp/udp_server.go\<close>): the table from connection ids to sessions,
  the handler of incoming packets, session creation with random ids, and the sender goroutine of each session.

  Sessions are objects that the server, the connections and the senders share, so they live in a heap
  (\<open>un_sessions\<close>, in order of creation) and are referred to by index. \<open>un_rand\<close> is what the package's random
  reader still holds, \<open>un_wire\<close> what was written to the socket. A handler runs to its end before the next one.
\<close>

subsection \<open>State\<close>

record udp_net =
  un_sessions :: "udp_session list"
  un_rand :: bytes
  un_wire :: "(udp_addr \<times> bytes) list"

record udp_server =
  sv_conn :: bool
  sv_udpPort :: int
  sv_externalHost :: gotext
  sv_externalPort :: int
  sv_connId2Session :: "gotext \<rightharpoonup> nat"

definition maxConnIDGenerateAttempts :: nat where
  "maxConnIDGenerateAttempts = 16"

definition NewUDPServer :: "int \<Rightarrow> gotext \<Rightarrow> int \<Rightarrow> udp_server" where
  "NewUDPServer udpPort externalHost externalPort =
     \<lparr>sv_conn = False, sv_udpPort = udpPort, sv_externalHost = externalHost, sv_externalPort = externalPort,
      sv_connId2Session = Map.empty\<rparr>"

text \<open>\<open>Start\<close>: whether the socket could be bound is the argument.\<close>

definition sv_Start :: "bool \<Rightarrow> udp_server \<Rightarrow> bool \<times> udp_server" where
  "sv_Start listens sv = (if listens then (True, sv\<lparr>sv_conn := True\<rparr>) else (False, sv))"

definition sv_Close :: "udp_server \<Rightarrow> udp_server" where
  "sv_Close sv = sv\<lparr>sv_conn := False\<rparr>"

definition set_session :: "nat \<Rightarrow> udp_session \<Rightarrow> udp_net \<Rightarrow> udp_net" where
  "set_session r s net = net\<lparr>un_sessions := (un_sessions net)[r := s]\<rparr>"

subsection \<open>Incoming packets\<close>

definition getSessionByConnID :: "udp_server \<Rightarrow> gotext \<Rightarrow> nat option" where
  "getSessionByConnID sv connID = sv_connId2Session sv connID"

definition rebind_addr :: "udp_addr \<Rightarrow> udp_session \<Rightarrow> udp_session" where
  "rebind_addr addr s =
     (case GetRemoteAddr s of
        None \<Rightarrow> SetRemoteAddr (Some addr) s
      | Some cur \<Rightarrow> if addr_String cur \<noteq> addr_String addr then SetRemoteAddr (Some addr) s else s)"

definition processPacket :: "instant \<Rightarrow> udp_addr \<Rightarrow> bytes \<Rightarrow> udp_server \<Rightarrow> udp_net \<Rightarrow> udp_net run" where
  "processPacket now addr data sv net =
     (if length data < 16 then Done net
      else let fullNonce = take 16 data;
               strConnID = hex_EncodeToString (take 4 (drop 4 fullNonce))
           in case getSessionByConnID sv strConnID of
                None \<Rightarrow> Done net
              | Some r \<Rightarrow>
                  let s = (un_sessions net ! r)\<lparr>us_LastActive := now\<rparr>
                  in run_bind (Decrypt s data) (\<lambda>(decrypted, s1).
                     run_bind (RecvData (rebind_addr addr s1) decrypted) (\<lambda>(_, s2).
                     Done (set_session r s2 net))))"

text \<open>\<open>handlePackets\<close> on what the socket reads, until \<open>Close\<close> resets the connection; reads of at most 4096 bytes.\<close>

fun handlePackets :: "udp_server \<Rightarrow> (instant \<times> udp_addr \<times> bytes) option list \<Rightarrow> udp_net \<Rightarrow> udp_net run" where
  "handlePackets sv [] net = Done net"
| "handlePackets sv (ev # evs) net =
     (if \<not> sv_conn sv then Done net
      else case ev of
             None \<Rightarrow> handlePackets sv evs net
           | Some (now, addr, datagram) \<Rightarrow>
               run_bind (processPacket now addr (take 4096 datagram) sv net) (handlePackets sv evs))"

text \<open>\<open>cleanupSessions\<close>, one tick. \<open>Start\<close> has the call commented out.\<close>

definition cleanupSessions :: "instant \<Rightarrow> udp_net \<Rightarrow> udp_server \<Rightarrow> udp_server" where
  "cleanupSessions now net sv = sv\<lparr>sv_connId2Session := (\<lambda>k. case sv_connId2Session sv k of
     Some r \<Rightarrow> if now - us_LastActive (un_sessions net ! r) > 5 * 60 * 10 ^ 9 then None else Some r
   | None \<Rightarrow> None)\<rparr>"

subsection \<open>Creating sessions\<close>

text \<open>\<open>io.ReadFull\<close> on the random reader; a short read consumes what is left and fails.\<close>

definition fillRandomBytes :: "nat \<Rightarrow> udp_net \<Rightarrow> bytes option \<times> udp_net" where
  "fillRandomBytes n net =
     (if n \<le> length (un_rand net) then (Some (take n (un_rand net)), net\<lparr>un_rand := drop n (un_rand net)\<rparr>)
      else (None, net\<lparr>un_rand := []\<rparr>))"

definition generateSessionID :: "udp_net \<Rightarrow> gotext option \<times> udp_net" where
  "generateSessionID net =
     (case fillRandomBytes 8 net of
        (None, net1) \<Rightarrow> (None, net1)
      | (Some b, net1) \<Rightarrow> (Some (hex_EncodeToString b), net1))"

definition new_udp_session ::
  "instant \<Rightarrow> gotext \<Rightarrow> gotext \<Rightarrow> gotext \<Rightarrow> bytes \<Rightarrow> block_cipher \<Rightarrow> bytes \<Rightarrow> udp_session" where
  "new_udp_session now sessionID deviceId clientId aesKey blk connID =
     (let timestamp = be_Uint32 (of_int (now div 10 ^ 9));
          nonce = connID @ timestamp
      in \<lparr>us_ID = sessionID, us_ConnId = hex_EncodeToString connID, us_ClientId = clientId, us_DeviceId = deviceId,
          us_AesKey = aesKey, us_Nonce = copy_at 0 nonce (replicate 8 0), us_CreatedAt = now, us_LastActive = now,
          us_RemoteAddr = None, us_LocalSeq = 0, us_Block = blk, us_RemoteSeq = 0,
          us_RecvChannel = \<lparr>c_buf = [], c_closed = False\<rparr>, us_SendChannel = \<lparr>c_buf = [], c_closed = False\<rparr>,
          us_Status = UdpSessionStatusActive\<rparr>)"

fun create_attempts ::
  "nat \<Rightarrow> instant \<Rightarrow> gotext \<Rightarrow> gotext \<Rightarrow> gotext \<Rightarrow> bytes \<Rightarrow> block_cipher \<Rightarrow> udp_server \<Rightarrow> udp_net
    \<Rightarrow> nat option \<times> udp_server \<times> udp_net" where
  "create_attempts 0 now sid dev cid key blk sv net = (None, sv, net)"
| "create_attempts (Suc k) now sid dev cid key blk sv net =
     (case fillRandomBytes 4 net of
        (None, net1) \<Rightarrow> (None, sv, net1)
      | (Some connID, net1) \<Rightarrow>
          let session = new_udp_session now sid dev cid key blk connID
          in if sv_connId2Session sv (us_ConnId session) \<noteq> None
             then create_attempts k now sid dev cid key blk sv net1
             else let r = length (un_sessions net1)
                  in (Some r, sv\<lparr>sv_connId2Session := (sv_connId2Session sv)(us_ConnId session \<mapsto> r)\<rparr>,
                      net1\<lparr>un_sessions := un_sessions net1 @ [session]\<rparr>))"

definition CreateSession ::
  "(bytes \<Rightarrow> block_cipher) \<Rightarrow> instant \<Rightarrow> gotext \<Rightarrow> gotext \<Rightarrow> udp_server \<Rightarrow> udp_net \<Rightarrow> nat option \<times> udp_server \<times> udp_net" where
  "CreateSession aes now deviceId clientId sv net =
     (case generateSessionID net of
        (None, net1) \<Rightarrow> (None, sv, net1)
      | (Some sessionID, net1) \<Rightarrow>
          (case fillRandomBytes 16 net1 of
             (None, net2) \<Rightarrow> (None, sv, net2)
           | (Some key, net2) \<Rightarrow>
               (case NewCipher aes key of
                  None \<Rightarrow> (None, sv, net2)
                | Some blk \<Rightarrow>
                    create_attempts maxConnIDGenerateAttempts now sessionID deviceId clientId
                      (copy_at 0 key (replicate 16 0)) blk sv net2)))"

subsection \<open>The sender goroutine\<close>

definition writeToUDP :: "bool \<Rightarrow> bytes \<Rightarrow> udp_addr \<Rightarrow> udp_server \<Rightarrow> udp_net \<Rightarrow> nat option \<times> udp_net" where
  "writeToUDP net_ok data remoteAddr sv net =
     (if \<not> sv_conn sv then (None, net)
      else if \<not> net_ok then (None, net)
      else (Some (length data), net\<lparr>un_wire := un_wire net @ [(remoteAddr, data)]\<rparr>))"

text \<open>
  One round of the loop of \<open>startSessionSender\<close>, in two steps: \<open>sender_take\<close> receives from the send channel,
  \<open>sender_deliver\<close> is the rest of the body once \<open>WaitRemoteAddr\<close> has answered. A round that never ends is \<open>None\<close>.
\<close>

datatype sender_outcome = SenderWaits | SenderExits | SenderDropped nat | SenderSent

definition sender_take :: "nat \<Rightarrow> udp_net \<Rightarrow> (sender_outcome + bytes) \<times> udp_net" where
  "sender_take r net =
     (case chan_recv (us_SendChannel (un_sessions net ! r)) of
        RecvBlocks \<Rightarrow> (Inl SenderWaits, net)
      | RecvClosed \<Rightarrow> (Inl SenderExits, net)
      | Received data c \<Rightarrow> (Inr data, set_session r ((un_sessions net ! r)\<lparr>us_SendChannel := c\<rparr>) net))"

definition sender_deliver ::
  "bool \<Rightarrow> nat \<Rightarrow> bytes \<Rightarrow> udp_addr option \<Rightarrow> udp_server \<Rightarrow> udp_net \<Rightarrow> (sender_outcome \<times> udp_net) option" where
  "sender_deliver net_ok r data remote sv net =
     (let session = un_sessions net ! r in
      case remote of
        None \<Rightarrow>
          (case DrainPendingAudio (us_SendChannel session) 0 of
             None \<Rightarrow> None
           | Some (n, c) \<Rightarrow> Some (SenderDropped (1 + n), set_session r (session\<lparr>us_SendChannel := c\<rparr>) net))
      | Some remoteAddr \<Rightarrow>
          (let (encrypted, session1) = Encrypt session data
           in Some (SenderSent, snd (writeToUDP net_ok encrypted remoteAddr sv (set_session r session1 net)))))"

text \<open>A whole round when nothing else runs meanwhile: every poll of \<open>WaitRemoteAddr\<close> sees the same session.\<close>

definition sender_round :: "bool \<Rightarrow> instant \<Rightarrow> nat \<Rightarrow> udp_server \<Rightarrow> udp_net \<Rightarrow> (sender_outcome \<times> udp_net) option" where
  "sender_round net_ok now r sv net =
     (case sender_take r net of
        (Inl out, net1) \<Rightarrow> Some (out, net1)
      | (Inr data, net1) \<Rightarrow>
          (case WaitRemoteAddr (2 * 10 ^ 9) now
                  (map (\<lambda>i. (un_sessions net1 ! r, now + int i * 10 ^ 7)) [0..<201]) of
             None \<Rightarrow> None
           | Some remote \<Rightarrow> sender_deliver net_ok r data remote sv net1))"

subsection \<open>Closing\<close>

definition CloseSessionByRef :: "nat option \<Rightarrow> udp_server \<Rightarrow> udp_net \<Rightarrow> (udp_server \<times> udp_net) run" where
  "CloseSessionByRef session sv net =
     (case session of
        None \<Rightarrow> Done (sv, net)
      | Some r \<Rightarrow>
          (let sv1 = sv\<lparr>sv_connId2Session := (sv_connId2Session sv)(us_ConnId (un_sessions net ! r) := None)\<rparr>
           in run_bind (us_Destroy (SetRemoteAddr None (un_sessions net ! r))) (\<lambda>s.
              Done (sv1, set_session r s net))))"

definition CloseSession :: "gotext \<Rightarrow> udp_server \<Rightarrow> udp_net \<Rightarrow> (udp_server \<times> udp_net) run" where
  "CloseSession connID sv net = CloseSessionByRef (getSessionByConnID sv connID) sv net"

definition ClearSessionAddrBinding :: "gotext \<Rightarrow> udp_server \<Rightarrow> udp_net \<Rightarrow> udp_net" where
  "ClearSessionAddrBinding connID sv net =
     (case getSessionByConnID sv connID of
        None \<Rightarrow> net
      | Some r \<Rightarrow> set_session r (SetRemoteAddr None (un_sessions net ! r)) net)"

definition SetConnId2Session :: "gotext \<Rightarrow> nat \<Rightarrow> udp_server \<Rightarrow> udp_server" where
  "SetConnId2Session connID r sv = sv\<lparr>sv_connId2Session := (sv_connId2Session sv)(connID \<mapsto> r)\<rparr>"

definition GetSessionByConnID :: "udp_server \<Rightarrow> gotext \<Rightarrow> nat option" where
  "GetSessionByConnID sv connID = sv_connId2Session sv connID"
subsection \<open>The session table\<close>

text \<open>Every session is well formed; the table holds open sessions, each under its own connection id.\<close>

definition server_inv :: "udp_server \<Rightarrow> udp_net \<Rightarrow> bool" where
  "server_inv sv net \<longleftrightarrow>
     (\<forall>s \<in> set (un_sessions net). session_wf s) \<and>
     (\<forall>k r. sv_connId2Session sv k = Some r \<longrightarrow>
        r < length (un_sessions net) \<and> us_ConnId (un_sessions net ! r) = k \<and> \<not> IsClosed (un_sessions net ! r))"

lemma un_sessions_set_session [simp]:
  "un_sessions (set_session r s net) = (un_sessions net)[r := s]" "un_rand (set_session r s net) = un_rand net"
  "un_wire (set_session r s net) = un_wire net"
  by (simp_all add: set_session_def)

lemma server_inv_wf: "server_inv sv net \<Longrightarrow> r < length (un_sessions net) \<Longrightarrow> session_wf (un_sessions net ! r)"
  by (simp add: server_inv_def)

lemma server_inv_entry:
  assumes "server_inv sv net" "sv_connId2Session sv k = Some r"
  shows "r < length (un_sessions net)" "us_ConnId (un_sessions net ! r) = k" "\<not> IsClosed (un_sessions net ! r)"
    "session_wf (un_sessions net ! r)"
  using assms by (auto simp: server_inv_def)

lemma server_inv_set_session:
  assumes "server_inv sv net" "session_wf s" "us_ConnId s = us_ConnId (un_sessions net ! r)"
    and "IsClosed s \<Longrightarrow> IsClosed (un_sessions net ! r)"
  shows "server_inv sv (set_session r s net)"
proof -
  have "session_wf s'" if "s' \<in> set ((un_sessions net)[r := s])" for s'
    using that set_update_subset_insert [of "un_sessions net" r s] assms(1,2) by (auto simp: server_inv_def)
  moreover have "i < length ((un_sessions net)[r := s]) \<and> us_ConnId ((un_sessions net)[r := s] ! i) = k \<and>
      \<not> IsClosed ((un_sessions net)[r := s] ! i)" if "sv_connId2Session sv k = Some i" for k i
    using server_inv_entry [OF assms(1) that] assms(3,4) by (cases "i = r") auto
  ultimately show ?thesis by (simp add: server_inv_def)
qed

lemma fillRandomBytes_net [simp]:
  "un_sessions (snd (fillRandomBytes n net)) = un_sessions net" "un_wire (snd (fillRandomBytes n net)) = un_wire net"
  by (simp_all add: fillRandomBytes_def)

lemma fillRandomBytes_SomeD: "fillRandomBytes n net = (Some b, net1) \<Longrightarrow> length b = n"
  by (auto simp: fillRandomBytes_def split: if_splits)

lemma generateSessionID_net:
  "un_sessions (snd (generateSessionID net)) = un_sessions net" "un_wire (snd (generateSessionID net)) = un_wire net"
  by (cases "fst (fillRandomBytes 8 net)"; simp add: generateSessionID_def case_prod_beta)+

lemma server_inv_net_cong:
  "un_sessions net' = un_sessions net \<Longrightarrow> server_inv sv net' = server_inv sv net"
  by (simp add: server_inv_def)

lemma new_udp_session_wf:
  assumes "length connID = 4" "length key = 16" "block_size_16 blk"
  shows "session_wf (new_udp_session now sid dev cid key blk connID)"
  using assms
  by (simp add: new_udp_session_def session_wf_def copy_at_def IsClosed_def UdpSessionStatusActive_def
      UdpSessionStatusClosed_def udp_chan_cap_def Let_def)

lemma new_udp_session_fields [simp]:
  "us_DeviceId (new_udp_session now sid dev cid key blk connID) = dev"
  "us_ConnId (new_udp_session now sid dev cid key blk connID) = hex_EncodeToString connID"
  "us_SendChannel (new_udp_session now sid dev cid key blk connID) = \<lparr>c_buf = [], c_closed = False\<rparr>"
  "\<not> IsClosed (new_udp_session now sid dev cid key blk connID)"
  by (simp_all add: new_udp_session_def Let_def IsClosed_def UdpSessionStatusActive_def UdpSessionStatusClosed_def)

text \<open>
  What creating a session does: it fails and leaves table and sessions alone, or it appends one open session
  for the device and enters it under an id that was free.
\<close>

definition created :: "gotext \<Rightarrow> nat option \<Rightarrow> udp_server \<Rightarrow> udp_net \<Rightarrow> udp_server \<Rightarrow> udp_net \<Rightarrow> bool" where
  "created dev ref sv net sv' net' \<longleftrightarrow>
     un_wire net' = un_wire net \<and>
     (case ref of
        None \<Rightarrow> sv' = sv \<and> un_sessions net' = un_sessions net
      | Some r \<Rightarrow> \<exists>s. r = length (un_sessions net) \<and> un_sessions net' = un_sessions net @ [s] \<and>
          us_DeviceId s = dev \<and> session_wf s \<and> \<not> IsClosed s \<and>
          us_SendChannel s = \<lparr>c_buf = [], c_closed = False\<rparr> \<and> sv_connId2Session sv (us_ConnId s) = None \<and>
          sv' = sv\<lparr>sv_connId2Session := (sv_connId2Session sv)(us_ConnId s \<mapsto> r)\<rparr>)"

lemma created_cong:
  "un_sessions net1 = un_sessions net \<Longrightarrow> un_wire net1 = un_wire net \<Longrightarrow>
    created dev ref sv net1 sv' net' = created dev ref sv net sv' net'"
  by (cases ref) (simp_all add: created_def)

lemma create_attempts_created:
  assumes "length key = 16" "block_size_16 blk"
  shows "created dev (fst (create_attempts k now sid dev cid key blk sv net)) sv net
    (fst (snd (create_attempts k now sid dev cid key blk sv net)))
    (snd (snd (create_attempts k now sid dev cid key blk sv net)))"
proof (induction k arbitrary: net)
  case 0
  show ?case by (simp add: created_def)
next
  case (Suc k)
  obtain b net1 where f: "fillRandomBytes 4 net = (b, net1)" by (cases "fillRandomBytes 4 net")
  then have same: "un_sessions net1 = un_sessions net" "un_wire net1 = un_wire net"
    using fillRandomBytes_net [of 4 net] by simp_all
  show ?case
  proof (cases b)
    case None
    then show ?thesis using f same by (simp add: created_def)
  next
    case (Some connID)
    then have "length connID = 4" using f fillRandomBytes_SomeD by blast
    then have wf: "session_wf (new_udp_session now sid dev cid key blk connID)"
      using assms by (rule new_udp_session_wf)
    show ?thesis
    proof (cases "sv_connId2Session sv (hex_EncodeToString connID)")
      case None
      then show ?thesis using Some f same wf by (auto simp: created_def Let_def)
    next
      case (Some r)
      then show ?thesis using \<open>b = _\<close> f Suc.IH [of net1] by (simp add: created_cong [OF same])
    qed
  qed
qed

lemma CreateSession_created:
  assumes "cipher_ok aes"
    and "CreateSession aes now dev cid sv net = (ref, sv', net')"
  shows "created dev ref sv net sv' net'"
proof -
  obtain sid net1 where g: "generateSessionID net = (sid, net1)" by (cases "generateSessionID net")
  obtain k net2 where f: "fillRandomBytes 16 net1 = (k, net2)" by (cases "fillRandomBytes 16 net1")
  have s1: "un_sessions net1 = un_sessions net" "un_wire net1 = un_wire net"
    using g generateSessionID_net [of net] by simp_all
  have s2: "un_sessions net2 = un_sessions net" "un_wire net2 = un_wire net"
    using f fillRandomBytes_net [of 16 net1] s1 by simp_all
  show ?thesis
  proof (cases sid)
    case None
    then show ?thesis using assms(2) g s1 by (simp add: CreateSession_def created_def)
  next
    case (Some i)
    note sid = this
    show ?thesis
    proof (cases k)
      case None
      then show ?thesis using assms(2) g f s2 sid by (simp add: CreateSession_def created_def)
    next
      case (Some key)
      then have len: "length key = 16" using f fillRandomBytes_SomeD by blast
      then have c: "create_attempts maxConnIDGenerateAttempts now i dev cid key (aes key) sv net2 = (ref, sv', net')"
        using assms(2) g f sid Some by (simp add: CreateSession_def NewCipher_def copy_at_def)
      show ?thesis
        using create_attempts_created [OF len cipher_okD [OF assms(1) len], of dev maxConnIDGenerateAttempts now i cid sv net2] c
        by (simp add: created_cong [OF s2])
    qed
  qed
qed

lemma created_inv:
  assumes "created dev ref sv net sv' net'" "server_inv sv net"
  shows "server_inv sv' net'"
proof (cases ref)
  case None
  then show ?thesis using assms by (auto simp: created_def server_inv_def)
next
  case (Some r)
  then obtain s where "un_sessions net' = un_sessions net @ [s]" "session_wf s" "\<not> IsClosed s"
    "sv' = sv\<lparr>sv_connId2Session := (sv_connId2Session sv)(us_ConnId s \<mapsto> length (un_sessions net))\<rparr>"
    using assms(1) by (auto simp: created_def)
  with assms(2) show ?thesis
    unfolding server_inv_def by (auto simp: nth_append less_Suc_eq split: if_splits)
qed
subsection \<open>Delivery, closing and sending\<close>

definition udp_packet :: "udp_session \<Rightarrow> 32 word \<Rightarrow> bytes \<Rightarrow> bytes" where
  "udp_packet s sq data =
     (let h = packet_header (us_Nonce s) (length data) sq in h @ XORKeyStream (us_Block s) h data)"

definition deliver :: "instant \<Rightarrow> udp_addr \<Rightarrow> 32 word \<Rightarrow> bytes \<Rightarrow> udp_session \<Rightarrow> udp_session" where
  "deliver now addr sq data s =
     (let s1 = rebind_addr addr (s\<lparr>us_LastActive := now, us_RemoteSeq := sq\<rparr>)
      in if length (c_buf (us_RecvChannel s)) < udp_chan_cap
         then s1\<lparr>us_RecvChannel := (us_RecvChannel s)\<lparr>c_buf := c_buf (us_RecvChannel s) @ [data]\<rparr>\<rparr>
         else s1)"

lemma rebind_addr_fields [simp]:
  "us_ConnId (rebind_addr addr s) = us_ConnId s" "us_RecvChannel (rebind_addr addr s) = us_RecvChannel s"
  "us_SendChannel (rebind_addr addr s) = us_SendChannel s" "IsClosed (rebind_addr addr s) = IsClosed s"
  "session_wf (rebind_addr addr s) = session_wf s" "us_RemoteSeq (rebind_addr addr s) = us_RemoteSeq s"
  "us_DeviceId (rebind_addr addr s) = us_DeviceId s" "us_Nonce (rebind_addr addr s) = us_Nonce s"
  "us_AesKey (rebind_addr addr s) = us_AesKey s"
  by (simp_all add: rebind_addr_def split: option.splits)

lemma rebind_addr_bound: "\<exists>a. us_RemoteAddr (rebind_addr addr s) = Some a \<and> addr_String a = addr_String addr"
  by (auto simp: rebind_addr_def GetRemoteAddr_def split: option.splits)

lemma deliver_fields [simp]:
  "us_ConnId (deliver now addr sq data s) = us_ConnId s" "IsClosed (deliver now addr sq data s) = IsClosed s"
  "us_SendChannel (deliver now addr sq data s) = us_SendChannel s"
  "us_DeviceId (deliver now addr sq data s) = us_DeviceId s"
  "us_RemoteSeq (deliver now addr sq data s) = sq" "us_Nonce (deliver now addr sq data s) = us_Nonce s"
  "us_AesKey (deliver now addr sq data s) = us_AesKey s"
  by (simp_all add: deliver_def Let_def)

lemma deliver_RemoteAddr:
  "us_RemoteAddr (deliver now addr sq data s) = us_RemoteAddr (rebind_addr addr (s\<lparr>us_LastActive := now, us_RemoteSeq := sq\<rparr>))"
  by (simp add: deliver_def Let_def)

lemma deliver_wf: "session_wf s \<Longrightarrow> session_wf (deliver now addr sq data s)"
  using session_wf_recv [of "rebind_addr addr (s\<lparr>us_LastActive := now, us_RemoteSeq := sq\<rparr>)" data]
  by (simp add: deliver_def Let_def)

lemma processPacket_known:
  assumes "server_inv sv net" "16 \<le> length pkt"
    and "sv_connId2Session sv (hex_EncodeToString (take 4 (drop 4 pkt))) = Some r"
  shows "processPacket now addr pkt sv net =
    Done (set_session r (deliver now addr (be_getUint32 (take 4 (drop 12 pkt)))
      (XORKeyStream (us_Block (un_sessions net ! r)) (take 16 pkt) (drop 16 pkt)) (un_sessions net ! r)) net)"
proof -
  have k: "take 4 (drop 4 (take 16 pkt)) = take 4 (drop 4 pkt)"
    by (simp add: drop_take)
  note e = server_inv_entry [OF assms(1,3)]
  show ?thesis
    using assms(2,3) e unfolding processPacket_def getSessionByConnID_def Let_def k
    by (simp add: Decrypt_def RecvData_cases deliver_def Let_def)
qed

lemma processPacket_unknown:
  assumes "length pkt < 16 \<or> sv_connId2Session sv (hex_EncodeToString (take 4 (drop 4 pkt))) = None"
  shows "processPacket now addr pkt sv net = Done net"
proof -
  have "take 4 (drop 4 (take 16 pkt)) = take 4 (drop 4 pkt)"
    by (simp add: drop_take)
  then show ?thesis using assms by (auto simp: processPacket_def getSessionByConnID_def)
qed

lemma udp_packet_parts:
  assumes "session_wf s"
  shows "length (udp_packet s sq data) = 16 + length data"
    and "us_ConnId s = hex_EncodeToString (take 4 (drop 4 (udp_packet s sq data)))"
    and "be_getUint32 (take 4 (drop 12 (udp_packet s sq data))) = sq"
    and "XORKeyStream (us_Block s) (take 16 (udp_packet s sq data)) (drop 16 (udp_packet s sq data)) = data"
proof -
  let ?h = "packet_header (us_Nonce s) (length data) sq"
  have wf: "length (us_Nonce s) = 8" "block_size_16 (us_Block s)"
    "us_ConnId s = hex_EncodeToString (take 4 (us_Nonce s))"
    using assms by (simp_all add: session_wf_def)
  have "drop 4 ?h = us_Nonce s @ be_Uint32 sq" "drop 12 ?h = be_Uint32 sq"
    using wf by (simp_all add: packet_header_def)
  then show "length (udp_packet s sq data) = 16 + length data"
    and "us_ConnId s = hex_EncodeToString (take 4 (drop 4 (udp_packet s sq data)))"
    and "be_getUint32 (take 4 (drop 12 (udp_packet s sq data))) = sq"
    and "XORKeyStream (us_Block s) (take 16 (udp_packet s sq data)) (drop 16 (udp_packet s sq data)) = data"
    using wf be_getUint32_be_Uint32 [of sq "[]"]
    by (simp_all add: udp_packet_def Let_def XORKeyStream_twice)
qed

lemma processPacket_inv [step_inv]:
  assumes "server_inv sv net"
  shows "\<exists>net'. processPacket now addr pkt sv net = Done net' \<and> server_inv sv net'"
proof (cases "length pkt < 16 \<or> sv_connId2Session sv (hex_EncodeToString (take 4 (drop 4 pkt))) = None")
  case True
  then show ?thesis using assms processPacket_unknown by blast
next
  case False
  then obtain r where r: "16 \<le> length pkt" "sv_connId2Session sv (hex_EncodeToString (take 4 (drop 4 pkt))) = Some r"
    by auto
  show ?thesis
    unfolding processPacket_known [OF assms r]
    using server_inv_entry [OF assms r(2)]
    by (auto intro!: server_inv_set_session [OF assms] deliver_wf)
qed

lemma CloseSessionByRef_effect:
  assumes "server_inv sv net" "r < length (un_sessions net)"
  shows "\<exists>s. CloseSessionByRef (Some r) sv net =
      Done (sv\<lparr>sv_connId2Session := (sv_connId2Session sv)(us_ConnId (un_sessions net ! r) := None)\<rparr>, set_session r s net)
    \<and> session_wf s \<and> IsClosed s \<and> us_ConnId s = us_ConnId (un_sessions net ! r) \<and> us_RemoteAddr s = None
    \<and> c_buf (us_SendChannel s) = c_buf (us_SendChannel (un_sessions net ! r)) \<and> c_closed (us_SendChannel s)"
proof -
  let ?s = "SetRemoteAddr None (un_sessions net ! r)"
  let ?d = "if IsClosed ?s then ?s else ?s\<lparr>us_Status := UdpSessionStatusClosed,
    us_RecvChannel := close_chan (us_RecvChannel ?s), us_SendChannel := close_chan (us_SendChannel ?s)\<rparr>"
  have wf: "session_wf ?s" using server_inv_wf [OF assms] by simp
  have wd: "session_wf ?d" using wf session_wf_destroyed [OF wf] by simp
  moreover have "IsClosed ?d" by (simp add: IsClosed_def)
  moreover have "c_closed (us_SendChannel ?d)" using wf by (simp add: session_wf_def close_chan_def)
  moreover have "us_ConnId ?d = us_ConnId (un_sessions net ! r)" "us_RemoteAddr ?d = None"
    "c_buf (us_SendChannel ?d) = c_buf (us_SendChannel (un_sessions net ! r))"
    by (simp_all add: close_chan_def)
  moreover have "CloseSessionByRef (Some r) sv net =
      Done (sv\<lparr>sv_connId2Session := (sv_connId2Session sv)(us_ConnId (un_sessions net ! r) := None)\<rparr>, set_session r ?d net)"
    by (simp add: CloseSessionByRef_def us_Destroy_cases [OF wf])
  ultimately show ?thesis by blast
qed

lemma closed_inv:
  assumes "server_inv sv net" "session_wf s" "us_ConnId s = us_ConnId (un_sessions net ! r)"
  shows "server_inv (sv\<lparr>sv_connId2Session := (sv_connId2Session sv)(us_ConnId (un_sessions net ! r) := None)\<rparr>)
    (set_session r s net)"
proof -
  have "session_wf s'" if "s' \<in> set ((un_sessions net)[r := s])" for s'
    using that set_update_subset_insert [of "un_sessions net" r s] assms(1,2) by (auto simp: server_inv_def)
  moreover have "i < length (un_sessions net) \<and> us_ConnId ((un_sessions net)[r := s] ! i) = k \<and>
      \<not> IsClosed ((un_sessions net)[r := s] ! i)"
    if "sv_connId2Session sv k = Some i" "k \<noteq> us_ConnId (un_sessions net ! r)" for k i
    using server_inv_entry [OF assms(1) that(1)] that(2) by (cases "i = r") auto
  ultimately show ?thesis by (auto simp: server_inv_def)
qed
lemma Encrypt_udp_packet:
  assumes "session_wf s"
  shows "Encrypt s data = (udp_packet s (us_LocalSeq s + 1) data, s\<lparr>us_LocalSeq := us_LocalSeq s + 1\<rparr>)"
  using assms Encrypt_packet [of s data] by (simp add: session_wf_def udp_packet_def Let_def)

lemma WaitRemoteAddr_bound_session:
  assumes "IsClosed s" "us_RemoteAddr s = None"
  shows "WaitRemoteAddr (2 * 10 ^ 9) now (map (\<lambda>i. (s, now + int i * 10 ^ 7)) [0..<201]) = Some None"
proof -
  have "[0..<201] = 0 # [1..<201]" by (simp add: upt_conv_Cons)
  then show ?thesis
    using assms by (simp add: WaitRemoteAddr_def GetRemoteAddr_def)
qed

lemma xor_keystream_cancel:
  fixes a b k :: bytes
  assumes "length k \<ge> length a"
  shows "map2 (XOR) (map2 (XOR) a k) (map2 (XOR) b k) = map2 (XOR) a b"
  using assms
proof (induction a arbitrary: b k)
  case (Cons x a)
  show ?case
  proof (cases "b = []")
    case False
    then obtain y b' z k' where [simp]: "b = y # b'" "k = z # k'"
      using Cons.prems by (cases b; cases k) auto
    have "(x XOR z) XOR (y XOR z) = x XOR y"
      by (metis xor.assoc xor.commute xor_self_eq xor.right_neutral)
    then show ?thesis using Cons by simp
  qed simp
qed simp

lemma keystream_shift:
  assumes "block_size_16 blk"
  shows "map2 (XOR) (drop 16 src) (drop 16 (ctr_keystream blk iv n)) = map2 (XOR) (drop 16 src) (take (16 * (n - 1)) (ctr_keystream blk (Suc iv) n))"
proof (cases n)
  case (Suc m)
  have "length (blk (be_bytes 16 iv)) = 16"
    using assms by (simp add: block_size_16_def)
  then have "drop 16 (ctr_keystream blk iv n) = ctr_keystream blk (Suc iv) m"
    by (simp add: Suc ctr_keystream_Suc)
  moreover have "take (16 * m) (ctr_keystream blk (Suc iv) n) = ctr_keystream blk (Suc iv) m"
    using length_ctr_keystream [OF assms, of "Suc iv" m] by (simp add: Suc ctr_keystream_def)
  ultimately show ?thesis by (simp add: Suc)
qed (simp add: ctr_keystream_def)

lemma map2_take_right: "length xs \<le> n \<Longrightarrow> map2 f xs (take n ys) = map2 f xs ys"
proof (induction xs arbitrary: n ys)
  case (Cons x xs)
  then show ?case by (cases n; cases ys) auto
qed simp
text \<open>
  C19. What a session encrypts, the server decrypts and hands to the same session, whatever the payload and the
  sequence number: for every open session of the table, the packet built from its key and nonce template (which
  is what \<open>Encrypt\<close> builds with the next sequence number) has 16 bytes more than the payload; processing it puts exactly the
  payload at the end of the session's receive channel (or drops it when 100 are waiting), notes the sequence
  number, binds the sender's address, and touches no other session. Packets that are too short or carry an
  unknown connection id change nothing; no packet makes the handler panic.
\<close>

theorem udp_roundtrip:
  assumes "server_inv sv net" "sv_connId2Session sv (us_ConnId s) = Some r" "un_sessions net ! r = s"
  shows "Encrypt s data = (udp_packet s (us_LocalSeq s + 1) data, s\<lparr>us_LocalSeq := us_LocalSeq s + 1\<rparr>)
    \<and> length (udp_packet s sq data) = 16 + length data
    \<and> (\<exists>s' a. processPacket now addr (udp_packet s sq data) sv net = Done (set_session r s' net)
        \<and> us_RecvChannel s' = (us_RecvChannel s)\<lparr>c_buf := (if length (c_buf (us_RecvChannel s)) < udp_chan_cap
            then c_buf (us_RecvChannel s) @ [data] else c_buf (us_RecvChannel s))\<rparr>
        \<and> us_RemoteSeq s' = sq \<and> us_RemoteAddr s' = Some a \<and> addr_String a = addr_String addr
        \<and> server_inv sv (set_session r s' net))
    \<and> (\<exists>net'. processPacket now addr pkt sv net = Done net' \<and> server_inv sv net')
    \<and> (length pkt < 16 \<or> sv_connId2Session sv (hex_EncodeToString (take 4 (drop 4 pkt))) = None
        \<longrightarrow> processPacket now addr pkt sv net = Done net)"
proof -
  note e = server_inv_entry [OF assms(1,2), unfolded assms(3)]
  note p = udp_packet_parts [OF e(4), of sq data]
  let ?s' = "deliver now addr sq data s"
  have known: "sv_connId2Session sv (hex_EncodeToString (take 4 (drop 4 (udp_packet s sq data)))) = Some r"
    using assms(2) p(2) by simp
  have run: "processPacket now addr (udp_packet s sq data) sv net = Done (set_session r ?s' net)"
    using processPacket_known [OF assms(1) _ known, of now addr] p assms(3) by simp
  have inv: "server_inv sv (set_session r ?s' net)"
    using e assms(3) by (intro server_inv_set_session [OF assms(1)] deliver_wf) auto
  have chan: "us_RecvChannel ?s' = (us_RecvChannel s)\<lparr>c_buf := (if length (c_buf (us_RecvChannel s)) < udp_chan_cap
      then c_buf (us_RecvChannel s) @ [data] else c_buf (us_RecvChannel s))\<rparr>"
    by (simp add: deliver_def Let_def)
  obtain a where addr: "us_RemoteAddr ?s' = Some a" "addr_String a = addr_String addr"
    using rebind_addr_bound [of addr "s\<lparr>us_LastActive := now, us_RemoteSeq := sq\<rparr>"]
    by (auto simp: deliver_RemoteAddr)
  show ?thesis
    using Encrypt_udp_packet [OF e(4)] p(1) run inv chan addr processPacket_inv [OF assms(1)]
      processPacket_unknown [of pkt sv now addr net] by auto
qed

definition example_session :: udp_session where
  "example_session = new_udp_session 0 (lit ''id'') (lit ''SN-1'') [] (replicate 16 7) (\<lambda>b. rev b) [1, 2, 3, 4]"

definition example_net :: udp_net where
  "example_net = \<lparr>un_sessions = [example_session], un_rand = [], un_wire = []\<rparr>"

definition example_server :: udp_server where
  "example_server = (NewUDPServer 8990 [] 8990)\<lparr>sv_conn := True, sv_connId2Session := [us_ConnId example_session \<mapsto> 0]\<rparr>"

lemma example_inv: "server_inv example_server example_net"
proof -
  have "session_wf example_session"
    unfolding example_session_def by (rule new_udp_session_wf) (simp_all add: block_size_16_def)
  then show ?thesis
    by (simp add: server_inv_def example_server_def example_net_def example_session_def)
qed

theorem udp_roundtrip_witness:
  "\<exists>s' a. processPacket 5 \<lparr>ua_host = lit ''10.0.0.2'', ua_port = 4000\<rparr> (udp_packet example_session 9 [104, 105])
      example_server example_net = Done (set_session 0 s' example_net)
    \<and> c_buf (us_RecvChannel s') = [[104, 105]] \<and> us_RemoteSeq s' = 9 \<and> us_RemoteAddr s' = Some a"
proof -
  have reg: "sv_connId2Session example_server (us_ConnId example_session) = Some 0" "un_sessions example_net ! 0 = example_session"
    by (simp_all add: example_server_def example_net_def)
  have "c_buf (us_RecvChannel example_session) = []"
    by (simp add: example_session_def new_udp_session_def Let_def)
  then show ?thesis
    using udp_roundtrip [OF example_inv reg, of "[104, 105]" 9 5 "\<lparr>ua_host = lit ''10.0.0.2'', ua_port = 4000\<rparr>" "[]"]
    by (auto simp: udp_chan_cap_def)
qed

text \<open>
  C20. The counter blocks of successive packets overlap. Counter mode takes the packet header, whose last four
  bytes are the sequence number, as its initial counter and adds one per 16 bytes; the next packet of the same
  length starts from the header with the next sequence number, that is, from the second counter of this one. So
  the two packets use the same key stream shifted by a block, and the XOR of their ciphertexts is the XOR of
  their plaintexts: whoever sees both, and knows one plaintext, reads the other from the second block on.
\<close>

theorem keystream_reuse:
  assumes "session_wf s" "us_LocalSeq s + 2 \<noteq> 0" "length d1 = length d2"
    and "Encrypt s d1 = (p1, s1)" "Encrypt s1 d2 = (p2, s2)"
  shows "map2 (XOR) (drop 32 p1) (drop 16 p2) = map2 (XOR) (drop 16 d1) d2"
proof -
  let ?sq = "us_LocalSeq s + 1"
  let ?h1 = "packet_header (us_Nonce s) (length d1) ?sq" and ?h2 = "packet_header (us_Nonce s) (length d1) (?sq + 1)"
  let ?n = "(length d1 + 15) div 16"
  have wf: "length (us_Nonce s) = 8" "block_size_16 (us_Block s)"
    using assms(1) by (simp_all add: session_wf_def)
  have s1: "s1 = s\<lparr>us_LocalSeq := ?sq\<rparr>" and p1: "p1 = ?h1 @ XORKeyStream (us_Block s) ?h1 d1"
    using assms(4) Encrypt_udp_packet [OF assms(1), of d1] by (auto simp: udp_packet_def Let_def)
  have p2: "p2 = ?h2 @ XORKeyStream (us_Block s) ?h2 d2"
    using assms(5) Encrypt_udp_packet [of s1 d2] assms(1,3) s1 by (auto simp: udp_packet_def Let_def)
  have "?sq + 1 \<noteq> 0"
    using assms(2) by (simp add: add.assoc)
  then have ctr: "be_nat ?h2 = Suc (be_nat ?h1)"
    using packet_header_counter wf(1) by blast
  let ?K = "ctr_keystream (us_Block s) (be_nat ?h2) ?n"
  have short: "length (drop 16 d1) \<le> 16 * (?n - 1)" by simp
  have "drop 32 p1 = map2 (XOR) (drop 16 d1) (drop 16 (ctr_keystream (us_Block s) (be_nat ?h1) ?n))"
    using wf p1 by (simp add: XORKeyStream_def drop_map drop_zip)
  then have c1: "drop 32 p1 = map2 (XOR) (drop 16 d1) ?K"
    unfolding keystream_shift [OF wf(2)] ctr [symmetric] map2_take_right [OF short] .
  have c2: "drop 16 p2 = map2 (XOR) d2 ?K"
    using wf p2 assms(3) by (simp add: XORKeyStream_def)
  have "length (drop 16 d1) \<le> length ?K"
    using length_ctr_keystream [OF wf(2), of "be_nat ?h2" ?n] by simp
  then show ?thesis
    unfolding c1 c2 by (rule xor_keystream_cancel)
qed

theorem keystream_reuse_witness:
  "(let (p1, s1) = Encrypt example_session (replicate 20 7); (p2, s2) = Encrypt s1 (replicate 20 8)
    in map2 (XOR) (drop 32 p1) (drop 16 p2)) = [15, 15, 15, 15]"
proof -
  obtain p1 s1 where e1: "Encrypt example_session (replicate 20 7) = (p1, s1)" by fastforce
  obtain p2 s2 where e2: "Encrypt s1 (replicate 20 8) = (p2, s2)" by fastforce
  have wf: "session_wf example_session"
    using server_inv_wf [OF example_inv, of 0] by (simp add: example_net_def)
  have "us_LocalSeq example_session + 2 \<noteq> 0"
    by (simp add: example_session_def new_udp_session_def Let_def)
  then have "map2 (XOR) (drop 32 p1) (drop 16 p2) = map2 (XOR) (drop 16 (replicate 20 7)) (replicate 20 (8::byte))"
    using e1 e2 by (intro keystream_reuse [OF wf]) simp_all
  then show ?thesis
    using e1 e2 by (simp add: numeral_eq_Suc)
qed

text \<open>
  A sender goroutine that finds a packet on the send channel of a closed session never gets past it. Closing
  clears the address and closes the channel, so \<open>WaitRemoteAddr\<close> gives up at once and \<open>DrainPendingAudio\<close> is called
  on a closed channel, where a receive always succeeds and the \<open>default\<close> that ends its loop is never taken. On a session that
  is still open, draining empties the channel and returns how much was pending.
\<close>

theorem sender_spins_after_close:
  assumes "server_inv sv net" "r < length (un_sessions net)" "c_buf (us_SendChannel (un_sessions net ! r)) = d # ds"
  shows "(\<exists>sv' net'. CloseSessionByRef (Some r) sv net = Done (sv', net') \<and> sender_round net_ok now r sv' net' = None)
    \<and> (\<not> IsClosed (un_sessions net ! r) \<longrightarrow>
         (\<exists>net'. sender_deliver net_ok r d None sv (snd (sender_take r net)) = Some (SenderDropped (1 + length ds), net')
           \<and> c_buf (us_SendChannel (un_sessions net' ! r)) = []))"
proof (intro conjI impI)
  obtain s where c: "CloseSessionByRef (Some r) sv net =
      Done (sv\<lparr>sv_connId2Session := (sv_connId2Session sv)(us_ConnId (un_sessions net ! r) := None)\<rparr>, set_session r s net)"
    and s: "IsClosed s" "us_RemoteAddr s = None" "c_buf (us_SendChannel s) = d # ds" "c_closed (us_SendChannel s)"
    using CloseSessionByRef_effect [OF assms(1,2)] assms(3) by auto
  let ?c = "(us_SendChannel s)\<lparr>c_buf := ds\<rparr>" and ?s1 = "s\<lparr>us_SendChannel := (us_SendChannel s)\<lparr>c_buf := ds\<rparr>\<rparr>"
  have take: "sender_take r (set_session r s net) = (Inr d, set_session r ?s1 (set_session r s net))"
    using s(3) assms(2) by (simp add: sender_take_def chan_recv_def)
  have wait: "WaitRemoteAddr (2 * 10 ^ 9) now (map (\<lambda>i. (?s1, now + int i * 10 ^ 7)) [0..<201]) = Some None"
    using s by (intro WaitRemoteAddr_bound_session) simp_all
  have "sender_round net_ok now r sv' (set_session r s net) = None" for sv'
    using take wait Drain_closed [of ?c 0] s(4) assms(2)
    by (simp add: sender_round_def sender_deliver_def Let_def)
  with c show "\<exists>sv' net'. CloseSessionByRef (Some r) sv net = Done (sv', net') \<and> sender_round net_ok now r sv' net' = None"
    by blast
next
  let ?s = "un_sessions net ! r"
  assume "\<not> IsClosed ?s"
  then have "us_SendChannel ?s = \<lparr>c_buf = d # ds, c_closed = False\<rparr>"
    using server_inv_wf [OF assms(1,2)] assms(3) by (simp add: session_wf_def)
  then show "\<exists>net'. sender_deliver net_ok r d None sv (snd (sender_take r net)) = Some (SenderDropped (1 + length ds), net')
      \<and> c_buf (us_SendChannel (un_sessions net' ! r)) = []"
    using assms(2) Drain_open [of ds 0] by (simp add: sender_take_def sender_deliver_def Let_def)
qed

definition example_pending :: udp_net where
  "example_pending = set_session 0 (example_session\<lparr>us_SendChannel := \<lparr>c_buf = [[1], [2]], c_closed = False\<rparr>\<rparr>) example_net"

theorem sender_spins_after_close_witness:
  "\<exists>sv' net'. CloseSessionByRef (Some 0) example_server example_pending = Done (sv', net')
     \<and> sender_round True 0 0 sv' net' = None"
proof -
  have wf: "session_wf example_session"
    using server_inv_wf [OF example_inv, of 0] by (simp add: example_net_def)
  have "server_inv example_server example_pending"
    unfolding example_pending_def using wf
    by (intro server_inv_set_session [OF example_inv]) (simp_all add: example_net_def session_wf_def udp_chan_cap_def example_session_def)
  then show ?thesis
    using sender_spins_after_close [of example_server example_pending 0 "[1]" "[[2]]" True 0]
    by (simp add: example_pending_def example_net_def)
qed

end
