(* ===== verification/MqttUdpAdapter.thy ===== *)
theory MqttUdpAdapter
  imports UdpServer
begin

text \<open>
  The MQTT-UDP transport (\<open>mqtt_udp_conn.go\<close>, \<open>mqtt_udp_adapter.go\<close>): one connection object per device, the
  device's online state as the broker reports it, the delayed cleanup of devices that went offline, and the rotation
  of a device's UDP session when it says hello again.

  UDP servers, sessions and connections are objects, referred to by their index in the lists of \<open>mqtt_world\<close>;
  the MQTT client is a number. The message loop, a cleanup timer, the periodic idle check and calls from
  the chat sessions each run one handler to its end. \<open>w_armed\<close> lists every cleanup that was ever scheduled: a
  timer that is stopped may already have fired, so any of them may still run. \<open>w_log\<close> records the calls of the
  adapter's callbacks. The clock (in nanoseconds) is an argument.
\<close>

subsection \<open>Connections\<close>

definition MaxIdleDuration :: int where "MaxIdleDuration = 300"

definition cmd_chan_cap :: nat where "cmd_chan_cap = 100"

datatype close_cb = AdapterDisconnect | SessionClosed

record mqtt_conn =
  mc_cancelled :: bool
  mc_DeviceId :: gotext
  mc_PubTopic :: gotext
  mc_MqttClient :: "nat option"
  mc_udpServer :: "nat option"
  mc_UdpSession :: "nat option"
  mc_recvCmdChan :: "bytes gochan"
  mc_data :: "string \<rightharpoonup> gotext"
  mc_onCloseCbList :: "close_cb list"
  mc_lastActiveTs :: int
  mc_retainedUntilTs :: int
  mc_brokerOnline :: bool

definition unix_sec :: "instant \<Rightarrow> int" where "unix_sec now = now div 10 ^ 9"
definition unix_milli :: "instant \<Rightarrow> int" where "unix_milli now = now div 10 ^ 6"

definition NewMqttUdpConn :: "instant \<Rightarrow> gotext \<Rightarrow> gotext \<Rightarrow> nat option \<Rightarrow> nat option \<Rightarrow> nat option \<Rightarrow> mqtt_conn" where
  "NewMqttUdpConn now deviceID pubTopic mqttClient udpServer udpSession =
     \<lparr>mc_cancelled = False, mc_DeviceId = deviceID, mc_PubTopic = pubTopic, mc_MqttClient = mqttClient,
      mc_udpServer = udpServer, mc_UdpSession = udpSession,
      mc_recvCmdChan = \<lparr>c_buf = [], c_closed = False\<rparr>, mc_data = Map.empty, mc_onCloseCbList = [],
      mc_lastActiveTs = unix_sec now, mc_retainedUntilTs = 0, mc_brokerOnline = False\<rparr>"

datatype conn_error = MqttClientIsNil | PublishFailed | RecvCmdChanFull | SendAudioChanFull | CtxDone | KeyNotFound
  | UdpChannel udp_error

text \<open>\<open>SendCmd\<close>: the broker's verdict on the publication is an argument; what is published goes to the log.\<close>

definition SendCmd :: "instant \<Rightarrow> bool \<Rightarrow> bytes \<Rightarrow> mqtt_conn \<Rightarrow> (conn_error + (gotext \<times> bytes)) \<times> mqtt_conn" where
  "SendCmd now published msg c =
     (let c1 = c\<lparr>mc_lastActiveTs := unix_sec now\<rparr>
      in case mc_MqttClient c1 of
           None \<Rightarrow> (Inl MqttClientIsNil, c1)
         | Some _ \<Rightarrow> if published then (Inr (mc_PubTopic c1, msg), c1) else (Inl PublishFailed, c1))"

definition PushMsgToRecvCmd :: "instant \<Rightarrow> bytes \<Rightarrow> mqtt_conn \<Rightarrow> ((conn_error + unit) \<times> mqtt_conn) run" where
  "PushMsgToRecvCmd now msg c =
     (case chan_send cmd_chan_cap (mc_recvCmdChan c) msg of
        Sent ch \<Rightarrow> Done (Inr (), c\<lparr>mc_recvCmdChan := ch, mc_lastActiveTs := unix_sec now\<rparr>)
      | SendBlocks \<Rightarrow> Done (Inl RecvCmdChanFull, c)
      | SendPanics \<Rightarrow> Panic)"

datatype recv_choice = ByCtx | ByChan | ByTimer

text \<open>\<open>RecvCmd\<close>; \<open>None\<close> while no alternative of the \<open>select\<close> is ready.\<close>

definition RecvCmd :: "recv_choice \<Rightarrow> mqtt_conn \<Rightarrow> ((conn_error + bytes option) \<times> mqtt_conn) option" where
  "RecvCmd ch c =
     (case ch of
        ByCtx \<Rightarrow> Some (Inl CtxDone, c)
      | ByTimer \<Rightarrow> Some (Inr None, c)
      | ByChan \<Rightarrow>
          (case chan_recv (mc_recvCmdChan c) of
             Received m q \<Rightarrow> Some (Inr (Some m), c\<lparr>mc_recvCmdChan := q\<rparr>)
           | RecvClosed \<Rightarrow> Some (Inr None, c)
           | RecvBlocks \<Rightarrow> None))"

definition GetUdpSession :: "mqtt_conn \<Rightarrow> nat option" where
  "GetUdpSession c = mc_UdpSession c"

definition SetUdpSession :: "nat option \<Rightarrow> mqtt_conn \<Rightarrow> mqtt_conn" where
  "SetUdpSession s c = c\<lparr>mc_UdpSession := s\<rparr>"

definition conn_SetMqttClient :: "nat option \<Rightarrow> mqtt_conn \<Rightarrow> mqtt_conn" where
  "conn_SetMqttClient cl c = c\<lparr>mc_MqttClient := cl\<rparr>"

definition OnClose :: "close_cb \<Rightarrow> mqtt_conn \<Rightarrow> mqtt_conn" where
  "OnClose cb c = c\<lparr>mc_onCloseCbList := mc_onCloseCbList c @ [cb]\<rparr>"

definition SetData :: "string \<Rightarrow> gotext \<Rightarrow> mqtt_conn \<Rightarrow> mqtt_conn" where
  "SetData key v c = c\<lparr>mc_data := (mc_data c)(key \<mapsto> v)\<rparr>"

definition GetData :: "string \<Rightarrow> mqtt_conn \<Rightarrow> conn_error + gotext" where
  "GetData key c = (case mc_data c key of None \<Rightarrow> Inl KeyNotFound | Some v \<Rightarrow> Inr v)"

definition SendAudio :: "bytes \<Rightarrow> mqtt_conn \<Rightarrow> udp_net \<Rightarrow> ((conn_error + unit) \<times> udp_net) run" where
  "SendAudio audio c net =
     (case GetUdpSession c of
        None \<Rightarrow> Done (Inr (), net)
      | Some r \<Rightarrow>
          run_bind (SendAudioData (un_sessions net ! r) audio) (\<lambda>(res, s).
            let net1 = set_session r s net in
            case res of
              Inl e \<Rightarrow> Done (Inl (UdpChannel e), net1)
            | Inr ok \<Rightarrow> if \<not> ok then (if IsClosed s then Done (Inr (), net1) else Done (Inl SendAudioChanFull, net1))
                       else Done (Inr (), net1)))"

text \<open>\<open>RecvAudio\<close>; \<open>None\<close> while it waits.\<close>

definition RecvAudio :: "instant \<Rightarrow> recv_choice \<Rightarrow> mqtt_conn \<Rightarrow> udp_net \<Rightarrow> ((conn_error + bytes option) \<times> mqtt_conn \<times> udp_net) option" where
  "RecvAudio now ch c net =
     (case GetUdpSession c of
        None \<Rightarrow> (case ch of ByCtx \<Rightarrow> Some (Inl CtxDone, c, net) | ByTimer \<Rightarrow> Some (Inr None, c, net) | ByChan \<Rightarrow> None)
      | Some r \<Rightarrow>
          (case ch of
             ByCtx \<Rightarrow> Some (Inl CtxDone, c, net)
           | ByTimer \<Rightarrow> Some (Inr None, c, net)
           | ByChan \<Rightarrow>
               (case chan_recv (us_RecvChannel (un_sessions net ! r)) of
                  Received a q \<Rightarrow> Some (Inr (Some a), c\<lparr>mc_lastActiveTs := unix_sec now\<rparr>,
                    set_session r ((un_sessions net ! r)\<lparr>us_RecvChannel := q\<rparr>) net)
                | RecvClosed \<Rightarrow> Some (Inr None, c, net)
                | RecvBlocks \<Rightarrow> None)))"

definition IsActive :: "instant \<Rightarrow> mqtt_conn \<Rightarrow> bool" where
  "IsActive now c \<longleftrightarrow>
     (if mc_brokerOnline c then True
      else if mc_retainedUntilTs c > 0 \<and> now < mc_retainedUntilTs c then True
      else if mc_retainedUntilTs c > 0 then False
      else unix_sec now - mc_lastActiveTs c < MaxIdleDuration)"

definition MarkBrokerOnline :: "instant \<Rightarrow> mqtt_conn \<Rightarrow> mqtt_conn" where
  "MarkBrokerOnline now c = c\<lparr>mc_brokerOnline := True, mc_retainedUntilTs := 0, mc_lastActiveTs := unix_sec now\<rparr>"

definition MarkBrokerOffline :: "instant \<Rightarrow> int \<Rightarrow> mqtt_conn \<Rightarrow> mqtt_conn" where
  "MarkBrokerOffline now gracePeriod c = c\<lparr>mc_brokerOnline := False, mc_retainedUntilTs := now + gracePeriod\<rparr>"

definition IsBrokerOnline :: "mqtt_conn \<Rightarrow> bool" where
  "IsBrokerOnline c = mc_brokerOnline c"

subsection \<open>The adapter\<close>

record lifecycle_state =
  lc_brokerOnline :: bool
  lc_lastEventTs :: int
  lc_cleanupTimer :: "64 word option"
  lc_cleanupVersion :: "64 word"

datatype adapter_event = DeviceOnline gotext | DeviceOffline gotext | TransportReady gotext | NewConnection nat | ConnClosed gotext

record mqtt_config =
  cfg_Broker :: gotext
  cfg_Type :: gotext
  cfg_Port :: int
  cfg_ClientID :: gotext
  cfg_Username :: gotext
  cfg_Password :: gotext

record adapter_callbacks =
  cb_onNewConnection :: bool
  cb_onDeviceOnline :: bool
  cb_onDeviceOffline :: bool
  cb_onTransportReady :: bool

record mqtt_world =
  w_net :: udp_net
  w_servers :: "udp_server list"
  w_conns :: "mqtt_conn list"
  w_mqttConfig :: "mqtt_config option"
  w_client :: "nat option"
  w_udpServer :: "nat option"
  w_deviceId2Conn :: "gotext \<rightharpoonup> nat"
  w_lifecycle :: "gotext \<rightharpoonup> lifecycle_state"
  w_msgChan :: "(gotext \<times> bytes) gochan"
  w_cbs :: adapter_callbacks
  w_grace :: int
  w_stopped :: bool
  w_armed :: "(gotext \<times> 64 word) list"
  w_log :: "adapter_event list"

definition defaultOfflineGracePeriod :: int where
  "defaultOfflineGracePeriod = 2 * 60 * 10 ^ 9"

definition msg_chan_cap :: nat where "msg_chan_cap = 10000"

definition NewMqttUdpAdapter :: "mqtt_config option \<Rightarrow> adapter_callbacks \<Rightarrow> nat option \<Rightarrow> int option \<Rightarrow> udp_server list \<Rightarrow> udp_net \<Rightarrow> mqtt_world" where
  "NewMqttUdpAdapter config cbs udpServer grace servers net =
     \<lparr>w_net = net, w_servers = servers, w_conns = [], w_mqttConfig = config, w_client = None, w_udpServer = udpServer,
      w_deviceId2Conn = Map.empty, w_lifecycle = Map.empty, w_msgChan = \<lparr>c_buf = [], c_closed = False\<rparr>,
      w_cbs = cbs, w_grace = (case grace of None \<Rightarrow> defaultOfflineGracePeriod | Some g \<Rightarrow> g),
      w_stopped = False, w_armed = [], w_log = []\<rparr>"

abbreviation conn_at :: "mqtt_world \<Rightarrow> nat \<Rightarrow> mqtt_conn" where
  "conn_at w c \<equiv> w_conns w ! c"

definition upd_conn :: "nat \<Rightarrow> (mqtt_conn \<Rightarrow> mqtt_conn) \<Rightarrow> mqtt_world \<Rightarrow> mqtt_world" where
  "upd_conn c f w = w\<lparr>w_conns := (w_conns w)[c := f (w_conns w ! c)]\<rparr>"

definition notify :: "(adapter_callbacks \<Rightarrow> bool) \<Rightarrow> adapter_event \<Rightarrow> mqtt_world \<Rightarrow> mqtt_world" where
  "notify cb e w = (if cb (w_cbs w) then w\<lparr>w_log := w_log w @ [e]\<rparr> else w)"

text \<open>\<open>Range\<close> of a \<open>sync.Map\<close> visits the keys in the order \<open>ks\<close>, here and below.\<close>

fun updateSessionsClient :: "gotext list \<Rightarrow> nat option \<Rightarrow> mqtt_world \<Rightarrow> mqtt_world" where
  "updateSessionsClient [] client w = w"
| "updateSessionsClient (k # ks) client w =
     updateSessionsClient ks client (case w_deviceId2Conn w k of
       None \<Rightarrow> w
     | Some c \<Rightarrow> upd_conn c (conn_SetMqttClient client) w)"

definition setClient :: "gotext list \<Rightarrow> nat option \<Rightarrow> mqtt_world \<Rightarrow> mqtt_world" where
  "setClient ks client w = updateSessionsClient ks client (w\<lparr>w_client := client\<rparr>)"

text \<open>
  \<open>connectAndRetry\<close>: a new client per attempt, which becomes the adapter's client whether or not it connects; the
  argument lists the clients and the outcomes of their attempts, the last one still under way when it ends.
\<close>

fun connectAndRetry :: "(nat \<times> bool \<times> gotext list) list \<Rightarrow> mqtt_world \<Rightarrow> mqtt_world" where
  "connectAndRetry [] w = w"
| "connectAndRetry ((client, connected, ks) # attempts) w =
     (if w_mqttConfig w = None then w
      else if w_stopped w then w
      else let w1 = setClient ks (Some client) w
           in if connected then w1 else connectAndRetry attempts w1)"

definition setUdpServer :: "nat option \<Rightarrow> mqtt_world \<Rightarrow> mqtt_world" where
  "setUdpServer sv w = w\<lparr>w_udpServer := sv\<rparr>"

definition SetDeviceSession :: "gotext \<Rightarrow> nat \<Rightarrow> mqtt_world \<Rightarrow> mqtt_world" where
  "SetDeviceSession d c w = w\<lparr>w_deviceId2Conn := (w_deviceId2Conn w)(d \<mapsto> c)\<rparr>"

definition getDeviceSession :: "mqtt_world \<Rightarrow> gotext \<Rightarrow> nat option" where
  "getDeviceSession w d = w_deviceId2Conn w d"

definition getLifecycleState :: "mqtt_world \<Rightarrow> gotext \<Rightarrow> lifecycle_state option" where
  "getLifecycleState w d = (if d = [] then None else w_lifecycle w d)"

definition new_lifecycle_state :: lifecycle_state where
  "new_lifecycle_state = \<lparr>lc_brokerOnline = False, lc_lastEventTs = 0, lc_cleanupTimer = None, lc_cleanupVersion = 0\<rparr>"

definition getOrCreateLifecycleState :: "mqtt_world \<Rightarrow> gotext \<Rightarrow> lifecycle_state option" where
  "getOrCreateLifecycleState w d =
     (if d = [] then None
      else case getLifecycleState w d of Some st \<Rightarrow> Some st | None \<Rightarrow> Some new_lifecycle_state)"

definition set_lifecycle :: "gotext \<Rightarrow> lifecycle_state option \<Rightarrow> mqtt_world \<Rightarrow> mqtt_world" where
  "set_lifecycle d st w = w\<lparr>w_lifecycle := (w_lifecycle w)(d := st)\<rparr>"

subsection \<open>Closing connections\<close>

text \<open>\<open>CloseSessionByRef\<close> of server \<open>i\<close>, on the world.\<close>

definition world_CloseSession :: "nat \<Rightarrow> nat option \<Rightarrow> mqtt_world \<Rightarrow> mqtt_world run" where
  "world_CloseSession i session w =
     run_bind (CloseSessionByRef session (w_servers w ! i) (w_net w)) (\<lambda>(sv, net).
       Done (w\<lparr>w_servers := (w_servers w)[i := sv], w_net := net\<rparr>))"

definition ReleaseUdpSession :: "nat \<Rightarrow> mqtt_world \<Rightarrow> mqtt_world run" where
  "ReleaseUdpSession c w =
     (let udpSession = mc_UdpSession (conn_at w c);
          w1 = upd_conn c (SetUdpSession None) w
      in case udpSession of
           None \<Rightarrow> Done w1
         | Some r \<Rightarrow>
             (case mc_udpServer (conn_at w c) of
                Some i \<Rightarrow> world_CloseSession i (Some r) w1
              | None \<Rightarrow> run_bind (us_Destroy (un_sessions (w_net w1) ! r)) (\<lambda>s. Done (w1\<lparr>w_net := set_session r s (w_net w1)\<rparr>))))"

definition disconnect_lifecycle :: "gotext \<Rightarrow> mqtt_world \<Rightarrow> bool \<times> mqtt_world" where
  "disconnect_lifecycle d w =
     (case getLifecycleState w d of
        None \<Rightarrow> (False, w)
      | Some st \<Rightarrow>
          let st1 = (if lc_brokerOnline st
                     then st\<lparr>lc_brokerOnline := False, lc_cleanupVersion := lc_cleanupVersion st + 1, lc_cleanupTimer := None\<rparr>
                     else st)
          in (lc_brokerOnline st,
              if \<not> lc_brokerOnline st1 \<and> lc_cleanupTimer st1 = None
              then set_lifecycle d None w else set_lifecycle d (Some st1) w))"

definition handleDisconnect :: "gotext \<Rightarrow> nat option \<Rightarrow> mqtt_world \<Rightarrow> mqtt_world run" where
  "handleDisconnect d closingConn w =
     (let conn = getDeviceSession w d in
      if closingConn \<noteq> None \<and> conn \<noteq> None \<and> conn \<noteq> closingConn then Done w
      else let (notifyOffline, w1) = disconnect_lifecycle d w;
               tell = (\<lambda>w. if notifyOffline then notify cb_onDeviceOffline (DeviceOffline d) w else w)
           in case conn of
                None \<Rightarrow> Done (tell w1)
              | Some c \<Rightarrow>
                  run_bind (ReleaseUdpSession c w1) (\<lambda>w2.
                    Done (tell (w2\<lparr>w_deviceId2Conn := (w_deviceId2Conn w2)(d := None)\<rparr>))))"

fun run_close_cbs :: "nat \<Rightarrow> gotext \<Rightarrow> close_cb list \<Rightarrow> mqtt_world \<Rightarrow> mqtt_world run" where
  "run_close_cbs c d [] w = Done w"
| "run_close_cbs c d (AdapterDisconnect # cbs) w = run_bind (handleDisconnect d (Some c) w) (run_close_cbs c d cbs)"
| "run_close_cbs c d (SessionClosed # cbs) w = run_close_cbs c d cbs (w\<lparr>w_log := w_log w @ [ConnClosed d]\<rparr>)"

definition conn_Destroy :: "nat \<Rightarrow> mqtt_world \<Rightarrow> mqtt_world run" where
  "conn_Destroy c w =
     (let w1 = upd_conn c (\<lambda>x. x\<lparr>mc_brokerOnline := False, mc_retainedUntilTs := 0, mc_cancelled := True\<rparr>) w
      in run_close_cbs c (mc_DeviceId (conn_at w1 c)) (mc_onCloseCbList (conn_at w1 c)) w1)"

definition conn_Close :: "nat \<Rightarrow> mqtt_world \<Rightarrow> mqtt_world run" where
  "conn_Close c w = conn_Destroy c w"

definition CloseAudioChannel :: "nat \<Rightarrow> mqtt_world \<Rightarrow> mqtt_world run" where
  "CloseAudioChannel c w = ReleaseUdpSession c w"

fun clearDeviceSessions :: "gotext list \<Rightarrow> mqtt_world \<Rightarrow> mqtt_world run" where
  "clearDeviceSessions [] w = Done w"
| "clearDeviceSessions (k # ks) w =
     (case w_deviceId2Conn w k of
        None \<Rightarrow> clearDeviceSessions ks w
      | Some c \<Rightarrow> run_bind (conn_Destroy c w) (\<lambda>w1.
          clearDeviceSessions ks (w1\<lparr>w_deviceId2Conn := (w_deviceId2Conn w1)(k := None)\<rparr>)))"

definition clearLifecycleStates :: "mqtt_world \<Rightarrow> mqtt_world" where
  "clearLifecycleStates w = w\<lparr>w_lifecycle := Map.empty\<rparr>"

fun checkClientActive :: "instant \<Rightarrow> gotext list \<Rightarrow> mqtt_world \<Rightarrow> mqtt_world run" where
  "checkClientActive now [] w = Done w"
| "checkClientActive now (k # ks) w =
     (case w_deviceId2Conn w k of
        None \<Rightarrow> checkClientActive now ks w
      | Some c \<Rightarrow> if \<not> IsActive now (conn_at w c)
                  then run_bind (conn_Destroy c w) (checkClientActive now ks)
                  else checkClientActive now ks w)"
subsection \<open>Sessions for devices\<close>

datatype adapter_error = UdpServerIsNil | UdpSessionIsNil | AdapterClientIsNil | DeviceSessionIsNil

definition createUdpSession ::
  "(bytes \<Rightarrow> block_cipher) \<Rightarrow> instant \<Rightarrow> gotext \<Rightarrow> mqtt_world \<Rightarrow> (adapter_error + nat \<times> nat) \<times> mqtt_world" where
  "createUdpSession aes now d w =
     (case w_udpServer w of
        None \<Rightarrow> (Inl UdpServerIsNil, w)
      | Some i \<Rightarrow>
          (case CreateSession aes now d [] (w_servers w ! i) (w_net w) of
             (ref, sv, net) \<Rightarrow>
               let w1 = w\<lparr>w_servers := (w_servers w)[i := sv], w_net := net\<rparr>
               in case ref of None \<Rightarrow> (Inl UdpSessionIsNil, w1) | Some r \<Rightarrow> (Inr (i, r), w1)))"

definition bindUdpSessionData :: "nat \<Rightarrow> nat \<Rightarrow> mqtt_world \<Rightarrow> mqtt_world" where
  "bindUdpSessionData c r w =
     (case GetAesKeyAndNonce (un_sessions (w_net w) ! r) of
        (strAesKey, strFullNonce) \<Rightarrow>
          upd_conn c (\<lambda>x. SetData ''full_nonce'' strFullNonce (SetData ''aes_key'' strAesKey (SetUdpSession (Some r) x))) w)"

definition rotateDeviceUdpSession ::
  "(bytes \<Rightarrow> block_cipher) \<Rightarrow> instant \<Rightarrow> nat option \<Rightarrow> gotext \<Rightarrow> mqtt_world \<Rightarrow> ((adapter_error + nat) \<times> mqtt_world) run" where
  "rotateDeviceUdpSession aes now deviceSession d w =
     (case deviceSession of
        None \<Rightarrow> Done (Inl DeviceSessionIsNil, w)
      | Some c \<Rightarrow>
          (case createUdpSession aes now d w of
             (Inl e, w1) \<Rightarrow> Done (Inl e, w1)
           | (Inr (i, r), w1) \<Rightarrow>
               let oldSession = GetUdpSession (conn_at w1 c);
                   w2 = bindUdpSessionData c r w1
               in case oldSession of
                    None \<Rightarrow> Done (Inr r, w2)
                  | Some r0 \<Rightarrow> run_bind (world_CloseSession i (Some r0) w2) (\<lambda>w3. Done (Inr r, w3))))"

definition ServerPubTopicPrefix :: gotext where "ServerPubTopicPrefix = lit ''/p2p/device_sub/''"

definition EnsureDeviceTransport ::
  "(bytes \<Rightarrow> block_cipher) \<Rightarrow> instant \<Rightarrow> gotext \<Rightarrow> mqtt_world \<Rightarrow> ((adapter_error + nat) \<times> mqtt_world) run" where
  "EnsureDeviceTransport aes now d w =
     (case getDeviceSession w d of
        Some c \<Rightarrow> Done (Inr c, upd_conn c (MarkBrokerOnline now) w)
      | None \<Rightarrow>
          (case createUdpSession aes now d w of
             (Inl e, w1) \<Rightarrow> Done (Inl e, w1)
           | (Inr (i, r), w1) \<Rightarrow>
               let topicDeviceID = replace_rune 58 95 d;
                   publicTopic = ServerPubTopicPrefix @ topicDeviceID
               in case w_client w1 of
                    None \<Rightarrow> run_bind (world_CloseSession i (Some r) w1) (\<lambda>w2. Done (Inl AdapterClientIsNil, w2))
                  | Some cl \<Rightarrow>
                      let c = length (w_conns w1);
                          w2 = w1\<lparr>w_conns := w_conns w1 @ [NewMqttUdpConn now d publicTopic (Some cl) (Some i) (Some r)]\<rparr>;
                          w3 = upd_conn c (MarkBrokerOnline now) (bindUdpSessionData c r w2);
                          w4 = upd_conn c (OnClose AdapterDisconnect) (SetDeviceSession d c w3)
                      in Done (Inr c, notify cb_onNewConnection (NewConnection c) w4)))"

subsection \<open>Online and offline\<close>

definition event_stale :: "lifecycle_state \<Rightarrow> int \<Rightarrow> bool" where
  "event_stale st ts \<longleftrightarrow> lc_lastEventTs st > 0 \<and> ts < lc_lastEventTs st"

definition event_ts :: "instant \<Rightarrow> int \<Rightarrow> int" where
  "event_ts now ts = (if ts \<le> 0 then unix_milli now else ts)"

definition markDeviceOnline :: "instant \<Rightarrow> gotext \<Rightarrow> int \<Rightarrow> mqtt_world \<Rightarrow> (bool \<times> bool) \<times> mqtt_world" where
  "markDeviceOnline now d eventTs w =
     (case getOrCreateLifecycleState w d of
        None \<Rightarrow> ((False, False), w)
      | Some st \<Rightarrow>
          let ts = event_ts now eventTs in
          if event_stale st ts then ((False, False), set_lifecycle d (Some st) w)
          else let st1 = (if ts > lc_lastEventTs st then st\<lparr>lc_lastEventTs := ts\<rparr> else st);
                   st2 = st1\<lparr>lc_brokerOnline := True, lc_cleanupVersion := lc_cleanupVersion st1 + 1, lc_cleanupTimer := None\<rparr>
               in ((\<not> lc_brokerOnline st, True), set_lifecycle d (Some st2) w))"

definition markDeviceOffline :: "instant \<Rightarrow> gotext \<Rightarrow> int \<Rightarrow> mqtt_world \<Rightarrow> (bool \<times> 64 word) \<times> mqtt_world" where
  "markDeviceOffline now d eventTs w =
     (case getOrCreateLifecycleState w d of
        None \<Rightarrow> ((False, 0), w)
      | Some st \<Rightarrow>
          let ts = event_ts now eventTs in
          if event_stale st ts then ((False, 0), set_lifecycle d (Some st) w)
          else let st1 = (if ts > lc_lastEventTs st then st\<lparr>lc_lastEventTs := ts\<rparr> else st);
                   version = lc_cleanupVersion st1 + 1;
                   st2 = st1\<lparr>lc_brokerOnline := False, lc_cleanupVersion := version, lc_cleanupTimer := Some version\<rparr>
               in ((lc_brokerOnline st, version),
                   (set_lifecycle d (Some st2) w)\<lparr>w_armed := w_armed w @ [(d, version)]\<rparr>))"

definition cleanupOfflineTransport :: "gotext \<Rightarrow> 64 word \<Rightarrow> mqtt_world \<Rightarrow> mqtt_world run" where
  "cleanupOfflineTransport d version w =
     (case getLifecycleState w d of
        None \<Rightarrow> Done w
      | Some st \<Rightarrow>
          if lc_brokerOnline st \<or> lc_cleanupVersion st \<noteq> version then Done w
          else let w1 = set_lifecycle d (Some (st\<lparr>lc_cleanupTimer := None\<rparr>)) w
               in case getDeviceSession w1 d of
                    None \<Rightarrow> Done (set_lifecycle d None w1)
                  | Some c \<Rightarrow> conn_Destroy c w1)"

definition promoteDeviceOnline ::
  "(bytes \<Rightarrow> block_cipher) \<Rightarrow> instant \<Rightarrow> gotext \<Rightarrow> int \<Rightarrow> mqtt_world
    \<Rightarrow> ((adapter_error + nat option) \<times> bool \<times> bool \<times> mqtt_world) run" where
  "promoteDeviceOnline aes now d eventTs w =
     (case markDeviceOnline now d eventTs w of
        ((notifyOnline, acceptedOnline), w1) \<Rightarrow>
          if \<not> acceptedOnline then Done (Inr (getDeviceSession w1 d), False, False, w1)
          else run_bind (EnsureDeviceTransport aes now d w1) (\<lambda>(res, w2).
                 case res of
                   Inl e \<Rightarrow> Done (Inl e, notifyOnline, True, w2)
                 | Inr c \<Rightarrow> Done (Inr (Some c), notifyOnline, True, upd_conn c (MarkBrokerOnline now) w2)))"

record lifecycle_event =
  le_Type :: gotext
  le_DeviceID :: gotext
  le_State :: gotext
  le_ClientID :: gotext
  le_Ts :: int

definition MqttLifecycleStateOnline :: gotext where "MqttLifecycleStateOnline = lit ''online''"
definition MqttLifecycleStateOffline :: gotext where "MqttLifecycleStateOffline = lit ''offline''"

definition handleLifecycleMessage ::
  "(bytes \<Rightarrow> block_cipher) \<Rightarrow> (bytes \<Rightarrow> lifecycle_event option) \<Rightarrow> instant \<Rightarrow> bytes \<Rightarrow> mqtt_world \<Rightarrow> mqtt_world run" where
  "handleLifecycleMessage aes unmarshal now payload w =
     (case unmarshal payload of
        None \<Rightarrow> Done w
      | Some ev \<Rightarrow>
          let d = trim_space (le_DeviceID ev) in
          if d = [] then Done w
          else if trim_space (le_State ev) = MqttLifecycleStateOnline then
            run_bind (promoteDeviceOnline aes now d (le_Ts ev) w) (\<lambda>(res, notifyOnline, acceptedOnline, w1).
              case res of
                Inl e \<Rightarrow> Done w1
              | Inr _ \<Rightarrow>
                  if \<not> acceptedOnline then Done w1
                  else let w2 = (if notifyOnline then notify cb_onDeviceOnline (DeviceOnline d) w1 else w1)
                       in Done (notify cb_onTransportReady (TransportReady d) w2))
          else if trim_space (le_State ev) = MqttLifecycleStateOffline then
            (case markDeviceOffline now d (le_Ts ev) w of
               ((notifyOffline, cleanupVersion), w1) \<Rightarrow>
                 if cleanupVersion = 0 then Done w1
                 else let w2 = (case getDeviceSession w1 d of
                                  None \<Rightarrow> w1
                                | Some c \<Rightarrow> upd_conn c (MarkBrokerOffline now (w_grace w1)) w1)
                      in Done (if notifyOffline then notify cb_onDeviceOffline (DeviceOffline d) w2 else w2))
          else Done w)"

subsection \<open>The message loop\<close>

text \<open>
  The topic of a device is \<open>/p2p/device_public/\<close> and its id, or the whole client id with the parts joined by \<open>@@@\<close>.
\<close>

definition getDeviceIdByTopic :: "gotext \<Rightarrow> gotext \<times> gotext" where
  "getDeviceIdByTopic topic =
     (let strList = strings_Split topic (lit ''/'') in
      if length strList = 4 then
        let topicDeviceID = strList ! 3 in
        if strings_Contains topicDeviceID (lit ''@@@'') then
          let parts = strings_Split topicDeviceID (lit ''@@@'')
          in (topicDeviceID, if length parts \<ge> 2 then parts ! 1 else [])
        else (topicDeviceID, topicDeviceID)
      else ([], []))"

definition MDevicePubTopicPrefix :: gotext where "MDevicePubTopicPrefix = lit ''/p2p/device_public/''"
definition MDeviceLifecycleTopic :: gotext where "MDeviceLifecycleTopic = MDevicePubTopicPrefix @ lit ''_server/lifecycle''"

definition handleMessage :: "gotext \<times> bytes \<Rightarrow> mqtt_world \<Rightarrow> mqtt_world run" where
  "handleMessage msg w =
     (case chan_send msg_chan_cap (w_msgChan w) msg of
        Sent c \<Rightarrow> Done (w\<lparr>w_msgChan := c\<rparr>)
      | SendBlocks \<Rightarrow> Done w
      | SendPanics \<Rightarrow> Panic)"

text \<open>
  A message of a device: bring the device online, rotate its UDP session when it says hello again, and queue the
  message. \<open>deviceSession\<close> may be nil at the end, and calling a method that uses its receiver then panics.
\<close>

definition handleClientMessage ::
  "(bytes \<Rightarrow> block_cipher) \<Rightarrow> instant \<Rightarrow> gotext \<Rightarrow> gotext \<Rightarrow> bytes \<Rightarrow> mqtt_world \<Rightarrow> mqtt_world run" where
  "handleClientMessage aes now msgType d payload w =
     (let existingSession = getDeviceSession w d in
      run_bind (promoteDeviceOnline aes now d (unix_milli now) w) (\<lambda>(res, notifyOnline, _, w1).
        case res of
          Inl e \<Rightarrow> Done w1
        | Inr deviceSession \<Rightarrow>
            let w2 = (if notifyOnline then notify cb_onDeviceOnline (DeviceOnline d) w1 else w1);
                w3 = (if notifyOnline then notify cb_onTransportReady (TransportReady d) w2 else w2);
                push = (\<lambda>w4. case deviceSession of
                          None \<Rightarrow> Panic
                        | Some c \<Rightarrow> run_bind (PushMsgToRecvCmd now payload (conn_at w4 c)) (\<lambda>(_, x). Done (upd_conn c (\<lambda>_. x) w4)))
            in if existingSession \<noteq> None \<and> msgType = lit ''hello''
               then run_bind (rotateDeviceUdpSession aes now deviceSession d w3) (\<lambda>(r, w4).
                      case r of Inl _ \<Rightarrow> Done w4 | Inr _ \<Rightarrow> push w4)
               else push w3))"

definition processMessage ::
  "(bytes \<Rightarrow> block_cipher) \<Rightarrow> (bytes \<Rightarrow> lifecycle_event option) \<Rightarrow> (bytes \<Rightarrow> gotext option) \<Rightarrow> instant \<Rightarrow> mqtt_world \<Rightarrow> mqtt_world run" where
  "processMessage aes unmarshalEvent unmarshalType now w =
     (if w_stopped w then Done w
      else case chan_recv (w_msgChan w) of
             RecvBlocks \<Rightarrow> Done w
           | RecvClosed \<Rightarrow> Done w
           | Received (topic, payload) q \<Rightarrow>
               let w1 = w\<lparr>w_msgChan := q\<rparr> in
               if topic = MDeviceLifecycleTopic then handleLifecycleMessage aes unmarshalEvent now payload w1
               else case unmarshalType payload of
                      None \<Rightarrow> Done w1
                    | Some msgType \<Rightarrow>
                        let d = snd (getDeviceIdByTopic topic)
                        in if d = [] then Done w1 else handleClientMessage aes now msgType d payload w1)"

subsection \<open>Stopping and reloading\<close>

definition close_server :: "nat option \<Rightarrow> mqtt_world \<Rightarrow> mqtt_world" where
  "close_server sv w =
     (case sv of None \<Rightarrow> w | Some i \<Rightarrow> w\<lparr>w_servers := (w_servers w)[i := sv_Close (w_servers w ! i)]\<rparr>)"

definition adapter_Stop :: "gotext list \<Rightarrow> mqtt_world \<Rightarrow> mqtt_world run" where
  "adapter_Stop ks w =
     clearDeviceSessions ks (clearLifecycleStates (close_server (w_udpServer w) (w\<lparr>w_stopped := True\<rparr>)))"

text \<open>\<open>ReloadMqttClient\<close>: the new client is set by \<open>connectAndRetry\<close>, which it starts.\<close>

definition ReloadMqttClient :: "gotext list \<Rightarrow> mqtt_config option \<Rightarrow> mqtt_world \<Rightarrow> mqtt_world run" where
  "ReloadMqttClient ks newConfig w =
     (case newConfig of
        None \<Rightarrow> Done w
      | Some _ \<Rightarrow> clearDeviceSessions ks (clearLifecycleStates (w\<lparr>w_mqttConfig := newConfig\<rparr>)))"

definition ReloadUdpServer :: "gotext list \<Rightarrow> nat option \<Rightarrow> mqtt_world \<Rightarrow> mqtt_world run" where
  "ReloadUdpServer ks newUdpServer w =
     (case newUdpServer of
        None \<Rightarrow> Done w
      | Some _ \<Rightarrow>
          let oldUdp = w_udpServer w in
          run_bind (clearDeviceSessions ks (clearLifecycleStates w)) (\<lambda>w1.
            Done (close_server oldUdp (setUdpServer newUdpServer w1))))"

end
