(* ===== verification/AdapterInvariant.thy ===== *)
theory AdapterInvariant
  imports MqttUdpAdapter
begin

text \<open>
  The invariant of the MQTT-UDP transport. A session in a server's table is owned by exactly one connection, the
  one registered for the session's device, and the key material the connection hands out is that of its session;
  a connection that is no longer registered owns nothing. Handlers pass through states in which one session has
  no owner yet or no more, so the invariant is stated up to such an orphan.
\<close>

subsection \<open>Ownership\<close>

definition owns :: "mqtt_world \<Rightarrow> nat \<Rightarrow> nat \<Rightarrow> bool" where
  "owns w c r \<longleftrightarrow> c < length (w_conns w) \<and> mc_UdpSession (conn_at w c) = Some r"

definition in_table :: "mqtt_world \<Rightarrow> nat \<Rightarrow> nat \<Rightarrow> bool" where
  "in_table w i r \<longleftrightarrow> i < length (w_servers w) \<and> (\<exists>k. sv_connId2Session (w_servers w ! i) k = Some r)"

abbreviation session_at :: "mqtt_world \<Rightarrow> nat \<Rightarrow> udp_session" where
  "session_at w r \<equiv> un_sessions (w_net w) ! r"

definition hands_out :: "mqtt_conn \<Rightarrow> udp_session \<Rightarrow> bool" where
  "hands_out c s \<longleftrightarrow> us_DeviceId s = mc_DeviceId c \<and>
     mc_data c ''aes_key'' = Some (fst (GetAesKeyAndNonce s)) \<and> mc_data c ''full_nonce'' = Some (snd (GetAesKeyAndNonce s))"

definition registered :: "mqtt_world \<Rightarrow> nat \<Rightarrow> bool" where
  "registered w c \<longleftrightarrow> w_deviceId2Conn w (mc_DeviceId (conn_at w c)) = Some c"

definition tables_ok :: "mqtt_world \<Rightarrow> bool" where
  "tables_ok w \<longleftrightarrow>
     (\<forall>s \<in> set (un_sessions (w_net w)). session_wf s) \<and>
     (\<forall>i < length (w_servers w). server_inv (w_servers w ! i) (w_net w)) \<and>
     (\<forall>i. w_udpServer w = Some i \<longrightarrow> i < length (w_servers w))"

definition conns_ok :: "mqtt_world \<Rightarrow> bool" where
  "conns_ok w \<longleftrightarrow>
     (\<forall>d c. w_deviceId2Conn w d = Some c \<longrightarrow>
        c < length (w_conns w) \<and> mc_DeviceId (conn_at w c) = d \<and> w_udpServer w \<noteq> None \<and>
        mc_udpServer (conn_at w c) = w_udpServer w \<and> AdapterDisconnect \<in> set (mc_onCloseCbList (conn_at w c))) \<and>
     (\<forall>c \<in> set (w_conns w). \<not> c_closed (mc_recvCmdChan c)) \<and> \<not> c_closed (w_msgChan w)"

definition owners_ok :: "nat option \<Rightarrow> mqtt_world \<Rightarrow> bool" where
  "owners_ok orphan w \<longleftrightarrow>
     (\<forall>c r. owns w c r \<longrightarrow> registered w c \<and> hands_out (conn_at w c) (session_at w r) \<and> orphan \<noteq> Some r \<and>
        (\<exists>i. w_udpServer w = Some i \<and> in_table w i r)) \<and>
     (\<forall>i r. in_table w i r \<longrightarrow> w_udpServer w = Some i \<and> (orphan = Some r \<or> (\<exists>c. owns w c r)))"

definition adapter_inv_but :: "nat option \<Rightarrow> mqtt_world \<Rightarrow> bool" where
  "adapter_inv_but orphan w \<longleftrightarrow> tables_ok w \<and> conns_ok w \<and> owners_ok orphan w"

abbreviation adapter_inv :: "mqtt_world \<Rightarrow> bool" where
  "adapter_inv w \<equiv> adapter_inv_but None w"

lemma adapter_invD:
  assumes "adapter_inv_but orphan w"
  shows "tables_ok w" "conns_ok w" "owners_ok orphan w"
  using assms by (simp_all add: adapter_inv_but_def)

lemma tables_server: "tables_ok w \<Longrightarrow> i < length (w_servers w) \<Longrightarrow> server_inv (w_servers w ! i) (w_net w)"
  by (simp add: tables_ok_def)

lemma in_table_session:
  assumes "tables_ok w" "in_table w i r"
  shows "r < length (un_sessions (w_net w))" "\<not> IsClosed (session_at w r)" "session_wf (session_at w r)"
    "sv_connId2Session (w_servers w ! i) (us_ConnId (session_at w r)) = Some r"
  using assms server_inv_entry [of "w_servers w ! i" "w_net w"] by (auto simp: in_table_def tables_ok_def)

lemma owner_unique:
  assumes "owners_ok orphan w" "owns w c r" "owns w c' r"
  shows "c = c'"
  using assms unfolding owners_ok_def registered_def hands_out_def by (metis option.inject)
subsection \<open>Changes that do not touch ownership\<close>

lemmas adapter_inv_defs = adapter_inv_but_def tables_ok_def conns_ok_def owners_ok_def owns_def in_table_def registered_def

lemma adapter_inv_cong:
  assumes "w_net w' = w_net w" "w_servers w' = w_servers w" "w_conns w' = w_conns w" "w_udpServer w' = w_udpServer w"
    and "w_deviceId2Conn w' = w_deviceId2Conn w" "c_closed (w_msgChan w') = c_closed (w_msgChan w)"
  shows "adapter_inv_but orp w' = adapter_inv_but orp w"
  unfolding adapter_inv_defs assms ..

lemma adapter_inv_frame [simp]:
  "adapter_inv_but orp (w\<lparr>w_client := a\<rparr>) = adapter_inv_but orp w"
  "adapter_inv_but orp (w\<lparr>w_mqttConfig := b\<rparr>) = adapter_inv_but orp w"
  "adapter_inv_but orp (w\<lparr>w_lifecycle := l\<rparr>) = adapter_inv_but orp w"
  "adapter_inv_but orp (w\<lparr>w_stopped := e\<rparr>) = adapter_inv_but orp w"
  "adapter_inv_but orp (w\<lparr>w_armed := f\<rparr>) = adapter_inv_but orp w"
  "adapter_inv_but orp (w\<lparr>w_log := g\<rparr>) = adapter_inv_but orp w"
  by (rule adapter_inv_cong; simp)+

lemma adapter_inv_notify [simp]: "adapter_inv_but orp (notify cb e w) = adapter_inv_but orp w"
  by (simp add: notify_def)

lemma adapter_inv_set_lifecycle [simp]: "adapter_inv_but orp (set_lifecycle d st w) = adapter_inv_but orp w"
  by (simp add: set_lifecycle_def)

lemma adapter_inv_msgChan:
  "adapter_inv_but orp w \<Longrightarrow> c_closed q = c_closed (w_msgChan w) \<Longrightarrow> adapter_inv_but orp (w\<lparr>w_msgChan := q\<rparr>)"
  by (subst adapter_inv_cong [of _ w]) simp_all

definition conn_frame :: "(mqtt_conn \<Rightarrow> mqtt_conn) \<Rightarrow> bool" where
  "conn_frame f \<longleftrightarrow> (\<forall>x. mc_DeviceId (f x) = mc_DeviceId x \<and> mc_udpServer (f x) = mc_udpServer x \<and>
     mc_UdpSession (f x) = mc_UdpSession x \<and> mc_data (f x) = mc_data x \<and>
     (AdapterDisconnect \<in> set (mc_onCloseCbList x) \<longrightarrow> AdapterDisconnect \<in> set (mc_onCloseCbList (f x))) \<and>
     c_closed (mc_recvCmdChan (f x)) = c_closed (mc_recvCmdChan x))"

lemma upd_conn_fields [simp]:
  "w_net (upd_conn c f w) = w_net w" "w_servers (upd_conn c f w) = w_servers w"
  "w_udpServer (upd_conn c f w) = w_udpServer w" "w_deviceId2Conn (upd_conn c f w) = w_deviceId2Conn w"
  "w_msgChan (upd_conn c f w) = w_msgChan w" "length (w_conns (upd_conn c f w)) = length (w_conns w)"
  "w_client (upd_conn c f w) = w_client w" "w_lifecycle (upd_conn c f w) = w_lifecycle w"
  "w_armed (upd_conn c f w) = w_armed w" "w_stopped (upd_conn c f w) = w_stopped w"
  "w_cbs (upd_conn c f w) = w_cbs w" "w_grace (upd_conn c f w) = w_grace w" "w_log (upd_conn c f w) = w_log w"
  by (simp_all add: upd_conn_def)

lemma conn_at_upd_conn:
  "c' < length (w_conns w) \<Longrightarrow> conn_at (upd_conn c f w) c' = (if c' = c then f (conn_at w c) else conn_at w c')"
  by (auto simp: upd_conn_def)

lemma adapter_inv_conns:
  assumes inv: "adapter_inv_but orp w" and len: "length xs = length (w_conns w)"
    and same: "\<And>c. c < length xs \<Longrightarrow> \<exists>f. conn_frame f \<and> xs ! c = f (conn_at w c)"
  shows "adapter_inv_but orp (w\<lparr>w_conns := xs\<rparr>)"
proof -
  let ?w = "w\<lparr>w_conns := xs\<rparr>"
  have f: "mc_DeviceId (xs ! c) = mc_DeviceId (conn_at w c)" "mc_udpServer (xs ! c) = mc_udpServer (conn_at w c)"
    "mc_UdpSession (xs ! c) = mc_UdpSession (conn_at w c)" "mc_data (xs ! c) = mc_data (conn_at w c)"
    "AdapterDisconnect \<in> set (mc_onCloseCbList (conn_at w c)) \<longrightarrow> AdapterDisconnect \<in> set (mc_onCloseCbList (xs ! c))"
    "c_closed (mc_recvCmdChan (xs ! c)) = c_closed (mc_recvCmdChan (conn_at w c))"
    if c: "c < length (w_conns w)" for c
  proof -
    obtain g where "conn_frame g" "xs ! c = g (conn_at w c)"
      using same [of c] c len by auto
    then show "mc_DeviceId (xs ! c) = mc_DeviceId (conn_at w c)" "mc_udpServer (xs ! c) = mc_udpServer (conn_at w c)"
      "mc_UdpSession (xs ! c) = mc_UdpSession (conn_at w c)" "mc_data (xs ! c) = mc_data (conn_at w c)"
      "AdapterDisconnect \<in> set (mc_onCloseCbList (conn_at w c)) \<longrightarrow> AdapterDisconnect \<in> set (mc_onCloseCbList (xs ! c))"
      "c_closed (mc_recvCmdChan (xs ! c)) = c_closed (mc_recvCmdChan (conn_at w c))"
      by (simp_all add: conn_frame_def)
  qed
  have own: "owns ?w c r = owns w c r" for c r
    using f len by (auto simp: owns_def)
  have tab: "in_table ?w i r = in_table w i r" for i r
    by (simp add: in_table_def)
  have "tables_ok ?w"
    using adapter_invD(1) [OF inv] by (simp add: tables_ok_def)
  moreover have "conns_ok ?w"
  proof -
    note old = adapter_invD(2) [OF inv, unfolded conns_ok_def]
    have "\<not> c_closed (mc_recvCmdChan x)" if x: "x \<in> set xs" for x
    proof -
      obtain c where c: "c < length xs" "x = xs ! c" using x unfolding in_set_conv_nth by blast
      then show ?thesis using old f(6) [of c] len by simp
    qed
    moreover have "c < length xs \<and> mc_DeviceId (xs ! c) = d \<and> w_udpServer w \<noteq> None \<and>
        mc_udpServer (xs ! c) = w_udpServer w \<and> AdapterDisconnect \<in> set (mc_onCloseCbList (xs ! c))"
      if "w_deviceId2Conn w d = Some c" for d c
      using old that f [of c] len by simp
    ultimately show ?thesis using old by (simp add: conns_ok_def)
  qed
  moreover have "owners_ok orp ?w"
  proof -
    have "registered ?w c = registered w c" "hands_out (conn_at ?w c) s = hands_out (conn_at w c) s" if "owns w c r" for c r s
      using that f by (simp_all add: registered_def hands_out_def owns_def)
    then show ?thesis
      using adapter_invD(3) [OF inv] unfolding owners_ok_def own tab by auto
  qed
  ultimately show ?thesis by (simp add: adapter_inv_but_def)
qed

lemma adapter_inv_upd_conn:
  assumes "adapter_inv_but orp w" "conn_frame f"
  shows "adapter_inv_but orp (upd_conn c f w)"
  unfolding upd_conn_def
proof (rule adapter_inv_conns [OF assms(1)])
  have "conn_frame (\<lambda>x. x)" by (simp add: conn_frame_def)
  then show "\<exists>g. conn_frame g \<and> (w_conns w)[c := f (conn_at w c)] ! c' = g (conn_at w c')"
    if "c' < length ((w_conns w)[c := f (conn_at w c)])" for c'
    using that assms(2) by (cases "c' = c") auto
qed simp

lemma conn_frame_ops:
  "conn_frame (MarkBrokerOnline now)" "conn_frame (MarkBrokerOffline now g)" "conn_frame (OnClose cb)"
  "conn_frame (conn_SetMqttClient cl)"
  "conn_frame (\<lambda>x. x\<lparr>mc_brokerOnline := False, mc_retainedUntilTs := 0, mc_cancelled := True\<rparr>)"
  by (simp_all add: conn_frame_def MarkBrokerOnline_def MarkBrokerOffline_def OnClose_def conn_SetMqttClient_def)

lemma adapter_inv_upd_const:
  assumes "adapter_inv_but orp w"
    and "mc_DeviceId x = mc_DeviceId (conn_at w c)" "mc_udpServer x = mc_udpServer (conn_at w c)"
      "mc_UdpSession x = mc_UdpSession (conn_at w c)" "mc_data x = mc_data (conn_at w c)"
      "mc_onCloseCbList x = mc_onCloseCbList (conn_at w c)"
      "c_closed (mc_recvCmdChan x) = c_closed (mc_recvCmdChan (conn_at w c))"
  shows "adapter_inv_but orp (upd_conn c (\<lambda>_. x) w)"
proof -
  let ?f = "\<lambda>y. if y = conn_at w c then x else y"
  have "conn_frame ?f" using assms(2-) by (simp add: conn_frame_def)
  moreover have "upd_conn c (\<lambda>_. x) w = upd_conn c ?f w" by (simp add: upd_conn_def)
  ultimately show ?thesis using adapter_inv_upd_conn [OF assms(1)] by metis
qed

lemma adapter_inv_updateSessionsClient:
  "adapter_inv_but orp w \<Longrightarrow> adapter_inv_but orp (updateSessionsClient ks cl w)"
  by (induction ks arbitrary: w) (auto split: option.splits intro: adapter_inv_upd_conn conn_frame_ops)

lemma adapter_inv_setClient: "adapter_inv_but orp w \<Longrightarrow> adapter_inv_but orp (setClient ks cl w)"
  by (simp add: setClient_def adapter_inv_updateSessionsClient)

lemma adapter_inv_connectAndRetry: "adapter_inv_but orp w \<Longrightarrow> adapter_inv_but orp (connectAndRetry as w)"
  by (induction as w rule: connectAndRetry.induct) (auto simp: Let_def adapter_inv_setClient)

text \<open>Sessions that keep their identity: what the packet handler, the senders and the audio calls change.\<close>

definition session_frame :: "udp_session \<Rightarrow> udp_session \<Rightarrow> bool" where
  "session_frame s s' \<longleftrightarrow> us_DeviceId s' = us_DeviceId s \<and> us_AesKey s' = us_AesKey s \<and> us_Nonce s' = us_Nonce s \<and>
     us_ConnId s' = us_ConnId s \<and> IsClosed s' = IsClosed s \<and> (session_wf s \<longrightarrow> session_wf s')"

definition net_frame :: "udp_net \<Rightarrow> udp_net \<Rightarrow> bool" where
  "net_frame net net' \<longleftrightarrow> length (un_sessions net') = length (un_sessions net) \<and>
     (\<forall>r < length (un_sessions net). session_frame (un_sessions net ! r) (un_sessions net' ! r))"

lemma session_frame_refl [simp]: "session_frame s s"
  by (simp add: session_frame_def)

lemma net_frame_same [simp]: "un_sessions net' = un_sessions net \<Longrightarrow> net_frame net net'"
  by (simp add: net_frame_def)

lemma net_frame_set_session:
  assumes "r < length (un_sessions net) \<Longrightarrow> session_frame (un_sessions net ! r) s"
  shows "net_frame net (set_session r s net)"
proof -
  have "session_frame (un_sessions net ! i) ((un_sessions net)[r := s] ! i)" if "i < length (un_sessions net)" for i
    using assms that by (cases "i = r") simp_all
  then show ?thesis by (simp add: net_frame_def)
qed

lemma net_frame_trans: "net_frame a b \<Longrightarrow> net_frame b c \<Longrightarrow> net_frame a c"
  by (simp add: net_frame_def session_frame_def)

lemma adapter_inv_net:
  assumes inv: "adapter_inv_but orp w" and fr: "net_frame (w_net w) net"
  shows "adapter_inv_but orp (w\<lparr>w_net := net\<rparr>)"
proof -
  let ?w = "w\<lparr>w_net := net\<rparr>"
  have sf: "session_frame (session_at w r) (un_sessions net ! r)" if "r < length (un_sessions (w_net w))" for r
    using fr that by (simp add: net_frame_def)
  have wf: "session_wf s" if s: "s \<in> set (un_sessions net)" for s
  proof -
    obtain r where "r < length (un_sessions net)" "s = un_sessions net ! r" using s unfolding in_set_conv_nth by blast
    moreover from this have "session_wf (session_at w r)" "r < length (un_sessions (w_net w))"
      using fr adapter_invD(1) [OF inv] by (simp_all add: net_frame_def tables_ok_def)
    ultimately show ?thesis using sf by (simp add: session_frame_def)
  qed
  have srv: "server_inv (w_servers w ! i) net" if "i < length (w_servers w)" for i
    unfolding server_inv_def
  proof (intro conjI allI impI ballI)
    fix s assume "s \<in> set (un_sessions net)"
    then show "session_wf s" by (rule wf)
  next
    fix k r assume k: "sv_connId2Session (w_servers w ! i) k = Some r"
    note e = server_inv_entry [OF tables_server [OF adapter_invD(1) [OF inv] that] k]
    show "r < length (un_sessions net)" "us_ConnId (un_sessions net ! r) = k" "\<not> IsClosed (un_sessions net ! r)"
      using e sf [OF e(1)] fr by (simp_all add: net_frame_def session_frame_def)
  qed
  have "tables_ok ?w"
    using wf srv adapter_invD(1) [OF inv] by (simp add: tables_ok_def)
  moreover have "conns_ok ?w"
    using adapter_invD(2) [OF inv] by (simp add: conns_ok_def)
  moreover have "owners_ok orp ?w"
  proof -
    have own: "owns ?w = owns w" "in_table ?w = in_table w" "registered ?w = registered w"
      by (simp_all add: fun_eq_iff owns_def in_table_def registered_def)
    have ho: "hands_out c (un_sessions net ! r) = hands_out c (session_at w r)" if "in_table w i r" for c i r
      using sf [OF in_table_session(1) [OF adapter_invD(1) [OF inv] that]]
      by (simp add: hands_out_def session_frame_def GetAesKeyAndNonce_def)
    note old = adapter_invD(3) [OF inv, unfolded owners_ok_def]
    show ?thesis
      unfolding owners_ok_def own
    proof (intro conjI allI impI)
      fix c r assume o: "owns w c r"
      then obtain i where i: "w_udpServer w = Some i" "in_table w i r" using old by blast
      show "registered w c" "orp \<noteq> Some r" using old o by blast+
      show "hands_out (conn_at ?w c) (session_at ?w r)" using old o ho [OF i(2)] by simp
      show "\<exists>i. w_udpServer ?w = Some i \<and> in_table w i r" using i by simp
    next
      fix i r assume "in_table w i r"
      then show "w_udpServer ?w = Some i" "orp = Some r \<or> (\<exists>c. owns w c r)" using old by simp_all
    qed
  qed
  ultimately show ?thesis by (simp add: adapter_inv_but_def)
qed
subsection \<open>Handing sessions over\<close>

lemma owners_okD:
  assumes "owners_ok orp w" "owns w c r"
  shows "registered w c" "hands_out (conn_at w c) (session_at w r)" "orp \<noteq> Some r"
    "\<exists>i. w_udpServer w = Some i \<and> in_table w i r"
  using assms by (auto simp: owners_ok_def)

lemma owners_okT:
  assumes "owners_ok orp w" "in_table w i r"
  shows "w_udpServer w = Some i" "orp = Some r \<or> (\<exists>c. owns w c r)"
  using assms by (auto simp: owners_ok_def)

lemma conns_okD:
  assumes "conns_ok w" "w_deviceId2Conn w d = Some c"
  shows "c < length (w_conns w)" "mc_DeviceId (conn_at w c) = d" "w_udpServer w \<noteq> None"
    "mc_udpServer (conn_at w c) = w_udpServer w" "AdapterDisconnect \<in> set (mc_onCloseCbList (conn_at w c))"
  using assms by (auto simp: conns_ok_def)

text \<open>A connection takes over the orphan (or nothing) and leaves the session it had as the new orphan.\<close>

lemma adapter_inv_swap:
  assumes inv: "adapter_inv_but orp w" and c: "c < length (w_conns w)"
    and x: "mc_DeviceId x = mc_DeviceId (conn_at w c)" "mc_udpServer x = mc_udpServer (conn_at w c)"
      "mc_onCloseCbList x = mc_onCloseCbList (conn_at w c)"
      "c_closed (mc_recvCmdChan x) = c_closed (mc_recvCmdChan (conn_at w c))" "mc_UdpSession x = orp"
    and take: "\<And>r. orp = Some r \<Longrightarrow> registered w c \<and> hands_out x (session_at w r) \<and> (\<exists>i. w_udpServer w = Some i \<and> in_table w i r)"
  shows "adapter_inv_but (mc_UdpSession (conn_at w c)) (upd_conn c (\<lambda>_. x) w)"
proof -
  let ?w = "upd_conn c (\<lambda>_. x) w" and ?old = "mc_UdpSession (conn_at w c)"
  note own = adapter_invD(3) [OF inv]
  have at: "conn_at ?w c' = (if c' = c then x else conn_at w c')" if "c' < length (w_conns w)" for c'
    using that by (rule conn_at_upd_conn)
  have owns: "owns ?w c' q \<longleftrightarrow> (c' = c \<and> orp = Some q) \<or> (c' \<noteq> c \<and> owns w c' q)" for c' q
    using at c x(5) by (auto simp: owns_def split: if_splits)
  have tab: "in_table ?w i q = in_table w i q" for i q by (simp add: in_table_def)
  have reg: "registered ?w c' = registered w c'" if "c' < length (w_conns w)" for c'
    using at [OF that] x(1) by (simp add: registered_def)
  have "tables_ok ?w" using adapter_invD(1) [OF inv] by (simp add: tables_ok_def)
  moreover have "conns_ok ?w"
  proof -
    note old = adapter_invD(2) [OF inv]
    have "\<not> c_closed (mc_recvCmdChan y)" if "y \<in> set (w_conns ?w)" for y
      using that set_update_subset_insert [of "w_conns w" c x] old c x(4)
      by (auto simp: upd_conn_def conns_ok_def)
    moreover have "c' < length (w_conns w) \<and> mc_DeviceId (conn_at ?w c') = d \<and> w_udpServer w \<noteq> None \<and>
        mc_udpServer (conn_at ?w c') = w_udpServer w \<and> AdapterDisconnect \<in> set (mc_onCloseCbList (conn_at ?w c'))"
      if "w_deviceId2Conn w d = Some c'" for d c'
      using conns_okD [OF old that] at [of c'] x by (cases "c' = c") simp_all
    ultimately show ?thesis using old by (simp add: conns_ok_def)
  qed
  moreover have "owners_ok ?old ?w"
    unfolding owners_ok_def tab
  proof (intro conjI allI impI)
    fix c' q assume "owns ?w c' q"
    then consider "c' = c" "orp = Some q" | "c' \<noteq> c" "owns w c' q" using owns by blast
    then have "registered ?w c' \<and> hands_out (conn_at ?w c') (session_at ?w q) \<and> ?old \<noteq> Some q \<and>
          (\<exists>i. w_udpServer ?w = Some i \<and> in_table w i q)"
    proof cases
      case 1
      have "?old \<noteq> Some q" using owners_okD(3) [OF own, of c q] 1 c by (auto simp: owns_def)
      then show ?thesis
        using 1 take [of q] at [OF c] reg [OF c] by simp
    next
      case 2
      have "?old \<noteq> Some q" using owner_unique [OF own, of c q c'] 2 c by (auto simp: owns_def)
      moreover have "c' < length (w_conns w)" using 2 by (simp add: owns_def)
      ultimately show ?thesis
        using 2 owners_okD [OF own 2(2)] at [of c'] reg [of c'] by simp
    qed
    then show "registered ?w c'" "hands_out (conn_at ?w c') (session_at ?w q)" "?old \<noteq> Some q"
      "\<exists>i. w_udpServer ?w = Some i \<and> in_table w i q"
      by simp_all
  next
    fix i q assume t: "in_table w i q"
    then show "w_udpServer ?w = Some i" using owners_okT [OF own] by simp
    show "?old = Some q \<or> (\<exists>c'. owns ?w c' q)"
      using owners_okT(2) [OF own t] owns unfolding owns_def [of w] by blast
  qed
  ultimately show ?thesis by (simp add: adapter_inv_but_def)
qed

text \<open>Closing the orphan.\<close>

lemma adapter_inv_close:
  assumes inv: "adapter_inv_but (Some r) w" and tab: "in_table w i r"
  shows "\<exists>s sv. world_CloseSession i (Some r) w =
      Done (w\<lparr>w_servers := (w_servers w)[i := sv], w_net := set_session r s (w_net w)\<rparr>)
    \<and> adapter_inv (w\<lparr>w_servers := (w_servers w)[i := sv], w_net := set_session r s (w_net w)\<rparr>)
    \<and> IsClosed s \<and> sv_connId2Session sv (us_ConnId (session_at w r)) = None"
proof -
  let ?id = "us_ConnId (session_at w r)" and ?server = "w_servers w ! i"
  have i: "i < length (w_servers w)" using tab by (simp add: in_table_def)
  note tabs = adapter_invD(1) [OF inv] and own = adapter_invD(3) [OF inv]
  note srv = tables_server [OF tabs i]
  have r: "r < length (un_sessions (w_net w))" using in_table_session [OF tabs tab] by simp
  let ?sv = "?server\<lparr>sv_connId2Session := (sv_connId2Session ?server)(?id := None)\<rparr>"
  obtain s where close: "CloseSessionByRef (Some r) ?server (w_net w) = Done (?sv, set_session r s (w_net w))"
    and s: "session_wf s" "IsClosed s" "us_ConnId s = ?id"
    using CloseSessionByRef_effect [OF srv r] by blast
  let ?w = "w\<lparr>w_servers := (w_servers w)[i := ?sv], w_net := set_session r s (w_net w)\<rparr>"
  have run: "world_CloseSession i (Some r) w = Done ?w"
    by (simp add: world_CloseSession_def close)
  have new_inv: "server_inv ?sv (set_session r s (w_net w))"
    by (rule closed_inv [OF srv s(1,3)])
  have only: "j = i" if "in_table w j q" for j q
    using owners_okT(1) [OF own that] owners_okT(1) [OF own tab] by simp
  have entry: "us_ConnId (session_at w q) = k" if "sv_connId2Session ?server k = Some q" for k q
    using server_inv_entry(2) [OF srv that] .
  have newtab: "in_table ?w j q \<longleftrightarrow> j = i \<and> in_table w i q \<and> q \<noteq> r" for j q
  proof
    assume l: "in_table ?w j q"
    show "j = i \<and> in_table w i q \<and> q \<noteq> r"
    proof (cases "j = i")
      case True
      then obtain k where "k \<noteq> ?id" "sv_connId2Session ?server k = Some q"
        using l i by (auto simp: in_table_def split: if_splits)
      then show ?thesis using True i entry by (auto simp: in_table_def)
    next
      case False
      then have "in_table w j q" using l by (simp add: in_table_def)
      then show ?thesis using only False by blast
    qed
  next
    assume r': "j = i \<and> in_table w i q \<and> q \<noteq> r"
    then have "sv_connId2Session ?server (us_ConnId (session_at w q)) = Some q" "us_ConnId (session_at w q) \<noteq> ?id"
      using in_table_session(4) [OF tabs, of i q] in_table_session(4) [OF tabs tab] by auto
    then show "in_table ?w j q" using r' i by (auto simp: in_table_def)
  qed
  have wf: "session_wf s'" if "s' \<in> set (un_sessions (set_session r s (w_net w)))" for s'
    using new_inv that by (simp add: server_inv_def)
  have "tables_ok ?w"
    unfolding tables_ok_def
  proof (intro conjI allI impI ballI)
    fix j assume j: "j < length (w_servers ?w)"
    show "server_inv (w_servers ?w ! j) (w_net ?w)"
    proof (cases "j = i")
      case True
      then show ?thesis using new_inv i by simp
    next
      case False
      then have "sv_connId2Session (w_servers w ! j) k = None" for k
        using only [of j] j by (cases "sv_connId2Session (w_servers w ! j) k") (auto simp: in_table_def)
      then show ?thesis using False wf by (simp add: server_inv_def)
    qed
  next
    fix j assume "w_udpServer ?w = Some j"
    then show "j < length (w_servers ?w)" using tabs by (simp add: tables_ok_def)
  qed (use wf in simp)
  moreover have "conns_ok ?w" using adapter_invD(2) [OF inv] by (simp add: conns_ok_def)
  moreover have "owners_ok None ?w"
  proof -
    have eq: "owns ?w = owns w" "registered ?w = registered w" by (simp_all add: fun_eq_iff owns_def registered_def)
    show ?thesis
      unfolding owners_ok_def eq newtab
    proof (intro conjI allI impI)
      fix c q assume o: "owns w c q"
      note old = owners_okD [OF own o]
      show "registered w c" by (rule old)
      show "None \<noteq> Some q" by simp
      have "q \<noteq> r" using old(3) by auto
      then show "hands_out (conn_at ?w c) (session_at ?w q)" using old(2) by simp
      show "\<exists>j. w_udpServer ?w = Some j \<and> j = i \<and> in_table w i q \<and> q \<noteq> r"
        using old(4) only \<open>q \<noteq> r\<close> by auto
    next
      fix j q assume "j = i \<and> in_table w i q \<and> q \<noteq> r"
      then show "w_udpServer ?w = Some j" "None = Some q \<or> (\<exists>c. owns w c q)"
        using owners_okT [OF own, of i q] by auto
    qed
  qed
  ultimately have "adapter_inv ?w" by (simp add: adapter_inv_but_def)
  with run s(2) show ?thesis by (intro exI [of _ s] exI [of _ ?sv]) simp
qed
text \<open>A new session is an orphan.\<close>

definition created_session :: "gotext \<Rightarrow> nat \<Rightarrow> nat \<Rightarrow> mqtt_world \<Rightarrow> mqtt_world \<Rightarrow> bool" where
  "created_session d i r w w1 \<longleftrightarrow> (\<exists>s sv. w_udpServer w = Some i \<and> r = length (un_sessions (w_net w)) \<and>
     un_sessions (w_net w1) = un_sessions (w_net w) @ [s] \<and> us_DeviceId s = d \<and>
     w1 = w\<lparr>w_servers := (w_servers w)[i := sv], w_net := w_net w1\<rparr> \<and>
     sv_connId2Session (w_servers w ! i) (us_ConnId s) = None \<and> i < length (w_servers w) \<and>
     sv = (w_servers w ! i)\<lparr>sv_connId2Session := (sv_connId2Session (w_servers w ! i))(us_ConnId s \<mapsto> r)\<rparr>)"

lemma server_inv_append:
  assumes "server_inv sv net" "un_sessions net' = un_sessions net @ [s]" "session_wf s"
  shows "server_inv sv net'"
  using assms unfolding server_inv_def by (auto simp: nth_append less_SucI)

lemma adapter_inv_create:
  assumes inv: "adapter_inv w" and aes: "cipher_ok aes"
    and run: "createUdpSession aes now d w = (res, w1)"
  shows "(\<exists>e. res = Inl e \<and> adapter_inv w1 \<and> w_conns w1 = w_conns w \<and> w_deviceId2Conn w1 = w_deviceId2Conn w \<and>
        w_udpServer w1 = w_udpServer w \<and> w_lifecycle w1 = w_lifecycle w)
    \<or> (\<exists>i r. res = Inr (i, r) \<and> adapter_inv_but (Some r) w1 \<and> in_table w1 i r \<and> created_session d i r w w1)"
proof (cases "w_udpServer w")
  case None
  then show ?thesis using run inv by (auto simp: createUdpSession_def)
next
  case (Some i)
  note tabs = adapter_invD(1) [OF inv] and own = adapter_invD(3) [OF inv]
  have i: "i < length (w_servers w)" using tabs Some by (simp add: tables_ok_def)
  obtain ref sv net where cs: "CreateSession aes now d [] (w_servers w ! i) (w_net w) = (ref, sv, net)"
    by (cases "CreateSession aes now d [] (w_servers w ! i) (w_net w)")
  note cr = CreateSession_created [OF aes cs]
  have sinv: "server_inv sv net" by (rule created_inv [OF cr tables_server [OF tabs i]])
  let ?w = "w\<lparr>w_servers := (w_servers w)[i := sv], w_net := net\<rparr>"
  have only: "j = i" if "in_table w j q" for j q
    using owners_okT(1) [OF own that] Some by simp
  have eq: "owns ?w = owns w" "registered ?w = registered w" by (simp_all add: fun_eq_iff owns_def registered_def)
  have conns: "conns_ok ?w" using adapter_invD(2) [OF inv] by (simp add: conns_ok_def)
  show ?thesis
  proof (cases ref)
    case None
    then have "sv = w_servers w ! i" "un_sessions net = un_sessions (w_net w)" using cr by (simp_all add: created_def)
    then have "net_frame (w_net w) net" "?w = w\<lparr>w_net := net\<rparr>" by simp_all
    then have "adapter_inv ?w" using adapter_inv_net [OF inv] by simp
    then show ?thesis using run Some cs None by (auto simp: createUdpSession_def)
  next
    case (Some r)
    then obtain s where s: "r = length (un_sessions (w_net w))" "un_sessions net = un_sessions (w_net w) @ [s]"
      "us_DeviceId s = d" "session_wf s" "\<not> IsClosed s" "sv_connId2Session (w_servers w ! i) (us_ConnId s) = None"
      and sv: "sv = (w_servers w ! i)\<lparr>sv_connId2Session := (sv_connId2Session (w_servers w ! i))(us_ConnId s \<mapsto> r)\<rparr>"
      using cr by (auto simp: created_def)
    have old: "q < length (un_sessions (w_net w))" if "in_table w j q" for j q
      using in_table_session(1) [OF tabs that] .
    have newtab: "in_table ?w j q \<longleftrightarrow> j = i \<and> (q = r \<or> in_table w i q)" for j q
    proof (cases "j = i")
      case True
      have "(\<exists>k. sv_connId2Session sv k = Some q) \<longleftrightarrow> q = r \<or> (\<exists>k. sv_connId2Session (w_servers w ! i) k = Some q)"
        using s(6) unfolding sv by (auto, metis option.distinct(1))
      then show ?thesis using True i by (simp add: in_table_def)
    next
      case False
      then show ?thesis using only [of j q] by (auto simp: in_table_def)
    qed
    have "tables_ok ?w"
      unfolding tables_ok_def
    proof (intro conjI allI impI)
      show "\<forall>s \<in> set (un_sessions (w_net ?w)). session_wf s" using sinv by (simp add: server_inv_def)
      show "server_inv (w_servers ?w ! j) (w_net ?w)" if "j < length (w_servers ?w)" for j
        using that sinv server_inv_append [OF tables_server [OF tabs] s(2,4), of j] by (cases "j = i") simp_all
      show "j < length (w_servers ?w)" if "w_udpServer ?w = Some j" for j
        using that tabs by (simp add: tables_ok_def)
    qed
    moreover have "owners_ok (Some r) ?w"
      unfolding owners_ok_def eq newtab
    proof (intro conjI allI impI)
      fix c q assume o: "owns w c q"
      note h = owners_okD [OF own o]
      then have q: "q < length (un_sessions (w_net w))" using old by auto
      show "registered w c" by (rule h)
      show "hands_out (conn_at ?w c) (session_at ?w q)" using h(2) q s(2) by (simp add: nth_append)
      show "Some r \<noteq> Some q" using q s(1) by simp
      show "\<exists>j. w_udpServer ?w = Some j \<and> j = i \<and> (q = r \<or> in_table w i q)" using h(4) only by auto
    next
      fix j q assume t: "j = i \<and> (q = r \<or> in_table w i q)"
      then show "w_udpServer ?w = Some j" using \<open>w_udpServer w = Some i\<close> by simp
      show "Some r = Some q \<or> (\<exists>c. owns w c q)" using t owners_okT(2) [OF own, of i q] by auto
    qed
    ultimately have "adapter_inv_but (Some r) ?w" using conns by (simp add: adapter_inv_but_def)
    moreover have "in_table ?w i r" using newtab by simp
    moreover have "created_session d i r w ?w"
      unfolding created_session_def using \<open>w_udpServer w = Some i\<close> s i sv
      by (intro exI [of _ s] exI [of _ sv]) simp
    moreover have "(res, w1) = (Inr (i, r), ?w)"
      using run \<open>w_udpServer w = Some i\<close> cs Some by (simp add: createUdpSession_def)
    ultimately show ?thesis by simp
  qed
qed

text \<open>Registering the connection that takes the orphan, and dropping a connection that owns nothing.\<close>

lemma adapter_inv_register:
  assumes inv: "adapter_inv_but (Some r) w" and tab: "in_table w i r" and free: "w_deviceId2Conn w d = None"
    and x: "mc_DeviceId x = d" "mc_udpServer x = Some i" "mc_UdpSession x = Some r" "hands_out x (session_at w r)"
      "AdapterDisconnect \<in> set (mc_onCloseCbList x)" "\<not> c_closed (mc_recvCmdChan x)"
  shows "adapter_inv (w\<lparr>w_conns := w_conns w @ [x], w_deviceId2Conn := (w_deviceId2Conn w)(d \<mapsto> length (w_conns w))\<rparr>)"
    (is "adapter_inv ?w")
proof -
  note own = adapter_invD(3) [OF inv] and con = adapter_invD(2) [OF inv]
  have cur: "w_udpServer w = Some i" using owners_okT(1) [OF own tab] .
  have owns: "owns ?w c q \<longleftrightarrow> (c = length (w_conns w) \<and> q = r) \<or> owns w c q" for c q
    using x(3) by (auto simp: owns_def nth_append less_Suc_eq)
  have tabs: "in_table ?w = in_table w" by (simp add: fun_eq_iff in_table_def)
  have "tables_ok ?w" using adapter_invD(1) [OF inv] by (simp add: tables_ok_def)
  moreover have "conns_ok ?w"
    unfolding conns_ok_def
  proof (intro conjI allI impI)
    fix d' c assume a: "w_deviceId2Conn ?w d' = Some c"
    show "c < length (w_conns ?w)" "mc_DeviceId (conn_at ?w c) = d'" "w_udpServer ?w \<noteq> None"
      "mc_udpServer (conn_at ?w c) = w_udpServer ?w" "AdapterDisconnect \<in> set (mc_onCloseCbList (conn_at ?w c))"
      using a conns_okD [OF con, of d' c] x cur by (auto simp: nth_append split: if_splits)
  next
    show "\<forall>c \<in> set (w_conns ?w). \<not> c_closed (mc_recvCmdChan c)" "\<not> c_closed (w_msgChan ?w)"
      using con x(6) by (auto simp: conns_ok_def)
  qed
  moreover have "owners_ok None ?w"
    unfolding owners_ok_def tabs
  proof (intro conjI allI impI)
    fix c q assume "owns ?w c q"
    then consider "c = length (w_conns w)" "q = r" | "owns w c q" using owns by blast
    then have "registered ?w c \<and> hands_out (conn_at ?w c) (session_at ?w q) \<and> None \<noteq> Some q \<and>
          (\<exists>j. w_udpServer ?w = Some j \<and> in_table w j q)"
    proof cases
      case 1
      then show ?thesis
        using x cur tab by (simp add: registered_def)
    next
      case 2
      note h = owners_okD [OF own 2]
      have c: "c < length (w_conns w)" using 2 by (simp add: owns_def)
      moreover have "mc_DeviceId (conn_at w c) \<noteq> d" using h(1) free by (auto simp: registered_def)
      ultimately show ?thesis
        using h by (simp add: registered_def nth_append)
    qed
    then show "registered ?w c" "hands_out (conn_at ?w c) (session_at ?w q)" "None \<noteq> Some q"
      "\<exists>j. w_udpServer ?w = Some j \<and> in_table w j q"
      by simp_all
  next
    fix j q assume t: "in_table w j q"
    show "w_udpServer ?w = Some j" using owners_okT(1) [OF own t] by simp
    show "None = Some q \<or> (\<exists>c. owns ?w c q)" using owners_okT(2) [OF own t] owns by auto
  qed
  ultimately show ?thesis by (simp add: adapter_inv_but_def)
qed

lemma adapter_inv_unregister:
  assumes inv: "adapter_inv_but orp w" and none: "\<And>c. w_deviceId2Conn w d = Some c \<Longrightarrow> mc_UdpSession (conn_at w c) = None"
  shows "adapter_inv_but orp (w\<lparr>w_deviceId2Conn := (w_deviceId2Conn w)(d := None)\<rparr>)" (is "adapter_inv_but orp ?w")
proof -
  have same: "owns ?w = owns w" "in_table ?w = in_table w" by (simp_all add: fun_eq_iff owns_def in_table_def)
  have "registered ?w c" if "registered w c" "owns w c r" for c r
    using that none by (auto simp: registered_def owns_def)
  then have "owners_ok orp ?w"
    using adapter_invD(3) [OF inv] unfolding owners_ok_def same by auto
  moreover have "tables_ok ?w" using adapter_invD(1) [OF inv] by (simp add: tables_ok_def)
  moreover have "conns_ok ?w" using adapter_invD(2) [OF inv] by (auto simp: conns_ok_def)
  ultimately show ?thesis by (simp add: adapter_inv_but_def)
qed
subsection \<open>The handlers\<close>

text \<open>\<open>w'\<close> differs from \<open>w\<close> at most in servers, sessions, connection objects, the registration of \<open>d\<close>, and logs.\<close>

definition may_drop :: "gotext \<Rightarrow> mqtt_world \<Rightarrow> mqtt_world \<Rightarrow> bool" where
  "may_drop d w w' \<longleftrightarrow> w_udpServer w' = w_udpServer w \<and> length (w_conns w') = length (w_conns w) \<and>
     length (w_servers w') = length (w_servers w) \<and>
     (\<forall>d'. d' \<noteq> d \<longrightarrow> w_deviceId2Conn w' d' = w_deviceId2Conn w d') \<and>
     (w_deviceId2Conn w' d = w_deviceId2Conn w d \<or> w_deviceId2Conn w' d = None)"

lemma may_drop_refl [simp]: "may_drop d w w"
  by (simp add: may_drop_def)

lemma may_drop_trans: "may_drop d w1 w2 \<Longrightarrow> may_drop d w2 w3 \<Longrightarrow> may_drop d w1 w3"
  by (auto simp: may_drop_def)

lemma ReleaseUdpSession_inv:
  assumes inv: "adapter_inv w" and c: "c < length (w_conns w)"
  shows "\<exists>w'. ReleaseUdpSession c w = Done w' \<and> adapter_inv w' \<and> mc_UdpSession (conn_at w' c) = None \<and>
    w_deviceId2Conn w' = w_deviceId2Conn w \<and> may_drop d w w' \<and>
    (\<forall>r. mc_UdpSession (conn_at w c) = Some r \<longrightarrow> IsClosed (session_at w' r))"
proof -
  let ?w1 = "upd_conn c (SetUdpSession None) w" and ?old = "mc_UdpSession (conn_at w c)"
  let ?x = "SetUdpSession None (conn_at w c)"
  have w1: "?w1 = upd_conn c (\<lambda>_. ?x) w" by (simp add: upd_conn_def)
  have inv1: "adapter_inv_but ?old ?w1"
    unfolding w1 by (rule adapter_inv_swap [OF inv c]) (simp_all add: SetUdpSession_def)
  have none: "mc_UdpSession (conn_at ?w1 c) = None" using conn_at_upd_conn [OF c] by (simp add: SetUdpSession_def)
  show ?thesis
  proof (cases ?old)
    case None
    then show ?thesis using inv1 none by (auto simp: ReleaseUdpSession_def Let_def may_drop_def)
  next
    case (Some r)
    then have o: "owns w c r" using c by (simp add: owns_def)
    note h = owners_okD [OF adapter_invD(3) [OF inv] o]
    then obtain i where i: "w_udpServer w = Some i" "in_table w i r" by blast
    have "mc_udpServer (conn_at w c) = Some i"
      using conns_okD(4) [OF adapter_invD(2) [OF inv], of "mc_DeviceId (conn_at w c)" c] h(1) i(1) by (simp add: registered_def)
    moreover have "in_table ?w1 i r" using i(2) by (simp add: in_table_def)
    moreover have "adapter_inv_but (Some r) ?w1" using inv1 Some by simp
    ultimately obtain s sv where "ReleaseUdpSession c w =
        Done (?w1\<lparr>w_servers := (w_servers ?w1)[i := sv], w_net := set_session r s (w_net ?w1)\<rparr>)" "IsClosed s"
        "adapter_inv (?w1\<lparr>w_servers := (w_servers ?w1)[i := sv], w_net := set_session r s (w_net ?w1)\<rparr>)"
      using adapter_inv_close [of r ?w1 i] Some by (auto simp: ReleaseUdpSession_def Let_def)
    moreover have "r < length (un_sessions (w_net w))"
      using in_table_session(1) [OF adapter_invD(1) [OF inv] i(2)] .
    ultimately show ?thesis using none Some by (auto simp: may_drop_def)
  qed
qed

lemma disconnect_lifecycle_world:
  "\<exists>f. snd (disconnect_lifecycle d w) = w\<lparr>w_lifecycle := f\<rparr>"
  by (cases "getLifecycleState w d") (auto simp: disconnect_lifecycle_def set_lifecycle_def Let_def intro: exI [of _ "w_lifecycle w"])

lemma handleDisconnect_inv:
  assumes inv: "adapter_inv w"
  shows "\<exists>w'. handleDisconnect d cc w = Done w' \<and> adapter_inv w' \<and> may_drop d w w' \<and>
    (cc = None \<or> w_deviceId2Conn w d = cc \<longrightarrow> w_deviceId2Conn w' d = None)"
proof (cases "cc \<noteq> None \<and> getDeviceSession w d \<noteq> None \<and> getDeviceSession w d \<noteq> cc")
  case True
  then show ?thesis using inv by (auto simp: handleDisconnect_def getDeviceSession_def)
next
  case False
  obtain b w1 where dl: "disconnect_lifecycle d w = (b, w1)" by (cases "disconnect_lifecycle d w")
  then obtain f where w1: "w1 = w\<lparr>w_lifecycle := f\<rparr>" using disconnect_lifecycle_world [of d w] by auto
  have inv1: "adapter_inv w1" using inv w1 by simp
  show ?thesis
  proof (cases "w_deviceId2Conn w d")
    case None
    then show ?thesis
      using False dl w1 inv by (auto simp: handleDisconnect_def getDeviceSession_def Let_def may_drop_def notify_def)
  next
    case (Some c)
    have "c < length (w_conns w1)" using conns_okD(1) [OF adapter_invD(2) [OF inv] Some] w1 by simp
    then obtain w2 where w2: "ReleaseUdpSession c w1 = Done w2" "adapter_inv w2" "mc_UdpSession (conn_at w2 c) = None"
      "w_deviceId2Conn w2 = w_deviceId2Conn w1" "may_drop d w1 w2"
      using ReleaseUdpSession_inv [OF inv1, of c d] by auto
    let ?w3 = "w2\<lparr>w_deviceId2Conn := (w_deviceId2Conn w2)(d := None)\<rparr>"
    have "adapter_inv ?w3"
      using w2 Some w1 by (intro adapter_inv_unregister) auto
    moreover have "may_drop d w ?w3" using w2(5) w1 by (auto simp: may_drop_def)
    ultimately show ?thesis
      using False dl Some w2(1) by (auto simp: handleDisconnect_def getDeviceSession_def Let_def may_drop_def notify_def)
  qed
qed

lemma run_close_cbs_inv:
  assumes "adapter_inv w"
  shows "\<exists>w'. run_close_cbs c d cbs w = Done w' \<and> adapter_inv w' \<and> may_drop d w w' \<and>
    (AdapterDisconnect \<in> set cbs \<and> w_deviceId2Conn w d = Some c \<longrightarrow> w_deviceId2Conn w' d = None)"
  using assms
proof (induction c d cbs w rule: run_close_cbs.induct)
  case (2 c d cbs w)
  obtain w1 where w1: "handleDisconnect d (Some c) w = Done w1" "adapter_inv w1" "may_drop d w w1"
    "w_deviceId2Conn w d = Some c \<longrightarrow> w_deviceId2Conn w1 d = None"
    using handleDisconnect_inv [OF 2(2), of d "Some c"] by auto
  obtain w2 where "run_close_cbs c d cbs w1 = Done w2" "adapter_inv w2" "may_drop d w1 w2"
    using 2(1) [OF w1(2)] by auto
  then show ?case using w1 may_drop_trans [OF w1(3)] by (auto simp: may_drop_def)
next
  case (3 c d cbs w)
  then obtain w1 where "run_close_cbs c d cbs (w\<lparr>w_log := w_log w @ [ConnClosed d]\<rparr>) = Done w1" "adapter_inv w1"
    "may_drop d (w\<lparr>w_log := w_log w @ [ConnClosed d]\<rparr>) w1"
    "AdapterDisconnect \<in> set cbs \<and> w_deviceId2Conn w d = Some c \<longrightarrow> w_deviceId2Conn w1 d = None"
    by auto
  then show ?case by (auto simp: may_drop_def)
qed auto

lemma conn_Destroy_inv:
  assumes inv: "adapter_inv w" and c: "c < length (w_conns w)"
  shows "\<exists>w'. conn_Destroy c w = Done w' \<and> adapter_inv w' \<and> may_drop (mc_DeviceId (conn_at w c)) w w' \<and>
    (registered w c \<longrightarrow> w_deviceId2Conn w' (mc_DeviceId (conn_at w c)) = None)"
proof -
  let ?f = "\<lambda>x. x\<lparr>mc_brokerOnline := False, mc_retainedUntilTs := 0, mc_cancelled := True\<rparr>"
  let ?w1 = "upd_conn c ?f w" and ?d = "mc_DeviceId (conn_at w c)" and ?cbs = "mc_onCloseCbList (conn_at w c)"
  have "conn_at ?w1 c = ?f (conn_at w c)" using conn_at_upd_conn [OF c] by simp
  then have run: "conn_Destroy c w = run_close_cbs c ?d ?cbs ?w1" by (simp add: conn_Destroy_def Let_def)
  have "adapter_inv ?w1" by (rule adapter_inv_upd_conn [OF inv conn_frame_ops(5)])
  then obtain w' where w': "run_close_cbs c ?d ?cbs ?w1 = Done w'" "adapter_inv w'" "may_drop ?d ?w1 w'"
    "AdapterDisconnect \<in> set ?cbs \<and> w_deviceId2Conn w ?d = Some c \<longrightarrow> w_deviceId2Conn w' ?d = None"
    using run_close_cbs_inv [of ?w1 c ?d ?cbs] by auto
  have "may_drop ?d w w'" using w'(3) by (simp add: may_drop_def)
  moreover have "registered w c \<longrightarrow> w_deviceId2Conn w' ?d = None"
    using w'(4) conns_okD(5) [OF adapter_invD(2) [OF inv], of ?d c] by (simp add: registered_def)
  ultimately show ?thesis using run w' by auto
qed

lemma clearDeviceSessions_inv:
  assumes "adapter_inv w"
  shows "\<exists>w'. clearDeviceSessions ks w = Done w' \<and> adapter_inv w' \<and> w_udpServer w' = w_udpServer w \<and>
    length (w_servers w') = length (w_servers w) \<and>
    (\<forall>d. w_deviceId2Conn w' d = (if d \<in> set ks then None else w_deviceId2Conn w d))"
  using assms
proof (induction ks arbitrary: w)
  case (Cons k ks)
  show ?case
  proof (cases "w_deviceId2Conn w k")
    case None
    then show ?thesis using Cons.IH [OF Cons.prems] by auto
  next
    case (Some c)
    note h = conns_okD [OF adapter_invD(2) [OF Cons.prems] Some]
    obtain w1 where w1: "conn_Destroy c w = Done w1" "adapter_inv w1" "may_drop k w w1" "w_deviceId2Conn w1 k = None"
      using conn_Destroy_inv [OF Cons.prems h(1)] h(2) Some by (auto simp: registered_def)
    then have eq: "w1\<lparr>w_deviceId2Conn := (w_deviceId2Conn w1)(k := None)\<rparr> = w1"
      by (simp add: fun_upd_idem)
    obtain w2 where "clearDeviceSessions ks w1 = Done w2" "adapter_inv w2" "w_udpServer w2 = w_udpServer w1"
      "length (w_servers w2) = length (w_servers w1)"
      "\<forall>d. w_deviceId2Conn w2 d = (if d \<in> set ks then None else w_deviceId2Conn w1 d)"
      using Cons.IH [OF w1(2)] by blast
    then show ?thesis using w1 Some eq by (auto simp: may_drop_def)
  qed
qed simp

lemma checkClientActive_inv:
  assumes "adapter_inv w"
  shows "\<exists>w'. checkClientActive now ks w = Done w' \<and> adapter_inv w'"
  using assms
proof (induction ks arbitrary: w)
  case (Cons k ks)
  show ?case
  proof (cases "\<exists>c. w_deviceId2Conn w k = Some c \<and> \<not> IsActive now (conn_at w c)")
    case True
    then obtain c where c: "w_deviceId2Conn w k = Some c" "\<not> IsActive now (conn_at w c)" by blast
    obtain w1 where "conn_Destroy c w = Done w1" "adapter_inv w1"
      using conn_Destroy_inv [OF Cons.prems conns_okD(1) [OF adapter_invD(2) [OF Cons.prems] c(1)]] by blast
    then show ?thesis using Cons.IH [of w1] c by simp
  next
    case False
    then show ?thesis using Cons.IH [OF Cons.prems] by (cases "w_deviceId2Conn w k") auto
  qed
qed simp
lemma adapter_inv_no_conns:
  assumes "adapter_inv w" "\<And>d. w_deviceId2Conn w d = None"
  shows "\<not> owns w c r" "\<not> in_table w i r"
  using assms unfolding adapter_inv_but_def owners_ok_def registered_def by (metis option.distinct(1))+

lemma close_server_inv:
  assumes "adapter_inv w" "\<And>i. sv = Some i \<Longrightarrow> i < length (w_servers w)"
  shows "adapter_inv (close_server sv w)"
proof (cases sv)
  case (Some i)
  let ?w = "close_server sv w"
  have i: "i < length (w_servers w)" using assms(2) Some by simp
  have tab: "sv_connId2Session (w_servers ?w ! j) = sv_connId2Session (w_servers w ! j)" if "j < length (w_servers w)" for j
    using that i Some by (cases "j = i") (simp_all add: close_server_def sv_Close_def)
  have len: "length (w_servers ?w) = length (w_servers w)" "w_net ?w = w_net w" "w_conns ?w = w_conns w"
    "w_udpServer ?w = w_udpServer w" "w_deviceId2Conn ?w = w_deviceId2Conn w" "w_msgChan ?w = w_msgChan w"
    using Some by (simp_all add: close_server_def)
  have "in_table ?w j r = in_table w j r" for j r using tab len by (auto simp: in_table_def)
  moreover have "owns ?w = owns w" "registered ?w = registered w" using len by (simp_all add: fun_eq_iff owns_def registered_def)
  ultimately have "owners_ok None ?w" using adapter_invD(3) [OF assms(1)] len by (simp add: owners_ok_def)
  moreover have "tables_ok ?w" using adapter_invD(1) [OF assms(1)] len tab by (simp add: tables_ok_def server_inv_def)
  moreover have "conns_ok ?w" using adapter_invD(2) [OF assms(1)] len by (simp add: conns_ok_def)
  ultimately show ?thesis by (simp add: adapter_inv_but_def)
qed (use assms in \<open>simp add: close_server_def\<close>)

lemma adapter_Stop_inv:
  assumes "adapter_inv w"
  shows "\<exists>w'. adapter_Stop ks w = Done w' \<and> adapter_inv w'"
proof -
  have "adapter_inv (close_server (w_udpServer w) (w\<lparr>w_stopped := True\<rparr>))"
    using assms adapter_invD(1) [OF assms] by (intro close_server_inv) (simp_all add: tables_ok_def)
  then show ?thesis
    using clearDeviceSessions_inv [of "clearLifecycleStates (close_server (w_udpServer w) (w\<lparr>w_stopped := True\<rparr>))" ks]
    by (auto simp: adapter_Stop_def clearLifecycleStates_def)
qed

lemma ReloadMqttClient_inv:
  assumes "adapter_inv w"
  shows "\<exists>w'. ReloadMqttClient ks cfg w = Done w' \<and> adapter_inv w'"
  using clearDeviceSessions_inv [of "clearLifecycleStates (w\<lparr>w_mqttConfig := cfg\<rparr>)" ks] assms
  by (cases cfg) (auto simp: ReloadMqttClient_def clearLifecycleStates_def)

lemma ReloadUdpServer_inv:
  assumes inv: "adapter_inv w" and i: "i < length (w_servers w)" and dom: "dom (w_deviceId2Conn w) \<subseteq> set ks"
  shows "\<exists>w'. ReloadUdpServer ks (Some i) w = Done w' \<and> adapter_inv w'"
proof -
  have "adapter_inv (clearLifecycleStates w)" using inv by (simp add: clearLifecycleStates_def)
  then obtain w1 where w1: "clearDeviceSessions ks (clearLifecycleStates w) = Done w1" "adapter_inv w1"
    "w_udpServer w1 = w_udpServer w" "length (w_servers w1) = length (w_servers w)"
    "\<forall>d. w_deviceId2Conn w1 d = (if d \<in> set ks then None else w_deviceId2Conn w d)"
    using clearDeviceSessions_inv [of "clearLifecycleStates w" ks] by (auto simp: clearLifecycleStates_def)
  have none: "w_deviceId2Conn w1 d = None" for d
    using w1(5) dom by (cases "w_deviceId2Conn w d") auto
  let ?w2 = "setUdpServer (Some i) w1"
  note free = adapter_inv_no_conns [OF w1(2) none]
  have eq: "owns ?w2 = owns w1" "in_table ?w2 = in_table w1"
    by (simp_all add: fun_eq_iff setUdpServer_def owns_def in_table_def)
  have "owners_ok None ?w2" using free unfolding owners_ok_def eq by blast
  moreover have "tables_ok ?w2" using adapter_invD(1) [OF w1(2)] i w1(4) by (simp add: setUdpServer_def tables_ok_def)
  moreover have "conns_ok ?w2" using adapter_invD(2) [OF w1(2)] none by (simp add: setUdpServer_def conns_ok_def)
  ultimately have "adapter_inv ?w2" by (simp add: adapter_inv_but_def)
  moreover have "j < length (w_servers ?w2)" if "w_udpServer w = Some j" for j
    using that adapter_invD(1) [OF w1(2)] w1(3) by (simp add: setUdpServer_def tables_ok_def)
  ultimately show ?thesis using w1(1) by (auto simp: ReloadUdpServer_def intro!: close_server_inv)
qed

lemma bindUdpSessionData_conn:
  assumes "c < length (w_conns w)"
  shows "bindUdpSessionData c r w = upd_conn c (\<lambda>_. SetData ''full_nonce'' (snd (GetAesKeyAndNonce (session_at w r)))
      (SetData ''aes_key'' (fst (GetAesKeyAndNonce (session_at w r))) (SetUdpSession (Some r) (conn_at w c)))) w"
  by (simp add: bindUdpSessionData_def upd_conn_def case_prod_beta)

lemma rotate_inv:
  assumes inv: "adapter_inv w" and aes: "cipher_ok aes"
    and reg: "w_deviceId2Conn w d = Some c"
  shows "\<exists>res w'. rotateDeviceUdpSession aes now (Some c) d w = Done (res, w') \<and> adapter_inv w' \<and>
    w_deviceId2Conn w' = w_deviceId2Conn w \<and> length (w_conns w') = length (w_conns w) \<and>
    (\<forall>r. res = Inr r \<longrightarrow> mc_UdpSession (conn_at w' c) = Some r \<and> r = length (un_sessions (w_net w)) \<and>
      (\<forall>q. mc_UdpSession (conn_at w c) = Some q \<longrightarrow> IsClosed (session_at w' q) \<and>
        (\<forall>j < length (w_servers w'). sv_connId2Session (w_servers w' ! j) (us_ConnId (session_at w q)) = None) \<and>
        us_ConnId (session_at w' r) \<noteq> us_ConnId (session_at w q))) \<and>
    (\<forall>i e. w_udpServer w = Some i \<and> res = Inl e \<longrightarrow> fst (CreateSession aes now d [] (w_servers w ! i) (w_net w)) = None)"
proof -
  obtain res w1 where run: "createUdpSession aes now d w = (res, w1)" by (cases "createUdpSession aes now d w")
  consider (err) e where "res = Inl e" "adapter_inv w1" "w_conns w1 = w_conns w" "w_deviceId2Conn w1 = w_deviceId2Conn w"
    | (ok) i r where "res = Inr (i, r)" "adapter_inv_but (Some r) w1" "in_table w1 i r" "created_session d i r w w1"
    using adapter_inv_create [OF inv aes run] by blast
  then show ?thesis
  proof cases
    case err
    have "fst (CreateSession aes now d [] (w_servers w ! i) (w_net w)) = None" if "w_udpServer w = Some i" for i
      using run err(1) that by (simp add: createUdpSession_def Let_def split: prod.splits option.splits)
    then show ?thesis using run err by (simp add: rotateDeviceUdpSession_def)
  next
    case ok
    obtain s sv where s: "w_udpServer w = Some i" "r = length (un_sessions (w_net w))"
      "un_sessions (w_net w1) = un_sessions (w_net w) @ [s]" "us_DeviceId s = d"
      "w1 = w\<lparr>w_servers := (w_servers w)[i := sv], w_net := w_net w1\<rparr>"
      "sv_connId2Session (w_servers w ! i) (us_ConnId s) = None" "i < length (w_servers w)"
      "sv = (w_servers w ! i)\<lparr>sv_connId2Session := (sv_connId2Session (w_servers w ! i))(us_ConnId s \<mapsto> r)\<rparr>"
      using ok(4) unfolding created_session_def by blast
    have same: "w_conns w1 = w_conns w" "w_deviceId2Conn w1 = w_deviceId2Conn w" "w_udpServer w1 = w_udpServer w"
      by (subst s(5), simp)+
    note h = conns_okD [OF adapter_invD(2) [OF inv] reg]
    have c: "c < length (w_conns w1)" using h same by simp
    have sess: "session_at w1 r = s" using s(2,3) by simp
    let ?x = "SetData ''full_nonce'' (snd (GetAesKeyAndNonce s)) (SetData ''aes_key'' (fst (GetAesKeyAndNonce s))
      (SetUdpSession (Some r) (conn_at w1 c)))"
    let ?w2 = "upd_conn c (\<lambda>_. ?x) w1" and ?old = "mc_UdpSession (conn_at w c)"
    have bind: "bindUdpSessionData c r w1 = ?w2" using bindUdpSessionData_conn [OF c, of r] sess by simp
    have "registered w1 c" using reg h same by (simp add: registered_def)
    moreover have "hands_out ?x s"
      using s(4) h same by (simp add: hands_out_def SetData_def SetUdpSession_def)
    ultimately have inv2: "adapter_inv_but ?old ?w2"
      using adapter_inv_swap [OF ok(2) c, of ?x] ok(3) same s(1) sess
      by (simp add: SetData_def SetUdpSession_def)
    have at: "conn_at ?w2 c = ?x" using conn_at_upd_conn [OF c] by simp
    have new: "mc_UdpSession ?x = Some r" by (simp add: SetData_def SetUdpSession_def)
    show ?thesis
    proof (cases ?old)
      case None
      then show ?thesis using run ok(1) bind inv2 same at new s(2)
        by (simp add: rotateDeviceUdpSession_def Let_def GetUdpSession_def)
    next
      case (Some q)
      then have o: "owns w c q" using h by (simp add: owns_def)
      obtain j where j: "w_udpServer w = Some j" "in_table w j q" using owners_okD(4) [OF adapter_invD(3) [OF inv] o] by blast
      then have tq: "in_table w i q" using s(1) by simp
      have q: "q < length (un_sessions (w_net w))"
        "sv_connId2Session (w_servers w ! i) (us_ConnId (session_at w q)) = Some q"
        using in_table_session [OF adapter_invD(1) [OF inv] tq] by simp_all
      then have ne: "us_ConnId s \<noteq> us_ConnId (session_at w q)" using s(6) by auto
      have "us_ConnId (session_at w1 q) = us_ConnId (session_at w q)" using q s(3) by (simp add: nth_append)
      moreover have "q \<noteq> r" using q s(2) by simp
      moreover have "in_table ?w2 i q"
      proof -
        have "w_servers w1 ! i = sv" by (subst s(5)) (simp add: s(7))
        then have "sv_connId2Session (w_servers w1 ! i) (us_ConnId (session_at w q)) = Some q"
          using q(2) ne s(8) by simp
        then show ?thesis using ok(3) by (auto simp: in_table_def)
      qed
      moreover have "adapter_inv_but (Some q) ?w2" using inv2 Some by simp
      ultimately obtain s' sv' where close: "world_CloseSession i (Some q) ?w2 =
          Done (?w2\<lparr>w_servers := (w_servers ?w2)[i := sv'], w_net := set_session q s' (w_net ?w2)\<rparr>)" "IsClosed s'"
          "adapter_inv (?w2\<lparr>w_servers := (w_servers ?w2)[i := sv'], w_net := set_session q s' (w_net ?w2)\<rparr>)"
          "sv_connId2Session sv' (us_ConnId (session_at w q)) = None"
        using adapter_inv_close [of q ?w2 i] by auto
      let ?w3 = "?w2\<lparr>w_servers := (w_servers ?w2)[i := sv'], w_net := set_session q s' (w_net ?w2)\<rparr>"
      have gone: "sv_connId2Session (w_servers ?w3 ! j) (us_ConnId (session_at w q)) = None" if "j < length (w_servers ?w3)" for j
      proof (cases "j = i")
        case False
        have "\<not> in_table ?w3 j p" for p
          using owners_okT(1) [OF adapter_invD(3) [OF close(3)], of j p] False same s(1) by auto
        then show ?thesis
          using that by (cases "sv_connId2Session (w_servers ?w3 ! j) (us_ConnId (session_at w q))") (auto simp: in_table_def)
      qed (use close(4) that in simp)
      note close gone
      then show ?thesis
        using run ok(1) bind Some same at new s(2,3) q(1) ne \<open>q \<noteq> r\<close>
        by (simp add: rotateDeviceUdpSession_def Let_def GetUdpSession_def nth_append)
    qed
  qed
qed

end
