(* ===== verification/AdapterRuns.thy ===== *)
theory AdapterRuns
  imports AdapterInvariant
begin

text \<open>
  The MQTT-UDP transport as a whole: every event that can reach it as one step, the invariant along all runs, when
  the message loop panics, and what a repeated hello and a delayed cleanup do.
\<close>

subsection \<open>Bringing a device online\<close>

lemma world_swap: "w\<lparr>w_deviceId2Conn := m, w_conns := xs\<rparr> = w\<lparr>w_conns := xs, w_deviceId2Conn := m\<rparr>"
  by simp

lemma Ensure_inv:
  assumes inv: "adapter_inv w" and aes: "cipher_ok aes"
  shows "\<exists>res w'. EnsureDeviceTransport aes now d w = Done (res, w') \<and> adapter_inv w' \<and>
    (\<forall>c. res = Inr c \<longrightarrow> w_deviceId2Conn w' d = Some c) \<and>
    (\<forall>c. w_deviceId2Conn w d = Some c \<longrightarrow> res = Inr c \<and> w' = upd_conn c (MarkBrokerOnline now) w)"
proof (cases "w_deviceId2Conn w d")
  case (Some c)
  then show ?thesis
    using adapter_inv_upd_conn [OF inv conn_frame_ops(1), of c now]
    by (simp add: EnsureDeviceTransport_def getDeviceSession_def)
next
  case None
  obtain res w1 where run: "createUdpSession aes now d w = (res, w1)" by (cases "createUdpSession aes now d w")
  consider (err) e where "res = Inl e" "adapter_inv w1"
    | (ok) i r where "res = Inr (i, r)" "adapter_inv_but (Some r) w1" "in_table w1 i r" "created_session d i r w w1"
    using adapter_inv_create [OF inv aes run] by blast
  then show ?thesis
  proof cases
    case err
    then show ?thesis using run None by (simp add: EnsureDeviceTransport_def getDeviceSession_def)
  next
    case ok
    show ?thesis
    proof (cases "w_client w1")
      case None
      then show ?thesis using adapter_inv_close [OF ok(2,3)] run ok(1) \<open>w_deviceId2Conn w d = None\<close>
        by (auto simp: EnsureDeviceTransport_def getDeviceSession_def)
    next
      case (Some cl)
      obtain s sv where s: "r = length (un_sessions (w_net w))"
        "un_sessions (w_net w1) = un_sessions (w_net w) @ [s]" "us_DeviceId s = d"
        "w1 = w\<lparr>w_servers := (w_servers w)[i := sv], w_net := w_net w1\<rparr>"
        using ok(4) unfolding created_session_def by blast
      have free: "w_deviceId2Conn w1 d = None" using None by (subst s(4)) simp
      have sess: "session_at w1 r = s" using s by simp
      let ?c = "length (w_conns w1)"
      let ?new = "NewMqttUdpConn now d (ServerPubTopicPrefix @ replace_rune 58 95 d) (Some cl) (Some i) (Some r)"
      let ?x = "OnClose AdapterDisconnect (MarkBrokerOnline now (SetData ''full_nonce'' (snd (GetAesKeyAndNonce s))
        (SetData ''aes_key'' (fst (GetAesKeyAndNonce s)) (SetUdpSession (Some r) ?new))))"
      let ?w4 = "w1\<lparr>w_conns := w_conns w1 @ [?x], w_deviceId2Conn := (w_deviceId2Conn w1)(d \<mapsto> ?c)\<rparr>"
      have "adapter_inv ?w4"
        by (rule adapter_inv_register [OF ok(2,3) free])
          (simp_all add: OnClose_def MarkBrokerOnline_def SetData_def SetUdpSession_def NewMqttUdpConn_def hands_out_def sess s(3))
      moreover have "EnsureDeviceTransport aes now d w = Done (Inr ?c, notify cb_onNewConnection (NewConnection ?c) ?w4)"
        using run ok(1) Some None sess
        by (simp add: EnsureDeviceTransport_def getDeviceSession_def Let_def bindUdpSessionData_def upd_conn_def
            SetDeviceSession_def case_prod_beta world_swap)
      ultimately show ?thesis using None by (simp add: notify_def)
    qed
  qed
qed

definition stale_for :: "instant \<Rightarrow> gotext \<Rightarrow> int \<Rightarrow> mqtt_world \<Rightarrow> bool" where
  "stale_for now d ts w \<longleftrightarrow> (\<exists>st. getLifecycleState w d = Some st \<and> 0 < lc_lastEventTs st \<and> event_ts now ts < lc_lastEventTs st)"

lemma markDeviceOnline_world:
  "\<exists>f. snd (markDeviceOnline now d ts w) = w\<lparr>w_lifecycle := f\<rparr>"
  by (cases "getOrCreateLifecycleState w d")
    (auto simp: markDeviceOnline_def set_lifecycle_def Let_def intro: exI [of _ "w_lifecycle w"])

lemma markDeviceOffline_world:
  "adapter_inv_but orp (snd (markDeviceOffline now d ts w)) = adapter_inv_but orp w"
  "w_deviceId2Conn (snd (markDeviceOffline now d ts w)) = w_deviceId2Conn w"
  by (cases "getOrCreateLifecycleState w d"; simp add: markDeviceOffline_def set_lifecycle_def Let_def)+

lemma markDeviceOnline_accepts:
  assumes "d \<noteq> []"
  shows "snd (fst (markDeviceOnline now d ts w)) \<longleftrightarrow> \<not> stale_for now d ts w"
proof (cases "getLifecycleState w d")
  case None
  then show ?thesis
    using assms by (simp add: markDeviceOnline_def getOrCreateLifecycleState_def stale_for_def event_stale_def
        new_lifecycle_state_def Let_def)
next
  case (Some st)
  then show ?thesis
    using assms by (simp add: markDeviceOnline_def getOrCreateLifecycleState_def stale_for_def event_stale_def Let_def)
qed

lemma promote_existing:
  assumes "w_deviceId2Conn w d = Some c"
  shows "\<exists>n a f. promoteDeviceOnline aes now d ts w = Done (Inr (Some c), n, a,
    if a then upd_conn c (MarkBrokerOnline now) (upd_conn c (MarkBrokerOnline now) (w\<lparr>w_lifecycle := f\<rparr>)) else w\<lparr>w_lifecycle := f\<rparr>)"
proof -
  obtain n a w1 where m: "markDeviceOnline now d ts w = ((n, a), w1)" by (metis prod.exhaust)
  then obtain f where w1: "w1 = w\<lparr>w_lifecycle := f\<rparr>" using markDeviceOnline_world [of now d ts w] by auto
  show ?thesis
  proof (cases a)
    case True
    then have "promoteDeviceOnline aes now d ts w =
        Done (Inr (Some c), n, True, upd_conn c (MarkBrokerOnline now) (upd_conn c (MarkBrokerOnline now) w1))"
      using m w1 assms by (simp add: promoteDeviceOnline_def EnsureDeviceTransport_def getDeviceSession_def)
    then show ?thesis using w1 by (intro exI [of _ n] exI [of _ True] exI [of _ f]) simp
  next
    case False
    then have "promoteDeviceOnline aes now d ts w = Done (Inr (Some c), False, False, w1)"
      using m w1 assms by (simp add: promoteDeviceOnline_def getDeviceSession_def)
    then show ?thesis using w1 by (intro exI [of _ False] exI [of _ f]) simp
  qed
qed

lemma promote_inv:
  assumes inv: "adapter_inv w" and aes: "cipher_ok aes" and d: "d \<noteq> []"
  shows "\<exists>res n a w'. promoteDeviceOnline aes now d ts w = Done (res, n, a, w') \<and> adapter_inv w' \<and>
    (\<forall>c. res = Inr (Some c) \<longrightarrow> w_deviceId2Conn w' d = Some c) \<and>
    (res = Inr None \<longleftrightarrow> stale_for now d ts w \<and> w_deviceId2Conn w d = None)"
proof -
  obtain n a w1 where m: "markDeviceOnline now d ts w = ((n, a), w1)" by (metis prod.exhaust)
  then obtain f where w1: "w1 = w\<lparr>w_lifecycle := f\<rparr>" using markDeviceOnline_world [of now d ts w] by auto
  have a: "a \<longleftrightarrow> \<not> stale_for now d ts w" using markDeviceOnline_accepts [OF d, of now ts w] m by simp
  have inv1: "adapter_inv w1" using inv w1 by simp
  show ?thesis
  proof (cases a)
    case False
    have "w_deviceId2Conn w1 = w_deviceId2Conn w" using w1 by simp
    moreover from this have "promoteDeviceOnline aes now d ts w = Done (Inr (w_deviceId2Conn w d), False, False, w1)"
      using m False by (simp add: promoteDeviceOnline_def getDeviceSession_def)
    ultimately show ?thesis using inv1 a False
      by (intro exI [of _ "Inr (w_deviceId2Conn w d)"] exI [of _ False] exI [of _ w1]) simp
  next
    case True
    obtain res w2 where e: "EnsureDeviceTransport aes now d w1 = Done (res, w2)" "adapter_inv w2"
      "\<forall>c. res = Inr c \<longrightarrow> w_deviceId2Conn w2 d = Some c"
      using Ensure_inv [OF inv1 aes, of now d] by (elim exE conjE) (rule that)
    have ran: "promoteDeviceOnline aes now d ts w = (case res of
        Inl e \<Rightarrow> Done (Inl e, n, True, w2)
      | Inr c \<Rightarrow> Done (Inr (Some c), n, True, upd_conn c (MarkBrokerOnline now) w2))"
      using True m e(1) by (simp add: promoteDeviceOnline_def)
    show ?thesis
    proof (cases res)
      case (Inl x)
      then show ?thesis using ran e(2) True a by (intro exI [of _ "Inl x"] exI [of _ n] exI [of _ True] exI [of _ w2]) simp
    next
      case (Inr c)
      let ?w3 = "upd_conn c (MarkBrokerOnline now) w2"
      have "adapter_inv ?w3" by (rule adapter_inv_upd_conn [OF e(2) conn_frame_ops(1)])
      moreover have "promoteDeviceOnline aes now d ts w = Done (Inr (Some c), n, True, ?w3)" using ran Inr by simp
      moreover have "w_deviceId2Conn ?w3 d = Some c" using e(3) Inr by simp
      moreover have "\<not> stale_for now d ts w" using True a by simp
      ultimately show ?thesis
        by (intro exI [of _ "Inr (Some c)"] exI [of _ n] exI [of _ True] exI [of _ ?w3]) simp
    qed
  qed
qed

subsection \<open>Messages\<close>

definition keeps_inv :: "mqtt_world run \<Rightarrow> bool" where
  "keeps_inv r \<longleftrightarrow> (\<exists>w'. r = Done w' \<and> adapter_inv w')"

lemma keeps_inv_Done [simp]: "keeps_inv (Done w) = adapter_inv w"
  by (simp add: keeps_inv_def)

lemma PushMsg_inv:
  assumes inv: "adapter_inv w" and c: "c < length (w_conns w)"
  shows "keeps_inv (run_bind (PushMsgToRecvCmd now payload (conn_at w c)) (\<lambda>(_, x). Done (upd_conn c (\<lambda>_. x) w)))"
proof -
  have "\<not> c_closed (mc_recvCmdChan (conn_at w c))" using adapter_invD(2) [OF inv] c by (simp add: conns_ok_def)
  then obtain res x where "PushMsgToRecvCmd now payload (conn_at w c) = Done (res, x)"
    "mc_DeviceId x = mc_DeviceId (conn_at w c)" "mc_udpServer x = mc_udpServer (conn_at w c)"
    "mc_UdpSession x = mc_UdpSession (conn_at w c)" "mc_data x = mc_data (conn_at w c)"
    "mc_onCloseCbList x = mc_onCloseCbList (conn_at w c)"
    "c_closed (mc_recvCmdChan x) = c_closed (mc_recvCmdChan (conn_at w c))"
    by (cases "length (c_buf (mc_recvCmdChan (conn_at w c))) < cmd_chan_cap")
      (simp_all add: PushMsgToRecvCmd_def chan_send_def)
  then show ?thesis using adapter_inv_upd_const [OF inv, of x c] by simp
qed

lemma push_after:
  assumes inv: "adapter_inv w" and reg: "w_deviceId2Conn w d = Some c"
  shows "keeps_inv (run_bind (PushMsgToRecvCmd now payload (conn_at w c)) (\<lambda>(_, x). Done (upd_conn c (\<lambda>_. x) w)))"
  using PushMsg_inv [OF inv conns_okD(1) [OF adapter_invD(2) [OF inv] reg]] .

lemma w_deviceId2Conn_notify [simp]: "w_deviceId2Conn (notify cb e w) = w_deviceId2Conn w"
  by (simp add: notify_def)

lemma handleClientMessage_inv:
  assumes inv: "adapter_inv w" and aes: "cipher_ok aes" and d: "d \<noteq> []"
  shows "if stale_for now d (unix_milli now) w \<and> w_deviceId2Conn w d = None
     then handleClientMessage aes now ty d payload w = Panic
     else keeps_inv (handleClientMessage aes now ty d payload w)"
proof -
  obtain res n a w1 where p: "promoteDeviceOnline aes now d (unix_milli now) w = Done (res, n, a, w1)" "adapter_inv w1"
    and reg: "\<forall>c. res = Inr (Some c) \<longrightarrow> w_deviceId2Conn w1 d = Some c"
    and nil: "res = Inr None \<longleftrightarrow> stale_for now d (unix_milli now) w \<and> w_deviceId2Conn w d = None"
    using promote_inv [OF inv aes d, of now "unix_milli now"] by (elim exE conjE) (rule that)
  let ?w2 = "if n then notify cb_onDeviceOnline (DeviceOnline d) w1 else w1"
  let ?w3 = "if n then notify cb_onTransportReady (TransportReady d) ?w2 else ?w2"
  have i3: "adapter_inv ?w3" and m3: "w_deviceId2Conn ?w3 = w_deviceId2Conn w1" using p(2) by simp_all
  show ?thesis
  proof (cases res)
    case (Inl e)
    then show ?thesis using p nil by (simp add: handleClientMessage_def Let_def)
  next
    case (Inr ds)
    note ds = this
    show ?thesis
    proof (cases ds)
      case None
      then show ?thesis using p(1) nil ds by (simp add: handleClientMessage_def getDeviceSession_def Let_def)
    next
      case (Some c)
      have reg3: "w_deviceId2Conn ?w3 d = Some c" using reg Inr Some m3 by simp
      have no: "\<not> (stale_for now d (unix_milli now) w \<and> w_deviceId2Conn w d = None)" using nil Inr Some by auto
      show ?thesis
      proof (cases "getDeviceSession w d \<noteq> None \<and> ty = lit ''hello''")
        case True
        obtain r w4 where r: "rotateDeviceUdpSession aes now (Some c) d ?w3 = Done (r, w4)" "adapter_inv w4"
          "w_deviceId2Conn w4 = w_deviceId2Conn ?w3"
          using rotate_inv [OF i3 aes reg3, where now = now] by (elim exE conjE) (rule that)
        have "keeps_inv (case r of Inl _ \<Rightarrow> Done w4 | Inr _ \<Rightarrow>
            run_bind (PushMsgToRecvCmd now payload (conn_at w4 c)) (\<lambda>(_, x). Done (upd_conn c (\<lambda>_. x) w4)))"
          using r(2) push_after [OF r(2)] r(3) reg3 by (cases r) simp_all
        then show ?thesis
          unfolding if_not_P [OF no] handleClientMessage_def Let_def using p(1) ds Some True r(1) by (cases r) simp_all
      next
        case False
        then show ?thesis
          unfolding if_not_P [OF no] handleClientMessage_def Let_def if_not_P [OF False]
          using p(1) ds Some push_after [OF i3 reg3, of now payload] by simp
      qed
    qed
  qed
qed

lemma handleLifecycleMessage_inv:
  assumes inv: "adapter_inv w" and aes: "cipher_ok aes"
  shows "keeps_inv (handleLifecycleMessage aes um now payload w)"
proof (cases "um payload")
  case None
  then show ?thesis using inv by (simp add: handleLifecycleMessage_def)
next
  case (Some ev)
  let ?d = "trim_space (le_DeviceID ev)"
  consider "?d = []" | (on) "?d \<noteq> []" "trim_space (le_State ev) = MqttLifecycleStateOnline"
    | (off) "?d \<noteq> []" "trim_space (le_State ev) \<noteq> MqttLifecycleStateOnline" "trim_space (le_State ev) = MqttLifecycleStateOffline"
    | (other) "trim_space (le_State ev) \<noteq> MqttLifecycleStateOnline" "trim_space (le_State ev) \<noteq> MqttLifecycleStateOffline"
    by blast
  then show ?thesis
  proof cases
    case 1
    then show ?thesis using inv Some by (simp add: handleLifecycleMessage_def)
  next
    case on
    obtain res n a w1 where "promoteDeviceOnline aes now ?d (le_Ts ev) w = Done (res, n, a, w1)" "adapter_inv w1"
      using promote_inv [OF inv aes on(1), of now "le_Ts ev"] by (elim exE conjE) (rule that)
    then show ?thesis using on Some by (cases res) (simp_all add: handleLifecycleMessage_def Let_def)
  next
    case off
    obtain n v w1 where m: "markDeviceOffline now ?d (le_Ts ev) w = ((n, v), w1)" by (metis prod.exhaust)
    then have i1: "adapter_inv w1" using markDeviceOffline_world(1) [of None now ?d "le_Ts ev" w] inv by simp
    then have "adapter_inv (upd_conn c (MarkBrokerOffline now (w_grace w1)) w1)" for c
      by (rule adapter_inv_upd_conn [OF _ conn_frame_ops(2)])
    then show ?thesis
      using off Some m i1 by (cases "getDeviceSession w1 ?d") (simp_all add: handleLifecycleMessage_def Let_def)
  next
    case other
    then show ?thesis using inv Some by (simp add: handleLifecycleMessage_def Let_def)
  qed
qed

lemma cleanupOfflineTransport_inv:
  assumes inv: "adapter_inv w"
  shows "keeps_inv (cleanupOfflineTransport d v w)"
proof (cases "getLifecycleState w d")
  case None
  then show ?thesis using inv by (simp add: cleanupOfflineTransport_def)
next
  case (Some st)
  let ?w1 = "set_lifecycle d (Some (st\<lparr>lc_cleanupTimer := None\<rparr>)) w"
  have i1: "adapter_inv ?w1" using inv by simp
  show ?thesis
  proof (cases "w_deviceId2Conn w d")
    case None
    then show ?thesis using Some inv i1
      by (simp add: cleanupOfflineTransport_def getDeviceSession_def Let_def set_lifecycle_def)
  next
    case (Some c)
    have "c < length (w_conns ?w1)"
      using conns_okD(1) [OF adapter_invD(2) [OF inv] Some] by (simp add: set_lifecycle_def)
    then have "keeps_inv (conn_Destroy c ?w1)" using conn_Destroy_inv [OF i1] by (auto simp: keeps_inv_def)
    then show ?thesis using \<open>getLifecycleState w d = Some st\<close> Some inv
      by (simp add: cleanupOfflineTransport_def getDeviceSession_def Let_def set_lifecycle_def)
  qed
qed
subsection \<open>All events\<close>

inductive adapter_step ::
  "(bytes \<Rightarrow> block_cipher) \<Rightarrow> (bytes \<Rightarrow> lifecycle_event option) \<Rightarrow> (bytes \<Rightarrow> gotext option) \<Rightarrow> mqtt_world \<Rightarrow> mqtt_world \<Rightarrow> bool"
  for aes um ut where
  st_receive: "handleMessage msg w = Done w' \<Longrightarrow> adapter_step aes um ut w w'"
| st_process: "processMessage aes um ut now w = Done w' \<Longrightarrow> adapter_step aes um ut w w'"
| st_timer: "(d, v) \<in> set (w_armed w) \<Longrightarrow> cleanupOfflineTransport d v w = Done w' \<Longrightarrow> adapter_step aes um ut w w'"
| st_idle: "checkClientActive now ks w = Done w' \<Longrightarrow> adapter_step aes um ut w w'"
| st_close: "c < length (w_conns w) \<Longrightarrow> conn_Close c w = Done w' \<Longrightarrow> adapter_step aes um ut w w'"
| st_close_audio: "c < length (w_conns w) \<Longrightarrow> CloseAudioChannel c w = Done w' \<Longrightarrow> adapter_step aes um ut w w'"
| st_on_close: "adapter_step aes um ut w (upd_conn c (OnClose SessionClosed) w)"
| st_send_audio: "c < length (w_conns w) \<Longrightarrow> SendAudio audio (conn_at w c) (w_net w) = Done (res, net)
    \<Longrightarrow> adapter_step aes um ut w (w\<lparr>w_net := net\<rparr>)"
| st_recv_audio: "c < length (w_conns w) \<Longrightarrow> RecvAudio now ch (conn_at w c) (w_net w) = Some (res2, x, net)
    \<Longrightarrow> adapter_step aes um ut w (upd_conn c (\<lambda>_. x) (w\<lparr>w_net := net\<rparr>))"
| st_send_cmd: "SendCmd now pub m (conn_at w c) = (res3, x) \<Longrightarrow> adapter_step aes um ut w (upd_conn c (\<lambda>_. x) w)"
| st_recv_cmd: "RecvCmd ch (conn_at w c) = Some (res4, x) \<Longrightarrow> adapter_step aes um ut w (upd_conn c (\<lambda>_. x) w)"
| st_packet: "i < length (w_servers w) \<Longrightarrow> processPacket now addr pkt (w_servers w ! i) (w_net w) = Done net
    \<Longrightarrow> adapter_step aes um ut w (w\<lparr>w_net := net\<rparr>)"
| st_sender_take: "sender_take r (w_net w) = (res5, net) \<Longrightarrow> r < length (un_sessions (w_net w))
    \<Longrightarrow> adapter_step aes um ut w (w\<lparr>w_net := net\<rparr>)"
| st_sender_deliver: "sender_deliver ok r dat remote (w_servers w ! i) (w_net w) = Some (out, net) \<Longrightarrow>
    r < length (un_sessions (w_net w)) \<Longrightarrow> adapter_step aes um ut w (w\<lparr>w_net := net\<rparr>)"
| st_connect: "adapter_step aes um ut w (connectAndRetry attempts w)"
| st_new_server: "adapter_step aes um ut w (w\<lparr>w_servers := w_servers w @ [snd (sv_Start b (NewUDPServer p h q))]\<rparr>)"
| st_reload_mqtt: "ReloadMqttClient ks cfg w = Done w' \<Longrightarrow> adapter_step aes um ut w w'"
| st_reload_udp: "j < length (w_servers w) \<Longrightarrow> dom (w_deviceId2Conn w) \<subseteq> set ks \<Longrightarrow>
    ReloadUdpServer ks (Some j) w = Done w' \<Longrightarrow> adapter_step aes um ut w w'"
| st_stop: "adapter_Stop ks w = Done w' \<Longrightarrow> adapter_step aes um ut w w'"

lemma handleMessage_inv:
  assumes "adapter_inv w"
  shows "keeps_inv (handleMessage msg w)"
proof -
  have "\<not> c_closed (w_msgChan w)" using adapter_invD(2) [OF assms] by (simp add: conns_ok_def)
  then show ?thesis using assms by (simp add: handleMessage_def chan_send_def adapter_inv_msgChan)
qed

definition loop_panics ::
  "(bytes \<Rightarrow> gotext option) \<Rightarrow> instant \<Rightarrow> mqtt_world \<Rightarrow> bool" where
  "loop_panics ut now w \<longleftrightarrow> \<not> w_stopped w \<and>
     (\<exists>topic payload rest ty. c_buf (w_msgChan w) = (topic, payload) # rest \<and> topic \<noteq> MDeviceLifecycleTopic \<and>
        ut payload = Some ty \<and> snd (getDeviceIdByTopic topic) \<noteq> [] \<and>
        w_deviceId2Conn w (snd (getDeviceIdByTopic topic)) = None \<and>
        (\<exists>st. getLifecycleState w (snd (getDeviceIdByTopic topic)) = Some st \<and> 0 < lc_lastEventTs st \<and> unix_milli now < lc_lastEventTs st))"

lemma stale_for_now:
  "stale_for now d (unix_milli now) w \<longleftrightarrow>
     (\<exists>st. getLifecycleState w d = Some st \<and> 0 < lc_lastEventTs st \<and> unix_milli now < lc_lastEventTs st)"
  by (simp add: stale_for_def event_ts_def)

lemma processMessage_inv:
  assumes inv: "adapter_inv w" and aes: "cipher_ok aes"
  shows "if loop_panics ut now w then processMessage aes um ut now w = Panic
    else keeps_inv (processMessage aes um ut now w)"
proof (cases "w_stopped w \<or> c_buf (w_msgChan w) = []")
  case True
  then show ?thesis using inv by (auto simp: processMessage_def loop_panics_def chan_recv_def)
next
  case False
  then obtain topic payload rest where buf: "c_buf (w_msgChan w) = (topic, payload) # rest"
    by (metis list.exhaust surj_pair)
  let ?q = "(w_msgChan w)\<lparr>c_buf := rest\<rparr>" and ?d = "snd (getDeviceIdByTopic topic)"
  let ?w1 = "w\<lparr>w_msgChan := ?q\<rparr>"
  have i1: "adapter_inv ?w1" using adapter_inv_msgChan [OF inv, of ?q] by simp
  have st: "stale_for now ?d ts ?w1 = stale_for now ?d ts w" for ts by (simp add: stale_for_def getLifecycleState_def)
  have run: "processMessage aes um ut now w = (if topic = MDeviceLifecycleTopic then handleLifecycleMessage aes um now payload ?w1
      else case ut payload of None \<Rightarrow> Done ?w1 | Some ty \<Rightarrow> if ?d = [] then Done ?w1 else handleClientMessage aes now ty ?d payload ?w1)"
    unfolding processMessage_def Let_def using False buf by (simp add: chan_recv_def)
  show ?thesis
  proof (cases "topic = MDeviceLifecycleTopic")
    case True
    then show ?thesis using run handleLifecycleMessage_inv [OF i1 aes] buf by (simp add: loop_panics_def)
  next
    case ne: False
    show ?thesis
    proof (cases "ut payload")
      case None
      then show ?thesis using run ne i1 buf by (simp add: loop_panics_def)
    next
      case (Some ty)
      then show ?thesis
        using run ne i1 buf False st handleClientMessage_inv [OF i1 aes, of ?d now ty payload]
        by (cases "?d = []") (simp_all add: loop_panics_def stale_for_now [symmetric] split: if_splits)
    qed
  qed
qed

lemma session_frame_deliver: "session_frame s (deliver now addr sq dat s)"
  by (simp add: session_frame_def deliver_wf)

lemma net_frame_packet:
  assumes "server_inv sv net" "processPacket now addr pkt sv net = Done net'"
  shows "net_frame net net'"
proof (cases "length pkt < 16 \<or> sv_connId2Session sv (hex_EncodeToString (take 4 (drop 4 pkt))) = None")
  case True
  then show ?thesis using processPacket_unknown [OF True] assms(2) by simp
next
  case False
  then obtain r where "16 \<le> length pkt" "sv_connId2Session sv (hex_EncodeToString (take 4 (drop 4 pkt))) = Some r" by auto
  then show ?thesis
    using processPacket_known [OF assms(1)] assms(2) net_frame_set_session session_frame_deliver by auto
qed

lemma net_frame_SendAudio:
  assumes "session_wf (un_sessions net ! r)" "mc_UdpSession c = Some r" "SendAudio a c net = Done (res, net')"
  shows "net_frame net net'"
proof -
  let ?s = "un_sessions net ! r"
  obtain b s where s: "SendAudioData ?s a = Done (b, s)" "session_frame ?s s"
    using SendAudioData_cases [OF assms(1)] session_wf_send [OF assms(1)] assms(1)
    by (cases "IsClosed ?s"; cases "length (c_buf (us_SendChannel ?s)) < udp_chan_cap") (auto simp: session_frame_def)
  then have "net' = set_session r s net"
    using assms(2,3) by (auto simp: SendAudio_def GetUdpSession_def Let_def split: sum.splits if_splits)
  then show ?thesis using s(2) by (auto intro: net_frame_set_session)
qed
lemma net_frame_RecvAudio:
  assumes "\<And>r. mc_UdpSession c = Some r \<Longrightarrow> session_wf (un_sessions net ! r)" "RecvAudio now ch c net = Some (res, x, net')"
  shows "net_frame net net'"
    and "x = c \<or> x = c\<lparr>mc_lastActiveTs := unix_sec now\<rparr>"
proof -
  have "net' = net \<and> x = c \<or> (\<exists>r v q. mc_UdpSession c = Some r \<and> chan_recv (us_RecvChannel (un_sessions net ! r)) = Received v q \<and>
      net' = set_session r ((un_sessions net ! r)\<lparr>us_RecvChannel := q\<rparr>) net \<and> x = c\<lparr>mc_lastActiveTs := unix_sec now\<rparr>)"
    using assms(2) by (auto simp: RecvAudio_def GetUdpSession_def split: option.splits recv_choice.splits recv_result.splits)
  then show "net_frame net net'" "x = c \<or> x = c\<lparr>mc_lastActiveTs := unix_sec now\<rparr>"
    using session_wf_chan_recv(2) assms(1) by (auto intro!: net_frame_set_session simp: session_frame_def)
qed

lemma net_frame_sender_take:
  assumes "session_wf (un_sessions net ! r)" "sender_take r net = (res, net')"
  shows "net_frame net net'"
  using assms session_wf_chan_recv(1) [OF assms(1)]
  by (auto simp: sender_take_def session_frame_def intro!: net_frame_set_session split: recv_result.splits)

lemma Drain_chan: "DrainPendingAudio c n = Some (m, c') \<Longrightarrow> c_buf c' = [] \<and> c_closed c' = c_closed c"
  using Drain_returns_open [of c n] Drain_open [of "c_buf c" n] by (cases c) auto

lemma net_frame_sender_deliver:
  assumes "session_wf (un_sessions net ! r)" "sender_deliver ok r dat remote sv net = Some (out, net')"
  shows "net_frame net net'"
proof (cases remote)
  case None
  then obtain n q where "DrainPendingAudio (us_SendChannel (un_sessions net ! r)) 0 = Some (n, q)"
    "net' = set_session r ((un_sessions net ! r)\<lparr>us_SendChannel := q\<rparr>) net"
    using assms(2) by (auto simp: sender_deliver_def Let_def split: option.splits)
  then show ?thesis
    using Drain_chan by (auto simp: session_frame_def session_wf_def intro!: net_frame_set_session)
next
  case (Some a)
  let ?s1 = "(un_sessions net ! r)\<lparr>us_LocalSeq := us_LocalSeq (un_sessions net ! r) + 1\<rparr>"
  have "net_frame net (set_session r ?s1 net)" by (auto simp: session_frame_def intro!: net_frame_set_session)
  moreover have "un_sessions net' = un_sessions (set_session r ?s1 net)"
    using assms(2) Some Encrypt_udp_packet [OF assms(1), of dat]
    by (auto simp: sender_deliver_def Let_def writeToUDP_def split: if_splits)
  ultimately show ?thesis using net_frame_trans net_frame_same by blast
qed

lemma session_wf_owned:
  assumes "adapter_inv w" "c < length (w_conns w)" "mc_UdpSession (conn_at w c) = Some r"
  shows "session_wf (session_at w r)"
proof -
  have "owns w c r" using assms by (simp add: owns_def)
  then show ?thesis
    using owners_okD(4) [OF adapter_invD(3) [OF assms(1)]] in_table_session(3) [OF adapter_invD(1) [OF assms(1)]] by blast
qed

lemma adapter_inv_wf: "adapter_inv w \<Longrightarrow> r < length (un_sessions (w_net w)) \<Longrightarrow> session_wf (session_at w r)"
  by (simp add: adapter_inv_but_def tables_ok_def)

lemma fresh_server [simp]: "sv_connId2Session (snd (sv_Start b (NewUDPServer p h q))) = Map.empty"
  by (simp add: sv_Start_def NewUDPServer_def)

lemma adapter_inv_new_server:
  assumes inv: "adapter_inv w" and "sv_connId2Session sv = Map.empty"
  shows "adapter_inv (w\<lparr>w_servers := w_servers w @ [sv]\<rparr>)" (is "adapter_inv ?w")
proof -
  have tab: "in_table ?w = in_table w"
    using assms(2) by (auto simp: fun_eq_iff in_table_def nth_append less_Suc_eq)
  have eq: "owns ?w = owns w" "registered ?w = registered w" by (simp_all add: fun_eq_iff owns_def registered_def)
  have "owners_ok None ?w" using adapter_invD(3) [OF inv] unfolding owners_ok_def eq tab by simp
  moreover have "conns_ok ?w" using adapter_invD(2) [OF inv] by (simp add: conns_ok_def)
  moreover have "tables_ok ?w"
    using adapter_invD(1) [OF inv] assms(2)
    by (auto simp: tables_ok_def nth_append less_Suc_eq server_inv_def)
  ultimately show ?thesis by (simp add: adapter_inv_but_def)
qed

lemma adapter_inv_refresh:
  assumes "adapter_inv w"
  shows "adapter_inv (upd_conn c (\<lambda>_. (conn_at w c)\<lparr>mc_lastActiveTs := t\<rparr>) w)" "adapter_inv (upd_conn c (\<lambda>_. conn_at w c) w)"
  by (rule adapter_inv_upd_const [OF assms]; simp)+

lemma adapter_step_inv:
  assumes "adapter_step aes um ut w w'" "cipher_ok aes" "adapter_inv w"
  shows "adapter_inv w'"
  using assms(1)
proof cases
  case (st_receive msg)
  then show ?thesis using handleMessage_inv [OF assms(3), of msg] by simp
next
  case (st_process now)
  then show ?thesis using processMessage_inv [OF assms(3,2), of ut now um] by (simp split: if_splits)
next
  case (st_timer d v)
  then show ?thesis using cleanupOfflineTransport_inv [OF assms(3), of d v] by simp
next
  case (st_idle now ks)
  then show ?thesis using checkClientActive_inv [OF assms(3), of now ks] by auto
next
  case (st_close c)
  then show ?thesis using conn_Destroy_inv [OF assms(3) st_close(1)] by (auto simp: conn_Close_def)
next
  case (st_close_audio c)
  then show ?thesis using ReleaseUdpSession_inv [OF assms(3), of c "[]"] by (auto simp: CloseAudioChannel_def)
next
  case (st_on_close c)
  then show ?thesis using adapter_inv_upd_conn [OF assms(3) conn_frame_ops(3)] by simp
next
  case (st_send_audio c audio res net)
  have "net_frame (w_net w) net"
  proof (cases "mc_UdpSession (conn_at w c)")
    case None
    then show ?thesis using st_send_audio by (simp add: SendAudio_def GetUdpSession_def)
  next
    case (Some r)
    then show ?thesis using net_frame_SendAudio [OF session_wf_owned [OF assms(3)]] st_send_audio by blast
  qed
  then show ?thesis using st_send_audio adapter_inv_net [OF assms(3)] by simp
next
  case (st_recv_audio c now ch res2 x net)
  note f = net_frame_RecvAudio [OF session_wf_owned [OF assms(3) st_recv_audio(2)] st_recv_audio(3)]
  have "adapter_inv (w\<lparr>w_net := net\<rparr>)" using adapter_inv_net [OF assms(3) f(1)] .
  then show ?thesis using f(2) adapter_inv_refresh [of "w\<lparr>w_net := net\<rparr>" c] st_recv_audio(1) by auto
next
  case (st_send_cmd now pub m c res3 x)
  then have "x = (conn_at w c)\<lparr>mc_lastActiveTs := unix_sec now\<rparr>"
    by (auto simp: SendCmd_def Let_def split: option.splits if_splits)
  then show ?thesis using adapter_inv_refresh [OF assms(3)] st_send_cmd(1) by simp
next
  case (st_recv_cmd ch c res4 x)
  have "adapter_inv (upd_conn c (\<lambda>_. x) w)"
    by (rule adapter_inv_upd_const [OF assms(3)])
      (use st_recv_cmd(2) in \<open>auto simp: RecvCmd_def chan_recv_closed split: recv_choice.splits recv_result.splits\<close>)
  then show ?thesis using st_recv_cmd(1) by simp
next
  case (st_packet i now addr pkt net)
  then show ?thesis
    using adapter_inv_net [OF assms(3) net_frame_packet [OF tables_server [OF adapter_invD(1) [OF assms(3)]]]] by blast
next
  case (st_sender_take r res5 net)
  then show ?thesis using adapter_inv_net [OF assms(3) net_frame_sender_take [OF adapter_inv_wf [OF assms(3)]]] by blast
next
  case (st_sender_deliver ok r dat remote i out net)
  then show ?thesis using adapter_inv_net [OF assms(3) net_frame_sender_deliver [OF adapter_inv_wf [OF assms(3)]]] by blast
next
  case (st_connect attempts)
  then show ?thesis using adapter_inv_connectAndRetry [OF assms(3)] by simp
next
  case (st_new_server b p h q)
  then show ?thesis using adapter_inv_new_server [OF assms(3)] by simp
next
  case (st_reload_mqtt ks cfg)
  then show ?thesis using ReloadMqttClient_inv [OF assms(3), of ks cfg] by auto
next
  case (st_reload_udp j ks)
  then show ?thesis using ReloadUdpServer_inv [OF assms(3)] by fastforce
next
  case (st_stop ks)
  then show ?thesis using adapter_Stop_inv [OF assms(3), of ks] by auto
qed

definition adapter_start :: "mqtt_world \<Rightarrow> bool" where
  "adapter_start w \<longleftrightarrow> (\<exists>cfg cbs udp grace b p h q rnd.
     w = NewMqttUdpAdapter cfg cbs udp grace [snd (sv_Start b (NewUDPServer p h q))] \<lparr>un_sessions = [], un_rand = rnd, un_wire = []\<rparr>
     \<and> udp \<in> {None, Some 0})"

lemma adapter_start_inv: "adapter_start w \<Longrightarrow> adapter_inv w"
  by (auto simp: adapter_start_def NewMqttUdpAdapter_def adapter_inv_defs server_inv_def)

lemma reachable_inv:
  assumes "(adapter_step aes um ut)\<^sup>*\<^sup>* w0 w" "adapter_start w0" "cipher_ok aes"
  shows "adapter_inv w"
  using assms
proof (induction rule: rtranclp_induct)
  case base
  then show ?case by (simp add: adapter_start_inv)
next
  case (step w w')
  then show ?case using adapter_step_inv by blast
qed
subsection \<open>Who owns which session\<close>


definition example_start :: mqtt_world where
  "example_start = NewMqttUdpAdapter
     (Some \<lparr>cfg_Broker = lit ''localhost'', cfg_Type = lit ''tcp'', cfg_Port = 1883, cfg_ClientID = [], cfg_Username = [], cfg_Password = []\<rparr>)
     \<lparr>cb_onNewConnection = True, cb_onDeviceOnline = True, cb_onDeviceOffline = True, cb_onTransportReady = True\<rparr>
     (Some 0) None [snd (sv_Start True (NewUDPServer 8990 [] 8990))]
     \<lparr>un_sessions = [], un_rand = map of_nat [0..<60], un_wire = []\<rparr>"

definition example_hello :: "gotext \<times> bytes" where
  "example_hello = (MDevicePubTopicPrefix @ lit ''SN1'', [1])"

abbreviation example_type :: "bytes \<Rightarrow> gotext option" where
  "example_type \<equiv> \<lambda>p. Some (lit ''hello'')"

definition example_event :: "bytes \<Rightarrow> lifecycle_event option" where
  "example_event p = Some \<lparr>le_Type = lit ''mqtt_lifecycle'', le_DeviceID = lit ''SN1'', le_State = MqttLifecycleStateOffline,
     le_ClientID = [], le_Ts = 5000\<rparr>"

definition example_connected :: "mqtt_world run" where
  "example_connected = run_bind (handleMessage example_hello (connectAndRetry [(1, True, [])] example_start))
     (processMessage (\<lambda>k b. b) example_event example_type (10 ^ 9))"

lemma example_cipher: "cipher_ok (\<lambda>k b. b)"
  by (simp add: cipher_ok_def block_size_16_def)

lemma example_adapter_start: "adapter_start example_start"
  unfolding adapter_start_def example_start_def by fastforce

lemma example_connected_eval:
  "case example_connected of
     Done w \<Rightarrow> w_deviceId2Conn w (lit ''SN1'') = Some 0 \<and> mc_UdpSession (conn_at w 0) = Some 0 \<and> 0 < length (w_servers w)
       \<and> sv_connId2Session (w_servers w ! 0) (hex_EncodeToString [24, 25, 26, 27]) = Some 0 \<and> w_udpServer w = Some 0
       \<and> un_rand (w_net w) = map of_nat [28..<60]
       \<and> sv_connId2Session (w_servers w ! 0) (hex_EncodeToString [52, 53, 54, 55]) = None
   | Panic \<Rightarrow> False"
  by code_simp

lemma example_connected_reach:
  "\<exists>w. example_connected = Done w \<and> (adapter_step (\<lambda>k b. b) example_event example_type)\<^sup>*\<^sup>* example_start w"
proof -
  obtain w where w: "example_connected = Done w" using example_connected_eval by (cases example_connected) auto
  let ?w1 = "connectAndRetry [(1, True, [])] example_start"
  obtain w2 where w2: "handleMessage example_hello ?w1 = Done w2"
      "processMessage (\<lambda>k b. b) example_event example_type (10 ^ 9) w2 = Done w"
    using w unfolding example_connected_def run_bind_Done by blast
  have "adapter_step (\<lambda>k b. b) example_event example_type example_start ?w1" by (rule st_connect)
  moreover have "adapter_step (\<lambda>k b. b) example_event example_type ?w1 w2" using w2(1) by (rule st_receive)
  moreover have "adapter_step (\<lambda>k b. b) example_event example_type w2 w" using w2(2) by (rule st_process)
  ultimately have "(adapter_step (\<lambda>k b. b) example_event example_type)\<^sup>*\<^sup>* example_start w"
    by (meson rtranclp.rtrancl_into_rtrancl rtranclp.rtrancl_refl)
  with w show ?thesis by blast
qed


subsection \<open>When the message loop panics\<close>

text \<open>
  C22. The message loop of the adapter returns on every message but one kind, and on that kind it panics (on its own
  goroutine, which ends the server): a well-formed message of a device that has no connection, when the device's last
  lifecycle event carries a timestamp later than the clock of this server. The online transition is then rejected as
  stale, no connection is made, and the message is pushed to a nil connection. Timers, idle checks, closing
  sessions, incoming packets and lifecycle events never panic.
\<close>

theorem message_loop_panics_iff:
  assumes "(adapter_step aes um ut)\<^sup>*\<^sup>* w0 w" "adapter_start w0" "cipher_ok aes"
  shows "(processMessage aes um ut now w = Panic \<longleftrightarrow> loop_panics ut now w)
    \<and> handleMessage msg w \<noteq> Panic \<and> handleLifecycleMessage aes um now payload w \<noteq> Panic
    \<and> cleanupOfflineTransport d v w \<noteq> Panic \<and> checkClientActive now ks w \<noteq> Panic \<and> adapter_Stop ks w \<noteq> Panic
    \<and> (c < length (w_conns w) \<longrightarrow> conn_Close c w \<noteq> Panic \<and> CloseAudioChannel c w \<noteq> Panic)
    \<and> (i < length (w_servers w) \<longrightarrow> processPacket now addr pkt (w_servers w ! i) (w_net w) \<noteq> Panic)"
proof -
  note inv = reachable_inv [OF assms]
  have "processMessage aes um ut now w = Panic \<longleftrightarrow> loop_panics ut now w"
    using processMessage_inv [OF inv assms(3), of ut now um] by (auto simp: keeps_inv_def split: if_splits)
  moreover have "handleMessage msg w \<noteq> Panic" "handleLifecycleMessage aes um now payload w \<noteq> Panic"
    "cleanupOfflineTransport d v w \<noteq> Panic"
    using handleMessage_inv [OF inv, of msg] handleLifecycleMessage_inv [OF inv assms(3), of um now payload]
      cleanupOfflineTransport_inv [OF inv, of d v] by (auto simp: keeps_inv_def)
  moreover have "checkClientActive now ks w \<noteq> Panic" "adapter_Stop ks w \<noteq> Panic"
    using checkClientActive_inv [OF inv, of now ks] adapter_Stop_inv [OF inv, of ks] by auto
  moreover have "conn_Close c w \<noteq> Panic \<and> CloseAudioChannel c w \<noteq> Panic" if "c < length (w_conns w)"
    using conn_Destroy_inv [OF inv that] ReleaseUdpSession_inv [OF inv that]
    by (auto simp: conn_Close_def CloseAudioChannel_def)
  moreover have "processPacket now addr pkt (w_servers w ! i) (w_net w) \<noteq> Panic" if "i < length (w_servers w)"
    using processPacket_inv [OF tables_server [OF adapter_invD(1) [OF inv] that], of now addr pkt] by auto
  ultimately show ?thesis by blast
qed

definition example_late :: "mqtt_world run" where
  "example_late = run_bind (handleMessage (MDeviceLifecycleTopic, [9]) example_start) (\<lambda>w1.
     run_bind (processMessage (\<lambda>k b. b) example_event example_type (10 ^ 9) w1) (handleMessage example_hello))"

lemma example_late_eval:
  "case example_late of
     Done w \<Rightarrow> \<not> w_stopped w \<and> c_buf (w_msgChan w) = [example_hello] \<and> w_deviceId2Conn w (lit ''SN1'') = None
       \<and> (case getLifecycleState w (lit ''SN1'') of None \<Rightarrow> False
          | Some st \<Rightarrow> 0 < lc_lastEventTs st \<and> unix_milli (10 ^ 9) < lc_lastEventTs st)
   | Panic \<Rightarrow> False"
  "snd (getDeviceIdByTopic (fst example_hello)) = lit ''SN1''" "fst example_hello \<noteq> MDeviceLifecycleTopic"
  by code_simp+

theorem message_loop_panics_iff_witness:
  "\<exists>w. example_late = Done w \<and> processMessage (\<lambda>k b. b) example_event example_type (10 ^ 9) w = Panic"
proof -
  obtain w where w: "example_late = Done w" using example_late_eval(1) by (cases example_late) auto
  obtain w1 w2 where s: "handleMessage (MDeviceLifecycleTopic, [9]) example_start = Done w1"
      "processMessage (\<lambda>k b. b) example_event example_type (10 ^ 9) w1 = Done w2" "handleMessage example_hello w2 = Done w"
    using w unfolding example_late_def run_bind_Done by blast
  have "adapter_step (\<lambda>k b. b) example_event example_type example_start w1" using s(1) by (rule st_receive)
  moreover have "adapter_step (\<lambda>k b. b) example_event example_type w1 w2" using s(2) by (rule st_process)
  moreover have "adapter_step (\<lambda>k b. b) example_event example_type w2 w" using s(3) by (rule st_receive)
  ultimately have reach: "(adapter_step (\<lambda>k b. b) example_event example_type)\<^sup>*\<^sup>* example_start w"
    by (meson rtranclp.rtrancl_into_rtrancl rtranclp.rtrancl_refl)
  have e: "\<not> w_stopped w" "c_buf (w_msgChan w) = [example_hello]" "w_deviceId2Conn w (lit ''SN1'') = None"
    "stale_for (10 ^ 9) (lit ''SN1'') (unix_milli (10 ^ 9)) w"
    using example_late_eval(1) unfolding w run.case by (auto simp: stale_for_now split: option.splits)
  have "loop_panics example_type (10 ^ 9) w"
    unfolding loop_panics_def stale_for_now [symmetric] using e example_late_eval(2,3)
    by (intro conjI exI [of _ "fst example_hello"] exI [of _ "snd example_hello"] exI [of _ "[]"] exI [of _ "lit ''hello''"]) simp_all
  then show ?thesis
    using message_loop_panics_iff [OF reach example_adapter_start example_cipher, of "10 ^ 9"] w by blast
qed
subsection \<open>Saying hello again\<close>

lemma CreateSession_succeeds:
  assumes "28 \<le> length (un_rand net)" "sv_connId2Session sv (hex_EncodeToString (take 4 (drop 24 (un_rand net)))) = None"
  shows "fst (CreateSession aes now d cid sv net) \<noteq> None"
proof -
  obtain k where k: "maxConnIDGenerateAttempts = Suc k" by (simp add: maxConnIDGenerateAttempts_def)
  have "16 \<le> length (un_rand net) - 8" "4 \<le> length (un_rand net) - 24" using assms(1) by simp_all
  then show ?thesis
    using assms by (simp add: CreateSession_def generateSessionID_def fillRandomBytes_def NewCipher_def Let_def k)
qed

lemma push_keeps:
  assumes "run_bind (PushMsgToRecvCmd now payload (conn_at w c)) (\<lambda>(_, x). Done (upd_conn c (\<lambda>_. x) w)) = Done w'"
    and "c < length (w_conns w)"
  shows "w_net w' = w_net w" "w_servers w' = w_servers w" "mc_UdpSession (conn_at w' c) = mc_UdpSession (conn_at w c)"
proof -
  obtain res x where x: "PushMsgToRecvCmd now payload (conn_at w c) = Done (res, x)" "w' = upd_conn c (\<lambda>_. x) w"
    using assms(1) by (auto simp: run_bind_Done)
  then have "mc_UdpSession x = mc_UdpSession (conn_at w c)"
    by (auto simp: PushMsgToRecvCmd_def split: send_result.splits)
  with x(2) assms(2) show "w_net w' = w_net w" "w_servers w' = w_servers w"
    "mc_UdpSession (conn_at w' c) = mc_UdpSession (conn_at w c)"
    by (simp_all add: conn_at_upd_conn)
qed

lemma hello_existing:
  assumes reg: "w_deviceId2Conn w d = Some c" and c: "c < length (w_conns w)"
  shows "\<exists>w3. handleClientMessage aes now (lit ''hello'') d payload w =
      run_bind (rotateDeviceUdpSession aes now (Some c) d w3) (\<lambda>(r, w4). case r of
          Inl _ \<Rightarrow> Done w4
        | Inr _ \<Rightarrow> run_bind (PushMsgToRecvCmd now payload (conn_at w4 c)) (\<lambda>(_, x). Done (upd_conn c (\<lambda>_. x) w4)))
    \<and> (adapter_inv w \<longrightarrow> adapter_inv w3) \<and> w_deviceId2Conn w3 = w_deviceId2Conn w \<and> w_net w3 = w_net w
    \<and> w_servers w3 = w_servers w \<and> w_udpServer w3 = w_udpServer w \<and> length (w_conns w3) = length (w_conns w)
    \<and> mc_UdpSession (conn_at w3 c) = mc_UdpSession (conn_at w c)"
proof -
  obtain n a f where p: "promoteDeviceOnline aes now d (unix_milli now) w = Done (Inr (Some c), n, a,
      if a then upd_conn c (MarkBrokerOnline now) (upd_conn c (MarkBrokerOnline now) (w\<lparr>w_lifecycle := f\<rparr>)) else w\<lparr>w_lifecycle := f\<rparr>)"
    (is "_ = Done (_, _, _, ?w1)")
    using promote_existing [OF reg, of aes now "unix_milli now"] by (elim exE) (rule that)
  let ?w2 = "if n then notify cb_onDeviceOnline (DeviceOnline d) ?w1 else ?w1"
  let ?w3 = "if n then notify cb_onTransportReady (TransportReady d) ?w2 else ?w2"
  have run: "handleClientMessage aes now (lit ''hello'') d payload w =
      run_bind (rotateDeviceUdpSession aes now (Some c) d ?w3) (\<lambda>(r, w4). case r of
          Inl _ \<Rightarrow> Done w4
        | Inr _ \<Rightarrow> run_bind (PushMsgToRecvCmd now payload (conn_at w4 c)) (\<lambda>(_, x). Done (upd_conn c (\<lambda>_. x) w4)))"
    unfolding handleClientMessage_def Let_def p using reg by (simp only: run_bind.simps prod.case sum.case option.case getDeviceSession_def) simp
  have "adapter_inv w \<longrightarrow> adapter_inv ?w1"
    using adapter_inv_upd_conn [OF adapter_inv_upd_conn [OF _ conn_frame_ops(1)] conn_frame_ops(1), of None "w\<lparr>w_lifecycle := f\<rparr>"]
    by simp
  moreover have "w_deviceId2Conn ?w1 = w_deviceId2Conn w" "w_net ?w1 = w_net w" "w_servers ?w1 = w_servers w"
    "w_udpServer ?w1 = w_udpServer w" "length (w_conns ?w1) = length (w_conns w)"
    by simp_all
  moreover have "mc_UdpSession (conn_at ?w1 c) = mc_UdpSession (conn_at w c)"
    using c by (simp add: conn_at_upd_conn MarkBrokerOnline_def)
  ultimately show ?thesis
    by (intro exI [of _ ?w3] conjI) (simp_all add: run notify_def)
qed

text \<open>
  When a connected device says hello again, its UDP session is replaced: the connection gets a new session with
  a new connection id and hands out that session's key and nonce; the old session is closed; and from then on
  packets that carry the old connection id change nothing on any server, so they cannot rebind the address. (The random
  source must hold the 28 bytes of a session, with a connection id that is free.)
\<close>

theorem hello_rotates_session:
  assumes reach: "(adapter_step aes um ut)\<^sup>*\<^sup>* w0 w" "adapter_start w0" "cipher_ok aes"
    and reg: "w_deviceId2Conn w d = Some c" and q: "mc_UdpSession (conn_at w c) = Some q" and i: "w_udpServer w = Some i"
    and rnd: "28 \<le> length (un_rand (w_net w))"
      "sv_connId2Session (w_servers w ! i) (hex_EncodeToString (take 4 (drop 24 (un_rand (w_net w))))) = None"
  shows "\<exists>w' r. handleClientMessage aes now (lit ''hello'') d payload w = Done w'
    \<and> r \<noteq> q \<and> mc_UdpSession (conn_at w' c) = Some r \<and> hands_out (conn_at w' c) (session_at w' r) \<and> \<not> IsClosed (session_at w' r)
    \<and> IsClosed (session_at w' q) \<and> us_ConnId (session_at w' r) \<noteq> us_ConnId (session_at w q)
    \<and> (\<forall>j t addr pkt. j < length (w_servers w') \<and> hex_EncodeToString (take 4 (drop 4 pkt)) = us_ConnId (session_at w q)
        \<longrightarrow> processPacket t addr pkt (w_servers w' ! j) (w_net w') = Done (w_net w'))"
proof -
  note inv = reachable_inv [OF reach]
  have c: "c < length (w_conns w)" using conns_okD(1) [OF adapter_invD(2) [OF inv] reg] .
  obtain w3 where run: "handleClientMessage aes now (lit ''hello'') d payload w =
      run_bind (rotateDeviceUdpSession aes now (Some c) d w3) (\<lambda>(r, w4). case r of
          Inl _ \<Rightarrow> Done w4
        | Inr _ \<Rightarrow> run_bind (PushMsgToRecvCmd now payload (conn_at w4 c)) (\<lambda>(_, x). Done (upd_conn c (\<lambda>_. x) w4)))"
    and w3: "adapter_inv w3" "w_deviceId2Conn w3 d = Some c" "w_net w3 = w_net w" "w_servers w3 = w_servers w"
      "w_udpServer w3 = w_udpServer w" "length (w_conns w3) = length (w_conns w)" "mc_UdpSession (conn_at w3 c) = Some q"
    using hello_existing [OF reg c, of aes now payload] inv reg q by auto
  obtain res w4 where rot: "rotateDeviceUdpSession aes now (Some c) d w3 = Done (res, w4)" "adapter_inv w4"
      "w_deviceId2Conn w4 = w_deviceId2Conn w3" "length (w_conns w4) = length (w_conns w3)"
    and new: "\<forall>r. res = Inr r \<longrightarrow> mc_UdpSession (conn_at w4 c) = Some r \<and> r = length (un_sessions (w_net w3)) \<and>
      (\<forall>q. mc_UdpSession (conn_at w3 c) = Some q \<longrightarrow> IsClosed (session_at w4 q) \<and>
        (\<forall>j < length (w_servers w4). sv_connId2Session (w_servers w4 ! j) (us_ConnId (session_at w3 q)) = None) \<and>
        us_ConnId (session_at w4 r) \<noteq> us_ConnId (session_at w3 q))"
    and err: "\<forall>i e. w_udpServer w3 = Some i \<and> res = Inl e \<longrightarrow> fst (CreateSession aes now d [] (w_servers w3 ! i) (w_net w3)) = None"
    using rotate_inv [OF w3(1) reach(3) w3(2), of now] by (elim exE conjE) (rule that)
  have "fst (CreateSession aes now d [] (w_servers w3 ! i) (w_net w3)) \<noteq> None"
    using CreateSession_succeeds [OF rnd] w3 by simp
  then obtain r where r: "res = Inr r" using err w3(5) i by (cases res) auto
  have reg4: "w_deviceId2Conn w4 d = Some c" using rot(3) w3(2) by simp
  obtain w' where w': "run_bind (PushMsgToRecvCmd now payload (conn_at w4 c)) (\<lambda>(_, x). Done (upd_conn c (\<lambda>_. x) w4)) = Done w'"
      "adapter_inv w'"
    using push_after [OF rot(2) reg4, of now payload] by (auto simp: keeps_inv_def)
  have c4: "c < length (w_conns w4)" using c w3(6) rot(4) by simp
  note keep = push_keeps [OF w'(1) c4]
  have own: "owns w' c r"
    using new r keep(3) c4 w'(1) by (auto simp: owns_def run_bind_Done)
  note h = owners_okD [OF adapter_invD(3) [OF w'(2)] own]
  have "\<not> IsClosed (session_at w' r)" using h(4) in_table_session(2) [OF adapter_invD(1) [OF w'(2)]] by blast
  moreover have "r \<noteq> q" using new r w3 calculation keep(1) by auto
  moreover have "processPacket t addr pkt (w_servers w' ! j) (w_net w') = Done (w_net w')"
    if "j < length (w_servers w')" "hex_EncodeToString (take 4 (drop 4 pkt)) = us_ConnId (session_at w q)" for j t addr pkt
    using that new r w3 keep by (intro processPacket_unknown) simp
  moreover have "mc_UdpSession (conn_at w' c) = Some r" "IsClosed (session_at w' q)"
    "us_ConnId (session_at w' r) \<noteq> us_ConnId (session_at w q)"
    using new r keep w3 by auto
  ultimately show ?thesis
    using run rot(1) r w'(1) h(2) by (intro exI [of _ w'] exI [of _ r]) simp
qed

theorem hello_rotates_session_witness:
  "\<exists>w w' r. example_connected = Done w \<and> handleClientMessage (\<lambda>k b. b) (2 * 10 ^ 9) (lit ''hello'') (lit ''SN1'') [1] w = Done w'
     \<and> mc_UdpSession (conn_at w' 0) = Some r \<and> r \<noteq> 0 \<and> IsClosed (session_at w' 0)"
proof -
  obtain w where w: "example_connected = Done w" "(adapter_step (\<lambda>k b. b) example_event example_type)\<^sup>*\<^sup>* example_start w"
    using example_connected_reach by blast
  have e: "w_deviceId2Conn w (lit ''SN1'') = Some 0" "mc_UdpSession (conn_at w 0) = Some 0" "w_udpServer w = Some 0"
    "un_rand (w_net w) = map of_nat [28..<60]"
    "sv_connId2Session (w_servers w ! 0) (hex_EncodeToString [52, 53, 54, 55]) = None"
    using example_connected_eval unfolding w(1) by simp_all
  have "take 4 (drop 24 (map of_nat [28..<60])) = ([52, 53, 54, 55] :: bytes)" by (simp add: upt_conv_Cons take_map drop_map)
  then show ?thesis
    using hello_rotates_session [OF w(2) example_adapter_start example_cipher e(1-3), of "2 * 10 ^ 9" "[1]"] e(4,5) w(1) by auto
qed

end
