(* ===== verification/MqttBroker.thy ===== *)
theory MqttBroker
  imports MqttUdpAdapter
begin

text \<open>
  The embedded MQTT broker's hooks (\<open>internal/app/mqtt_server\<close>), the credentials that the OTA endpoint issues
  and the broker checks (\<open>internal/util/password_signature.go\<close>, \<open>websocket/ota.go\<close>), and how a device's identity travels
  from there through topics to the MQTT-UDP adapter.

  The broker library is what calls the hooks; what they ask of it is a list of actions. HMAC-SHA256, SHA-256, AES and
  JSON are arguments. Configuration values are fields of a record.
\<close>

subsection \<open>Credentials\<close>

type_synonym mac = "gotext \<Rightarrow> gotext \<Rightarrow> bytes"

definition GeneratePasswordSignature :: "mac \<Rightarrow> gotext \<Rightarrow> gotext \<Rightarrow> gotext" where
  "GeneratePasswordSignature hmac data key = base64_EncodeToString (hmac key data)"

datatype credential_error = NoSignatureKey | EmptyClientId | BadClientIdFormat | EmptyUsername | UsernameNotBase64
  | UsernameNotJson | BadSignature

record 'j mqtt_credential_info =
  ci_GroupId :: gotext
  ci_DeviceID :: gotext
  ci_UUID :: gotext
  ci_UserData :: 'j

definition ValidateMqttCredentials ::
  "mac \<Rightarrow> (bytes \<Rightarrow> 'j option) \<Rightarrow> gotext \<Rightarrow> gotext \<Rightarrow> gotext \<Rightarrow> gotext \<Rightarrow> credential_error + 'j mqtt_credential_info" where
  "ValidateMqttCredentials hmac unmarshal clientId username password signatureKey =
     (if signatureKey = [] then Inl NoSignatureKey
      else if clientId = [] then Inl EmptyClientId
      else let clientIdParts = strings_Split clientId (lit ''@@@'') in
        if length clientIdParts \<noteq> 3 then Inl BadClientIdFormat
        else if username = [] then Inl EmptyUsername
        else case base64_DecodeString username of
          None \<Rightarrow> Inl UsernameNotBase64
        | Some decodedUsername \<Rightarrow>
            (case unmarshal decodedUsername of
               None \<Rightarrow> Inl UsernameNotJson
             | Some userData \<Rightarrow>
                 let signatureData = clientId @ lit ''|'' @ username;
                     expectedSignature = GeneratePasswordSignature hmac signatureData signatureKey
                 in if password \<noteq> expectedSignature then Inl BadSignature
                    else Inr \<lparr>ci_GroupId = clientIdParts ! 0, ci_DeviceID = clientIdParts ! 1,
                              ci_UUID = clientIdParts ! 2, ci_UserData = userData\<rparr>))"

record mqtt_credentials =
  cr_ClientId :: gotext
  cr_Username :: gotext
  cr_Password :: gotext

definition Sha256Digest :: "(gotext \<Rightarrow> bytes) \<Rightarrow> gotext \<Rightarrow> gotext" where
  "Sha256Digest sha256 data = hex_EncodeToString (sha256 data)"

text \<open>Marshalling a struct with one string field does not fail.\<close>

definition GenerateMqttCredentials ::
  "mac \<Rightarrow> (gotext \<Rightarrow> bytes) \<Rightarrow> (gotext \<Rightarrow> bytes) \<Rightarrow> gotext \<Rightarrow> gotext \<Rightarrow> gotext \<Rightarrow> gotext \<Rightarrow> mqtt_credentials" where
  "GenerateMqttCredentials hmac sha256 marshalIp deviceId clientId ip signatureKey =
     (let deviceId = replace_rune 58 95 deviceId;
          base64UserName = base64_EncodeToString (marshalIp ip);
          mqttClientId = lit ''GID_test@@@'' @ deviceId @ lit ''@@@'' @ clientId;
          pwd = (if signatureKey \<noteq> []
                 then let signatureData = mqttClientId @ lit ''|'' @ base64UserName
                      in GeneratePasswordSignature hmac signatureData signatureKey
                 else Sha256Digest sha256 mqttClientId)
      in \<lparr>cr_ClientId = mqttClientId, cr_Username = base64UserName, cr_Password = pwd\<rparr>)"

definition MDeviceMockPubTopicPrefix :: gotext where "MDeviceMockPubTopicPrefix = lit ''device-server''"
definition MDeviceSubTopicPrefix :: gotext where "MDeviceSubTopicPrefix = lit ''/p2p/device_sub/''"

record mqtt_info =
  mi_Endpoint :: gotext
  mi_ClientId :: gotext
  mi_Username :: gotext
  mi_Password :: gotext
  mi_PublishTopic :: gotext
  mi_SubscribeTopic :: gotext

definition getMqttInfo ::
  "mac \<Rightarrow> (gotext \<Rightarrow> bytes) \<Rightarrow> (gotext \<Rightarrow> bytes) \<Rightarrow> bool \<Rightarrow> gotext \<Rightarrow> gotext \<Rightarrow> gotext \<Rightarrow> gotext \<Rightarrow> gotext \<Rightarrow> mqtt_info option" where
  "getMqttInfo hmac sha256 marshalIp enabled endpoint signatureKey deviceId clientId ip =
     (if \<not> enabled then None
      else let credentials = GenerateMqttCredentials hmac sha256 marshalIp deviceId clientId ip signatureKey;
               deviceTopic = replace_rune 58 95 deviceId;
               subscribeTopic = MDeviceSubTopicPrefix @ deviceTopic
           in Some \<lparr>mi_Endpoint = endpoint, mi_ClientId = cr_ClientId credentials, mi_Username = cr_Username credentials,
                    mi_Password = cr_Password credentials, mi_PublishTopic = MDeviceMockPubTopicPrefix,
                    mi_SubscribeTopic = subscribeTopic\<rparr>)"

definition resolveOTADeviceID :: "gotext \<Rightarrow> gotext option \<Rightarrow> gotext" where
  "resolveOTADeviceID headerDeviceID boardSn =
     (case boardSn of
        Some sn \<Rightarrow> if trim_space sn \<noteq> [] then trim_space sn else trim_space headerDeviceID
      | None \<Rightarrow> trim_space headerDeviceID)"

definition resolveActivateDeviceID :: "gotext \<Rightarrow> gotext \<Rightarrow> gotext" where
  "resolveActivateDeviceID headerDeviceID serialNumber =
     (if trim_space serialNumber \<noteq> [] then trim_space serialNumber else trim_space headerDeviceID)"

subsection \<open>Authentication\<close>

record broker_config =
  bc_enable_auth :: bool
  bc_username :: gotext
  bc_password :: gotext
  bc_signature_key :: gotext

definition configuredAdminUsername :: "broker_config \<Rightarrow> gotext" where
  "configuredAdminUsername cfg = (if trim_space (bc_username cfg) \<noteq> [] then trim_space (bc_username cfg) else lit ''admin'')"

definition configuredAdminPassword :: "broker_config \<Rightarrow> gotext" where
  "configuredAdminPassword cfg = (if trim_space (bc_password cfg) \<noteq> [] then trim_space (bc_password cfg) else lit ''test!@#'')"

text \<open>The blocks of \<open>src\<close>, encrypted one by one.\<close>

fun ecb_blocks :: "block_cipher \<Rightarrow> bytes \<Rightarrow> bytes" where
  "ecb_blocks blk [] = []"
| "ecb_blocks blk (b # bs) = blk (take 16 (b # bs)) @ ecb_blocks blk (drop 15 bs)"

definition aesEncryptECB :: "(bytes \<Rightarrow> block_cipher) \<Rightarrow> bytes \<Rightarrow> bytes \<Rightarrow> bytes option" where
  "aesEncryptECB aes src key =
     (case NewCipher aes key of
        None \<Rightarrow> None
      | Some blk \<Rightarrow>
          let padding = 16 - length src mod 16;
              src = src @ replicate padding (of_nat padding)
          in Some (ecb_blocks blk src))"

definition checkAesPassword :: "(bytes \<Rightarrow> block_cipher) \<Rightarrow> gotext \<Rightarrow> gotext \<Rightarrow> bool" where
  "checkAesPassword aes username password =
     (let key = map of_nat (lit ''dili_aes_key_1'') in
      case aesEncryptECB aes (map of_nat username) key of
        None \<Rightarrow> False
      | Some ciphertext \<Rightarrow> base64_EncodeToString ciphertext = password)"

text \<open>\<open>unmarshalStrings\<close> decodes an object of strings and answers whether it has the key \<open>ip\<close>.\<close>

definition validateWithAes :: "(bytes \<Rightarrow> block_cipher) \<Rightarrow> (bytes \<Rightarrow> bool option) \<Rightarrow> gotext \<Rightarrow> gotext \<Rightarrow> bool" where
  "validateWithAes aes unmarshalStrings username password =
     (case base64_DecodeString username of
        None \<Rightarrow> False
      | Some decoded \<Rightarrow>
          (case unmarshalStrings decoded of
             None \<Rightarrow> False
           | Some hasIp \<Rightarrow> if \<not> hasIp then False else if \<not> checkAesPassword aes username password then False else True))"

definition OnConnectAuthenticate ::
  "mac \<Rightarrow> (bytes \<Rightarrow> 'j option) \<Rightarrow> (bytes \<Rightarrow> block_cipher) \<Rightarrow> (bytes \<Rightarrow> bool option) \<Rightarrow> broker_config
    \<Rightarrow> gotext \<Rightarrow> gotext \<Rightarrow> gotext \<Rightarrow> bool" where
  "OnConnectAuthenticate hmac unmarshal aes unmarshalStrings cfg clientId username password =
     (if \<not> bc_enable_auth cfg then True
      else let adminUsername = configuredAdminUsername cfg;
               adminPassword = configuredAdminPassword cfg
           in if username = adminUsername \<and> password = adminPassword then True
              else if username = adminUsername then False
              else if bc_signature_key cfg \<noteq> [] then
                (case ValidateMqttCredentials hmac unmarshal clientId username password (bc_signature_key cfg) of
                   Inl _ \<Rightarrow> False
                 | Inr _ \<Rightarrow> True)
              else validateWithAes aes unmarshalStrings username password)"

subsection \<open>Device hook\<close>

record mqtt_client =
  cl_ID :: gotext
  cl_Username :: gotext
  cl_TakenOver :: bool

datatype hook_action =
    PublishLifecycle lifecycle_event
  | SubscribeTopic gotext gotext
  | UnsubscribeTopic gotext gotext

definition isAdminUser :: "broker_config \<Rightarrow> mqtt_client option \<Rightarrow> bool" where
  "isAdminUser cfg cl = (case cl of None \<Rightarrow> False | Some c \<Rightarrow> cl_Username c = configuredAdminUsername cfg)"

definition parseDeviceIdFromClientId :: "gotext \<Rightarrow> gotext" where
  "parseDeviceIdFromClientId clientId =
     (let parts = strings_Split clientId (lit ''@@@'') in if length parts \<ge> 3 then parts ! 1 else [])"

definition deviceIDFromClientId :: "gotext \<Rightarrow> gotext" where
  "deviceIDFromClientId clientID = parseDeviceIdFromClientId clientID"

definition deviceSubTopic :: "gotext \<Rightarrow> gotext" where
  "deviceSubTopic deviceID = MDeviceSubTopicPrefix @ deviceID"

definition OnACLCheck :: "broker_config \<Rightarrow> mqtt_client \<Rightarrow> gotext \<Rightarrow> bool \<Rightarrow> bool" where
  "OnACLCheck cfg cl topic write =
     (if isAdminUser cfg (Some cl) then True
      else if write then (if topic = MDeviceMockPubTopicPrefix then True else False)
      else let deviceIDSegment = parseDeviceIdFromClientId (cl_ID cl) in
        if deviceIDSegment = [] then False
        else if topic = deviceSubTopic deviceIDSegment then True else False)"

definition publishLifecycleEvent :: "instant \<Rightarrow> gotext \<Rightarrow> gotext \<Rightarrow> hook_action list" where
  "publishLifecycleEvent now clientID state =
     (let deviceID = deviceIDFromClientId clientID in
      if deviceID = [] then []
      else [PublishLifecycle \<lparr>le_Type = lit ''mqtt_lifecycle'', le_DeviceID = deviceID, le_State = state,
              le_ClientID = clientID, le_Ts = unix_milli now\<rparr>])"

definition OnDisconnect :: "broker_config \<Rightarrow> instant \<Rightarrow> mqtt_client option \<Rightarrow> hook_action list" where
  "OnDisconnect cfg now cl =
     (case cl of
        None \<Rightarrow> []
      | Some c \<Rightarrow>
          let deviceIDSegment = parseDeviceIdFromClientId (cl_ID c) in
          if isAdminUser cfg cl then []
          else if cl_TakenOver c then []
          else if deviceIDSegment = [] then []
          else publishLifecycleEvent now (cl_ID c) MqttLifecycleStateOffline
               @ [UnsubscribeTopic (deviceSubTopic deviceIDSegment) (cl_ID c)])"

definition OnSessionEstablished :: "broker_config \<Rightarrow> instant \<Rightarrow> mqtt_client \<Rightarrow> hook_action list" where
  "OnSessionEstablished cfg now c =
     (let deviceIDSegment = parseDeviceIdFromClientId (cl_ID c) in
      if isAdminUser cfg (Some c) then []
      else if deviceIDSegment = [] then []
      else publishLifecycleEvent now (cl_ID c) MqttLifecycleStateOnline
           @ [SubscribeTopic (cl_ID c) (deviceSubTopic deviceIDSegment)])"

text \<open>\<open>OnPublish\<close>: the topic under which the packet goes on.\<close>

definition OnPublish :: "broker_config \<Rightarrow> mqtt_client option \<Rightarrow> gotext \<Rightarrow> gotext" where
  "OnPublish cfg cl topicName =
     (case cl of
        None \<Rightarrow> topicName
      | Some c \<Rightarrow>
          if isAdminUser cfg cl then topicName
          else let deviceIDSegment = parseDeviceIdFromClientId (cl_ID c) in
            if deviceIDSegment = [] then topicName
            else MDevicePubTopicPrefix @ deviceIDSegment)"

subsection \<open>Starting and stopping the broker\<close>

datatype broker_error = AlreadyRunning | HookFailed | CertificateFailed | ListenerFailed | PortMissing | CloseFailed

record start_env =
  se_authHook :: bool
  se_deviceHook :: bool
  se_tls :: bool
  se_cert :: bool
  se_tlsListener :: bool
  se_port :: int
  se_listener :: bool

text \<open>\<open>currentServer\<close> is the only state; whether each call of the library succeeds is in \<open>start_env\<close>.\<close>

definition StartMqttServer :: "start_env \<Rightarrow> nat \<Rightarrow> nat option \<Rightarrow> (broker_error + unit) \<times> nat option" where
  "StartMqttServer env srv currentServer =
     (if currentServer \<noteq> None then (Inl AlreadyRunning, currentServer)
      else if \<not> se_authHook env then (Inl HookFailed, currentServer)
      else if \<not> se_deviceHook env then (Inl HookFailed, currentServer)
      else if se_tls env \<and> \<not> se_cert env then (Inl CertificateFailed, currentServer)
      else if se_tls env \<and> \<not> se_tlsListener env then (Inl ListenerFailed, currentServer)
      else if se_port env = 0 then (Inl PortMissing, currentServer)
      else if \<not> se_listener env then (Inl ListenerFailed, currentServer)
      else (Inr (), Some srv))"

definition StopMqttServer :: "bool \<Rightarrow> nat option \<Rightarrow> (broker_error + unit) \<times> nat option" where
  "StopMqttServer closes currentServer =
     (case currentServer of
        None \<Rightarrow> (Inr (), None)
      | Some srv \<Rightarrow> if \<not> closes then (Inl CloseFailed, currentServer) else (Inr (), None))"
subsection \<open>Who may connect\<close>

text \<open>What a device needs to log in, as a specification.\<close>

definition device_login :: "mac \<Rightarrow> (bytes \<Rightarrow> 'j option) \<Rightarrow> gotext \<Rightarrow> gotext \<Rightarrow> gotext \<Rightarrow> gotext \<Rightarrow> bool" where
  "device_login hmac unmarshal key clientId username password \<longleftrightarrow>
     key \<noteq> [] \<and> length (strings_Split clientId (lit ''@@@'')) = 3 \<and> username \<noteq> [] \<and>
     (\<exists>b. base64_DecodeString username = Some b \<and> unmarshal b \<noteq> None) \<and>
     password = base64_EncodeToString (hmac key (clientId @ lit ''|'' @ username))"

lemma checkAesPassword_never: "\<not> checkAesPassword aes username password"
  by (simp add: checkAesPassword_def aesEncryptECB_def NewCipher_def)

lemma strings_Split_Nil: "strings_Split [] sep = [[]]"
  by (simp add: strings_Split_def)

lemma Validate_iff:
  "(\<exists>info. ValidateMqttCredentials hmac um clientId username password key = Inr info)
    \<longleftrightarrow> device_login hmac um key clientId username password"
  by (cases "base64_DecodeString username")
    (auto simp: ValidateMqttCredentials_def device_login_def GeneratePasswordSignature_def strings_Split_Nil Let_def
      split: option.splits)

text \<open>
  C23. With authentication enabled, the broker admits a client exactly when it gives the administrator's name and
  password, or, under another name, a client id of three parts, a user name that is base64 of a JSON object, and as
  password the base64 of the HMAC of both under a non-empty signature key. The fallback for a missing signature key admits nobody:
  its AES key has 14 bytes, which no AES accepts. With authentication disabled it admits everybody, and a client
  that then merely calls itself the administrator passes every check of the access list.
\<close>

theorem broker_admits_iff:
  "(bc_enable_auth cfg \<longrightarrow>
     (OnConnectAuthenticate hmac um aes ums cfg clientId username password \<longleftrightarrow>
        username = configuredAdminUsername cfg \<and> password = configuredAdminPassword cfg \<or>
        username \<noteq> configuredAdminUsername cfg \<and> device_login hmac um (bc_signature_key cfg) clientId username password))
   \<and> \<not> validateWithAes aes ums username password
   \<and> (\<not> bc_enable_auth cfg \<longrightarrow> OnConnectAuthenticate hmac um aes ums cfg clientId username password \<and>
        OnACLCheck cfg \<lparr>cl_ID = clientId, cl_Username = configuredAdminUsername cfg, cl_TakenOver = False\<rparr> topic write)"
proof -
  have aes: "\<not> validateWithAes aes ums username password"
    by (simp add: validateWithAes_def checkAesPassword_never split: option.splits)
  have v: "(case ValidateMqttCredentials hmac um clientId username password k of Inl _ \<Rightarrow> False | Inr _ \<Rightarrow> True)
      = device_login hmac um k clientId username password" for k
    using Validate_iff [of hmac um clientId username password k] by (auto split: sum.splits)
  have no_key: "bc_signature_key cfg = [] \<Longrightarrow> \<not> device_login hmac um (bc_signature_key cfg) clientId username password"
    by (simp add: device_login_def)
  have "OnConnectAuthenticate hmac um aes ums cfg clientId username password \<longleftrightarrow>
      username = configuredAdminUsername cfg \<and> password = configuredAdminPassword cfg \<or>
      username \<noteq> configuredAdminUsername cfg \<and> device_login hmac um (bc_signature_key cfg) clientId username password"
    if "bc_enable_auth cfg"
    unfolding OnConnectAuthenticate_def Let_def v using that aes no_key
    by (cases "username = configuredAdminUsername cfg"; cases "bc_signature_key cfg = []") simp_all
  then show ?thesis
    using aes by (simp add: OnConnectAuthenticate_def OnACLCheck_def isAdminUser_def)
qed

definition example_broker :: broker_config where
  "example_broker = \<lparr>bc_enable_auth = True, bc_username = [], bc_password = [], bc_signature_key = lit ''k''\<rparr>"

theorem broker_admits_iff_witness:
  "OnConnectAuthenticate (\<lambda>k d. [7]) Some (\<lambda>k b. b) (\<lambda>b. None) example_broker
     (lit ''g@@@SN1@@@u'') (lit ''e30='') (base64_EncodeToString [7])"
proof -
  have "device_login (\<lambda>k d. [7]) Some (bc_signature_key example_broker) (lit ''g@@@SN1@@@u'') (lit ''e30='') (base64_EncodeToString [7])"
    unfolding device_login_def
  proof (intro conjI)
    show "bc_signature_key example_broker \<noteq> []" by (simp add: example_broker_def)
    show "length (strings_Split (lit ''g@@@SN1@@@u'') (lit ''@@@'')) = 3" by code_simp
    show "\<exists>b. base64_DecodeString (lit ''e30='') = Some b \<and> Some b \<noteq> None"
      by (simp add: base64_DecodeString_def lit_def b64_val_def)
  qed simp_all
  moreover have "lit ''e30='' \<noteq> configuredAdminUsername example_broker" "bc_enable_auth example_broker"
    by (simp_all add: configuredAdminUsername_def lit_def example_broker_def)
  ultimately show ?thesis
    using broker_admits_iff [of example_broker "\<lambda>k d. [7]" Some "\<lambda>k b. b" "\<lambda>b. None" "lit ''g@@@SN1@@@u''" "lit ''e30=''" "base64_EncodeToString [7]"]
    by blast
qed

subsection \<open>One identity from credentials to topics\<close>

lemma replicate_at: "lit ''@@@'' = replicate 3 64"
  by (simp add: lit_def numeral_eq_Suc)

lemma split_at_parts:
  assumes "64 \<notin> set a" "64 \<notin> set b" "64 \<notin> set c"
  shows "strings_Split (a @ lit ''@@@'' @ b @ lit ''@@@'' @ c) (lit ''@@@'') = [a, b, c]"
proof -
  have "\<not> strings_Contains c (replicate 3 64)" using contains_replicate [of c 3 64] assms(3) by auto
  then show ?thesis
    unfolding strings_Split_def replicate_at
    using assms by (simp add: split_from_rune_free split_from_free)
qed

lemma split_slash_topic:
  assumes "47 \<notin> set d"
  shows "strings_Split (MDevicePubTopicPrefix @ d) (lit ''/'') = [[], lit ''p2p'', lit ''device_public'', d]"
proof -
  have sl: "lit ''/'' = replicate 1 47" by (simp add: lit_def)
  have pre: "MDevicePubTopicPrefix @ d = [] @ replicate 1 47 @ lit ''p2p'' @ replicate 1 47 @ lit ''device_public'' @ replicate 1 47 @ d"
    by (simp add: MDevicePubTopicPrefix_def lit_def)
  have no: "(47 :: rune) \<notin> set []" "47 \<notin> set (lit ''p2p'')" "47 \<notin> set (lit ''device_public'')" by (simp_all add: lit_def)
  have "\<not> strings_Contains d (replicate 1 47)" using contains_replicate [of d 1 47] assms by auto
  then show ?thesis
    unfolding strings_Split_def sl pre split_from_rune_free [OF no(1) zero_less_one]
      split_from_rune_free [OF no(2) zero_less_one] split_from_rune_free [OF no(3) zero_less_one]
    by (simp add: split_from_free del: replicate.simps)
qed

lemma replace_rune_set: "c \<in> set (replace_rune a b s) \<Longrightarrow> c = b \<or> c \<in> set s"
  by (auto simp: replace_rune_def)

lemma replace_rune_idem: "a \<noteq> b \<Longrightarrow> replace_rune a b (replace_rune a b s) = replace_rune a b s"
  by (simp add: replace_rune_def)

lemma getDeviceIdByTopic_device:
  assumes "47 \<notin> set d" "64 \<notin> set d"
  shows "getDeviceIdByTopic (MDevicePubTopicPrefix @ d) = (d, d)"
proof -
  have "\<not> strings_Contains d (lit ''@@@'')" using contains_replicate [of d 3 64] assms(2) replicate_at by auto
  then show ?thesis by (simp add: getDeviceIdByTopic_def split_slash_topic [OF assms(1)] Let_def)
qed

text \<open>
  C24. The credentials issued for a device (whose serial number and client id are free of \<open>@\<close>, the former also of \<open>/\<close>) are
  accepted by a broker with the same signature key, and carry one identity all the way, the serial number with colons
  turned into underscores: it is what validation and the hooks read off the client id, what the lifecycle events
  announce, what the adapter reads off the topic under which the device's messages are forwarded; and the topic on
  which the adapter answers is the one the device was told to subscribe to and the only one the access list lets it.
\<close>

theorem mqtt_identity_roundtrip:
  assumes d: "64 \<notin> set deviceId" "47 \<notin> set deviceId" "deviceId \<noteq> []" and c: "64 \<notin> set clientId" and key: "key \<noteq> []"
    and json: "unmarshal (marshalIp ip) = Some user" and name: "marshalIp ip \<noteq> []"
    and cred: "cr = GenerateMqttCredentials hmac sha256 marshalIp deviceId clientId ip key"
    and info: "getMqttInfo hmac sha256 marshalIp True ep key deviceId clientId ip = Some mi"
    and cl: "cl = \<lparr>cl_ID = cr_ClientId cr, cl_Username = cr_Username cr, cl_TakenOver = False\<rparr>"
    and plain: "cr_Username cr \<noteq> configuredAdminUsername cfg"
  shows "ValidateMqttCredentials hmac unmarshal (cr_ClientId cr) (cr_Username cr) (cr_Password cr) key
      = Inr \<lparr>ci_GroupId = lit ''GID_test'', ci_DeviceID = replace_rune 58 95 deviceId, ci_UUID = clientId, ci_UserData = user\<rparr>
    \<and> parseDeviceIdFromClientId (cr_ClientId cr) = replace_rune 58 95 deviceId
    \<and> getDeviceIdByTopic (OnPublish cfg (Some cl) (mi_PublishTopic mi)) = (replace_rune 58 95 deviceId, replace_rune 58 95 deviceId)
    \<and> OnACLCheck cfg cl (mi_PublishTopic mi) True
    \<and> (OnACLCheck cfg cl topic False \<longleftrightarrow> topic = mi_SubscribeTopic mi)
    \<and> mi_SubscribeTopic mi = ServerPubTopicPrefix @ replace_rune 58 95 (replace_rune 58 95 deviceId)
    \<and> (\<exists>ev. OnSessionEstablished cfg now cl = [PublishLifecycle ev, SubscribeTopic (cr_ClientId cr) (mi_SubscribeTopic mi)]
         \<and> le_DeviceID ev = replace_rune 58 95 deviceId \<and> le_State ev = MqttLifecycleStateOnline)"
proof -
  let ?d = "replace_rune 58 95 deviceId"
  have free: "64 \<notin> set ?d" "47 \<notin> set ?d" "?d \<noteq> []"
    using replace_rune_set [of _ 58 95 deviceId] d by (auto simp: replace_rune_def)
  have cid: "cr_ClientId cr = lit ''GID_test'' @ lit ''@@@'' @ ?d @ lit ''@@@'' @ clientId"
    by (simp add: cred GenerateMqttCredentials_def Let_def lit_def)
  have cid_ne: "cr_ClientId cr \<noteq> []" by (simp add: cid)
  have split: "strings_Split (cr_ClientId cr) (lit ''@@@'') = [lit ''GID_test'', ?d, clientId]"
    unfolding cid by (rule split_at_parts) (use free(1) c in \<open>simp_all add: lit_def\<close>)
  have user: "cr_Username cr = base64_EncodeToString (marshalIp ip)"
    and pw: "cr_Password cr = GeneratePasswordSignature hmac (cr_ClientId cr @ lit ''|'' @ cr_Username cr) key"
    using key by (simp_all add: cred GenerateMqttCredentials_def Let_def)
  have parse: "parseDeviceIdFromClientId (cr_ClientId cr) = ?d" by (simp add: parseDeviceIdFromClientId_def split Let_def)
  have topics: "mi_SubscribeTopic mi = MDeviceSubTopicPrefix @ ?d" "mi_PublishTopic mi = MDeviceMockPubTopicPrefix"
    using info by (auto simp: getMqttInfo_def Let_def)
  have "ValidateMqttCredentials hmac unmarshal (cr_ClientId cr) (cr_Username cr) (cr_Password cr) key
      = Inr \<lparr>ci_GroupId = lit ''GID_test'', ci_DeviceID = ?d, ci_UUID = clientId, ci_UserData = user\<rparr>"
    using key json name cid_ne by (simp add: ValidateMqttCredentials_def split user pw Let_def)
  moreover have "getDeviceIdByTopic (OnPublish cfg (Some cl) (mi_PublishTopic mi)) = (?d, ?d)"
    using plain cl free by (simp add: OnPublish_def isAdminUser_def parse Let_def getDeviceIdByTopic_device)
  moreover have "OnACLCheck cfg cl topic False \<longleftrightarrow> topic = mi_SubscribeTopic mi" "OnACLCheck cfg cl (mi_PublishTopic mi) True"
    using plain cl free topics by (auto simp: OnACLCheck_def isAdminUser_def parse deviceSubTopic_def Let_def)
  moreover have "mi_SubscribeTopic mi = ServerPubTopicPrefix @ replace_rune 58 95 ?d"
    by (simp add: topics MDeviceSubTopicPrefix_def ServerPubTopicPrefix_def replace_rune_idem)
  moreover have "\<exists>ev. OnSessionEstablished cfg now cl = [PublishLifecycle ev, SubscribeTopic (cr_ClientId cr) (mi_SubscribeTopic mi)]
      \<and> le_DeviceID ev = ?d \<and> le_State ev = MqttLifecycleStateOnline"
    using plain cl free topics
    by (simp add: OnSessionEstablished_def publishLifecycleEvent_def deviceIDFromClientId_def isAdminUser_def parse deviceSubTopic_def Let_def)
  ultimately show ?thesis using parse by blast
qed

theorem mqtt_identity_roundtrip_witness:
  "ValidateMqttCredentials (\<lambda>k d. [7]) Some (lit ''GID_test@@@a_b@@@c1'') (base64_EncodeToString [123, 125])
      (base64_EncodeToString [7]) (lit ''k'')
     = Inr \<lparr>ci_GroupId = lit ''GID_test'', ci_DeviceID = lit ''a_b'', ci_UUID = lit ''c1'', ci_UserData = [123, 125]\<rparr>"
proof -
  let ?cr = "GenerateMqttCredentials (\<lambda>k d. [7]) (\<lambda>d. []) (\<lambda>ip. [123, 125]) (lit ''a:b'') (lit ''c1'') (lit ''ip'') (lit ''k'')"
  have cr: "cr_ClientId ?cr = lit ''GID_test@@@a_b@@@c1''" "cr_Username ?cr = base64_EncodeToString [123, 125]"
      "cr_Password ?cr = base64_EncodeToString [7]"
    by (simp_all add: GenerateMqttCredentials_def GeneratePasswordSignature_def replace_rune_def lit_def)
  have "(64 :: rune) \<notin> set (lit ''a:b'')" "47 \<notin> set (lit ''a:b'')" "lit ''a:b'' \<noteq> []" "64 \<notin> set (lit ''c1'')" "lit ''k'' \<noteq> []"
    by (simp_all add: lit_def)
  moreover have "getMqttInfo (\<lambda>k d. [7]) (\<lambda>d. []) (\<lambda>ip. [123, 125]) True [] (lit ''k'') (lit ''a:b'') (lit ''c1'') (lit ''ip'') =
      Some (the (getMqttInfo (\<lambda>k d. [7]) (\<lambda>d. []) (\<lambda>ip. [123, 125]) True [] (lit ''k'') (lit ''a:b'') (lit ''c1'') (lit ''ip'')))"
    by (simp add: getMqttInfo_def Let_def)
  moreover have "cr_Username ?cr \<noteq> configuredAdminUsername example_broker"
    unfolding cr(2) by (simp add: configuredAdminUsername_def example_broker_def lit_def)
  ultimately have "ValidateMqttCredentials (\<lambda>k d. [7]) Some (cr_ClientId ?cr) (cr_Username ?cr) (cr_Password ?cr) (lit ''k'')
      = Inr \<lparr>ci_GroupId = lit ''GID_test'', ci_DeviceID = replace_rune 58 95 (lit ''a:b''), ci_UUID = lit ''c1'', ci_UserData = [123, 125]\<rparr>"
    using mqtt_identity_roundtrip [of "lit ''a:b''" "lit ''c1''" "lit ''k''" Some "\<lambda>ip. [123, 125]" "lit ''ip''" "[123, 125]" ?cr
        "\<lambda>k d. [7]" "\<lambda>d. []" "[]" _ _ example_broker "[]" 0] by blast
  then show ?thesis unfolding cr by (simp add: replace_rune_def lit_def)
qed

end
