(* ===== verification/OggOpus.thy ===== *)
theory OggOpus
  imports Bytes
begin

text \<open>
  Writing Ogg/Opus streams (\<open>internal/util/ogg_opus.go\<close>): sample-rate normalisation, framing of PCM for the encoder,
  the two header packets, and one Ogg page per packet. A page is built byte by byte as the code builds it; a
  reader of pages, written after RFC 3533, is the specification. The Opus encoder is an argument.
\<close>

subsection \<open>Checksums and integers\<close>

text \<open>\<open>crc32.ChecksumIEEE\<close>.\<close>

definition crc_bit :: "32 word \<Rightarrow> 32 word" where
  "crc_bit x = (if bit x 0 then drop_bit 1 x XOR 0xEDB88320 else drop_bit 1 x)"

definition crc_byte :: "32 word \<Rightarrow> byte \<Rightarrow> 32 word" where
  "crc_byte x b = (crc_bit ^^ 8) (x XOR ucast b)"

definition ChecksumIEEE :: "bytes \<Rightarrow> 32 word" where
  "ChecksumIEEE bs = NOT (foldl crc_byte (NOT 0) bs)"

definition absInt :: "int \<Rightarrow> int" where "absInt v = (if v < 0 then - v else v)"
definition maxInt :: "int \<Rightarrow> int \<Rightarrow> int" where "maxInt a b = (if a > b then a else b)"

definition supportedOpusSampleRates :: "int list" where
  "supportedOpusSampleRates = [8000, 12000, 16000, 24000, 48000]"

fun nearest_rate :: "int \<Rightarrow> int list \<Rightarrow> int \<Rightarrow> int \<Rightarrow> int" where
  "nearest_rate sampleRate [] best bestDistance = best"
| "nearest_rate sampleRate (candidate # cs) best bestDistance =
     (let distance = absInt (sampleRate - candidate) in
      if distance < bestDistance then nearest_rate sampleRate cs candidate distance
      else nearest_rate sampleRate cs best bestDistance)"

definition NormalizeOpusSampleRate :: "int \<Rightarrow> int" where
  "NormalizeOpusSampleRate sampleRate =
     (if sampleRate \<le> 0 then 16000
      else let best = hd supportedOpusSampleRates
           in nearest_rate sampleRate (tl supportedOpusSampleRates) best (absInt (sampleRate - best)))"

subsection \<open>Pages\<close>

function segment_loop :: "nat \<Rightarrow> bytes \<Rightarrow> bytes" where
  "segment_loop remaining segs =
     (if remaining \<ge> 255 then segment_loop (remaining - 255) (segs @ [255]) else segs @ [of_nat remaining])"
  by pat_completeness auto
termination by (relation "measure fst") auto

declare segment_loop.simps [simp del]

definition buildOggSegments :: "int \<Rightarrow> bytes" where
  "buildOggSegments packetLen = (if packetLen \<le> 0 then [0] else segment_loop (nat packetLen) [])"

definition ascii :: "string \<Rightarrow> bytes" where
  "ascii s = map of_char s"

definition buildOggPage :: "32 word \<Rightarrow> 32 word \<Rightarrow> byte \<Rightarrow> 64 word \<Rightarrow> bytes \<Rightarrow> bytes" where
  "buildOggPage serial sequence headerType granulePosition packet =
     (let segments = buildOggSegments (int (length packet));
          pageSize = 27 + length segments + length packet;
          p0 = replicate pageSize 0;
          p1 = copy_at 0 (ascii ''OggS'') p0;
          p2 = p1[4 := 0];
          p3 = p2[5 := headerType];
          p4 = copy_at 6 (le_Uint64 granulePosition) p3;
          p5 = copy_at 14 (le_Uint32 serial) p4;
          p6 = copy_at 18 (le_Uint32 sequence) p5;
          p7 = p6[26 := of_nat (length segments)];
          p8 = copy_at 27 segments p7;
          p9 = copy_at (27 + length segments) packet p8;
          checksum = ChecksumIEEE p9
      in copy_at 22 (le_Uint32 checksum) p9)"

definition buildOpusHeadPacket :: "int \<Rightarrow> int \<Rightarrow> bytes" where
  "buildOpusHeadPacket sampleRate channels =
     ascii ''OpusHead'' @ [1] @ [of_int channels] @ le_Uint16 0 @ le_Uint32 (of_int sampleRate) @ le_Uint16 0 @ [0]"

definition buildOpusTagsPacket :: bytes where
  "buildOpusTagsPacket =
     (let vendor = ascii ''dili-mock-ai-server''
      in ascii ''OpusTags'' @ le_Uint32 (of_nat (length vendor)) @ vendor @ le_Uint32 0)"

definition ogg_serial :: "32 word" where "ogg_serial = 0x58495a48"

fun wrap_packets :: "nat \<Rightarrow> nat \<Rightarrow> 64 word \<Rightarrow> int \<Rightarrow> bytes list \<Rightarrow> bytes" where
  "wrap_packets npackets i granulePosition frameSizePerChannel [] = []"
| "wrap_packets npackets i granulePosition frameSizePerChannel (packet # packets) =
     (let granulePosition = granulePosition + of_int frameSizePerChannel;
          headerType = (if int i = int npackets - 1 then 0x04 else 0)
      in buildOggPage ogg_serial (of_nat (i + 2)) headerType granulePosition packet
         @ wrap_packets npackets (i + 1) granulePosition frameSizePerChannel packets)"

definition WrapOggOpusPackets :: "bytes list \<Rightarrow> int \<Rightarrow> int \<Rightarrow> int \<Rightarrow> bytes" where
  "WrapOggOpusPackets packets sampleRate channels frameSizePerChannel =
     buildOggPage ogg_serial 0 0x02 0 (buildOpusHeadPacket sampleRate channels)
     @ buildOggPage ogg_serial 1 0x00 0 buildOpusTagsPacket
     @ wrap_packets (length packets) 0 0 frameSizePerChannel packets"

subsection \<open>Encoding PCM\<close>

datatype ogg_error = BadChannels | BadFrameDuration | NoEncoder | EncodeFailed

text \<open>
  The loop over frames: the last one is padded with silence. \<open>encode\<close> is the encoder: its state and a frame give a packet
  or fail. The frame size comes from a product of two 64-bit integers, the only one here that can wrap: for a
  negative or zero product the function reports an invalid duration.
\<close>

function encode_frames :: "('e \<Rightarrow> int list \<Rightarrow> bytes option \<times> 'e) \<Rightarrow> nat \<Rightarrow> 'e \<Rightarrow> int list \<Rightarrow> bytes list \<Rightarrow> ogg_error + bytes list" where
  "encode_frames encode frameSize enc samples packets =
     (if samples = [] \<or> frameSize = 0 then Inr packets
      else let frame = copy_at 0 (take frameSize samples) (replicate frameSize 0)
           in case encode enc frame of
                (None, _) \<Rightarrow> Inl EncodeFailed
              | (Some packet, enc1) \<Rightarrow> encode_frames encode frameSize enc1 (drop frameSize samples) (packets @ [packet]))"
  by pat_completeness auto
termination by (relation "measure (\<lambda>(_, _, _, samples, _). length samples)") auto

declare encode_frames.simps [simp del]

definition PCM16ToOggOpus ::
  "(int \<Rightarrow> int \<Rightarrow> 'e option) \<Rightarrow> ('e \<Rightarrow> int list \<Rightarrow> bytes option \<times> 'e) \<Rightarrow> int list \<Rightarrow> int \<Rightarrow> int \<Rightarrow> int \<Rightarrow> ogg_error + bytes" where
  "PCM16ToOggOpus NewEncoder encode samples sampleRate channels frameDurationMs =
     (if channels < 1 \<or> channels > 2 then Inl BadChannels
      else let sampleRate = NormalizeOpusSampleRate sampleRate;
               frameDurationMs = (if frameDurationMs \<le> 0 then 20 else frameDurationMs);
               frameSizePerChannel = sint (of_int (sampleRate * frameDurationMs) :: 64 word) div 1000
           in if frameSizePerChannel \<le> 0 then Inl BadFrameDuration
              else let frameSize = frameSizePerChannel * channels
                   in case NewEncoder sampleRate channels of
                        None \<Rightarrow> Inl NoEncoder
                      | Some enc \<Rightarrow>
                          (case encode_frames encode (nat frameSize) enc samples [] of
                             Inl e \<Rightarrow> Inl e
                           | Inr packets \<Rightarrow> Inr (WrapOggOpusPackets packets sampleRate channels frameSizePerChannel)))"

subsection \<open>A reader\<close>

record ogg_page =
  pg_type :: byte
  pg_granule :: nat
  pg_serial :: nat
  pg_sequence :: nat
  pg_lacing :: bytes
  pg_body :: bytes

definition read_page :: "bytes \<Rightarrow> (ogg_page \<times> bytes) option" where
  "read_page bs =
     (if length bs < 27 \<or> take 4 bs \<noteq> ascii ''OggS'' \<or> bs ! 4 \<noteq> 0 then None
      else let n = unat (bs ! 26);
               lacing = take n (drop 27 bs);
               len = sum_list (map unat lacing)
           in if length bs < 27 + n + len then None
              else Some (\<lparr>pg_type = bs ! 5, pg_granule = le_nat (take 8 (drop 6 bs)), pg_serial = le_nat (take 4 (drop 14 bs)),
                          pg_sequence = le_nat (take 4 (drop 18 bs)), pg_lacing = lacing,
                          pg_body = take len (drop (27 + n) bs)\<rparr>, drop (27 + n + len) bs))"

text \<open>The packets of a page: a lacing value below 255 ends one. \<open>None\<close> when the page ends inside a packet.\<close>

fun lace :: "bytes \<Rightarrow> bytes \<Rightarrow> bytes \<Rightarrow> bytes list option" where
  "lace [] acc body = (if acc = [] then Some [] else None)"
| "lace (v # vs) acc body =
     (let acc = acc @ take (unat v) body; body = drop (unat v) body
      in if v = 255 then (if vs = [] then None else lace vs acc body)
         else map_option ((#) acc) (lace vs [] body))"

fun read_pages :: "nat \<Rightarrow> bytes \<Rightarrow> ogg_page list option" where
  "read_pages fuel [] = Some []"
| "read_pages 0 bs = None"
| "read_pages (Suc fuel) bs =
     (case read_page bs of
        None \<Rightarrow> None
      | Some (p, rest) \<Rightarrow> map_option ((#) p) (read_pages fuel rest))"
subsection \<open>Reading back what is written\<close>

lemma segment_loop_closed: "segment_loop n segs = segs @ replicate (n div 255) 255 @ [of_nat (n mod 255)]"
proof (induction n segs rule: segment_loop.induct)
  case (1 n segs)
  show ?case
  proof (cases "n \<ge> 255")
    case True
    then obtain k where k: "n = k + 255" by (metis le_add_diff_inverse2)
    have "segment_loop n segs = segment_loop k (segs @ [255])" using True k by (subst segment_loop.simps) simp
    also have "\<dots> = (segs @ [255]) @ replicate (k div 255) 255 @ [of_nat (k mod 255)]" using 1 [OF True] k by simp
    also have "\<dots> = segs @ replicate (n div 255) 255 @ [of_nat (n mod 255)]"
      using div_add_self2 [of 255 k] mod_add_self2 [of k 255] k by simp
    finally show ?thesis .
  next
    case False
    then show ?thesis by (subst segment_loop.simps) simp
  qed
qed

lemma buildOggSegments_closed:
  "buildOggSegments (int n) = replicate (n div 255) 255 @ [of_nat (n mod 255)]"
  by (cases "n = 0") (simp_all add: buildOggSegments_def segment_loop_closed)

lemma buildOggSegments_length: "length (buildOggSegments (int n)) = n div 255 + 1"
  by (simp add: buildOggSegments_closed)

lemma unat_mod_255: "unat (of_nat (n mod 255) :: byte) = n mod 255"
proof -
  have "n mod 255 < 255" by simp
  then show ?thesis by (simp del: mod_less_divisor)
qed

lemma buildOggSegments_sum: "sum_list (map unat (buildOggSegments (int n))) = n"
  by (simp add: buildOggSegments_closed unat_mod_255 sum_list_replicate del: unat_byte)

lemma of_nat_ne_255: "(of_nat (n mod 255) :: byte) \<noteq> 255"
proof
  assume "(of_nat (n mod 255) :: byte) = 255"
  then have "n mod 255 = unat (255 :: byte)" using unat_mod_255 [of n] by metis
  then show False by (simp add: mod_eq_self_iff_div_eq_0)
qed

lemma lace_full:
  assumes "length body = 255 * k + m" "unat v = m" "v \<noteq> 255"
  shows "lace (replicate k 255 @ [v]) acc body = Some [acc @ body]"
  using assms
proof (induction k arbitrary: acc body)
  case 0
  then show ?case by simp
next
  case (Suc k)
  have "lace (replicate k 255 @ [v]) (acc @ take 255 body) (drop 255 body) = Some [(acc @ take 255 body) @ drop 255 body]"
    using Suc.prems by (intro Suc.IH) simp_all
  then show ?case by simp
qed

lemma lace_segments: "lace (buildOggSegments (int (length packet))) [] packet = Some [packet]"
  using lace_full [of packet "length packet div 255" "length packet mod 255" "of_nat (length packet mod 255)" "[]"]
  by (simp add: buildOggSegments_closed unat_mod_255 of_nat_ne_255 del: unat_byte)

definition page_bytes :: "32 word \<Rightarrow> 32 word \<Rightarrow> byte \<Rightarrow> 64 word \<Rightarrow> 32 word \<Rightarrow> bytes \<Rightarrow> bytes" where
  "page_bytes serial sq ht g crc packet =
     ascii ''OggS'' @ [0, ht] @ le_Uint64 g @ le_Uint32 serial @ le_Uint32 sq @ le_Uint32 crc
     @ [of_nat (length (buildOggSegments (int (length packet))))] @ buildOggSegments (int (length packet)) @ packet"

lemma copy_mid:
  "length a = off \<Longrightarrow> length src = length b \<Longrightarrow> copy_at off src (a @ b @ c) = a @ src @ c"
  by (simp add: copy_at_def)

lemma copy_end: "length a = off \<Longrightarrow> length src = length b \<Longrightarrow> copy_at off src (a @ b) = a @ src"
  by (simp add: copy_at_def)

lemma update_mid: "length a = i \<Longrightarrow> (a @ [x] @ c)[i := v] = a @ [v] @ c"
  by (metis append_Cons append_Nil list_update_length)

lemma length_ascii [simp]: "length (ascii s) = length s"
  by (simp add: ascii_def)

lemma buildOggPage_bytes: "\<exists>crc. buildOggPage serial sq ht g packet = page_bytes serial sq ht g crc packet"
proof -
  let ?segs = "buildOggSegments (int (length packet))"
  let ?n = "length ?segs" and ?z = "\<lambda>k. replicate k (0::byte)"
  have p0: "?z (27 + ?n + length packet) = [] @ ?z 4 @ [0] @ [0] @ ?z 8 @ ?z 4 @ ?z 4 @ ?z 4 @ [0] @ ?z ?n @ ?z (length packet)"
    by (simp add: numeral_eq_Suc replicate_add flip: replicate_append_same)
  let ?o = "ascii ''OggS''" and ?g = "le_Uint64 g" and ?s = "le_Uint32 serial" and ?q = "le_Uint32 sq"
  have p1: "copy_at 0 ?o ([] @ ?z 4 @ [0] @ [0] @ ?z 8 @ ?z 4 @ ?z 4 @ ?z 4 @ [0] @ ?z ?n @ ?z (length packet))
      = ?o @ [0] @ [0] @ ?z 8 @ ?z 4 @ ?z 4 @ ?z 4 @ [0] @ ?z ?n @ ?z (length packet)"
    by (subst copy_mid) simp_all
  have p2: "(?o @ [0] @ r)[4 := 0] = ?o @ [0] @ r" for r by (rule update_mid) simp
  have p3: "((?o @ [0]) @ [0] @ r)[5 := ht] = (?o @ [0]) @ [ht] @ r" for r by (rule update_mid) simp
  have p4: "copy_at 6 ?g ((?o @ [0, ht]) @ ?z 8 @ r) = (?o @ [0, ht]) @ ?g @ r" for r by (rule copy_mid) simp_all
  have p5: "copy_at 14 ?s ((?o @ [0, ht] @ ?g) @ ?z 4 @ r) = (?o @ [0, ht] @ ?g) @ ?s @ r" for r by (rule copy_mid) simp_all
  have p6: "copy_at 18 ?q ((?o @ [0, ht] @ ?g @ ?s) @ ?z 4 @ r) = (?o @ [0, ht] @ ?g @ ?s) @ ?q @ r" for r by (rule copy_mid) simp_all
  have p7: "((?o @ [0, ht] @ ?g @ ?s @ ?q @ ?z 4) @ [0] @ r)[26 := of_nat ?n] = (?o @ [0, ht] @ ?g @ ?s @ ?q @ ?z 4) @ [of_nat ?n] @ r" for r
    by (rule update_mid) simp
  have p8: "copy_at 27 ?segs ((?o @ [0, ht] @ ?g @ ?s @ ?q @ ?z 4 @ [of_nat ?n]) @ ?z ?n @ r)
      = (?o @ [0, ht] @ ?g @ ?s @ ?q @ ?z 4 @ [of_nat ?n]) @ ?segs @ r" for r by (rule copy_mid) simp_all
  have p9: "copy_at (27 + ?n) packet ((?o @ [0, ht] @ ?g @ ?s @ ?q @ ?z 4 @ [of_nat ?n] @ ?segs) @ ?z (length packet))
      = (?o @ [0, ht] @ ?g @ ?s @ ?q @ ?z 4 @ [of_nat ?n] @ ?segs) @ packet" by (rule copy_end) simp_all
  have p10: "copy_at 22 (le_Uint32 crc) ((?o @ [0, ht] @ ?g @ ?s @ ?q) @ ?z 4 @ r) = (?o @ [0, ht] @ ?g @ ?s @ ?q) @ le_Uint32 crc @ r" for r crc
    by (rule copy_mid) simp_all
  have "\<exists>crc. buildOggPage serial sq ht g packet = copy_at 22 (le_Uint32 crc) ((?o @ [0, ht] @ ?g @ ?s @ ?q) @ ?z 4 @ [of_nat ?n] @ ?segs @ packet)"
    unfolding buildOggPage_def Let_def p0 p1
    using p2 p3 p4 p5 p6 p7 p8 p9 by (simp only: append_assoc append_Cons append_Nil) blast
  then show ?thesis unfolding p10 page_bytes_def by (simp only: append_assoc append_Cons append_Nil)
qed

lemma read_page_page_bytes:
  assumes "length packet < 65025"
  shows "read_page (page_bytes serial sq ht g crc packet @ rest) =
    Some (\<lparr>pg_type = ht, pg_granule = unat g, pg_serial = unat serial, pg_sequence = unat sq,
           pg_lacing = buildOggSegments (int (length packet)), pg_body = packet\<rparr>, rest)"
proof -
  let ?segs = "buildOggSegments (int (length packet))"
  let ?bs = "page_bytes serial sq ht g crc packet @ rest"
  have n: "unat (of_nat (length ?segs) :: byte) = length ?segs"
  proof -
    have "length packet div 255 < 255" using assms by (simp add: less_mult_imp_div_less)
    then have "length ?segs < 256" by (simp add: buildOggSegments_length)
    then show ?thesis by (simp only: unat_byte mod_less)
  qed
  have split: "?bs = ascii ''OggS'' @ [0] @ [ht] @ le_Uint64 g @ le_Uint32 serial @ le_Uint32 sq @ le_Uint32 crc
      @ [of_nat (length ?segs)] @ ?segs @ packet @ rest"
    by (simp add: page_bytes_def)
  have "drop 27 ?bs = ?segs @ packet @ rest" unfolding split by simp
  moreover have "?bs ! 4 = 0" "?bs ! 5 = ht" "?bs ! 26 = of_nat (length ?segs)" unfolding split by (simp_all add: nth_append)
  moreover have "take 4 ?bs = ascii ''OggS''" "take 8 (drop 6 ?bs) = le_Uint64 g" "take 4 (drop 14 ?bs) = le_Uint32 serial"
    "take 4 (drop 18 ?bs) = le_Uint32 sq"
    unfolding split by simp_all
  moreover have "length ?bs = 27 + length ?segs + length packet + length rest" unfolding split by simp
  moreover have "drop (27 + k) ?bs = drop k (?segs @ packet @ rest)" for k
    using \<open>drop 27 ?bs = ?segs @ packet @ rest\<close> by (metis add.commute drop_drop)
  ultimately show ?thesis
    using n buildOggSegments_sum [of "length packet"]
    by (simp add: read_page_def Let_def le_nat_Uint32 le_nat_Uint64 add.assoc)
qed

definition ogg_page_of :: "nat \<Rightarrow> byte \<Rightarrow> nat \<Rightarrow> bytes \<Rightarrow> ogg_page" where
  "ogg_page_of sq ht g packet =
     \<lparr>pg_type = ht, pg_granule = g, pg_serial = unat ogg_serial, pg_sequence = sq,
      pg_lacing = buildOggSegments (int (length packet)), pg_body = packet\<rparr>"

lemma read_pages_page:
  assumes "length packet < 65025" "sq < 2 ^ 32"
  shows "read_pages (Suc fuel) (buildOggPage ogg_serial (of_nat sq) ht g packet @ rest) =
    map_option ((#) (ogg_page_of sq ht (unat g) packet)) (read_pages fuel rest)"
proof -
  obtain crc where b: "buildOggPage ogg_serial (of_nat sq) ht g packet = page_bytes ogg_serial (of_nat sq) ht g crc packet"
    using buildOggPage_bytes by blast
  obtain x xs where ne: "page_bytes ogg_serial (of_nat sq) ht g crc packet @ rest = x # xs"
    by (simp add: page_bytes_def ascii_def)
  have "unat (of_nat sq :: 32 word) = sq" using assms(2) by (simp add: unat_of_nat)
  then show ?thesis
    using read_page_page_bytes [OF assms(1), of ogg_serial "of_nat sq" ht g crc rest]
    by (simp add: b ne ogg_page_of_def)
qed

lemma read_wrap_packets:
  assumes "\<forall>p \<in> set ps. length p < 65025" "i + 2 + length ps < 2 ^ 32"
  shows "\<exists>pages. read_pages (length ps) (wrap_packets n i g fs ps) = Some pages \<and> length pages = length ps \<and>
    (\<forall>j < length ps. pages ! j = ogg_page_of (i + 2 + j) (if i + j + 1 = n then 4 else 0)
      (unat (g + of_nat (j + 1) * of_int fs)) (ps ! j))"
  using assms
proof (induction ps arbitrary: i g)
  case (Cons p ps)
  let ?g = "g + of_int fs"
  obtain pages where pages: "read_pages (length ps) (wrap_packets n (i + 1) ?g fs ps) = Some pages" "length pages = length ps"
    "\<forall>j < length ps. pages ! j = ogg_page_of (i + 1 + 2 + j) (if i + 1 + j + 1 = n then 4 else 0)
      (unat (?g + of_nat (j + 1) * of_int fs)) (ps ! j)"
    using Cons.IH [of "i + 1" ?g] Cons.prems by auto
  let ?page = "ogg_page_of (i + 2) (if i + 1 = n then 4 else 0) (unat ?g) p"
  have ht: "(if int i = int n - 1 then 0x04 else 0 :: byte) = (if i + 1 = n then 4 else 0)" by auto
  have "read_pages (length (p # ps)) (wrap_packets n i g fs (p # ps)) = Some (?page # pages)"
    using read_pages_page [of p "i + 2" "length ps" "if i + 1 = n then 4 else 0" ?g "wrap_packets n (i + 1) ?g fs ps"] Cons.prems pages(1)
    by (simp add: Let_def ht)
  moreover have "(?page # pages) ! j = ogg_page_of (i + 2 + j) (if i + j + 1 = n then 4 else 0)
      (unat (g + of_nat (j + 1) * of_int fs)) ((p # ps) ! j)" if "j < length (p # ps)" for j
    using that pages(3) by (cases j) (simp_all add: algebra_simps)
  ultimately show ?case using pages(2) by (intro exI [of _ "?page # pages"]) simp
qed simp

lemma header_packets_short:
  "length (buildOpusHeadPacket r c) < 65025" "length buildOpusTagsPacket < 65025"
  by (simp_all add: buildOpusHeadPacket_def buildOpusTagsPacket_def Let_def)

subsection \<open>Framing\<close>

lemma NormalizeOpusSampleRate_range:
  "NormalizeOpusSampleRate rate \<in> {8000, 12000, 16000, 24000, 48000}"
  by (simp add: NormalizeOpusSampleRate_def supportedOpusSampleRates_def Let_def)

text \<open>The rate chosen is a nearest one.\<close>

lemma NormalizeOpusSampleRate_nearest:
  "0 < rate \<Longrightarrow> c \<in> {8000, 12000, 16000, 24000, 48000} \<Longrightarrow> \<bar>rate - NormalizeOpusSampleRate rate\<bar> \<le> \<bar>rate - c\<bar>"
  by (auto simp: NormalizeOpusSampleRate_def supportedOpusSampleRates_def Let_def absInt_def)

lemma encode_frames_count:
  assumes "encode_frames encode n enc samples packets = Inr ps" "0 < n"
  shows "length ps = length packets + (length samples + n - 1) div n"
  using assms
proof (induction encode n enc samples packets arbitrary: ps rule: encode_frames.induct)
  case (1 encode n enc samples packets)
  show ?case
  proof (cases "samples = []")
    case True
    then show ?thesis using 1(2,3) by (simp add: encode_frames.simps [of encode n])
  next
    case False
    let ?frame = "copy_at 0 (take n samples) (replicate n 0)"
    obtain packet enc1 where e: "encode enc ?frame = (Some packet, enc1)"
      and r: "encode_frames encode n enc1 (drop n samples) (packets @ [packet]) = Inr ps"
      using 1(2,3) False
      by (subst (asm) encode_frames.simps) (auto simp: Let_def split: prod.splits option.splits)
    have "length ps = length (packets @ [packet]) + (length (drop n samples) + n - 1) div n"
      using False 1(3) by (intro 1(1) [OF _ refl e [symmetric] refl r]) simp_all
    moreover have "(length samples + n - 1) div n = Suc ((length samples - n + n - 1) div n)"
    proof (cases "n \<le> length samples")
      case True
      then have "length samples + n - 1 = (length samples - n + n - 1) + n" using 1(3) by simp
      then show ?thesis using 1(3) by (metis Suc_eq_plus1 div_add_self2 less_not_refl)
    next
      case short: False
      have "0 < length samples" using False by simp
      then have "(length samples + n - 1) div n = 1" using 1(3) short by (intro div_nat_eqI) (linarith, simp)
      then show ?thesis using short 1(3) by simp
    qed
    ultimately show ?thesis by simp
  qed
qed

text \<open>
  All together: with an encoder that always answers with a packet that fits its 4000-byte buffer, every PCM input of one or
  two channels becomes a stream of one packet per (padded) frame, all of them short enough for one page.
\<close>

lemma encode_frames_total:
  assumes "\<And>e f. \<exists>p e1. encode e f = (Some p, e1) \<and> length p \<le> 4000" "\<forall>p \<in> set packets. length p \<le> 4000"
  shows "\<exists>ps. encode_frames encode n enc samples packets = Inr ps \<and> (\<forall>p \<in> set ps. length p \<le> 4000)"
  using assms(2)
proof (induction "length samples" arbitrary: enc samples packets rule: less_induct)
  case less
  show ?case
  proof (cases "samples = [] \<or> n = 0")
    case True
    then show ?thesis using less(2) by (subst encode_frames.simps) simp
  next
    case False
    let ?frame = "copy_at 0 (take n samples) (replicate n 0)"
    obtain p e1 where e: "encode enc ?frame = (Some p, e1)" "length p \<le> 4000" using assms(1) by blast
    have "\<exists>ps. encode_frames encode n e1 (drop n samples) (packets @ [p]) = Inr ps \<and> (\<forall>p \<in> set ps. length p \<le> 4000)"
      using False less(2) e(2) by (intro less(1)) auto
    then show ?thesis using False e(1) by (subst encode_frames.simps) (simp add: Let_def)
  qed
qed

lemma PCM16ToOggOpus_total:
  assumes enc: "\<And>e f. \<exists>p e1. encode e f = (Some p, e1) \<and> length p \<le> 4000"
    and new: "NewEncoder (NormalizeOpusSampleRate rate) channels = Some enc"
    and ch: "channels = 1 \<or> channels = 2" and ms: "1 \<le> ms" "ms \<le> 60"
  shows "\<exists>packets. let fs = NormalizeOpusSampleRate rate * ms div 1000 in
      PCM16ToOggOpus NewEncoder encode samples rate channels ms
        = Inr (WrapOggOpusPackets packets (NormalizeOpusSampleRate rate) channels fs)
      \<and> length packets = (length samples + nat (fs * channels) - 1) div nat (fs * channels)
      \<and> (\<forall>p \<in> set packets. length p < 65025)"
proof -
  let ?r = "NormalizeOpusSampleRate rate" let ?fs = "?r * ms div 1000"
  have r: "8000 \<le> ?r" "?r \<le> 48000" using NormalizeOpusSampleRate_range [of rate] by auto
  have b: "8000 \<le> ?r * ms" "?r * ms \<le> 48000 * 60"
    using mult_mono [of 8000 ?r 1 ms] mult_mono [of ?r 48000 ms 60] r ms by simp_all
  have "sint (of_int x :: 64 word) = x" if "8000 \<le> x" "x \<le> 48000 * 60" for x
    using that by (simp add: sint_sbintrunc' signed_take_bit_int_eq_self)
  from this [OF b] have w: "sint (of_int (?r * ms) :: 64 word) = ?r * ms" .
  have fs: "0 < ?fs" using b(1) by simp
  obtain ps where ps: "encode_frames encode (nat (?fs * channels)) enc samples [] = Inr ps" "\<forall>p \<in> set ps. length p \<le> 4000"
    using encode_frames_total [where encode = encode, OF enc, of "[]" "nat (?fs * channels)" enc samples]
    by auto
  have "length ps = (length samples + nat (?fs * channels) - 1) div nat (?fs * channels)"
    using encode_frames_count [OF ps(1)] fs ch by auto
  moreover have "PCM16ToOggOpus NewEncoder encode samples rate channels ms = Inr (WrapOggOpusPackets ps ?r channels ?fs)"
    using ch ms(1) new fs ps(1) by (auto simp: PCM16ToOggOpus_def Let_def w simp del: of_int_mult)
  ultimately show ?thesis using ps(2) unfolding Let_def by (intro exI [of _ ps]) fastforce
qed



end
