(* ===== verification/OpusPackets.thy ===== *)
theory OpusPackets
  imports OggOpus
begin

text \<open>
  The Opus packet streams of \<open>internal/util/audio_utils.go\<close>: frames with a length prefix, the reader of Ogg pages,
  durations of packets, and the three ways a stream of packets is brought to the device's frame length: passed
  through, regrouped (\<open>opus_repacketizer.go\<close> over libopus), or (theory \<open>PcmFrames\<close>) decoded and encoded anew. A reader
  is the bytes it still delivers and the error it then ends with.
\<close>

subsection \<open>Readers\<close>

datatype io_error = io_EOF | io_UnexpectedEOF | io_Other

record byte_source =
  bs_left :: bytes
  bs_end :: io_error

text \<open>\<open>io.ReadFull\<close>: what was read, and the error if it is short.\<close>

definition ReadFull :: "nat \<Rightarrow> byte_source \<Rightarrow> bytes \<times> io_error option \<times> byte_source" where
  "ReadFull n s =
     (if n \<le> length (bs_left s) then (take n (bs_left s), None, s\<lparr>bs_left := drop n (bs_left s)\<rparr>)
      else (bs_left s, Some (if bs_end s = io_EOF \<and> bs_left s \<noteq> [] then io_UnexpectedEOF else bs_end s), s\<lparr>bs_left := []\<rparr>))"

datatype packet_error =
    PIo io_error | FrameZero | FrameTooLarge nat | FrameIncomplete
  | NotOggS | OggVersion byte | OrphanContinuation | PageShort | PageTail nat nat
  | HeadShort nat | HeadMissing | TagsMissing | HeadersMissing
  | EmptyPacket | NoFrameCount | BadTarget int | BadDuration int | TooLong int int
  | NoRepacketizer | CatFailed | OutFailed

subsection \<open>Frames with a length prefix\<close>

text \<open>\<open>write\<close> is the writer: it takes the bytes or fails. A nil writer is \<open>None\<close>.\<close>

datatype write_error = NilWriter | EmptyFrame | HeaderUnwritten | PayloadUnwritten

definition WriteLengthPrefixedFrame :: "(bytes \<Rightarrow> 'w \<Rightarrow> bool \<times> 'w) option \<Rightarrow> bytes \<Rightarrow> 'w \<Rightarrow> write_error option \<times> 'w" where
  "WriteLengthPrefixedFrame writer frame w =
     (case writer of
        None \<Rightarrow> (Some NilWriter, w)
      | Some write \<Rightarrow>
          if length frame = 0 then (Some EmptyFrame, w)
          else let (ok, w1) = write (le_Uint32 (of_nat (length frame))) w in
            if \<not> ok then (Some HeaderUnwritten, w1)
            else let (ok, w2) = write frame w1 in
              if \<not> ok then (Some PayloadUnwritten, w2) else (None, w2))"

definition le_getUint32 :: "bytes \<Rightarrow> nat" where
  "le_getUint32 bs = le_nat (take 4 bs)"

definition readLengthPrefixedFrame :: "byte_source \<Rightarrow> (packet_error + bytes) \<times> byte_source" where
  "readLengthPrefixedFrame s =
     (case ReadFull 4 s of
        (header, Some e, s1) \<Rightarrow> (Inl (PIo e), s1)
      | (header, None, s1) \<Rightarrow>
          (let frameLen = le_getUint32 header in
           if frameLen = 0 then (Inl FrameZero, s1)
           else if frameLen > 64 * 1024 then (Inl (FrameTooLarge frameLen), s1)
           else (case ReadFull frameLen s1 of
                   (frame, Some e, s2) \<Rightarrow> (Inl (PIo e), s2)
                 | (frame, None, s2) \<Rightarrow> (Inr frame, s2))))"

text \<open>The function \<open>RunOpusDecoder\<close> hands on: an incomplete frame becomes an error of its own.\<close>

definition next_frame :: "byte_source \<Rightarrow> (packet_error + bytes) \<times> byte_source" where
  "next_frame s =
     (case readLengthPrefixedFrame s of
        (Inl e, s1) \<Rightarrow> if e = PIo io_UnexpectedEOF then (Inl FrameIncomplete, s1) else (Inl e, s1)
      | (Inr packet, s1) \<Rightarrow> (Inr packet, s1))"

lemma ReadFull_left: "ReadFull n s = (bs, None, s') \<Longrightarrow> length (bs_left s') + n = length (bs_left s)"
  by (auto simp: ReadFull_def split: if_splits)

lemma next_frame_shrinks:
  assumes "next_frame s = (Inr p, s')"
  shows "length (bs_left s') < length (bs_left s)"
proof -
  have f: "readLengthPrefixedFrame s = (Inr p, s')"
    using assms by (auto simp: next_frame_def split: prod.splits sum.splits if_splits)
  obtain h s1 where 1: "ReadFull 4 s = (h, None, s1)"
    using f by (cases "ReadFull 4 s" rule: prod_cases3) (auto simp: readLengthPrefixedFrame_def split: option.splits)
  obtain b where "ReadFull (le_getUint32 h) s1 = (b, None, s')"
    using f 1 by (cases "ReadFull (le_getUint32 h) s1" rule: prod_cases3)
      (auto simp: readLengthPrefixedFrame_def Let_def split: option.splits if_splits)
  then show ?thesis using ReadFull_left [OF 1] ReadFull_left by fastforce
qed

text \<open>All the packets a source delivers, and the error it ends with.\<close>

function all_frames :: "byte_source \<Rightarrow> bytes list \<times> packet_error" where
  "all_frames s =
     (case next_frame s of
        (Inl e, s1) \<Rightarrow> ([], e)
      | (Inr p, s1) \<Rightarrow> (let (ps, e) = all_frames s1 in (p # ps, e)))"
  by pat_completeness auto
termination by (relation "measure (\<lambda>s. length (bs_left s))") (auto dest: next_frame_shrinks [OF sym])

declare all_frames.simps [simp del]

subsection \<open>Ogg pages\<close>

record opus_info =
  oi_SampleRate :: int
  oi_Channels :: int

record ogg_page_read =
  op_HeaderType :: byte
  op_Segments :: bytes
  op_Body :: bytes

record ogg_reader =
  or_reader :: byte_source
  or_queue :: "bytes list"
  or_carry :: bytes
  or_info :: opus_info
  or_headSeen :: bool
  or_tagsSeen :: bool

definition new_reader :: "byte_source \<Rightarrow> ogg_reader" where
  "new_reader s = \<lparr>or_reader = s, or_queue = [], or_carry = [], or_info = \<lparr>oi_SampleRate = 0, oi_Channels = 0\<rparr>,
     or_headSeen = False, or_tagsSeen = False\<rparr>"

text \<open>What \<open>readOggPage\<close> makes of a short read inside a page.\<close>

definition short_read :: "io_error \<Rightarrow> packet_error" where
  "short_read e = PIo (if e = io_UnexpectedEOF \<or> e = io_EOF then io_UnexpectedEOF else e)"

definition readOggPage :: "byte_source \<Rightarrow> (packet_error + ogg_page_read) \<times> byte_source" where
  "readOggPage s =
     (case ReadFull 27 s of
        (header, Some e, s1) \<Rightarrow>
          if e = io_EOF \<and> length header = 0 then (Inl (PIo io_EOF), s1) else (Inl (short_read e), s1)
      | (header, None, s1) \<Rightarrow>
          if take 4 header \<noteq> ascii ''OggS'' then (Inl NotOggS, s1)
          else if header ! 4 \<noteq> 0 then (Inl (OggVersion (header ! 4)), s1)
          else (case ReadFull (unat (header ! 26)) s1 of
                  (segments, Some e, s2) \<Rightarrow> (Inl (short_read e), s2)
                | (segments, None, s2) \<Rightarrow>
                    (case ReadFull (sum_list (map unat segments)) s2 of
                       (body, Some e, s3) \<Rightarrow> (Inl (short_read e), s3)
                     | (body, None, s3) \<Rightarrow> (Inr \<lparr>op_HeaderType = header ! 5, op_Segments = segments, op_Body = body\<rparr>, s3))))"

definition parseOpusHeadPacket :: "bytes \<Rightarrow> packet_error + opus_info" where
  "parseOpusHeadPacket packet =
     (if length packet < 19 then Inl (HeadShort (length packet))
      else if take 8 packet \<noteq> ascii ''OpusHead'' then Inl HeadMissing
      else let channels = (if unat (packet ! 9) < 1 then 1 else unat (packet ! 9));
               rate = le_getUint32 (take 4 (drop 12 packet));
               sampleRate = (if rate = 0 then 48000 else rate)
           in Inr \<lparr>oi_SampleRate = NormalizeOpusSampleRate (int sampleRate), oi_Channels = int channels\<rparr>)"

definition handlePacket :: "bytes \<Rightarrow> ogg_reader \<Rightarrow> packet_error option \<times> ogg_reader" where
  "handlePacket packet r =
     (if \<not> or_headSeen r
      then (case parseOpusHeadPacket packet of
              Inl e \<Rightarrow> (Some e, r)
            | Inr info \<Rightarrow> (None, r\<lparr>or_info := info, or_headSeen := True\<rparr>))
      else if \<not> or_tagsSeen r
      then (if take 8 packet \<noteq> ascii ''OpusTags'' then (Some TagsMissing, r) else (None, r\<lparr>or_tagsSeen := True\<rparr>))
      else (None, if length packet > 0 then r\<lparr>or_queue := or_queue r @ [packet]\<rparr> else r))"

fun segments_loop :: "bytes \<Rightarrow> bytes \<Rightarrow> nat \<Rightarrow> bytes \<Rightarrow> ogg_reader \<Rightarrow> (packet_error + nat \<times> bytes) \<times> ogg_reader" where
  "segments_loop [] body offset packet r = (Inr (offset, packet), r)"
| "segments_loop (segmentLen # segs) body offset packet r =
     (let e = offset + unat segmentLen in
      if e > length body then (Inl PageShort, r)
      else let packet = packet @ take (e - offset) (drop offset body) in
        if unat segmentLen < 255
        then (case handlePacket packet r of
                (Some err, r1) \<Rightarrow> (Inl err, r1)
              | (None, r1) \<Rightarrow> segments_loop segs body e [] r1)
        else segments_loop segs body e packet r)"

definition readNextPage :: "ogg_reader \<Rightarrow> packet_error option \<times> ogg_reader" where
  "readNextPage r =
     (case readOggPage (or_reader r) of
        (Inl e, s1) \<Rightarrow> (Some e, r\<lparr>or_reader := s1\<rparr>)
      | (Inr page, s1) \<Rightarrow>
          (let r1 = r\<lparr>or_reader := s1\<rparr>; packet = or_carry r1 in
           if length packet = 0 \<and> bit (op_HeaderType page) 0 then (Some OrphanContinuation, r1)
           else (case segments_loop (op_Segments page) (op_Body page) 0 packet r1 of
                   (Inl e, r2) \<Rightarrow> (Some e, r2)
                 | (Inr (offset, packet), r2) \<Rightarrow>
                     if offset \<noteq> length (op_Body page) then (Some (PageTail offset (length (op_Body page))), r2)
                     else (None, r2\<lparr>or_carry := packet\<rparr>))))"

lemma handlePacket_reader: "or_reader (snd (handlePacket p r)) = or_reader r"
  by (simp add: handlePacket_def split: sum.splits)

lemma segments_loop_keeps_reader: "or_reader (snd (segments_loop segs body off p r)) = or_reader r"
proof (induction segs arbitrary: off p r)
  case (Cons a segs)
  then show ?case
    using handlePacket_reader [of "p @ take (unat a) (drop off body)" r]
    by (cases "handlePacket (p @ take (unat a) (drop off body)) r") (simp add: Let_def split: option.splits)
qed simp

lemma segments_loop_reader: "segments_loop segs body off p r = (x, r') \<Longrightarrow> or_reader r' = or_reader r"
  by (metis segments_loop_keeps_reader snd_conv)

lemma readOggPage_shrinks:
  assumes "readOggPage s = (Inr page, s')"
  shows "length (bs_left s') < length (bs_left s)"
proof -
  obtain h s1 where 1: "ReadFull 27 s = (h, None, s1)"
    using assms by (cases "ReadFull 27 s" rule: prod_cases3) (auto simp: readOggPage_def split: option.splits if_splits)
  obtain g s2 where 2: "ReadFull (unat (h ! 26)) s1 = (g, None, s2)"
    using assms 1 by (cases "ReadFull (unat (h ! 26)) s1" rule: prod_cases3) (auto simp: readOggPage_def split: option.splits if_splits)
  obtain b where "ReadFull (sum_list (map unat g)) s2 = (b, None, s')"
    using assms 1 2 by (cases "ReadFull (sum_list (map unat g)) s2" rule: prod_cases3) (auto simp: readOggPage_def split: option.splits if_splits)
  then show ?thesis using ReadFull_left [OF 1] ReadFull_left [OF 2] ReadFull_left by fastforce
qed

lemma readNextPage_shrinks:
  assumes "readNextPage r = (None, r')"
  shows "length (bs_left (or_reader r')) < length (bs_left (or_reader r))"
proof -
  obtain page s1 where p: "readOggPage (or_reader r) = (Inr page, s1)"
    using assms by (auto simp: readNextPage_def split: prod.splits sum.splits)
  then obtain off packet r2 where
      "segments_loop (op_Segments page) (op_Body page) 0 (or_carry r) (r\<lparr>or_reader := s1\<rparr>) = (Inr (off, packet), r2)"
      "r' = r2\<lparr>or_carry := packet\<rparr>"
    using assms by (auto simp: readNextPage_def Let_def split: prod.splits sum.splits if_splits)
  then show ?thesis using readOggPage_shrinks [OF p] segments_loop_reader by fastforce
qed

function Prepare :: "ogg_reader \<Rightarrow> (packet_error + opus_info) \<times> ogg_reader" where
  "Prepare r =
     (if \<not> or_headSeen r \<or> \<not> or_tagsSeen r
      then (case readNextPage r of
              (Some e, r1) \<Rightarrow> if e = PIo io_EOF then (Inl HeadersMissing, r1) else (Inl e, r1)
            | (None, r1) \<Rightarrow> Prepare r1)
      else (let info = or_info r;
                info = (if oi_SampleRate info \<le> 0 then info\<lparr>oi_SampleRate := 48000\<rparr> else info);
                info = (if oi_Channels info \<le> 0 then info\<lparr>oi_Channels := 1\<rparr> else info)
            in (Inr info, r\<lparr>or_info := info\<rparr>)))"
  by pat_completeness auto
termination by (relation "measure (\<lambda>r. length (bs_left (or_reader r)))") (auto dest: readNextPage_shrinks [OF sym])

function NextPacket :: "ogg_reader \<Rightarrow> (packet_error + bytes) \<times> ogg_reader" where
  "NextPacket r =
     (case or_queue r of
        [] \<Rightarrow>
          (case readNextPage r of
             (Some e, r1) \<Rightarrow>
               if e = PIo io_EOF then (if length (or_carry r1) > 0 then (Inl (PIo io_UnexpectedEOF), r1) else (Inl (PIo io_EOF), r1))
               else (Inl e, r1)
           | (None, r1) \<Rightarrow> NextPacket r1)
      | packet # queue \<Rightarrow> (Inr packet, r\<lparr>or_queue := queue\<rparr>))"
  by pat_completeness auto
termination by (relation "measure (\<lambda>r. length (bs_left (or_reader r)))") (auto dest: readNextPage_shrinks [OF sym])

declare Prepare.simps [simp del] NextPacket.simps [simp del]

lemma NextPacket_shrinks:
  "NextPacket r = (Inr p, r') \<Longrightarrow> length (bs_left (or_reader r')) < length (bs_left (or_reader r)) \<or>
     bs_left (or_reader r') = bs_left (or_reader r) \<and> length (or_queue r') < length (or_queue r)"
proof (induction r arbitrary: r' rule: NextPacket.induct)
  case (1 r)
  show ?case
  proof (cases "or_queue r")
    case Nil
    then obtain r1 where "readNextPage r = (None, r1)" "NextPacket r1 = (Inr p, r')"
      using 1(2) by (subst (asm) NextPacket.simps) (auto split: prod.splits option.splits if_splits)
    then show ?thesis using 1(1) [OF Nil] readNextPage_shrinks [of r r1] by fastforce
  next
    case (Cons q qs)
    with 1(2) show ?thesis by (subst (asm) NextPacket.simps) auto
  qed
qed

function all_packets :: "ogg_reader \<Rightarrow> bytes list \<times> packet_error" where
  "all_packets r =
     (case NextPacket r of
        (Inl e, r1) \<Rightarrow> ([], e)
      | (Inr p, r1) \<Rightarrow> (let (ps, e) = all_packets r1 in (p # ps, e)))"
  by pat_completeness auto
termination
  by (relation "measures [\<lambda>r. length (bs_left (or_reader r)), \<lambda>r. length (or_queue r)]") (auto dest: NextPacket_shrinks [OF sym])

declare all_packets.simps [simp del]
subsection \<open>Reading back frames\<close>

lemma ReadFull_exact: "ReadFull (length a) \<lparr>bs_left = a @ b, bs_end = e\<rparr> = (a, None, \<lparr>bs_left = b, bs_end = e\<rparr>)"
  by (simp add: ReadFull_def)

lemma read_frame:
  assumes "frame \<noteq> []" "length frame < 2 ^ 32"
  shows "readLengthPrefixedFrame \<lparr>bs_left = le_Uint32 (of_nat (length frame)) @ frame @ rest, bs_end = e\<rparr> =
    (if length frame \<le> 65536 then (Inr frame, \<lparr>bs_left = rest, bs_end = e\<rparr>)
     else (Inl (FrameTooLarge (length frame)), \<lparr>bs_left = frame @ rest, bs_end = e\<rparr>))"
proof -
  have h: "ReadFull 4 \<lparr>bs_left = le_Uint32 (of_nat (length frame)) @ frame @ rest, bs_end = e\<rparr>
      = (le_Uint32 (of_nat (length frame)), None, \<lparr>bs_left = frame @ rest, bs_end = e\<rparr>)"
    using ReadFull_exact [of "le_Uint32 (of_nat (length frame))"] by simp
  have n: "le_getUint32 (le_Uint32 (of_nat (length frame))) = length frame"
    using assms(2) by (simp add: le_getUint32_def le_nat_Uint32 unat_of_nat)
  show ?thesis using assms(1) by (auto simp: readLengthPrefixedFrame_def h n Let_def ReadFull_exact)
qed

text \<open>A writer that keeps what it is given, and the frames written to it one after the other.\<close>

definition buffer_write :: "bytes \<Rightarrow> bytes \<Rightarrow> bool \<times> bytes" where
  "buffer_write bs w = (True, w @ bs)"

fun written :: "bytes list \<Rightarrow> bytes \<Rightarrow> bytes" where
  "written [] w = w"
| "written (f # fs) w = written fs (snd (WriteLengthPrefixedFrame (Some buffer_write) f w))"

lemma written_eq:
  "\<forall>f\<in>set fs. f \<noteq> [] \<Longrightarrow> written fs w = w @ concat (map (\<lambda>f. le_Uint32 (of_nat (length f)) @ f) fs)"
  by (induction fs arbitrary: w) (simp_all add: WriteLengthPrefixedFrame_def buffer_write_def)

lemma all_frames_written:
  assumes "\<forall>f\<in>set fs. f \<noteq> [] \<and> length f < 2 ^ 32"
  shows "all_frames \<lparr>bs_left = concat (map (\<lambda>f. le_Uint32 (of_nat (length f)) @ f) fs), bs_end = io_EOF\<rparr>
    = (takeWhile (\<lambda>f. length f \<le> 65536) fs,
       case dropWhile (\<lambda>f. length f \<le> 65536) fs of [] \<Rightarrow> PIo io_EOF | f # _ \<Rightarrow> FrameTooLarge (length f))"
  using assms
proof (induction fs)
  case Nil
  have "next_frame \<lparr>bs_left = [], bs_end = io_EOF\<rparr> = (Inl (PIo io_EOF), \<lparr>bs_left = [], bs_end = io_EOF\<rparr>)"
    by (simp add: next_frame_def readLengthPrefixedFrame_def ReadFull_def)
  then show ?case by (simp add: all_frames.simps)
next
  case (Cons f fs)
  then have f: "f \<noteq> []" "length f < 2 ^ 32" by simp_all
  show ?case
    using read_frame [OF f, of "concat (map (\<lambda>f. le_Uint32 (of_nat (length f)) @ f) fs)" io_EOF] Cons
    by (subst all_frames.simps) (simp add: next_frame_def Let_def)
qed

subsection \<open>Reading back pages\<close>

lemma readOggPage_read_page:
  assumes "read_page bs = Some (p, rest)"
  shows "readOggPage \<lparr>bs_left = bs, bs_end = e\<rparr> =
    (Inr \<lparr>op_HeaderType = pg_type p, op_Segments = pg_lacing p, op_Body = pg_body p\<rparr>, \<lparr>bs_left = rest, bs_end = e\<rparr>)"
proof -
  define n where "n = unat (bs ! 26)"
  define len where "len = sum_list (map unat (take n (drop 27 bs)))"
  have g: "27 \<le> length bs" "take 4 bs = ascii ''OggS''" "bs ! 4 = 0" "27 + n + len \<le> length bs"
    and p: "p = \<lparr>pg_type = bs ! 5, pg_granule = le_nat (take 8 (drop 6 bs)), pg_serial = le_nat (take 4 (drop 14 bs)),
        pg_sequence = le_nat (take 4 (drop 18 bs)), pg_lacing = take n (drop 27 bs), pg_body = take len (drop (27 + n) bs)\<rparr>"
    and r: "rest = drop (27 + n + len) bs"
    using assms by (auto simp: read_page_def Let_def n_def len_def split: if_splits)
  have h: "take 4 (take 27 bs) = ascii ''OggS''" "take 27 bs ! 4 = 0" "take 27 bs ! 5 = bs ! 5" "take 27 bs ! 26 = bs ! 26"
    using g by (simp_all add: min_absorb1)
  have "n \<le> length bs - 27" "len \<le> length bs - (n + 27)" using g(4) by linarith+
  then show ?thesis
    using g(1,4) h
    by (simp add: readOggPage_def ReadFull_def p r n_def [symmetric] len_def [symmetric] add.commute)
qed

lemma segments_full:
  assumes "length body = off + 255 * k + m" "unat v = m" "m < 255"
  shows "segments_loop (replicate k 255 @ [v]) body off acc r =
    (case handlePacket (acc @ drop off body) r of (Some e, r1) \<Rightarrow> (Inl e, r1) | (None, r1) \<Rightarrow> (Inr (length body, []), r1))"
  using assms
proof (induction k arbitrary: acc off)
  case 0
  then show ?case by (simp add: Let_def split: option.split prod.split)
next
  case (Suc k)
  have "acc @ take 255 (drop off body) @ drop (off + 255) body = acc @ drop off body"
    by (metis add.commute append_take_drop_id drop_drop)
  then show ?case using Suc.IH [of "off + 255" "acc @ take 255 (drop off body)"] Suc.prems by (simp add: Let_def)
qed

text \<open>Reading one page of the writer: its packet is handled.\<close>

lemma readNextPage_page:
  assumes "length packet < 65025" "\<not> bit ht 0" "or_carry r = []"
    and "or_reader r = \<lparr>bs_left = buildOggPage serial sq ht g packet @ rest, bs_end = e\<rparr>"
  shows "readNextPage r = handlePacket packet (r\<lparr>or_reader := \<lparr>bs_left = rest, bs_end = e\<rparr>\<rparr>)"
proof -
  obtain crc where b: "buildOggPage serial sq ht g packet = page_bytes serial sq ht g crc packet" using buildOggPage_bytes by blast
  let ?r1 = "r\<lparr>or_reader := \<lparr>bs_left = rest, bs_end = e\<rparr>\<rparr>"
  have p: "readOggPage (or_reader r) = (Inr \<lparr>op_HeaderType = ht, op_Segments = buildOggSegments (int (length packet)), op_Body = packet\<rparr>,
      \<lparr>bs_left = rest, bs_end = e\<rparr>)"
    using readOggPage_read_page [OF read_page_page_bytes [OF assms(1), of serial sq ht g crc rest], of e] by (simp add: assms(4) b)
  have s: "segments_loop (buildOggSegments (int (length packet))) packet 0 [] ?r1 =
      (case handlePacket packet ?r1 of (Some e, r1) \<Rightarrow> (Inl e, r1) | (None, r1) \<Rightarrow> (Inr (length packet, []), r1))"
    using segments_full [of packet 0 "length packet div 255" "length packet mod 255" "of_nat (length packet mod 255)" "[]" ?r1]
    by (simp add: buildOggSegments_closed unat_mod_255 del: unat_byte)
  obtain x r2 where h: "handlePacket packet ?r1 = (x, r2)" by fastforce
  have "or_carry r2 = []" using h assms(3) by (auto simp: handlePacket_def split: if_splits sum.splits)
  then have "r2\<lparr>or_carry := []\<rparr> = r2" by simp
  then show ?thesis using p s h assms(2,3) by (cases x) (simp_all add: readNextPage_def)
qed

lemma reader_with: "\<lparr>or_reader = s, or_queue = q, or_carry = c, or_info = i, or_headSeen = a, or_tagsSeen = b\<rparr>\<lparr>or_reader := s'\<rparr>
  = \<lparr>or_reader = s', or_queue = q, or_carry = c, or_info = i, or_headSeen = a, or_tagsSeen = b\<rparr>"
  by simp

definition reading :: "opus_info \<Rightarrow> bytes \<Rightarrow> ogg_reader" where
  "reading info bs = \<lparr>or_reader = \<lparr>bs_left = bs, bs_end = io_EOF\<rparr>, or_queue = [], or_carry = [], or_info = info,
     or_headSeen = True, or_tagsSeen = True\<rparr>"

lemma parse_head:
  assumes "0 < rate" "rate < 2 ^ 31" "1 \<le> channels" "channels \<le> 255"
  shows "parseOpusHeadPacket (buildOpusHeadPacket rate channels) =
    Inr \<lparr>oi_SampleRate = NormalizeOpusSampleRate rate, oi_Channels = channels\<rparr>"
proof -
  have r: "unat (of_int rate :: 32 word) = nat rate"
    using assms(1,2) by (simp add: unat_eq_nat_uint uint_word_of_int)
  have c: "unat (of_int channels :: byte) = nat channels"
    using assms(3,4) by (simp add: unat_eq_nat_uint uint_word_of_int)
  have "le_getUint32 (take 4 (drop 12 (buildOpusHeadPacket rate channels))) = nat rate"
    by (simp add: buildOpusHeadPacket_def le_getUint32_def le_nat_Uint32 r ascii_def)
  moreover have "take 8 (buildOpusHeadPacket rate channels) = ascii ''OpusHead''" "length (buildOpusHeadPacket rate channels) = 19"
      "buildOpusHeadPacket rate channels ! 9 = of_int channels"
    by (simp_all add: buildOpusHeadPacket_def ascii_def)
  ultimately show ?thesis using assms by (simp add: parseOpusHeadPacket_def Let_def c)
qed

lemma NormalizeOpusSampleRate_pos: "0 < NormalizeOpusSampleRate rate"
  using NormalizeOpusSampleRate_range [of rate] by auto

lemma Prepare_written:
  assumes "0 < rate" "rate < 2 ^ 31" "1 \<le> channels" "channels \<le> 255"
  shows "\<exists>info. info = \<lparr>oi_SampleRate = NormalizeOpusSampleRate rate, oi_Channels = channels\<rparr> \<and>
    Prepare (new_reader \<lparr>bs_left = WrapOggOpusPackets packets rate channels fs, bs_end = io_EOF\<rparr>) =
      (Inr info, reading info (wrap_packets (length packets) 0 0 fs packets))"
proof -
  define info where "info = \<lparr>oi_SampleRate = NormalizeOpusSampleRate rate, oi_Channels = channels\<rparr>"
  define more where "more = wrap_packets (length packets) 0 0 fs packets"
  define tags where "tags = buildOggPage ogg_serial 1 0 0 buildOpusTagsPacket"
  let ?r0 = "new_reader \<lparr>bs_left = WrapOggOpusPackets packets rate channels fs, bs_end = io_EOF\<rparr>"
  let ?r1 = "\<lparr>or_reader = \<lparr>bs_left = tags @ more, bs_end = io_EOF\<rparr>, or_queue = [], or_carry = [], or_info = info,
     or_headSeen = True, or_tagsSeen = False\<rparr>"
  have "readNextPage ?r0 = handlePacket (buildOpusHeadPacket rate channels) (?r0\<lparr>or_reader := \<lparr>bs_left = tags @ more, bs_end = io_EOF\<rparr>\<rparr>)"
    by (rule readNextPage_page [where serial = ogg_serial and sq = 0 and ht = 2 and g = 0])
      (simp_all add: header_packets_short new_reader_def WrapOggOpusPackets_def tags_def more_def)
  then have 1: "readNextPage ?r0 = (None, ?r1)"
    by (simp add: handlePacket_def new_reader_def parse_head [OF assms] info_def)
  have "readNextPage ?r1 = handlePacket buildOpusTagsPacket (?r1\<lparr>or_reader := \<lparr>bs_left = more, bs_end = io_EOF\<rparr>\<rparr>)"
    by (rule readNextPage_page [where serial = ogg_serial and sq = 1 and ht = 0 and g = 0]) (simp_all add: header_packets_short tags_def)
  moreover have "take 8 buildOpusTagsPacket = ascii ''OpusTags''" by (simp add: buildOpusTagsPacket_def Let_def ascii_def)
  ultimately have 2: "readNextPage ?r1 = (None, reading info more)" by (simp add: handlePacket_def reading_def)
  have 3: "Prepare (reading info more) = (Inr info, reading info more)"
    using assms NormalizeOpusSampleRate_pos [of rate] by (subst Prepare.simps) (auto simp: reading_def info_def Let_def)
  have "Prepare ?r0 = Prepare ?r1" using 1 by (subst Prepare.simps) (simp add: new_reader_def)
  also have "\<dots> = Prepare (reading info more)" using 2 by (subst Prepare.simps) simp
  finally show ?thesis using 3 by (intro exI [of _ info]) (simp add: info_def more_def)
qed

lemma all_packets_queue: "or_queue r = p # q \<Longrightarrow> all_packets r = (let (ps, e) = all_packets (r\<lparr>or_queue := q\<rparr>) in (p # ps, e))"
  by (subst all_packets.simps) (simp add: NextPacket.simps)

lemma all_packets_page:
  assumes "or_queue r = []" "readNextPage r = (None, r')"
  shows "all_packets r = all_packets r'"
proof -
  have "NextPacket r = NextPacket r'" using assms by (subst NextPacket.simps) simp
  then show ?thesis by (simp add: all_packets.simps [of r] all_packets.simps [of r'])
qed

lemma all_packets_written:
  assumes "\<forall>p\<in>set ps. length p < 65025"
  shows "all_packets (reading info (wrap_packets n i g fs ps)) = (filter (\<lambda>p. p \<noteq> []) ps, PIo io_EOF)"
  using assms
proof (induction ps arbitrary: i g)
  case Nil
  have "readNextPage (reading info []) = (Some (PIo io_EOF), reading info [])"
    by (simp add: readNextPage_def reading_def readOggPage_def ReadFull_def)
  then have "NextPacket (reading info []) = (Inl (PIo io_EOF), reading info [])"
    by (subst NextPacket.simps) (simp add: reading_def)
  then show ?case by (subst all_packets.simps) simp
next
  case (Cons p ps)
  let ?ht = "if int i = int n - 1 then 4 else 0 :: byte"
  let ?rest = "wrap_packets n (i + 1) (g + of_int fs) fs ps"
  have pg: "readNextPage (reading info (wrap_packets n i g fs (p # ps))) = handlePacket p (reading info ?rest)"
    using readNextPage_page [of p ?ht "reading info (wrap_packets n i g fs (p # ps))" ogg_serial "of_nat (i + 2)" "g + of_int fs" ?rest io_EOF]
      Cons.prems
    by (simp add: reading_def Let_def)
  show ?case
  proof (cases "p = []")
    case True
    then have "readNextPage (reading info (wrap_packets n i g fs (p # ps))) = (None, reading info ?rest)"
      using pg by (simp add: handlePacket_def reading_def)
    from all_packets_page [OF _ this] show ?thesis using Cons True by (simp add: reading_def)
  next
    case False
    then have "readNextPage (reading info (wrap_packets n i g fs (p # ps))) = (None, (reading info ?rest)\<lparr>or_queue := [p]\<rparr>)"
      using pg by (simp add: handlePacket_def reading_def)
    from all_packets_page [OF _ this]
    have "all_packets (reading info (wrap_packets n i g fs (p # ps))) = all_packets ((reading info ?rest)\<lparr>or_queue := [p]\<rparr>)"
      by (simp add: reading_def)
    also have "\<dots> = (let (qs, e) = all_packets (reading info ?rest) in (p # qs, e))"
      using all_packets_queue [of "(reading info ?rest)\<lparr>or_queue := [p]\<rparr>" p "[]"] by (simp add: reading_def)
    finally show ?thesis using Cons False by simp
  qed
qed

end
