(* ===== verification/OpusStreams.thy ===== *)
theory OpusStreams
  imports OpusPackets
begin

text \<open>
  What \<open>audio_utils.go\<close> does with the packets of a source without decoding them: how long a packet is, passing packets
  through, and regrouping short packets into frames of the device's length. libopus is not part of the repository:
  its repacketizer is a record of operations, and \<open>repacketizer_ok\<close> states what the code relies on. Every \<open>select\<close> between
  the context and an output (or the default) takes its answer from a list; once the context was seen to be done it stays done.
\<close>

subsection \<open>Durations\<close>

definition toc_size :: "byte \<Rightarrow> nat" where
  "toc_size toc = unat (drop_bit 3 toc AND 3)"

definition opusPacketSamplesPerFrame :: "byte \<Rightarrow> int \<Rightarrow> int" where
  "opusPacketSamplesPerFrame toc sampleRate =
     (if toc AND 0x80 \<noteq> 0 then push_bit (toc_size toc) sampleRate div 400
      else if toc AND 0x60 = 0x60 then (if toc AND 0x08 \<noteq> 0 then sampleRate div 50 else sampleRate div 100)
      else let audioSize = toc_size toc in
        if audioSize = 3 then sampleRate * 60 div 1000 else push_bit audioSize sampleRate div 100)"

definition opusPacketFrameCount :: "bytes \<Rightarrow> packet_error + int" where
  "opusPacketFrameCount packet =
     (if length packet = 0 then Inl EmptyPacket
      else let code = packet ! 0 AND 3 in
        if code = 0 then Inr 1
        else if code = 1 \<or> code = 2 then Inr 2
        else if length packet < 2 then Inl NoFrameCount
        else Inr (int (unat (packet ! 1 AND 0x3F))))"

definition opusPacketDurationMs :: "bytes \<Rightarrow> int \<Rightarrow> packet_error + int" where
  "opusPacketDurationMs packet sampleRate =
     (if length packet = 0 then Inl EmptyPacket
      else let sampleRate = (if sampleRate \<le> 0 then 48000 else sampleRate);
               samplesPerFrame = opusPacketSamplesPerFrame (packet ! 0) sampleRate
           in case opusPacketFrameCount packet of
                Inl e \<Rightarrow> Inl e
              | Inr frameCount \<Rightarrow> Inr (samplesPerFrame * frameCount * 1000 div sampleRate))"

subsection \<open>The decoder and its output\<close>

record audio_decoder =
  ad_perFrameDurationMs :: int
  ad_targetSampleRate :: int
  ad_TargetAudioFormat :: string

definition getTargetSampleRate :: "audio_decoder \<Rightarrow> int \<Rightarrow> int" where
  "getTargetSampleRate d sourceSampleRate = (if ad_targetSampleRate d > 0 then ad_targetSampleRate d else sourceSampleRate)"

definition canPassthroughOpusPacket :: "audio_decoder \<Rightarrow> int \<Rightarrow> int \<Rightarrow> bytes \<Rightarrow> bool" where
  "canPassthroughOpusPacket d sourceSampleRate channels firstPacket =
     (if ad_TargetAudioFormat d \<noteq> ''opus'' then False
      else if channels \<noteq> 1 then False
      else if getTargetSampleRate d sourceSampleRate \<noteq> sourceSampleRate then False
      else if ad_perFrameDurationMs d \<le> 0 then True
      else case opusPacketDurationMs firstPacket sourceSampleRate of
             Inl e \<Rightarrow> False
           | Inr ms \<Rightarrow> ms = ad_perFrameDurationMs d)"

definition canRepacketizeOpusPacket :: "audio_decoder \<Rightarrow> int \<Rightarrow> int \<Rightarrow> bytes \<Rightarrow> bool" where
  "canRepacketizeOpusPacket d sourceSampleRate channels firstPacket =
     (if ad_TargetAudioFormat d \<noteq> ''opus'' then False
      else if channels \<noteq> 1 then False
      else if getTargetSampleRate d sourceSampleRate \<noteq> sourceSampleRate then False
      else let targetDurationMs = ad_perFrameDurationMs d in
        if targetDurationMs \<le> 0 \<or> targetDurationMs > 120 then False
        else case opusPacketDurationMs firstPacket sourceSampleRate of
               Inl e \<Rightarrow> False
             | Inr ms \<Rightarrow> \<not> (ms \<le> 0 \<or> ms \<ge> targetDurationMs))"

record audio_out =
  ao_selects :: "bool list"
  ao_done :: bool
  ao_out :: "bytes list"
  ao_closed :: bool

text \<open>The check of the context at the head of a loop, and a select between the context and the output channel.\<close>

definition ctx_done :: "audio_out \<Rightarrow> bool \<times> audio_out" where
  "ctx_done o1 =
     (if ao_done o1 then (True, o1)
      else case ao_selects o1 of [] \<Rightarrow> (False, o1) | b # bs \<Rightarrow> (\<not> b, o1\<lparr>ao_selects := bs, ao_done := \<not> b\<rparr>))"

definition out_send :: "bytes \<Rightarrow> audio_out \<Rightarrow> bool \<times> audio_out" where
  "out_send frameData o1 =
     (case ao_selects o1 of
        [] \<Rightarrow> (True, o1\<lparr>ao_out := ao_out o1 @ [frameData]\<rparr>)
      | b # bs \<Rightarrow> if b then (True, o1\<lparr>ao_selects := bs, ao_out := ao_out o1 @ [frameData]\<rparr>)
                  else (False, o1\<lparr>ao_selects := bs, ao_done := True\<rparr>))"

definition stream_end :: "packet_error \<Rightarrow> packet_error option" where
  "stream_end e = (if e = PIo io_EOF then None else Some e)"

subsection \<open>Passing through\<close>

definition emitPacket :: "bytes \<Rightarrow> audio_out \<Rightarrow> audio_out" where
  "emitPacket packet o1 = (if length packet = 0 then o1 else snd (out_send packet o1))"

fun pass_loop :: "bytes list \<Rightarrow> packet_error \<Rightarrow> audio_out \<Rightarrow> packet_error option \<times> audio_out" where
  "pass_loop [] e o1 = (let (d, o2) = ctx_done o1 in if d then (None, o2) else (stream_end e, o2))"
| "pass_loop (packet # packets) e o1 =
     (let (d, o2) = ctx_done o1 in if d then (None, o2) else pass_loop packets e (emitPacket packet o2))"

text \<open>The packets \<open>nextPacket\<close> answers after the first one, and the error it ends with, are a list and \<open>e\<close>.\<close>

definition passThroughOpusPackets :: "bytes \<Rightarrow> bytes list \<Rightarrow> packet_error \<Rightarrow> audio_out \<Rightarrow> packet_error option \<times> audio_out" where
  "passThroughOpusPackets firstPacket packets e o1 = pass_loop packets e (emitPacket firstPacket o1)"

subsection \<open>Regrouping\<close>

record 'r repacketizer =
  rp_new :: "'r option"
  rp_reset :: "'r \<Rightarrow> 'r"
  rp_nbFrames :: "'r \<Rightarrow> nat"
  rp_cat :: "bytes \<Rightarrow> 'r \<Rightarrow> bool \<times> 'r"
  rp_out_range :: "nat \<Rightarrow> nat \<Rightarrow> nat \<Rightarrow> 'r \<Rightarrow> bytes option"

text \<open>The wrapper \<open>out\<close>, with the buffer of 1277 bytes per frame.\<close>

definition rp_out :: "'r repacketizer \<Rightarrow> 'r \<Rightarrow> bytes option" where
  "rp_out R r =
     (let b = 0; e = rp_nbFrames R r; maxFrames = e - b in
      if maxFrames \<le> 0 then None else rp_out_range R b e (1277 * maxFrames) r)"

record 'r regroup =
  rg_rp :: 'r
  rg_currentDurationMs :: int
  rg_prevTOC :: byte
  rg_out :: audio_out

definition regroup_reset :: "'r repacketizer \<Rightarrow> 'r regroup \<Rightarrow> 'r regroup" where
  "regroup_reset R s = s\<lparr>rg_rp := rp_reset R (rg_rp s), rg_currentDurationMs := 0, rg_prevTOC := 0\<rparr>"

definition emitCurrent :: "'r repacketizer \<Rightarrow> 'r regroup \<Rightarrow> packet_error option \<times> 'r regroup" where
  "emitCurrent R s =
     (if rp_nbFrames R (rg_rp s) = 0 then (None, s)
      else case rp_out R (rg_rp s) of
             None \<Rightarrow> (Some OutFailed, s)
           | Some packet \<Rightarrow>
               if length packet = 0 then (None, regroup_reset R s)
               else (let (sent, o1) = out_send packet (rg_out s); s1 = s\<lparr>rg_out := o1\<rparr> in
                     if \<not> sent then (None, s1) else (None, regroup_reset R s1)))"

definition appendPacket :: "'r repacketizer \<Rightarrow> int \<Rightarrow> int \<Rightarrow> bytes \<Rightarrow> 'r regroup \<Rightarrow> packet_error option \<times> 'r regroup" where
  "appendPacket R targetDurationMs sourceSampleRate packet s =
     (if length packet = 0 then (None, s)
      else case opusPacketDurationMs packet sourceSampleRate of
        Inl e \<Rightarrow> (Some e, s)
      | Inr packetDurationMs \<Rightarrow>
          if packetDurationMs \<le> 0 then (Some (BadDuration packetDurationMs), s)
          else if packetDurationMs > targetDurationMs then (Some (TooLong packetDurationMs targetDurationMs), s)
          else let needFlush = (rp_nbFrames R (rg_rp s) > 0 \<and>
                     (rg_prevTOC s AND 0xFC \<noteq> packet ! 0 AND 0xFC \<or> rg_currentDurationMs s + packetDurationMs > targetDurationMs)) in
            case (if needFlush then emitCurrent R s else (None, s)) of
              (Some e, s1) \<Rightarrow> (Some e, s1)
            | (None, s1) \<Rightarrow>
                (case rp_cat R packet (rg_rp s1) of
                   (False, r) \<Rightarrow> (Some CatFailed, s1\<lparr>rg_rp := r\<rparr>)
                 | (True, r) \<Rightarrow>
                     (let s2 = s1\<lparr>rg_rp := r, rg_prevTOC := packet ! 0, rg_currentDurationMs := rg_currentDurationMs s1 + packetDurationMs\<rparr>
                      in if rg_currentDurationMs s2 = targetDurationMs then emitCurrent R s2 else (None, s2))))"

fun regroup_loop :: "'r repacketizer \<Rightarrow> int \<Rightarrow> int \<Rightarrow> bytes list \<Rightarrow> packet_error \<Rightarrow> 'r regroup \<Rightarrow> packet_error option \<times> 'r regroup" where
  "regroup_loop R target rate [] e s =
     (let (d, o1) = ctx_done (rg_out s); s1 = s\<lparr>rg_out := o1\<rparr> in
      if d then (None, s1) else if e = PIo io_EOF then emitCurrent R s1 else (Some e, s1))"
| "regroup_loop R target rate (packet # packets) e s =
     (let (d, o1) = ctx_done (rg_out s); s1 = s\<lparr>rg_out := o1\<rparr> in
      if d then (None, s1)
      else case appendPacket R target rate packet s1 of
             (Some e1, s2) \<Rightarrow> (Some e1, s2)
           | (None, s2) \<Rightarrow> regroup_loop R target rate packets e s2)"

definition repacketizeOpusPackets :: "'r repacketizer \<Rightarrow> audio_decoder \<Rightarrow> int \<Rightarrow> bytes \<Rightarrow> bytes list \<Rightarrow> packet_error \<Rightarrow> audio_out
    \<Rightarrow> packet_error option \<times> audio_out" where
  "repacketizeOpusPackets R d sourceSampleRate firstPacket packets e o1 =
     (let targetDurationMs = ad_perFrameDurationMs d in
      if targetDurationMs \<le> 0 then (Some (BadTarget targetDurationMs), o1)
      else case rp_new R of
             None \<Rightarrow> (Some NoRepacketizer, o1)
           | Some r \<Rightarrow>
               (let s = \<lparr>rg_rp = r, rg_currentDurationMs = 0, rg_prevTOC = 0, rg_out = o1\<rparr> in
                case appendPacket R targetDurationMs sourceSampleRate firstPacket s of
                  (Some err, s1) \<Rightarrow> (Some err, rg_out s1)
                | (None, s1) \<Rightarrow> (let (res, s2) = regroup_loop R targetDurationMs sourceSampleRate packets e s1 in (res, rg_out s2))))"

text \<open>
  What the code relies on of libopus: \<open>held r\<close> are the Opus frames the repacketizer holds, \<open>frames p\<close> those of a packet.
\<close>

definition repacketizer_ok :: "'r repacketizer \<Rightarrow> ('r \<Rightarrow> bytes list) \<Rightarrow> (bytes \<Rightarrow> bytes list) \<Rightarrow> bool" where
  "repacketizer_ok R held frames \<longleftrightarrow>
     (\<forall>r. rp_new R = Some r \<longrightarrow> held r = []) \<and> (\<forall>r. held (rp_reset R r) = []) \<and>
     (\<forall>r. rp_nbFrames R r = length (held r)) \<and>
     (\<forall>p r. held (snd (rp_cat R p r)) = (if fst (rp_cat R p r) then held r @ frames p else held r)) \<and>
     (\<forall>n r p. rp_out_range R 0 (length (held r)) n r = Some p \<longrightarrow> p \<noteq> [] \<and> frames p = held r)"

subsection \<open>Passing through keeps the packets\<close>

lemma out_send_cases: "(\<exists>o2. out_send x o1 = (True, o2) \<and> ao_out o2 = ao_out o1 @ [x] \<and> ao_done o2 = ao_done o1) \<or>
    (\<exists>o2. out_send x o1 = (False, o2) \<and> ao_out o2 = ao_out o1 \<and> ao_done o2 \<and> ao_selects o1 \<noteq> [])"
  by (auto simp: out_send_def split: list.splits)

lemma ctx_done_out: "ao_out (snd (ctx_done o1)) = ao_out o1" "fst (ctx_done o1) = ao_done (snd (ctx_done o1))"
  by (simp_all add: ctx_done_def split: list.splits)

lemma pass_loop_done: "ao_done o1 \<Longrightarrow> pass_loop packets e o1 = (None, o1)"
  by (cases packets) (simp_all add: ctx_done_def)

lemma emitPacket_cases: "(ao_out (emitPacket p o1) = ao_out o1 @ filter (\<lambda>p. p \<noteq> []) [p] \<and> ao_done (emitPacket p o1) = ao_done o1) \<or>
    (ao_out (emitPacket p o1) = ao_out o1 \<and> ao_done (emitPacket p o1))"
  using out_send_cases [of p o1] by (auto simp: emitPacket_def)

lemma pass_loop_prefix: "\<exists>n. ao_out (snd (pass_loop packets e o1)) = ao_out o1 @ filter (\<lambda>p. p \<noteq> []) (take n packets)"
proof (induction packets arbitrary: o1)
  case Nil
  then show ?case by (auto simp: Let_def split: prod.split intro: exI [of _ 0]) (metis ctx_done_out(1) snd_conv)+
next
  case (Cons p ps)
  obtain d o2 where c: "ctx_done o1 = (d, o2)" by fastforce
  then have o2: "ao_out o2 = ao_out o1" using ctx_done_out(1) [of o1] by simp
  show ?case
  proof (cases d)
    case True
    then show ?thesis using c o2 by (auto intro: exI [of _ 0])
  next
    case False
    obtain n where n: "ao_out (snd (pass_loop ps e (emitPacket p o2))) = ao_out (emitPacket p o2) @ filter (\<lambda>p. p \<noteq> []) (take n ps)"
      using Cons.IH by blast
    from emitPacket_cases [of p o2] show ?thesis
    proof
      assume "ao_out (emitPacket p o2) = ao_out o2 @ filter (\<lambda>p. p \<noteq> []) [p] \<and> ao_done (emitPacket p o2) = ao_done o2"
      then show ?thesis using n c False o2 by (intro exI [of _ "Suc n"]) simp
    next
      assume "ao_out (emitPacket p o2) = ao_out o2 \<and> ao_done (emitPacket p o2)"
      then show ?thesis using c False o2 by (intro exI [of _ 0]) (simp add: pass_loop_done)
    qed
  qed
qed

lemma pass_loop_all:
  "ao_selects o1 = [] \<Longrightarrow> \<not> ao_done o1 \<Longrightarrow> pass_loop packets e o1 =
    (stream_end e, o1\<lparr>ao_out := ao_out o1 @ filter (\<lambda>p. p \<noteq> []) packets\<rparr>)"
  by (induction packets arbitrary: o1) (simp_all add: ctx_done_def emitPacket_def out_send_def)

subsection \<open>Regrouping keeps the frames\<close>

definition regrouped :: "('r \<Rightarrow> bytes list) \<Rightarrow> (bytes \<Rightarrow> bytes list) \<Rightarrow> 'r regroup \<Rightarrow> bytes list" where
  "regrouped held frames s = concat (map frames (ao_out (rg_out s))) @ held (rg_rp s)"

lemma emitCurrent_keeps:
  assumes ok: "repacketizer_ok R held frames" and e: "emitCurrent R s = (x, s')"
  shows "regrouped held frames s' = regrouped held frames s \<and>
    (x = None \<and> ao_selects (rg_out s) = [] \<longrightarrow> held (rg_rp s') = [] \<and> ao_selects (rg_out s') = [] \<and> ao_done (rg_out s') = ao_done (rg_out s))"
proof -
  have n: "rp_nbFrames R (rg_rp s) = length (held (rg_rp s))" using ok by (simp add: repacketizer_ok_def)
  consider "rp_nbFrames R (rg_rp s) = 0" | "rp_nbFrames R (rg_rp s) \<noteq> 0" "rp_out R (rg_rp s) = None"
    | (False) "\<not> (rp_nbFrames R (rg_rp s) = 0 \<or> rp_out R (rg_rp s) = None)" by auto
  then show ?thesis
  proof cases
  case 1
  then show ?thesis using n e by (auto simp: emitCurrent_def)
next
  case 2
  then show ?thesis using e by (auto simp: emitCurrent_def)
next
  case False
  then obtain packet where p: "rp_out R (rg_rp s) = Some packet" by auto
  then have "rp_out_range R 0 (length (held (rg_rp s))) (1277 * length (held (rg_rp s))) (rg_rp s) = Some packet"
    using ok by (auto simp: rp_out_def repacketizer_ok_def Let_def split: if_splits)
  then have f: "packet \<noteq> []" "frames packet = held (rg_rp s)" using ok unfolding repacketizer_ok_def by blast+
  have r: "held (rp_reset R (rg_rp s)) = []" using ok by (simp add: repacketizer_ok_def)
  from out_send_cases [of packet "rg_out s"] show ?thesis
  proof (elim disjE exE conjE)
    fix o2 assume "out_send packet (rg_out s) = (True, o2)" "ao_out o2 = ao_out (rg_out s) @ [packet]" "ao_done o2 = ao_done (rg_out s)"
    moreover from this have "ao_selects (rg_out s) = [] \<longrightarrow> ao_selects o2 = []" by (auto simp: out_send_def)
    ultimately show ?thesis using e False p f r by (auto simp: emitCurrent_def regroup_reset_def regrouped_def)
  next
    fix o2 assume "out_send packet (rg_out s) = (False, o2)" "ao_out o2 = ao_out (rg_out s)" "ao_selects (rg_out s) \<noteq> []"
    then show ?thesis using e False p f by (auto simp: emitCurrent_def regrouped_def)
  qed
  qed
qed

lemma appendPacket_keeps:
  assumes ok: "repacketizer_ok R held frames" and a: "appendPacket R target rate packet s = (x, s')"
    and nil: "frames [] = []"
  shows "(regrouped held frames s' = regrouped held frames s @ frames packet \<or> x \<noteq> None \<and> regrouped held frames s' = regrouped held frames s) \<and>
    (x = None \<and> ao_selects (rg_out s) = [] \<longrightarrow> ao_selects (rg_out s') = [] \<and> ao_done (rg_out s') = ao_done (rg_out s))"
proof (cases "length packet = 0 \<or> (\<exists>e. opusPacketDurationMs packet rate = Inl e) \<or>
    (\<exists>ms. opusPacketDurationMs packet rate = Inr ms \<and> (ms \<le> 0 \<or> ms > target))")
  case True
  then show ?thesis using a nil by (auto simp: appendPacket_def split: if_splits)
next
  case False
  then obtain ms where ms: "opusPacketDurationMs packet rate = Inr ms" "\<not> ms \<le> 0" "\<not> ms > target" "packet \<noteq> []"
    by (cases "opusPacketDurationMs packet rate") auto
  define flush where "flush = (rp_nbFrames R (rg_rp s) > 0 \<and>
      (rg_prevTOC s AND 0xFC \<noteq> packet ! 0 AND 0xFC \<or> rg_currentDurationMs s + ms > target))"
  have au: "appendPacket R target rate packet s = (case (if flush then emitCurrent R s else (None, s)) of
      (Some e, s1) \<Rightarrow> (Some e, s1)
    | (None, s1) \<Rightarrow>
        (case rp_cat R packet (rg_rp s1) of
           (False, r) \<Rightarrow> (Some CatFailed, s1\<lparr>rg_rp := r\<rparr>)
         | (True, r) \<Rightarrow>
             (let s2 = s1\<lparr>rg_rp := r, rg_prevTOC := packet ! 0, rg_currentDurationMs := rg_currentDurationMs s1 + ms\<rparr>
              in if rg_currentDurationMs s2 = target then emitCurrent R s2 else (None, s2))))"
    using ms unfolding appendPacket_def flush_def by simp
  obtain y s1 where f: "(if flush then emitCurrent R s else (None, s)) = (y, s1)" by fastforce
  have k1: "regrouped held frames s1 = regrouped held frames s \<and>
      (y = None \<and> ao_selects (rg_out s) = [] \<longrightarrow> ao_selects (rg_out s1) = [] \<and> ao_done (rg_out s1) = ao_done (rg_out s))"
    using f emitCurrent_keeps [OF ok, of s y s1] by (auto split: if_splits)
  show ?thesis
  proof (cases y)
    case (Some e)
    then show ?thesis using a k1 unfolding au f by auto
  next
    case None
    obtain b r where c: "rp_cat R packet (rg_rp s1) = (b, r)" by fastforce
    have h: "held r = (if b then held (rg_rp s1) @ frames packet else held (rg_rp s1))"
      using ok c unfolding repacketizer_ok_def by (metis fst_conv snd_conv)
    let ?s2 = "s1\<lparr>rg_rp := r, rg_prevTOC := packet ! 0, rg_currentDurationMs := rg_currentDurationMs s1 + ms\<rparr>"
    show ?thesis
    proof (cases b)
      case True
      then have k2: "regrouped held frames ?s2 = regrouped held frames s1 @ frames packet" using h by (simp add: regrouped_def)
      have "(x, s') = (if rg_currentDurationMs ?s2 = target then emitCurrent R ?s2 else (None, ?s2))"
        using a None c True unfolding au f Let_def by simp
      then show ?thesis using k1 k2 None emitCurrent_keeps [OF ok, of ?s2 x s'] by (auto split: if_splits)
    next
      case False
      then have "regrouped held frames (s1\<lparr>rg_rp := r\<rparr>) = regrouped held frames s1" using h by (simp add: regrouped_def)
      moreover have "(x, s') = (Some CatFailed, s1\<lparr>rg_rp := r\<rparr>)"
        using a None c False unfolding au f by simp
      ultimately show ?thesis using k1 by auto
    qed
  qed
qed

lemma regroup_loop_keeps:
  assumes ok: "repacketizer_ok R held frames" and nil: "frames [] = []"
  shows "regroup_loop R target rate packets e s = (x, s') \<Longrightarrow>
    (\<exists>n. regrouped held frames s' = regrouped held frames s @ concat (map frames (take n packets))) \<and>
    (x = None \<and> ao_selects (rg_out s) = [] \<and> \<not> ao_done (rg_out s) \<longrightarrow> held (rg_rp s') = [] \<and>
       regrouped held frames s' = regrouped held frames s @ concat (map frames packets) \<and> e = PIo io_EOF)"
proof (induction packets arbitrary: s)
  case Nil
  obtain d o1 where c: "ctx_done (rg_out s) = (d, o1)" by fastforce
  let ?s1 = "s\<lparr>rg_out := o1\<rparr>"
  have o1: "ao_out o1 = ao_out (rg_out s)" using ctx_done_out(1) [of "rg_out s"] c by simp
  then have k: "regrouped held frames ?s1 = regrouped held frames s" by (simp add: regrouped_def)
  have q: "ao_selects (rg_out s) = [] \<and> \<not> ao_done (rg_out s) \<longrightarrow> \<not> d \<and> o1 = rg_out s" using c by (auto simp: ctx_done_def)
  show ?case
  proof (cases "d \<or> e \<noteq> PIo io_EOF")
    case True
    then have "s' = ?s1" "x = None \<longrightarrow> d" using Nil c by (auto simp: Let_def split: if_splits)
    then show ?thesis using k q by auto
  next
    case False
    then have "emitCurrent R ?s1 = (x, s')" using Nil c by (simp add: Let_def)
    then show ?thesis using emitCurrent_keeps [OF ok, of ?s1 x s'] k q False by auto
  qed
next
  case (Cons p ps)
  obtain d o1 where c: "ctx_done (rg_out s) = (d, o1)" by fastforce
  let ?s1 = "s\<lparr>rg_out := o1\<rparr>"
  have "ao_out o1 = ao_out (rg_out s)" using ctx_done_out(1) [of "rg_out s"] c by simp
  then have k: "regrouped held frames ?s1 = regrouped held frames s" by (simp add: regrouped_def)
  have q: "ao_selects (rg_out s) = [] \<and> \<not> ao_done (rg_out s) \<longrightarrow> \<not> d \<and> o1 = rg_out s" using c by (auto simp: ctx_done_def)
  show ?case
  proof (cases d)
    case True
    then show ?thesis using Cons.prems c k q by (auto intro: exI [of _ 0])
  next
    case False
    obtain y s2 where a: "appendPacket R target rate p ?s1 = (y, s2)" by fastforce
    note ak = appendPacket_keeps [OF ok a nil]
    show ?thesis
    proof (cases y)
      case (Some e1)
      then have "s' = s2" "x = Some e1" using Cons.prems c False a by simp_all
      moreover from ak k have "regrouped held frames s2 = regrouped held frames s @ frames p \<or> regrouped held frames s2 = regrouped held frames s"
        by metis
      then have "\<exists>n. regrouped held frames s2 = regrouped held frames s @ concat (map frames (take n (p # ps)))"
      proof
        assume "regrouped held frames s2 = regrouped held frames s @ frames p"
        then show ?thesis by (intro exI [of _ 1]) simp
      next
        assume "regrouped held frames s2 = regrouped held frames s"
        then show ?thesis by (intro exI [of _ 0]) simp
      qed
      ultimately show ?thesis by simp
    next
      case None
      then have l: "regroup_loop R target rate ps e s2 = (x, s')" using Cons.prems c False a by simp
      from Cons.IH [OF this] obtain n where n: "regrouped held frames s' = regrouped held frames s2 @ concat (map frames (take n ps))"
        by blast
      have s2: "regrouped held frames s2 = regrouped held frames s @ frames p" using ak None k by simp
      have "\<exists>n. regrouped held frames s' = regrouped held frames s @ concat (map frames (take n (p # ps)))"
        using n s2 by (intro exI [of _ "Suc n"]) simp
      moreover have "held (rg_rp s') = [] \<and> regrouped held frames s' = regrouped held frames s @ concat (map frames (p # ps)) \<and> e = PIo io_EOF"
        if "x = None \<and> ao_selects (rg_out s) = [] \<and> \<not> ao_done (rg_out s)"
      proof -
        have "ao_selects (rg_out s2) = []" "\<not> ao_done (rg_out s2)" using that ak None q by simp_all
        with conjunct2 [OF Cons.IH [OF l]] that s2 show ?thesis by simp
      qed
      ultimately show ?thesis by blast
    qed
  qed
qed
subsection \<open>A repacketizer in memory\<close>

text \<open>It keeps the configuration of the first packet and writes a packet of code 3 with a length byte before each frame.\<close>

fun split_lengths :: "nat \<Rightarrow> bytes \<Rightarrow> bytes list" where
  "split_lengths (Suc n) (l # bs) = take (unat l) bs # split_lengths n (drop (unat l) bs)"
| "split_lengths n bs = []"

definition mem_frames :: "bytes \<Rightarrow> bytes list" where
  "mem_frames p =
     (case p of [] \<Rightarrow> []
      | toc # bs \<Rightarrow> if toc AND 3 = 3 then (case bs of [] \<Rightarrow> [] | c # rest \<Rightarrow> split_lengths (unat c) rest) else [bs])"

definition mem_rp :: "(byte \<times> bytes list) repacketizer" where
  "mem_rp = \<lparr>rp_new = Some (0, []), rp_reset = (\<lambda>_. (0, [])), rp_nbFrames = (\<lambda>(toc, fs). length fs),
     rp_cat = (\<lambda>p (toc, fs). if mem_frames p = [] then (False, (toc, fs))
        else (True, (if fs = [] then p ! 0 else toc, fs @ mem_frames p))),
     rp_out_range = (\<lambda>b e n (toc, fs). if length fs < 64 \<and> (\<forall>f\<in>set fs. length f < 256)
        then Some ((toc AND 0xFC OR 3) # of_nat (length fs) # concat (map (\<lambda>f. of_nat (length f) # f) fs)) else None)\<rparr>"

lemma split_lengths_concat:
  "\<forall>f\<in>set fs. length f < 256 \<Longrightarrow> split_lengths (length fs) (concat (map (\<lambda>f. of_nat (length f) # f) fs)) = fs"
  by (induction fs) auto

lemma code3: "((x :: byte) AND 0xFC OR 3) AND 3 = 3"
proof -
  have "(x AND 0xFC OR 3) AND 3 = (x AND (0xFC AND 3)) OR (3 AND 3)"
    by (simp only: bit.conj_disj_distrib2 and.assoc)
  then show ?thesis by simp
qed

lemma mem_rp_ok: "repacketizer_ok mem_rp snd mem_frames"
  by (auto simp: repacketizer_ok_def mem_rp_def mem_frames_def code3 split_lengths_concat split: if_splits)

subsection \<open>Properties\<close>

text \<open>
  Frames written with their length read back exactly when none is longer than 65536 bytes: the writer takes
  any length, the reader refuses more.
\<close>

theorem frames_read_back_iff:
  assumes "\<forall>f\<in>set fs. f \<noteq> [] \<and> length f < 2 ^ 32"
  shows "all_frames \<lparr>bs_left = written fs [], bs_end = io_EOF\<rparr> = (fs, PIo io_EOF) \<longleftrightarrow> (\<forall>f\<in>set fs. length f \<le> 64 * 1024)"
proof -
  have w: "written fs [] = concat (map (\<lambda>f. le_Uint32 (of_nat (length f)) @ f) fs)" using written_eq [of fs "[]"] assms by simp
  show ?thesis
  proof (cases "\<forall>f\<in>set fs. length f \<le> 65536")
    case True
    then show ?thesis unfolding w all_frames_written [OF assms] by (simp add: dropWhile_eq_Nil_conv [THEN iffD2])
  next
    case False
    then show ?thesis unfolding w all_frames_written [OF assms] by auto
  qed
qed

theorem frames_read_back_iff_witness:
  "all_frames \<lparr>bs_left = written [[1, 2], [3]] [], bs_end = io_EOF\<rparr> = ([[1, 2], [3]], PIo io_EOF)"
  using frames_read_back_iff [of "[[1, 2], [3]]"] by simp

text \<open>
  C26. The program reads its own Ogg files: from what \<open>WrapOggOpusPackets\<close> writes, \<open>Prepare\<close> gets the rate (the nearest
  one Opus has) and the channels, and \<open>NextPacket\<close> then delivers the packets that are not empty, in order, and the
  end of the file.
\<close>

theorem own_reader_reads_back:
  assumes "0 < rate" "rate < 2 ^ 31" "1 \<le> channels" "channels \<le> 255" "\<forall>p\<in>set packets. length p < 65025"
  shows "\<exists>r. Prepare (new_reader \<lparr>bs_left = WrapOggOpusPackets packets rate channels fs, bs_end = io_EOF\<rparr>) =
      (Inr \<lparr>oi_SampleRate = NormalizeOpusSampleRate rate, oi_Channels = channels\<rparr>, r) \<and>
    all_packets r = (filter (\<lambda>p. p \<noteq> []) packets, PIo io_EOF)"
  using Prepare_written [OF assms(1-4), of packets fs] all_packets_written [OF assms(5)] by auto

theorem own_reader_reads_back_witness:
  "\<exists>r. Prepare (new_reader \<lparr>bs_left = WrapOggOpusPackets [[8, 1], [], replicate 300 9] 16000 1 960, bs_end = io_EOF\<rparr>) =
      (Inr \<lparr>oi_SampleRate = NormalizeOpusSampleRate 16000, oi_Channels = 1\<rparr>, r) \<and>
    all_packets r = ([[8, 1], replicate 300 9], PIo io_EOF)"
  using own_reader_reads_back [of 16000 1 "[[8, 1], [], replicate 300 9]" 960] by simp


definition demo_out :: audio_out where "demo_out = \<lparr>ao_selects = [], ao_done = False, ao_out = [], ao_closed = False\<rparr>"


text \<open>
  Passing through sends a prefix of the packets (the empty ones left out), and all of them, with the source's own
  ending, while the context is not done.
\<close>

theorem passing_through_keeps_packets:
  "\<exists>n. ao_out (snd (passThroughOpusPackets first packets e o1)) = ao_out o1 @ filter (\<lambda>p. p \<noteq> []) (take n (first # packets))"
  "passThroughOpusPackets first packets e \<lparr>ao_selects = [], ao_done = False, ao_out = [], ao_closed = False\<rparr> =
    (stream_end e, \<lparr>ao_selects = [], ao_done = False, ao_out = filter (\<lambda>p. p \<noteq> []) (first # packets), ao_closed = False\<rparr>)"
proof -
  obtain n where n: "ao_out (snd (pass_loop packets e (emitPacket first o1))) = ao_out (emitPacket first o1) @ filter (\<lambda>p. p \<noteq> []) (take n packets)"
    using pass_loop_prefix by blast
  from emitPacket_cases [of first o1]
  show "\<exists>n. ao_out (snd (passThroughOpusPackets first packets e o1)) = ao_out o1 @ filter (\<lambda>p. p \<noteq> []) (take n (first # packets))"
  proof
    assume "ao_out (emitPacket first o1) = ao_out o1 @ filter (\<lambda>p. p \<noteq> []) [first] \<and> ao_done (emitPacket first o1) = ao_done o1"
    then show ?thesis using n by (intro exI [of _ "Suc n"]) (simp add: passThroughOpusPackets_def)
  next
    assume "ao_out (emitPacket first o1) = ao_out o1 \<and> ao_done (emitPacket first o1)"
    then show ?thesis by (intro exI [of _ 0]) (simp add: passThroughOpusPackets_def pass_loop_done)
  qed
  show "passThroughOpusPackets first packets e \<lparr>ao_selects = [], ao_done = False, ao_out = [], ao_closed = False\<rparr> =
    (stream_end e, \<lparr>ao_selects = [], ao_done = False, ao_out = filter (\<lambda>p. p \<noteq> []) (first # packets), ao_closed = False\<rparr>)"
    by (simp add: passThroughOpusPackets_def emitPacket_def out_send_def pass_loop_all)
qed

text \<open>
  Packets of 2.5 ms count as 2 ms, so ten of them make a frame of 20 ms: it lasts 1200 samples at 48 kHz, 25 ms.
\<close>

theorem short_packets_overfill:
  "opusPacketSamplesPerFrame 0x80 48000 = 120"
  "opusPacketDurationMs [0x80, 1] 48000 = Inr 2"
  "map opusPacketFrameCount (ao_out (snd (repacketizeOpusPackets mem_rp \<lparr>ad_perFrameDurationMs = 20, ad_targetSampleRate = 0,
      ad_TargetAudioFormat = ''opus''\<rparr> 48000 [0x80, 1] (replicate 9 [0x80, 1]) (PIo io_EOF) demo_out))) = [Inr 10]"
  by code_simp+

end
