(* ===== verification/PcmFrames.thy ===== *)
theory PcmFrames
  imports OpusStreams "HOL-Library.Signed_Division"
begin

text \<open>
  The decoders of \<open>audio_utils.go\<close> that cut samples into frames: WAV and raw PCM (\<open>RunWavDecoder\<close>), and Opus packets
  decoded and encoded anew (\<open>transcodeOpusPackets\<close>), with the choice between the ways of theory \<open>OpusStreams\<close>
  (\<open>runOpusPacketStream\<close>) and the entry \<open>Run\<close>. The Opus codec (a cgo library) and the floating-point resampling of \<open>voice.go\<close>
  are arguments. What \<open>Read\<close> answers is a list of pieces, in whatever sizes it chooses.
\<close>

type_synonym sample = "16 word"

record ('e, 'd) codec =
  cd_NewEncoder :: "int \<Rightarrow> int \<Rightarrow> 'e option"
  cd_Encode :: "sample list \<Rightarrow> 'e \<Rightarrow> bytes option \<times> 'e"
  cd_NewDecoder :: "int \<Rightarrow> int \<Rightarrow> 'd option"
  cd_Decode :: "bytes \<Rightarrow> 'd \<Rightarrow> sample list option \<times> 'd"
  cd_resample :: "int \<Rightarrow> int \<Rightarrow> sample list \<Rightarrow> sample list"

datatype decode_error =
    DPacket packet_error | DHeader io_error | DNoEncoder | DNoDecoder | DEncode | DDecode | DRead io_error
  | DFrameDuration int | DFormat string | DNoHeaders packet_error

datatype decode_result = DecNil | DecErr decode_error | DecPanic | DecWaiting

definition Int16SliceToBytes :: "sample list \<Rightarrow> bytes" where
  "Int16SliceToBytes samples = concat (map (\<lambda>s. [ucast s, ucast (signed_drop_bit 8 s)]) samples)"

text \<open>The average of one sampling point, summed in 32 bits and divided as Go divides.\<close>

definition le_int16 :: "byte \<Rightarrow> byte \<Rightarrow> sample" where
  "le_int16 lo hi = ucast lo OR push_bit 8 (ucast hi)"

definition average :: "int \<Rightarrow> sample list \<Rightarrow> sample" where
  "average channels xs =
     (let sampleSum = (sum_list (map scast xs) :: 32 word)
      in word_of_int (sint sampleSum sdiv sint (word_of_int channels :: 32 word)))"

definition avgSample :: "nat \<Rightarrow> bytes \<Rightarrow> nat \<Rightarrow> sample" where
  "avgSample channels chunk i =
     (let bytesPerPoint = 2 * channels in
      average (int channels) (map (\<lambda>ch. let pos = i * bytesPerPoint + ch * 2 in le_int16 (chunk ! pos) (chunk ! (pos + 1))) [0..<channels]))"

subsection \<open>WAV and raw PCM\<close>

record wav_format =
  wf_sampleRate :: int
  wf_channels :: nat

record 'e wav_state =
  ws_remainder :: bytes
  ws_pcm :: "sample list"
  ws_enc :: "'e option"
  ws_out :: audio_out

definition wav_header :: "bytes \<Rightarrow> wav_format" where
  "wav_header header =
     (let sampleRate = le_nat (take 4 (drop 24 header)); channels = le_nat (take 2 (drop 22 header))
      in \<lparr>wf_sampleRate = (if sampleRate < 1 then 24000 else int sampleRate), wf_channels = (if channels < 1 then 1 else channels)\<rparr>)"

definition raw_format :: "int \<Rightarrow> int \<Rightarrow> wav_format" where
  "raw_format SampleRate NumChannels =
     \<lparr>wf_sampleRate = (if SampleRate < 1 then 24000 else SampleRate), wf_channels = nat (if NumChannels < 1 then 1 else NumChannels)\<rparr>"

definition resampled :: "('e, 'd) codec \<Rightarrow> audio_decoder \<Rightarrow> int \<Rightarrow> sample list \<Rightarrow> sample list" where
  "resampled C d sampleRate frame =
     (if ad_targetSampleRate d > 0 \<and> ad_targetSampleRate d \<noteq> sampleRate then cd_resample C sampleRate (ad_targetSampleRate d) frame
      else frame)"

text \<open>
  A full frame inside the loop: \<open>None\<close> goes on. When encoding fails the frame is skipped; when the context is
  done the function returns.
\<close>

definition full_frame :: "('e, 'd) codec \<Rightarrow> audio_decoder \<Rightarrow> int \<Rightarrow> 'e wav_state \<Rightarrow> decode_result option \<times> 'e wav_state" where
  "full_frame C d sampleRate s =
     (let opusPcmBuffer = resampled C d sampleRate (ws_pcm s) in
      if ad_TargetAudioFormat d = ''opus''
      then (case ws_enc s of
              None \<Rightarrow> (Some DecPanic, s)
            | Some enc \<Rightarrow>
                (case cd_Encode C opusPcmBuffer enc of
                   (None, enc1) \<Rightarrow> (None, s\<lparr>ws_enc := Some enc1, ws_pcm := []\<rparr>)
                 | (Some frameData, enc1) \<Rightarrow>
                     (let (sent, o1) = out_send frameData (ws_out s); s1 = s\<lparr>ws_enc := Some enc1, ws_out := o1\<rparr> in
                      if \<not> sent then (Some DecNil, s1) else (None, s1\<lparr>ws_pcm := []\<rparr>))))
      else if ad_TargetAudioFormat d = ''pcm''
      then (let (sent, o1) = out_send (Int16SliceToBytes opusPcmBuffer) (ws_out s); s1 = s\<lparr>ws_out := o1\<rparr> in
            if \<not> sent then (Some DecNil, s1) else (None, s1\<lparr>ws_pcm := []\<rparr>))
      else (None, s\<lparr>ws_pcm := []\<rparr>))"

fun push_samples :: "('e, 'd) codec \<Rightarrow> audio_decoder \<Rightarrow> int \<Rightarrow> nat \<Rightarrow> sample list \<Rightarrow> 'e wav_state \<Rightarrow> decode_result option \<times> 'e wav_state" where
  "push_samples C d sampleRate frameSize [] s = (None, s)"
| "push_samples C d sampleRate frameSize (avg # samples) s =
     (if length (ws_pcm s) \<ge> frameSize then (Some DecPanic, s)
      else let s1 = s\<lparr>ws_pcm := ws_pcm s @ [avg]\<rparr> in
        if length (ws_pcm s1) = frameSize
        then (case full_frame C d sampleRate s1 of
                (Some r, s2) \<Rightarrow> (Some r, s2)
              | (None, s2) \<Rightarrow> push_samples C d sampleRate frameSize samples s2)
        else push_samples C d sampleRate frameSize samples s1)"

definition flushLastFrame :: "('e, 'd) codec \<Rightarrow> audio_decoder \<Rightarrow> int \<Rightarrow> nat \<Rightarrow> 'e wav_state \<Rightarrow> decode_result \<times> 'e wav_state" where
  "flushLastFrame C d sampleRate frameSize s =
     (if length (ws_pcm s) \<le> 0 then (DecNil, s)
      else let paddedFrame = copy_at 0 (ws_pcm s) (replicate frameSize 0);
               opusPcmBuffer = resampled C d sampleRate paddedFrame
           in if ad_TargetAudioFormat d = ''opus''
              then (case ws_enc s of
                      None \<Rightarrow> (DecPanic, s)
                    | Some enc \<Rightarrow>
                        (case cd_Encode C opusPcmBuffer enc of
                           (None, enc1) \<Rightarrow> (DecErr DEncode, s\<lparr>ws_enc := Some enc1\<rparr>)
                         | (Some frameData, enc1) \<Rightarrow> (DecNil, s\<lparr>ws_enc := Some enc1, ws_out := snd (out_send frameData (ws_out s))\<rparr>)))
              else if ad_TargetAudioFormat d = ''pcm''
              then (DecNil, s\<lparr>ws_out := snd (out_send (Int16SliceToBytes opusPcmBuffer) (ws_out s))\<rparr>)
              else (DecNil, s))"

text \<open>One piece from \<open>Read\<close>: the unaligned rest of the last one goes before it, its own rest is kept.\<close>

definition wav_chunk :: "('e, 'd) codec \<Rightarrow> audio_decoder \<Rightarrow> wav_format \<Rightarrow> nat \<Rightarrow> bytes \<Rightarrow> 'e wav_state \<Rightarrow> decode_result option \<times> 'e wav_state" where
  "wav_chunk C d f frameSize piece s =
     (let bytesPerPoint = 2 * wf_channels f;
          combined = (if length piece > 0 then ws_remainder s @ piece else []);
          s1 = (if length piece > 0 then s\<lparr>ws_remainder := []\<rparr> else s);
          alignedBytes = length combined div bytesPerPoint * bytesPerPoint;
          s2 = (if alignedBytes < length combined then s1\<lparr>ws_remainder := drop alignedBytes combined\<rparr> else s1);
          chunk = take alignedBytes combined;
          samplesRead = length chunk div bytesPerPoint
      in push_samples C d (wf_sampleRate f) frameSize (map (avgSample (wf_channels f) chunk) [0..<samplesRead]) s2)"

fun wav_loop :: "('e, 'd) codec \<Rightarrow> audio_decoder \<Rightarrow> wav_format \<Rightarrow> nat \<Rightarrow> (bytes \<times> io_error option) list \<Rightarrow> 'e wav_state
    \<Rightarrow> decode_result \<times> 'e wav_state" where
  "wav_loop C d f frameSize [] s =
     (let (dn, o1) = ctx_done (ws_out s); s1 = s\<lparr>ws_out := o1\<rparr> in if dn then (DecNil, s1) else (DecWaiting, s1))"
| "wav_loop C d f frameSize ((piece, readErr) # reads) s =
     (let (dn, o1) = ctx_done (ws_out s); s1 = s\<lparr>ws_out := o1\<rparr> in
      if dn then (DecNil, s1)
      else if length piece = 0 \<and> readErr = None then wav_loop C d f frameSize reads s1
      else case wav_chunk C d f frameSize piece s1 of
             (Some r, s2) \<Rightarrow> (r, s2)
           | (None, s2) \<Rightarrow>
               (case readErr of
                  Some e \<Rightarrow> if e = io_EOF then flushLastFrame C d (wf_sampleRate f) frameSize s2 else (DecErr (DRead e), s2)
                | None \<Rightarrow> wav_loop C d f frameSize reads s2))"

text \<open>\<open>header\<close> is what \<open>io.ReadFull\<close> made of the 44 bytes of a WAV header; for raw PCM the format is given.\<close>

definition RunWavDecoder :: "('e, 'd) codec \<Rightarrow> audio_decoder \<Rightarrow> int \<times> int \<Rightarrow> bytes \<times> io_error option \<Rightarrow> bool
    \<Rightarrow> (bytes \<times> io_error option) list \<Rightarrow> audio_out \<Rightarrow> decode_result \<times> audio_out" where
  "RunWavDecoder C d raw header isRaw reads o1 =
     (case (if isRaw then Inr (raw_format (fst raw) (snd raw))
            else case snd header of Some e \<Rightarrow> Inl e | None \<Rightarrow> Inr (wav_header (fst header))) of
        Inl e \<Rightarrow> (DecErr (DHeader e), o1\<lparr>ao_closed := True\<rparr>)
      | Inr f \<Rightarrow>
          (let sampleRate = wf_sampleRate f;
               opusSampleRate = (if ad_targetSampleRate d > 0 then ad_targetSampleRate d else sampleRate)
           in if ad_TargetAudioFormat d = ''opus'' \<and> cd_NewEncoder C opusSampleRate 1 = None
              then (DecErr DNoEncoder, o1\<lparr>ao_closed := True\<rparr>)
              else let enc = (if ad_TargetAudioFormat d = ''opus'' then cd_NewEncoder C opusSampleRate 1 else None);
                       frameSize = sampleRate * ad_perFrameDurationMs d sdiv 1000
                   in if frameSize < 0 then (DecPanic, o1\<lparr>ao_closed := True\<rparr>)
                      else (case wav_loop C d f (nat frameSize) reads \<lparr>ws_remainder = [], ws_pcm = [], ws_enc = enc, ws_out = o1\<rparr> of
                              (r, s) \<Rightarrow> (r, if r = DecWaiting then ws_out s else (ws_out s)\<lparr>ao_closed := True\<rparr>))))"

subsection \<open>Opus packets encoded anew\<close>

record ('e, 'd) transcoder =
  tc_pcm :: "sample list"
  tc_enc :: "'e option"
  tc_dec :: 'd
  tc_out :: audio_out

definition emitFrame :: "('e, 'd) codec \<Rightarrow> audio_decoder \<Rightarrow> int \<Rightarrow> sample list \<Rightarrow> ('e, 'd) transcoder
    \<Rightarrow> decode_error option \<times> ('e, 'd) transcoder" where
  "emitFrame C d sourceSampleRate frame s =
     (if length frame = 0 then (None, s)
      else let targetSampleRate = getTargetSampleRate d sourceSampleRate;
               outputPCM = (if targetSampleRate > 0 \<and> targetSampleRate \<noteq> sourceSampleRate
                            then cd_resample C sourceSampleRate targetSampleRate frame else frame)
           in if ad_TargetAudioFormat d = ''opus''
              then (case tc_enc s of
                      None \<Rightarrow> (Some DEncode, s)
                    | Some enc \<Rightarrow>
                        (case cd_Encode C outputPCM enc of
                           (None, enc1) \<Rightarrow> (Some DEncode, s\<lparr>tc_enc := Some enc1\<rparr>)
                         | (Some frameData, enc1) \<Rightarrow> (None, s\<lparr>tc_enc := Some enc1, tc_out := snd (out_send frameData (tc_out s))\<rparr>)))
              else if ad_TargetAudioFormat d = ''pcm''
              then (None, s\<lparr>tc_out := snd (out_send (Int16SliceToBytes outputPCM) (tc_out s))\<rparr>)
              else (Some (DFormat (ad_TargetAudioFormat d)), s))"

function full_frames :: "('e, 'd) codec \<Rightarrow> audio_decoder \<Rightarrow> int \<Rightarrow> nat \<Rightarrow> ('e, 'd) transcoder \<Rightarrow> decode_error option \<times> ('e, 'd) transcoder" where
  "full_frames C d rate sourceFrameSize s =
     (if length (tc_pcm s) \<ge> sourceFrameSize \<and> sourceFrameSize > 0
      then (case emitFrame C d rate (take sourceFrameSize (tc_pcm s)) s of
              (Some e, s1) \<Rightarrow> (Some e, s1)
            | (None, s1) \<Rightarrow> full_frames C d rate sourceFrameSize (s1\<lparr>tc_pcm := drop sourceFrameSize (tc_pcm s)\<rparr>))
      else (None, s))"
  by pat_completeness auto
termination by (relation "measure (\<lambda>(_, _, _, _, s). length (tc_pcm s))") auto

declare full_frames.simps [simp del]

definition flushFrames :: "('e, 'd) codec \<Rightarrow> audio_decoder \<Rightarrow> int \<Rightarrow> nat \<Rightarrow> bool \<Rightarrow> ('e, 'd) transcoder \<Rightarrow> decode_error option \<times> ('e, 'd) transcoder" where
  "flushFrames C d rate sourceFrameSize flushLast s =
     (case full_frames C d rate sourceFrameSize s of
        (Some e, s1) \<Rightarrow> (Some e, s1)
      | (None, s1) \<Rightarrow>
          if flushLast \<and> length (tc_pcm s1) > 0
          then (case emitFrame C d rate (copy_at 0 (tc_pcm s1) (replicate sourceFrameSize 0)) s1 of
                  (Some e, s2) \<Rightarrow> (Some e, s2)
                | (None, s2) \<Rightarrow> (None, s2\<lparr>tc_pcm := []\<rparr>))
          else (None, s1))"

definition mono_samples :: "int \<Rightarrow> sample list \<Rightarrow> sample list" where
  "mono_samples channels decoded =
     (let n = length decoded div nat channels in
      if channels = 1 then take n decoded
      else map (\<lambda>i. average channels (take (nat channels) (drop (i * nat channels) decoded))) [0..<n])"

definition processPacket :: "('e, 'd) codec \<Rightarrow> audio_decoder \<Rightarrow> int \<Rightarrow> int \<Rightarrow> nat \<Rightarrow> bytes \<Rightarrow> ('e, 'd) transcoder
    \<Rightarrow> decode_error option \<times> ('e, 'd) transcoder" where
  "processPacket C d rate channels sourceFrameSize packet s =
     (case cd_Decode C packet (tc_dec s) of
        (None, dec1) \<Rightarrow> (Some DDecode, s\<lparr>tc_dec := dec1\<rparr>)
      | (Some decoded, dec1) \<Rightarrow>
          if length decoded div nat channels \<le> 0 then (None, s\<lparr>tc_dec := dec1\<rparr>)
          else flushFrames C d rate sourceFrameSize False (s\<lparr>tc_dec := dec1, tc_pcm := tc_pcm s @ mono_samples channels decoded\<rparr>))"

fun transcode_loop :: "('e, 'd) codec \<Rightarrow> audio_decoder \<Rightarrow> int \<Rightarrow> int \<Rightarrow> nat \<Rightarrow> bytes list \<Rightarrow> packet_error \<Rightarrow> ('e, 'd) transcoder
    \<Rightarrow> decode_error option \<times> ('e, 'd) transcoder" where
  "transcode_loop C d rate channels sz [] e s =
     (let (dn, o1) = ctx_done (tc_out s); s1 = s\<lparr>tc_out := o1\<rparr> in
      if dn then (None, s1) else if e = PIo io_EOF then flushFrames C d rate sz True s1 else (Some (DPacket e), s1))"
| "transcode_loop C d rate channels sz (packet # packets) e s =
     (let (dn, o1) = ctx_done (tc_out s); s1 = s\<lparr>tc_out := o1\<rparr> in
      if dn then (None, s1)
      else case processPacket C d rate channels sz packet s1 of
             (Some e1, s2) \<Rightarrow> (Some e1, s2)
           | (None, s2) \<Rightarrow> transcode_loop C d rate channels sz packets e s2)"

definition transcodeOpusPackets :: "('e, 'd) codec \<Rightarrow> audio_decoder \<Rightarrow> int \<Rightarrow> int \<Rightarrow> bytes \<Rightarrow> bytes list \<Rightarrow> packet_error \<Rightarrow> audio_out
    \<Rightarrow> decode_error option \<times> audio_out" where
  "transcodeOpusPackets C d sourceSampleRate channels firstPacket packets e o1 =
     (let targetSampleRate = getTargetSampleRate d sourceSampleRate;
          frameDurationMs = (if ad_perFrameDurationMs d \<le> 0 then 60 else ad_perFrameDurationMs d);
          sourceFrameSize = sourceSampleRate * frameDurationMs sdiv 1000
      in if sourceFrameSize \<le> 0 then (Some (DFrameDuration frameDurationMs), o1)
         else if ad_TargetAudioFormat d = ''opus'' \<and> cd_NewEncoder C targetSampleRate 1 = None then (Some DNoEncoder, o1)
         else let enc = (if ad_TargetAudioFormat d = ''opus'' then cd_NewEncoder C targetSampleRate 1 else None) in
           case cd_NewDecoder C sourceSampleRate channels of
             None \<Rightarrow> (Some DNoDecoder, o1)
           | Some dec \<Rightarrow>
               (let s = \<lparr>tc_pcm = [], tc_enc = enc, tc_dec = dec, tc_out = o1\<rparr> in
                case processPacket C d sourceSampleRate channels (nat sourceFrameSize) firstPacket s of
                  (Some e1, s1) \<Rightarrow> (Some e1, tc_out s1)
                | (None, s1) \<Rightarrow>
                    (let (res, s2) = transcode_loop C d sourceSampleRate channels (nat sourceFrameSize) packets e s1 in (res, tc_out s2))))"

subsection \<open>Choosing the way\<close>

definition runOpusPacketStream :: "('e, 'd) codec \<Rightarrow> 'r repacketizer \<Rightarrow> audio_decoder \<Rightarrow> int \<Rightarrow> int \<Rightarrow> bytes list \<times> packet_error \<Rightarrow> audio_out
    \<Rightarrow> decode_error option \<times> audio_out" where
  "runOpusPacketStream C R d sourceSampleRate channels source o1 =
     (case source of
        ([], e) \<Rightarrow> (map_option DPacket (stream_end e), o1)
      | (firstPacket # packets, e) \<Rightarrow>
          if canPassthroughOpusPacket d sourceSampleRate channels firstPacket
          then (let (r, o2) = passThroughOpusPackets firstPacket packets e o1 in (map_option DPacket r, o2))
          else if canRepacketizeOpusPacket d sourceSampleRate channels firstPacket
          then (let (r, o2) = repacketizeOpusPackets R d sourceSampleRate firstPacket packets e o1 in (map_option DPacket r, o2))
          else transcodeOpusPackets C d sourceSampleRate channels firstPacket packets e o1)"

definition decode_result_of :: "decode_error option \<Rightarrow> decode_result" where
  "decode_result_of e = (case e of None \<Rightarrow> DecNil | Some err \<Rightarrow> DecErr err)"

definition RunOpusDecoder :: "('e, 'd) codec \<Rightarrow> 'r repacketizer \<Rightarrow> audio_decoder \<Rightarrow> int \<times> int \<Rightarrow> byte_source \<Rightarrow> audio_out
    \<Rightarrow> decode_result \<times> audio_out" where
  "RunOpusDecoder C R d format src o1 =
     (let sourceSampleRate = (if fst format < 1 then 16000 else fst format);
          channels = (if snd format < 1 then 1 else snd format);
          (r, o2) = runOpusPacketStream C R d sourceSampleRate channels (all_frames src) o1
      in (decode_result_of r, o2\<lparr>ao_closed := True\<rparr>))"

definition RunOggOpusDecoder :: "('e, 'd) codec \<Rightarrow> 'r repacketizer \<Rightarrow> audio_decoder \<Rightarrow> byte_source \<Rightarrow> audio_out
    \<Rightarrow> decode_result \<times> audio_out" where
  "RunOggOpusDecoder C R d src o1 =
     (case Prepare (new_reader src) of
        (Inl e, r) \<Rightarrow> (DecErr (DNoHeaders e), o1\<lparr>ao_closed := True\<rparr>)
      | (Inr info, r) \<Rightarrow>
          (let (x, o2) = runOpusPacketStream C R d (oi_SampleRate info) (oi_Channels info) (all_packets r) o1
           in (decode_result_of x, o2\<lparr>ao_closed := True\<rparr>)))"

text \<open>\<open>Run\<close>: the errors of the WAV decoder are not handed on. \<open>mp3\<close> is the MP3 decoder, a library.\<close>

definition audio_Run :: "('e, 'd) codec \<Rightarrow> 'r repacketizer \<Rightarrow> (audio_out \<Rightarrow> decode_result \<times> audio_out) \<Rightarrow> audio_decoder \<Rightarrow> string \<Rightarrow> int \<times> int
    \<Rightarrow> bytes \<times> io_error option \<Rightarrow> (bytes \<times> io_error option) list \<Rightarrow> byte_source \<Rightarrow> audio_out \<Rightarrow> decode_result \<times> audio_out" where
  "audio_Run C R mp3 d AudioFormat format header reads src o1 =
     (let quiet = (\<lambda>(r, o2). (case r of DecErr e \<Rightarrow> DecNil | _ \<Rightarrow> r, o2)) in
      if AudioFormat = ''wav'' then quiet (RunWavDecoder C d format header False reads o1)
      else if AudioFormat = ''pcm'' then quiet (RunWavDecoder C d format header True reads o1)
      else if AudioFormat = ''mp3'' then mp3 o1
      else if AudioFormat = ''opus'' then RunOpusDecoder C R d format src o1
      else if AudioFormat = ''ogg_opus'' then RunOggOpusDecoder C R d src o1
      else (DecNil, o1))"

definition GetAudioFormatByMimeType :: "string \<Rightarrow> string" where
  "GetAudioFormatByMimeType mimeType =
     (if mimeType \<in> {''audio/mpeg'', ''audio/mp3'', ''audio/mpeg3'', ''audio/x-mpeg-3''} then ''mp3''
      else if mimeType \<in> {''audio/wav'', ''audio/wave'', ''audio/x-wav''} then ''wav''
      else if mimeType \<in> {''audio/pcm'', ''audio/x-pcm''} then ''pcm''
      else if mimeType \<in> {''audio/ogg'', ''application/ogg''} then ''ogg_opus''
      else if mimeType = ''audio/opus'' then ''opus''
      else ''mp3'')"

subsection \<open>A buffer to write and seek in\<close>

record write_seeker =
  wk_Buffer :: bytes
  wk_pos :: int

definition wk_Write :: "bytes \<Rightarrow> write_seeker \<Rightarrow> int \<times> write_seeker" where
  "wk_Write p w =
     (if wk_pos w = int (length (wk_Buffer w))
      then (int (length p), w\<lparr>wk_Buffer := wk_Buffer w @ p, wk_pos := wk_pos w + int (length p)\<rparr>)
      else let data = wk_Buffer w;
               endPos = wk_pos w + int (length p);
               data = (if endPos > int (length data) then data @ replicate (nat (endPos - int (length data))) 0 else data);
               data = copy_at (nat (wk_pos w)) p data
           in (int (length p), w\<lparr>wk_Buffer := data, wk_pos := endPos\<rparr>))"

definition wk_Seek :: "int \<Rightarrow> int \<Rightarrow> write_seeker \<Rightarrow> int option \<times> write_seeker" where
  "wk_Seek offset whence w =
     (let newPos = (if whence = 0 then Some offset else if whence = 1 then Some (wk_pos w + offset)
                    else if whence = 2 then Some (int (length (wk_Buffer w)) + offset) else None)
      in case newPos of
           None \<Rightarrow> (None, w)
         | Some newPos \<Rightarrow>
             if newPos < 0 then (None, w)
             else let w1 = (if newPos > int (length (wk_Buffer w))
                            then w\<lparr>wk_Buffer := wk_Buffer w @ replicate (nat (newPos - int (length (wk_Buffer w)))) 0\<rparr> else w)
                  in (Some newPos, w1\<lparr>wk_pos := newPos\<rparr>))"
subsection \<open>Frames of a list of samples\<close>

text \<open>The reference: consecutive frames of \<open>n\<close> samples, the last one filled up with silence.\<close>

function frames_of :: "nat \<Rightarrow> sample list \<Rightarrow> sample list list" where
  "frames_of n xs = (if xs = [] \<or> n = 0 then [] else copy_at 0 (take n xs) (replicate n 0) # frames_of n (drop n xs))"
  by pat_completeness auto
termination by (relation "measure (\<lambda>(_, xs). length xs)") auto

text \<open>Full frames and what is left over.\<close>

function cut :: "nat \<Rightarrow> sample list \<Rightarrow> sample list list \<times> sample list" where
  "cut n xs = (if n = 0 \<or> length xs < n then ([], xs) else let (fs, r) = cut n (drop n xs) in (take n xs # fs, r))"
  by pat_completeness auto
termination by (relation "measure (\<lambda>(_, xs). length xs)") auto

declare frames_of.simps [simp del] cut.simps [simp del]

lemma cut_short: "length xs < n \<Longrightarrow> cut n xs = ([], xs)"
  by (simp add: cut.simps [of n xs])

lemma cut_full: "0 < n \<Longrightarrow> length f = n \<Longrightarrow> cut n (f @ xs) = (let (fs, r) = cut n xs in (f # fs, r))"
  by (simp add: cut.simps [of n "f @ xs"])

lemma cut_rest: "0 < n \<Longrightarrow> length (snd (cut n xs)) < n"
proof (induction n xs rule: cut.induct)
  case (1 n xs)
  then show ?case by (cases "length xs < n") (auto simp: cut.simps [of n xs] split: prod.split)
qed

lemma cut_append: "0 < n \<Longrightarrow> cut n xs = (fs, r) \<Longrightarrow> cut n (xs @ ys) = (let (gs, q) = cut n (r @ ys) in (fs @ gs, q))"
proof (induction n xs arbitrary: fs rule: cut.induct)
  case (1 n xs)
  show ?case
  proof (cases "length xs < n")
    case True
    then show ?thesis using 1(3) by (simp add: cut_short split: prod.split)
  next
    case False
    obtain gs q where g: "cut n (drop n xs) = (gs, q)" by fastforce
    then have f: "fs = take n xs # gs" "r = q" using 1(2,3) False by (simp_all add: cut.simps [of n xs])
    have "cut n (drop n xs @ ys) = (let (hs, q') = cut n (r @ ys) in (gs @ hs, q'))"
      using 1(1) [of gs] 1(2) False g f(2) by simp
    moreover have "cut n (xs @ ys) = (let (hs, q') = cut n (drop n xs @ ys) in (take n xs # hs, q'))"
      using cut_full [of n "take n xs" "drop n xs @ ys"] 1(2) False by (simp flip: append_assoc)
    ultimately show ?thesis using f(1) by (auto split: prod.split)
  qed
qed

lemma copy_at_pad: "length xs \<le> n \<Longrightarrow> copy_at 0 xs (replicate n 0) = xs @ replicate (n - length xs) 0"
  by (simp add: copy_at_def)

lemma frames_of_short: "length r < n \<Longrightarrow> frames_of n r = (if r = [] then [] else [copy_at 0 r (replicate n 0)])"
  by (simp add: frames_of.simps [of n r] frames_of.simps [of n "[]"])

lemma frames_of_cut:
  "0 < n \<Longrightarrow> cut n xs = (fs, r) \<Longrightarrow> frames_of n xs = fs @ (if r = [] then [] else [copy_at 0 r (replicate n 0)])"
proof (induction n xs arbitrary: fs rule: cut.induct)
  case (1 n xs)
  show ?case
  proof (cases "length xs < n")
    case True
    then show ?thesis using 1(2,3) by (auto simp: cut_short frames_of_short)
  next
    case False
    obtain gs q where g: "cut n (drop n xs) = (gs, q)" by fastforce
    then have "fs = take n xs # gs" "r = q" using 1(2,3) False by (simp_all add: cut.simps [of n xs])
    moreover have "copy_at 0 (take n xs) (replicate n 0) = take n xs" using False by (simp add: copy_at_pad)
    moreover have "xs \<noteq> []" using False 1(2) by auto
    ultimately show ?thesis using 1(1) [of gs] 1(2) False g by (simp add: frames_of.simps [of n xs])
  qed
qed

subsection \<open>The samples of a byte stream\<close>

definition wav_samples :: "nat \<Rightarrow> bytes \<Rightarrow> sample list" where
  "wav_samples channels bs = map (avgSample channels bs) [0..<length bs div (2 * channels)]"

lemma avgSample_append: "0 < c \<Longrightarrow> Suc i * (2 * c) \<le> length a \<Longrightarrow> avgSample c (a @ b) i = avgSample c a i"
proof -
  assume "0 < c" and i: "Suc i * (2 * c) \<le> length a"
  have "i * (2 * c) + ch * 2 + 1 < length a" if "ch < c" for ch
  proof -
    have "i * (2 * c) + ch * 2 + 1 < i * (2 * c) + 2 * c" using that by simp
    then show ?thesis using i by simp
  qed
  then have "map (\<lambda>ch. le_int16 ((a @ b) ! (i * (2 * c) + ch * 2)) ((a @ b) ! (i * (2 * c) + ch * 2 + 1))) [0..<c]
      = map (\<lambda>ch. le_int16 (a ! (i * (2 * c) + ch * 2)) (a ! (i * (2 * c) + ch * 2 + 1))) [0..<c]"
    by (intro map_cong refl) (auto simp: nth_append intro: Suc_lessD)
  then show ?thesis unfolding avgSample_def Let_def by (simp only:)
qed

lemma avgSample_skip: "length a = k * (2 * c) \<Longrightarrow> avgSample c (a @ b) (k + i) = avgSample c b i"
  by (simp add: avgSample_def Let_def nth_append add_mult_distrib add.assoc)

lemma wav_samples_append:
  assumes "0 < c" "length a = k * (2 * c)"
  shows "wav_samples c (a @ b) = wav_samples c a @ wav_samples c b"
proof -
  have n: "length (a @ b) div (2 * c) = k + length b div (2 * c)" using assms by (simp add: div_add_self2)
  have "map (avgSample c (a @ b)) [0..<k] = map (avgSample c a) [0..<k]"
  proof (intro map_cong refl)
    fix i assume "i \<in> set [0..<k]"
    then have "Suc i * (2 * c) \<le> k * (2 * c)" by (intro mult_le_mono1) simp
    then show "avgSample c (a @ b) i = avgSample c a i" using assms by (intro avgSample_append) simp_all
  qed
  moreover have "map (avgSample c (a @ b)) [k..<k + m] = map (avgSample c b) [0..<m]" for m
    using avgSample_skip [OF assms(2)] by (induction m) simp_all
  moreover have "length a div (2 * c) = k" using assms by simp
  ultimately show ?thesis by (simp only: wav_samples_def n upt_add_eq_append [OF le0] map_append)
qed

lemma wav_samples_aligned:
  assumes "0 < c"
  shows "wav_samples c (take (length x div (2 * c) * (2 * c)) x) = wav_samples c x"
proof -
  let ?a = "take (length x div (2 * c) * (2 * c)) x" and ?b = "drop (length x div (2 * c) * (2 * c)) x"
  have la: "length ?a = length x div (2 * c) * (2 * c)" by (simp add: min_absorb2 div_times_less_eq_dividend)
  have "length ?b < 2 * c" using assms by (simp add: minus_div_mult_eq_mod)
  then have "wav_samples c ?b = []" by (simp add: wav_samples_def)
  then show ?thesis using wav_samples_append [OF assms la, of ?b] by simp
qed

subsection \<open>The WAV decoder emits the reference frames\<close>

definition quiet_out :: "audio_out \<Rightarrow> bool" where
  "quiet_out o1 \<longleftrightarrow> ao_selects o1 = [] \<and> \<not> ao_done o1"

abbreviation pcm_out :: "('e, 'd) codec \<Rightarrow> audio_decoder \<Rightarrow> int \<Rightarrow> sample list list \<Rightarrow> audio_out \<Rightarrow> audio_out" where
  "pcm_out C d rate fs o1 \<equiv> o1\<lparr>ao_out := ao_out o1 @ map (\<lambda>f. Int16SliceToBytes (resampled C d rate f)) fs\<rparr>"

lemma push_samples_pcm:
  assumes "ad_TargetAudioFormat d = ''pcm''" "0 < n"
  shows "quiet_out (ws_out s) \<Longrightarrow> length (ws_pcm s) < n \<Longrightarrow> push_samples C d rate n xs s =
    (let (fs, r) = cut n (ws_pcm s @ xs) in (None, s\<lparr>ws_pcm := r, ws_out := pcm_out C d rate fs (ws_out s)\<rparr>))"
proof (induction xs arbitrary: s)
  case Nil
  then show ?case by (simp add: cut_short)
next
  case (Cons x xs)
  let ?s1 = "s\<lparr>ws_pcm := ws_pcm s @ [x]\<rparr>"
  show ?case
  proof (cases "length (ws_pcm ?s1) = n")
    case True
    let ?o = "pcm_out C d rate [ws_pcm ?s1] (ws_out s)"
    have ff: "full_frame C d rate ?s1 = (None, s\<lparr>ws_pcm := [], ws_out := ?o\<rparr>)"
      using assms(1) Cons.prems(1) by (simp add: full_frame_def out_send_def quiet_out_def)
    have "cut n (ws_pcm s @ x # xs) = (let (fs, r) = cut n xs in (ws_pcm ?s1 # fs, r))"
      using cut_full [of n "ws_pcm ?s1" xs] True assms(2) by simp
    moreover have "push_samples C d rate n xs (s\<lparr>ws_pcm := [], ws_out := ?o\<rparr>) =
        (let (fs, r) = cut n xs in (None, s\<lparr>ws_pcm := r, ws_out := pcm_out C d rate fs ?o\<rparr>))"
      using Cons.IH [of "s\<lparr>ws_pcm := [], ws_out := ?o\<rparr>"] Cons.prems(1) assms(2) by (simp add: quiet_out_def)
    ultimately show ?thesis using ff True Cons.prems(2) by (simp split: prod.split)
  next
    case False
    then show ?thesis using Cons.IH [of ?s1] Cons.prems by simp
  qed
qed

lemma wav_chunk_pcm:
  assumes d: "ad_TargetAudioFormat d = ''pcm''" and n: "0 < n" and c: "0 < wf_channels f"
    and s: "quiet_out (ws_out s)" "length (ws_pcm s) < n" "length (ws_remainder s) < 2 * wf_channels f"
  shows "\<exists>r fs rem. wav_chunk C d f n piece s =
      (None, s\<lparr>ws_remainder := rem, ws_pcm := r, ws_out := pcm_out C d (wf_sampleRate f) fs (ws_out s)\<rparr>) \<and>
    length r < n \<and> length rem < 2 * wf_channels f \<and>
    (\<forall>rest. \<exists>t. wav_samples (wf_channels f) (ws_remainder s @ piece @ rest) = t @ wav_samples (wf_channels f) (rem @ rest) \<and>
       cut n (ws_pcm s @ t) = (fs, r))"
proof (cases "piece = []")
  case True
  have e: "wav_chunk C d f n piece s = (None, s)" using True by (simp add: wav_chunk_def Let_def)
  show ?thesis
    by (rule exI [of _ "ws_pcm s"], rule exI [of _ "[]"], rule exI [of _ "ws_remainder s"]) (simp add: e [unfolded True] True s cut_short)
next
  case False
  let ?b = "2 * wf_channels f"
  define x where "x = ws_remainder s @ piece"
  define al where "al = length x div ?b * ?b"
  let ?t = "wav_samples (wf_channels f) x"
  have al: "al \<le> length x" unfolding al_def by (rule div_times_less_eq_dividend)
  have ad: "al div ?b = length x div ?b" using c by (simp add: al_def)
  have "wav_chunk C d f n piece s = push_samples C d (wf_sampleRate f) n
      (map (avgSample (wf_channels f) (take al x)) [0..<length (take al x) div ?b]) (s\<lparr>ws_remainder := drop al x\<rparr>)"
    using False al ad by (auto simp: wav_chunk_def Let_def x_def [symmetric] al_def [symmetric])
  also have "map (avgSample (wf_channels f) (take al x)) [0..<length (take al x) div ?b] = ?t"
    using wav_samples_aligned [OF c, of x] by (simp only: al_def wav_samples_def)
  finally have w: "wav_chunk C d f n piece s = push_samples C d (wf_sampleRate f) n ?t (s\<lparr>ws_remainder := drop al x\<rparr>)" .
  obtain fs r where k: "cut n (ws_pcm s @ ?t) = (fs, r)" by fastforce
  have "wav_chunk C d f n piece s =
      (None, s\<lparr>ws_remainder := drop al x, ws_pcm := r, ws_out := pcm_out C d (wf_sampleRate f) fs (ws_out s)\<rparr>)"
    using push_samples_pcm [OF d n, of "s\<lparr>ws_remainder := drop al x\<rparr>" C "wf_sampleRate f" ?t] s k by (simp add: w)
  moreover have "length r < n" using cut_rest [OF n, of "ws_pcm s @ ?t"] k by simp
  moreover have "length (drop al x) < ?b" using c by (simp add: al_def minus_div_mult_eq_mod)
  moreover have "wav_samples (wf_channels f) (ws_remainder s @ piece @ rest) = ?t @ wav_samples (wf_channels f) (drop al x @ rest)" for rest
  proof -
    have "length (take al x) = length x div ?b * ?b" using al by (simp add: min_absorb2 al_def)
    from wav_samples_append [OF c this, of "drop al x @ rest"]
    have "wav_samples (wf_channels f) (x @ rest) = wav_samples (wf_channels f) (take al x) @ wav_samples (wf_channels f) (drop al x @ rest)"
      by (simp flip: append_assoc)
    then show ?thesis using wav_samples_aligned [OF c, of x] by (simp add: x_def al_def)
  qed
  ultimately show ?thesis using k by blast
qed

lemma wav_loop_pcm:
  assumes d: "ad_TargetAudioFormat d = ''pcm''" and n: "0 < n" and c: "0 < wf_channels f"
  shows "quiet_out (ws_out s) \<Longrightarrow> length (ws_pcm s) < n \<Longrightarrow> length (ws_remainder s) < 2 * wf_channels f \<Longrightarrow>
    \<exists>s'. wav_loop C d f n (map (\<lambda>p. (p, None)) ps @ [(q, Some io_EOF)]) s = (DecNil, s') \<and>
      ws_out s' = pcm_out C d (wf_sampleRate f)
        (frames_of n (ws_pcm s @ wav_samples (wf_channels f) (ws_remainder s @ concat ps @ q))) (ws_out s)"
proof (induction ps arbitrary: s)
  case Nil
  from wav_chunk_pcm [OF d n c Nil, of C q] obtain r fs rem t where
      w: "wav_chunk C d f n q s = (None, s\<lparr>ws_remainder := rem, ws_pcm := r, ws_out := pcm_out C d (wf_sampleRate f) fs (ws_out s)\<rparr>)"
      "length r < n" "length rem < 2 * wf_channels f"
      "wav_samples (wf_channels f) (ws_remainder s @ q) = t @ wav_samples (wf_channels f) rem" "cut n (ws_pcm s @ t) = (fs, r)"
    by (metis append.right_neutral)
  have "wav_samples (wf_channels f) rem = []" using w(3) by (simp add: wav_samples_def)
  then have fr: "frames_of n (ws_pcm s @ wav_samples (wf_channels f) (ws_remainder s @ q)) =
      fs @ (if r = [] then [] else [copy_at 0 r (replicate n 0)])"
    using frames_of_cut [OF n w(5)] w(4) by simp
  have so: "s\<lparr>ws_out := ws_out s\<rparr> = s" by simp
  show ?case using Nil(1) w(1) d fr
    by (cases "r = []") (simp_all add: ctx_done_def quiet_out_def so flushLastFrame_def out_send_def)
next
  case (Cons p ps)
  from wav_chunk_pcm [OF d n c Cons.prems, of C p] obtain r fs rem where
      w: "wav_chunk C d f n p s = (None, s\<lparr>ws_remainder := rem, ws_pcm := r, ws_out := pcm_out C d (wf_sampleRate f) fs (ws_out s)\<rparr>)"
      "length r < n" "length rem < 2 * wf_channels f"
      and rest: "\<And>rest. \<exists>t. wav_samples (wf_channels f) (ws_remainder s @ p @ rest) = t @ wav_samples (wf_channels f) (rem @ rest) \<and>
        cut n (ws_pcm s @ t) = (fs, r)"
    by blast
  let ?s = "s\<lparr>ws_remainder := rem, ws_pcm := r, ws_out := pcm_out C d (wf_sampleRate f) fs (ws_out s)\<rparr>"
  have so: "s\<lparr>ws_out := ws_out s\<rparr> = s" by simp
  show ?case
  proof (cases "p = []")
    case True
    then show ?thesis using Cons.IH [OF Cons.prems] Cons.prems(1) by (simp add: ctx_done_def quiet_out_def so)
  next
    case False
    then have l: "wav_loop C d f n (map (\<lambda>p. (p, None)) (p # ps) @ [(q, Some io_EOF)]) s =
        wav_loop C d f n (map (\<lambda>p. (p, None)) ps @ [(q, Some io_EOF)]) ?s"
      using Cons.prems(1) w(1) by (simp add: ctx_done_def quiet_out_def so)
    obtain t where t: "wav_samples (wf_channels f) (ws_remainder s @ p @ concat ps @ q) = t @ wav_samples (wf_channels f) (rem @ concat ps @ q)"
        "cut n (ws_pcm s @ t) = (fs, r)"
      using rest by blast
    let ?u = "wav_samples (wf_channels f) (rem @ concat ps @ q)"
    obtain gs z where g: "cut n (r @ ?u) = (gs, z)" by fastforce
    have "cut n ((ws_pcm s @ t) @ ?u) = (fs @ gs, z)" using cut_append [OF n t(2), of ?u] g by simp
    then have fr: "frames_of n (ws_pcm s @ t @ ?u) = fs @ frames_of n (r @ ?u)"
      using frames_of_cut [OF n, of "(ws_pcm s @ t) @ ?u"] frames_of_cut [OF n g] by simp
    from Cons.IH [of ?s] w(2,3) Cons.prems(1) obtain s' where
        "wav_loop C d f n (map (\<lambda>p. (p, None)) ps @ [(q, Some io_EOF)]) ?s = (DecNil, s')"
        "ws_out s' = pcm_out C d (wf_sampleRate f) (frames_of n (r @ ?u)) (ws_out ?s)"
      by (auto simp: quiet_out_def)
    then show ?thesis using l t(1) fr by simp
  qed
qed
lemma format_channels: "0 < wf_channels (raw_format a b)" "0 < wf_channels (wav_header h)"
  by (simp_all add: raw_format_def wav_header_def Let_def)

subsection \<open>Transcoding emits the reference frames\<close>

fun decode_all :: "('e, 'd) codec \<Rightarrow> int \<Rightarrow> bytes list \<Rightarrow> 'd \<Rightarrow> sample list option" where
  "decode_all C channels [] dec = Some []"
| "decode_all C channels (p # ps) dec =
     (case cd_Decode C p dec of
        (None, dec1) \<Rightarrow> None
      | (Some decoded, dec1) \<Rightarrow> map_option ((@) (mono_samples channels decoded)) (decode_all C channels ps dec1))"

lemma emitFrame_pcm:
  assumes "ad_TargetAudioFormat d = ''pcm''" "quiet_out (tc_out s)" "frame \<noteq> []"
  shows "emitFrame C d rate frame s = (None, s\<lparr>tc_out := pcm_out C d rate [frame] (tc_out s)\<rparr>)"
  using assms by (simp add: emitFrame_def resampled_def getTargetSampleRate_def out_send_def quiet_out_def)

lemma full_frames_pcm:
  assumes d: "ad_TargetAudioFormat d = ''pcm''" and n: "0 < n"
  shows "quiet_out (tc_out s) \<Longrightarrow> full_frames C d rate n s =
    (let (fs, r) = cut n (tc_pcm s) in (None, s\<lparr>tc_pcm := r, tc_out := pcm_out C d rate fs (tc_out s)\<rparr>))"
proof (induction "length (tc_pcm s)" arbitrary: s rule: less_induct)
  case less
  show ?case
  proof (cases "length (tc_pcm s) < n")
    case True
    then show ?thesis by (simp add: full_frames.simps [of C d rate n s] cut_short)
  next
    case False
    let ?f = "take n (tc_pcm s)"
    let ?s1 = "s\<lparr>tc_out := pcm_out C d rate [?f] (tc_out s), tc_pcm := drop n (tc_pcm s)\<rparr>"
    have "?f \<noteq> []" using False n by auto
    then have "full_frames C d rate n s = full_frames C d rate n ?s1"
      using False n emitFrame_pcm [OF d less(2)] by (simp add: full_frames.simps [of C d rate n s])
    also have "\<dots> = (let (fs, r) = cut n (drop n (tc_pcm s)) in (None, ?s1\<lparr>tc_pcm := r, tc_out := pcm_out C d rate fs (tc_out ?s1)\<rparr>))"
      using less(1) [of ?s1] less(2) False n by (simp add: quiet_out_def)
    finally show ?thesis using False n by (simp add: cut.simps [of n "tc_pcm s"] split: prod.split)
  qed
qed

lemma processPacket_pcm:
  assumes d: "ad_TargetAudioFormat d = ''pcm''" and n: "0 < n" and q: "quiet_out (tc_out s)" "length (tc_pcm s) < n"
    and dec: "cd_Decode C p (tc_dec s) = (Some decoded, dec1)"
  shows "processPacket C d rate channels n p s = (let (fs, r) = cut n (tc_pcm s @ mono_samples channels decoded)
    in (None, s\<lparr>tc_dec := dec1, tc_pcm := r, tc_out := pcm_out C d rate fs (tc_out s)\<rparr>))"
proof (cases "length decoded div nat channels \<le> 0")
  case True
  then have "mono_samples channels decoded = []" by (simp add: mono_samples_def Let_def)
  then show ?thesis using True dec q by (simp add: processPacket_def cut_short)
next
  case False
  have "full_frames C d rate n (s\<lparr>tc_dec := dec1, tc_pcm := tc_pcm s @ mono_samples channels decoded\<rparr>) =
      (let (fs, r) = cut n (tc_pcm s @ mono_samples channels decoded)
       in (None, s\<lparr>tc_dec := dec1, tc_pcm := r, tc_out := pcm_out C d rate fs (tc_out s)\<rparr>))"
    using full_frames_pcm [OF d n, of "s\<lparr>tc_dec := dec1, tc_pcm := tc_pcm s @ mono_samples channels decoded\<rparr>" C rate] q by simp
  then show ?thesis using False dec by (simp add: processPacket_def flushFrames_def split: prod.split)
qed

lemma transcode_loop_pcm:
  assumes d: "ad_TargetAudioFormat d = ''pcm''" and n: "0 < n"
  shows "quiet_out (tc_out s) \<Longrightarrow> length (tc_pcm s) < n \<Longrightarrow> decode_all C channels ps (tc_dec s) = Some xs \<Longrightarrow>
    \<exists>s'. transcode_loop C d rate channels n ps (PIo io_EOF) s = (None, s') \<and>
      tc_out s' = pcm_out C d rate (frames_of n (tc_pcm s @ xs)) (tc_out s)"
proof (induction ps arbitrary: s xs)
  case Nil
  have so: "s\<lparr>tc_out := tc_out s\<rparr> = s" by simp
  have f: "full_frames C d rate n s = (None, s)" using full_frames_pcm [OF d n Nil(1), of C rate] Nil(2) by (simp add: cut_short)
  show ?case
  proof (cases "tc_pcm s = []")
    case True
    then show ?thesis using Nil f so by (simp add: ctx_done_def quiet_out_def flushFrames_def frames_of_short)
  next
    case False
    have "copy_at 0 (tc_pcm s) (replicate n 0) \<noteq> []" using False n by (simp add: copy_at_def)
    from emitFrame_pcm [OF d Nil(1) this] show ?thesis using Nil f so False n
      by (simp add: ctx_done_def quiet_out_def flushFrames_def frames_of_short)
  qed
next
  case (Cons p ps)
  have so: "s\<lparr>tc_out := tc_out s\<rparr> = s" by simp
  obtain decoded dec1 ys where dec: "cd_Decode C p (tc_dec s) = (Some decoded, dec1)"
      and ys: "decode_all C channels ps dec1 = Some ys" and xs: "xs = mono_samples channels decoded @ ys"
    using Cons.prems(3) by (auto split: prod.splits option.splits)
  obtain fs r where k: "cut n (tc_pcm s @ mono_samples channels decoded) = (fs, r)" by fastforce
  let ?s1 = "s\<lparr>tc_dec := dec1, tc_pcm := r, tc_out := pcm_out C d rate fs (tc_out s)\<rparr>"
  have p: "processPacket C d rate channels n p s = (None, ?s1)"
    using processPacket_pcm [OF d n Cons.prems(1,2) dec, of rate channels] k by simp
  have "length r < n" using cut_rest [OF n, of "tc_pcm s @ mono_samples channels decoded"] k by simp
  then obtain s' where s': "transcode_loop C d rate channels n ps (PIo io_EOF) ?s1 = (None, s')"
      "tc_out s' = pcm_out C d rate (frames_of n (r @ ys)) (tc_out ?s1)"
    using Cons.IH [of ?s1 ys] Cons.prems(1) ys by (auto simp: quiet_out_def)
  obtain gs z where g: "cut n (r @ ys) = (gs, z)" by fastforce
  have "cut n ((tc_pcm s @ mono_samples channels decoded) @ ys) = (fs @ gs, z)" using cut_append [OF n k, of ys] g by simp
  then have "frames_of n (tc_pcm s @ xs) = fs @ frames_of n (r @ ys)"
    using frames_of_cut [OF n, of "(tc_pcm s @ mono_samples channels decoded) @ ys"] frames_of_cut [OF n g] xs by simp
  then show ?case using p s' Cons.prems(1) so by (simp add: ctx_done_def quiet_out_def)
qed

subsection \<open>Properties\<close>

definition demo_codec :: "(unit, unit) codec" where
  "demo_codec = \<lparr>cd_NewEncoder = (\<lambda>_ _. Some ()), cd_Encode = (\<lambda>f e. (Some (Int16SliceToBytes f), e)), cd_NewDecoder = (\<lambda>_ _. Some ()),
     cd_Decode = (\<lambda>p e. (Some (map ucast p), e)), cd_resample = (\<lambda>_ _ f. f)\<rparr>"

definition demo_decoder :: audio_decoder where
  "demo_decoder = \<lparr>ad_perFrameDurationMs = 1, ad_targetSampleRate = 0, ad_TargetAudioFormat = ''pcm''\<rparr>"



text \<open>
  C29. Transcoding to PCM loses nothing and cuts at no packet boundary: the frames sent are those of all decoded samples one
  after the other, mixed down to one channel, the last one filled with silence.
\<close>

theorem transcoding_exact:
  assumes "ad_TargetAudioFormat d = ''pcm''" "quiet_out o1" "cd_NewDecoder C rate channels = Some dec"
    and "decode_all C channels (first # packets) dec = Some xs"
    and "n = nat (rate * (if ad_perFrameDurationMs d \<le> 0 then 60 else ad_perFrameDurationMs d) sdiv 1000)" "0 < n"
  shows "transcodeOpusPackets C d rate channels first packets (PIo io_EOF) o1 =
    (None, o1\<lparr>ao_out := ao_out o1 @ map (\<lambda>f. Int16SliceToBytes (resampled C d rate f)) (frames_of n xs)\<rparr>)"
proof -
  let ?s = "\<lparr>tc_pcm = [], tc_enc = None, tc_dec = dec, tc_out = o1\<rparr>"
  obtain decoded dec1 ys where dec: "cd_Decode C first dec = (Some decoded, dec1)"
      and ys: "decode_all C channels packets dec1 = Some ys" and xs: "xs = mono_samples channels decoded @ ys"
    using assms(4) by (auto split: prod.splits option.splits)
  obtain fs r where k: "cut n (mono_samples channels decoded) = (fs, r)" by fastforce
  let ?s1 = "\<lparr>tc_pcm = r, tc_enc = None, tc_dec = dec1, tc_out = pcm_out C d rate fs o1\<rparr>"
  have p: "processPacket C d rate channels n first ?s = (None, ?s1)"
    using processPacket_pcm [OF assms(1,6), of ?s C first decoded dec1 rate channels] assms(2,6) dec k by simp
  have "length r < n" using cut_rest [OF assms(6), of "mono_samples channels decoded"] k by simp
  then obtain s' where s': "transcode_loop C d rate channels n packets (PIo io_EOF) ?s1 = (None, s')"
      "tc_out s' = pcm_out C d rate (frames_of n (r @ ys)) (tc_out ?s1)"
    using transcode_loop_pcm [OF assms(1,6), of ?s1 C channels packets ys rate] assms(2) ys by (auto simp: quiet_out_def)
  obtain gs z where g: "cut n (r @ ys) = (gs, z)" by fastforce
  have fr: "frames_of n xs = fs @ frames_of n (r @ ys)"
    using cut_append [OF assms(6) k, of ys] g frames_of_cut [OF assms(6), of xs] frames_of_cut [OF assms(6) g] xs by simp
  have "\<not> rate * (if ad_perFrameDurationMs d \<le> 0 then 60 else ad_perFrameDurationMs d) sdiv 1000 \<le> 0" using assms(5,6) by linarith
  then show ?thesis using p s' fr assms(1,3) by (simp add: transcodeOpusPackets_def Let_def flip: assms(5))
qed

theorem transcoding_exact_witness:
  "transcodeOpusPackets demo_codec demo_decoder 2000 1 [1] [[2, 3], [], [4, 5]] (PIo io_EOF) demo_out =
    (None, demo_out\<lparr>ao_out := [[1, 0, 2, 0], [3, 0, 4, 0], [5, 0, 0, 0]]\<rparr>)"
proof -
  have "transcodeOpusPackets demo_codec demo_decoder 2000 1 [1] [[2, 3], [], [4, 5]] (PIo io_EOF) demo_out =
    (None, demo_out\<lparr>ao_out := ao_out demo_out @ map (\<lambda>f. Int16SliceToBytes (resampled demo_codec demo_decoder 2000 f))
      (frames_of 2 [1, 2, 3, 4, 5])\<rparr>)"
    by (rule transcoding_exact [where dec = "()"])
      (simp_all add: demo_decoder_def demo_out_def quiet_out_def demo_codec_def mono_samples_def)
  moreover have "map (\<lambda>f. Int16SliceToBytes (resampled demo_codec demo_decoder 2000 f)) (frames_of 2 [1, 2, 3, 4, 5])
      = [[1, 0, 2, 0], [3, 0, 4, 0], [5, 0, 0, 0]]"
    by code_simp
  ultimately show ?thesis by (simp add: demo_out_def)
qed

text \<open>The buffer: the position stays inside it, and writing replaces exactly the bytes from the position on.\<close>

lemma wk_Write_spec:
  assumes "0 \<le> wk_pos w" "wk_pos w \<le> int (length (wk_Buffer w))"
  shows "wk_Write p w = (int (length p), \<lparr>wk_Buffer = take (nat (wk_pos w)) (wk_Buffer w) @ p @ drop (nat (wk_pos w) + length p) (wk_Buffer w),
    wk_pos = wk_pos w + int (length p)\<rparr>)"
proof (cases "wk_pos w = int (length (wk_Buffer w))")
  case True
  then show ?thesis by (simp add: wk_Write_def)
next
  case False
  define k where "k = nat (wk_pos w)"
  have k: "wk_pos w = int k" "k < length (wk_Buffer w)" using assms False by (simp_all add: k_def)
  show ?thesis using k by (auto simp: wk_Write_def Let_def copy_at_def nat_int_add)
qed

lemma wk_Seek_inside: "wk_Seek offset whence w = (Some pos, w') \<Longrightarrow> 0 \<le> wk_pos w' \<and> wk_pos w' \<le> int (length (wk_Buffer w')) \<and> wk_pos w' = pos"
  by (auto simp: wk_Seek_def Let_def split: if_splits)

end
