(* ===== verification/MediaPlayer.thy ===== *)
theory MediaPlayer
  imports Bytes "HOL-Library.Signed_Division"
begin

text \<open>
  The media player of a device (\<open>internal/app/server/chat/media_player.go\<close>): playlists, the playback a device is
  running, the chat session whose speech output it borrows, and the goroutine that plays one track after the other.

  Playbacks (\<open>*activeMediaPlayback\<close>) are objects, named by numbers in order of creation; \<open>mw_playback\<close> and \<open>mw_runner\<close>
  are the heap. An attachment (\<open>*mediaSessionAttachment\<close>) never changes and is a pair of its own number and the
  number of its session, whose speech output it stands for. One device is modelled; another device
  can only append to a shared playlist. Every section of code under \<open>deviceMediaRuntime.mu\<close> is one function. What a
  caller does after it has left the lock is kept as its list of tasks, and the playing goroutine has a program
  counter, so that everything interleaves as it may in the program. Structures are copied where the source clones them,
  which is what values do.

  \<open>MediaPlayerState.ErrMsg\<close> is an optional error, an empty text being \<open>None\<close>. The clock is an argument.
\<close>

subsection \<open>Sources and playlists\<close>

record mcp_media_source =
  ms_ServerName :: gotext
  ms_EndpointSnapshot :: gotext
  ms_ToolName :: gotext
  ms_ResourceURI :: gotext
  ms_DirectAudioURL :: gotext
  ms_Description :: gotext
  ms_ReadArgs :: "(gotext \<times> gotext) list"
  ms_PageSize :: int

definition MediaSourceTypeMCPResource :: string where "MediaSourceTypeMCPResource = ''mcp_resource''"
definition MediaSourceTypeHTTPURL :: string where "MediaSourceTypeHTTPURL = ''http_url''"
definition MediaSourceTypeLocalFile :: string where "MediaSourceTypeLocalFile = ''local_file''"
definition MediaSourceTypeInlineAudio :: string where "MediaSourceTypeInlineAudio = ''inline_audio''"

lemmas source_types = MediaSourceTypeMCPResource_def MediaSourceTypeHTTPURL_def MediaSourceTypeLocalFile_def
  MediaSourceTypeInlineAudio_def

record media_source =
  src_ID :: gotext
  src_Title :: gotext
  src_MIMEType :: gotext
  src_SourceType :: string
  src_Meta :: "(gotext \<times> gotext) list"
  src_MCP :: "mcp_media_source option"
  src_HTTP :: "gotext option"
  src_Local :: "gotext option"
  src_Inline :: "bytes option"

record playlist_item =
  pi_ID :: gotext
  pi_Source :: media_source
  pi_AddedAt :: int

definition unknown_audio :: gotext where "unknown_audio = [0x672A, 0x77E5, 0x97F3, 0x9891]"

text \<open>\<open>url_path\<close> is the \<open>Path\<close> that \<open>url.Parse\<close> finds, if it succeeds.\<close>

definition deriveMediaTitle :: "(gotext \<Rightarrow> gotext option) \<Rightarrow> media_source \<Rightarrow> gotext" where
  "deriveMediaTitle url_path source =
     (if trim_space (src_Title source) \<noteq> [] then trim_space (src_Title source)
      else if src_SourceType source = MediaSourceTypeHTTPURL then
        (case src_HTTP source of
           None \<Rightarrow> unknown_audio
         | Some url \<Rightarrow>
             (case url_path url of
                Some path \<Rightarrow>
                  let base = trim_space path in
                  if base \<noteq> [] then trim_space (last (strings_Split base (lit ''/''))) else trim_space url
              | None \<Rightarrow> trim_space url))
      else if src_SourceType source = MediaSourceTypeLocalFile then
        (case src_Local source of None \<Rightarrow> unknown_audio | Some path \<Rightarrow> trim_space path)
      else if src_SourceType source = MediaSourceTypeMCPResource then
        (case src_MCP source of
           None \<Rightarrow> unknown_audio
         | Some mcp \<Rightarrow>
             if trim_space (ms_Description mcp) \<noteq> [] then trim_space (ms_Description mcp)
             else if trim_space (ms_DirectAudioURL mcp) \<noteq> [] then trim_space (ms_DirectAudioURL mcp)
             else trim_space (ms_ResourceURI mcp))
      else unknown_audio)"

text \<open>A source with its identifier and title filled in, as both ways into a playlist do it.\<close>

definition named_source :: "(gotext \<Rightarrow> gotext option) \<Rightarrow> gotext \<Rightarrow> media_source \<Rightarrow> media_source" where
  "named_source url_path fresh source =
     (let cloned = (if src_ID source = [] then source\<lparr>src_ID := fresh\<rparr> else source)
      in if src_Title cloned = [] then cloned\<lparr>src_Title := deriveMediaTitle url_path cloned\<rparr> else cloned)"

text \<open>\<open>nano i\<close> is what the clock shows while the \<open>i\<close>-th item is built.\<close>

definition build_item :: "(gotext \<Rightarrow> gotext option) \<Rightarrow> int \<Rightarrow> (nat \<Rightarrow> nat) \<Rightarrow> nat \<Rightarrow> media_source \<Rightarrow> playlist_item" where
  "build_item url_path nowMs nano i source =
     (let cloned = named_source url_path (lit ''media_'' @ itoa (nano i) @ lit ''_'' @ itoa i) source
      in \<lparr>pi_ID = src_ID cloned, pi_Source = cloned, pi_AddedAt = nowMs\<rparr>)"

definition buildMediaPlaylistItems ::
  "(gotext \<Rightarrow> gotext option) \<Rightarrow> int \<Rightarrow> (nat \<Rightarrow> nat) \<Rightarrow> media_source list \<Rightarrow> playlist_item list" where
  "buildMediaPlaylistItems url_path nowMs nano sources =
     map (\<lambda>(i, source). build_item url_path nowMs nano i source) (enumerate 0 sources)"

subsection \<open>State\<close>

datatype media_error =
    BadStartIndex int
  | EmptyAgentID
  | PlaylistIsEmpty
  | NoPlayableMedia
  | NothingPlaying
  | NoOutputChannel
  | NotInAgentPlaylist
  | NoMediaToAppend
  | SourceNotAppendable
  | SourceInvalid
  | ContextCanceled
  | AlreadyExclusive
  | ExternalError

datatype playback_status = StatusIdle | StatusPlaying | StatusPaused | StatusStopped | StatusError
datatype playback_mode = ModeUnset | ModeStandalone | ModeAgentPlaylist
datatype pause_reason = PauseReasonNone | PauseReasonUser | PauseReasonInterrupt
datatype recovery_trigger = TriggerUser | TriggerAttach

record player_state =
  ps_Status :: playback_status
  ps_Playlist :: "playlist_item list"
  ps_CurrentIndex :: int
  ps_CurrentTitle :: gotext
  ps_CurrentSourceType :: string
  ps_PositionMs :: int
  ps_UpdatedAt :: int
  ps_ErrMsg :: "media_error option"

record audio_config =
  ac_SampleRate :: int
  ac_FrameDuration :: int

text \<open>\<open>ctx\<close> and \<open>cancel\<close> are \<open>ap_cancelled\<close>; \<open>resumeCh\<close> is closed exactly while the playback is not paused.\<close>

record active_playback =
  ap_cancelled :: bool
  ap_done :: bool
  ap_paused :: bool
  ap_exclusiveHeld :: bool

type_synonym media_attachment = "nat \<times> nat"

record media_runtime =
  mr_state :: player_state
  mr_mode :: playback_mode
  mr_playlistAgentID :: gotext
  mr_standaloneItems :: "playlist_item list"
  mr_playbackIndex :: int
  mr_audioConfig :: audio_config
  mr_currentSource :: "media_source option"
  mr_active :: "nat option"
  mr_pauseReason :: pause_reason
  mr_attachment :: "media_attachment option"
  mr_resumeOnAttach :: bool
  mr_exclusiveAttachment :: "media_attachment option"
subsection \<open>The playing goroutine\<close>

text \<open>
  \<open>stream_state\<close> holds the variables of \<open>playItem\<close> and \<open>streamMediaAudio\<close> (and the index of the loop around them). A value of
  \<open>runner\<close> says what the goroutine does next. \<open>PauseCheck\<close> and \<open>PauseBlocked\<close> are the two halves of \<open>waitIfPaused\<close>, with
  the place it returns to; \<open>Releasing\<close> is a release of an output channel on the way to the next place.
\<close>

record stream_state =
  sm_index :: int
  sm_text :: gotext
  sm_startedOn :: "media_attachment option"
  sm_enqueued :: bool
  sm_frameMs :: int

datatype pause_return = ToPrepare int | ToReceive stream_state | ToAttach stream_state bytes

datatype runner =
    NotStarted
  | PauseCheck pause_return
  | PauseBlocked pause_return
  | PrepareTrack int
  | OpenSource int playlist_item
  | ReceiveFrame stream_state
  | AwaitAttachment stream_state bytes
  | CheckExclusive stream_state bytes media_attachment
  | BeginExclusive stream_state bytes media_attachment
  | ExclusiveBegun stream_state bytes media_attachment
  | SendSentenceStart stream_state bytes media_attachment
  | SendAudioFrame stream_state bytes media_attachment
  | CountFrame stream_state
  | SentenceEnd stream_state
  | SendSentenceEnd stream_state media_attachment
  | AwaitSentenceEnd stream_state
  | AdvanceTrack int
  | PlaybackFailed media_error
  | ReleaseExclusive
  | CloseDone
  | Releasing media_attachment runner
  | RunnerFinished

datatype media_task = ReleaseTask media_attachment | StopTask nat | SpawnTask nat | RecoverTask

datatype media_output = SentenceStartOut gotext | FrameOut bytes | SentenceEndOut gotext

record media_world =
  mw_playlists :: "gotext \<Rightarrow> playlist_item list"
  mw_rt :: media_runtime
  mw_playbacks :: nat
  mw_playback :: "nat \<Rightarrow> active_playback"
  mw_runner :: "nat \<Rightarrow> runner"
  mw_attachments :: nat
  mw_mediaPlaybackActive :: "nat \<Rightarrow> bool"
  mw_tasks :: "media_task list list"
  mw_sent :: "(nat \<times> media_attachment \<times> media_output) list"

definition upd_rt :: "(media_runtime \<Rightarrow> media_runtime) \<Rightarrow> media_world \<Rightarrow> media_world" where
  "upd_rt f w = w\<lparr>mw_rt := f (mw_rt w)\<rparr>"

definition upd_state :: "(player_state \<Rightarrow> player_state) \<Rightarrow> media_world \<Rightarrow> media_world" where
  "upd_state f = upd_rt (\<lambda>r. r\<lparr>mr_state := f (mr_state r)\<rparr>)"

definition upd_playback :: "nat \<Rightarrow> (active_playback \<Rightarrow> active_playback) \<Rightarrow> media_world \<Rightarrow> media_world" where
  "upd_playback p f w = w\<lparr>mw_playback := (mw_playback w)(p := f (mw_playback w p))\<rparr>"

definition add_tasks :: "media_task list \<Rightarrow> media_world \<Rightarrow> media_world" where
  "add_tasks ts w = (if ts = [] then w else w\<lparr>mw_tasks := mw_tasks w @ [ts]\<rparr>)"

definition goto :: "nat \<Rightarrow> runner \<Rightarrow> media_world \<Rightarrow> media_world" where
  "goto p r w = w\<lparr>mw_runner := (mw_runner w)(p := r)\<rparr>"

subsection \<open>Playbacks\<close>

definition newActiveMediaPlayback :: active_playback where
  "newActiveMediaPlayback = \<lparr>ap_cancelled = False, ap_done = False, ap_paused = False, ap_exclusiveHeld = False\<rparr>"

definition setPaused :: "bool \<Rightarrow> active_playback \<Rightarrow> bool \<times> active_playback" where
  "setPaused paused a =
     (if ap_paused a = paused then (False, a)
      else if paused then (True, a\<lparr>ap_paused := True\<rparr>)
      else (True, a\<lparr>ap_paused := False\<rparr>))"

definition setExclusiveHeld :: "bool \<Rightarrow> active_playback \<Rightarrow> bool \<times> active_playback" where
  "setExclusiveHeld held a = (if ap_exclusiveHeld a = held then (False, a) else (True, a\<lparr>ap_exclusiveHeld := held\<rparr>))"

definition closeDone :: "active_playback \<Rightarrow> active_playback" where
  "closeDone a = (if ap_done a then a else a\<lparr>ap_done := True\<rparr>)"

text \<open>The output channel of a session (\<open>TTSManager\<close>): its exclusive use by media is one flag.\<close>

definition EndExclusiveMediaPlayback :: "media_attachment \<Rightarrow> media_world \<Rightarrow> media_world" where
  "EndExclusiveMediaPlayback a w =
     w\<lparr>mw_mediaPlaybackActive := (mw_mediaPlaybackActive w)(snd a := False)\<rparr>"

text \<open>\<open>interrupted\<close> is the outcome of clearing the speech queue, which follows once the flag is taken.\<close>

definition BeginExclusiveMediaPlayback :: "media_error option \<Rightarrow> media_attachment \<Rightarrow> media_world \<Rightarrow> media_error option \<times> media_world" where
  "BeginExclusiveMediaPlayback interrupted a w =
     (if mw_mediaPlaybackActive w (snd a) then (Some AlreadyExclusive, w)
      else let w1 = w\<lparr>mw_mediaPlaybackActive := (mw_mediaPlaybackActive w)(snd a := True)\<rparr>
           in case interrupted of
                Some e \<Rightarrow> (Some e, EndExclusiveMediaPlayback a w1)
              | None \<Rightarrow> (None, w1))"

subsection \<open>Playlists of agents\<close>

definition snapshotAgentPlaylist :: "gotext \<Rightarrow> media_world \<Rightarrow> playlist_item list" where
  "snapshotAgentPlaylist agentID w =
     (let agentID = trim_space agentID in if agentID = [] then [] else mw_playlists w agentID)"

definition appendToAgentPlaylist ::
  "(gotext \<Rightarrow> gotext option) \<Rightarrow> int \<Rightarrow> nat \<Rightarrow> gotext \<Rightarrow> media_source \<Rightarrow> media_world
    \<Rightarrow> (media_error + playlist_item \<times> int \<times> playlist_item list) \<times> media_world" where
  "appendToAgentPlaylist url_path nowMs nano agentID source w =
     (let agentID = trim_space agentID in
      if agentID = [] then (Inl EmptyAgentID, w)
      else let cloned = named_source url_path (lit ''media_'' @ itoa nano) source;
               item = \<lparr>pi_ID = src_ID cloned, pi_Source = cloned, pi_AddedAt = nowMs\<rparr>;
               items = mw_playlists w agentID @ [item]
           in (Inr (item, int (length items) - 1, items), w\<lparr>mw_playlists := (mw_playlists w)(agentID := items)\<rparr>))"

definition default_SampleRate :: int where "default_SampleRate = 16000"
definition default_FrameDuration :: int where "default_FrameDuration = 60"

definition normalizeMediaPlaybackAudioConfig :: "audio_config \<Rightarrow> audio_config \<Rightarrow> audio_config" where
  "normalizeMediaPlaybackAudioConfig primary fallback =
     (let cfg = fallback;
          cfg = (if ac_SampleRate primary > 0 then cfg\<lparr>ac_SampleRate := ac_SampleRate primary\<rparr> else cfg);
          cfg = (if ac_FrameDuration primary > 0 then cfg\<lparr>ac_FrameDuration := ac_FrameDuration primary\<rparr> else cfg);
          cfg = (if ac_SampleRate cfg \<le> 0 then cfg\<lparr>ac_SampleRate := default_SampleRate\<rparr> else cfg)
      in if ac_FrameDuration cfg \<le> 0 then cfg\<lparr>ac_FrameDuration := default_FrameDuration\<rparr> else cfg)"

definition refreshPublicStateLocked :: "media_world \<Rightarrow> media_world" where
  "refreshPublicStateLocked w =
     (case mr_mode (mw_rt w) of
        ModeAgentPlaylist \<Rightarrow>
          let snapshot = snapshotAgentPlaylist (mr_playlistAgentID (mw_rt w)) w;
              i = mr_playbackIndex (mw_rt w)
          in upd_state (\<lambda>s. s\<lparr>ps_Playlist := snapshot,
               ps_CurrentIndex := if length snapshot = 0 then -1
                 else if i \<ge> 0 \<and> i < int (length snapshot) then i else -1\<rparr>) w
      | _ \<Rightarrow> upd_state (\<lambda>s. s\<lparr>ps_Playlist := [], ps_CurrentIndex := -1\<rparr>) w)"

definition currentPlaybackQueueLocked :: "media_world \<Rightarrow> playlist_item list" where
  "currentPlaybackQueueLocked w =
     (case mr_mode (mw_rt w) of
        ModeAgentPlaylist \<Rightarrow> snapshotAgentPlaylist (mr_playlistAgentID (mw_rt w)) w
      | _ \<Rightarrow> mr_standaloneItems (mw_rt w))"

definition currentFrameDurationMs :: "media_world \<Rightarrow> int" where
  "currentFrameDurationMs w =
     (let frameDuration = ac_FrameDuration (mr_audioConfig (mw_rt w))
      in if frameDuration \<le> 0 then default_FrameDuration else frameDuration)"

definition currentAudioConfig :: "media_world \<Rightarrow> audio_config" where
  "currentAudioConfig w = normalizeMediaPlaybackAudioConfig (mr_audioConfig (mw_rt w))
     \<lparr>ac_SampleRate = default_SampleRate, ac_FrameDuration = default_FrameDuration\<rparr>"

subsection \<open>Starting, pausing and stopping\<close>

text \<open>Replacing the active playback by a new one; what was there before is returned.\<close>

definition replaceActivePlaybackLocked :: "media_world \<Rightarrow> nat option \<times> media_attachment option \<times> media_world" where
  "replaceActivePlaybackLocked w =
     (let oldActive = mr_active (mw_rt w);
          oldExclusive = mr_exclusiveAttachment (mw_rt w);
          active = mw_playbacks w;
          w1 = (case oldActive of Some p \<Rightarrow> upd_playback p (\<lambda>a. snd (setExclusiveHeld False a)) w | None \<Rightarrow> w);
          w2 = w1\<lparr>mw_playbacks := Suc active, mw_playback := (mw_playback w1)(active := newActiveMediaPlayback),
                  mw_runner := (mw_runner w1)(active := NotStarted)\<rparr>
      in (oldActive, oldExclusive, upd_rt (\<lambda>r. r\<lparr>mr_active := Some active, mr_exclusiveAttachment := None\<rparr>) w2))"

text \<open>What a caller does after it has left the lock: release the output channel, stop the old playback, start the new.\<close>

definition after_release :: "media_attachment option \<Rightarrow> media_task list" where
  "after_release a = (case a of None \<Rightarrow> [] | Some a \<Rightarrow> [ReleaseTask a])"

definition stopOldPlayback :: "nat option \<Rightarrow> media_task list" where
  "stopOldPlayback p = (case p of None \<Rightarrow> [] | Some p \<Rightarrow> [StopTask p])"

definition start_standalone :: "int \<Rightarrow> playlist_item list \<Rightarrow> nat \<Rightarrow> audio_config \<Rightarrow> media_world \<Rightarrow> media_world" where
  "start_standalone nowMs items startIndex cfg w =
     (case replaceActivePlaybackLocked w of (oldActive, oldExclusive, w1) \<Rightarrow>
        let source = pi_Source (items ! startIndex);
            w2 = upd_rt (\<lambda>r. r\<lparr>mr_mode := ModeStandalone, mr_playlistAgentID := [], mr_standaloneItems := items,
                   mr_playbackIndex := int startIndex,
                   mr_audioConfig := normalizeMediaPlaybackAudioConfig cfg (mr_audioConfig r),
                   mr_currentSource := Some source, mr_pauseReason := PauseReasonNone, mr_resumeOnAttach := False\<rparr>) w1;
            w3 = upd_state (\<lambda>s. s\<lparr>ps_Status := StatusPlaying, ps_Playlist := [], ps_CurrentIndex := -1,
                   ps_CurrentTitle := src_Title source, ps_CurrentSourceType := src_SourceType source,
                   ps_PositionMs := 0, ps_ErrMsg := None, ps_UpdatedAt := nowMs\<rparr>) w2
        in add_tasks (after_release oldExclusive @ stopOldPlayback oldActive @ [SpawnTask (mw_playbacks w)]) w3)"

definition start_agent_playlist ::
  "int \<Rightarrow> gotext \<Rightarrow> playlist_item list \<Rightarrow> nat \<Rightarrow> audio_config \<Rightarrow> media_world \<Rightarrow> media_world" where
  "start_agent_playlist nowMs agentID snapshot startIndex cfg w =
     (case replaceActivePlaybackLocked w of (oldActive, oldExclusive, w1) \<Rightarrow>
        let source = pi_Source (snapshot ! startIndex);
            w2 = upd_rt (\<lambda>r. r\<lparr>mr_mode := ModeAgentPlaylist, mr_playlistAgentID := agentID, mr_standaloneItems := [],
                   mr_playbackIndex := int startIndex,
                   mr_audioConfig := normalizeMediaPlaybackAudioConfig cfg (mr_audioConfig r),
                   mr_currentSource := Some source, mr_pauseReason := PauseReasonNone, mr_resumeOnAttach := False\<rparr>) w1;
            w3 = upd_state (\<lambda>s. s\<lparr>ps_Status := StatusPlaying, ps_Playlist := snapshot, ps_CurrentIndex := int startIndex,
                   ps_CurrentTitle := src_Title source, ps_CurrentSourceType := src_SourceType source,
                   ps_PositionMs := 0, ps_ErrMsg := None, ps_UpdatedAt := nowMs\<rparr>) w2
        in add_tasks (after_release oldExclusive @ stopOldPlayback oldActive @ [SpawnTask (mw_playbacks w)]) w3)"

definition media_Stop :: "int \<Rightarrow> media_world \<Rightarrow> media_world" where
  "media_Stop nowMs w =
     (let active = mr_active (mw_rt w);
          exclusiveAttach = mr_exclusiveAttachment (mw_rt w);
          w1 = (case active of Some p \<Rightarrow> upd_playback p (\<lambda>a. snd (setExclusiveHeld False a)) w | None \<Rightarrow> w);
          w2 = upd_rt (\<lambda>r. r\<lparr>mr_active := None, mr_pauseReason := PauseReasonNone, mr_exclusiveAttachment := None,
                 mr_resumeOnAttach := False\<rparr>) w1;
          w3 = upd_state (\<lambda>s. s\<lparr>ps_Status := StatusStopped, ps_PositionMs := 0, ps_ErrMsg := None, ps_UpdatedAt := nowMs\<rparr>) w2
      in add_tasks (after_release exclusiveAttach @ stopOldPlayback active) w3)"

definition ReplaceStandaloneQueueAndPlayWithHandle ::
  "(gotext \<Rightarrow> gotext option) \<Rightarrow> int \<Rightarrow> (nat \<Rightarrow> nat) \<Rightarrow> media_source list \<Rightarrow> int \<Rightarrow> audio_config \<Rightarrow> media_world
    \<Rightarrow> (media_error + unit) \<times> media_world" where
  "ReplaceStandaloneQueueAndPlayWithHandle url_path nowMs nano sources startIndex cfg w =
     (if length sources = 0 then (Inr (), media_Stop nowMs w)
      else if startIndex < 0 \<or> startIndex \<ge> int (length sources) then (Inl (BadStartIndex startIndex), w)
      else (Inr (), start_standalone nowMs (buildMediaPlaylistItems url_path nowMs nano sources) (nat startIndex) cfg w))"

definition PlayAgentPlaylistIndex :: "int \<Rightarrow> gotext \<Rightarrow> int \<Rightarrow> audio_config \<Rightarrow> media_world \<Rightarrow> (media_error + unit) \<times> media_world" where
  "PlayAgentPlaylistIndex nowMs agentID startIndex cfg w =
     (let agentID = trim_space agentID in
      if agentID = [] then (Inl EmptyAgentID, w)
      else let snapshot = snapshotAgentPlaylist agentID w in
        if length snapshot = 0 then (Inl PlaylistIsEmpty, w)
        else if startIndex < 0 \<or> startIndex \<ge> int (length snapshot) then (Inl (BadStartIndex startIndex), w)
        else (Inr (), start_agent_playlist nowMs agentID snapshot (nat startIndex) cfg w))"

definition PlayAgentPlaylist :: "int \<Rightarrow> gotext \<Rightarrow> audio_config \<Rightarrow> media_world \<Rightarrow> (media_error + unit) \<times> media_world" where
  "PlayAgentPlaylist nowMs agentID cfg w =
     (let agentID = trim_space agentID in
      if agentID = [] then (Inl EmptyAgentID, w)
      else let snapshot = snapshotAgentPlaylist agentID w; r = mw_rt w in
        if length snapshot = 0 then (Inl PlaylistIsEmpty, w)
        else let startIndex = (if mr_mode r = ModeAgentPlaylist \<and> mr_playlistAgentID r = agentID \<and>
                    mr_playbackIndex r \<ge> 0 \<and> mr_playbackIndex r < int (length snapshot) then mr_playbackIndex r else 0)
             in PlayAgentPlaylistIndex nowMs agentID startIndex cfg w)"

definition pausePlayback :: "int \<Rightarrow> bool \<Rightarrow> pause_reason \<Rightarrow> media_world \<Rightarrow> (media_error + unit) \<times> media_world" where
  "pausePlayback nowMs requireActive reason w =
     (case mr_active (mw_rt w) of
        None \<Rightarrow> (if requireActive then Inl NothingPlaying else Inr (), w)
      | Some p \<Rightarrow>
          let w1 = upd_playback p (\<lambda>a. snd (setPaused True a)) w;
              exclusiveAttach = mr_exclusiveAttachment (mw_rt w);
              w2 = upd_playback p (\<lambda>a. snd (setExclusiveHeld False a))
                     (upd_rt (\<lambda>r. r\<lparr>mr_exclusiveAttachment := None\<rparr>) w1);
              w3 = upd_rt (\<lambda>r. r\<lparr>mr_pauseReason := reason, mr_resumeOnAttach := False\<rparr>) w2;
              w4 = upd_state (\<lambda>s. s\<lparr>ps_Status := StatusPaused, ps_UpdatedAt := nowMs\<rparr>) w3
          in (Inr (), add_tasks (after_release exclusiveAttach) w4))"

definition media_Pause :: "int \<Rightarrow> media_world \<Rightarrow> (media_error + unit) \<times> media_world" where
  "media_Pause nowMs = pausePlayback nowMs True PauseReasonUser"

definition media_Suspend :: "int \<Rightarrow> media_world \<Rightarrow> (media_error + unit) \<times> media_world" where
  "media_Suspend nowMs = pausePlayback nowMs False PauseReasonInterrupt"

definition recoverActivePlayback :: "int \<Rightarrow> media_world \<Rightarrow> (media_error + unit) \<times> media_world" where
  "recoverActivePlayback nowMs w =
     (case mr_active (mw_rt w) of
        None \<Rightarrow> (Inl NothingPlaying, w)
      | Some p \<Rightarrow>
          if mr_attachment (mw_rt w) = None then (Inl NoOutputChannel, w)
          else (case setPaused False (mw_playback w p) of
             (False, _) \<Rightarrow> (Inr (), upd_rt (\<lambda>r. r\<lparr>mr_resumeOnAttach := False\<rparr>) w)
           | (True, a) \<Rightarrow>
               let w1 = upd_playback p (\<lambda>_. a) w;
                   w2 = upd_rt (\<lambda>r. r\<lparr>mr_pauseReason := PauseReasonNone, mr_resumeOnAttach := False\<rparr>) w1
               in (Inr (), upd_state (\<lambda>s. s\<lparr>ps_Status := StatusPlaying, ps_UpdatedAt := nowMs\<rparr>) w2)))"

definition media_Resume :: "int \<Rightarrow> media_world \<Rightarrow> (media_error + unit) \<times> media_world" where
  "media_Resume nowMs = recoverActivePlayback nowMs"

definition ResumeIfInterruptedPause :: "int \<Rightarrow> media_world \<Rightarrow> (media_error + bool) \<times> media_world" where
  "ResumeIfInterruptedPause nowMs w =
     (if \<not> (mr_active (mw_rt w) \<noteq> None \<and> mr_pauseReason (mw_rt w) = PauseReasonInterrupt) then (Inr False, w)
      else case recoverActivePlayback nowMs w of
        (Inl e, w) \<Rightarrow> (Inl e, w)
      | (Inr _, w) \<Rightarrow> (Inr True, w))"

definition clearResumeOnAttach :: "media_world \<Rightarrow> media_world" where
  "clearResumeOnAttach = upd_rt (\<lambda>r. r\<lparr>mr_resumeOnAttach := False\<rparr>)"

definition RecoverPlayback ::
  "(gotext \<Rightarrow> gotext option) \<Rightarrow> int \<Rightarrow> (nat \<Rightarrow> nat) \<Rightarrow> audio_config \<Rightarrow> recovery_trigger \<Rightarrow> media_world
    \<Rightarrow> (media_error + unit) \<times> media_world" where
  "RecoverPlayback url_path nowMs nano cfg trigger w =
     (if trigger = TriggerAttach \<and> \<not> mr_resumeOnAttach (mw_rt w) then (Inr (), w)
      else case mr_active (mw_rt w) of
        Some p \<Rightarrow>
          if ap_paused (mw_playback w p) then recoverActivePlayback nowMs w
          else (Inr (), if trigger = TriggerAttach then clearResumeOnAttach w else w)
      | None \<Rightarrow>
          (case mr_mode (mw_rt w) of
             ModeAgentPlaylist \<Rightarrow>
               let agentID = mr_playlistAgentID (mw_rt w);
                   snapshot = snapshotAgentPlaylist agentID w;
                   playbackIndex = mr_playbackIndex (mw_rt w)
               in if length snapshot = 0 then (Inl PlaylistIsEmpty, w)
                  else PlayAgentPlaylistIndex nowMs agentID
                    (if playbackIndex < 0 \<or> playbackIndex \<ge> int (length snapshot) then 0 else playbackIndex) cfg w
           | _ \<Rightarrow>
               (case mr_currentSource (mw_rt w) of
                  None \<Rightarrow> (Inl NoPlayableMedia, w)
                | Some source \<Rightarrow> ReplaceStandaloneQueueAndPlayWithHandle url_path nowMs nano [source] 0 cfg w)))"

definition media_Play ::
  "(gotext \<Rightarrow> gotext option) \<Rightarrow> int \<Rightarrow> (nat \<Rightarrow> nat) \<Rightarrow> audio_config \<Rightarrow> media_world \<Rightarrow> (media_error + unit) \<times> media_world" where
  "media_Play url_path nowMs nano cfg = RecoverPlayback url_path nowMs nano cfg TriggerUser"

text \<open>Go's remainder has the sign of the dividend; the code corrects a negative one.\<close>

definition jumpToRelative :: "int \<Rightarrow> int \<Rightarrow> audio_config \<Rightarrow> media_world \<Rightarrow> (media_error + unit) \<times> media_world" where
  "jumpToRelative nowMs delta cfg w =
     (if mr_mode (mw_rt w) \<noteq> ModeAgentPlaylist then (Inl NotInAgentPlaylist, w)
      else let agentID = mr_playlistAgentID (mw_rt w);
               snapshot = snapshotAgentPlaylist agentID w;
               n = int (length snapshot)
           in if length snapshot = 0 then (Inl PlaylistIsEmpty, w)
              else let currentIndex = mr_playbackIndex (mw_rt w);
                       currentIndex = (if currentIndex < 0 \<or> currentIndex \<ge> n then (if delta \<ge> 0 then 0 else n - 1)
                                       else currentIndex);
                       nextIndex = (currentIndex + delta) smod n;
                       nextIndex = (if nextIndex < 0 then nextIndex + n else nextIndex)
                   in PlayAgentPlaylistIndex nowMs agentID nextIndex cfg w)"

definition media_Next :: "int \<Rightarrow> audio_config \<Rightarrow> media_world \<Rightarrow> (media_error + unit) \<times> media_world" where
  "media_Next nowMs = jumpToRelative nowMs 1"

definition media_Prev :: "int \<Rightarrow> audio_config \<Rightarrow> media_world \<Rightarrow> (media_error + unit) \<times> media_world" where
  "media_Prev nowMs = jumpToRelative nowMs (- 1)"

definition media_GetState :: "media_world \<Rightarrow> player_state \<times> media_world" where
  "media_GetState w = (let w1 = refreshPublicStateLocked w in (mr_state (mw_rt w1), w1))"
subsection \<open>Sessions come and go\<close>

definition attach_new :: "nat \<Rightarrow> media_world \<Rightarrow> media_world" where
  "attach_new session w =
     (let a = (mw_attachments w, session);
          shouldResume = mr_resumeOnAttach (mw_rt w);
          w1 = w\<lparr>mw_attachments := Suc (mw_attachments w)\<rparr>;
          w2 = upd_rt (\<lambda>r. r\<lparr>mr_attachment := Some a\<rparr>) w1
      in add_tasks (if shouldResume then [RecoverTask] else []) w2)"

text \<open>A session that lacks its speech manager or transport is not attached; the argument says whether it has both.\<close>

definition attachSession :: "bool \<Rightarrow> nat \<Rightarrow> media_world \<Rightarrow> media_world" where
  "attachSession usable session w =
     (if \<not> usable then w
      else case mr_attachment (mw_rt w) of
        Some a \<Rightarrow> if snd a = session then w else attach_new session w
      | None \<Rightarrow> attach_new session w)"

definition detachSession :: "int \<Rightarrow> nat \<Rightarrow> bool \<Rightarrow> media_world \<Rightarrow> media_world" where
  "detachSession nowMs session preserve w =
     (case mr_attachment (mw_rt w) of
        None \<Rightarrow> w
      | Some a \<Rightarrow>
          if snd a \<noteq> session then w
          else
            let w1 = (case mr_active (mw_rt w) of
                 Some p \<Rightarrow>
                   if preserve \<and> ps_Status (mr_state (mw_rt w)) = StatusPlaying then
                     upd_rt (\<lambda>r. r\<lparr>mr_resumeOnAttach := True\<rparr>)
                       (upd_state (\<lambda>s. s\<lparr>ps_Status := StatusPaused, ps_UpdatedAt := nowMs\<rparr>)
                         (upd_playback p (\<lambda>x. snd (setPaused True x)) w))
                   else w
               | None \<Rightarrow> w);
                w2 = upd_rt (\<lambda>r. r\<lparr>mr_attachment := None\<rparr>) w1
            in if mr_exclusiveAttachment (mw_rt w) = Some a then
                 let w3 = upd_rt (\<lambda>r. r\<lparr>mr_exclusiveAttachment := None\<rparr>) w2;
                     w4 = (case mr_active (mw_rt w) of
                        Some p \<Rightarrow> upd_playback p (\<lambda>x. snd (setExclusiveHeld False x)) w3
                      | None \<Rightarrow> w3)
                 in add_tasks [ReleaseTask a] w4
               else w2)"

text \<open>\<open>handleAttachmentFailure\<close>: also answers the attachment to be released once the lock is left.\<close>

definition handleAttachmentFailure :: "int \<Rightarrow> nat \<Rightarrow> media_attachment \<Rightarrow> media_world \<Rightarrow> media_attachment option \<times> media_world" where
  "handleAttachmentFailure nowMs p a w =
     (if mr_attachment (mw_rt w) \<noteq> Some a \<or> mr_active (mw_rt w) \<noteq> Some p then (None, w)
      else
        let exclusive = (mr_exclusiveAttachment (mw_rt w) = Some a);
            w1 = (if exclusive then
                    upd_playback p (\<lambda>x. snd (setExclusiveHeld False x)) (upd_rt (\<lambda>r. r\<lparr>mr_exclusiveAttachment := None\<rparr>) w)
                  else w);
            w2 = (if ps_Status (mr_state (mw_rt w)) = StatusPlaying then
                    upd_rt (\<lambda>r. r\<lparr>mr_resumeOnAttach := True\<rparr>)
                      (upd_state (\<lambda>s. s\<lparr>ps_Status := StatusPaused, ps_UpdatedAt := nowMs\<rparr>)
                        (upd_playback p (\<lambda>x. snd (setPaused True x)) w1))
                  else w1)
        in (if exclusive then Some a else None, upd_rt (\<lambda>r. r\<lparr>mr_attachment := None\<rparr>) w2))"

subsection \<open>Adding what plays to the playlist\<close>

record append_result =
  ar_AddedTitle :: gotext
  ar_PlaylistLength :: nat
  ar_CurrentIndex :: int
  ar_CurrentStatus :: playback_status
  ar_CurrentSource :: string
  ar_CurrentPosition :: int

definition append_commit ::
  "int \<Rightarrow> gotext \<Rightarrow> int \<Rightarrow> media_source \<Rightarrow> playlist_item list \<Rightarrow> media_world \<Rightarrow> media_world" where
  "append_commit nowMs agentID targetPlaybackIndex source snapshot w =
     upd_state (\<lambda>s. s\<lparr>ps_Playlist := snapshot, ps_CurrentIndex := targetPlaybackIndex, ps_CurrentTitle := src_Title source,
         ps_CurrentSourceType := src_SourceType source, ps_UpdatedAt := nowMs\<rparr>)
       (upd_rt (\<lambda>r. r\<lparr>mr_mode := ModeAgentPlaylist, mr_playlistAgentID := agentID, mr_playbackIndex := targetPlaybackIndex,
           mr_currentSource := Some source\<rparr>) w)"

definition AppendCurrentToAgentPlaylist ::
  "(gotext \<Rightarrow> gotext option) \<Rightarrow> int \<Rightarrow> nat \<Rightarrow> gotext \<Rightarrow> media_world \<Rightarrow> (media_error + append_result) \<times> media_world" where
  "AppendCurrentToAgentPlaylist url_path nowMs nano agentID w =
     (let agentID = trim_space agentID; r = mw_rt w in
      case mr_currentSource r of
        None \<Rightarrow> (Inl NoMediaToAppend, w)
      | Some source \<Rightarrow>
          if src_SourceType source = MediaSourceTypeInlineAudio then (Inl SourceNotAppendable, w)
          else (case appendToAgentPlaylist url_path nowMs nano agentID source w of
             (Inl e, w) \<Rightarrow> (Inl e, w)
           | (Inr (item, index, snapshot), w1) \<Rightarrow>
               let currentIndex = mr_playbackIndex r;
                   preserve = (mr_mode r = ModeAgentPlaylist \<and> mr_playlistAgentID r = agentID \<and>
                     currentIndex \<ge> 0 \<and> currentIndex < int (length snapshot));
                   targetPlaybackIndex = (if preserve then currentIndex else index)
               in (Inr \<lparr>ar_AddedTitle = src_Title (pi_Source item), ar_PlaylistLength = length snapshot,
                        ar_CurrentIndex = targetPlaybackIndex, ar_CurrentStatus = ps_Status (mr_state r),
                        ar_CurrentSource = src_SourceType (pi_Source item), ar_CurrentPosition = ps_PositionMs (mr_state r)\<rparr>,
                   append_commit nowMs agentID targetPlaybackIndex source snapshot w1)))"

subsection \<open>The gate in front of speech recognition\<close>

definition isRealtimeMcpAudioSourceType :: "string \<Rightarrow> bool" where
  "isRealtimeMcpAudioSourceType sourceType \<longleftrightarrow>
     sourceType = MediaSourceTypeMCPResource \<or> sourceType = MediaSourceTypeInlineAudio"

definition realtimeMcpAudioGateStatus :: "media_world \<Rightarrow> bool \<times> bool" where
  "realtimeMcpAudioGateStatus w =
     (let r = mw_rt w;
          sourceType = ps_CurrentSourceType (mr_state r);
          sourceType = (if sourceType = '''' then (case mr_currentSource r of None \<Rightarrow> sourceType | Some s \<Rightarrow> src_SourceType s)
                        else sourceType);
          status = ps_Status (mr_state r)
      in if \<not> isRealtimeMcpAudioSourceType sourceType then (False, False)
         else let canControl = (mr_active r \<noteq> None \<or> mr_resumeOnAttach r \<or> status = StatusPaused) in
           (case mr_active r of
              None \<Rightarrow> (canControl, False)
            | Some p \<Rightarrow>
                if mr_attachment r = None \<or> status \<noteq> StatusPlaying then (canControl, False)
                else (True, \<not> ap_paused (mw_playback w p))))"

subsection \<open>One track after the other\<close>

definition currentIndexForActive :: "nat \<Rightarrow> media_world \<Rightarrow> int" where
  "currentIndexForActive p w = (if mr_active (mw_rt w) \<noteq> Some p then -1 else mr_playbackIndex (mw_rt w))"

definition prepareTrack :: "int \<Rightarrow> nat \<Rightarrow> int \<Rightarrow> media_world \<Rightarrow> playlist_item option \<times> media_world" where
  "prepareTrack nowMs p index w =
     (if mr_active (mw_rt w) \<noteq> Some p then (None, w)
      else let queue = currentPlaybackQueueLocked w in
        if index < 0 \<or> index \<ge> int (length queue) then (None, w)
        else let item = queue ! nat index;
                 source = pi_Source item;
                 w1 = upd_rt (\<lambda>r. r\<lparr>mr_playbackIndex := index, mr_currentSource := Some source\<rparr>) w;
                 w2 = upd_state (\<lambda>s. s\<lparr>ps_CurrentTitle := src_Title source, ps_CurrentSourceType := src_SourceType source,
                        ps_PositionMs := 0, ps_ErrMsg := None,
                        ps_Status := if ap_paused (mw_playback w p) then StatusPaused else StatusPlaying,
                        ps_UpdatedAt := nowMs\<rparr>) w1
             in (Some item, refreshPublicStateLocked w2))"

definition advanceAfterTrack :: "int \<Rightarrow> nat \<Rightarrow> int \<Rightarrow> media_world \<Rightarrow> int option \<times> media_world" where
  "advanceAfterTrack nowMs p index w =
     (if mr_active (mw_rt w) \<noteq> Some p then (None, w)
      else let queue = currentPlaybackQueueLocked w;
               currentIndex = mr_playbackIndex (mw_rt w);
               currentIndex = (if currentIndex < 0 \<or> currentIndex \<ge> int (length queue) then index else currentIndex);
               nextIndex = currentIndex + 1
           in if nextIndex \<ge> int (length queue) then
                let w1 = upd_rt (\<lambda>r. r\<lparr>mr_active := None, mr_pauseReason := PauseReasonNone, mr_resumeOnAttach := False\<rparr>) w;
                    w2 = upd_state (\<lambda>s. s\<lparr>ps_Status := StatusStopped, ps_PositionMs := 0, ps_UpdatedAt := nowMs\<rparr>) w1
                in (None, refreshPublicStateLocked w2)
              else
                let source = pi_Source (queue ! nat nextIndex);
                    w1 = upd_rt (\<lambda>r. r\<lparr>mr_playbackIndex := nextIndex, mr_currentSource := Some source\<rparr>) w;
                    w2 = upd_state (\<lambda>s. s\<lparr>ps_CurrentTitle := src_Title source, ps_CurrentSourceType := src_SourceType source,
                           ps_PositionMs := 0, ps_Status := StatusPlaying, ps_UpdatedAt := nowMs\<rparr>) w1
                in (Some nextIndex, refreshPublicStateLocked w2))"

definition markPlaybackError :: "int \<Rightarrow> nat \<Rightarrow> media_error \<Rightarrow> media_world \<Rightarrow> media_world" where
  "markPlaybackError nowMs p err w =
     (if mr_active (mw_rt w) \<noteq> Some p then w
      else refreshPublicStateLocked
        (upd_state (\<lambda>s. s\<lparr>ps_Status := StatusError, ps_ErrMsg := Some err, ps_UpdatedAt := nowMs\<rparr>)
          (upd_rt (\<lambda>r. r\<lparr>mr_active := None, mr_pauseReason := PauseReasonNone, mr_resumeOnAttach := False\<rparr>) w)))"

definition markPlaybackStopped :: "int \<Rightarrow> nat \<Rightarrow> playback_status \<Rightarrow> media_world \<Rightarrow> media_world" where
  "markPlaybackStopped nowMs p status w =
     (if mr_active (mw_rt w) \<noteq> Some p then w
      else refreshPublicStateLocked
        (upd_state (\<lambda>s. s\<lparr>ps_Status := status, ps_ErrMsg := None, ps_UpdatedAt := nowMs\<rparr>)
          (upd_rt (\<lambda>r. r\<lparr>mr_active := None, mr_pauseReason := PauseReasonNone, mr_resumeOnAttach := False\<rparr>) w)))"

definition incrementPlaybackPosition :: "int \<Rightarrow> nat \<Rightarrow> int \<Rightarrow> media_world \<Rightarrow> media_world" where
  "incrementPlaybackPosition nowMs p deltaMs w =
     (if deltaMs \<le> 0 then w
      else if mr_active (mw_rt w) \<noteq> Some p then w
      else upd_state (\<lambda>s. s\<lparr>ps_PositionMs := ps_PositionMs s + deltaMs, ps_UpdatedAt := nowMs\<rparr>) w)"

text \<open>The checks of \<open>openSourceAudioStream\<close> before it opens anything.\<close>

definition openSource_check :: "media_source \<Rightarrow> media_error option" where
  "openSource_check source =
     (if src_SourceType source = MediaSourceTypeInlineAudio then
        (case src_Inline source of None \<Rightarrow> Some SourceInvalid | Some d \<Rightarrow> if d = [] then Some SourceInvalid else None)
      else if src_SourceType source = MediaSourceTypeHTTPURL then
        (case src_HTTP source of None \<Rightarrow> Some SourceInvalid | Some u \<Rightarrow> if trim_space u = [] then Some SourceInvalid else None)
      else if src_SourceType source = MediaSourceTypeLocalFile then
        (case src_Local source of None \<Rightarrow> Some SourceInvalid | Some u \<Rightarrow> if trim_space u = [] then Some SourceInvalid else None)
      else if src_SourceType source = MediaSourceTypeMCPResource then
        (case src_MCP source of None \<Rightarrow> Some SourceInvalid
         | Some m \<Rightarrow> if trim_space (ms_ResourceURI m) = [] then Some SourceInvalid else None)
      else Some SourceInvalid)"

definition play_text :: "gotext \<Rightarrow> gotext" where
  "play_text title = (if title \<noteq> [] then [0x6B63, 0x5728, 0x64AD, 0x653E, 0x97F3, 0x4E50, 58, 32] @ title else [])"
subsection \<open>Steps of the goroutine\<close>

text \<open>What the outside decides in a step: the verdict of a call, the next frame, which alternative of a \<open>select\<close> fires.\<close>

datatype media_env =
    EnvNothing
  | EnvCancelled
  | EnvWoken
  | EnvOpened "media_error option"
  | EnvFrame bytes
  | EnvStreamClosed
  | EnvInterrupted "media_error option"
  | EnvSent "media_error option"
  | EnvEnded "media_error option"

fun after_pause :: "pause_return \<Rightarrow> runner" where
  "after_pause (ToPrepare index) = PrepareTrack index"
| "after_pause (ToReceive s) = ReceiveFrame s"
| "after_pause (ToAttach s frame) = AwaitAttachment s frame"

definition after_exclusive :: "stream_state \<Rightarrow> bytes \<Rightarrow> media_attachment \<Rightarrow> runner" where
  "after_exclusive s frame a =
     (if sm_startedOn s \<noteq> Some a \<and> sm_text s \<noteq> [] then SendSentenceStart s frame a else SendAudioFrame s frame a)"

definition releasing :: "media_attachment option \<Rightarrow> runner \<Rightarrow> runner" where
  "releasing a r = (case a of None \<Rightarrow> r | Some a \<Rightarrow> Releasing a r)"

text \<open>A failed call of the output channel; \<open>r\<close> is where the goroutine goes on.\<close>

definition output_failed :: "int \<Rightarrow> nat \<Rightarrow> media_attachment \<Rightarrow> runner \<Rightarrow> media_world \<Rightarrow> media_world" where
  "output_failed nowMs p a r w =
     (case handleAttachmentFailure nowMs p a w of (released, w1) \<Rightarrow> goto p (releasing released r) w1)"

definition media_log :: "nat \<Rightarrow> media_attachment \<Rightarrow> media_output \<Rightarrow> media_world \<Rightarrow> media_world" where
  "media_log p a out w = w\<lparr>mw_sent := mw_sent w @ [(p, a, out)]\<rparr>"

definition if_cancelled :: "nat \<Rightarrow> media_world \<Rightarrow> media_world option" where
  "if_cancelled p w = (if ap_cancelled (mw_playback w p) then Some (goto p (PlaybackFailed ContextCanceled) w) else None)"

text \<open>The second critical section of \<open>ensureExclusivePlayback\<close>.\<close>

definition commitExclusive :: "stream_state \<Rightarrow> bytes \<Rightarrow> nat \<Rightarrow> media_attachment \<Rightarrow> media_world \<Rightarrow> media_world" where
  "commitExclusive s frame p a w =
     (if mr_active (mw_rt w) \<noteq> Some p \<or> mr_attachment (mw_rt w) \<noteq> Some a
      then goto p (Releasing a (PlaybackFailed ContextCanceled)) w
      else let old = mr_exclusiveAttachment (mw_rt w);
               released = (if old \<noteq> None \<and> old \<noteq> Some a then old else None);
               w1 = upd_playback p (\<lambda>x. snd (setExclusiveHeld True x))
                      (upd_rt (\<lambda>r. r\<lparr>mr_exclusiveAttachment := Some a\<rparr>) w)
           in goto p (releasing released (after_exclusive s frame a)) w1)"

definition releaseExclusivePlayback :: "nat \<Rightarrow> media_world \<Rightarrow> media_world" where
  "releaseExclusivePlayback p w =
     (if \<not> ap_exclusiveHeld (mw_playback w p) then goto p CloseDone w
      else let attachment = mr_exclusiveAttachment (mw_rt w);
               w1 = upd_playback p (\<lambda>x. snd (setExclusiveHeld False x))
                      (upd_rt (\<lambda>r. r\<lparr>mr_exclusiveAttachment := None\<rparr>) w)
           in goto p (releasing attachment CloseDone) w1)"

text \<open>
  One step of \<open>runPlayback\<close> and of what it calls (\<open>playItem\<close>, \<open>streamMediaAudio\<close>, \<open>waitForAttachment\<close>,
  \<open>ensureExclusivePlayback\<close>, \<open>waitMediaSentenceEnd\<close>); \<open>None\<close> when the goroutine cannot take it. A goroutine that waits for
  a change of attachments or of the pause may look again at any moment, which is harmless.
\<close>

fun runner_step :: "(gotext \<Rightarrow> gotext option) \<Rightarrow> int \<Rightarrow> media_env \<Rightarrow> nat \<Rightarrow> runner \<Rightarrow> media_world \<Rightarrow> media_world option" where
  "runner_step url_path nowMs env p (PauseCheck k) w =
     Some (if ap_paused (mw_playback w p) then goto p (PauseBlocked k) w else goto p (after_pause k) w)"
| "runner_step url_path nowMs env p (PauseBlocked k) w =
     (case env of
        EnvCancelled \<Rightarrow> if_cancelled p w
      | EnvWoken \<Rightarrow> Some (goto p (PauseCheck k) w)
      | _ \<Rightarrow> None)"
| "runner_step url_path nowMs env p (PrepareTrack index) w =
     (case prepareTrack nowMs p index w of
        (None, w1) \<Rightarrow> Some (goto p ReleaseExclusive w1)
      | (Some item, w1) \<Rightarrow> Some (goto p (OpenSource index item) w1))"
| "runner_step url_path nowMs env p (OpenSource index item) w =
     (case openSource_check (pi_Source item) of
        Some e \<Rightarrow> Some (goto p (PlaybackFailed e) w)
      | None \<Rightarrow>
          (case env of
             EnvOpened (Some e) \<Rightarrow> Some (goto p (PlaybackFailed e) w)
           | EnvOpened None \<Rightarrow>
               Some (goto p (PauseCheck (ToReceive \<lparr>sm_index = index,
                 sm_text = play_text (deriveMediaTitle url_path (pi_Source item)), sm_startedOn = None,
                 sm_enqueued = False, sm_frameMs = currentFrameDurationMs w\<rparr>)) w)
           | _ \<Rightarrow> None))"
| "runner_step url_path nowMs env p (ReceiveFrame s) w =
     (case env of
        EnvCancelled \<Rightarrow> if_cancelled p w
      | EnvFrame frame \<Rightarrow>
          Some (goto p (PauseCheck (if frame = [] then ToReceive s else ToAttach s frame)) w)
      | EnvStreamClosed \<Rightarrow> Some (goto p (if \<not> sm_enqueued s then AdvanceTrack (sm_index s) else SentenceEnd s) w)
      | _ \<Rightarrow> None)"
| "runner_step url_path nowMs env p (AwaitAttachment s frame) w =
     (if mr_active (mw_rt w) \<noteq> Some p then Some (goto p (PlaybackFailed ContextCanceled) w)
      else case mr_attachment (mw_rt w) of
        Some a \<Rightarrow> Some (goto p (CheckExclusive s frame a) w)
      | None \<Rightarrow> (case env of EnvCancelled \<Rightarrow> if_cancelled p w | _ \<Rightarrow> None))"
| "runner_step url_path nowMs env p (CheckExclusive s frame a) w =
     Some (if mr_active (mw_rt w) = Some p \<and> mr_exclusiveAttachment (mw_rt w) = Some a \<and> ap_exclusiveHeld (mw_playback w p)
           then goto p (after_exclusive s frame a) w else goto p (BeginExclusive s frame a) w)"
| "runner_step url_path nowMs env p (BeginExclusive s frame a) w =
     (case env of
        EnvInterrupted verdict \<Rightarrow>
          (case BeginExclusiveMediaPlayback verdict a w of
             (None, w1) \<Rightarrow> Some (goto p (ExclusiveBegun s frame a) w1)
           | (Some e, w1) \<Rightarrow>
               if e = ContextCanceled then Some (goto p (PlaybackFailed e) w1)
               else Some (output_failed nowMs p a (PauseCheck (ToAttach s frame)) w1))
      | _ \<Rightarrow> None)"
| "runner_step url_path nowMs env p (ExclusiveBegun s frame a) w = Some (commitExclusive s frame p a w)"
| "runner_step url_path nowMs env p (SendSentenceStart s frame a) w =
     (case env of
        EnvSent None \<Rightarrow>
          Some (goto p (SendAudioFrame (s\<lparr>sm_startedOn := Some a\<rparr>) frame a) (media_log p a (SentenceStartOut (sm_text s)) w))
      | EnvSent (Some e) \<Rightarrow> Some (output_failed nowMs p a (PauseCheck (ToAttach s frame)) w)
      | _ \<Rightarrow> None)"
| "runner_step url_path nowMs env p (SendAudioFrame s frame a) w =
     (case env of
        EnvSent None \<Rightarrow> Some (goto p (CountFrame (s\<lparr>sm_enqueued := True\<rparr>)) (media_log p a (FrameOut frame) w))
      | EnvSent (Some e) \<Rightarrow> Some (output_failed nowMs p a (PauseCheck (ToAttach s frame)) w)
      | _ \<Rightarrow> None)"
| "runner_step url_path nowMs env p (CountFrame s) w =
     Some (goto p (PauseCheck (ToReceive s)) (incrementPlaybackPosition nowMs p (sm_frameMs s) w))"
| "runner_step url_path nowMs env p (SentenceEnd s) w =
     (if mr_active (mw_rt w) \<noteq> Some p then Some (goto p (AdvanceTrack (sm_index s)) w)
      else case mr_attachment (mw_rt w) of
        None \<Rightarrow> Some (goto p (AdvanceTrack (sm_index s)) w)
      | Some a \<Rightarrow> Some (goto p (SendSentenceEnd s a) w))"
| "runner_step url_path nowMs env p (SendSentenceEnd s a) w =
     (case env of
        EnvSent None \<Rightarrow> Some (goto p (AwaitSentenceEnd s) (media_log p a (SentenceEndOut (sm_text s)) w))
      | EnvSent (Some e) \<Rightarrow> Some (output_failed nowMs p a (PlaybackFailed e) w)
      | _ \<Rightarrow> None)"
| "runner_step url_path nowMs env p (AwaitSentenceEnd s) w =
     (case env of
        EnvEnded None \<Rightarrow> Some (goto p (AdvanceTrack (sm_index s)) w)
      | EnvEnded (Some e) \<Rightarrow> Some (goto p (PlaybackFailed e) w)
      | EnvCancelled \<Rightarrow> if_cancelled p w
      | _ \<Rightarrow> None)"
| "runner_step url_path nowMs env p (AdvanceTrack index) w =
     (case advanceAfterTrack nowMs p index w of
        (None, w1) \<Rightarrow> Some (goto p ReleaseExclusive w1)
      | (Some nextIndex, w1) \<Rightarrow> Some (goto p (PauseCheck (ToPrepare nextIndex)) w1))"
| "runner_step url_path nowMs env p (PlaybackFailed e) w =
     Some (goto p ReleaseExclusive
       (if e = ContextCanceled then markPlaybackStopped nowMs p StatusStopped w else markPlaybackError nowMs p e w))"
| "runner_step url_path nowMs env p ReleaseExclusive w = Some (releaseExclusivePlayback p w)"
| "runner_step url_path nowMs env p CloseDone w = Some (goto p RunnerFinished (upd_playback p closeDone w))"
| "runner_step url_path nowMs env p (Releasing a r) w = Some (goto p r (EndExclusiveMediaPlayback a w))"
| "runner_step url_path nowMs env p NotStarted w = None"
| "runner_step url_path nowMs env p RunnerFinished w = None"

text \<open>\<open>go r.runPlayback(active)\<close>: the goroutine starts at the index the runtime has for it.\<close>

definition startRunner :: "nat \<Rightarrow> media_world \<Rightarrow> media_world" where
  "startRunner p w =
     (let index = currentIndexForActive p w
      in goto p (if index \<ge> 0 then PauseCheck (ToPrepare index) else ReleaseExclusive) w)"

text \<open>The remaining work of a caller. \<open>stopOldPlayback\<close> also waits for the old goroutine, but for two seconds at most.\<close>

fun run_task :: "(gotext \<Rightarrow> gotext option) \<Rightarrow> int \<Rightarrow> (nat \<Rightarrow> nat) \<Rightarrow> media_task \<Rightarrow> media_world \<Rightarrow> media_world" where
  "run_task url_path nowMs nano (ReleaseTask a) w = EndExclusiveMediaPlayback a w"
| "run_task url_path nowMs nano (StopTask p) w = upd_playback p (\<lambda>x. x\<lparr>ap_cancelled := True\<rparr>) w"
| "run_task url_path nowMs nano (SpawnTask p) w = startRunner p w"
| "run_task url_path nowMs nano RecoverTask w =
     snd (RecoverPlayback url_path nowMs nano (currentAudioConfig w) TriggerAttach w)"

subsection \<open>Everything that can happen\<close>

text \<open>
  An event is one critical section of some goroutine, or one step outside of them. A call that takes the lock several
  times is several events, with whatever it has read before as arguments, so that no assumption is made about what
  comes between them.
\<close>

datatype media_event =
    AttachEvent bool nat
  | DetachEvent nat bool
  | StandaloneEvent "playlist_item list" nat audio_config
  | PlaylistEvent gotext "playlist_item list" nat audio_config
  | PauseEvent bool pause_reason
  | RecoverEvent
  | ClearResumeEvent
  | StopEvent
  | RefreshEvent
  | AppendEvent nat gotext media_source
  | CommitAppendEvent gotext int media_source "playlist_item list"
  | FailureEvent nat media_attachment
  | TaskEvent "nat \<Rightarrow> nat" nat
  | RunnerEvent media_env nat

definition media_exec :: "(gotext \<Rightarrow> gotext option) \<Rightarrow> int \<Rightarrow> media_event \<Rightarrow> media_world \<Rightarrow> media_world option" where
  "media_exec url_path nowMs ev w =
     (case ev of
        AttachEvent usable session \<Rightarrow> Some (attachSession usable session w)
      | DetachEvent session preserve \<Rightarrow> Some (detachSession nowMs session preserve w)
      | StandaloneEvent items i cfg \<Rightarrow> if i < length items then Some (start_standalone nowMs items i cfg w) else None
      | PlaylistEvent agentID snapshot i cfg \<Rightarrow>
          if i < length snapshot then Some (start_agent_playlist nowMs agentID snapshot i cfg w) else None
      | PauseEvent requireActive reason \<Rightarrow> Some (snd (pausePlayback nowMs requireActive reason w))
      | RecoverEvent \<Rightarrow> Some (snd (recoverActivePlayback nowMs w))
      | ClearResumeEvent \<Rightarrow> Some (clearResumeOnAttach w)
      | StopEvent \<Rightarrow> Some (media_Stop nowMs w)
      | RefreshEvent \<Rightarrow> Some (refreshPublicStateLocked w)
      | AppendEvent nano agentID source \<Rightarrow> Some (snd (appendToAgentPlaylist url_path nowMs nano agentID source w))
      | CommitAppendEvent agentID i source snapshot \<Rightarrow> Some (append_commit nowMs agentID i source snapshot w)
      | FailureEvent p a \<Rightarrow>
          (case handleAttachmentFailure nowMs p a w of (released, w1) \<Rightarrow> Some (add_tasks (after_release released) w1))
      | TaskEvent nano i \<Rightarrow>
          if i < length (mw_tasks w) then
            (case mw_tasks w ! i of
               [] \<Rightarrow> None
             | t # ts \<Rightarrow> Some (run_task url_path nowMs nano t (w\<lparr>mw_tasks := (mw_tasks w)[i := ts]\<rparr>)))
          else None
      | RunnerEvent env p \<Rightarrow>
          if p < mw_playbacks w then runner_step url_path nowMs env p (mw_runner w p) w else None)"

fun media_run :: "(gotext \<Rightarrow> gotext option) \<Rightarrow> (int \<times> media_event) list \<Rightarrow> media_world \<Rightarrow> media_world option" where
  "media_run url_path [] w = Some w"
| "media_run url_path ((nowMs, ev) # evs) w =
     (case media_exec url_path nowMs ev w of None \<Rightarrow> None | Some w1 \<Rightarrow> media_run url_path evs w1)"

definition newDeviceMediaRuntime :: "int \<Rightarrow> media_runtime" where
  "newDeviceMediaRuntime nowMs =
     \<lparr>mr_state = \<lparr>ps_Status = StatusIdle, ps_Playlist = [], ps_CurrentIndex = -1, ps_CurrentTitle = [],
        ps_CurrentSourceType = '''', ps_PositionMs = 0, ps_UpdatedAt = nowMs, ps_ErrMsg = None\<rparr>,
      mr_mode = ModeUnset, mr_playlistAgentID = [], mr_standaloneItems = [], mr_playbackIndex = -1,
      mr_audioConfig = \<lparr>ac_SampleRate = 0, ac_FrameDuration = 0\<rparr>, mr_currentSource = None, mr_active = None,
      mr_pauseReason = PauseReasonNone, mr_attachment = None, mr_resumeOnAttach = False, mr_exclusiveAttachment = None\<rparr>"

text \<open>The beginning: a new runtime, any playlists, no playback yet, no session's output taken.\<close>

definition media_start :: "int \<Rightarrow> (gotext \<Rightarrow> playlist_item list) \<Rightarrow> media_world" where
  "media_start nowMs playlists =
     \<lparr>mw_playlists = playlists, mw_rt = newDeviceMediaRuntime nowMs, mw_playbacks = 0,
      mw_playback = (\<lambda>_. newActiveMediaPlayback), mw_runner = (\<lambda>_. NotStarted), mw_attachments = 0,
      mw_mediaPlaybackActive = (\<lambda>_. False), mw_tasks = [], mw_sent = []\<rparr>"

end
