(* ===== verification/MediaRuns.thy ===== *)
theory MediaRuns
  imports MediaPlayer
begin

text \<open>
  What holds of the media player along all its runs: the public state agrees with the playback behind it, the output of
  a session is taken exactly while somebody is responsible for giving it back, and a playback that was replaced or
  stopped falls silent. At the end, the two races in which the state the player shows or relies on is wrong.
\<close>

subsection \<open>What the small updates leave alone\<close>

lemma playback_flags [simp]:
  "ap_paused (snd (setPaused b a)) = b" "ap_exclusiveHeld (snd (setPaused b a)) = ap_exclusiveHeld a"
  "ap_paused (snd (setExclusiveHeld b a)) = ap_paused a" "ap_exclusiveHeld (snd (setExclusiveHeld b a)) = b"
  "ap_paused (closeDone a) = ap_paused a" "ap_exclusiveHeld (closeDone a) = ap_exclusiveHeld a"
  by (auto simp: setPaused_def setExclusiveHeld_def closeDone_def)

lemma goto_fields [simp]:
  "mw_rt (goto p r w) = mw_rt w" "mw_playbacks (goto p r w) = mw_playbacks w" "mw_playback (goto p r w) = mw_playback w"
  "mw_tasks (goto p r w) = mw_tasks w" "mw_mediaPlaybackActive (goto p r w) = mw_mediaPlaybackActive w"
  "mw_sent (goto p r w) = mw_sent w" "mw_runner (goto p r w) = (mw_runner w)(p := r)" "mw_playlists (goto p r w) = mw_playlists w"
  by (simp_all add: goto_def)

lemma upd_rt_fields [simp]:
  "mw_rt (upd_rt f w) = f (mw_rt w)" "mw_playbacks (upd_rt f w) = mw_playbacks w" "mw_playback (upd_rt f w) = mw_playback w"
  "mw_tasks (upd_rt f w) = mw_tasks w" "mw_mediaPlaybackActive (upd_rt f w) = mw_mediaPlaybackActive w"
  "mw_sent (upd_rt f w) = mw_sent w" "mw_runner (upd_rt f w) = mw_runner w" "mw_playlists (upd_rt f w) = mw_playlists w"
  by (simp_all add: upd_rt_def)

lemma upd_state_fields [simp]:
  "mw_rt (upd_state f w) = (mw_rt w)\<lparr>mr_state := f (mr_state (mw_rt w))\<rparr>" "mw_playbacks (upd_state f w) = mw_playbacks w"
  "mw_playback (upd_state f w) = mw_playback w" "mw_tasks (upd_state f w) = mw_tasks w"
  "mw_mediaPlaybackActive (upd_state f w) = mw_mediaPlaybackActive w" "mw_sent (upd_state f w) = mw_sent w"
  "mw_runner (upd_state f w) = mw_runner w" "mw_playlists (upd_state f w) = mw_playlists w"
  by (simp_all add: upd_state_def)

lemma upd_playback_fields [simp]:
  "mw_rt (upd_playback p f w) = mw_rt w" "mw_playbacks (upd_playback p f w) = mw_playbacks w"
  "mw_playback (upd_playback p f w) = (mw_playback w)(p := f (mw_playback w p))" "mw_tasks (upd_playback p f w) = mw_tasks w"
  "mw_mediaPlaybackActive (upd_playback p f w) = mw_mediaPlaybackActive w" "mw_sent (upd_playback p f w) = mw_sent w"
  "mw_runner (upd_playback p f w) = mw_runner w" "mw_playlists (upd_playback p f w) = mw_playlists w"
  by (simp_all add: upd_playback_def)

lemma add_tasks_fields [simp]:
  "mw_rt (add_tasks ts w) = mw_rt w" "mw_playbacks (add_tasks ts w) = mw_playbacks w"
  "mw_playback (add_tasks ts w) = mw_playback w" "mw_sent (add_tasks ts w) = mw_sent w"
  "mw_mediaPlaybackActive (add_tasks ts w) = mw_mediaPlaybackActive w"
  "mw_runner (add_tasks ts w) = mw_runner w" "mw_playlists (add_tasks ts w) = mw_playlists w"
  by (simp_all add: add_tasks_def)

lemma output_fields [simp]:
  "mw_rt (EndExclusiveMediaPlayback a w) = mw_rt w" "mw_playbacks (EndExclusiveMediaPlayback a w) = mw_playbacks w"
  "mw_playback (EndExclusiveMediaPlayback a w) = mw_playback w" "mw_tasks (EndExclusiveMediaPlayback a w) = mw_tasks w"
  "mw_sent (EndExclusiveMediaPlayback a w) = mw_sent w" "mw_runner (EndExclusiveMediaPlayback a w) = mw_runner w"
  "mw_mediaPlaybackActive (EndExclusiveMediaPlayback a w) = (mw_mediaPlaybackActive w)(snd a := False)"
  "mw_rt (media_log p a out w) = mw_rt w" "mw_playbacks (media_log p a out w) = mw_playbacks w"
  "mw_playback (media_log p a out w) = mw_playback w" "mw_tasks (media_log p a out w) = mw_tasks w"
  "mw_sent (media_log p a out w) = mw_sent w @ [(p, a, out)]" "mw_runner (media_log p a out w) = mw_runner w"
  "mw_mediaPlaybackActive (media_log p a out w) = mw_mediaPlaybackActive w"
  by (simp_all add: EndExclusiveMediaPlayback_def media_log_def)

subsection \<open>The public state and the playback behind it\<close>

definition player_inv :: "nat \<Rightarrow> (nat \<Rightarrow> bool) \<Rightarrow> media_runtime \<Rightarrow> bool" where
  "player_inv n paused r \<longleftrightarrow>
     (\<forall>p. mr_active r = Some p \<longrightarrow> p < n) \<and>
     (mr_active r \<noteq> None \<longleftrightarrow> ps_Status (mr_state r) \<in> {StatusPlaying, StatusPaused}) \<and>
     (\<forall>p. mr_active r = Some p \<and> ps_Status (mr_state r) = StatusPaused \<longrightarrow> paused p) \<and>
     (mr_pauseReason r \<noteq> PauseReasonNone \<or> mr_resumeOnAttach r \<longrightarrow> (\<exists>p. mr_active r = Some p \<and> paused p)) \<and>
     0 \<le> ps_PositionMs (mr_state r) \<and>
     (mr_active r \<noteq> None \<longrightarrow> mr_currentSource r \<noteq> None) \<and>
     (\<forall>s. mr_currentSource r = Some s \<longrightarrow>
        ps_CurrentTitle (mr_state r) = src_Title s \<and> ps_CurrentSourceType (mr_state r) = src_SourceType s)"

definition media_inv :: "media_world \<Rightarrow> bool" where
  "media_inv w \<longleftrightarrow> player_inv (mw_playbacks w) (\<lambda>p. ap_paused (mw_playback w p)) (mw_rt w)"

lemmas inv_defs = media_inv_def player_inv_def

lemma media_inv_goto [simp]: "media_inv (goto p r w) = media_inv w"
  and media_inv_tasks [simp]: "media_inv (add_tasks ts w) = media_inv w"
  and media_inv_log [simp]: "media_inv (media_log p a out w) = media_inv w"
  and media_inv_end [simp]: "media_inv (EndExclusiveMediaPlayback a w) = media_inv w"
  by (simp_all add: media_inv_def)

lemma media_inv_playback:
  assumes "\<And>a. ap_paused (f a) = ap_paused a"
  shows "media_inv (upd_playback p f w) = media_inv w"
proof -
  have "(\<lambda>q. ap_paused (mw_playback (upd_playback p f w) q)) = (\<lambda>q. ap_paused (mw_playback w q))"
    using assms by auto
  then show ?thesis by (simp only: media_inv_def upd_playback_fields)
qed

lemma media_inv_held [simp]:
  "media_inv (upd_playback p (\<lambda>a. snd (setExclusiveHeld b a)) w) = media_inv w"
  "media_inv (upd_playback p (ap_cancelled_update c) w) = media_inv w"
  "media_inv (upd_playback p closeDone w) = media_inv w"
  by (simp_all add: media_inv_playback)

lemma media_inv_exclusive [simp]: "media_inv (upd_rt (mr_exclusiveAttachment_update f) w) = media_inv w"
  and media_inv_attachment [simp]: "media_inv (upd_rt (mr_attachment_update g) w) = media_inv w"
  by (simp_all add: inv_defs)

lemma refresh_inv [simp]: "media_inv (refreshPublicStateLocked w) = media_inv w"
  by (auto simp: refreshPublicStateLocked_def inv_defs Let_def split: playback_mode.splits)

lemma start_standalone_inv [step_inv]: "media_inv w \<Longrightarrow> media_inv (start_standalone nowMs items i cfg w)"
  by (auto simp: start_standalone_def replaceActivePlaybackLocked_def inv_defs Let_def split: option.splits)

lemma start_agent_inv [step_inv]: "media_inv w \<Longrightarrow> media_inv (start_agent_playlist nowMs agent items i cfg w)"
  by (auto simp: start_agent_playlist_def replaceActivePlaybackLocked_def inv_defs Let_def split: option.splits)

lemma Stop_inv [step_inv]: "media_inv w \<Longrightarrow> media_inv (media_Stop nowMs w)"
  by (auto simp: media_Stop_def inv_defs Let_def split: option.splits)

lemma pause_inv [step_inv]: "media_inv w \<Longrightarrow> media_inv (snd (pausePlayback nowMs b reason w))"
  by (auto simp: pausePlayback_def inv_defs Let_def split: option.splits)

lemma recover_inv [step_inv]: "media_inv w \<Longrightarrow> media_inv (snd (recoverActivePlayback nowMs w))"
  by (auto simp: recoverActivePlayback_def inv_defs setPaused_def Let_def split: option.splits if_splits)

lemma clearResume_inv [step_inv]: "media_inv w \<Longrightarrow> media_inv (clearResumeOnAttach w)"
  by (auto simp: clearResumeOnAttach_def inv_defs)

lemma attach_inv [step_inv]: "media_inv w \<Longrightarrow> media_inv (attachSession usable session w)"
  by (auto simp: attachSession_def attach_new_def inv_defs Let_def split: option.splits)

lemma detach_inv [step_inv]: "media_inv w \<Longrightarrow> media_inv (detachSession nowMs session preserve w)"
  by (auto simp: detachSession_def inv_defs Let_def split: option.splits)

lemma failure_inv [step_inv]: "media_inv w \<Longrightarrow> media_inv (snd (handleAttachmentFailure nowMs p a w))"
  by (auto simp: handleAttachmentFailure_def inv_defs Let_def)

lemma append_inv [step_inv]: "media_inv w \<Longrightarrow> media_inv (snd (appendToAgentPlaylist up nowMs nano agent source w))"
  by (auto simp: appendToAgentPlaylist_def inv_defs Let_def)

lemma commit_append_inv [step_inv]: "media_inv w \<Longrightarrow> media_inv (append_commit nowMs agent i source items w)"
  by (auto simp: append_commit_def inv_defs)

lemma prepare_inv [step_inv]: "media_inv w \<Longrightarrow> media_inv (snd (prepareTrack nowMs p i w))"
  by (auto simp: prepareTrack_def Let_def) (auto simp: inv_defs)

lemma advance_inv [step_inv]: "media_inv w \<Longrightarrow> media_inv (snd (advanceAfterTrack nowMs p i w))"
  by (auto simp: advanceAfterTrack_def Let_def) (auto simp: inv_defs)

lemma mark_inv [step_inv]:
  "media_inv w \<Longrightarrow> media_inv (markPlaybackError nowMs p e w)"
  "media_inv w \<Longrightarrow> media_inv (markPlaybackStopped nowMs p StatusStopped w)"
  by (auto simp: markPlaybackError_def markPlaybackStopped_def) (auto simp: inv_defs)

lemma position_inv [step_inv]: "media_inv w \<Longrightarrow> media_inv (incrementPlaybackPosition nowMs p ms w)"
  by (auto simp: incrementPlaybackPosition_def inv_defs)

lemma begin_inv:
  "BeginExclusiveMediaPlayback v a w = (res, w1) \<Longrightarrow> media_inv w1 = media_inv w"
  by (auto simp: BeginExclusiveMediaPlayback_def Let_def media_inv_def split: if_splits option.splits)

lemma output_failed_inv [step_inv]: "media_inv w \<Longrightarrow> media_inv (output_failed nowMs p a r w)"
  using failure_inv [of w nowMs p a] by (simp add: output_failed_def case_prod_beta)

lemma exclusive_inv [step_inv]:
  "media_inv w \<Longrightarrow> media_inv (commitExclusive s frame p a w)"
  "media_inv w \<Longrightarrow> media_inv (releaseExclusivePlayback p w)"
  by (simp_all add: commitExclusive_def releaseExclusivePlayback_def Let_def)

lemma if_cancelled_inv: "if_cancelled p w = Some w' \<Longrightarrow> media_inv w' = media_inv w"
  by (auto simp: if_cancelled_def split: if_splits)

lemma runner_step_inv:
  assumes "runner_step up nowMs env p r w = Some w'" "media_inv w"
  shows "media_inv w'"
proof (cases r)
  case (PrepareTrack i)
  then show ?thesis using assms prepare_inv [OF assms(2), of nowMs p i] by (auto split: prod.splits option.splits)
next
  case (AdvanceTrack i)
  then show ?thesis using assms advance_inv [OF assms(2), of nowMs p i] by (auto split: prod.splits option.splits)
next
  case (BeginExclusive s frame a)
  then show ?thesis
    using assms by (auto split: media_env.splits prod.splits option.splits if_splits dest: begin_inv intro!: output_failed_inv)
qed (use assms in \<open>auto split: media_env.splits option.splits if_splits dest: if_cancelled_inv intro!: step_inv\<close>)

lemma PlayAgentPlaylistIndex_inv: "media_inv w \<Longrightarrow> media_inv (snd (PlayAgentPlaylistIndex nowMs agent i cfg w))"
  by (simp add: PlayAgentPlaylistIndex_def Let_def start_agent_inv)

lemma ReplaceStandalone_inv:
  "media_inv w \<Longrightarrow> media_inv (snd (ReplaceStandaloneQueueAndPlayWithHandle up nowMs nano sources i cfg w))"
  by (simp add: ReplaceStandaloneQueueAndPlayWithHandle_def start_standalone_inv Stop_inv)

lemma RecoverPlayback_inv: "media_inv w \<Longrightarrow> media_inv (snd (RecoverPlayback up nowMs nano cfg trigger w))"
  by (auto simp: RecoverPlayback_def Let_def split: option.splits playback_mode.splits
      intro!: recover_inv clearResume_inv PlayAgentPlaylistIndex_inv ReplaceStandalone_inv)

lemma run_task_inv [step_inv]: "media_inv w \<Longrightarrow> media_inv (run_task up nowMs nano t w)"
  by (cases t) (simp_all add: startRunner_def Let_def RecoverPlayback_inv)

lemma media_inv_set_tasks [simp]: "media_inv (w\<lparr>mw_tasks := ts\<rparr>) = media_inv w"
  by (simp add: media_inv_def)

lemma media_exec_inv:
  assumes "media_exec up nowMs ev w = Some w'" "media_inv w"
  shows "media_inv w'"
proof (cases ev)
  case (RunnerEvent env p)
  then show ?thesis using assms runner_step_inv [OF _ assms(2)] by (auto simp: media_exec_def split: if_splits)
next
  case (FailureEvent p a)
  then show ?thesis
    using assms failure_inv [OF assms(2), of nowMs p a] by (auto simp: media_exec_def case_prod_beta)
qed (use assms in \<open>auto simp: media_exec_def split: if_splits list.splits intro!: step_inv\<close>)

lemma media_run_invariant:
  assumes "\<And>nowMs ev w w'. media_exec up nowMs ev w = Some w' \<Longrightarrow> P w \<Longrightarrow> P w'"
    "media_run up evs w = Some w'" "P w"
  shows "P w'"
  using assms(2,3)
proof (induction evs arbitrary: w)
  case (Cons tev evs)
  obtain t ev where tev: "tev = (t, ev)" by fastforce
  obtain w1 where "media_exec up t ev w = Some w1" "media_run up evs w1 = Some w'"
    using Cons.prems(1) by (auto simp: tev split: option.splits)
  then show ?case using Cons.IH Cons.prems(2) assms(1) by blast
qed simp

lemma media_run_inv: "media_run up evs w = Some w' \<Longrightarrow> media_inv w \<Longrightarrow> media_inv w'"
  by (rule media_run_invariant [where P = media_inv]) (rule media_exec_inv)

lemma media_start_inv: "media_inv (media_start nowMs playlists)"
  by (simp add: media_start_def newDeviceMediaRuntime_def inv_defs)

subsection \<open>Who has to give the output back\<close>

text \<open>
  The output of a session is taken by a successful \<open>BeginExclusiveMediaPlayback\<close>, and whoever took it is responsible for
  giving it back: a goroutine that has not yet told the runtime, the runtime (\<open>exclusiveAttachment\<close>), or a release that is
  on its way. \<open>tokens s\<close> counts them.
\<close>

definition att_token :: "nat \<Rightarrow> media_attachment option \<Rightarrow> int" where
  "att_token s a = (case a of None \<Rightarrow> 0 | Some a \<Rightarrow> of_bool (snd a = s))"

fun task_token :: "nat \<Rightarrow> media_task \<Rightarrow> int" where
  "task_token s (ReleaseTask a) = of_bool (snd a = s)"
| "task_token s _ = 0"

fun runner_token :: "nat \<Rightarrow> runner \<Rightarrow> int" where
  "runner_token s (ExclusiveBegun _ _ a) = of_bool (snd a = s)"
| "runner_token s (Releasing a r) = of_bool (snd a = s) + runner_token s r"
| "runner_token s _ = 0"

definition task_tokens :: "nat \<Rightarrow> media_task list list \<Rightarrow> int" where
  "task_tokens s tss = sum_list (map (\<lambda>ts. sum_list (map (task_token s) ts)) tss)"

definition runner_tokens :: "nat \<Rightarrow> media_world \<Rightarrow> int" where
  "runner_tokens s w = (\<Sum>p < mw_playbacks w. runner_token s (mw_runner w p))"

definition tokens :: "nat \<Rightarrow> media_world \<Rightarrow> int" where
  "tokens s w = task_tokens s (mw_tasks w) + att_token s (mr_exclusiveAttachment (mw_rt w)) + runner_tokens s w"

definition token_inv :: "media_world \<Rightarrow> bool" where
  "token_inv w \<longleftrightarrow> (\<forall>s. tokens s w = of_bool (mw_mediaPlaybackActive w s))"

fun spawn_of :: "media_task \<Rightarrow> nat list" where
  "spawn_of (SpawnTask p) = [p]"
| "spawn_of _ = []"

definition spawns :: "media_task list list \<Rightarrow> nat list" where
  "spawns tss = concat (map spawn_of (concat tss))"

definition spawn_inv :: "media_world \<Rightarrow> bool" where
  "spawn_inv w \<longleftrightarrow> distinct (spawns (mw_tasks w)) \<and>
     (\<forall>p \<in> set (spawns (mw_tasks w)). p < mw_playbacks w \<and> mw_runner w p = NotStarted)"

text \<open>A goroutine that will still come to its \<open>releaseExclusivePlayback\<close>.\<close>

fun will_release :: "runner \<Rightarrow> bool" where
  "will_release NotStarted = False"
| "will_release CloseDone = False"
| "will_release RunnerFinished = False"
| "will_release (Releasing a r) = will_release r"
| "will_release _ = True"

definition held_inv :: "media_world \<Rightarrow> bool" where
  "held_inv w \<longleftrightarrow> (mr_exclusiveAttachment (mw_rt w) \<noteq> None \<longrightarrow>
     (\<exists>p < mw_playbacks w. ap_exclusiveHeld (mw_playback w p) \<and> will_release (mw_runner w p)))"

lemma sum_fun_upd:
  fixes g :: "'a \<Rightarrow> int" and n :: nat
  assumes "p < n"
  shows "(\<Sum>i < n. g ((f(p := x)) i)) = (\<Sum>i < n. g (f i)) - g (f p) + g x"
proof -
  have "(\<Sum>i < n. g ((f(p := x)) i)) = g x + (\<Sum>i \<in> {..<n} - {p}. g (f i))"
    using assms by (subst sum.remove [of _ p]) auto
  moreover have "(\<Sum>i < n. g (f i)) = g (f p) + (\<Sum>i \<in> {..<n} - {p}. g (f i))"
    using assms by (subst sum.remove [of _ p]) auto
  ultimately show ?thesis by simp
qed

lemma tokens_simps [simp]:
  "att_token s None = 0" "att_token s (Some a) = of_bool (snd a = s)"
  "task_tokens s [] = 0" "task_tokens s (tss @ [ts]) = task_tokens s tss + sum_list (map (task_token s) ts)"
  by (simp_all add: att_token_def task_tokens_def)

lemma add_tasks_tokens [simp]:
  "task_tokens s (mw_tasks (add_tasks ts w)) = task_tokens s (mw_tasks w) + sum_list (map (task_token s) ts)"
  by (simp add: add_tasks_def)

lemma after_tokens [simp]:
  "sum_list (map (task_token s) (after_release a)) = att_token s a"
  "sum_list (map (task_token s) (stopOldPlayback p)) = 0"
  by (simp_all add: after_release_def stopOldPlayback_def split: option.splits)

lemma goto_tokens: "p < mw_playbacks w \<Longrightarrow>
   tokens s (goto p r w) = tokens s w - runner_token s (mw_runner w p) + runner_token s r"
  using sum_fun_upd [of p "mw_playbacks w" "runner_token s" "mw_runner w" r]
  by (simp add: tokens_def runner_tokens_def)

lemma tokens_cong:
  assumes "mr_exclusiveAttachment (mw_rt w') = mr_exclusiveAttachment (mw_rt w)" "mw_tasks w' = mw_tasks w"
    "mw_playbacks w' = mw_playbacks w" "mw_runner w' = mw_runner w"
  shows "tokens s w' = tokens s w"
  using assms by (simp add: tokens_def runner_tokens_def)

lemma runner_tokens_new [simp]:
  "(\<Sum>p < n. runner_token s (if p = n then r else f p)) = (\<Sum>p < (n::nat). runner_token s (f p))"
  by (rule sum.cong) auto

lemma spawns_simps [simp]:
  "spawns [] = []" "spawns (tss @ [ts]) = spawns tss @ concat (map spawn_of ts)"
  by (simp_all add: spawns_def)

lemma add_tasks_spawns [simp]:
  "spawns (mw_tasks (add_tasks ts w)) = spawns (mw_tasks w) @ concat (map spawn_of ts)"
  by (simp add: add_tasks_def)

lemma after_spawns [simp]:
  "concat (map spawn_of (after_release a)) = []" "concat (map spawn_of (stopOldPlayback p)) = []"
  by (cases a; simp add: after_release_def) (cases p; simp add: stopOldPlayback_def)

definition output_inv :: "media_world \<Rightarrow> bool" where
  "output_inv w \<longleftrightarrow> token_inv w \<and> spawn_inv w \<and> held_inv w"

lemmas output_defs = output_inv_def token_inv_def spawn_inv_def held_inv_def tokens_def runner_tokens_def

named_theorems output_steps \<open>an event keeps the accounting of the outputs\<close>

lemma start_standalone_output [output_steps]: "output_inv w \<Longrightarrow> output_inv (start_standalone nowMs items i cfg w)"
  by (auto simp: start_standalone_def replaceActivePlaybackLocked_def output_defs Let_def split: option.splits)

lemma start_agent_output [output_steps]: "output_inv w \<Longrightarrow> output_inv (start_agent_playlist nowMs agent items i cfg w)"
  by (auto simp: start_agent_playlist_def replaceActivePlaybackLocked_def output_defs Let_def split: option.splits)

text \<open>An event outside the goroutines moves a token at most from the runtime to a release under way.\<close>

lemma output_keep:
  assumes "output_inv w" "\<And>s. tokens s w' = tokens s w" "mw_mediaPlaybackActive w' = mw_mediaPlaybackActive w"
    "spawns (mw_tasks w') = spawns (mw_tasks w)" "mw_playbacks w' = mw_playbacks w" "mw_runner w' = mw_runner w"
    "mr_exclusiveAttachment (mw_rt w') = None \<or> mr_exclusiveAttachment (mw_rt w') = mr_exclusiveAttachment (mw_rt w) \<and>
      (\<forall>p. ap_exclusiveHeld (mw_playback w' p) = ap_exclusiveHeld (mw_playback w p))"
  shows "output_inv w'"
  using assms by (auto simp: output_inv_def token_inv_def spawn_inv_def held_inv_def)

lemmas token_defs = tokens_def runner_tokens_def

lemma Stop_output [output_steps]: "output_inv w \<Longrightarrow> output_inv (media_Stop nowMs w)"
  by (erule output_keep) (simp_all add: media_Stop_def token_defs Let_def split: option.splits)

lemma pause_output [output_steps]: "output_inv w \<Longrightarrow> output_inv (snd (pausePlayback nowMs b reason w))"
  by (erule output_keep) (simp_all add: pausePlayback_def token_defs Let_def split: option.splits)

lemma recover_output [output_steps]: "output_inv w \<Longrightarrow> output_inv (snd (recoverActivePlayback nowMs w))"
  by (erule output_keep) (simp_all add: recoverActivePlayback_def setPaused_def token_defs Let_def split: option.splits)

lemma clearResume_output [output_steps]: "output_inv w \<Longrightarrow> output_inv (clearResumeOnAttach w)"
  by (erule output_keep) (simp_all add: clearResumeOnAttach_def token_defs)

lemma refresh_output [output_steps]: "output_inv w \<Longrightarrow> output_inv (refreshPublicStateLocked w)"
  by (erule output_keep) (simp_all add: refreshPublicStateLocked_def token_defs Let_def split: playback_mode.splits)

lemma attach_output [output_steps]: "output_inv w \<Longrightarrow> output_inv (attachSession usable session w)"
  by (erule output_keep) (simp_all add: attachSession_def attach_new_def token_defs Let_def split: option.splits)

lemma detach_output [output_steps]: "output_inv w \<Longrightarrow> output_inv (detachSession nowMs session preserve w)"
  by (erule output_keep) (auto simp: detachSession_def token_defs Let_def split: option.splits)

lemma append_output [output_steps]: "output_inv w \<Longrightarrow> output_inv (snd (appendToAgentPlaylist up nowMs nano agent source w))"
  by (erule output_keep) (simp_all add: appendToAgentPlaylist_def token_defs Let_def)

lemma commit_append_output [output_steps]: "output_inv w \<Longrightarrow> output_inv (append_commit nowMs agent i source items w)"
  by (erule output_keep) (simp_all add: append_commit_def token_defs)

lemma failure_output:
  assumes "output_inv w"
  shows "output_inv (add_tasks (after_release (fst (handleAttachmentFailure nowMs p a w))) (snd (handleAttachmentFailure nowMs p a w)))"
  by (rule output_keep [OF assms]) (simp_all add: handleAttachmentFailure_def token_defs Let_def)

lemma output_runner:
  assumes inv: "output_inv w" and p: "p < mw_playbacks w" "mw_runner w p \<noteq> NotStarted"
    and same: "mw_tasks w' = mw_tasks w" "mw_playbacks w' = mw_playbacks w" "mw_runner w' = (mw_runner w)(p := r)"
    and tok: "\<And>s. att_token s (mr_exclusiveAttachment (mw_rt w')) + runner_token s r + of_bool (mw_mediaPlaybackActive w s)
      = att_token s (mr_exclusiveAttachment (mw_rt w)) + runner_token s (mw_runner w p) + of_bool (mw_mediaPlaybackActive w' s)"
    and held: "mr_exclusiveAttachment (mw_rt w') = None \<or> ap_exclusiveHeld (mw_playback w' p) \<and> will_release r \<or>
      mr_exclusiveAttachment (mw_rt w') = mr_exclusiveAttachment (mw_rt w) \<and>
      (\<forall>q. ap_exclusiveHeld (mw_playback w' q) = ap_exclusiveHeld (mw_playback w q)) \<and>
      (will_release (mw_runner w p) \<and> ap_exclusiveHeld (mw_playback w p) \<longrightarrow> will_release r)"
  shows "output_inv w'"
  unfolding output_inv_def
proof (intro conjI)
  have "tokens s w' = of_bool (mw_mediaPlaybackActive w' s)" for s
  proof -
    have "tokens s w' = task_tokens s (mw_tasks w) + att_token s (mr_exclusiveAttachment (mw_rt w')) +
        (runner_tokens s w - runner_token s (mw_runner w p) + runner_token s r)"
      using sum_fun_upd [OF p(1), of "runner_token s" "mw_runner w" r] same
      by (simp add: tokens_def runner_tokens_def del: fun_upd_apply)
    moreover have "task_tokens s (mw_tasks w) + att_token s (mr_exclusiveAttachment (mw_rt w)) + runner_tokens s w
        = of_bool (mw_mediaPlaybackActive w s)"
      using inv by (simp add: output_inv_def token_inv_def tokens_def)
    ultimately show ?thesis using tok [of s] by linarith
  qed
  then show "token_inv w'" by (simp add: token_inv_def)
  show "spawn_inv w'" using inv p same by (auto simp: output_inv_def spawn_inv_def)
  show "held_inv w'"
    using inv held p same by (auto simp: output_inv_def held_inv_def)
qed

lemma output_goto:
  assumes "output_inv w" "p < mw_playbacks w" "mw_runner w p \<noteq> NotStarted"
    "\<And>s. runner_token s r = runner_token s (mw_runner w p)" "will_release (mw_runner w p) \<Longrightarrow> will_release r"
  shows "output_inv (goto p r w)"
  using assms by (intro output_runner [OF assms(1-3), where r = r]) auto

lemma output_log [simp]: "output_inv (media_log p a out w) = output_inv w"
  by (simp add: output_defs)

lemma after_pause_simps [simp]: "runner_token s (after_pause k) = 0" "will_release (after_pause k)"
  by (cases k; simp)+

text \<open>Steps that only touch what the player shows.\<close>

definition quiet :: "media_world \<Rightarrow> media_world \<Rightarrow> bool" where
  "quiet w w' \<longleftrightarrow> mw_tasks w' = mw_tasks w \<and> mw_playbacks w' = mw_playbacks w \<and> mw_runner w' = mw_runner w \<and>
     mw_mediaPlaybackActive w' = mw_mediaPlaybackActive w \<and> mw_playback w' = mw_playback w \<and> mw_sent w' = mw_sent w \<and>
     mr_exclusiveAttachment (mw_rt w') = mr_exclusiveAttachment (mw_rt w)"

lemma refresh_quiet [simp]: "quiet w (refreshPublicStateLocked w') = quiet w w'"
  by (auto simp: quiet_def refreshPublicStateLocked_def Let_def split: playback_mode.splits)

lemma track_quiet:
  "quiet w (snd (prepareTrack nowMs p i w))" "quiet w (snd (advanceAfterTrack nowMs p i w))"
  "quiet w (markPlaybackError nowMs p e w)" "quiet w (markPlaybackStopped nowMs p st w)"
  "quiet w (incrementPlaybackPosition nowMs p ms w)"
  by (simp_all add: prepareTrack_def advanceAfterTrack_def markPlaybackError_def markPlaybackStopped_def
      incrementPlaybackPosition_def Let_def) (simp_all add: quiet_def)

lemma quiet_output: "output_inv w \<Longrightarrow> quiet w w' \<Longrightarrow> output_inv w'"
  by (erule output_keep) (simp_all add: quiet_def token_defs)

lemma output_quiet_goto:
  assumes "output_inv w" "p < mw_playbacks w" "mw_runner w p \<noteq> NotStarted" "quiet w w'"
    "\<And>s. runner_token s r = runner_token s (mw_runner w p)" "will_release (mw_runner w p) \<Longrightarrow> will_release r"
  shows "output_inv (goto p r w')"
  using assms quiet_output [OF assms(1,4)] by (intro output_goto) (auto simp: quiet_def)

lemma handle_frame:
  fixes nowMs p a w
  defines "h \<equiv> handleAttachmentFailure nowMs p a w"
  shows "mw_tasks (snd h) = mw_tasks w" "mw_playbacks (snd h) = mw_playbacks w" "mw_runner (snd h) = mw_runner w"
    "mw_mediaPlaybackActive (snd h) = mw_mediaPlaybackActive w" "mw_sent (snd h) = mw_sent w"
    "mr_active (mw_rt (snd h)) = mr_active (mw_rt w)"
    "att_token s (fst h) + att_token s (mr_exclusiveAttachment (mw_rt (snd h))) = att_token s (mr_exclusiveAttachment (mw_rt w))"
    "mr_exclusiveAttachment (mw_rt (snd h)) = None \<or> mr_exclusiveAttachment (mw_rt (snd h)) = mr_exclusiveAttachment (mw_rt w) \<and>
        (\<forall>q. ap_exclusiveHeld (mw_playback (snd h) q) = ap_exclusiveHeld (mw_playback w q))"
  unfolding h_def handleAttachmentFailure_def Let_def by simp_all

lemma releasing_simps [simp]:
  "runner_token s (releasing a r) = att_token s a + runner_token s r"
  "will_release (releasing a r) = will_release r" "releasing a r \<noteq> NotStarted \<longleftrightarrow> a \<noteq> None \<or> r \<noteq> NotStarted"
  by (auto simp: releasing_def split: option.splits)

lemma output_failed_output:
  assumes "output_inv w" "p < mw_playbacks w" "mw_runner w p \<noteq> NotStarted"
    "\<And>s. runner_token s r = runner_token s (mw_runner w p)" "will_release r"
  shows "output_inv (output_failed nowMs p a r w)"
  unfolding output_failed_def case_prod_beta
  by (rule output_runner [OF assms(1-3), where r = "releasing (fst (handleAttachmentFailure nowMs p a w)) r"])
    (use handle_frame [where nowMs = nowMs and p = p and a = a and w = w] assms(4,5) in auto)

lemma token_nonneg: "0 \<le> task_token s t" "0 \<le> runner_token s r"
  by (cases t; simp) (induction r; simp)

lemma tokens_nonneg: "0 \<le> task_tokens s tss" "0 \<le> att_token s x" "0 \<le> runner_tokens s w"
  unfolding task_tokens_def runner_tokens_def
  by (intro sum_list_nonneg, auto intro!: sum_list_nonneg simp: token_nonneg)
    (auto simp: att_token_def token_nonneg intro: sum_nonneg split: option.splits)

lemma runner_token_le: "p < mw_playbacks w \<Longrightarrow> runner_token s (mw_runner w p) \<le> runner_tokens s w"
  unfolding runner_tokens_def by (rule member_le_sum) (simp_all add: token_nonneg)

lemma tokens_flag: "output_inv w \<Longrightarrow> 1 \<le> tokens s w \<longleftrightarrow> mw_mediaPlaybackActive w s"
  by (auto simp: output_inv_def token_inv_def)

lemma token_sets_flag:
  assumes "output_inv w" "1 \<le> task_tokens s (mw_tasks w) \<or> 1 \<le> runner_tokens s w"
  shows "mw_mediaPlaybackActive w s"
  using tokens_flag [OF assms(1), of s] assms(2) tokens_nonneg(1) [of s "mw_tasks w"]
    tokens_nonneg(2) [of s "mr_exclusiveAttachment (mw_rt w)"] tokens_nonneg(3) [of s w]
  unfolding tokens_def by linarith

lemma begun_not_exclusive:
  assumes "output_inv w" "p < mw_playbacks w" "mw_runner w p = ExclusiveBegun st frame a"
  shows "mr_exclusiveAttachment (mw_rt w) \<noteq> Some a"
proof
  assume e: "mr_exclusiveAttachment (mw_rt w) = Some a"
  have "1 \<le> runner_tokens (snd a) w" using runner_token_le [OF assms(2), of "snd a"] assms(3) by simp
  moreover have "tokens (snd a) w \<le> 1" using assms(1) by (simp add: output_inv_def token_inv_def)
  ultimately show False using e tokens_nonneg(1) [of "snd a" "mw_tasks w"] by (simp add: tokens_def)
qed

lemma after_exclusive_simps [simp]:
  "runner_token s (after_exclusive st frame a) = 0" "will_release (after_exclusive st frame a)"
  by (simp_all add: after_exclusive_def)

lemma commit_output:
  assumes "output_inv w" "p < mw_playbacks w" "mw_runner w p = ExclusiveBegun st frame a"
  shows "output_inv (commitExclusive st frame p a w)"
proof (cases "mr_active (mw_rt w) \<noteq> Some p \<or> mr_attachment (mw_rt w) \<noteq> Some a")
  case True
  then show ?thesis
    unfolding commitExclusive_def using assms by (auto intro!: output_goto)
next
  case False
  let ?old = "mr_exclusiveAttachment (mw_rt w)"
  have "?old \<noteq> Some a" using begun_not_exclusive [OF assms] .
  then have "(if ?old \<noteq> None \<and> ?old \<noteq> Some a then ?old else None) = ?old" by (cases ?old) simp_all
  then show ?thesis
    unfolding commitExclusive_def if_not_P [OF False] Let_def
    by (intro output_runner [OF assms(1,2), where r = "releasing ?old (after_exclusive st frame a)"]) (use assms(3) in simp_all)
qed

lemma release_output:
  assumes "output_inv w" "p < mw_playbacks w" "mw_runner w p = ReleaseExclusive"
  shows "output_inv (releaseExclusivePlayback p w)"
proof (cases "ap_exclusiveHeld (mw_playback w p)")
  case True
  then show ?thesis
    unfolding releaseExclusivePlayback_def Let_def
    by (intro output_runner [OF assms(1,2), where r = "releasing (mr_exclusiveAttachment (mw_rt w)) CloseDone"])
      (use assms(3) in simp_all)
next
  case False
  then show ?thesis
    unfolding releaseExclusivePlayback_def
    by (intro output_runner [OF assms(1,2), where r = CloseDone]) (use assms(3) in simp_all)
qed

lemma begin_output:
  assumes "output_inv w" "p < mw_playbacks w" "mw_runner w p = BeginExclusive st frame a"
    "BeginExclusiveMediaPlayback v a w = (res, w1)"
  shows "case res of None \<Rightarrow> output_inv (goto p (ExclusiveBegun st frame a) w1)
    | Some e \<Rightarrow> output_inv w1 \<and> w1 = w"
proof -
  have "w\<lparr>mw_mediaPlaybackActive := (mw_mediaPlaybackActive w)(x := False)\<rparr> = w" if "\<not> mw_mediaPlaybackActive w x" for x
    using that by (simp add: fun_upd_idem)
  then show ?thesis
    using assms
    by (auto simp: BeginExclusiveMediaPlayback_def EndExclusiveMediaPlayback_def Let_def split: if_splits option.splits
        intro!: output_runner [OF assms(1,2), where r = "ExclusiveBegun st frame a"])
qed

lemma runner_step_output:
  assumes step: "runner_step up nowMs env p r w = Some w'" and inv: "output_inv w" and p: "p < mw_playbacks w"
    and r: "mw_runner w p = r"
  shows "output_inv w'"
proof (cases r)
  case (PrepareTrack i)
  then show ?thesis
    using step inv p r track_quiet(1) [of w nowMs p i]
    by (auto split: prod.splits option.splits intro!: output_quiet_goto [of w])
next
  case (AdvanceTrack i)
  then show ?thesis
    using step inv p r track_quiet(2) [of w nowMs p i]
    by (auto split: prod.splits option.splits intro!: output_quiet_goto [of w])
next
  case (CountFrame s)
  then show ?thesis using step inv p r by (auto intro!: output_quiet_goto [of w] track_quiet)
next
  case (PlaybackFailed e)
  then show ?thesis using step inv p r by (auto intro!: output_quiet_goto [of w] track_quiet)
next
  case (BeginExclusive s frame a)
  then obtain v where v: "env = EnvInterrupted v" using step by (auto split: media_env.splits)
  obtain res w1 where b: "BeginExclusiveMediaPlayback v a w = (res, w1)" by fastforce
  show ?thesis
    using step begin_output [OF inv p _ b] BeginExclusive r p
    by (auto simp: v b split: option.splits if_splits intro!: output_goto output_failed_output)
next
  case (ExclusiveBegun s frame a)
  then show ?thesis using step commit_output [OF inv p] r by auto
next
  case ReleaseExclusive
  then show ?thesis using step release_output [OF inv p] r by auto
next
  case CloseDone
  then show ?thesis using step r by (auto intro!: output_runner [OF inv p, where r = RunnerFinished] split: if_splits)
next
  case (Releasing a k)
  then have w': "w' = goto p k (EndExclusiveMediaPlayback a w)" using step by simp
  have "1 \<le> runner_tokens (snd a) w"
    using runner_token_le [OF p, of "snd a"] Releasing r token_nonneg(2) [of "snd a" k] by simp
  then have "mw_mediaPlaybackActive w (snd a)"
    using token_sets_flag [OF inv] by simp
  then show ?thesis
    unfolding w' by (intro output_runner [OF inv p, where r = k]) (use Releasing r in auto)
qed (use step inv p r in \<open>auto simp: if_cancelled_def split: media_env.splits option.splits if_splits
      intro!: output_goto output_failed_output\<close>)

lemma tasks_split:
  assumes "i < length tss" "tss ! i = t # ts"
  shows "task_tokens s (tss[i := ts]) = task_tokens s tss - task_token s t"
    "\<exists>xs ys. spawns tss = xs @ spawn_of t @ ys \<and> spawns (tss[i := ts]) = xs @ ys"
proof -
  have a: "tss = take i tss @ (t # ts) # drop (Suc i) tss" using assms by (metis id_take_nth_drop)
  have b: "tss[i := ts] = take i tss @ ts # drop (Suc i) tss" using assms(1) by (simp add: upd_conv_take_nth_drop)
  show "task_tokens s (tss[i := ts]) = task_tokens s tss - task_token s t"
    unfolding b by (subst (2) a) (simp add: task_tokens_def)
  have "spawns tss = spawns (take i tss) @ spawn_of t @ concat (map spawn_of ts) @ spawns (drop (Suc i) tss)"
    by (subst a) (simp add: spawns_def)
  moreover have "spawns (tss[i := ts]) = spawns (take i tss) @ concat (map spawn_of ts) @ spawns (drop (Suc i) tss)"
    unfolding b by (simp add: spawns_def)
  ultimately show "\<exists>xs ys. spawns tss = xs @ spawn_of t @ ys \<and> spawns (tss[i := ts]) = xs @ ys"
    by (metis append_assoc)
qed

lemma PlayAgentPlaylistIndex_output: "output_inv w \<Longrightarrow> output_inv (snd (PlayAgentPlaylistIndex nowMs agent i cfg w))"
  by (simp add: PlayAgentPlaylistIndex_def Let_def start_agent_output)

lemma ReplaceStandalone_output:
  "output_inv w \<Longrightarrow> output_inv (snd (ReplaceStandaloneQueueAndPlayWithHandle up nowMs nano sources i cfg w))"
  by (simp add: ReplaceStandaloneQueueAndPlayWithHandle_def start_standalone_output Stop_output)

lemma RecoverPlayback_output: "output_inv w \<Longrightarrow> output_inv (snd (RecoverPlayback up nowMs nano cfg trigger w))"
  by (auto simp: RecoverPlayback_def Let_def split: option.splits playback_mode.splits
      intro!: recover_output clearResume_output PlayAgentPlaylistIndex_output ReplaceStandalone_output)

lemma run_task_output:
  assumes inv: "output_inv w" and i: "i < length (mw_tasks w)" "mw_tasks w ! i = t # ts"
  shows "output_inv (run_task up nowMs nano t (w\<lparr>mw_tasks := (mw_tasks w)[i := ts]\<rparr>))"
proof -
  let ?w = "w\<lparr>mw_tasks := (mw_tasks w)[i := ts]\<rparr>"
  note split = tasks_split [OF i]
  obtain xs ys where sp: "spawns (mw_tasks w) = xs @ spawn_of t @ ys" "spawns (mw_tasks ?w) = xs @ ys" using split(2) by auto
  have tok: "tokens s ?w = tokens s w - task_token s t" for s
    by (simp add: tokens_def runner_tokens_def split(1))
  have spawn: "spawn_inv ?w" using inv sp by (auto simp: output_inv_def spawn_inv_def)
  have held: "held_inv ?w" using inv by (simp add: output_inv_def held_inv_def)
  have plain: "output_inv ?w" if "\<And>s. task_token s t = 0"
    using inv tok that spawn held by (simp add: output_inv_def token_inv_def)
  show ?thesis
  proof (cases t)
    case (ReleaseTask a)
    have "task_token (snd a) t \<le> task_tokens (snd a) (mw_tasks w)"
      using split(1) [of "snd a"] tokens_nonneg(1) [of "snd a" "(mw_tasks w)[i := ts]"] by simp
    then have "mw_mediaPlaybackActive w (snd a)"
      using token_sets_flag [OF inv] ReleaseTask by simp
    then have "token_inv (EndExclusiveMediaPlayback a ?w)"
      using inv tok ReleaseTask by (auto simp: output_inv_def token_inv_def tokens_def runner_tokens_def)
    then show ?thesis using ReleaseTask spawn held by (simp add: output_inv_def spawn_inv_def held_inv_def)
  next
    case (StopTask p)
    have "output_inv (upd_playback p (ap_cancelled_update (\<lambda>_. True)) ?w)"
      by (rule output_keep [OF plain]) (simp_all add: StopTask token_defs)
    then show ?thesis using StopTask by simp
  next
    case (SpawnTask p)
    have p: "p < mw_playbacks w" "mw_runner w p = NotStarted" "p \<notin> set (xs @ ys)"
      using inv sp SpawnTask by (auto simp: output_inv_def spawn_inv_def)
    have "held_inv (goto p r ?w)" for r
      using held p(2) by (auto simp: held_inv_def)
    then have "output_inv (goto p r ?w)" if "\<And>s. runner_token s r = 0" for r
      using plain p sp that goto_tokens [of p ?w _ r]
      by (auto simp: SpawnTask output_inv_def token_inv_def spawn_inv_def)
    then show ?thesis using SpawnTask by (simp add: startRunner_def Let_def)
  next
    case RecoverTask
    then show ?thesis using RecoverPlayback_output [OF plain] by simp
  qed
qed

lemma media_exec_output:
  assumes "media_exec up nowMs ev w = Some w'" "output_inv w"
  shows "output_inv w'"
proof (cases ev)
  case (RunnerEvent env p)
  then show ?thesis using assms runner_step_output [OF _ assms(2)] by (auto simp: media_exec_def split: if_splits)
next
  case (FailureEvent p a)
  then show ?thesis
    using assms failure_output [OF assms(2), of nowMs p a] by (auto simp: media_exec_def case_prod_beta)
next
  case (TaskEvent nano i)
  then show ?thesis
    using assms(1) run_task_output [OF assms(2)] by (auto simp: media_exec_def split: if_splits list.splits)
qed (use assms in \<open>auto simp: media_exec_def split: if_splits intro!: output_steps\<close>)

lemma media_start_output: "output_inv (media_start nowMs playlists)"
  by (simp add: media_start_def newDeviceMediaRuntime_def output_defs)
subsection \<open>A playback that is no longer the active one\<close>

text \<open>How many more frames a goroutine sends although its playback is no longer active.\<close>

fun stale_budget :: "runner \<Rightarrow> nat" where
  "stale_budget (SendSentenceStart s frame a) = 1"
| "stale_budget (SendAudioFrame s frame a) = 1"
| "stale_budget (Releasing a r) = stale_budget r"
| "stale_budget _ = 0"

fun is_frame :: "nat \<Rightarrow> nat \<times> media_attachment \<times> media_output \<Rightarrow> bool" where
  "is_frame p (q, a, FrameOut frame) = (p = q)"
| "is_frame p _ = False"

definition frames_of :: "nat \<Rightarrow> media_world \<Rightarrow> nat" where
  "frames_of p w = length (filter (is_frame p) (mw_sent w))"

definition stale :: "nat \<Rightarrow> media_world \<Rightarrow> bool" where
  "stale p w \<longleftrightarrow> p < mw_playbacks w \<and> mr_active (mw_rt w) \<noteq> Some p"

definition still_bound :: "nat \<Rightarrow> media_world \<Rightarrow> nat" where
  "still_bound p w = frames_of p w + stale_budget (mw_runner w p)"

text \<open>An event outside the goroutines sends nothing and makes at most a new playback active.\<close>

definition calm :: "media_world \<Rightarrow> media_world \<Rightarrow> bool" where
  "calm w w' \<longleftrightarrow> mw_sent w' = mw_sent w \<and> mw_playbacks w \<le> mw_playbacks w' \<and>
     mr_active (mw_rt w') \<in> {mr_active (mw_rt w), None, Some (mw_playbacks w)} \<and>
     (\<forall>p < mw_playbacks w. stale_budget (mw_runner w' p) \<le> stale_budget (mw_runner w p))"

lemma calm_refl [simp]: "calm w w" by (simp add: calm_def)

lemma calm_stale: "calm w w' \<Longrightarrow> stale p w \<Longrightarrow> stale p w' \<and> still_bound p w' \<le> still_bound p w"
  by (auto simp: calm_def stale_def still_bound_def frames_of_def)

lemma stale_budget_le: "stale_budget r \<le> 1"
  by (induction r) simp_all

lemma calm_refresh [simp]: "calm w (refreshPublicStateLocked w') = calm w w'"
  by (simp add: calm_def refreshPublicStateLocked_def Let_def split: playback_mode.splits)

named_theorems calm_steps \<open>events that send nothing\<close>

lemma calm_start [calm_steps]:
  "calm w (start_standalone nowMs items i cfg w)" "calm w (start_agent_playlist nowMs agent items i cfg w)"
  by (auto simp: calm_def start_standalone_def start_agent_playlist_def replaceActivePlaybackLocked_def Let_def
      split: option.splits)

lemma calm_control [calm_steps]:
  "calm w (media_Stop nowMs w)" "calm w (snd (pausePlayback nowMs b reason w))"
  "calm w (snd (recoverActivePlayback nowMs w))" "calm w (clearResumeOnAttach w)"
  by (simp_all add: calm_def media_Stop_def pausePlayback_def recoverActivePlayback_def setPaused_def clearResumeOnAttach_def
      Let_def split: option.splits)

lemma calm_sessions [calm_steps]:
  "calm w (attachSession usable session w)" "calm w (detachSession nowMs session preserve w)"
  by (simp_all add: calm_def attachSession_def attach_new_def detachSession_def Let_def split: option.splits)

lemma calm_append [calm_steps]:
  "calm w (snd (appendToAgentPlaylist up nowMs nano agent source w))" "calm w (append_commit nowMs agent i source items w)"
  by (simp_all add: calm_def appendToAgentPlaylist_def append_commit_def Let_def)

lemma calm_refresh_event [calm_steps]: "calm w (refreshPublicStateLocked w)"
  by simp

lemma calm_Recover: "calm w (snd (RecoverPlayback up nowMs nano cfg trigger w))"
  by (simp add: RecoverPlayback_def PlayAgentPlaylistIndex_def ReplaceStandaloneQueueAndPlayWithHandle_def Let_def calm_steps
      split: option.splits playback_mode.splits)

lemma calm_task: "calm w (run_task up nowMs nano t (w\<lparr>mw_tasks := tss\<rparr>))"
proof (cases t)
  case RecoverTask
  then show ?thesis
    using calm_Recover [of "w\<lparr>mw_tasks := tss\<rparr>" up nowMs nano "currentAudioConfig (w\<lparr>mw_tasks := tss\<rparr>)" TriggerAttach]
    by (simp add: calm_def)
qed (simp_all add: calm_def startRunner_def Let_def)

lemma calm_failure: "calm w (add_tasks ts (snd (handleAttachmentFailure nowMs p a w)))"
  using handle_frame [where nowMs = nowMs and p = p and a = a and w = w] by (simp add: calm_def)

text \<open>A step of another goroutine, or of the goroutine of a playback that is no longer active.\<close>

lemma track_active:
  "mr_active (mw_rt (snd (prepareTrack nowMs p i w))) = mr_active (mw_rt w)"
  "mr_active (mw_rt (snd (advanceAfterTrack nowMs p i w))) \<in> {mr_active (mw_rt w), None}"
  "mr_active (mw_rt (markPlaybackError nowMs p e w)) \<in> {mr_active (mw_rt w), None}"
  "mr_active (mw_rt (markPlaybackStopped nowMs p st w)) \<in> {mr_active (mw_rt w), None}"
  "mr_active (mw_rt (incrementPlaybackPosition nowMs p ms w)) = mr_active (mw_rt w)"
proof -
  have r: "mr_active (mw_rt (refreshPublicStateLocked v)) = mr_active (mw_rt v)" for v
    by (simp add: refreshPublicStateLocked_def Let_def split: playback_mode.splits)
  show
    "mr_active (mw_rt (snd (prepareTrack nowMs p i w))) = mr_active (mw_rt w)"
    "mr_active (mw_rt (snd (advanceAfterTrack nowMs p i w))) \<in> {mr_active (mw_rt w), None}"
    "mr_active (mw_rt (markPlaybackError nowMs p e w)) \<in> {mr_active (mw_rt w), None}"
    "mr_active (mw_rt (markPlaybackStopped nowMs p st w)) \<in> {mr_active (mw_rt w), None}"
    "mr_active (mw_rt (incrementPlaybackPosition nowMs p ms w)) = mr_active (mw_rt w)"
    by (simp_all add: r prepareTrack_def advanceAfterTrack_def markPlaybackError_def markPlaybackStopped_def
        incrementPlaybackPosition_def Let_def)
qed
definition step_of :: "nat \<Rightarrow> media_world \<Rightarrow> media_world \<Rightarrow> bool" where
  "step_of q w w' \<longleftrightarrow> mw_playbacks w' = mw_playbacks w \<and> mr_active (mw_rt w') \<in> {mr_active (mw_rt w), None} \<and>
     (\<forall>p. p \<noteq> q \<longrightarrow> mw_runner w' p = mw_runner w p \<and> frames_of p w' = frames_of p w)"

lemma step_of_goto: "quiet w w1 \<Longrightarrow> mr_active (mw_rt w1) \<in> {mr_active (mw_rt w), None} \<Longrightarrow> step_of q w (goto q r w1)"
  by (auto simp: step_of_def quiet_def frames_of_def)

lemma step_of_log: "step_of q w (goto q r (media_log q a out w))"
  by (cases out) (simp_all add: step_of_def frames_of_def)

lemma step_of_failed: "step_of q w (output_failed nowMs q a r w)"
  using handle_frame [where nowMs = nowMs and p = q and a = a and w = w]
  by (simp add: output_failed_def case_prod_beta step_of_def frames_of_def)

lemma begin_frame:
  "BeginExclusiveMediaPlayback v a w = (res, w1) \<Longrightarrow>
    mw_playbacks w1 = mw_playbacks w \<and> mw_rt w1 = mw_rt w \<and> mw_runner w1 = mw_runner w \<and> mw_sent w1 = mw_sent w"
  by (auto simp: BeginExclusiveMediaPlayback_def Let_def split: if_splits option.splits)

lemma step_of_begin:
  "BeginExclusiveMediaPlayback v a w = (res, w1) \<Longrightarrow> step_of q w1 w2 \<Longrightarrow> step_of q w w2"
  using begin_frame [of v a w res w1] by (simp add: step_of_def frames_of_def)

lemma step_of_local [simp]: "step_of q w (goto q r w)"
  "step_of q w (goto q r (upd_playback q' f w))" "step_of q w (goto q r (EndExclusiveMediaPlayback a w))"
  "step_of q w (commitExclusive s frame q a w)" "step_of q w (releaseExclusivePlayback q w)"
  by (simp_all add: step_of_def frames_of_def commitExclusive_def releaseExclusivePlayback_def Let_def)

lemma step_of_track:
  "step_of q w (goto q r (snd (prepareTrack nowMs q i w)))" "step_of q w (goto q r (snd (advanceAfterTrack nowMs q i w)))"
  "step_of q w (goto q r (markPlaybackError nowMs q e w))" "step_of q w (goto q r (markPlaybackStopped nowMs q st w))"
  "step_of q w (goto q r (incrementPlaybackPosition nowMs q ms w))"
  by (rule step_of_goto; use track_quiet [of w nowMs q] track_active [of nowMs q] in simp)+

lemma runner_step_of:
  assumes "runner_step up nowMs env q r w = Some w'"
  shows "step_of q w w'"
proof (cases r)
  case (PrepareTrack i)
  then show ?thesis
    using assms step_of_track(1) [of q w _ nowMs i] by (auto simp: case_prod_beta split: option.splits)
next
  case (AdvanceTrack i)
  then show ?thesis
    using assms step_of_track(2) [of q w _ nowMs i] by (auto simp: case_prod_beta split: option.splits)
next
  case (BeginExclusive s frame a)
  then obtain v where v: "env = EnvInterrupted v" using assms by (auto split: media_env.splits)
  obtain res w1 where b: "BeginExclusiveMediaPlayback v a w = (res, w1)" by fastforce
  show ?thesis
    using assms step_of_begin [OF b step_of_local(1)] step_of_begin [OF b step_of_failed [where a = a]]
    by (auto simp: BeginExclusive v b split: option.splits if_splits)
next
  case (PlaybackFailed e)
  then show ?thesis using assms step_of_track(3,4) [of q w] by auto
qed (use assms in \<open>auto simp: if_cancelled_def step_of_failed step_of_log step_of_track split: media_env.splits option.splits if_splits\<close>)

text \<open>What the runtime shows is out of reach of a stale goroutine; it can only take away the mark of the exclusive output.\<close>

definition unchanged_rt :: "media_world \<Rightarrow> media_world \<Rightarrow> bool" where
  "unchanged_rt w w' \<longleftrightarrow> mw_playlists w' = mw_playlists w \<and> mw_rt w' \<in> {mw_rt w, (mw_rt w)\<lparr>mr_exclusiveAttachment := None\<rparr>}"

lemma stale_track:
  assumes "stale p w"
  shows "prepareTrack nowMs p i w = (None, w)" "advanceAfterTrack nowMs p i w = (None, w)"
    "markPlaybackError nowMs p e w = w" "markPlaybackStopped nowMs p st w = w" "incrementPlaybackPosition nowMs p ms w = w"
    "handleAttachmentFailure nowMs p a w = (None, w)"
  using assms by (simp_all add: stale_def prepareTrack_def advanceAfterTrack_def markPlaybackError_def
      markPlaybackStopped_def incrementPlaybackPosition_def handleAttachmentFailure_def)

lemma stale_after_pause [simp]: "stale_budget (after_pause k) = 0"
  by (cases k) simp_all

lemma begin_playlists: "BeginExclusiveMediaPlayback v a w = (res, w1) \<Longrightarrow> mw_playlists w1 = mw_playlists w"
  by (auto simp: BeginExclusiveMediaPlayback_def EndExclusiveMediaPlayback_def Let_def split: if_splits option.splits)

lemma stale_goto:
  assumes "mw_playlists w1 = mw_playlists w" "mw_rt w1 \<in> {mw_rt w, (mw_rt w)\<lparr>mr_exclusiveAttachment := None\<rparr>}"
    "frames_of p w1 + stale_budget r \<le> still_bound p w"
  shows "unchanged_rt w (goto p r w1) \<and> still_bound p (goto p r w1) \<le> still_bound p w"
  using assms by (simp add: unchanged_rt_def still_bound_def frames_of_def)

lemma stale_goto_same:
  "stale_budget r \<le> stale_budget (mw_runner w p) \<Longrightarrow>
    unchanged_rt w (goto p r w) \<and> still_bound p (goto p r w) \<le> still_bound p w"
  by (rule stale_goto) (simp_all add: still_bound_def)

lemma stale_failed:
  "stale p w \<Longrightarrow> output_failed nowMs p a r w = goto p r w"
  by (simp add: output_failed_def stale_track releasing_def)

lemma stale_log:
  assumes "stale_budget r + (case out of FrameOut _ \<Rightarrow> 1 | _ \<Rightarrow> 0) \<le> stale_budget (mw_runner w p)"
  shows "unchanged_rt w (goto p r (media_log p a out w)) \<and> still_bound p (goto p r (media_log p a out w)) \<le> still_bound p w"
  using assms by (intro stale_goto) (auto simp: still_bound_def frames_of_def media_log_def split: media_output.splits)

lemma stale_step:
  assumes "runner_step up nowMs env p (mw_runner w p) w = Some w'" "stale p w"
  shows "unchanged_rt w w' \<and> still_bound p w' \<le> still_bound p w"
proof -
  have a: "mr_active (mw_rt w) \<noteq> Some p" using assms(2) by (simp add: stale_def)
  note st = stale_track [OF assms(2)]
  note same = stale_goto_same [of _ w p]
  show ?thesis
  proof (cases "mw_runner w p")
    case (BeginExclusive s frame x)
    then obtain v where v: "env = EnvInterrupted v" using assms by (auto split: media_env.splits)
    obtain res w1 where b: "BeginExclusiveMediaPlayback v x w = (res, w1)" by fastforce
    have "stale p w1" using assms(2) begin_frame [OF b] by (simp add: stale_def)
    then obtain r where "w' = goto p r w1" "stale_budget r = 0"
      using assms(1) by (auto simp: BeginExclusive v b stale_failed split: option.splits if_splits)
    then show ?thesis
      using begin_frame [OF b] begin_playlists [OF b] by (simp add: unchanged_rt_def still_bound_def frames_of_def)
  next
    case (SendSentenceStart s frame x)
    then show ?thesis
      using assms same stale_log [of _ "SentenceStartOut (sm_text s)" w p x]
      by (auto simp: stale_failed split: media_env.splits option.splits)
  next
    case (SendAudioFrame s frame x)
    then show ?thesis
      using assms same stale_log [of _ "FrameOut frame" w p x]
      by (auto simp: stale_failed split: media_env.splits option.splits)
  next
    case (SendSentenceEnd s x)
    then show ?thesis
      using assms same stale_log [of _ "SentenceEndOut (sm_text s)" w p x]
      by (auto simp: stale_failed split: media_env.splits option.splits)
  next
    case ReleaseExclusive
    then show ?thesis
      using assms(1) by (auto simp: releaseExclusivePlayback_def Let_def releasing_def unchanged_rt_def still_bound_def
          frames_of_def split: option.splits if_splits)
  next
    case CloseDone
    then have "w' = goto p RunnerFinished (upd_playback p closeDone w)" using assms(1) by simp
    then show ?thesis by (simp add: unchanged_rt_def still_bound_def frames_of_def)
  next
    case (Releasing x r)
    then have "w' = goto p r (EndExclusiveMediaPlayback x w)" using assms(1) by simp
    then show ?thesis
      using Releasing by (simp add: unchanged_rt_def still_bound_def frames_of_def EndExclusiveMediaPlayback_def)
  qed (use assms(1) a st same in \<open>auto simp: if_cancelled_def commitExclusive_def split: media_env.splits option.splits if_splits\<close>)
qed

lemma media_exec_stale:
  assumes exec: "media_exec up nowMs ev w = Some w'" and p: "stale p w"
  shows "stale p w' \<and> still_bound p w' \<le> still_bound p w"
proof (cases ev)
  case (RunnerEvent env q)
  then have step: "runner_step up nowMs env q (mw_runner w q) w = Some w'"
    using exec by (auto simp: media_exec_def split: if_splits)
  have "stale p w'" using runner_step_of [OF step] p by (auto simp: step_of_def stale_def)
  then show ?thesis
    using runner_step_of [OF step] stale_step [of up nowMs env p w w'] step p
    by (cases "p = q") (auto simp: step_of_def still_bound_def)
next
  case (FailureEvent q a)
  then show ?thesis
    using exec calm_stale [OF calm_failure p, where a1 = a] by (auto simp: media_exec_def case_prod_beta)
next
  case (TaskEvent nano i)
  then show ?thesis
    using exec calm_stale [OF calm_task p] by (auto simp: media_exec_def split: if_splits list.splits)
qed (use exec p in \<open>auto simp: media_exec_def split: if_splits dest: calm_stale intro: calm_steps [THEN calm_stale, THEN conjunct1]
      calm_steps [THEN calm_stale, THEN conjunct2]\<close>)
subsection \<open>Properties\<close>

text \<open>Everybody is done: no caller has anything left to do and every goroutine has ended.\<close>

definition all_done :: "media_world \<Rightarrow> bool" where
  "all_done w \<longleftrightarrow> list_all (\<lambda>ts. ts = []) (mw_tasks w) \<and> list_all (\<lambda>p. mw_runner w p = RunnerFinished) [0..<mw_playbacks w]"

lemma no_tasks_no_tokens: "list_all (\<lambda>ts. ts = []) tss \<Longrightarrow> task_tokens s tss = 0"
  by (induction tss) (simp_all add: task_tokens_def)

lemma all_done_tokens:
  assumes "output_inv w" "all_done w"
  shows "mr_exclusiveAttachment (mw_rt w) = None \<and> (\<forall>s. \<not> mw_mediaPlaybackActive w s)"
proof -
  have fin: "p < mw_playbacks w \<Longrightarrow> mw_runner w p = RunnerFinished" for p
    using assms(2) by (auto simp: all_done_def list_all_iff)
  have excl: "mr_exclusiveAttachment (mw_rt w) = None"
  proof (rule ccontr)
    assume "mr_exclusiveAttachment (mw_rt w) \<noteq> None"
    then obtain p where "p < mw_playbacks w" "will_release (mw_runner w p)"
      using assms(1) by (auto simp: output_inv_def held_inv_def)
    then show False using fin by simp
  qed
  have "tokens s w = 0" for s
    using excl no_tasks_no_tokens [of "mw_tasks w" s] assms(2) fin
    by (simp add: tokens_def runner_tokens_def all_done_def)
  then show ?thesis using excl tokens_flag [OF assms(1)] by fastforce
qed

lemma refresh_state:
  "ps_Status (mr_state (mw_rt (refreshPublicStateLocked w))) = ps_Status (mr_state (mw_rt w))"
  "ps_PositionMs (mr_state (mw_rt (refreshPublicStateLocked w))) = ps_PositionMs (mr_state (mw_rt w))"
  "ps_CurrentTitle (mr_state (mw_rt (refreshPublicStateLocked w))) = ps_CurrentTitle (mr_state (mw_rt w))"
  "ps_CurrentSourceType (mr_state (mw_rt (refreshPublicStateLocked w))) = ps_CurrentSourceType (mr_state (mw_rt w))"
  by (simp_all add: refreshPublicStateLocked_def Let_def split: playback_mode.splits)

lemma refresh_index:
  fixes w
  defines "s \<equiv> mr_state (mw_rt (refreshPublicStateLocked w))"
  shows "ps_CurrentIndex s = -1 \<or> 0 \<le> ps_CurrentIndex s \<and> ps_CurrentIndex s < int (length (ps_Playlist s))"
  by (simp add: s_def refreshPublicStateLocked_def Let_def split: playback_mode.splits)

text \<open>
  C33. What \<open>GetState\<close> answers is true of the playback behind it, whatever sequence of calls, session changes, output failures
  and steps of the playing goroutines came before: the status is playing or paused exactly if there is an active playback,
  a playback shown as paused is paused, a reason for a pause or a promise to resume is kept only for an active playback
  that is paused, title and kind are those of the current source, the position is not negative and the index is \<open>-1\<close> or
  inside the playlist that is shown.
\<close>

theorem media_state_consistent:
  assumes "media_run url_path evs (media_start t0 playlists) = Some w"
  shows "(mr_active (mw_rt w) \<noteq> None \<longleftrightarrow> ps_Status (fst (media_GetState w)) \<in> {StatusPlaying, StatusPaused}) \<and>
    (\<forall>p. mr_active (mw_rt w) = Some p \<and> ps_Status (fst (media_GetState w)) = StatusPaused \<longrightarrow> ap_paused (mw_playback w p)) \<and>
    (mr_pauseReason (mw_rt w) \<noteq> PauseReasonNone \<or> mr_resumeOnAttach (mw_rt w) \<longrightarrow>
      (\<exists>p. mr_active (mw_rt w) = Some p \<and> ap_paused (mw_playback w p))) \<and>
    (\<forall>source. mr_currentSource (mw_rt w) = Some source \<longrightarrow>
      ps_CurrentTitle (fst (media_GetState w)) = src_Title source \<and>
      ps_CurrentSourceType (fst (media_GetState w)) = src_SourceType source) \<and>
    0 \<le> ps_PositionMs (fst (media_GetState w)) \<and>
    (ps_CurrentIndex (fst (media_GetState w)) = -1 \<or>
      0 \<le> ps_CurrentIndex (fst (media_GetState w)) \<and>
      ps_CurrentIndex (fst (media_GetState w)) < int (length (ps_Playlist (fst (media_GetState w)))))"
proof -
  have inv: "media_inv w" using media_run_inv [OF assms media_start_inv] .
  then show ?thesis
    unfolding media_GetState_def Let_def fst_conv refresh_state
    using refresh_index [of w] by (simp add: media_inv_def player_inv_def)
qed

text \<open>
  C34. A session's speech output is never lost to media playback. Along every run the flag \<open>mediaPlaybackActive\<close> of a session is
  set exactly while one party, and only one, is going to clear it: the runtime, a caller that has left the lock, or a
  playing goroutine. Once every caller is done and every playing goroutine has ended, no session's flag is set.
\<close>

theorem media_output_returned:
  assumes "media_run url_path evs (media_start t0 playlists) = Some w"
  shows "tokens session w = of_bool (mw_mediaPlaybackActive w session) \<and>
    (all_done w \<longrightarrow> mr_exclusiveAttachment (mw_rt w) = None \<and> \<not> mw_mediaPlaybackActive w session)"
proof -
  have inv: "output_inv w"
    using media_run_invariant [where P = output_inv, OF media_exec_output assms media_start_output] .
  then have "tokens session w = of_bool (mw_mediaPlaybackActive w session)"
    unfolding output_inv_def token_inv_def by blast
  then show ?thesis using all_done_tokens [OF inv] by blast
qed

text \<open>
  C35. A playback that is not (or no longer) the active one stays so and falls silent, whatever happens: it sends at most one
  more audio frame, and no step of its goroutine changes the playlists or what the runtime knows, except that it may
  clear \<open>exclusiveAttachment\<close>.
\<close>

theorem stale_playback_silent:
  assumes "media_run url_path evs w = Some w'" "p < mw_playbacks w" "mr_active (mw_rt w) \<noteq> Some p"
  shows "mr_active (mw_rt w') \<noteq> Some p \<and> frames_of p w' \<le> frames_of p w + 1 \<and>
    (\<forall>nowMs env w''. media_exec url_path nowMs (RunnerEvent env p) w' = Some w'' \<longrightarrow>
      mw_playlists w'' = mw_playlists w' \<and>
      mw_rt w'' \<in> {mw_rt w', (mw_rt w')\<lparr>mr_exclusiveAttachment := None\<rparr>})"
proof -
  have "stale p w' \<and> still_bound p w' \<le> still_bound p w"
  proof (rule media_run_invariant [where P = "\<lambda>v. stale p v \<and> still_bound p v \<le> still_bound p w", OF _ assms(1)])
    show "stale p w \<and> still_bound p w \<le> still_bound p w" using assms(2,3) by (simp add: stale_def)
    show "stale p v' \<and> still_bound p v' \<le> still_bound p w"
      if "media_exec url_path nowMs ev v = Some v'" "stale p v \<and> still_bound p v \<le> still_bound p w" for nowMs ev v v'
      using media_exec_stale [OF that(1), of p] that(2) by linarith
  qed
  then show ?thesis
    using stale_step [of url_path _ _ p w'] stale_budget_le [of "mw_runner w p"]
    by (auto simp: still_bound_def stale_def media_exec_def unchanged_rt_def split: if_splits)
qed
text \<open>A new playback of the agent's playlist, at the beginning of track \<open>i\<close>.\<close>

definition starts_track :: "media_world \<Rightarrow> int \<Rightarrow> media_world \<Rightarrow> bool" where
  "starts_track w i w' \<longleftrightarrow> mr_active (mw_rt w') = Some (mw_playbacks w) \<and> mw_playbacks w' = Suc (mw_playbacks w) \<and>
     mw_playlists w' = mw_playlists w \<and> mr_mode (mw_rt w') = ModeAgentPlaylist \<and>
     mr_playlistAgentID (mw_rt w') = mr_playlistAgentID (mw_rt w) \<and> mr_playbackIndex (mw_rt w') = i \<and>
     mr_currentSource (mw_rt w') = Some (pi_Source (mw_playlists w (mr_playlistAgentID (mw_rt w)) ! nat i)) \<and>
     ps_Status (mr_state (mw_rt w')) = StatusPlaying \<and> ps_PositionMs (mr_state (mw_rt w')) = 0 \<and>
     ps_CurrentIndex (mr_state (mw_rt w')) = i"

lemma start_agent_starts:
  "mr_playlistAgentID (mw_rt w) = agent \<Longrightarrow> items = mw_playlists w agent \<Longrightarrow>
    starts_track w (int i) (start_agent_playlist nowMs agent items i cfg w)"
  by (auto simp: starts_track_def start_agent_playlist_def replaceActivePlaybackLocked_def Let_def split: option.splits)

lemma smod_wrap:
  fixes x n :: int
  assumes "0 < n"
  shows "(let k = x smod n in if k < 0 then k + n else k) = x mod n"
proof -
  have "x smod n = sgn x * (\<bar>x\<bar> mod n)" using assms by (simp add: signed_modulo_int_def)
  moreover have "- (- x mod n) + n = x mod n" if "- x mod n \<noteq> 0"
    using that assms zmod_zminus1_eq_if [of "- x" n] by auto
  ultimately show ?thesis
    using assms pos_mod_bound [OF assms, of x] pos_mod_sign [OF assms, of x] pos_mod_sign [OF assms, of "- x"]
    by (auto simp: Let_def sgn_if abs_if not_less zmod_zminus1_eq_if split: if_splits)
qed

lemma jump_starts:
  fixes w
  defines "agent \<equiv> mr_playlistAgentID (mw_rt w)" and "n \<equiv> int (length (mw_playlists w (mr_playlistAgentID (mw_rt w))))"
  assumes "mr_mode (mw_rt w) = ModeAgentPlaylist" "trim_space agent = agent" "agent \<noteq> []"
    "0 \<le> mr_playbackIndex (mw_rt w)" "mr_playbackIndex (mw_rt w) < n"
  shows "fst (jumpToRelative nowMs delta cfg w) = Inr ()"
    and "starts_track w ((mr_playbackIndex (mw_rt w) + delta) mod n) (snd (jumpToRelative nowMs delta cfg w))"
proof -
  let ?k = "(mr_playbackIndex (mw_rt w) + delta) mod n"
  have n: "0 < n" using assms by linarith
  have k: "0 \<le> ?k" "?k < n" using n by simp_all
  have "jumpToRelative nowMs delta cfg w = PlayAgentPlaylistIndex nowMs agent ?k cfg w"
    using assms n smod_wrap [OF n, of "mr_playbackIndex (mw_rt w) + delta"]
    by (auto simp: jumpToRelative_def snapshotAgentPlaylist_def Let_def)
  also have "\<dots> = (Inr (), start_agent_playlist nowMs agent (mw_playlists w agent) (nat ?k) cfg w)"
  proof -
    have "int (length (mw_playlists w agent)) = n" "mw_playlists w agent \<noteq> []" using n by (auto simp: n_def agent_def)
    then show ?thesis
      using assms(4,5) k by (simp add: PlayAgentPlaylistIndex_def snapshotAgentPlaylist_def Let_def)
  qed
  finally show "fst (jumpToRelative nowMs delta cfg w) = Inr ()"
    "starts_track w ?k (snd (jumpToRelative nowMs delta cfg w))"
    using start_agent_starts [of w agent "mw_playlists w agent" "nat ?k" nowMs cfg] k by (simp_all add: agent_def)
qed

text \<open>
  \<open>Next\<close> and \<open>Prev\<close> move through an agent's playlist in a circle: from any index inside it they start a new playback, at
  the beginning of the neighbouring track, with the index taken modulo the length (also below zero, where Go's remainder
  is negative), and \<open>Prev\<close> after \<open>Next\<close> is back at the track it came from.
\<close>

theorem next_prev_circle:
  assumes "mr_mode (mw_rt w) = ModeAgentPlaylist" "mr_playlistAgentID (mw_rt w) = agentID"
    "trim_space agentID = agentID" "agentID \<noteq> []"
    "0 \<le> mr_playbackIndex (mw_rt w)" "mr_playbackIndex (mw_rt w) < int (length (mw_playlists w agentID))"
  shows "fst (media_Next t cfg w) = Inr () \<and> fst (media_Prev t cfg w) = Inr () \<and>
    starts_track w ((mr_playbackIndex (mw_rt w) + 1) mod int (length (mw_playlists w agentID))) (snd (media_Next t cfg w)) \<and>
    starts_track w ((mr_playbackIndex (mw_rt w) - 1) mod int (length (mw_playlists w agentID))) (snd (media_Prev t cfg w)) \<and>
    fst (media_Prev t' cfg' (snd (media_Next t cfg w))) = Inr () \<and>
    starts_track (snd (media_Next t cfg w)) (mr_playbackIndex (mw_rt w)) (snd (media_Prev t' cfg' (snd (media_Next t cfg w))))"
proof -
  let ?n = "int (length (mw_playlists w agentID))" and ?i = "mr_playbackIndex (mw_rt w)" and ?w1 = "snd (media_Next t cfg w)"
  have n: "0 < ?n" using assms(5,6) by linarith
  have nxt: "fst (media_Next t cfg w) = Inr ()" "starts_track w ((?i + 1) mod ?n) ?w1"
    and prev: "fst (media_Prev t cfg w) = Inr ()" "starts_track w ((?i - 1) mod ?n) (snd (media_Prev t cfg w))"
    using jump_starts [where w = w and nowMs = t and cfg = cfg and delta = 1]
      jump_starts [where w = w and nowMs = t and cfg = cfg and delta = "-1"] assms by (simp_all add: media_Next_def media_Prev_def)
  have w1: "mr_mode (mw_rt ?w1) = ModeAgentPlaylist" "mr_playlistAgentID (mw_rt ?w1) = agentID"
    "mw_playlists ?w1 agentID = mw_playlists w agentID" "mr_playbackIndex (mw_rt ?w1) = (?i + 1) mod ?n"
    using nxt(2) assms(2) by (simp_all add: starts_track_def)
  have home: "((?i + 1) mod ?n + -1) mod ?n = ?i" using assms(5,6) by (simp add: mod_diff_left_eq)
  have "fst (media_Prev t' cfg' ?w1) = Inr ()" "starts_track ?w1 ?i (snd (media_Prev t' cfg' ?w1))"
    using jump_starts [where w = ?w1 and nowMs = t' and cfg = cfg' and delta = "-1"] assms(3,4) w1 home n by (simp_all add: media_Prev_def)
  then show ?thesis using nxt prev by blast
qed
subsection \<open>Concrete runs\<close>

definition inline_track :: playlist_item where
  "inline_track = \<lparr>pi_ID = [], pi_Source = \<lparr>src_ID = [], src_Title = lit ''song'', src_MIMEType = [],
     src_SourceType = MediaSourceTypeInlineAudio, src_Meta = [], src_MCP = None, src_HTTP = None, src_Local = None,
     src_Inline = Some [1]\<rparr>, pi_AddedAt = 0\<rparr>"

definition some_config :: audio_config where
  "some_config = \<lparr>ac_SampleRate = default_SampleRate, ac_FrameDuration = default_FrameDuration\<rparr>"

text \<open>Steps of the goroutine of playback \<open>p\<close>; from a new playback to the first frame on its way to the session.\<close>

definition steps_of :: "nat \<Rightarrow> media_env list \<Rightarrow> (int \<times> media_event) list" where
  "steps_of p envs = map (\<lambda>env. (0, RunnerEvent env p)) envs"

definition until_frame :: "media_env list" where
  "until_frame = [EnvNothing, EnvNothing, EnvOpened None, EnvNothing, EnvFrame [5], EnvNothing, EnvNothing, EnvNothing,
     EnvInterrupted None, EnvNothing, EnvSent None]"

definition until_sentence_end :: "media_env list" where
  "until_sentence_end = [EnvSent None, EnvNothing, EnvNothing, EnvStreamClosed, EnvNothing, EnvSent None]"

definition first_playback :: "(int \<times> media_event) list" where
  "first_playback = [(0, AttachEvent True 7), (0, StandaloneEvent [inline_track] 0 some_config), (0, TaskEvent (\<lambda>_. 0) 0)]
     @ steps_of 0 (until_frame @ until_sentence_end)"

text \<open>Playback 0 plays its only track to the end and everybody is done.\<close>

definition whole_playback :: "(int \<times> media_event) list" where
  "whole_playback = first_playback @ steps_of 0 [EnvEnded None, EnvNothing, EnvNothing, EnvNothing, EnvNothing]"

text \<open>Playback 0 has ended but has not yet released its output when playback 1 starts and takes the output.\<close>

definition late_release :: "(int \<times> media_event) list" where
  "late_release = first_playback @ steps_of 0 [EnvEnded None, EnvNothing]
     @ [(0, StandaloneEvent [inline_track] 0 some_config), (0, TaskEvent (\<lambda>_. 0) 1), (0, TaskEvent (\<lambda>_. 0) 1)]
     @ steps_of 1 until_frame @ steps_of 0 [EnvNothing, EnvNothing]"

text \<open>A queue of two tracks is paused while the end of the first is being announced.\<close>

definition paused_between_tracks :: "(int \<times> media_event) list" where
  "paused_between_tracks =
     [(0, AttachEvent True 7), (0, StandaloneEvent [inline_track, inline_track] 0 some_config), (0, TaskEvent (\<lambda>_. 0) 0)]
     @ steps_of 0 (until_frame @ until_sentence_end) @ [(0, PauseEvent True PauseReasonUser)]
     @ steps_of 0 [EnvEnded None, EnvNothing]"

lemma inline_track_simps:
  "src_SourceType (pi_Source inline_track) = ''inline_audio''" "src_Inline (pi_Source inline_track) = Some [1]"
  "deriveMediaTitle u (pi_Source inline_track) = lit ''song''" "lit ''song'' \<noteq> []"
  by code_simp+

lemmas run_defs = inline_track_simps some_config_def steps_of_def until_frame_def until_sentence_end_def first_playback_def
  whole_playback_def late_release_def paused_between_tracks_def

lemmas exec_defs = media_exec_def media_start_def newDeviceMediaRuntime_def attachSession_def attach_new_def
  start_standalone_def replaceActivePlaybackLocked_def normalizeMediaPlaybackAudioConfig_def default_SampleRate_def
  default_FrameDuration_def upd_rt_def upd_state_def upd_playback_def add_tasks_def goto_def after_release_def
  stopOldPlayback_def newActiveMediaPlayback_def setPaused_def setExclusiveHeld_def closeDone_def
  EndExclusiveMediaPlayback_def BeginExclusiveMediaPlayback_def refreshPublicStateLocked_def currentPlaybackQueueLocked_def
  currentFrameDurationMs_def snapshotAgentPlaylist_def pausePlayback_def currentIndexForActive_def prepareTrack_def
  advanceAfterTrack_def markPlaybackError_def markPlaybackStopped_def incrementPlaybackPosition_def openSource_check_def
  play_text_def after_exclusive_def releasing_def output_failed_def media_log_def if_cancelled_def commitExclusive_def
  releaseExclusivePlayback_def startRunner_def source_types media_GetState_def Let_def

abbreviation run_from_start :: "(int \<times> media_event) list \<Rightarrow> media_world option" where
  "run_from_start evs \<equiv> media_run (\<lambda>_. None) evs (media_start 0 (\<lambda>_. []))"

lemma whole_playback_runs:
  "\<exists>w. run_from_start whole_playback = Some w \<and> all_done w \<and> ps_Status (fst (media_GetState w)) = StatusStopped \<and>
    map (snd \<circ> snd) (mw_sent w) \<noteq> []"
  by (simp add: run_defs exec_defs all_done_def upt_rec)

text \<open>
  A defect: the goroutine of a playback that has ended still counts as holding the output and releases what the runtime
  holds by then, which can be the output of the next playback. After the run \<open>late_release\<close> playback 1 is the active one,
  plays, believes it holds the output and is about to send a frame, while the session's output is free for others.
\<close>

theorem late_release_takes_output:
  "\<exists>w. media_run (\<lambda>_. None) late_release (media_start 0 (\<lambda>_. [])) = Some w \<and> mr_active (mw_rt w) = Some 1 \<and>
    ps_Status (mr_state (mw_rt w)) = StatusPlaying \<and> ap_exclusiveHeld (mw_playback w 1) \<and>
    mr_exclusiveAttachment (mw_rt w) = None \<and> \<not> mw_mediaPlaybackActive w 7 \<and>
    (\<exists>s frame a. mw_runner w 1 = SendAudioFrame s frame a \<and> snd a = 7)"
  by (simp add: run_defs exec_defs)

text \<open>
  A defect: \<open>advanceAfterTrack\<close> shows the next track as playing although the playback is paused. After the run
  \<open>paused_between_tracks\<close> the user has paused, the goroutine will block before the next track, and \<open>GetState\<close> says playing.
\<close>

theorem paused_shown_as_playing:
  "\<exists>w. media_run (\<lambda>_. None) paused_between_tracks (media_start 0 (\<lambda>_. [])) = Some w \<and>
    ps_Status (fst (media_GetState w)) = StatusPlaying \<and> mr_active (mw_rt w) = Some 0 \<and>
    ap_paused (mw_playback w 0) \<and> mr_pauseReason (mw_rt w) = PauseReasonUser \<and>
    mw_runner w 0 = PauseCheck (ToPrepare 1)"
  by (simp add: run_defs exec_defs)
subsection \<open>Witnesses\<close>

theorem media_state_consistent_witness:
  "\<exists>w. media_run (\<lambda>_. None) (first_playback @ [(0, PauseEvent True PauseReasonUser)]) (media_start 0 (\<lambda>_. [])) = Some w \<and>
    mr_active (mw_rt w) = Some 0 \<and> ap_paused (mw_playback w 0)"
proof -
  obtain w where w: "run_from_start (first_playback @ [(0, PauseEvent True PauseReasonUser)]) = Some w"
    "mr_active (mw_rt w) = Some 0" "ps_Status (fst (media_GetState w)) = StatusPaused"
    by (simp add: run_defs exec_defs)
  then show ?thesis using media_state_consistent [OF w(1)] by auto
qed

theorem media_output_returned_witness:
  "\<exists>w. media_run (\<lambda>_. None) whole_playback (media_start 0 (\<lambda>_. [])) = Some w \<and> all_done w \<and> \<not> mw_mediaPlaybackActive w 7"
proof -
  obtain w where w: "run_from_start whole_playback = Some w" "all_done w" using whole_playback_runs by blast
  then show ?thesis using media_output_returned [OF w(1), of 7] by blast
qed

theorem stale_playback_silent_witness:
  "\<exists>w w'. media_run (\<lambda>_. None) (first_playback @ [(0, StopEvent)]) (media_start 0 (\<lambda>_. [])) = Some w \<and>
    media_run (\<lambda>_. None) (steps_of 0 [EnvEnded None, EnvNothing]) w = Some w' \<and>
    mr_active (mw_rt w') \<noteq> Some 0 \<and> frames_of 0 w' \<le> frames_of 0 w + 1"
proof -
  have "\<exists>w w'. run_from_start (first_playback @ [(0, StopEvent)]) = Some w \<and>
    media_run (\<lambda>_. None) (steps_of 0 [EnvEnded None, EnvNothing]) w = Some w' \<and> mr_active (mw_rt w) \<noteq> Some 0 \<and> 0 < mw_playbacks w"
    by (simp add: run_defs exec_defs media_Stop_def)
  then obtain w w' where w: "run_from_start (first_playback @ [(0, StopEvent)]) = Some w"
    "media_run (\<lambda>_. None) (steps_of 0 [EnvEnded None, EnvNothing]) w = Some w'" "mr_active (mw_rt w) \<noteq> Some 0" "0 < mw_playbacks w"
    by blast
  then show ?thesis using stale_playback_silent [OF w(2,4,3)] by blast
qed

definition second_of_two :: media_world where
  "second_of_two = start_agent_playlist 0 (lit ''a'') [inline_track, inline_track] 1 some_config
     (media_start 0 (\<lambda>_. [inline_track, inline_track]))"

theorem next_prev_circle_witness:
  "starts_track second_of_two 0 (snd (media_Next 0 some_config second_of_two)) \<and>
   starts_track (snd (media_Next 0 some_config second_of_two)) 1
     (snd (media_Prev 0 some_config (snd (media_Next 0 some_config second_of_two))))"
proof -
  have w: "mr_mode (mw_rt second_of_two) = ModeAgentPlaylist" "mr_playlistAgentID (mw_rt second_of_two) = lit ''a''"
    "mr_playbackIndex (mw_rt second_of_two) = 1" "length (mw_playlists second_of_two (lit ''a'')) = 2"
    by (simp_all add: second_of_two_def exec_defs start_agent_playlist_def)
  have a: "trim_space (lit ''a'') = lit ''a''" "lit ''a'' \<noteq> []" by code_simp+
  show ?thesis
    using next_prev_circle [OF w(1,2) a, of 0 some_config 0 some_config] w by simp
qed

end
