(* ===== verification/ClientData.thy ===== *)
theory ClientData
  imports Bytes "HOL-Library.Sublist"
begin

text \<open>
  What the server keeps for a device (\<open>internal/data/client\<close>): the clock of idle time, voice and listening status, the time
  stamps of a turn, the buffers of recorded sound, the history of the conversation, and the watchdog that ends an idle
  session (\<open>runAudioIdleTimeoutWatchdog\<close> of \<open>internal/app/server/chat/asr.go\<close>).

  A \<open>time.Time\<close> is \<open>instant option\<close>, the zero time being \<open>None\<close>; \<open>time.Now()\<close> is an argument. Sizes and durations
  that the code keeps as \<open>int64\<close> and multiplies are 64-bit words. A message pointer is an option.
\<close>

subsection \<open>The clock of idle time (audio\_idle.go)\<close>

record idle_clock =
  ic_startAt :: "instant option"
  ic_pauseAt :: "instant option"
  ic_paused :: bool
  ic_timeoutPending :: bool

definition zero_clock :: idle_clock where
  "zero_clock = \<lparr>ic_startAt = None, ic_pauseAt = None, ic_paused = False, ic_timeoutPending = False\<rparr>"

text \<open>A zero argument means the present moment.\<close>

definition or_now :: "instant \<Rightarrow> instant option \<Rightarrow> instant" where
  "or_now clock now = (case now of None \<Rightarrow> clock | Some t \<Rightarrow> t)"

definition idle_Start :: "instant \<Rightarrow> instant option \<Rightarrow> idle_clock \<Rightarrow> idle_clock" where
  "idle_Start clock now c =
     c\<lparr>ic_startAt := Some (or_now clock now), ic_pauseAt := None, ic_paused := False, ic_timeoutPending := False\<rparr>"

definition idle_Pause :: "instant \<Rightarrow> instant option \<Rightarrow> idle_clock \<Rightarrow> idle_clock" where
  "idle_Pause clock now c =
     (if ic_startAt c = None \<or> ic_paused c then c
      else c\<lparr>ic_pauseAt := Some (or_now clock now), ic_paused := True\<rparr>)"

text \<open>The zero time is a long time before any instant; a paused clock always has a \<open>pauseAt\<close> (\<open>idle_inv\<close> below).\<close>

definition idle_Resume :: "instant \<Rightarrow> instant option \<Rightarrow> idle_clock \<Rightarrow> idle_clock" where
  "idle_Resume clock now c =
     (case (ic_startAt c, ic_pauseAt c) of
        (Some start, Some pause) \<Rightarrow>
          if \<not> ic_paused c then c
          else let now = or_now clock now;
                   now = (if now < pause then pause else now)
               in c\<lparr>ic_startAt := Some (start + (now - pause)), ic_pauseAt := None, ic_paused := False\<rparr>
      | _ \<Rightarrow> c)"

definition idle_Elapsed :: "instant \<Rightarrow> instant option \<Rightarrow> idle_clock \<Rightarrow> int" where
  "idle_Elapsed clock now c =
     (case ic_startAt c of
        None \<Rightarrow> 0
      | Some start \<Rightarrow>
          (case (if ic_paused c then ic_pauseAt c else Some (or_now clock now)) of
             None \<Rightarrow> 0
           | Some endAt \<Rightarrow> if endAt < start then 0 else endAt - start))"

definition idle_Reset :: "idle_clock \<Rightarrow> idle_clock" where
  "idle_Reset c = c\<lparr>ic_startAt := None, ic_pauseAt := None, ic_paused := False, ic_timeoutPending := False\<rparr>"

definition idle_Started :: "idle_clock \<Rightarrow> bool" where
  "idle_Started c \<longleftrightarrow> ic_startAt c \<noteq> None"

definition idle_MarkTimeoutPending :: "idle_clock \<Rightarrow> bool \<times> idle_clock" where
  "idle_MarkTimeoutPending c = (if ic_timeoutPending c then (False, c) else (True, c\<lparr>ic_timeoutPending := True\<rparr>))"

definition idle_ClearTimeoutPending :: "idle_clock \<Rightarrow> idle_clock" where
  "idle_ClearTimeoutPending c = c\<lparr>ic_timeoutPending := False\<rparr>"

subsection \<open>The state of a client\<close>

record voice_status =
  vs_HaveVoice :: bool
  vs_HaveVoiceLastTime :: int
  vs_VoiceStop :: bool
  vs_SilenceThresholdTime :: int

definition voice_Reset :: "voice_status \<Rightarrow> voice_status" where
  "voice_Reset v = v\<lparr>vs_HaveVoice := False, vs_HaveVoiceLastTime := 0, vs_VoiceStop := False\<rparr>"

definition voice_IsSilence :: "voice_status \<Rightarrow> int \<Rightarrow> bool" where
  "voice_IsSilence v diffMilli \<longleftrightarrow> diffMilli > vs_SilenceThresholdTime v"

record statistic =
  st_TurnStartTs :: int
  st_VoiceSilenceTs :: int
  st_AsrFirstTextTs :: int
  st_AsrFinalTextTs :: int
  st_LlmStartTs :: int
  st_LlmFirstTokenTs :: int
  st_LlmFirstSentenceTs :: int
  st_LlmEndTs :: int
  st_TtsStartTs :: int
  st_TtsFirstFrameTs :: int
  st_TtsStopTs :: int

definition zero_statistic :: statistic where
  "zero_statistic = \<lparr>st_TurnStartTs = 0, st_VoiceSilenceTs = 0, st_AsrFirstTextTs = 0, st_AsrFinalTextTs = 0, st_LlmStartTs = 0,
     st_LlmFirstTokenTs = 0, st_LlmFirstSentenceTs = 0, st_LlmEndTs = 0, st_TtsStartTs = 0, st_TtsFirstFrameTs = 0,
     st_TtsStopTs = 0\<rparr>"

record vad_state =
  va_provider :: bool
  va_IdleDuration :: int
  va_VoiceDuration :: int
  va_VoiceDurationInSession :: int

datatype role = RoleSystem | RoleUser | RoleAssistant | RoleTool

record message =
  msg_Role :: role
  msg_Content :: gotext
  msg_ToolCalls :: "gotext list"
  msg_ToolCallID :: gotext

definition ClientStatusInit :: string where "ClientStatusInit = ''init''"
definition ClientStatusListening :: string where "ClientStatusListening = ''listening''"
definition ClientStatusListenStop :: string where "ClientStatusListenStop = ''listenStop''"
definition ClientStatusLLMStart :: string where "ClientStatusLLMStart = ''llmStart''"
definition ClientStatusTTSStart :: string where "ClientStatusTTSStart = ''ttsStart''"
definition ListenPhaseIdle :: string where "ListenPhaseIdle = ''idle''"

lemmas status_names = ClientStatusInit_def ClientStatusListening_def ClientStatusListenStop_def ClientStatusLLMStart_def
  ClientStatusTTSStart_def ListenPhaseIdle_def

text \<open>
  The parts of \<open>ClientState\<close> that its own methods change; \<open>cs_AsrAudioChannel\<close> says whether the channel to the
  recogniser is open, and \<open>cs_AsrAudio\<close> is the \<open>PcmData\<close> of its \<open>AsrAudioBuffer\<close>.
\<close>

record 'pcm client_state =
  cs_ListenMode :: string
  cs_ListenPhase :: string
  cs_Status :: string
  cs_IsTtsStart :: bool
  cs_IsWelcomePlaying :: bool
  cs_VoiceStatus :: voice_status
  cs_Vad :: vad_state
  cs_AudioIdle :: idle_clock
  cs_goodbyeIdleArmed :: bool
  cs_Statistic :: statistic
  cs_AsrAudioChannel :: bool
  cs_ReceivedTextInTurn :: bool
  cs_AsrAudio :: "'pcm list"
  cs_Messages :: "message option list"
  cs_OwnerUserID :: nat
  cs_AgentID :: gotext
  cs_DeviceID :: gotext
  cs_recentStoryID :: gotext
  cs_recentStoryTitle :: gotext
  cs_recentStoryTheme :: gotext
  cs_recentStoryAt :: "instant option"

definition IsRealTime :: "'p client_state \<Rightarrow> bool" where
  "IsRealTime c \<longleftrightarrow> cs_ListenMode c = ''realtime''"

definition UsesAudioIdleClock :: "'p client_state \<Rightarrow> bool" where
  "UsesAudioIdleClock c \<longleftrightarrow> cs_goodbyeIdleArmed c \<or> cs_ListenMode c = ''auto'' \<or> IsRealTime c"

definition SetStatus :: "string \<Rightarrow> 'p client_state \<Rightarrow> 'p client_state" where
  "SetStatus s c = c\<lparr>cs_Status := s\<rparr>"

definition SetListenPhase :: "string \<Rightarrow> 'p client_state \<Rightarrow> 'p client_state" where
  "SetListenPhase p c = c\<lparr>cs_ListenPhase := p\<rparr>"

definition SetTtsStart :: "bool \<Rightarrow> 'p client_state \<Rightarrow> 'p client_state" where
  "SetTtsStart b c = c\<lparr>cs_IsTtsStart := b\<rparr>"

definition SetClientVoiceStop :: "bool \<Rightarrow> 'p client_state \<Rightarrow> 'p client_state" where
  "SetClientVoiceStop b c = c\<lparr>cs_VoiceStatus := (cs_VoiceStatus c)\<lparr>vs_VoiceStop := b\<rparr>\<rparr>"

definition upd_idle :: "(idle_clock \<Rightarrow> idle_clock) \<Rightarrow> 'p client_state \<Rightarrow> 'p client_state" where
  "upd_idle f c = c\<lparr>cs_AudioIdle := f (cs_AudioIdle c)\<rparr>"

definition StartAudioIdleWindow :: "instant \<Rightarrow> instant option \<Rightarrow> 'p client_state \<Rightarrow> 'p client_state" where
  "StartAudioIdleWindow clock now c =
     (if \<not> UsesAudioIdleClock c then c else SetClientVoiceStop False (upd_idle (idle_Start clock now) c))"

definition PauseAudioIdleWindow :: "instant \<Rightarrow> instant option \<Rightarrow> 'p client_state \<Rightarrow> 'p client_state" where
  "PauseAudioIdleWindow clock now c = (if \<not> UsesAudioIdleClock c then c else upd_idle (idle_Pause clock now) c)"

definition ResumeAudioIdleWindow :: "instant \<Rightarrow> instant option \<Rightarrow> 'p client_state \<Rightarrow> 'p client_state" where
  "ResumeAudioIdleWindow clock now c =
     (if \<not> UsesAudioIdleClock c then c else SetClientVoiceStop False (upd_idle (idle_Resume clock now) c))"

definition ArmGoodbyeIdleWindow :: "instant \<Rightarrow> instant option \<Rightarrow> 'p client_state \<Rightarrow> 'p client_state" where
  "ArmGoodbyeIdleWindow clock now c =
     SetClientVoiceStop False (upd_idle (idle_Start clock now) (c\<lparr>cs_goodbyeIdleArmed := True\<rparr>))"

definition DisarmGoodbyeIdleWindow :: "'p client_state \<Rightarrow> 'p client_state" where
  "DisarmGoodbyeIdleWindow c = c\<lparr>cs_goodbyeIdleArmed := False\<rparr>"

definition ResetGoodbyeIdleWindow :: "instant \<Rightarrow> instant option \<Rightarrow> 'p client_state \<Rightarrow> 'p client_state" where
  "ResetGoodbyeIdleWindow clock now c =
     (if \<not> cs_goodbyeIdleArmed c then c else SetClientVoiceStop False (upd_idle (idle_Start clock now) c))"

definition ShouldCountAudioIdleTimeout :: "'p client_state \<Rightarrow> bool" where
  "ShouldCountAudioIdleTimeout c \<longleftrightarrow>
     \<not> cs_IsTtsStart c \<and> cs_Status c \<noteq> ClientStatusLLMStart \<and> cs_Status c \<noteq> ClientStatusTTSStart"

definition NoteUplinkActivity :: "instant \<Rightarrow> instant option \<Rightarrow> 'p client_state \<Rightarrow> 'p client_state" where
  "NoteUplinkActivity clock now c =
     (let now = Some (or_now clock now) in
      if cs_goodbyeIdleArmed c then ResetGoodbyeIdleWindow clock now c
      else if \<not> UsesAudioIdleClock c \<or> \<not> idle_Started (cs_AudioIdle c) \<or> ic_paused (cs_AudioIdle c) then c
      else if \<not> ShouldCountAudioIdleTimeout c then c
      else upd_idle (idle_Start clock now) c)"

text \<open>\<open>setting\<close> is \<open>chat.max_idle_duration\<close> of the configuration, if it is set; \<open>math.MaxInt64\<close> stands for no limit.\<close>

definition MaxInt64 :: "64 word" where "MaxInt64 = 0x7FFFFFFFFFFFFFFF"

definition GetMaxIdleDuration :: "64 word option \<Rightarrow> 64 word" where
  "GetMaxIdleDuration setting =
     (case setting of None \<Rightarrow> 30000 | Some d \<Rightarrow> if sint d \<le> 0 then MaxInt64 else d)"

definition GetPreAsrTextSilenceDuration :: "64 word option \<Rightarrow> 'p client_state \<Rightarrow> int" where
  "GetPreAsrTextSilenceDuration setting c =
     (case setting of
        Some d \<Rightarrow> if sint d \<le> 0 then sint MaxInt64 else sint d
      | None \<Rightarrow>
          let base = vs_SilenceThresholdTime (cs_VoiceStatus c);
              base = (if base \<le> 0 then 400 else base);
              d = base * 4
          in if d < 1000 then 1000 else d)"

subsection \<open>Time stamps of a turn (statistics.go)\<close>

definition upd_stat :: "(statistic \<Rightarrow> statistic) \<Rightarrow> 'p client_state \<Rightarrow> 'p client_state" where
  "upd_stat f c = c\<lparr>cs_Statistic := f (cs_Statistic c)\<rparr>"

definition MarkTurnStart :: "int \<Rightarrow> 'p client_state \<Rightarrow> 'p client_state" where
  "MarkTurnStart nowMs =
     upd_stat (\<lambda>s. s\<lparr>st_TurnStartTs := nowMs, st_VoiceSilenceTs := 0, st_AsrFirstTextTs := 0, st_AsrFinalTextTs := 0\<rparr>)"

definition MarkVoiceSilenceAt :: "int \<Rightarrow> 'p client_state \<Rightarrow> bool \<times> 'p client_state" where
  "MarkVoiceSilenceAt ts c =
     (if st_VoiceSilenceTs (cs_Statistic c) \<noteq> 0 then (False, c) else (True, upd_stat (\<lambda>s. s\<lparr>st_VoiceSilenceTs := ts\<rparr>) c))"

definition MarkAsrFirstText :: "int \<Rightarrow> 'p client_state \<Rightarrow> 'p client_state" where
  "MarkAsrFirstText nowMs c =
     (if st_AsrFirstTextTs (cs_Statistic c) = 0 then upd_stat (\<lambda>s. s\<lparr>st_AsrFirstTextTs := nowMs\<rparr>) c else c)"

definition MarkAsrFinalTextAt :: "int \<Rightarrow> 'p client_state \<Rightarrow> bool \<times> 'p client_state" where
  "MarkAsrFinalTextAt ts c =
     (if st_AsrFinalTextTs (cs_Statistic c) \<noteq> 0 then (False, c) else (True, upd_stat (\<lambda>s. s\<lparr>st_AsrFinalTextTs := ts\<rparr>) c))"

definition MarkLlmStart :: "int \<Rightarrow> 'p client_state \<Rightarrow> 'p client_state" where
  "MarkLlmStart nowMs =
     upd_stat (\<lambda>s. s\<lparr>st_LlmStartTs := nowMs, st_LlmFirstTokenTs := 0, st_LlmFirstSentenceTs := 0, st_LlmEndTs := 0\<rparr>)"

definition MarkLlmFirstSentenceAt :: "int \<Rightarrow> 'p client_state \<Rightarrow> bool \<times> 'p client_state" where
  "MarkLlmFirstSentenceAt ts c =
     (if st_LlmFirstSentenceTs (cs_Statistic c) \<noteq> 0 then (False, c)
      else (True, upd_stat (\<lambda>s. s\<lparr>st_LlmFirstSentenceTs := ts\<rparr>) c))"

definition MarkTtsStart :: "int \<Rightarrow> 'p client_state \<Rightarrow> 'p client_state" where
  "MarkTtsStart nowMs = upd_stat (\<lambda>s. s\<lparr>st_TtsStartTs := nowMs, st_TtsFirstFrameTs := 0, st_TtsStopTs := 0\<rparr>)"

definition MarkTtsFirstFrame :: "int \<Rightarrow> 'p client_state \<Rightarrow> 'p client_state" where
  "MarkTtsFirstFrame nowMs c =
     (if st_TtsFirstFrameTs (cs_Statistic c) = 0 then upd_stat (\<lambda>s. s\<lparr>st_TtsFirstFrameTs := nowMs\<rparr>) c else c)"

definition MarkTtsStop :: "int \<Rightarrow> 'p client_state \<Rightarrow> 'p client_state" where
  "MarkTtsStop nowMs = upd_stat (\<lambda>s. s\<lparr>st_TtsStopTs := nowMs\<rparr>)"

definition calcStatisticDuration :: "int \<Rightarrow> int \<Rightarrow> int" where
  "calcStatisticDuration start end' = (if start \<le> 0 \<or> end' \<le> 0 \<or> end' < start then 0 else end' - start)"

definition GetAsrLlmTtsDuration :: "'p client_state \<Rightarrow> int" where
  "GetAsrLlmTtsDuration c = calcStatisticDuration (st_VoiceSilenceTs (cs_Statistic c)) (st_TtsFirstFrameTs (cs_Statistic c))"

subsection \<open>The end of an utterance\<close>

definition vad_Reset :: "vad_state \<Rightarrow> vad_state" where
  "vad_Reset v = v\<lparr>va_provider := False, va_IdleDuration := 0, va_VoiceDuration := 0, va_VoiceDurationInSession := 0\<rparr>"

definition Asr_Stop :: "'p client_state \<Rightarrow> 'p client_state" where
  "Asr_Stop c = (if cs_AsrAudioChannel c then c\<lparr>cs_AsrAudioChannel := False\<rparr> else c)"

text \<open>The first component says whether the metric callback is told about the silence; the speaker callback always is.\<close>

definition OnVoiceSilence :: "int \<Rightarrow> 'p client_state \<Rightarrow> bool \<times> 'p client_state" where
  "OnVoiceSilence silenceTs c =
     (case MarkVoiceSilenceAt silenceTs c of (first, c1) \<Rightarrow>
        let c2 = c1\<lparr>cs_ReceivedTextInTurn := False\<rparr>;
            c3 = Asr_Stop (SetClientVoiceStop True c2);
            c4 = c3\<lparr>cs_Vad := vad_Reset (cs_Vad c3)\<rparr>
        in (first, SetListenPhase ListenPhaseIdle (SetStatus ClientStatusListenStop c4)))"

definition OnManualStop :: "int \<Rightarrow> 'p client_state \<Rightarrow> bool \<times> 'p client_state" where
  "OnManualStop silenceTs c = OnVoiceSilence silenceTs (upd_idle idle_ClearTimeoutPending c)"

definition client_Destroy :: "'p client_state \<Rightarrow> 'p client_state" where
  "client_Destroy c =
     (let c1 = Asr_Stop c;
          c2 = c1\<lparr>cs_Vad := vad_Reset (cs_Vad c1)\<rparr>;
          c3 = upd_idle idle_ClearTimeoutPending (upd_idle idle_Reset (DisarmGoodbyeIdleWindow c2));
          c4 = c3\<lparr>cs_VoiceStatus := voice_Reset (cs_VoiceStatus c3), cs_AsrAudio := [], cs_Statistic := zero_statistic\<rparr>
      in SetTtsStart False (SetListenPhase ListenPhaseIdle (SetStatus ClientStatusInit c4)))"

subsection \<open>The watchdog (asr.go)\<close>

datatype watchdog_action = WatchdogNothing | WatchdogCloseSession | WatchdogVoiceSilence

definition millisecond :: "64 word" where "millisecond = 1000000"

text \<open>\<open>time.Duration(...) * time.Millisecond\<close> is a product of 64-bit integers.\<close>

definition idle_threshold :: "64 word option \<Rightarrow> 64 word" where
  "idle_threshold setting = GetMaxIdleDuration setting * millisecond"

text \<open>One tick of the watchdog, with a session to close.\<close>

definition watchdog_tick ::
  "64 word option \<Rightarrow> instant \<Rightarrow> int \<Rightarrow> 'p client_state \<Rightarrow> watchdog_action \<times> 'p client_state" where
  "watchdog_tick setting clock nowMs c =
     (if \<not> UsesAudioIdleClock c \<or> \<not> idle_Started (cs_AudioIdle c) \<or> ic_paused (cs_AudioIdle c) then (WatchdogNothing, c)
      else if \<not> ShouldCountAudioIdleTimeout c \<or> cs_ReceivedTextInTurn c then (WatchdogNothing, c)
      else if vs_VoiceStop (cs_VoiceStatus c) \<or> ic_timeoutPending (cs_AudioIdle c) then (WatchdogNothing, c)
      else let elapsed = idle_Elapsed clock (Some clock) (cs_AudioIdle c) in
        if elapsed < sint (idle_threshold setting) then (WatchdogNothing, c)
        else case idle_MarkTimeoutPending (cs_AudioIdle c) of
          (False, _) \<Rightarrow> (WatchdogNothing, c)
        | (True, idle) \<Rightarrow>
            let c1 = c\<lparr>cs_AudioIdle := idle\<rparr> in
            if \<not> cs_AsrAudioChannel c1 then
              (if \<not> ShouldCountAudioIdleTimeout c1 then (WatchdogNothing, upd_idle idle_ClearTimeoutPending c1)
               else (WatchdogCloseSession, c1))
            else (WatchdogVoiceSilence, snd (OnVoiceSilence nowMs c1)))"

subsection \<open>The history of a conversation (client.go)\<close>

definition validToolCallIDs :: "message option list \<Rightarrow> gotext list" where
  "validToolCallIDs messages =
     concat (map (\<lambda>m. case m of None \<Rightarrow> []
       | Some msg \<Rightarrow> if msg_Role msg = RoleAssistant then filter (\<lambda>i. i \<noteq> []) (msg_ToolCalls msg) else []) messages)"

definition usedToolCallIDs :: "message option list \<Rightarrow> gotext list" where
  "usedToolCallIDs messages =
     concat (map (\<lambda>m. case m of None \<Rightarrow> []
       | Some msg \<Rightarrow> if msg_Role msg = RoleTool \<and> msg_ToolCallID msg \<noteq> [] then [msg_ToolCallID msg] else []) messages)"

text \<open>What the second loop appends for one message: an assistant's message once for each of its calls that is answered.\<close>

definition align_one :: "gotext list \<Rightarrow> gotext list \<Rightarrow> message option \<Rightarrow> message option list" where
  "align_one valid used m =
     (case m of
        None \<Rightarrow> []
      | Some msg \<Rightarrow>
          if msg_Role msg = RoleTool then
            (if msg_ToolCallID msg \<noteq> [] \<and> msg_ToolCallID msg \<in> set valid then [m] else [])
          else if msg_Role msg = RoleAssistant \<and> msg_ToolCalls msg \<noteq> [] then
            concat (map (\<lambda>i. if i \<noteq> [] then (if i \<in> set used then [m] else []) else []) (msg_ToolCalls msg))
          else [m])"

definition AlignToolMessages :: "message option list \<Rightarrow> message option list" where
  "AlignToolMessages messages =
     (if messages = [] then messages
      else concat (map (align_one (validToolCallIDs messages) (usedToolCallIDs messages)) messages))"

definition AddMessage :: "message option \<Rightarrow> 'p client_state \<Rightarrow> 'p client_state" where
  "AddMessage m c = (if m = None then c else c\<lparr>cs_Messages := cs_Messages c @ [m]\<rparr>)"

text \<open>A negative \<open>count\<close> would slice beyond the end, which panics: \<open>None\<close>.\<close>

definition GetMessages :: "int \<Rightarrow> 'p client_state \<Rightarrow> message option list option" where
  "GetMessages count c =
     (if cs_Messages c = [] then Some []
      else let startIndex = int (length (cs_Messages c)) - count;
               startIndex = (if startIndex < 0 then 0 else startIndex)
           in if startIndex > int (length (cs_Messages c)) then None
              else Some (AlignToolMessages (drop (nat startIndex) (cs_Messages c))))"

definition InitMessages :: "message option list \<Rightarrow> 'p client_state \<Rightarrow> 'p client_state" where
  "InitMessages messages c = c\<lparr>cs_Messages := AlignToolMessages messages\<rparr>"

definition ApplyOwnerIdentity :: "nat \<Rightarrow> gotext \<Rightarrow> 'p client_state \<Rightarrow> 'p client_state" where
  "ApplyOwnerIdentity userID agentID c =
     (let agentID = trim_space agentID;
          changed = (cs_OwnerUserID c \<noteq> userID \<or> cs_AgentID c \<noteq> agentID);
          c1 = c\<lparr>cs_OwnerUserID := userID, cs_AgentID := agentID\<rparr>
      in if changed then InitMessages [] c1 else c1)"

definition GetMemoryUserID :: "'p client_state \<Rightarrow> gotext" where
  "GetMemoryUserID c = (if cs_DeviceID c \<noteq> [] then cs_DeviceID c else cs_AgentID c)"

definition SetRecentStoryPointer :: "instant \<Rightarrow> gotext \<Rightarrow> gotext \<Rightarrow> gotext \<Rightarrow> 'p client_state \<Rightarrow> 'p client_state" where
  "SetRecentStoryPointer clock storyID title theme c =
     (let storyID = trim_space storyID in
      if storyID = [] then c
      else c\<lparr>cs_recentStoryID := storyID, cs_recentStoryTitle := trim_space title, cs_recentStoryTheme := trim_space theme,
             cs_recentStoryAt := Some clock\<rparr>)"

definition thirty_minutes :: int where "thirty_minutes = 30 * 60 * 1000000000"

definition RecentStoryPointer :: "instant \<Rightarrow> int \<Rightarrow> 'p client_state \<Rightarrow> (gotext \<times> gotext \<times> gotext) option" where
  "RecentStoryPointer clock ttl c =
     (let ttl = (if ttl \<le> 0 then thirty_minutes else ttl) in
      if cs_recentStoryID c = [] then None
      else if (case cs_recentStoryAt c of None \<Rightarrow> False | Some t \<Rightarrow> clock - t > ttl) then None
      else Some (cs_recentStoryID c, cs_recentStoryTitle c, cs_recentStoryTheme c))"

subsection \<open>Buffers of recorded sound (asr.go)\<close>

definition AddAsrAudioData :: "'p list \<Rightarrow> 'p list \<Rightarrow> 'p list" where
  "AddAsrAudioData frame pcm = pcm @ frame"

definition GetFrameCount :: "nat \<Rightarrow> 'p list \<Rightarrow> nat" where
  "GetFrameCount frameSize pcm = (if frameSize = 0 then 0 else length pcm div frameSize)"

definition GetAndClearAllData :: "'p list \<Rightarrow> 'p list \<times> 'p list" where
  "GetAndClearAllData pcm = (pcm, [])"

definition GetAsrData :: "nat \<Rightarrow> nat \<Rightarrow> 'p list \<Rightarrow> 'p list" where
  "GetAsrData frameCount frameSize pcm =
     (let pcmDataLen = length pcm;
          retSize = frameCount * frameSize;
          retSize = (if pcmDataLen < retSize then pcmDataLen else retSize)
      in drop (pcmDataLen - retSize) pcm)"

definition RemoveAsrAudioData :: "nat \<Rightarrow> nat \<Rightarrow> 'p list \<Rightarrow> 'p list" where
  "RemoveAsrAudioData frameCount frameSize pcm =
     (let removeSize = frameCount * frameSize;
          removeSize = (if removeSize > length pcm then length pcm else removeSize)
      in drop removeSize pcm)"

definition trimFirstSpeechAudio :: "int \<Rightarrow> 'p list \<Rightarrow> int \<Rightarrow> int \<Rightarrow> int \<Rightarrow> 'p list" where
  "trimFirstSpeechAudio preAudioMs allData currentFrameSamples sampleRate channels =
     (if length allData = 0 then []
      else if currentFrameSamples \<le> 0 \<or> currentFrameSamples > int (length allData) \<or> sampleRate \<le> 0 \<or> channels \<le> 0 then allData
      else let maxPreSpeechSamples = sampleRate * channels * preAudioMs div 1000;
               keepSamples = currentFrameSamples + maxPreSpeechSamples
           in if keepSamples \<ge> int (length allData) then allData
              else drop (length allData - nat keepSamples) allData)"
subsection \<open>The clock counts the time it was not paused\<close>

datatype idle_op = OpStart instant | OpPause instant | OpResume instant | OpReset | OpMark | OpClear

fun idle_exec :: "idle_op \<Rightarrow> idle_clock \<Rightarrow> idle_clock" where
  "idle_exec (OpStart t) c = idle_Start t (Some t) c"
| "idle_exec (OpPause t) c = idle_Pause t (Some t) c"
| "idle_exec (OpResume t) c = idle_Resume t (Some t) c"
| "idle_exec OpReset c = idle_Reset c"
| "idle_exec OpMark c = snd (idle_MarkTimeoutPending c)"
| "idle_exec OpClear c = idle_ClearTimeoutPending c"

text \<open>The specification: a stopwatch that is off, running with some time already counted, or halted.\<close>

datatype stopwatch = WatchOff | WatchRunning int instant | WatchHalted int

fun watch_exec :: "idle_op \<Rightarrow> stopwatch \<Rightarrow> stopwatch" where
  "watch_exec (OpStart t) w = WatchRunning 0 t"
| "watch_exec (OpPause t) (WatchRunning counted since) = WatchHalted (counted + (t - since))"
| "watch_exec (OpPause t) w = w"
| "watch_exec (OpResume t) (WatchHalted counted) = WatchRunning counted t"
| "watch_exec (OpResume t) w = w"
| "watch_exec OpReset w = WatchOff"
| "watch_exec OpMark w = w"
| "watch_exec OpClear w = w"

fun watch_read :: "instant \<Rightarrow> stopwatch \<Rightarrow> int" where
  "watch_read t WatchOff = 0"
| "watch_read t (WatchRunning counted since) = counted + (t - since)"
| "watch_read t (WatchHalted counted) = counted"

text \<open>\<open>clock_shows t c w\<close>: at time \<open>t\<close> and later the clock \<open>c\<close> stands for the stopwatch \<open>w\<close>.\<close>

fun clock_shows :: "instant \<Rightarrow> idle_clock \<Rightarrow> stopwatch \<Rightarrow> bool" where
  "clock_shows t c WatchOff \<longleftrightarrow> ic_startAt c = None \<and> \<not> ic_paused c"
| "clock_shows t c (WatchRunning counted since) \<longleftrightarrow>
     \<not> ic_paused c \<and> ic_startAt c = Some (since - counted) \<and> 0 \<le> counted \<and> since \<le> t"
| "clock_shows t c (WatchHalted counted) \<longleftrightarrow>
     ic_paused c \<and> (\<exists>p. ic_pauseAt c = Some p \<and> ic_startAt c = Some (p - counted) \<and> p \<le> t) \<and> 0 \<le> counted"

fun op_time :: "instant \<Rightarrow> idle_op \<Rightarrow> instant" where
  "op_time t (OpStart t') = t'"
| "op_time t (OpPause t') = t'"
| "op_time t (OpResume t') = t'"
| "op_time t _ = t"

lemma clock_step:
  assumes "clock_shows t c w" "t \<le> op_time t op"
  shows "clock_shows (op_time t op) (idle_exec op c) (watch_exec op w)"
  using assms
  by (cases op; cases w)
    (auto simp: idle_Start_def idle_Pause_def idle_Resume_def idle_Reset_def idle_MarkTimeoutPending_def
      idle_ClearTimeoutPending_def or_now_def Let_def split: option.splits)

lemma clock_read: "clock_shows t c w \<Longrightarrow> t \<le> now \<Longrightarrow> idle_Elapsed clock (Some now) c = watch_read now w"
  by (cases w) (auto simp: idle_Elapsed_def or_now_def)

text \<open>Operations in the order of a clock that does not go back.\<close>

fun in_order :: "instant \<Rightarrow> idle_op list \<Rightarrow> bool" where
  "in_order t [] = True"
| "in_order t (op # ops) = (t \<le> op_time t op \<and> in_order (op_time t op) ops)"

fun end_time :: "instant \<Rightarrow> idle_op list \<Rightarrow> instant" where
  "end_time t [] = t"
| "end_time t (op # ops) = end_time (op_time t op) ops"

lemma clock_run:
  "clock_shows t c w \<Longrightarrow> in_order t ops \<Longrightarrow> clock_shows (end_time t ops) (fold idle_exec ops c) (fold watch_exec ops w)"
  by (induction ops arbitrary: t c w) (auto intro: clock_step)

text \<open>
  C31. The idle clock is a stopwatch: after any sequence of starts, pauses, resumes, resets and timeout marks whose times do
  not go back, \<open>Elapsed\<close> shows what a stopwatch shows that adds up the stretches since the last start during which it was
  not paused. (The implementation keeps no sum; it shifts its start instead.)
\<close>

theorem idle_clock_refines_stopwatch:
  assumes "in_order t ops" "end_time t ops \<le> now"
  shows "idle_Elapsed clock (Some now) (fold idle_exec ops zero_clock) = watch_read now (fold watch_exec ops WatchOff)"
proof -
  have "clock_shows t zero_clock WatchOff" by (simp add: zero_clock_def)
  then show ?thesis using assms by (intro clock_read [OF clock_run])
qed

theorem idle_clock_refines_stopwatch_witness:
  "idle_Elapsed 0 (Some 100) (fold idle_exec [OpStart 10, OpPause 30, OpResume 70, OpMark] zero_clock) = 50"
  using idle_clock_refines_stopwatch [of 0 "[OpStart 10, OpPause 30, OpResume 70, OpMark]" 100 0] by simp

subsection \<open>The watchdog and its threshold\<close>

definition idle_now :: "'p client_state \<Rightarrow> bool" where
  "idle_now c \<longleftrightarrow> UsesAudioIdleClock c \<and> idle_Started (cs_AudioIdle c) \<and> \<not> ic_paused (cs_AudioIdle c) \<and>
     ShouldCountAudioIdleTimeout c \<and> \<not> cs_ReceivedTextInTurn c \<and> \<not> vs_VoiceStop (cs_VoiceStatus c) \<and>
     \<not> ic_timeoutPending (cs_AudioIdle c)"

lemma watchdog_fires:
  "fst (watchdog_tick setting clock nowMs c) =
    (if idle_now c \<and> sint (idle_threshold setting) \<le> idle_Elapsed clock (Some clock) (cs_AudioIdle c)
     then (if cs_AsrAudioChannel c then WatchdogVoiceSilence else WatchdogCloseSession) else WatchdogNothing)"
  by (auto simp: watchdog_tick_def idle_now_def idle_MarkTimeoutPending_def ShouldCountAudioIdleTimeout_def Let_def)

lemma threshold_small:
  assumes "0 < sint d" "sint d \<le> 9223372036854"
  shows "sint (idle_threshold (Some d)) = sint d * 1000000"
proof -
  have "sint (d * millisecond) = signed_take_bit 63 (sint d * sint millisecond)"
    by (simp add: sint_word_ariths)
  moreover have "sint millisecond = 1000000" by (simp add: millisecond_def)
  ultimately show ?thesis
    using assms by (simp add: idle_threshold_def GetMaxIdleDuration_def signed_take_bit_int_eq_self)
qed

lemma threshold_default: "sint (idle_threshold None) = 30000 * 1000000"
  by (simp add: idle_threshold_def GetMaxIdleDuration_def millisecond_def)

lemma threshold_unlimited: "sint d \<le> 0 \<Longrightarrow> sint (idle_threshold (Some d)) = - 1000000"
  by (simp add: idle_threshold_def GetMaxIdleDuration_def MaxInt64_def millisecond_def)

text \<open>
  The watchdog ends a session exactly if the idle clock has run for \<open>max_idle_duration\<close> milliseconds (30 seconds by
  default) with nothing going on, as long as the setting is positive and its product with a million fits in 64 bits: it
  then closes the session, or ends the utterance if the recogniser still listens. A second tick does nothing, because the
  timeout is marked or the voice stopped.
\<close>

theorem watchdog_timeout:
  assumes "case setting of None \<Rightarrow> limit = 30000 | Some d \<Rightarrow> limit = sint d \<and> 0 < limit \<and> limit \<le> 9223372036854"
  shows "(fst (watchdog_tick setting clock nowMs c) \<noteq> WatchdogNothing \<longleftrightarrow>
      idle_now c \<and> limit * 1000000 \<le> idle_Elapsed clock (Some clock) (cs_AudioIdle c)) \<and>
    (fst (watchdog_tick setting clock nowMs c) = WatchdogVoiceSilence \<longrightarrow> cs_AsrAudioChannel c \<and>
      \<not> cs_AsrAudioChannel (snd (watchdog_tick setting clock nowMs c))) \<and>
    (fst (watchdog_tick setting clock nowMs c) \<noteq> WatchdogNothing \<longrightarrow>
      fst (watchdog_tick setting clock' nowMs' (snd (watchdog_tick setting clock nowMs c))) = WatchdogNothing)"
proof (intro conjI impI)
  have t: "sint (idle_threshold setting) = limit * 1000000"
    using assms threshold_small threshold_default by (auto split: option.splits)
  show "fst (watchdog_tick setting clock nowMs c) \<noteq> WatchdogNothing \<longleftrightarrow>
      idle_now c \<and> limit * 1000000 \<le> idle_Elapsed clock (Some clock) (cs_AudioIdle c)"
    by (simp add: watchdog_fires t)
  assume f: "fst (watchdog_tick setting clock nowMs c) \<noteq> WatchdogNothing"
  then have "ic_timeoutPending (cs_AudioIdle (snd (watchdog_tick setting clock nowMs c)))"
    by (auto simp: watchdog_tick_def idle_MarkTimeoutPending_def Let_def OnVoiceSilence_def MarkVoiceSilenceAt_def
        upd_stat_def Asr_Stop_def SetClientVoiceStop_def SetListenPhase_def SetStatus_def upd_idle_def
        split: if_splits)
  then show "fst (watchdog_tick setting clock' nowMs' (snd (watchdog_tick setting clock nowMs c))) = WatchdogNothing"
    by (simp add: watchdog_fires idle_now_def)
next
  assume "fst (watchdog_tick setting clock nowMs c) = WatchdogVoiceSilence"
  then show "cs_AsrAudioChannel c" "\<not> cs_AsrAudioChannel (snd (watchdog_tick setting clock nowMs c))"
    by (auto simp: watchdog_tick_def idle_MarkTimeoutPending_def Let_def OnVoiceSilence_def MarkVoiceSilenceAt_def
        upd_stat_def Asr_Stop_def SetClientVoiceStop_def SetListenPhase_def SetStatus_def upd_idle_def
        split: if_splits)
qed

text \<open>
  A defect: with \<open>max_idle_duration\<close> zero, which the configuration documents as no limit, the threshold is
  \<open>math.MaxInt64\<close> milliseconds, whose product with a million wraps around to minus one millisecond. Any idle session,
  however short its idle time, is ended by the next tick.
\<close>

theorem unlimited_idle_times_out:
  assumes "sint d \<le> 0" "idle_now c"
  shows "sint (idle_threshold (Some d)) = - 1000000 \<and>
    fst (watchdog_tick (Some d) clock nowMs c) = (if cs_AsrAudioChannel c then WatchdogVoiceSilence else WatchdogCloseSession)"
proof -
  have "0 \<le> idle_Elapsed clock (Some clock) (cs_AudioIdle c)"
    by (auto simp: idle_Elapsed_def split: option.splits)
  then show ?thesis using assms threshold_unlimited [of d] by (simp add: watchdog_fires)
qed
definition demo_client :: "unit client_state" where
  "demo_client = \<lparr>cs_ListenMode = ''auto'', cs_ListenPhase = ''idle'', cs_Status = ClientStatusListening, cs_IsTtsStart = False,
     cs_IsWelcomePlaying = False,
     cs_VoiceStatus = \<lparr>vs_HaveVoice = False, vs_HaveVoiceLastTime = 0, vs_VoiceStop = False, vs_SilenceThresholdTime = 0\<rparr>,
     cs_Vad = \<lparr>va_provider = False, va_IdleDuration = 0, va_VoiceDuration = 0, va_VoiceDurationInSession = 0\<rparr>,
     cs_AudioIdle = idle_Start 0 (Some 5) zero_clock, cs_goodbyeIdleArmed = False, cs_Statistic = zero_statistic,
     cs_AsrAudioChannel = False, cs_ReceivedTextInTurn = False, cs_AsrAudio = [], cs_Messages = [], cs_OwnerUserID = 0,
     cs_AgentID = [], cs_DeviceID = [], cs_recentStoryID = [], cs_recentStoryTitle = [], cs_recentStoryTheme = [],
     cs_recentStoryAt = None\<rparr>"

lemma demo_client_idle: "idle_now demo_client" "idle_Elapsed 6 (Some 6) (cs_AudioIdle demo_client) = 1"
  "\<not> cs_AsrAudioChannel demo_client"
  by (simp_all add: demo_client_def idle_now_def UsesAudioIdleClock_def idle_Started_def ShouldCountAudioIdleTimeout_def
      idle_Start_def zero_clock_def idle_Elapsed_def or_now_def status_names)

theorem watchdog_timeout_witness:
  "fst (watchdog_tick None 6 0 demo_client) = WatchdogNothing \<and>
   fst (watchdog_tick (Some 1) 2000000 0 demo_client) = WatchdogCloseSession"
proof -
  have e: "idle_Elapsed 2000000 (Some 2000000) (cs_AudioIdle demo_client) = 1999995"
    by (simp add: demo_client_def idle_Start_def zero_clock_def idle_Elapsed_def or_now_def)
  have "fst (watchdog_tick None 6 0 demo_client) = WatchdogNothing"
    using watchdog_timeout [where setting = None and limit = 30000 and clock = 6 and c = demo_client] demo_client_idle by simp
  moreover have "fst (watchdog_tick (Some 1) 2000000 0 demo_client) \<noteq> WatchdogNothing"
    using watchdog_timeout [where setting = "Some 1" and limit = 1 and clock = 2000000 and c = demo_client] demo_client_idle e
    by simp
  ultimately show ?thesis using demo_client_idle by (auto simp: watchdog_fires split: if_splits)
qed

theorem unlimited_idle_times_out_witness:
  "fst (watchdog_tick (Some 0) 6 0 demo_client) = WatchdogCloseSession"
  using unlimited_idle_times_out [of 0 demo_client 6 0] demo_client_idle by simp

subsection \<open>The history and its tool calls\<close>

definition is_tool :: "message option \<Rightarrow> bool" where
  "is_tool m \<longleftrightarrow> (\<exists>msg. m = Some msg \<and> msg_Role msg = RoleTool)"

definition calls_tools :: "message option \<Rightarrow> bool" where
  "calls_tools m \<longleftrightarrow> (\<exists>msg. m = Some msg \<and> msg_Role msg = RoleAssistant \<and> msg_ToolCalls msg \<noteq> [])"

definition answered_calls :: "message option list \<Rightarrow> message \<Rightarrow> nat" where
  "answered_calls messages msg =
     length (filter (\<lambda>i. i \<noteq> [] \<and> i \<in> set (usedToolCallIDs messages)) (msg_ToolCalls msg))"

lemma align_concat:
  "AlignToolMessages messages = concat (map (align_one (validToolCallIDs messages) (usedToolCallIDs messages)) messages)"
  by (simp add: AlignToolMessages_def)

lemma concat_if_replicate: "concat (map (\<lambda>i. if P i then (if Q i then [m] else []) else []) xs)
   = replicate (length (filter (\<lambda>i. P i \<and> Q i) xs)) m"
  by (induction xs) auto

lemma align_one_cases:
  "align_one valid (usedToolCallIDs messages) m =
     (case m of None \<Rightarrow> []
      | Some msg \<Rightarrow>
          if msg_Role msg = RoleTool then (if msg_ToolCallID msg \<noteq> [] \<and> msg_ToolCallID msg \<in> set valid then [m] else [])
          else if calls_tools m then replicate (answered_calls messages msg) m else [m])"
  by (simp add: align_one_def calls_tools_def answered_calls_def concat_if_replicate split: option.splits)

lemma align_member:
  "m \<in> set (AlignToolMessages messages) \<longleftrightarrow> m \<in> set messages \<and> m \<in> set (align_one (validToolCallIDs messages) (usedToolCallIDs messages) m)"
proof -
  have eq: "x = y" if "x \<in> set (align_one v u y)" for x y v u
    using that by (auto simp: align_one_def split: option.splits if_splits)
  show ?thesis unfolding align_concat by (auto dest: eq)
qed

lemma valid_iff: "i \<in> set (validToolCallIDs messages) \<longleftrightarrow>
   i \<noteq> [] \<and> (\<exists>msg. Some msg \<in> set messages \<and> msg_Role msg = RoleAssistant \<and> i \<in> set (msg_ToolCalls msg))"
  by (force simp: validToolCallIDs_def split: option.splits if_splits)

lemma used_iff: "i \<in> set (usedToolCallIDs messages) \<longleftrightarrow>
   i \<noteq> [] \<and> (\<exists>msg. Some msg \<in> set messages \<and> msg_Role msg = RoleTool \<and> msg_ToolCallID msg = i)"
  by (force simp: usedToolCallIDs_def split: option.splits if_splits)

lemma tool_kept:
  "msg_Role msg = RoleTool \<Longrightarrow> Some msg \<in> set (AlignToolMessages messages) \<longleftrightarrow>
    Some msg \<in> set messages \<and> msg_ToolCallID msg \<in> set (validToolCallIDs messages)"
  by (auto simp: align_member align_one_def valid_iff)

lemma assistant_kept:
  assumes "msg_Role msg = RoleAssistant" "msg_ToolCalls msg \<noteq> []"
  shows "Some msg \<in> set (AlignToolMessages messages) \<longleftrightarrow>
    Some msg \<in> set messages \<and> (\<exists>i \<in> set (msg_ToolCalls msg). i \<in> set (usedToolCallIDs messages))"
  using assms
  by (auto simp: align_member align_one_cases calls_tools_def answered_calls_def filter_empty_conv used_iff)

lemma aligned_valid:
  "i \<in> set (usedToolCallIDs messages) \<Longrightarrow> i \<in> set (validToolCallIDs messages) \<Longrightarrow>
    i \<in> set (validToolCallIDs (AlignToolMessages messages)) \<and> i \<in> set (usedToolCallIDs (AlignToolMessages messages))"
proof -
  assume u: "i \<in> set (usedToolCallIDs messages)" and v: "i \<in> set (validToolCallIDs messages)"
  obtain a where a: "Some a \<in> set messages" "msg_Role a = RoleAssistant" "i \<in> set (msg_ToolCalls a)" "i \<noteq> []"
    using v by (auto simp: valid_iff)
  then have "Some a \<in> set (AlignToolMessages messages)" 
    using assistant_kept [OF a(2)] a(1,3) u by force
  moreover obtain t where t: "Some t \<in> set messages" "msg_Role t = RoleTool" "msg_ToolCallID t = i"
    using u by (auto simp: used_iff)
  moreover have "Some t \<in> set (AlignToolMessages messages)" using tool_kept [of t messages] t v by simp
  ultimately show ?thesis using a by (auto simp: valid_iff used_iff)
qed

lemma count_align_other: "x \<noteq> y \<Longrightarrow> count_list (align_one v u y) x = 0"
  by (auto simp: align_one_def count_list_0_iff split: option.splits if_splits)

lemma count_concat_align:
  "count_list (concat (map (align_one v u) xs)) x = count_list xs x * count_list (align_one v u x) x"
proof (induction xs)
  case (Cons y xs)
  then show ?case by (cases "x = y") (simp_all add: count_align_other)
qed simp

lemma count_aligned:
  assumes "msg_Role msg = RoleAssistant" "msg_ToolCalls msg \<noteq> []"
  shows "count_list (AlignToolMessages messages) (Some msg) = count_list messages (Some msg) * answered_calls messages msg"
proof -
  have "calls_tools (Some msg)" using assms by (simp add: calls_tools_def)
  moreover have "count_list (replicate n x) x = n" for n and x :: "message option" by (induction n) simp_all
  ultimately show ?thesis using assms by (simp add: align_concat count_concat_align align_one_cases)
qed

lemma answered_aligned:
  assumes "Some msg \<in> set messages" "msg_Role msg = RoleAssistant"
  shows "answered_calls (AlignToolMessages messages) msg = answered_calls messages msg"
proof -
  have "i \<in> set (usedToolCallIDs (AlignToolMessages messages)) \<longleftrightarrow> i \<in> set (usedToolCallIDs messages)"
    if "i \<in> set (msg_ToolCalls msg)" "i \<noteq> []" for i
  proof
    assume "i \<in> set (usedToolCallIDs (AlignToolMessages messages))"
    then show "i \<in> set (usedToolCallIDs messages)" by (auto simp: used_iff align_member)
  next
    assume "i \<in> set (usedToolCallIDs messages)"
    moreover have "i \<in> set (validToolCallIDs messages)" using that assms by (auto simp: valid_iff)
    ultimately show "i \<in> set (usedToolCallIDs (AlignToolMessages messages))" using aligned_valid by blast
  qed
  then show ?thesis unfolding answered_calls_def by (metis (mono_tags, lifting) filter_cong)
qed


text \<open>
  A defect: an assistant's message is appended once for each of its calls that was answered, and again when the history is
  read, because reading aligns what loading has aligned. After \<open>InitMessages\<close> and \<open>GetMessages\<close> a message with \<open>k\<close> answered
  calls is there \<open>k * k\<close> times for each time it was stored; only with exactly one answered call it is there as it was.
\<close>

theorem tool_calls_repeated:
  assumes "Some msg \<in> set messages" "msg_Role msg = RoleAssistant" "msg_ToolCalls msg \<noteq> []"
    "int (length (AlignToolMessages messages)) \<le> n"
  shows "\<exists>out. GetMessages n (InitMessages messages c) = Some out \<and>
    count_list out (Some msg) = count_list messages (Some msg) * answered_calls messages msg * answered_calls messages msg"
proof (cases "AlignToolMessages messages = []")
  case True
  then show ?thesis using count_aligned [OF assms(2,3), of messages] by (auto simp: GetMessages_def InitMessages_def)
next
  case False
  then have "GetMessages n (InitMessages messages c) = Some (AlignToolMessages (AlignToolMessages messages))"
    using assms(4) by (auto simp: GetMessages_def InitMessages_def Let_def)
  then show ?thesis
    using count_aligned [OF assms(2,3)] answered_aligned [OF assms(1,2)] by simp
qed

definition two_calls :: message where
  "two_calls = \<lparr>msg_Role = RoleAssistant, msg_Content = [], msg_ToolCalls = [[1], [2]], msg_ToolCallID = []\<rparr>"

definition answer_to :: "gotext \<Rightarrow> message" where
  "answer_to i = \<lparr>msg_Role = RoleTool, msg_Content = [], msg_ToolCalls = [], msg_ToolCallID = i\<rparr>"

theorem tool_calls_repeated_witness:
  "\<exists>out. GetMessages 20 (InitMessages [Some two_calls, Some (answer_to [1]), Some (answer_to [2])] demo_client) = Some out \<and>
    count_list out (Some two_calls) = 4"
proof -
  let ?h = "[Some two_calls, Some (answer_to [1]), Some (answer_to [2])]"
  have h: "answered_calls ?h two_calls = 2" "length (AlignToolMessages ?h) = 4" "count_list ?h (Some two_calls) = 1"
    by code_simp+
  show ?thesis
    using tool_calls_repeated [of two_calls ?h 20 demo_client] h by (simp add: two_calls_def)
qed

end
