(* ===== verification/TtsSender.thy ===== *)
theory TtsSender
  imports ClientData "HOL-Library.Signed_Division"
begin

text \<open>
  The speech output of a chat session (\<open>TTSManager\<close> of \<open>internal/app/server/chat/tts.go\<close>): the queue of audio and
  control elements, the goroutine that sends them to the device at the pace of playing, the goroutine that delays the
  marks of sentences, interrupts, the end of a turn and the figures kept about it.

  The two goroutines have program counters. A call into the manager is a list of its atomic actions (a critical section,
  an atomic load or store, a channel operation), which interleave with everything else; \<open>StartCall\<close> starts any such
  list, so nothing is assumed about the order in which the rest of the program calls. Callbacks are numbers, and calling one
  is recorded in the log, as is everything that goes to the device. The send calls of the transport succeed or fail as
  the step says. The session and the client state are there (the source allows them to be missing in tests).

  \<open>finishTtsStopWithReason\<close>, whose parts are under different locks, is one step. Generations and cycles are natural
  numbers; the 64-bit counters of the source would need \<open>2^64\<close> interrupts to come round.
\<close>

subsection \<open>Elements, requests, figures\<close>

datatype tts_error = ContextDone | TransportFailed nat | SynthesisFailed nat

type_synonym callback = nat

datatype audio_kind = AudioQueueKindFrame | AudioQueueKindSentenceStart | AudioQueueKindSentenceEnd
  | AudioQueueKindTtsStart | AudioQueueKindTtsStop | AudioQueueKindMediaFrame

record audio_elem =
  ae_Kind :: audio_kind
  ae_Data :: bytes
  ae_Text :: gotext
  ae_Err :: "tts_error option"
  ae_Generation :: nat
  ae_MetricCycle :: nat
  ae_DebugReason :: gotext
  ae_OnStart :: "callback option"
  ae_OnEnd :: "callback option"
  ae_OnError :: "callback option"

record delayed_task =
  dt_Elem :: audio_elem
  dt_ExecuteAt :: instant

record interrupt_request =
  ir_done :: "nat option"
  ir_reason :: gotext

datatype turn_end_policy = PolicyNone | PolicyGoodbyeAndIdle

record metric_state =
  ms_cycleID :: nat
  ms_pendingItems :: nat
  ms_activeRequests :: nat
  ms_turnEndRequested :: bool
  ms_started :: bool
  ms_firstAudio :: bool
  ms_ttsStopped :: bool
  ms_turnEnded :: bool
  ms_turnEndPolicy :: turn_end_policy

definition new_metric :: "nat \<Rightarrow> metric_state" where
  "new_metric c = \<lparr>ms_cycleID = c, ms_pendingItems = 0, ms_activeRequests = 0, ms_turnEndRequested = False, ms_started = False,
     ms_firstAudio = False, ms_ttsStopped = False, ms_turnEnded = False, ms_turnEndPolicy = PolicyNone\<rparr>"

record pending_stop =
  st_pending :: bool
  st_SendTtsStop :: bool
  st_Err :: "tts_error option"
  st_Reason :: gotext

definition no_stop :: pending_stop where
  "no_stop = \<lparr>st_pending = False, st_SendTtsStop = False, st_Err = None, st_Reason = []\<rparr>"

subsection \<open>The log\<close>

datatype trace_stage = TraceTtsStart | TraceTtsFirstFrame | TraceTtsStop | TraceTurnEnd

datatype tts_out =
    OutTtsStart
  | OutTtsStop
  | OutSentenceStart audio_elem
  | OutSentenceEnd audio_elem
  | OutAudio audio_elem instant
  | OutDrainTransport
  | OutCalledStart callback
  | OutCalledEnd callback "tts_error option"
  | OutCalledError callback tts_error
  | OutHookStart
  | OutHookStop "tts_error option"
  | OutWelcomeDone bool
  | OutTrace nat trace_stage int
  | OutPolicy turn_end_policy "tts_error option"
  | OutFlushListenStart
  | OutRequestDone nat

subsection \<open>State\<close>

datatype wait_for = WaitFrame audio_elem | WaitStop audio_elem

datatype after_drain = DrainInterrupt interrupt_request | DrainExit

datatype after_sentence = ToTop | ToWait wait_for instant

datatype sender_pc =
    SenderNotStarted
  | SenderTop
  | SenderSelect
  | SenderSentence audio_elem after_sentence
  | SenderDelay audio_elem instant
  | SenderWait wait_for instant
  | SenderAudio audio_elem instant
  | SenderTtsStart
  | SenderDrainAudio after_drain
  | SenderDrainReady after_drain
  | SenderDrained after_drain
  | SenderExited
  | SenderPanicked

datatype delayed_pc = DelayedNotStarted | DelayedRunning "delayed_task list" | DelayedOffer audio_elem "delayed_task list" | DelayedExited

datatype tts_call =
    CallEnqueue audio_elem
  | CallEnqueueNow audio_elem
  | CallRecordStop bool "tts_error option" gotext
  | CallNextGeneration
  | CallNotify gotext
  | CallNotifySync nat gotext
  | CallAwait nat
  | CallFinishIfExited
  | CallFinish bool "tts_error option" gotext
  | CallStartCycle turn_end_policy
  | CallRegisterItem nat
  | CallFinishItem nat "tts_error option"
  | CallRequestStart nat
  | CallFirstAudio nat
  | CallFinishRequest nat "tts_error option"
  | CallRequestTurnEnd "tts_error option"
  | CallEndCallback callback "tts_error option"

record tts_world =
  tw_FrameDuration :: int
  tw_client :: "unit client_state"
  tw_sessionAudioQueue :: "audio_elem list"
  tw_delayedSentenceQueue :: "delayed_task list"
  tw_delayedSentenceReadyQueue :: "audio_elem list"
  tw_interruptCh :: "interrupt_request list"
  tw_audioGeneration :: nat
  tw_audioInterruptCh :: nat
  tw_ttsActive :: bool
  tw_senderLoopActive :: bool
  tw_stop :: pending_stop
  tw_metric :: metric_state
  tw_ctxDone :: bool
  tw_sender :: sender_pc
  tw_totalFrames :: nat
  tw_sentenceFrames :: nat
  tw_playbackTail :: "instant option"
  tw_delayed :: delayed_pc
  tw_calls :: "tts_call list list"
  tw_log :: "tts_out list"

definition SessionAudioQueueCap :: nat where "SessionAudioQueueCap = 150"

definition tlog :: "tts_out list \<Rightarrow> tts_world \<Rightarrow> tts_world" where
  "tlog outs w = w\<lparr>tw_log := tw_log w @ outs\<rparr>"

definition call_end :: "callback option \<Rightarrow> tts_error option \<Rightarrow> tts_out list" where
  "call_end cb err = (case cb of None \<Rightarrow> [] | Some f \<Rightarrow> [OutCalledEnd f err])"

definition call_start :: "callback option \<Rightarrow> tts_out list" where
  "call_start cb = (case cb of None \<Rightarrow> [] | Some f \<Rightarrow> [OutCalledStart f])"

definition call_error :: "callback option \<Rightarrow> tts_error \<Rightarrow> tts_out list" where
  "call_error cb err = (case cb of None \<Rightarrow> [] | Some f \<Rightarrow> [OutCalledError f err])"

definition upd_client :: "(unit client_state \<Rightarrow> unit client_state) \<Rightarrow> tts_world \<Rightarrow> tts_world" where
  "upd_client f w = w\<lparr>tw_client := f (tw_client w)\<rparr>"

definition upd_metric :: "(metric_state \<Rightarrow> metric_state) \<Rightarrow> tts_world \<Rightarrow> tts_world" where
  "upd_metric f w = w\<lparr>tw_metric := f (tw_metric w)\<rparr>"

definition unspecified :: gotext where "unspecified = lit ''unspecified''"

definition normalizeTTSReason :: "gotext \<Rightarrow> gotext" where
  "normalizeTTSReason reason = (let reason = trim_space reason in if reason = [] then unspecified else reason)"

definition unixMilli :: "instant \<Rightarrow> int" where "unixMilli t = t div 1000000"

definition ms :: int where "ms = 1000000"

definition ttsPlaybackCompletionGrace :: int where "ttsPlaybackCompletionGrace = 400 * ms"

subsection \<open>Figures of a turn\<close>

definition startTtsMetricCycle :: "tts_world \<Rightarrow> tts_world" where
  "startTtsMetricCycle = upd_metric (\<lambda>m. new_metric (ms_cycleID m + 1))"

definition registerTTSTurnEndPolicy :: "turn_end_policy \<Rightarrow> nat \<Rightarrow> tts_world \<Rightarrow> tts_world" where
  "registerTTSTurnEndPolicy policy cycleID w =
     (if cycleID = 0 then w
      else if policy = PolicyNone then w
      else if ms_cycleID (tw_metric w) \<noteq> cycleID \<or> ms_turnEnded (tw_metric w) then w
      else upd_metric (\<lambda>m. m\<lparr>ms_turnEndPolicy := policy\<rparr>) w)"

text \<open>The handler is there or not (\<open>handler\<close>); it runs in a goroutine of its own.\<close>

definition dispatchTTSTurnEndPolicy :: "bool \<Rightarrow> tts_error option \<Rightarrow> tts_world \<Rightarrow> tts_world" where
  "dispatchTTSTurnEndPolicy handler stopErr w =
     (let policy = ms_turnEndPolicy (tw_metric w);
          w1 = upd_metric (\<lambda>m. m\<lparr>ms_turnEndPolicy := PolicyNone\<rparr>) w
      in if policy = PolicyNone then w1
         else if \<not> handler then w1
         else tlog [OutPolicy policy stopErr] w1)"

definition registerTtsMetricItem :: "nat \<Rightarrow> tts_world \<Rightarrow> tts_world" where
  "registerTtsMetricItem cycleID w =
     (if cycleID = 0 then w
      else if ms_cycleID (tw_metric w) \<noteq> cycleID \<or> ms_turnEnded (tw_metric w) then w
      else upd_metric (\<lambda>m. m\<lparr>ms_pendingItems := ms_pendingItems m + 1\<rparr>) w)"

text \<open>A completion is traced at once; the trace names the cycle it belongs to.\<close>

definition finalizeTtsMetricLocked :: "instant \<Rightarrow> tts_world \<Rightarrow> tts_world" where
  "finalizeTtsMetricLocked clock w =
     (let m = tw_metric w; nowMs = unixMilli clock in
      if ms_turnEnded m then w
      else if ms_started m \<and> \<not> ms_ttsStopped m then
        tlog [OutTrace (ms_cycleID m) TraceTtsStop nowMs, OutTrace (ms_cycleID m) TraceTurnEnd nowMs]
          (upd_metric (\<lambda>m. m\<lparr>ms_ttsStopped := True, ms_turnEnded := True\<rparr>) (upd_client (MarkTtsStop nowMs) w))
      else tlog [OutTrace (ms_cycleID m) TraceTurnEnd nowMs] (upd_metric (\<lambda>m. m\<lparr>ms_turnEnded := True\<rparr>) w))"

definition maybeFinalizeTtsMetricLocked :: "instant \<Rightarrow> tts_world \<Rightarrow> tts_world" where
  "maybeFinalizeTtsMetricLocked clock w =
     (let m = tw_metric w in
      if \<not> ms_turnEndRequested m \<or> ms_turnEnded m then w
      else if ms_pendingItems m > 0 \<or> ms_activeRequests m > 0 then w
      else finalizeTtsMetricLocked clock w)"

definition finishTtsMetricItem :: "instant \<Rightarrow> nat \<Rightarrow> tts_world \<Rightarrow> tts_world" where
  "finishTtsMetricItem clock cycleID w =
     (if ms_cycleID (tw_metric w) \<noteq> cycleID \<or> cycleID = 0 then w
      else maybeFinalizeTtsMetricLocked clock
        (upd_metric (\<lambda>m. if ms_pendingItems m > 0 then m\<lparr>ms_pendingItems := ms_pendingItems m - 1\<rparr> else m) w))"

definition markTtsMetricRequestStart :: "instant \<Rightarrow> nat \<Rightarrow> tts_world \<Rightarrow> tts_world" where
  "markTtsMetricRequestStart clock cycleID w =
     (let m = tw_metric w; nowMs = unixMilli clock in
      if cycleID = 0 then w
      else if ms_cycleID m = cycleID \<and> \<not> ms_turnEnded m then
        let w1 = upd_metric (\<lambda>m. m\<lparr>ms_activeRequests := ms_activeRequests m + 1\<rparr>) w in
        if \<not> ms_started m then
          tlog (if nowMs > 0 then [OutTrace cycleID TraceTtsStart nowMs] else [])
            (upd_metric (\<lambda>m. m\<lparr>ms_started := True\<rparr>) (upd_client (MarkTtsStart nowMs) w1))
        else w1
      else w)"

definition markTtsMetricFirstAudio :: "instant \<Rightarrow> nat \<Rightarrow> tts_world \<Rightarrow> tts_world" where
  "markTtsMetricFirstAudio clock cycleID w =
     (let m = tw_metric w in
      if cycleID = 0 then w
      else if ms_cycleID m = cycleID \<and> ms_started m \<and> \<not> ms_firstAudio m \<and> \<not> ms_turnEnded m then
        let w1 = upd_client (MarkTtsFirstFrame (unixMilli clock)) w;
            firstAudioTs = st_TtsFirstFrameTs (cs_Statistic (tw_client w1))
        in tlog (if firstAudioTs > 0 then [OutTrace cycleID TraceTtsFirstFrame firstAudioTs] else [])
             (upd_metric (\<lambda>m. m\<lparr>ms_firstAudio := True\<rparr>) w1)
      else w)"

definition finishTtsMetricRequest :: "instant \<Rightarrow> nat \<Rightarrow> tts_world \<Rightarrow> tts_world" where
  "finishTtsMetricRequest clock cycleID w =
     (if ms_cycleID (tw_metric w) \<noteq> cycleID \<or> cycleID = 0 then w
      else maybeFinalizeTtsMetricLocked clock
        (upd_metric (\<lambda>m. if ms_activeRequests m > 0 then m\<lparr>ms_activeRequests := ms_activeRequests m - 1\<rparr> else m) w))"

definition RequestTurnEnd :: "instant \<Rightarrow> tts_world \<Rightarrow> tts_world" where
  "RequestTurnEnd clock w =
     (if ms_cycleID (tw_metric w) = 0 then w
      else maybeFinalizeTtsMetricLocked clock (upd_metric (\<lambda>m. m\<lparr>ms_turnEndRequested := True\<rparr>) w))"

definition forceStopTtsMetric :: "instant \<Rightarrow> tts_world \<Rightarrow> tts_world" where
  "forceStopTtsMetric clock w =
     (if ms_cycleID (tw_metric w) = 0 \<or> ms_turnEnded (tw_metric w) then w
      else finalizeTtsMetricLocked clock (upd_metric (\<lambda>m. m\<lparr>ms_turnEndRequested := True\<rparr>) w))"

subsection \<open>The end of the output\<close>

definition idle_after_output :: "instant \<Rightarrow> unit client_state \<Rightarrow> unit client_state" where
  "idle_after_output clock c =
     (let c1 = SetClientVoiceStop False c in if UsesAudioIdleClock c1 then StartAudioIdleWindow clock (Some clock) c1 else c1)"

text \<open>\<open>SendTtsStop\<close> of \<open>server_transport.go\<close>, when the command went out.\<close>

definition sent_TtsStop :: "unit client_state \<Rightarrow> unit client_state" where
  "sent_TtsStop c = SetTtsStart False (SetStatus ClientStatusListenStop (c\<lparr>cs_IsWelcomePlaying := False\<rparr>))"

text \<open>\<open>verdict\<close> is the error of \<open>SendTtsStop\<close>, if it is called and fails.\<close>

definition finishTtsStopWithReason ::
  "instant \<Rightarrow> tts_error option \<Rightarrow> bool \<Rightarrow> bool \<Rightarrow> tts_error option \<Rightarrow> tts_world \<Rightarrow> tts_world" where
  "finishTtsStopWithReason clock verdict handler sendTtsStop stopErr w =
     (if \<not> tw_ttsActive w then
        tlog (if stopErr = None then [OutFlushListenStart] else [])
          (upd_client (\<lambda>c. idle_after_output clock
             (if sendTtsStop \<and> IsRealTime c then SetTtsStart False (SetStatus ClientStatusListenStop c) else c)) w)
      else
        let w1 = w\<lparr>tw_ttsActive := False\<rparr>;
            w2 = (if sendTtsStop \<and> stopErr \<noteq> None then tlog [OutDrainTransport] w1 else w1);
            sent = (sendTtsStop \<and> verdict = None);
            stopErr = (if sendTtsStop \<and> stopErr = None then verdict else stopErr);
            w3 = (if sent then tlog [OutTtsStop] (upd_client sent_TtsStop w2)
                  else upd_client (\<lambda>c. SetTtsStart False (SetStatus ClientStatusListenStop c)) w2);
            w4 = upd_client (idle_after_output clock) w3;
            w5 = tlog [OutWelcomeDone (stopErr = None), OutHookStop stopErr] w4;
            w6 = dispatchTTSTurnEndPolicy handler stopErr (forceStopTtsMetric clock w5)
        in tlog (if stopErr = None then [OutFlushListenStart] else []) w6)"

definition recordPendingInterruptStop :: "bool \<Rightarrow> tts_error option \<Rightarrow> gotext \<Rightarrow> pending_stop \<Rightarrow> pending_stop" where
  "recordPendingInterruptStop sendTtsStop stopErr reason s =
     (let reason = normalizeTTSReason reason in
      if st_pending s then
        s\<lparr>st_SendTtsStop := st_SendTtsStop s \<or> sendTtsStop,
          st_Err := (if st_Err s = None then stopErr else st_Err s),
          st_Reason := (if st_Reason s = [] \<or> st_Reason s = unspecified then reason else st_Reason s)\<rparr>
      else \<lparr>st_pending = True, st_SendTtsStop = sendTtsStop, st_Err = stopErr, st_Reason = reason\<rparr>)"

definition consumePendingInterruptStop :: "pending_stop \<Rightarrow> (bool \<times> tts_error option \<times> gotext) option \<times> pending_stop" where
  "consumePendingInterruptStop s =
     (if \<not> st_pending s then (None, s)
      else (Some (st_SendTtsStop s, st_Err s, normalizeTTSReason (st_Reason s)), no_stop))"

text \<open>What both callers of \<open>consumePendingInterruptStop\<close> do with it.\<close>

definition finish_pending :: "instant \<Rightarrow> tts_error option \<Rightarrow> bool \<Rightarrow> tts_world \<Rightarrow> tts_world" where
  "finish_pending clock verdict handler w =
     (case consumePendingInterruptStop (tw_stop w) of
        (None, s) \<Rightarrow> w
      | (Some (sendTtsStop, stopErr, reason), s) \<Rightarrow>
          finishTtsStopWithReason clock verdict handler sendTtsStop stopErr (w\<lparr>tw_stop := s\<rparr>))"
subsection \<open>Delayed marks of sentences\<close>

definition sentenceControlDelay :: "int \<Rightarrow> int" where
  "sentenceControlDelay frameDurationMs =
     (if frameDurationMs \<le> 0 then 0
      else let cacheFrameCount = 120 div frameDurationMs in cacheFrameCount * frameDurationMs * ms)"

text \<open>The loop runs from the end of the slice; on the reversed list it passes the tasks that are due later.\<close>

fun insert_from_end :: "delayed_task list \<Rightarrow> delayed_task \<Rightarrow> delayed_task list" where
  "insert_from_end [] task = [task]"
| "insert_from_end (t # rest) task =
     (if dt_ExecuteAt task < dt_ExecuteAt t then t # insert_from_end rest task else task # t # rest)"

definition insertDelayedSentenceTask :: "delayed_task list \<Rightarrow> delayed_task \<Rightarrow> delayed_task list" where
  "insertDelayedSentenceTask tasks task = rev (insert_from_end (rev tasks) task)"

text \<open>What a waiting goroutine is told in a step: which alternative of its \<open>select\<close> fires, the verdict of a call.\<close>

datatype tts_env = EnvCtxDone | EnvInterrupt | EnvReady | EnvAudio | EnvQueue | EnvDue | EnvGo | EnvVerdict "tts_error option"

definition delayed_step :: "instant \<Rightarrow> tts_env \<Rightarrow> tts_world \<Rightarrow> tts_world option" where
  "delayed_step clock env w =
     (case tw_delayed w of
        DelayedRunning pending \<Rightarrow>
          (case env of
             EnvCtxDone \<Rightarrow> if tw_ctxDone w then Some (w\<lparr>tw_delayed := DelayedExited\<rparr>) else None
           | EnvQueue \<Rightarrow>
               (case tw_delayedSentenceQueue w of
                  [] \<Rightarrow> None
                | task # rest \<Rightarrow>
                    Some (w\<lparr>tw_delayedSentenceQueue := rest,
                           tw_delayed := DelayedRunning (insertDelayedSentenceTask pending task)\<rparr>))
           | EnvDue \<Rightarrow>
               (case pending of
                  [] \<Rightarrow> None
                | task # rest \<Rightarrow>
                    if clock < dt_ExecuteAt task then None
                    else if ae_Generation (dt_Elem task) \<noteq> tw_audioGeneration w then
                      Some (tlog (call_end (ae_OnEnd (dt_Elem task)) (Some ContextDone)) (w\<lparr>tw_delayed := DelayedRunning rest\<rparr>))
                    else Some (w\<lparr>tw_delayed := DelayedOffer (dt_Elem task) rest\<rparr>))
           | _ \<Rightarrow> None)
      | DelayedOffer elem rest \<Rightarrow>
          (case env of
             EnvCtxDone \<Rightarrow>
               if tw_ctxDone w then Some (tlog (call_end (ae_OnEnd elem) (Some ContextDone)) (w\<lparr>tw_delayed := DelayedExited\<rparr>))
               else None
           | EnvQueue \<Rightarrow>
               if length (tw_delayedSentenceReadyQueue w) < SessionAudioQueueCap then
                 Some (w\<lparr>tw_delayedSentenceReadyQueue := tw_delayedSentenceReadyQueue w @ [elem], tw_delayed := DelayedRunning rest\<rparr>)
               else None
           | _ \<Rightarrow> None)
      | _ \<Rightarrow> None)"

subsection \<open>The sending goroutine\<close>

definition at :: "sender_pc \<Rightarrow> tts_world \<Rightarrow> tts_world" where
  "at pc w = w\<lparr>tw_sender := pc\<rparr>"

fun after_sentence_pc :: "after_sentence \<Rightarrow> sender_pc" where
  "after_sentence_pc ToTop = SenderTop"
| "after_sentence_pc (ToWait k deadline) = SenderWait k deadline"

text \<open>The start of \<open>handleDelayedSentence\<close>: an element of an old generation is dropped.\<close>

definition take_ready :: "after_sentence \<Rightarrow> tts_world \<Rightarrow> tts_world option" where
  "take_ready ret w =
     (case tw_delayedSentenceReadyQueue w of
        [] \<Rightarrow> None
      | elem # rest \<Rightarrow>
          let w1 = w\<lparr>tw_delayedSentenceReadyQueue := rest\<rparr> in
          Some (if ae_Generation elem \<noteq> tw_audioGeneration w
                then at (after_sentence_pc ret) (tlog (call_end (ae_OnEnd elem) (Some ContextDone)) w1)
                else at (SenderSentence elem ret) w1))"

text \<open>The rest of it. \<open>SendSentenceStart\<close> and \<open>SendSentenceEnd\<close> set the client's status when the command went out.\<close>

definition handleDelayedSentence :: "tts_error option \<Rightarrow> audio_elem \<Rightarrow> tts_world \<Rightarrow> tts_world" where
  "handleDelayedSentence verdict elem w =
     (case ae_Kind elem of
        AudioQueueKindSentenceStart \<Rightarrow>
          let w1 = tlog (call_start (ae_OnStart elem)) w in
          if ae_Text elem \<noteq> [] then
            (case verdict of
               None \<Rightarrow> tlog [OutSentenceStart elem] (upd_client (SetStatus ClientStatusTTSStart) w1)
             | Some e \<Rightarrow> tlog (call_error (ae_OnError elem) e @ call_end (ae_OnEnd elem) (Some e)) w1)
          else w1
      | AudioQueueKindSentenceEnd \<Rightarrow>
          let (callbackErr, w1) =
            (if ae_Text elem \<noteq> [] then
               (case verdict of
                  None \<Rightarrow> (ae_Err elem, tlog [OutSentenceEnd elem] (upd_client (SetStatus ClientStatusTTSStart) w))
                | Some e \<Rightarrow> (if ae_Err elem = None then Some e else ae_Err elem, tlog (call_error (ae_OnError elem) e) w))
             else (ae_Err elem, w))
          in tlog (call_end (ae_OnEnd elem) callbackErr) (w1\<lparr>tw_sentenceFrames := 0\<rparr>)
      | _ \<Rightarrow> w)"

definition take_interrupt :: "tts_world \<Rightarrow> tts_world option" where
  "take_interrupt w =
     (case tw_interruptCh w of
        [] \<Rightarrow> None
      | req # rest \<Rightarrow> Some (at (SenderDrainAudio (DrainInterrupt req)) (w\<lparr>tw_interruptCh := rest\<rparr>)))"

text \<open>What a step does with an element of the current generation.\<close>

definition dispatch_elem :: "instant \<Rightarrow> audio_elem \<Rightarrow> tts_world \<Rightarrow> tts_world" where
  "dispatch_elem clock elem w =
     (case ae_Kind elem of
        AudioQueueKindSentenceStart \<Rightarrow>
          at (SenderDelay elem (clock + sentenceControlDelay (tw_FrameDuration w))) (w\<lparr>tw_sentenceFrames := 0\<rparr>)
      | AudioQueueKindSentenceEnd \<Rightarrow> at (SenderDelay elem (clock + sentenceControlDelay (tw_FrameDuration w))) w
      | AudioQueueKindTtsStart \<Rightarrow> at SenderTtsStart (tlog [OutHookStart] (w\<lparr>tw_ttsActive := True\<rparr>))
      | AudioQueueKindTtsStop \<Rightarrow>
          let stopDeadline = (case tw_playbackTail w of None \<Rightarrow> clock | Some tail \<Rightarrow> tail);
              stopDeadline = stopDeadline + sentenceControlDelay (tw_FrameDuration w) + ttsPlaybackCompletionGrace
          in at (SenderWait (WaitStop elem) stopDeadline) w
      | _ \<Rightarrow>
          let frameDuration = tw_FrameDuration w * ms;
              cacheFrameCount = 120 sdiv tw_FrameDuration w;
              tail = (case tw_playbackTail w of None \<Rightarrow> clock | Some tail \<Rightarrow> if clock > tail then clock else tail);
              allowedAhead = cacheFrameCount * frameDuration;
              sendAt = tail - allowedAhead;
              w1 = w\<lparr>tw_playbackTail := Some tail\<rparr>
          in if clock < sendAt then at (SenderWait (WaitFrame elem) sendAt) w1 else at (SenderAudio elem clock) w1)"

text \<open>The wait is over: \<open>waitUntilSenderDeadline\<close> answered that the deadline is reached.\<close>

definition wait_reached :: "instant \<Rightarrow> tts_error option \<Rightarrow> bool \<Rightarrow> wait_for \<Rightarrow> tts_world \<Rightarrow> tts_world" where
  "wait_reached clock verdict handler k w =
     (case k of
        WaitFrame elem \<Rightarrow>
          at (SenderAudio elem clock)
            (case tw_playbackTail w of
               None \<Rightarrow> w\<lparr>tw_playbackTail := Some clock\<rparr>
             | Some tail \<Rightarrow> if clock > tail then w\<lparr>tw_playbackTail := Some clock\<rparr> else w)
      | WaitStop elem \<Rightarrow>
          at SenderTop
            ((finishTtsStopWithReason clock verdict handler True None w)
               \<lparr>tw_playbackTail := None, tw_totalFrames := 0, tw_sentenceFrames := 0\<rparr>))"

text \<open>The log shows the moment \<open>now\<close> for which the frame was let through.\<close>

definition send_audio :: "instant \<Rightarrow> tts_error option \<Rightarrow> audio_elem \<Rightarrow> instant \<Rightarrow> tts_world \<Rightarrow> tts_world" where
  "send_audio clock verdict elem now w =
     (case verdict of
        Some e \<Rightarrow> at SenderTop (tlog (call_error (ae_OnError elem) e) w)
      | None \<Rightarrow>
          let w1 = tlog [OutAudio elem now] w;
              w2 = (if ae_Kind elem = AudioQueueKindFrame then markTtsMetricFirstAudio clock (ae_MetricCycle elem) w1 else w1)
          in at SenderTop (w2\<lparr>tw_totalFrames := tw_totalFrames w2 + 1, tw_sentenceFrames := tw_sentenceFrames w2 + 1,
               tw_playbackTail := map_option (\<lambda>tail. tail + tw_FrameDuration w2 * ms) (tw_playbackTail w2)\<rparr>))"

text \<open>After the queues are drained: the end of \<open>handleInterrupt\<close>, or of the goroutine.\<close>

definition sender_drained :: "instant \<Rightarrow> tts_error option \<Rightarrow> bool \<Rightarrow> after_drain \<Rightarrow> tts_world \<Rightarrow> tts_world" where
  "sender_drained clock verdict handler k w =
     (case k of
        DrainInterrupt req \<Rightarrow>
          let w1 = (finish_pending clock verdict handler w)\<lparr>tw_totalFrames := 0, tw_sentenceFrames := 0, tw_playbackTail := None\<rparr>
          in at SenderTop (tlog (case ir_done req of None \<Rightarrow> [] | Some d \<Rightarrow> [OutRequestDone d]) w1)
      | DrainExit \<Rightarrow>
          (finishTtsStopWithReason clock verdict handler True (Some ContextDone) w)
            \<lparr>tw_senderLoopActive := False, tw_sender := SenderExited\<rparr>)"

fun sender_step :: "instant \<Rightarrow> tts_env \<Rightarrow> bool \<Rightarrow> sender_pc \<Rightarrow> tts_world \<Rightarrow> tts_world option" where
  "sender_step clock env handler SenderTop w =
     (if tw_delayedSentenceReadyQueue w = [] then Some (at SenderSelect w) else take_ready ToTop w)"
| "sender_step clock env handler SenderSelect w =
     (case env of
        EnvCtxDone \<Rightarrow> if tw_ctxDone w then Some (at (SenderDrainAudio DrainExit) w) else None
      | EnvInterrupt \<Rightarrow> take_interrupt w
      | EnvReady \<Rightarrow> take_ready ToTop w
      | EnvAudio \<Rightarrow>
          (case tw_sessionAudioQueue w of
             [] \<Rightarrow> None
           | elem # rest \<Rightarrow>
               let w1 = w\<lparr>tw_sessionAudioQueue := rest\<rparr> in
               Some (if ae_Generation elem \<noteq> tw_audioGeneration w
                     then at SenderTop (tlog (call_end (ae_OnEnd elem) (Some ContextDone)) w1)
                     else dispatch_elem clock elem w1))
      | _ \<Rightarrow> None)"
| "sender_step clock env handler (SenderSentence elem ret) w =
     (case env of
        EnvVerdict v \<Rightarrow> Some (at (after_sentence_pc ret) (handleDelayedSentence v elem w))
      | _ \<Rightarrow> None)"
| "sender_step clock env handler (SenderDelay elem due) w =
     (case env of
        EnvCtxDone \<Rightarrow>
          if tw_ctxDone w then Some (at SenderTop (tlog (call_end (ae_OnEnd elem) (Some ContextDone)) w)) else None
      | EnvQueue \<Rightarrow>
          if length (tw_delayedSentenceQueue w) < SessionAudioQueueCap then
            Some (at SenderTop (w\<lparr>tw_delayedSentenceQueue := tw_delayedSentenceQueue w @ [\<lparr>dt_Elem = elem, dt_ExecuteAt = due\<rparr>]\<rparr>))
          else None
      | _ \<Rightarrow> None)"
| "sender_step clock env handler (SenderWait k deadline) w =
     (case env of
        EnvCtxDone \<Rightarrow> if tw_ctxDone w then Some (at (SenderDrainAudio DrainExit) w) else None
      | EnvInterrupt \<Rightarrow> take_interrupt w
      | EnvReady \<Rightarrow> take_ready (ToWait k deadline) w
      | EnvVerdict v \<Rightarrow> if clock < deadline then None else Some (wait_reached clock v handler k w)
      | _ \<Rightarrow> None)"
| "sender_step clock env handler (SenderAudio elem now) w =
     (case env of EnvVerdict v \<Rightarrow> Some (send_audio clock v elem now w) | _ \<Rightarrow> None)"
| "sender_step clock env handler SenderTtsStart w =
     (case env of
        EnvVerdict v \<Rightarrow>
          let w1 = (if v = None then tlog [OutTtsStart] (upd_client (SetTtsStart True) w) else w)
          in Some (at SenderTop (w1\<lparr>tw_totalFrames := 0, tw_playbackTail := None\<rparr>))
      | _ \<Rightarrow> None)"
| "sender_step clock env handler (SenderDrainAudio k) w =
     (case tw_sessionAudioQueue w of
        [] \<Rightarrow> Some (at (SenderDrainReady k) w)
      | elem # rest \<Rightarrow> Some (tlog (call_end (ae_OnEnd elem) (Some ContextDone)) (w\<lparr>tw_sessionAudioQueue := rest\<rparr>)))"
| "sender_step clock env handler (SenderDrainReady k) w =
     (case tw_delayedSentenceReadyQueue w of
        [] \<Rightarrow> Some (at (SenderDrained k) w)
      | elem # rest \<Rightarrow> Some (tlog (call_end (ae_OnEnd elem) (Some ContextDone)) (w\<lparr>tw_delayedSentenceReadyQueue := rest\<rparr>)))"
| "sender_step clock env handler (SenderDrained k) w =
     (case env of EnvVerdict v \<Rightarrow> Some (sender_drained clock v handler k w) | _ \<Rightarrow> None)"
| "sender_step clock env handler _ w = None"

text \<open>\<open>runSenderLoop\<close> starts by dividing by the frame duration, which panics if it is zero.\<close>

definition start_sender :: "tts_world \<Rightarrow> tts_world option" where
  "start_sender w =
     (if tw_sender w \<noteq> SenderNotStarted then None
      else if tw_FrameDuration w = 0 then Some (at SenderPanicked w)
      else Some (at SenderTop (w\<lparr>tw_senderLoopActive := True, tw_totalFrames := 0, tw_sentenceFrames := 0, tw_playbackTail := None\<rparr>)))"

definition start_delayed :: "tts_world \<Rightarrow> tts_world option" where
  "start_delayed w = (if tw_delayed w = DelayedNotStarted then Some (w\<lparr>tw_delayed := DelayedRunning []\<rparr>) else None)"

subsection \<open>Calls into the manager\<close>

text \<open>
  One action of a call, and the actions left of it. \<open>ctxGone\<close> says that the caller's own context is done, in which case a
  blocked channel operation may be given up.
\<close>

fun call_step :: "instant \<Rightarrow> tts_env \<Rightarrow> bool \<Rightarrow> bool \<Rightarrow> tts_call \<Rightarrow> tts_call list \<Rightarrow> tts_world \<Rightarrow> (tts_call list \<times> tts_world) option" where
  "call_step clock env handler ctxGone (CallEnqueue elem) rest w =
     (case env of
        EnvCtxDone \<Rightarrow> if ctxGone then Some (rest, tlog (call_end (ae_OnEnd elem) (Some ContextDone)) w) else None
      | EnvQueue \<Rightarrow>
          if length (tw_sessionAudioQueue w) < SessionAudioQueueCap
          then Some (rest, w\<lparr>tw_sessionAudioQueue := tw_sessionAudioQueue w @ [elem]\<rparr>) else None
      | _ \<Rightarrow> None)"
| "call_step clock env handler ctxGone (CallEnqueueNow elem) rest w =
     Some (CallEnqueue (elem\<lparr>ae_Generation := tw_audioGeneration w\<rparr>) # rest, w)"
| "call_step clock env handler ctxGone (CallRecordStop sendTtsStop stopErr reason) rest w =
     Some (rest, w\<lparr>tw_stop := recordPendingInterruptStop sendTtsStop stopErr reason (tw_stop w)\<rparr>)"
| "call_step clock env handler ctxGone CallNextGeneration rest w =
     Some (rest, w\<lparr>tw_audioGeneration := tw_audioGeneration w + 1, tw_audioInterruptCh := tw_audioInterruptCh w + 1\<rparr>)"
| "call_step clock env handler ctxGone (CallNotify reason) rest w =
     Some (rest, if tw_senderLoopActive w \<and> tw_interruptCh w = []
                 then w\<lparr>tw_interruptCh := [\<lparr>ir_done = None, ir_reason = reason\<rparr>]\<rparr> else w)"
| "call_step clock env handler ctxGone (CallNotifySync d reason) rest w =
     (if \<not> tw_senderLoopActive w then Some (filter (\<lambda>c. c \<noteq> CallAwait d) rest, w)
      else case env of
        EnvCtxDone \<Rightarrow> if ctxGone then Some (filter (\<lambda>c. c \<noteq> CallAwait d) rest, w) else None
      | EnvQueue \<Rightarrow>
          if tw_interruptCh w = [] then Some (rest, w\<lparr>tw_interruptCh := [\<lparr>ir_done = Some d, ir_reason = reason\<rparr>]\<rparr>) else None
      | _ \<Rightarrow> None)"
| "call_step clock env handler ctxGone (CallAwait d) rest w =
     (if ctxGone \<or> OutRequestDone d \<in> set (tw_log w) \<or> tw_sender w = SenderExited then Some (rest, w) else None)"
| "call_step clock env handler ctxGone CallFinishIfExited rest w =
     (case env of
        EnvVerdict v \<Rightarrow> Some (rest, if tw_senderLoopActive w then w else finish_pending clock v handler w)
      | _ \<Rightarrow> None)"
| "call_step clock env handler ctxGone (CallFinish sendTtsStop stopErr reason) rest w =
     (case env of
        EnvVerdict v \<Rightarrow> Some (rest, finishTtsStopWithReason clock v handler sendTtsStop stopErr w)
      | _ \<Rightarrow> None)"
| "call_step clock env handler ctxGone (CallStartCycle policy) rest w =
     (let w1 = startTtsMetricCycle w in Some (rest, registerTTSTurnEndPolicy policy (ms_cycleID (tw_metric w1)) w1))"
| "call_step clock env handler ctxGone (CallRegisterItem cycleID) rest w = Some (rest, registerTtsMetricItem cycleID w)"
| "call_step clock env handler ctxGone (CallFinishItem cycleID err) rest w = Some (rest, finishTtsMetricItem clock cycleID w)"
| "call_step clock env handler ctxGone (CallRequestStart cycleID) rest w = Some (rest, markTtsMetricRequestStart clock cycleID w)"
| "call_step clock env handler ctxGone (CallFirstAudio cycleID) rest w = Some (rest, markTtsMetricFirstAudio clock cycleID w)"
| "call_step clock env handler ctxGone (CallFinishRequest cycleID err) rest w = Some (rest, finishTtsMetricRequest clock cycleID w)"
| "call_step clock env handler ctxGone (CallRequestTurnEnd err) rest w = Some (rest, RequestTurnEnd clock w)"
| "call_step clock env handler ctxGone (CallEndCallback f err) rest w = Some (rest, tlog [OutCalledEnd f err] w)"

definition control_elem :: "audio_kind \<Rightarrow> gotext \<Rightarrow> audio_elem" where
  "control_elem kind reason = \<lparr>ae_Kind = kind, ae_Data = [], ae_Text = [], ae_Err = None, ae_Generation = 0, ae_MetricCycle = 0,
     ae_DebugReason = reason, ae_OnStart = None, ae_OnEnd = None, ae_OnError = None\<rparr>"

definition EnqueueTtsStartWithReason :: "turn_end_policy \<Rightarrow> gotext \<Rightarrow> tts_call list" where
  "EnqueueTtsStartWithReason policy reason =
     [CallStartCycle policy, CallEnqueueNow (control_elem AudioQueueKindTtsStart (normalizeTTSReason reason))]"

definition EnqueueTtsStopWithReason :: "gotext \<Rightarrow> tts_call list" where
  "EnqueueTtsStopWithReason reason = [CallEnqueueNow (control_elem AudioQueueKindTtsStop (normalizeTTSReason reason))]"

definition EnqueueMediaSentenceStart :: "gotext \<Rightarrow> callback \<Rightarrow> tts_call list" where
  "EnqueueMediaSentenceStart txt onError =
     [CallEnqueueNow ((control_elem AudioQueueKindSentenceStart [])\<lparr>ae_Text := txt, ae_OnError := Some onError\<rparr>)]"

definition EnqueueMediaSentenceEnd :: "gotext \<Rightarrow> callback \<Rightarrow> callback \<Rightarrow> tts_call list" where
  "EnqueueMediaSentenceEnd txt onError onEnd =
     [CallEnqueueNow ((control_elem AudioQueueKindSentenceEnd [])\<lparr>ae_Text := txt, ae_OnError := Some onError, ae_OnEnd := Some onEnd\<rparr>)]"

definition EnqueueMediaFrame :: "bytes \<Rightarrow> callback \<Rightarrow> tts_call list" where
  "EnqueueMediaFrame frame onError =
     [CallEnqueueNow ((control_elem AudioQueueKindMediaFrame [])\<lparr>ae_Data := frame, ae_OnError := Some onError\<rparr>)]"

definition InterruptAndClearQueueWithReason :: "gotext \<Rightarrow> tts_call list" where
  "InterruptAndClearQueueWithReason reason = [CallNextGeneration, CallNotify (normalizeTTSReason reason)]"

definition InterruptAndStopWithReason :: "bool \<Rightarrow> tts_error option \<Rightarrow> gotext \<Rightarrow> tts_call list" where
  "InterruptAndStopWithReason sendTtsStop stopErr reason =
     [CallRecordStop sendTtsStop stopErr reason] @ InterruptAndClearQueueWithReason reason @ [CallFinishIfExited]"

definition InterruptAndClearQueueSyncWithReason :: "nat \<Rightarrow> gotext \<Rightarrow> tts_call list" where
  "InterruptAndClearQueueSyncWithReason d reason = [CallNextGeneration, CallNotifySync d (normalizeTTSReason reason), CallAwait d]"

definition InterruptAndStopSyncWithReason :: "nat \<Rightarrow> bool \<Rightarrow> tts_error option \<Rightarrow> gotext \<Rightarrow> tts_call list" where
  "InterruptAndStopSyncWithReason d sendTtsStop stopErr reason =
     [CallRecordStop sendTtsStop stopErr reason] @ InterruptAndClearQueueSyncWithReason d reason @ [CallFinishIfExited]"

definition FinishTtsWithoutProtocolStop :: "tts_error option \<Rightarrow> tts_call list" where
  "FinishTtsWithoutProtocolStop stopErr = [CallFinish False stopErr (lit ''finishTtsStop'')]"

subsection \<open>Everything that can happen\<close>

datatype tts_event =
    StartSender
  | StartDelayed
  | CtxDone
  | StartCall "tts_call list"
  | CallEvent nat tts_env bool bool
  | SenderEvent tts_env bool
  | DelayedEvent tts_env

text \<open>An element handed in with a generation of its own has read it earlier: it is not from the future.\<close>

fun call_ok :: "nat \<Rightarrow> tts_call \<Rightarrow> bool" where
  "call_ok generation (CallEnqueue elem) = (ae_Generation elem \<le> generation)"
| "call_ok generation _ = True"

definition tts_exec :: "instant \<Rightarrow> tts_event \<Rightarrow> tts_world \<Rightarrow> tts_world option" where
  "tts_exec clock ev w =
     (case ev of
        StartSender \<Rightarrow> start_sender w
      | StartDelayed \<Rightarrow> start_delayed w
      | CtxDone \<Rightarrow> Some (w\<lparr>tw_ctxDone := True\<rparr>)
      | StartCall cs \<Rightarrow> if list_all (call_ok (tw_audioGeneration w)) cs then Some (w\<lparr>tw_calls := tw_calls w @ [cs]\<rparr>) else None
      | CallEvent i env handler ctxGone \<Rightarrow>
          if i < length (tw_calls w) then
            (case tw_calls w ! i of
               [] \<Rightarrow> None
             | c # cs \<Rightarrow>
                 (case call_step clock env handler ctxGone c cs w of
                    None \<Rightarrow> None
                  | Some (cs', w1) \<Rightarrow> Some (w1\<lparr>tw_calls := (tw_calls w1)[i := cs']\<rparr>)))
          else None
      | SenderEvent env handler \<Rightarrow> sender_step clock env handler (tw_sender w) w
      | DelayedEvent env \<Rightarrow> delayed_step clock env w)"

fun tts_run :: "(instant \<times> tts_event) list \<Rightarrow> tts_world \<Rightarrow> tts_world option" where
  "tts_run [] w = Some w"
| "tts_run ((clock, ev) # evs) w = (case tts_exec clock ev w of None \<Rightarrow> None | Some w1 \<Rightarrow> tts_run evs w1)"

definition NewTTSManager :: "int \<Rightarrow> unit client_state \<Rightarrow> tts_world" where
  "NewTTSManager frameDuration client =
     \<lparr>tw_FrameDuration = frameDuration, tw_client = client, tw_sessionAudioQueue = [], tw_delayedSentenceQueue = [],
      tw_delayedSentenceReadyQueue = [], tw_interruptCh = [], tw_audioGeneration = 1, tw_audioInterruptCh = 0,
      tw_ttsActive = False, tw_senderLoopActive = False, tw_stop = no_stop, tw_metric = new_metric 0, tw_ctxDone = False,
      tw_sender = SenderNotStarted, tw_totalFrames = 0, tw_sentenceFrames = 0, tw_playbackTail = None,
      tw_delayed = DelayedNotStarted, tw_calls = [], tw_log = []\<rparr>"

end
