(* ===== verification/TtsRuns.thy ===== *)
theory TtsRuns
  imports TtsSender "HOL-Library.Multiset"
begin

text \<open>
  What holds of the speech output along all its runs: what an interrupt cuts off, how far the sender runs ahead of the
  device, that a stop follows a start, that the figures of a turn are traced once, and that the end of a sentence is told
  once. At the end, two runs in which the manager loses what it was given.
\<close>

subsection \<open>What the small updates leave alone\<close>

lemma tlog_fields [simp]:
  "tw_log (tlog outs w) = tw_log w @ outs" "tw_sender (tlog outs w) = tw_sender w" "tw_delayed (tlog outs w) = tw_delayed w"
  "tw_audioGeneration (tlog outs w) = tw_audioGeneration w" "tw_ttsActive (tlog outs w) = tw_ttsActive w"
  "tw_metric (tlog outs w) = tw_metric w" "tw_client (tlog outs w) = tw_client w" "tw_calls (tlog outs w) = tw_calls w"
  "tw_sessionAudioQueue (tlog outs w) = tw_sessionAudioQueue w" "tw_delayedSentenceQueue (tlog outs w) = tw_delayedSentenceQueue w"
  "tw_delayedSentenceReadyQueue (tlog outs w) = tw_delayedSentenceReadyQueue w" "tw_totalFrames (tlog outs w) = tw_totalFrames w"
  "tw_playbackTail (tlog outs w) = tw_playbackTail w" "tw_FrameDuration (tlog outs w) = tw_FrameDuration w"
  "tw_ctxDone (tlog outs w) = tw_ctxDone w" "tw_interruptCh (tlog outs w) = tw_interruptCh w" "tw_stop (tlog outs w) = tw_stop w"
  by (simp_all add: tlog_def)

lemma upd_client_fields [simp]:
  "tw_log (upd_client f w) = tw_log w" "tw_sender (upd_client f w) = tw_sender w" "tw_delayed (upd_client f w) = tw_delayed w"
  "tw_audioGeneration (upd_client f w) = tw_audioGeneration w" "tw_ttsActive (upd_client f w) = tw_ttsActive w"
  "tw_metric (upd_client f w) = tw_metric w" "tw_calls (upd_client f w) = tw_calls w"
  "tw_sessionAudioQueue (upd_client f w) = tw_sessionAudioQueue w" "tw_delayedSentenceQueue (upd_client f w) = tw_delayedSentenceQueue w"
  "tw_delayedSentenceReadyQueue (upd_client f w) = tw_delayedSentenceReadyQueue w" "tw_totalFrames (upd_client f w) = tw_totalFrames w"
  "tw_playbackTail (upd_client f w) = tw_playbackTail w" "tw_FrameDuration (upd_client f w) = tw_FrameDuration w"
  "tw_ctxDone (upd_client f w) = tw_ctxDone w" "tw_interruptCh (upd_client f w) = tw_interruptCh w" "tw_stop (upd_client f w) = tw_stop w"
  by (simp_all add: upd_client_def)

lemma upd_metric_fields [simp]:
  "tw_log (upd_metric f w) = tw_log w" "tw_sender (upd_metric f w) = tw_sender w" "tw_delayed (upd_metric f w) = tw_delayed w"
  "tw_audioGeneration (upd_metric f w) = tw_audioGeneration w" "tw_ttsActive (upd_metric f w) = tw_ttsActive w"
  "tw_metric (upd_metric f w) = f (tw_metric w)" "tw_client (upd_metric f w) = tw_client w" "tw_calls (upd_metric f w) = tw_calls w"
  "tw_sessionAudioQueue (upd_metric f w) = tw_sessionAudioQueue w" "tw_delayedSentenceQueue (upd_metric f w) = tw_delayedSentenceQueue w"
  "tw_delayedSentenceReadyQueue (upd_metric f w) = tw_delayedSentenceReadyQueue w" "tw_totalFrames (upd_metric f w) = tw_totalFrames w"
  "tw_playbackTail (upd_metric f w) = tw_playbackTail w" "tw_FrameDuration (upd_metric f w) = tw_FrameDuration w"
  "tw_ctxDone (upd_metric f w) = tw_ctxDone w" "tw_interruptCh (upd_metric f w) = tw_interruptCh w" "tw_stop (upd_metric f w) = tw_stop w"
  by (simp_all add: upd_metric_def)

lemma at_fields [simp]:
  "tw_log (at pc w) = tw_log w" "tw_sender (at pc w) = pc" "tw_delayed (at pc w) = tw_delayed w"
  "tw_audioGeneration (at pc w) = tw_audioGeneration w" "tw_ttsActive (at pc w) = tw_ttsActive w"
  "tw_metric (at pc w) = tw_metric w" "tw_client (at pc w) = tw_client w" "tw_calls (at pc w) = tw_calls w"
  "tw_sessionAudioQueue (at pc w) = tw_sessionAudioQueue w" "tw_delayedSentenceQueue (at pc w) = tw_delayedSentenceQueue w"
  "tw_delayedSentenceReadyQueue (at pc w) = tw_delayedSentenceReadyQueue w" "tw_totalFrames (at pc w) = tw_totalFrames w"
  "tw_playbackTail (at pc w) = tw_playbackTail w" "tw_FrameDuration (at pc w) = tw_FrameDuration w"
  "tw_ctxDone (at pc w) = tw_ctxDone w" "tw_interruptCh (at pc w) = tw_interruptCh w" "tw_stop (at pc w) = tw_stop w"
  by (simp_all add: at_def)

text \<open>
  \<open>figures_only w w'\<close>: the step has changed at most the client, the figures, the active flag and the pending stop, and has
  logged nothing that goes to the device as sound or sentence mark and no end of a sentence.
\<close>

fun is_wire :: "tts_out \<Rightarrow> bool" where
  "is_wire (OutAudio _ _) = True"
| "is_wire (OutSentenceStart _) = True"
| "is_wire (OutSentenceEnd _) = True"
| "is_wire (OutCalledEnd _ _) = True"
| "is_wire _ = False"

definition figures_only :: "tts_world \<Rightarrow> tts_world \<Rightarrow> bool" where
  "figures_only w w' \<longleftrightarrow> tw_sender w' = tw_sender w \<and> tw_delayed w' = tw_delayed w \<and> tw_audioGeneration w' = tw_audioGeneration w \<and>
     tw_calls w' = tw_calls w \<and> tw_sessionAudioQueue w' = tw_sessionAudioQueue w \<and>
     tw_delayedSentenceQueue w' = tw_delayedSentenceQueue w \<and> tw_delayedSentenceReadyQueue w' = tw_delayedSentenceReadyQueue w \<and>
     tw_totalFrames w' = tw_totalFrames w \<and> tw_playbackTail w' = tw_playbackTail w \<and> tw_FrameDuration w' = tw_FrameDuration w \<and>
     tw_ctxDone w' = tw_ctxDone w \<and> tw_interruptCh w' = tw_interruptCh w \<and>
     filter is_wire (tw_log w') = filter is_wire (tw_log w)"

lemma figures_refl [simp]: "figures_only w w"
  by (simp add: figures_only_def)

lemma figures_trans: "figures_only w w1 \<Longrightarrow> figures_only w1 w2 \<Longrightarrow> figures_only w w2"
  by (simp add: figures_only_def)

lemma figures_small [simp]:
  "filter is_wire outs = [] \<Longrightarrow> figures_only w (tlog outs w1) = figures_only w w1"
  "figures_only w (upd_client f w1) = figures_only w w1" "figures_only w (upd_metric g w1) = figures_only w w1"
  "figures_only w (w1\<lparr>tw_ttsActive := b\<rparr>) = figures_only w w1" "figures_only w (w1\<lparr>tw_stop := s\<rparr>) = figures_only w w1"
  by (simp_all add: figures_only_def tlog_def)

lemma figures_finalize [simp]: "figures_only w (finalizeTtsMetricLocked clock w1) = figures_only w w1"
  by (simp add: finalizeTtsMetricLocked_def Let_def)

lemma figures_maybe [simp]: "figures_only w (maybeFinalizeTtsMetricLocked clock w1) = figures_only w w1"
  by (simp add: maybeFinalizeTtsMetricLocked_def Let_def)

lemma figures_ops [simp]:
  "figures_only w (startTtsMetricCycle w1) = figures_only w w1" "figures_only w (registerTTSTurnEndPolicy p c w1) = figures_only w w1"
  "figures_only w (dispatchTTSTurnEndPolicy h e w1) = figures_only w w1" "figures_only w (registerTtsMetricItem c w1) = figures_only w w1"
  "figures_only w (finishTtsMetricItem clock c w1) = figures_only w w1"
  "figures_only w (markTtsMetricRequestStart clock c w1) = figures_only w w1"
  "figures_only w (markTtsMetricFirstAudio clock c w1) = figures_only w w1"
  "figures_only w (finishTtsMetricRequest clock c w1) = figures_only w w1" "figures_only w (RequestTurnEnd clock w1) = figures_only w w1"
  "figures_only w (forceStopTtsMetric clock w1) = figures_only w w1"
  by (simp_all add: startTtsMetricCycle_def registerTTSTurnEndPolicy_def dispatchTTSTurnEndPolicy_def registerTtsMetricItem_def
      finishTtsMetricItem_def markTtsMetricRequestStart_def markTtsMetricFirstAudio_def finishTtsMetricRequest_def
      RequestTurnEnd_def forceStopTtsMetric_def Let_def)

lemma figures_finish [simp]: "figures_only w (finishTtsStopWithReason clock v h send e w1) = figures_only w w1"
  by (simp add: finishTtsStopWithReason_def Let_def)

lemma figures_pending [simp]: "figures_only w (finish_pending clock v h w1) = figures_only w w1"
  by (simp add: finish_pending_def split: prod.splits option.splits)
lemma call_logs [simp]: "filter is_wire (call_start cb) = []" "filter is_wire (call_error cb e) = []"
  by (simp_all add: call_start_def call_error_def split: option.splits)

lemma tts_run_invariant:
  assumes "\<And>clock ev w w'. tts_exec clock ev w = Some w' \<Longrightarrow> P w \<Longrightarrow> P w'" "tts_run evs w = Some w'" "P w"
  shows "P w'"
  using assms(2,3)
proof (induction evs arbitrary: w)
  case (Cons tev evs)
  obtain t ev where tev: "tev = (t, ev)" by fastforce
  obtain w1 where "tts_exec t ev w = Some w1" "tts_run evs w1 = Some w'"
    using Cons.prems(1) by (auto simp: tev split: option.splits)
  then show ?case using Cons.IH Cons.prems(2) assms(1) by blast
qed simp

subsection \<open>What an interrupt cuts off\<close>

text \<open>Sound and sentence marks of generations before \<open>g\<close>, in the log and already past the check of the generation.\<close>

fun old_frame :: "nat \<Rightarrow> tts_out \<Rightarrow> bool" where
  "old_frame g (OutAudio e t) = (ae_Generation e < g)"
| "old_frame g _ = False"

fun old_mark :: "nat \<Rightarrow> tts_out \<Rightarrow> bool" where
  "old_mark g (OutSentenceStart e) = (ae_Generation e < g)"
| "old_mark g (OutSentenceEnd e) = (ae_Generation e < g)"
| "old_mark g _ = False"

fun held_wait :: "nat \<Rightarrow> wait_for \<Rightarrow> nat" where
  "held_wait g (WaitFrame e) = of_bool (ae_Generation e < g)"
| "held_wait g (WaitStop e) = 0"

fun held_frame :: "nat \<Rightarrow> sender_pc \<Rightarrow> nat" where
  "held_frame g (SenderAudio e t) = of_bool (ae_Generation e < g)"
| "held_frame g (SenderWait k d) = held_wait g k"
| "held_frame g (SenderSentence e (ToWait k d)) = held_wait g k"
| "held_frame g _ = 0"

fun held_mark :: "nat \<Rightarrow> sender_pc \<Rightarrow> nat" where
  "held_mark g (SenderSentence e ret) = of_bool (ae_Generation e < g)"
| "held_mark g _ = 0"

definition old_frames :: "nat \<Rightarrow> tts_world \<Rightarrow> nat" where
  "old_frames g w = length (filter (old_frame g) (tw_log w))"

definition old_marks :: "nat \<Rightarrow> tts_world \<Rightarrow> nat" where
  "old_marks g w = length (filter (old_mark g) (tw_log w))"

definition cut_off :: "nat \<Rightarrow> nat \<Rightarrow> nat \<Rightarrow> tts_world \<Rightarrow> bool" where
  "cut_off g m n w \<longleftrightarrow> g \<le> tw_audioGeneration w \<and> old_frames g w + held_frame g (tw_sender w) \<le> m \<and>
     old_marks g w + held_mark g (tw_sender w) \<le> n"

lemma old_wire: "filter (old_frame g) (filter is_wire xs) = filter (old_frame g) xs"
    "filter (old_mark g) (filter is_wire xs) = filter (old_mark g) xs"
proof -
  have "old_frame g x \<Longrightarrow> is_wire x" "old_mark g x \<Longrightarrow> is_wire x" for x by (cases x; simp)+
  then show "filter (old_frame g) (filter is_wire xs) = filter (old_frame g) xs"
    "filter (old_mark g) (filter is_wire xs) = filter (old_mark g) xs" by (induction xs) auto
qed

lemma old_figures: "figures_only w w' \<Longrightarrow> old_frames g w' = old_frames g w \<and> old_marks g w' = old_marks g w"
  unfolding old_frames_def old_marks_def figures_only_def by (metis old_wire)

lemma figures_cut_off: "figures_only w w' \<Longrightarrow> cut_off g m n w' = cut_off g m n w"
  using old_figures [of w w' g] by (simp add: cut_off_def) (simp add: figures_only_def)

lemma old_calls [simp]: "filter (old_frame g) (call_end cb e) = []" "filter (old_mark g) (call_end cb e) = []"
  "filter (old_frame g) (call_start cb) = []" "filter (old_mark g) (call_start cb) = []"
  "filter (old_frame g) (call_error cb x) = []" "filter (old_mark g) (call_error cb x) = []"
  by (simp_all add: call_end_def call_start_def call_error_def split: option.splits)

lemma cut_off_at: "cut_off g m n w \<Longrightarrow> held_frame g pc \<le> held_frame g (tw_sender w) \<Longrightarrow> held_mark g pc \<le> held_mark g (tw_sender w) \<Longrightarrow>
   cut_off g m n (at pc w)"
  by (simp add: cut_off_def old_frames_def old_marks_def)

lemma cut_off_log: "filter (old_frame g) outs = [] \<Longrightarrow> filter (old_mark g) outs = [] \<Longrightarrow> cut_off g m n (tlog outs w) = cut_off g m n w"
  by (simp add: cut_off_def old_frames_def old_marks_def)

lemma cut_off_queues [simp]:
  "cut_off g m n (w\<lparr>tw_sessionAudioQueue := q\<rparr>) = cut_off g m n w" "cut_off g m n (w\<lparr>tw_delayedSentenceReadyQueue := q\<rparr>) = cut_off g m n w"
  "cut_off g m n (w\<lparr>tw_delayedSentenceQueue := d\<rparr>) = cut_off g m n w" "cut_off g m n (w\<lparr>tw_interruptCh := i\<rparr>) = cut_off g m n w"
  "cut_off g m n (w\<lparr>tw_delayed := pc\<rparr>) = cut_off g m n w" "cut_off g m n (w\<lparr>tw_calls := cs\<rparr>) = cut_off g m n w"
  "cut_off g m n (w\<lparr>tw_stop := s\<rparr>) = cut_off g m n w" "cut_off g m n (w\<lparr>tw_ctxDone := b\<rparr>) = cut_off g m n w"
  "cut_off g m n (w\<lparr>tw_playbackTail := p\<rparr>) = cut_off g m n w" "cut_off g m n (w\<lparr>tw_totalFrames := k\<rparr>) = cut_off g m n w"
  "cut_off g m n (w\<lparr>tw_sentenceFrames := k\<rparr>) = cut_off g m n w" "cut_off g m n (w\<lparr>tw_ttsActive := b\<rparr>) = cut_off g m n w"
  "cut_off g m n (w\<lparr>tw_senderLoopActive := b\<rparr>) = cut_off g m n w" "cut_off g m n (upd_client f w) = cut_off g m n w"
  by (simp_all add: cut_off_def old_frames_def old_marks_def)

lemma call_step_cut_off:
  assumes "call_step clock env h gone c cs w = Some (cs', w')" "cut_off g m n w"
  shows "cut_off g m n w'"
proof -
  have "figures_only w w' \<Longrightarrow> ?thesis" using assms(2) figures_cut_off by blast
  then show ?thesis
    using assms
    by (cases c) (auto simp: cut_off_log Let_def split: tts_env.splits if_splits,
      auto simp: cut_off_def old_frames_def old_marks_def)
qed

lemma delayed_step_cut_off:
  assumes "delayed_step clock env w = Some w'" "cut_off g m n w"
  shows "cut_off g m n w'"
  using assms by (auto simp: delayed_step_def cut_off_log split: delayed_pc.splits tts_env.splits list.splits if_splits)

lemma take_ready_cut_off:
  assumes "take_ready ret w = Some w'" "cut_off g m n w" "held_frame g (after_sentence_pc ret) \<le> held_frame g (tw_sender w)"
  shows "cut_off g m n w'"
proof -
  obtain e rest where q: "tw_delayedSentenceReadyQueue w = e # rest" using assms(1) by (auto simp: take_ready_def split: list.splits)
  show ?thesis
    using assms q by (cases ret; auto simp: take_ready_def cut_off_def old_frames_def old_marks_def Let_def split: if_splits)
qed
lemma dispatch_cut_off:
  assumes "cut_off g m n w" "ae_Generation elem = tw_audioGeneration w"
  shows "cut_off g m n (dispatch_elem clock elem w)"
proof -
  have "\<not> ae_Generation elem < g" using assms by (simp add: cut_off_def)
  then show ?thesis
    using assms(1)
    by (cases "ae_Kind elem") (auto simp: dispatch_elem_def Let_def cut_off_log intro!: cut_off_at)
qed

lemma sentence_cut_off:
  assumes "cut_off g m n w" "tw_sender w = SenderSentence elem ret"
  shows "cut_off g m n (at (after_sentence_pc ret) (handleDelayedSentence v elem w))"
  using assms
  by (cases ret; cases "ae_Kind elem")
    (auto simp: handleDelayedSentence_def Let_def cut_off_def old_frames_def old_marks_def split: option.splits)

lemma audio_cut_off:
  assumes "cut_off g m n w" "tw_sender w = SenderAudio elem now"
  shows "cut_off g m n (send_audio clock v elem now w)"
proof (cases v)
  case None
  let ?w1 = "tlog [OutAudio elem now] w"
  let ?w2 = "if ae_Kind elem = AudioQueueKindFrame then markTtsMetricFirstAudio clock (ae_MetricCycle elem) ?w1 else ?w1"
  have "figures_only ?w1 ?w2" by simp
  then have f: "tw_audioGeneration ?w2 = tw_audioGeneration w" "old_frames g ?w2 = old_frames g ?w1" "old_marks g ?w2 = old_marks g ?w1"
    using old_figures [of ?w1 ?w2 g] by (auto simp: figures_only_def)
  have "cut_off g m n (at SenderTop ?w2)"
    using assms f by (auto simp: cut_off_def old_frames_def old_marks_def)
  then show ?thesis
    unfolding send_audio_def None option.case Let_def by (simp add: cut_off_def old_frames_def old_marks_def)
next
  case (Some e)
  then show ?thesis using assms by (simp add: send_audio_def cut_off_def old_frames_def old_marks_def)
qed

lemma reached_cut_off:
  assumes "cut_off g m n w" "tw_sender w = SenderWait k d"
  shows "cut_off g m n (wait_reached clock v h k w)"
proof (cases k)
  case (WaitFrame e)
  then show ?thesis
    using assms by (auto simp: wait_reached_def cut_off_def old_frames_def old_marks_def split: option.splits)
next
  case (WaitStop e)
  have f: "figures_only w (finishTtsStopWithReason clock v h True None w)" by simp
  then have "cut_off g m n (finishTtsStopWithReason clock v h True None w)" using assms(1) figures_cut_off by blast
  moreover have "tw_sender (finishTtsStopWithReason clock v h True None w) = SenderWait k d" using f assms(2) by (simp add: figures_only_def)
  ultimately show ?thesis using WaitStop by (auto simp: wait_reached_def intro!: cut_off_at)
qed

lemma cut_off_idle_at: "cut_off g m n w \<Longrightarrow> held_frame g pc = 0 \<Longrightarrow> held_mark g pc = 0 \<Longrightarrow> cut_off g m n (at pc w)"
  by (rule cut_off_at) simp_all

lemma drained_cut_off:
  assumes "cut_off g m n w"
  shows "cut_off g m n (sender_drained clock v h k w)"
proof (cases k)
  case (DrainInterrupt req)
  have "figures_only w (finish_pending clock v h w)" by simp
  then have "cut_off g m n (finish_pending clock v h w)" using assms figures_cut_off by blast
  then show ?thesis
    using DrainInterrupt by (auto simp: sender_drained_def Let_def cut_off_log split: option.splits intro!: cut_off_idle_at)
next
  case DrainExit
  have "figures_only w (finishTtsStopWithReason clock v h True (Some ContextDone) w)" by simp
  then have "cut_off g m n (finishTtsStopWithReason clock v h True (Some ContextDone) w)" using assms figures_cut_off by blast
  then show ?thesis using DrainExit by (simp add: sender_drained_def cut_off_def old_frames_def old_marks_def)
qed

lemma sender_step_cut_off:
  assumes step: "sender_step clock env h (tw_sender w) w = Some w'" and c: "cut_off g m n w"
  shows "cut_off g m n w'"
proof (cases "tw_sender w")
  case SenderTop
  then show ?thesis using step c take_ready_cut_off [of ToTop w w' g m n] by (auto split: if_splits intro!: cut_off_idle_at)
next
  case SenderSelect
  then show ?thesis
    using step c take_ready_cut_off [of ToTop w w' g m n]
    by (auto simp: Let_def take_interrupt_def cut_off_log split: tts_env.splits list.splits if_splits
        intro!: cut_off_idle_at dispatch_cut_off)
next
  case (SenderSentence elem ret)
  then show ?thesis using step c sentence_cut_off [OF c] by (auto split: tts_env.splits)
next
  case (SenderWait k d)
  then show ?thesis
    using step c take_ready_cut_off [of "ToWait k d" w w' g m n] reached_cut_off [OF c]
    by (auto simp: take_interrupt_def split: tts_env.splits list.splits if_splits intro!: cut_off_idle_at)
next
  case (SenderAudio elem now)
  then show ?thesis using step audio_cut_off [OF c] by (auto split: tts_env.splits)
next
  case (SenderDrained k)
  then show ?thesis using step drained_cut_off [OF c] by (auto split: tts_env.splits)
qed (use step c in \<open>auto simp: Let_def cut_off_log split: tts_env.splits list.splits if_splits intro!: cut_off_idle_at\<close>)

lemma tts_exec_cut_off:
  assumes "tts_exec clock ev w = Some w'" "cut_off g m n w"
  shows "cut_off g m n w'"
proof (cases ev)
  case (CallEvent i env h gone)
  then show ?thesis
    using assms call_step_cut_off [OF _ assms(2)] by (auto simp: tts_exec_def split: if_splits list.splits option.splits prod.splits)
next
  case (SenderEvent env h)
  then show ?thesis using assms sender_step_cut_off by (simp add: tts_exec_def)
next
  case (DelayedEvent env)
  then show ?thesis using assms delayed_step_cut_off by (simp add: tts_exec_def)
qed (use assms in \<open>auto simp: tts_exec_def start_sender_def start_delayed_def split: if_splits intro!: cut_off_idle_at\<close>)

lemma held_le_1: "held_frame g pc \<le> 1" "held_mark g pc \<le> 1"
proof -
  have w: "held_wait g k \<le> Suc 0" for g k by (cases k) auto
  show "held_frame g pc \<le> 1" by (induction g pc rule: held_frame.induct) (auto simp: w)
  show "held_mark g pc \<le> 1" by (cases pc) auto
qed

subsection \<open>The pace of sending\<close>

fun audio_time :: "tts_out \<Rightarrow> instant list" where
  "audio_time (OutAudio e t) = [t]"
| "audio_time _ = []"

definition audio_times :: "tts_out list \<Rightarrow> instant list" where
  "audio_times outs = concat (map audio_time outs)"

text \<open>The frames sent since the counter was last reset, by a start, a stop or an interrupt.\<close>

definition stretch :: "tts_world \<Rightarrow> instant list" where
  "stretch w = (let times = audio_times (tw_log w) in drop (length times - tw_totalFrames w) times)"

text \<open>The sender may be ahead of the device by \<open>allowed_ahead\<close>, at most 120 milliseconds of sound.\<close>

definition frame_ns :: "tts_world \<Rightarrow> int" where
  "frame_ns w = tw_FrameDuration w * ms"

definition allowed_ahead :: "tts_world \<Rightarrow> int" where
  "allowed_ahead w = 120 sdiv tw_FrameDuration w * frame_ns w"

definition paced :: "int \<Rightarrow> int \<Rightarrow> instant list \<Rightarrow> bool" where
  "paced A F ts \<longleftrightarrow> (\<forall>i j. i < j \<and> j < length ts \<longrightarrow> int (j - i) * F \<le> ts ! j - ts ! i + A)"

definition ahead :: "int \<Rightarrow> instant list \<Rightarrow> instant \<Rightarrow> bool" where
  "ahead F ts T \<longleftrightarrow> (\<forall>i < length ts. ts ! i + int (length ts - i) * F \<le> T)"

lemma paced_snoc: "paced A F ts \<Longrightarrow> ahead F ts T \<Longrightarrow> T \<le> now + A \<Longrightarrow> paced A F (ts @ [now])"
  unfolding paced_def ahead_def
proof (intro allI impI)
  fix i j
  assume p: "\<forall>i j. i < j \<and> j < length ts \<longrightarrow> int (j - i) * F \<le> ts ! j - ts ! i + A"
    and a: "\<forall>i < length ts. ts ! i + int (length ts - i) * F \<le> T" and t: "T \<le> now + A"
    and ij: "i < j \<and> j < length (ts @ [now])"
  show "int (j - i) * F \<le> (ts @ [now]) ! j - (ts @ [now]) ! i + A"
  proof (cases "j < length ts")
    case True
    then show ?thesis using p ij by (simp add: nth_append)
  next
    case False
    then have "j = length ts" using ij by simp
    then show ?thesis using a ij t by (fastforce simp: nth_append)
  qed
qed

lemma ahead_snoc: "ahead F ts T \<Longrightarrow> now \<le> T \<Longrightarrow> ahead F (ts @ [now]) (T + F)"
  unfolding ahead_def
proof (intro allI impI)
  fix i assume a: "\<forall>i < length ts. ts ! i + int (length ts - i) * F \<le> T" and n: "now \<le> T" and i: "i < length (ts @ [now])"
  show "(ts @ [now]) ! i + int (length (ts @ [now]) - i) * F \<le> T + F"
  proof (cases "i < length ts")
    case True
    then have "int (length (ts @ [now]) - i) * F = int (length ts - i) * F + F"
      by (simp add: Suc_diff_le algebra_simps)
    then show ?thesis using a True by (simp add: nth_append)
  next
    case False
    then have "i = length ts" using i by simp
    then show ?thesis using n by simp
  qed
qed

lemma ahead_mono: "ahead F ts T \<Longrightarrow> T \<le> T' \<Longrightarrow> ahead F ts T'"
  unfolding ahead_def by fastforce

lemma ahead_Nil [simp]: "ahead F [] T" "paced A F []"
  by (simp_all add: ahead_def paced_def)

text \<open>What the program counter says about the end of what the device has (\<open>playbackTail\<close>).\<close>

fun pc_paced :: "int \<Rightarrow> instant option \<Rightarrow> sender_pc \<Rightarrow> bool" where
  "pc_paced A tail (SenderAudio e now) = (\<exists>T. tail = Some T \<and> now \<le> T \<and> T \<le> now + A)"
| "pc_paced A tail (SenderWait (WaitFrame e) d) = (\<exists>T. tail = Some T \<and> T \<le> d + A)"
| "pc_paced A tail (SenderSentence e' (ToWait (WaitFrame e) d)) = (\<exists>T. tail = Some T \<and> T \<le> d + A)"
| "pc_paced A tail _ = True"

definition pace_inv :: "int \<Rightarrow> tts_world \<Rightarrow> bool" where
  "pace_inv F w \<longleftrightarrow> 0 < F \<and> tw_FrameDuration w = F \<and> tw_totalFrames w \<le> length (audio_times (tw_log w)) \<and>
     paced (allowed_ahead w) (frame_ns w) (stretch w) \<and>
     (case tw_playbackTail w of None \<Rightarrow> tw_totalFrames w = 0 | Some T \<Rightarrow> ahead (frame_ns w) (stretch w) T) \<and>
     pc_paced (allowed_ahead w) (tw_playbackTail w) (tw_sender w)"

lemma audio_times_simps [simp]: "audio_times [] = []" "audio_times (xs @ ys) = audio_times xs @ audio_times ys"
  by (simp_all add: audio_times_def)

lemma audio_times_calls [simp]:
  "audio_times (call_end cb e) = []" "audio_times (call_start cb) = []" "audio_times (call_error cb x) = []"
  by (cases cb; simp add: audio_times_def call_end_def call_start_def call_error_def)+

lemma audio_times_Cons [simp]: "audio_times (x # xs) = audio_time x @ audio_times xs"
  by (simp add: audio_times_def)

lemma audio_times_wire: "audio_times (filter is_wire outs) = audio_times outs"
proof (induction outs)
  case (Cons x xs)
  then show ?case by (cases x) simp_all
qed simp

lemma pace_cong:
  assumes "tw_FrameDuration w' = tw_FrameDuration w" "tw_totalFrames w' = tw_totalFrames w" "tw_playbackTail w' = tw_playbackTail w"
    "audio_times (tw_log w') = audio_times (tw_log w)" "tw_sender w' = tw_sender w"
  shows "pace_inv F w' = pace_inv F w"
  using assms by (simp add: pace_inv_def stretch_def allowed_ahead_def frame_ns_def split: option.splits)

lemma figures_audio: "figures_only w w' \<Longrightarrow> audio_times (tw_log w') = audio_times (tw_log w)"
  using audio_times_wire [of "tw_log w"] audio_times_wire [of "tw_log w'"] by (simp add: figures_only_def)

lemma figures_pace: "figures_only w w' \<Longrightarrow> pace_inv F w' = pace_inv F w"
  by (rule pace_cong) (simp_all add: figures_audio, simp_all add: figures_only_def)

lemma pace_simps [simp]:
  "pace_inv F (w\<lparr>tw_sessionAudioQueue := q\<rparr>) = pace_inv F w" "pace_inv F (w\<lparr>tw_delayedSentenceReadyQueue := q\<rparr>) = pace_inv F w"
  "pace_inv F (w\<lparr>tw_delayedSentenceQueue := d\<rparr>) = pace_inv F w" "pace_inv F (w\<lparr>tw_interruptCh := i\<rparr>) = pace_inv F w"
  "pace_inv F (w\<lparr>tw_delayed := pc\<rparr>) = pace_inv F w" "pace_inv F (w\<lparr>tw_calls := cs\<rparr>) = pace_inv F w"
  "pace_inv F (w\<lparr>tw_stop := s\<rparr>) = pace_inv F w" "pace_inv F (w\<lparr>tw_ctxDone := b\<rparr>) = pace_inv F w"
  "pace_inv F (w\<lparr>tw_sentenceFrames := k\<rparr>) = pace_inv F w" "pace_inv F (w\<lparr>tw_ttsActive := b\<rparr>) = pace_inv F w"
  "pace_inv F (w\<lparr>tw_senderLoopActive := b\<rparr>) = pace_inv F w" "pace_inv F (upd_client f w) = pace_inv F w"
  "pace_inv F (w\<lparr>tw_audioGeneration := g, tw_audioInterruptCh := c\<rparr>) = pace_inv F w"
  "audio_times outs = [] \<Longrightarrow> pace_inv F (tlog outs w) = pace_inv F w"
  by (rule pace_cong; simp)+

lemma pace_at: "pace_inv F w \<Longrightarrow> pc_paced (allowed_ahead w) (tw_playbackTail w) pc \<Longrightarrow> pace_inv F (at pc w)"
  by (auto simp: pace_inv_def stretch_def allowed_ahead_def frame_ns_def split: option.splits)

lemma pace_reset: "pace_inv F w \<Longrightarrow> tw_totalFrames w' = 0 \<Longrightarrow> tw_playbackTail w' = None \<Longrightarrow> tw_FrameDuration w' = tw_FrameDuration w \<Longrightarrow>
   pc_paced (allowed_ahead w) None (tw_sender w') \<Longrightarrow> pace_inv F w'"
  by (simp add: pace_inv_def stretch_def allowed_ahead_def frame_ns_def Let_def)

lemma allowed_nonneg: "pace_inv F w \<Longrightarrow> 0 \<le> allowed_ahead w"
  by (simp add: pace_inv_def allowed_ahead_def frame_ns_def ms_def signed_divide_int_def pos_imp_zdiv_nonneg_iff)
lemma call_step_pace:
  assumes "call_step clock env h gone c cs w = Some (cs', w')" "pace_inv F w"
  shows "pace_inv F w'"
proof -
  have "figures_only w w' \<Longrightarrow> ?thesis" using assms(2) figures_pace by blast
  then show ?thesis
    using assms by (cases c) (auto simp: Let_def split: tts_env.splits if_splits)
qed

lemma delayed_step_pace:
  assumes "delayed_step clock env w = Some w'" "pace_inv F w"
  shows "pace_inv F w'"
  using assms by (auto simp: delayed_step_def split: delayed_pc.splits tts_env.splits list.splits if_splits)

lemma take_ready_pace:
  assumes "take_ready ret w = Some w'" "pace_inv F w" "pc_paced (allowed_ahead w) (tw_playbackTail w) (after_sentence_pc ret)"
  shows "pace_inv F w'"
proof -
  obtain e rest where q: "tw_delayedSentenceReadyQueue w = e # rest" using assms(1) by (auto simp: take_ready_def split: list.splits)
  have "pc_paced (allowed_ahead w) (tw_playbackTail w) (SenderSentence e ret)"
    using assms(3) by (cases ret; cases "tw_playbackTail w") (auto elim: pc_paced.elims)
  moreover have a: "allowed_ahead (w\<lparr>tw_delayedSentenceReadyQueue := rest\<rparr>) = allowed_ahead w"
    by (simp add: allowed_ahead_def frame_ns_def)
  moreover have "allowed_ahead (tlog o' v) = allowed_ahead v" for o' v by (simp add: allowed_ahead_def frame_ns_def)
  ultimately show ?thesis
    using assms q by (auto simp: take_ready_def Let_def split: if_splits intro!: pace_at)
qed

lemma dispatch_pace:
  assumes "pace_inv F w"
  shows "pace_inv F (dispatch_elem clock elem w)"
proof -
  define T where "T = (case tw_playbackTail w of None \<Rightarrow> clock | Some tail \<Rightarrow> if clock > tail then clock else tail)"
  have "ahead (frame_ns w) (stretch w) T"
    using assms by (auto simp: pace_inv_def T_def stretch_def Let_def split: option.splits intro: ahead_mono)
  moreover have "stretch (w\<lparr>tw_playbackTail := Some T\<rparr>) = stretch w" "frame_ns (w\<lparr>tw_playbackTail := Some T\<rparr>) = frame_ns w"
    "allowed_ahead (w\<lparr>tw_playbackTail := Some T\<rparr>) = allowed_ahead w"
    by (simp_all add: stretch_def frame_ns_def allowed_ahead_def)
  ultimately have set: "pace_inv F (at pc (w\<lparr>tw_playbackTail := Some T\<rparr>))" if "pc_paced (allowed_ahead w) (Some T) pc" for pc
    using assms that by (auto simp: pace_inv_def stretch_def frame_ns_def allowed_ahead_def)
  have "clock \<le> T" by (auto simp: T_def split: option.splits)
  then have frame: "pace_inv F (if clock < T - allowed_ahead w then at (SenderWait (WaitFrame elem) (T - allowed_ahead w)) (w\<lparr>tw_playbackTail := Some T\<rparr>)
      else at (SenderAudio elem clock) (w\<lparr>tw_playbackTail := Some T\<rparr>))"
    using set by simp
  then show ?thesis
    using assms unfolding T_def allowed_ahead_def frame_ns_def
    by (cases "ae_Kind elem") (auto simp: dispatch_elem_def Let_def intro!: pace_at)
qed

lemma sentence_pace:
  assumes "pace_inv F w" "tw_sender w = SenderSentence elem ret"
  shows "pace_inv F (at (after_sentence_pc ret) (handleDelayedSentence v elem w))"
proof -
  have h: "pace_inv F (handleDelayedSentence v elem w)"
    using assms(1) by (cases "ae_Kind elem") (auto simp: handleDelayedSentence_def Let_def split: option.splits)
  have s: "tw_playbackTail (handleDelayedSentence v elem w) = tw_playbackTail w"
    "allowed_ahead (handleDelayedSentence v elem w) = allowed_ahead w"
    by (cases "ae_Kind elem"; auto simp: handleDelayedSentence_def Let_def allowed_ahead_def frame_ns_def split: option.splits)+
  have "pc_paced (allowed_ahead w) (tw_playbackTail w) (SenderSentence elem ret)" using assms by (simp add: pace_inv_def)
  then have "pc_paced (allowed_ahead w) (tw_playbackTail w) (after_sentence_pc ret)"
    by (cases ret) (auto elim: pc_paced.elims)
  then show ?thesis using h s by (intro pace_at) simp_all
qed

lemma audio_pace:
  assumes "pace_inv F w" "tw_sender w = SenderAudio elem now"
  shows "pace_inv F (send_audio clock v elem now w)"
proof (cases v)
  case None
  let ?w1 = "tlog [OutAudio elem now] w"
  let ?w2 = "if ae_Kind elem = AudioQueueKindFrame then markTtsMetricFirstAudio clock (ae_MetricCycle elem) ?w1 else ?w1"
  obtain T where T: "tw_playbackTail w = Some T" "now \<le> T" "T \<le> now + allowed_ahead w"
    using assms by (auto simp: pace_inv_def)
  have fo: "figures_only ?w1 ?w2" by simp
  then have "audio_times (tw_log ?w2) = audio_times (tw_log ?w1)" by (rule figures_audio)
  then have f: "tw_FrameDuration ?w2 = tw_FrameDuration w" "tw_totalFrames ?w2 = tw_totalFrames w" "tw_playbackTail ?w2 = tw_playbackTail w"
    "audio_times (tw_log ?w2) = audio_times (tw_log w) @ [now]"
    using fo unfolding figures_only_def by (simp_all only: tlog_fields audio_times_simps audio_times_Cons audio_time.simps append.simps)
  let ?w3 = "send_audio clock v elem now w"
  have w3: "tw_FrameDuration ?w3 = tw_FrameDuration w" "tw_totalFrames ?w3 = Suc (tw_totalFrames w)" "tw_playbackTail ?w3 = Some (T + frame_ns w)"
    "audio_times (tw_log ?w3) = audio_times (tw_log w) @ [now]" "tw_sender ?w3 = SenderTop"
    unfolding send_audio_def None option.case Let_def using f T(1) by (simp_all add: frame_ns_def)
  have "stretch ?w3 = stretch w @ [now]" "frame_ns ?w3 = frame_ns w" "allowed_ahead ?w3 = allowed_ahead w"
    using assms(1) w3 by (simp_all add: stretch_def Let_def frame_ns_def allowed_ahead_def pace_inv_def)
  then show ?thesis
    using assms(1) w3 T paced_snoc [of "allowed_ahead w" "frame_ns w" "stretch w" T now] ahead_snoc [of "frame_ns w" "stretch w" T now]
    by (simp add: pace_inv_def)
next
  case (Some e)
  then show ?thesis using assms by (auto simp: send_audio_def intro!: pace_at)
qed

lemma reached_pace:
  assumes "pace_inv F w" "tw_sender w = SenderWait k d" "d \<le> clock"
  shows "pace_inv F (wait_reached clock v h k w)"
proof (cases k)
  case (WaitFrame e)
  obtain T where T: "tw_playbackTail w = Some T" "T \<le> d + allowed_ahead w" using assms(1,2) WaitFrame by (auto simp: pace_inv_def)
  have a: "0 \<le> allowed_ahead w" using allowed_nonneg [OF assms(1)] .
  have "ahead (frame_ns w) (stretch w) (max clock T)" using assms(1) T(1) by (auto simp: pace_inv_def intro: ahead_mono)
  moreover have "wait_reached clock v h k w = at (SenderAudio e clock) (w\<lparr>tw_playbackTail := Some (max clock T)\<rparr>)"
    using T(1) WaitFrame by (auto simp: wait_reached_def at_def max_def)
  ultimately show ?thesis
    using assms T a by (auto simp: pace_inv_def stretch_def frame_ns_def allowed_ahead_def)
next
  case (WaitStop e)
  have "figures_only w (finishTtsStopWithReason clock v h True None w)" by simp
  then have f: "tw_FrameDuration (finishTtsStopWithReason clock v h True None w) = tw_FrameDuration w" by (simp add: figures_only_def)
  show ?thesis
    by (rule pace_reset [OF assms(1)]) (simp_all add: WaitStop wait_reached_def f)
qed

lemma drained_pace:
  assumes "pace_inv F w"
  shows "pace_inv F (sender_drained clock v h k w)"
proof (cases k)
  case (DrainInterrupt req)
  have "figures_only w (finish_pending clock v h w)" by simp
  then have "tw_FrameDuration (finish_pending clock v h w) = tw_FrameDuration w" by (simp add: figures_only_def)
  then show ?thesis using assms DrainInterrupt by (intro pace_reset [OF assms]) (simp_all add: sender_drained_def Let_def)
next
  case DrainExit
  let ?w = "finishTtsStopWithReason clock v h True (Some ContextDone) w"
  have "figures_only w ?w" by simp
  then have "pace_inv F ?w" using assms figures_pace by blast
  then have "pace_inv F (at SenderExited ?w)" by (rule pace_at) simp
  moreover have "sender_drained clock v h k w = (at SenderExited ?w)\<lparr>tw_senderLoopActive := False\<rparr>"
    by (simp add: DrainExit sender_drained_def at_def)
  ultimately show ?thesis by simp
qed

lemma sender_step_pace:
  assumes step: "sender_step clock env h (tw_sender w) w = Some w'" and c: "pace_inv F w"
  shows "pace_inv F w'"
proof (cases "tw_sender w")
  case SenderTop
  then show ?thesis using step c take_ready_pace [of ToTop w w'] by (auto split: if_splits intro!: pace_at)
next
  case SenderSelect
  then show ?thesis
    using step c take_ready_pace [of ToTop w w']
    by (auto simp: Let_def take_interrupt_def split: tts_env.splits list.splits if_splits intro!: pace_at dispatch_pace)
next
  case (SenderSentence elem ret)
  then show ?thesis using step sentence_pace [OF c] by (auto split: tts_env.splits)
next
  case (SenderWait k d)
  have "pc_paced (allowed_ahead w) (tw_playbackTail w) (SenderWait k d)" using c SenderWait by (simp add: pace_inv_def)
  then show ?thesis
    using step c SenderWait take_ready_pace [of "ToWait k d" w w'] reached_pace [OF c SenderWait]
    by (auto simp: take_interrupt_def split: tts_env.splits list.splits if_splits intro!: pace_at)
next
  case (SenderAudio elem now)
  then show ?thesis using step audio_pace [OF c] by (auto split: tts_env.splits)
next
  case SenderTtsStart
  then obtain v where "env = EnvVerdict v" using step by (auto split: tts_env.splits)
  then have "w' = at SenderTop ((if v = None then tlog [OutTtsStart] (upd_client (SetTtsStart True) w) else w)
      \<lparr>tw_totalFrames := 0, tw_playbackTail := None\<rparr>)" using step SenderTtsStart by (simp add: Let_def)
  then show ?thesis by (intro pace_reset [OF c]) simp_all
next
  case (SenderDrained k)
  then show ?thesis using step drained_pace [OF c] by (auto split: tts_env.splits)
qed (use step c in \<open>auto split: tts_env.splits list.splits if_splits intro!: pace_at\<close>)

lemma tts_exec_pace:
  assumes "tts_exec clock ev w = Some w'" "pace_inv F w"
  shows "pace_inv F w'"
proof (cases ev)
  case StartSender
  then have "w' = at SenderPanicked w \<or> w' = at SenderTop (w\<lparr>tw_senderLoopActive := True, tw_totalFrames := 0,
      tw_sentenceFrames := 0, tw_playbackTail := None\<rparr>)" using assms(1) by (auto simp: tts_exec_def start_sender_def split: if_splits)
  then show ?thesis
  proof
    assume "w' = at SenderPanicked w"
    then show ?thesis using pace_at [OF assms(2), of SenderPanicked] by simp
  next
    assume "w' = at SenderTop (w\<lparr>tw_senderLoopActive := True, tw_totalFrames := 0, tw_sentenceFrames := 0, tw_playbackTail := None\<rparr>)"
    then show ?thesis by (intro pace_reset [OF assms(2)]) simp_all
  qed
next
  case (CallEvent i env h gone)
  then show ?thesis
    using assms call_step_pace [OF _ assms(2)] by (auto simp: tts_exec_def split: if_splits list.splits option.splits prod.splits)
next
  case (SenderEvent env h)
  then show ?thesis using assms sender_step_pace by (simp add: tts_exec_def)
next
  case (DelayedEvent env)
  then show ?thesis using assms delayed_step_pace by (simp add: tts_exec_def)
qed (use assms in \<open>auto simp: tts_exec_def start_delayed_def split: if_splits\<close>)

text \<open>
  C37. The sender keeps the pace of the device: for frames of a positive duration (in milliseconds), along every run and within
  a stretch without start, stop or interrupt, the frames sent between two moments last no longer than the time between
  them plus 120 milliseconds.
\<close>

theorem sender_keeps_pace:
  assumes "tts_run evs (NewTTSManager frameDuration client) = Some w" "0 < frameDuration" "i < j" "j < length (stretch w)"
  shows "int (j - i) * (frameDuration * 1000000) \<le> stretch w ! j - stretch w ! i + 120 * 1000000"
proof -
  have "pace_inv frameDuration (NewTTSManager frameDuration client)"
    using assms(2) by (simp add: NewTTSManager_def pace_inv_def stretch_def)
  then have inv: "pace_inv frameDuration w"
    using tts_run_invariant [where P = "pace_inv frameDuration", OF _ assms(1)] tts_exec_pace by blast
  then have "int (j - i) * frame_ns w \<le> stretch w ! j - stretch w ! i + allowed_ahead w"
    using assms(3,4) by (simp add: pace_inv_def paced_def)
  moreover have "allowed_ahead w \<le> 120 * 1000000"
  proof -
    have "120 div frameDuration * frameDuration \<le> 120" by (metis assms(2) div_mult_mod_eq le_add_same_cancel1 pos_mod_sign)
    then show ?thesis using inv by (simp add: pace_inv_def allowed_ahead_def frame_ns_def ms_def signed_divide_int_def mult.commute)
  qed
  ultimately show ?thesis using inv by (simp add: pace_inv_def frame_ns_def ms_def)
qed
subsection \<open>Starts, stops and figures\<close>

text \<open>
  What depends only on the traces, the announced starts and stops, the figures and the active flag is kept by every step
  if it is kept by the operations on the figures, by the start and by the end of the output.
\<close>

fun is_figure :: "tts_out \<Rightarrow> bool" where
  "is_figure (OutTrace _ _ _) = True"
| "is_figure OutTtsStop = True"
| "is_figure OutHookStart = True"
| "is_figure _ = False"

definition figure_log :: "tts_world \<Rightarrow> tts_out list" where
  "figure_log w = filter is_figure (tw_log w)"

definition same_figures :: "tts_world \<Rightarrow> tts_world \<Rightarrow> bool" where
  "same_figures w w' \<longleftrightarrow> figure_log w' = figure_log w \<and> tw_metric w' = tw_metric w \<and> tw_ttsActive w' = tw_ttsActive w"

locale figure_invariant =
  fixes P :: "tts_world \<Rightarrow> bool"
  assumes view: "same_figures w w' \<Longrightarrow> P w' = P w"
    and activate: "P w \<Longrightarrow> P (tlog [OutHookStart] (w\<lparr>tw_ttsActive := True\<rparr>))"
    and cycle: "P w \<Longrightarrow> P (startTtsMetricCycle w)"
    and policy: "P w \<Longrightarrow> P (registerTTSTurnEndPolicy policy c w)"
    and item: "P w \<Longrightarrow> P (registerTtsMetricItem c w)" "P w \<Longrightarrow> P (finishTtsMetricItem clock c w)"
    and request: "P w \<Longrightarrow> P (markTtsMetricRequestStart clock c w)" "P w \<Longrightarrow> P (finishTtsMetricRequest clock c w)"
    and first: "P w \<Longrightarrow> P (markTtsMetricFirstAudio clock c w)"
    and turn: "P w \<Longrightarrow> P (RequestTurnEnd clock w)"
    and finish: "P w \<Longrightarrow> P (finishTtsStopWithReason clock v h send e w)"
begin

lemma keep_fields:
  "P (w\<lparr>tw_sessionAudioQueue := q\<rparr>) = P w" "P (w\<lparr>tw_delayedSentenceReadyQueue := q\<rparr>) = P w"
  "P (w\<lparr>tw_delayedSentenceQueue := d\<rparr>) = P w" "P (w\<lparr>tw_interruptCh := i\<rparr>) = P w"
  "P (w\<lparr>tw_delayed := pc'\<rparr>) = P w" "P (w\<lparr>tw_calls := cs\<rparr>) = P w" "P (w\<lparr>tw_stop := s\<rparr>) = P w" "P (w\<lparr>tw_ctxDone := b\<rparr>) = P w"
  "P (w\<lparr>tw_sentenceFrames := k\<rparr>) = P w" "P (w\<lparr>tw_totalFrames := k\<rparr>) = P w" "P (w\<lparr>tw_playbackTail := t\<rparr>) = P w"
  "P (w\<lparr>tw_senderLoopActive := b\<rparr>) = P w" "P (w\<lparr>tw_sender := pc\<rparr>) = P w" "P (upd_client f w) = P w" "P (at pc w) = P w"
  "P (w\<lparr>tw_audioGeneration := g, tw_audioInterruptCh := c\<rparr>) = P w"
  by (rule view; simp add: same_figures_def figure_log_def)+

lemma keep_log: "filter is_figure outs = [] \<Longrightarrow> P (tlog outs w) = P w"
  by (rule view) (simp add: same_figures_def figure_log_def)

lemma keep_calls: "P (tlog (call_end cb e) w) = P w" "P (tlog (call_start cb) w) = P w" "P (tlog (call_error cb x) w) = P w"
  by (rule keep_log, simp add: call_end_def call_start_def call_error_def split: option.splits)+

lemma keep_pending: "P w \<Longrightarrow> P (finish_pending clock v h w)"
  by (simp add: finish_pending_def finish keep_fields split: prod.splits option.splits)

lemma keep_call_step: "call_step clock env h gone c cs w = Some (cs', w') \<Longrightarrow> P w \<Longrightarrow> P w'"
  by (cases c) (auto simp: Let_def keep_fields keep_calls keep_log split: tts_env.splits if_splits
      intro: keep_pending finish cycle policy item request first turn)

lemma keep_delayed_step: "delayed_step clock env w = Some w' \<Longrightarrow> P w \<Longrightarrow> P w'"
  by (auto simp: delayed_step_def keep_fields keep_calls split: delayed_pc.splits tts_env.splits list.splits if_splits)

lemma keep_take: "take_ready ret w = Some w' \<Longrightarrow> P w \<Longrightarrow> P w'" "take_interrupt w = Some w' \<Longrightarrow> P w \<Longrightarrow> P w'"
  by (auto simp: take_ready_def take_interrupt_def Let_def keep_fields keep_calls split: list.splits if_splits)

lemma keep_dispatch: "P w \<Longrightarrow> P (dispatch_elem clock elem w)"
  by (cases "ae_Kind elem") (auto simp: dispatch_elem_def Let_def keep_fields intro: activate)

lemma keep_log_append: "P (tlog (call_error cb x @ call_end cb' e) w) = P w"
  by (rule keep_log) (simp add: call_end_def call_error_def split: option.splits)

lemma keep_sentence: "P w \<Longrightarrow> P (handleDelayedSentence v elem w)"
  by (cases "ae_Kind elem") (auto simp: handleDelayedSentence_def Let_def keep_fields keep_calls keep_log keep_log_append
      split: option.splits)

lemma keep_audio: "P w \<Longrightarrow> P (send_audio clock v elem now w)"
  by (cases v) (auto simp: send_audio_def Let_def keep_fields keep_calls keep_log intro: first)

lemma keep_reached: "P w \<Longrightarrow> P (wait_reached clock v h k w)"
  by (cases k) (auto simp: wait_reached_def keep_fields finish split: option.splits)

lemma keep_drained: "P w \<Longrightarrow> P (sender_drained clock v h k w)"
  by (cases k) (auto simp: sender_drained_def Let_def keep_fields keep_log finish intro: keep_pending split: option.splits)

lemma keep_sender_step: "sender_step clock env h pc w = Some w' \<Longrightarrow> P w \<Longrightarrow> P w'"
  by (cases pc) (auto simp: Let_def keep_fields keep_calls keep_log keep_take split: tts_env.splits list.splits if_splits
      intro: keep_dispatch keep_sentence keep_audio keep_reached keep_drained keep_take)

lemma keep_exec: "tts_exec clock ev w = Some w' \<Longrightarrow> P w \<Longrightarrow> P w'"
  by (cases ev) (auto simp: tts_exec_def start_sender_def start_delayed_def keep_fields
      split: if_splits list.splits option.splits prod.splits dest: keep_sender_step keep_delayed_step keep_call_step)

lemma keep_run: "tts_run evs w = Some w' \<Longrightarrow> P w \<Longrightarrow> P w'"
  by (rule tts_run_invariant [where P = P]) (rule keep_exec)

end

text \<open>A stop follows a start: the announced stops never outnumber the starts.\<close>

definition count_out :: "tts_out \<Rightarrow> tts_world \<Rightarrow> nat" where
  "count_out x w = count_list (tw_log w) x"

definition start_balance :: "tts_world \<Rightarrow> int" where
  "start_balance w = int (count_out OutHookStart w) - int (count_out OutTtsStop w) - of_bool (tw_ttsActive w)"

lemma count_figure: "is_figure x \<Longrightarrow> count_list (filter is_figure outs) x = count_list outs x"
  by (induction outs) auto

lemma balance_view: "same_figures w w' \<Longrightarrow> start_balance w' = start_balance w"
  using count_figure [of OutHookStart] count_figure [of OutTtsStop]
  by (simp add: same_figures_def start_balance_def count_out_def figure_log_def) (metis)

lemma balance_log [simp]: "count_list outs OutHookStart = 0 \<Longrightarrow> count_list outs OutTtsStop = 0 \<Longrightarrow> start_balance (tlog outs w) = start_balance w"
  by (simp add: start_balance_def count_out_def)

lemma balance_small [simp]: "start_balance (upd_client f w) = start_balance w" "start_balance (upd_metric g w) = start_balance w"
  by (simp_all add: start_balance_def count_out_def)

lemma balance_metric [simp]:
  "start_balance (finalizeTtsMetricLocked clock w) = start_balance w" "start_balance (maybeFinalizeTtsMetricLocked clock w) = start_balance w"
  "start_balance (forceStopTtsMetric clock w) = start_balance w" "start_balance (dispatchTTSTurnEndPolicy h e w) = start_balance w"
  by (simp_all add: finalizeTtsMetricLocked_def maybeFinalizeTtsMetricLocked_def forceStopTtsMetric_def dispatchTTSTurnEndPolicy_def Let_def)

lemma balance_finish: "start_balance w \<le> start_balance (finishTtsStopWithReason clock v h send e w)"
proof (cases "tw_ttsActive w")
  case True
  let ?w1 = "w\<lparr>tw_ttsActive := False\<rparr>"
  have "start_balance ?w1 = start_balance w + 1" using True by (simp add: start_balance_def count_out_def)
  moreover have "start_balance (tlog [OutTtsStop] v) = start_balance v - 1" for v by (simp add: start_balance_def count_out_def)
  ultimately show ?thesis using True by (simp add: finishTtsStopWithReason_def Let_def)
qed (simp add: finishTtsStopWithReason_def)
interpretation balance: figure_invariant "\<lambda>w. k \<le> start_balance w" for k
proof unfold_locales
  show "same_figures w w' \<Longrightarrow> (k \<le> start_balance w') = (k \<le> start_balance w)" for w w' by (simp add: balance_view)
  show "k \<le> start_balance (tlog [OutHookStart] (w\<lparr>tw_ttsActive := True\<rparr>))" if "k \<le> start_balance w" for w
    using that by (cases "tw_ttsActive w") (simp_all add: start_balance_def count_out_def)
  show "k \<le> start_balance (finishTtsStopWithReason clock v h send e w)" if "k \<le> start_balance w" for clock v h send e w
    using that balance_finish [of w] order_trans by blast
qed (simp_all add: startTtsMetricCycle_def registerTTSTurnEndPolicy_def registerTtsMetricItem_def finishTtsMetricItem_def
    markTtsMetricRequestStart_def finishTtsMetricRequest_def markTtsMetricFirstAudio_def RequestTurnEnd_def Let_def)

text \<open>
  The device is never told to stop twice without a start in between: along every part of a run, the stop commands sent
  are at most as many as the starts begun in it, and one more if output was active at its beginning.
\<close>

theorem stop_follows_start:
  assumes "tts_run evs w = Some w'"
  shows "int (count_out OutTtsStop w') - int (count_out OutTtsStop w) \<le>
    int (count_out OutHookStart w') - int (count_out OutHookStart w) + of_bool (tw_ttsActive w) - of_bool (tw_ttsActive w')"
proof -
  have "start_balance w \<le> start_balance w'" using balance.keep_run [OF assms, of "start_balance w"] by simp
  then show ?thesis by (simp add: start_balance_def)
qed

subsection \<open>Figures of a turn\<close>

fun is_traced :: "nat \<Rightarrow> trace_stage \<Rightarrow> tts_out \<Rightarrow> bool" where
  "is_traced c st (OutTrace c' st' t) = (c' = c \<and> st' = st)"
| "is_traced c st _ = False"

definition traced :: "nat \<Rightarrow> trace_stage \<Rightarrow> tts_world \<Rightarrow> nat" where
  "traced c st w = length (filter (is_traced c st) (tw_log w))"

fun stage_done :: "metric_state \<Rightarrow> trace_stage \<Rightarrow> bool" where
  "stage_done m TraceTtsStart = ms_started m"
| "stage_done m TraceTtsFirstFrame = ms_firstAudio m"
| "stage_done m TraceTtsStop = ms_ttsStopped m"
| "stage_done m TraceTurnEnd = ms_turnEnded m"

definition trace_limit :: "metric_state \<Rightarrow> nat \<Rightarrow> trace_stage \<Rightarrow> nat" where
  "trace_limit m c st = (if c < ms_cycleID m then 1 else if c = ms_cycleID m then of_bool (stage_done m st) else 0)"

definition trace_inv :: "tts_world \<Rightarrow> bool" where
  "trace_inv w \<longleftrightarrow>
     (\<forall>c st. traced c st w \<le> trace_limit (tw_metric w) c st) \<and>
     (\<forall>c. traced c TraceTtsStop w \<le> traced c TraceTurnEnd w) \<and>
     traced (ms_cycleID (tw_metric w)) TraceTurnEnd w = of_bool (ms_turnEnded (tw_metric w)) \<and>
     (ms_ttsStopped (tw_metric w) \<longrightarrow> ms_turnEnded (tw_metric w))"

text \<open>A turn whose end was asked for and that has nothing left to wait for has ended.\<close>

definition ended_inv :: "tts_world \<Rightarrow> bool" where
  "ended_inv w \<longleftrightarrow> (ms_turnEndRequested (tw_metric w) \<and> ms_pendingItems (tw_metric w) = 0 \<and> ms_activeRequests (tw_metric w) = 0 \<longrightarrow>
     ms_turnEnded (tw_metric w))"

lemma traced_view: "same_figures w w' \<Longrightarrow> traced c st w' = traced c st w"
proof -
  have "filter (is_traced c st) (filter is_figure outs) = filter (is_traced c st) outs" for outs
  proof (induction outs)
    case (Cons x outs)
    then show ?case by (cases x) simp_all
  qed simp
  then show "same_figures w w' \<Longrightarrow> traced c st w' = traced c st w"
    unfolding same_figures_def figure_log_def traced_def by metis
qed

lemma trace_view: "same_figures w w' \<Longrightarrow> trace_inv w' = trace_inv w"
  using traced_view [of w w'] by (simp add: trace_inv_def same_figures_def)

lemma traced_simps [simp]:
  "traced c st (upd_client f w) = traced c st w" "traced c st (upd_metric g w) = traced c st w"
  "traced c st (tlog outs w) = traced c st w + length (filter (is_traced c st) outs)"
  by (simp_all add: traced_def)

lemma trace_quiet:
  "filter is_figure outs = [] \<Longrightarrow> trace_inv (tlog outs w) = trace_inv w" "trace_inv (upd_client f w) = trace_inv w"
  "trace_inv (tlog [OutHookStart] w) = trace_inv w" "trace_inv (tlog [OutTtsStop] w) = trace_inv w"
  "trace_inv (w\<lparr>tw_ttsActive := b\<rparr>) = trace_inv w"
proof -
  have "filter (is_traced c st) outs = []" if "filter is_figure outs = []" for c st and outs :: "tts_out list"
    using that by (induction outs) (auto split: if_splits elim: is_traced.elims)
  then show "filter is_figure outs = [] \<Longrightarrow> trace_inv (tlog outs w) = trace_inv w" by (simp add: trace_inv_def)
qed (simp_all add: trace_inv_def, simp_all add: traced_def)

lemma trace_metric:
  assumes "\<And>m. ms_cycleID (g m) = ms_cycleID m" "\<And>m. stage_done (g m) = stage_done m"
  shows "trace_inv (upd_metric g w) = trace_inv w"
proof -
  have "ms_turnEnded (g m) = ms_turnEnded m" "ms_ttsStopped (g m) = ms_ttsStopped m" for m
    using fun_cong [OF assms(2), of m TraceTurnEnd] fun_cong [OF assms(2), of m TraceTtsStop] by simp_all
  then show ?thesis using assms by (simp add: trace_inv_def trace_limit_def)
qed

lemma stage_done_cong: "ms_started m' = ms_started m \<Longrightarrow> ms_firstAudio m' = ms_firstAudio m \<Longrightarrow> ms_ttsStopped m' = ms_ttsStopped m \<Longrightarrow>
   ms_turnEnded m' = ms_turnEnded m \<Longrightarrow> stage_done m' = stage_done m"
  by (rule ext, rename_tac st, case_tac st) simp_all

lemma trace_finalize: "trace_inv w \<Longrightarrow> trace_inv (finalizeTtsMetricLocked clock w)"
proof -
  assume inv: "trace_inv w"
  let ?m = "tw_metric w"
  have z: "traced (ms_cycleID ?m) st w = 0" if "\<not> stage_done ?m st" for st
    using inv that unfolding trace_inv_def trace_limit_def by (metis le_zero_eq less_irrefl of_bool_eq(1))
  have le: "traced c st w \<le> trace_limit ?m c st" for c st
    using inv by (simp add: trace_inv_def)
  show ?thesis
  proof (cases "ms_turnEnded ?m")
    case True
    then show ?thesis using inv by (simp add: finalizeTtsMetricLocked_def Let_def)
  next
    case False
    have s: "\<not> ms_ttsStopped ?m" using inv False by (simp add: trace_inv_def)
    have stop: "traced c TraceTtsStop w \<le> traced c TraceTurnEnd w" for c using inv by (simp add: trace_inv_def)
    have zs: "traced (ms_cycleID ?m) TraceTtsStop w = 0" "traced (ms_cycleID ?m) TraceTurnEnd w = 0"
      using z [of TraceTtsStop] z [of TraceTurnEnd] False s by simp_all
    have "traced c st (finalizeTtsMetricLocked clock w) \<le> trace_limit (tw_metric (finalizeTtsMetricLocked clock w)) c st" for c st
      using le [of c st] zs False s
      by (cases st) (auto simp: finalizeTtsMetricLocked_def Let_def trace_limit_def split: if_splits)
    moreover have "traced c TraceTtsStop (finalizeTtsMetricLocked clock w) \<le> traced c TraceTurnEnd (finalizeTtsMetricLocked clock w)" for c
      using stop [of c] False s by (auto simp: finalizeTtsMetricLocked_def Let_def)
    moreover have "ms_cycleID (tw_metric (finalizeTtsMetricLocked clock w)) = ms_cycleID ?m"
      "ms_turnEnded (tw_metric (finalizeTtsMetricLocked clock w))"
      "traced (ms_cycleID ?m) TraceTurnEnd (finalizeTtsMetricLocked clock w) = 1"
      using zs False s by (simp_all add: finalizeTtsMetricLocked_def Let_def)
    ultimately show ?thesis unfolding trace_inv_def by simp
  qed
qed
lemma trace_limit_le: "trace_limit m c st \<le> 1"
  by (cases "stage_done m st") (simp_all add: trace_limit_def)

lemma trace_fields:
  "trace_inv (upd_metric (\<lambda>m. m\<lparr>ms_activeRequests := f m\<rparr>) w) = trace_inv w"
  "trace_inv (upd_metric (\<lambda>m. m\<lparr>ms_pendingItems := f m\<rparr>) w) = trace_inv w"
  "trace_inv (upd_metric (ms_turnEndRequested_update (\<lambda>_. b)) w) = trace_inv w"
  "trace_inv (upd_metric (ms_turnEndPolicy_update (\<lambda>_. p)) w) = trace_inv w"
  "trace_inv (upd_metric (\<lambda>m. if c m then m\<lparr>ms_activeRequests := f m\<rparr> else m) w) = trace_inv w"
  "trace_inv (upd_metric (\<lambda>m. if c m then m\<lparr>ms_pendingItems := f m\<rparr> else m) w) = trace_inv w"
  by (rule trace_metric, simp, rule stage_done_cong; simp)+

lemma trace_maybe: "trace_inv w \<Longrightarrow> trace_inv (maybeFinalizeTtsMetricLocked clock w)"
  by (simp add: maybeFinalizeTtsMetricLocked_def Let_def trace_finalize)

text \<open>Tracing a stage for the first time in the current cycle.\<close>

lemma trace_stage:
  assumes "trace_inv w" "\<not> stage_done (tw_metric w) st" "st = TraceTtsStart \<or> st = TraceTtsFirstFrame"
    and g: "\<And>m. ms_cycleID (g m) = ms_cycleID m" "\<And>m x. stage_done (g m) x = (x = st \<or> stage_done m x)"
    and outs: "outs = [] \<or> outs = [OutTrace (ms_cycleID (tw_metric w)) st t]"
  shows "trace_inv (tlog outs (upd_metric g w))"
proof -
  let ?m = "tw_metric w"
  have le: "traced c x w \<le> trace_limit ?m c x" for c x using assms(1) by (simp add: trace_inv_def)
  have z: "traced (ms_cycleID ?m) st w = 0" using le [of "ms_cycleID ?m" st] assms(2) by (simp add: trace_limit_def)
  have f: "ms_turnEnded (g m) = ms_turnEnded m" "ms_ttsStopped (g m) = ms_ttsStopped m" for m
    using g(2) [of m TraceTurnEnd] g(2) [of m TraceTtsStop] assms(3) by auto
  have "traced c x (tlog outs (upd_metric g w)) \<le> trace_limit (g ?m) c x" for c x
    using le [of c x] z outs g by (auto simp: trace_limit_def split: if_splits)
  moreover have "filter (is_traced c TraceTtsStop) outs = []" "filter (is_traced c TraceTurnEnd) outs = []" for c
    using outs assms(3) by auto
  ultimately show ?thesis using assms(1) g f by (simp add: trace_inv_def)
qed

lemma trace_request: "trace_inv w \<Longrightarrow> trace_inv (markTtsMetricRequestStart clock c w)"
proof -
  assume inv: "trace_inv w"
  let ?w1 = "upd_client (MarkTtsStart (unixMilli clock)) (upd_metric (\<lambda>m. m\<lparr>ms_activeRequests := ms_activeRequests m + 1\<rparr>) w)"
  have w1: "trace_inv ?w1" "tw_metric ?w1 = (tw_metric w)\<lparr>ms_activeRequests := ms_activeRequests (tw_metric w) + 1\<rparr>"
    using inv by (simp_all add: trace_quiet trace_fields)
  have "trace_inv (tlog (if unixMilli clock > 0 then [OutTrace c TraceTtsStart (unixMilli clock)] else [])
      (upd_metric (\<lambda>m. m\<lparr>ms_started := True\<rparr>) ?w1))" if "ms_cycleID (tw_metric w) = c" "\<not> ms_started (tw_metric w)"
    by (rule trace_stage [where st = TraceTtsStart and t = "unixMilli clock", OF w1(1)])
      (use w1(2) that in \<open>auto, (case_tac x; auto)+\<close>)
  then show ?thesis using inv by (simp add: markTtsMetricRequestStart_def Let_def trace_fields)
qed

lemma trace_first: "trace_inv w \<Longrightarrow> trace_inv (markTtsMetricFirstAudio clock c w)"
proof -
  assume inv: "trace_inv w"
  let ?w1 = "upd_client (MarkTtsFirstFrame (unixMilli clock)) w"
  let ?t = "st_TtsFirstFrameTs (cs_Statistic (tw_client ?w1))"
  have w1: "trace_inv ?w1" using inv by (simp add: trace_quiet)
  have "trace_inv (tlog (if ?t > 0 then [OutTrace c TraceTtsFirstFrame ?t] else []) (upd_metric (\<lambda>m. m\<lparr>ms_firstAudio := True\<rparr>) ?w1))"
    if "ms_cycleID (tw_metric w) = c" "\<not> ms_firstAudio (tw_metric w)"
    by (rule trace_stage [where st = TraceTtsFirstFrame and t = ?t, OF w1])
      (use that in \<open>auto, (case_tac x; auto)+\<close>)
  then show ?thesis using inv by (simp add: markTtsMetricFirstAudio_def Let_def)
qed

lemma trace_cycle: "trace_inv w \<Longrightarrow> trace_inv (startTtsMetricCycle w)"
proof -
  assume inv: "trace_inv w"
  let ?id = "ms_cycleID (tw_metric w)"
  have le: "traced c st w \<le> trace_limit (tw_metric w) c st" for c st using inv by (simp add: trace_inv_def)
  have "traced c st w \<le> trace_limit (new_metric (Suc ?id)) c st" for c st
    using le [of c st] trace_limit_le [of "tw_metric w" c st] by (auto simp: trace_limit_def new_metric_def)
  moreover have "traced (Suc ?id) st w = 0" for st using le [of "Suc ?id" st] by (simp add: trace_limit_def)
  ultimately show ?thesis using inv by (simp add: startTtsMetricCycle_def trace_inv_def) (simp add: new_metric_def)
qed

lemma trace_finish: "trace_inv w \<Longrightarrow> trace_inv (finishTtsStopWithReason clock v h send e w)"
proof -
  have d: "trace_inv (dispatchTTSTurnEndPolicy h x u) = trace_inv u" for x u
    by (simp add: dispatchTTSTurnEndPolicy_def Let_def trace_fields trace_quiet)
  have f: "trace_inv u \<Longrightarrow> trace_inv (forceStopTtsMetric clock u)" for u
    by (simp add: forceStopTtsMetric_def trace_finalize trace_fields)
  assume "trace_inv w"
  then show ?thesis by (auto simp: finishTtsStopWithReason_def Let_def d trace_quiet intro!: f)
qed

interpretation traces: figure_invariant trace_inv
proof unfold_locales
  show "same_figures w w' \<Longrightarrow> trace_inv w' = trace_inv w" for w w' by (rule trace_view)
qed (auto simp: trace_quiet registerTTSTurnEndPolicy_def registerTtsMetricItem_def finishTtsMetricItem_def finishTtsMetricRequest_def
    RequestTurnEnd_def trace_fields intro: trace_cycle trace_maybe trace_request trace_first trace_finish)

lemma ended_small [simp]: "ended_inv (tlog outs w) = ended_inv w" "ended_inv (upd_client f w) = ended_inv w"
  "ended_inv (w\<lparr>tw_ttsActive := b\<rparr>) = ended_inv w"
  by (simp_all add: ended_inv_def)

lemma ended_maybe: "ended_inv (maybeFinalizeTtsMetricLocked clock w)" "ended_inv (finalizeTtsMetricLocked clock w)"
  by (auto simp: maybeFinalizeTtsMetricLocked_def finalizeTtsMetricLocked_def Let_def ended_inv_def)

lemma ended_finish: "ended_inv w \<Longrightarrow> ended_inv (finishTtsStopWithReason clock v h send e w)"
proof -
  have d: "ended_inv (dispatchTTSTurnEndPolicy h x u) = ended_inv u" for x u
    by (simp add: dispatchTTSTurnEndPolicy_def Let_def) (simp add: ended_inv_def)
  have f: "ended_inv u \<Longrightarrow> ended_inv (forceStopTtsMetric clock u)" for u
    by (simp add: forceStopTtsMetric_def ended_maybe)
  assume "ended_inv w"
  then show ?thesis by (auto simp: finishTtsStopWithReason_def Let_def d intro!: f)
qed

interpretation ended: figure_invariant ended_inv
proof unfold_locales
  show "same_figures w w' \<Longrightarrow> ended_inv w' = ended_inv w" for w w' by (simp add: same_figures_def ended_inv_def)
qed (auto simp: finishTtsMetricItem_def finishTtsMetricRequest_def RequestTurnEnd_def ended_maybe ended_finish
    startTtsMetricCycle_def registerTTSTurnEndPolicy_def registerTtsMetricItem_def markTtsMetricRequestStart_def
    markTtsMetricFirstAudio_def Let_def, simp_all add: ended_inv_def new_metric_def)

text \<open>
  The figures of a turn are told once: along every run each stage of a cycle (start, first frame, stop, end of the turn) is
  traced at most once, a stop only together with the end of the turn, the end of the current turn exactly if it has
  ended; and a turn whose end was asked for has ended once no item and no request of it is open.
\<close>

theorem turn_traced_once:
  assumes "tts_run evs (NewTTSManager frameDuration client) = Some w"
  shows "traced c stage w \<le> 1 \<and> traced c TraceTtsStop w \<le> traced c TraceTurnEnd w \<and>
    traced (ms_cycleID (tw_metric w)) TraceTurnEnd w = of_bool (ms_turnEnded (tw_metric w)) \<and>
    (ms_turnEndRequested (tw_metric w) \<and> ms_pendingItems (tw_metric w) = 0 \<and> ms_activeRequests (tw_metric w) = 0 \<longrightarrow>
      ms_turnEnded (tw_metric w))"
proof -
  have "trace_inv (NewTTSManager frameDuration client)" "ended_inv (NewTTSManager frameDuration client)"
    by (simp_all add: NewTTSManager_def trace_inv_def traced_def ended_inv_def new_metric_def)
  then have inv: "trace_inv w" "ended_inv w" using assms traces.keep_run ended.keep_run by blast+
  then have "traced c stage w \<le> trace_limit (tw_metric w) c stage" by (simp add: trace_inv_def)
  then have "traced c stage w \<le> 1" using trace_limit_le [of "tw_metric w" c stage] by linarith
  then show ?thesis using inv by (simp add: trace_inv_def ended_inv_def)
qed
subsection \<open>The list of delayed marks\<close>

lemma insert_from_end_mset: "mset (insert_from_end ts t) = add_mset t (mset ts)"
  by (induction ts) simp_all

lemma insert_task_mset: "mset (insertDelayedSentenceTask ts t) = add_mset t (mset ts)"
  by (simp add: insertDelayedSentenceTask_def insert_from_end_mset)

definition due_order :: "delayed_task list \<Rightarrow> bool" where
  "due_order ts \<longleftrightarrow> sorted (map dt_ExecuteAt ts)"

lemma insert_from_end_sorted:
  "sorted_wrt (\<lambda>a b. dt_ExecuteAt b \<le> dt_ExecuteAt a) ts \<Longrightarrow> sorted_wrt (\<lambda>a b. dt_ExecuteAt b \<le> dt_ExecuteAt a) (insert_from_end ts t)"
proof (induction ts)
  case (Cons x ts)
  have "set (insert_from_end ts t) = insert t (set ts)"
    by (metis insert_from_end_mset set_mset_add_mset_insert set_mset_mset)
  then show ?case using Cons by fastforce
qed simp

lemma later_tasks: "due_order ts \<Longrightarrow> x \<in> set (dropWhile (\<lambda>x. dt_ExecuteAt x \<le> k) ts) \<Longrightarrow> k < dt_ExecuteAt x"
  by (induction ts) (auto simp: due_order_def split: if_splits)

text \<open>
  \<open>insertDelayedSentenceTask\<close> keeps the tasks in the order in which they are due, and tasks due at the same time in the
  order in which they came; nothing is lost, and a task that is not due before any other goes to the end.
\<close>

theorem delayed_tasks_in_order:
  assumes "due_order ts"
  shows "due_order (insertDelayedSentenceTask ts t) \<and> mset (insertDelayedSentenceTask ts t) = add_mset t (mset ts) \<and>
    insertDelayedSentenceTask ts t =
      takeWhile (\<lambda>x. dt_ExecuteAt x \<le> dt_ExecuteAt t) ts @ [t] @ dropWhile (\<lambda>x. dt_ExecuteAt x \<le> dt_ExecuteAt t) ts"
proof (intro conjI)
  have rev_sorted: "sorted_wrt (\<lambda>a b. dt_ExecuteAt b \<le> dt_ExecuteAt a) (rev ts)"
    using assms by (simp add: due_order_def sorted_map sorted_wrt_rev)
  then show "due_order (insertDelayedSentenceTask ts t)"
    using insert_from_end_sorted [of "rev ts" t]
    by (simp add: insertDelayedSentenceTask_def due_order_def sorted_map sorted_wrt_rev)
  show "mset (insertDelayedSentenceTask ts t) = add_mset t (mset ts)" by (rule insert_task_mset)
  have "insert_from_end us t = takeWhile (\<lambda>x. dt_ExecuteAt t < dt_ExecuteAt x) us @ t # dropWhile (\<lambda>x. dt_ExecuteAt t < dt_ExecuteAt x) us" for us
    by (induction us) simp_all
  then have i: "insertDelayedSentenceTask ts t = rev (dropWhile (\<lambda>x. dt_ExecuteAt t < dt_ExecuteAt x) (rev ts)) @ [t] @
      rev (takeWhile (\<lambda>x. dt_ExecuteAt t < dt_ExecuteAt x) (rev ts))"
    by (simp add: insertDelayedSentenceTask_def)
  let ?A = "takeWhile (\<lambda>x. dt_ExecuteAt x \<le> dt_ExecuteAt t) ts" and ?B = "dropWhile (\<lambda>x. dt_ExecuteAt x \<le> dt_ExecuteAt t) ts"
  have late: "dt_ExecuteAt t < dt_ExecuteAt x" if "x \<in> set ?B" for x using later_tasks [OF assms that] .
  have early: "\<not> dt_ExecuteAt t < dt_ExecuteAt x" if "x \<in> set ?A" for x using set_takeWhileD [OF that] by simp
  have "dropWhile (\<lambda>x. dt_ExecuteAt t < dt_ExecuteAt x) (rev ?B @ rev ?A) = rev ?A"
    "takeWhile (\<lambda>x. dt_ExecuteAt t < dt_ExecuteAt x) (rev ?B @ rev ?A) = rev ?B"
    using late early by (auto simp: dropWhile_append takeWhile_append dropWhile_eq_self_iff takeWhile_eq_Nil_iff hd_rev last_in_set)
  moreover have "rev ts = rev ?B @ rev ?A" by (metis rev_append takeWhile_dropWhile_id)
  ultimately have "rev (dropWhile (\<lambda>x. dt_ExecuteAt t < dt_ExecuteAt x) (rev ts)) = ?A"
    "rev (takeWhile (\<lambda>x. dt_ExecuteAt t < dt_ExecuteAt x) (rev ts)) = ?B" by simp_all
  then show "insertDelayedSentenceTask ts t =
      takeWhile (\<lambda>x. dt_ExecuteAt x \<le> dt_ExecuteAt t) ts @ [t] @ dropWhile (\<lambda>x. dt_ExecuteAt x \<le> dt_ExecuteAt t) ts"
    unfolding i by simp
qed

subsection \<open>The end of a sentence is told once\<close>

text \<open>Where an element with an \<open>OnEnd\<close> can be before that is called, and how often it was called.\<close>

definition ends :: "callback \<Rightarrow> audio_elem \<Rightarrow> nat" where
  "ends f e = of_bool (ae_OnEnd e = Some f)"

definition ends_in :: "callback \<Rightarrow> audio_elem list \<Rightarrow> nat" where
  "ends_in f es = sum_list (map (ends f) es)"

fun call_ends :: "callback \<Rightarrow> tts_call \<Rightarrow> nat" where
  "call_ends f (CallEnqueue e) = ends f e"
| "call_ends f (CallEnqueueNow e) = ends f e"
| "call_ends f (CallEndCallback g err) = of_bool (g = f)"
| "call_ends f _ = 0"

definition ends_of_calls :: "callback \<Rightarrow> tts_call list \<Rightarrow> nat" where
  "ends_of_calls f cs = sum_list (map (call_ends f) cs)"

fun pc_ends :: "callback \<Rightarrow> sender_pc \<Rightarrow> nat" where
  "pc_ends f (SenderSentence e ret) = ends f e"
| "pc_ends f (SenderDelay e t) = ends f e"
| "pc_ends f _ = 0"

fun delayed_ends :: "callback \<Rightarrow> delayed_pc \<Rightarrow> nat" where
  "delayed_ends f (DelayedRunning ts) = ends_in f (map dt_Elem ts)"
| "delayed_ends f (DelayedOffer e ts) = ends f e + ends_in f (map dt_Elem ts)"
| "delayed_ends f _ = 0"

definition open_ends :: "callback \<Rightarrow> tts_world \<Rightarrow> nat" where
  "open_ends f w = ends_in f (tw_sessionAudioQueue w) + ends_in f (map dt_Elem (tw_delayedSentenceQueue w)) +
     ends_in f (tw_delayedSentenceReadyQueue w) + pc_ends f (tw_sender w) + delayed_ends f (tw_delayed w) +
     sum_list (map (ends_of_calls f) (tw_calls w))"

fun is_told :: "callback \<Rightarrow> tts_out \<Rightarrow> bool" where
  "is_told f (OutCalledEnd g err) = (g = f)"
| "is_told f _ = False"

definition told_ends :: "callback \<Rightarrow> tts_world \<Rightarrow> nat" where
  "told_ends f w = length (filter (is_told f) (tw_log w))"

text \<open>As in the source, only the end of a sentence carries an \<open>OnEnd\<close>.\<close>

definition end_ok :: "audio_elem \<Rightarrow> bool" where
  "end_ok e \<longleftrightarrow> ae_OnEnd e = None \<or> ae_Kind e = AudioQueueKindSentenceEnd"

fun call_end_ok :: "tts_call \<Rightarrow> bool" where
  "call_end_ok (CallEnqueue e) = end_ok e"
| "call_end_ok (CallEnqueueNow e) = end_ok e"
| "call_end_ok _ = True"

fun pc_end_ok :: "sender_pc \<Rightarrow> bool" where
  "pc_end_ok (SenderSentence e ret) = end_ok e"
| "pc_end_ok (SenderDelay e t) = end_ok e"
| "pc_end_ok _ = True"

fun delayed_end_ok :: "delayed_pc \<Rightarrow> bool" where
  "delayed_end_ok (DelayedRunning ts) = list_all (end_ok \<circ> dt_Elem) ts"
| "delayed_end_ok (DelayedOffer e ts) = (end_ok e \<and> list_all (end_ok \<circ> dt_Elem) ts)"
| "delayed_end_ok _ = True"

definition ends_ok :: "tts_world \<Rightarrow> bool" where
  "ends_ok w \<longleftrightarrow> list_all end_ok (tw_sessionAudioQueue w) \<and> list_all (end_ok \<circ> dt_Elem) (tw_delayedSentenceQueue w) \<and>
     list_all end_ok (tw_delayedSentenceReadyQueue w) \<and> pc_end_ok (tw_sender w) \<and> delayed_end_ok (tw_delayed w) \<and>
     list_all (list_all call_end_ok) (tw_calls w)"

text \<open>\<open>ends_step f n w w'\<close>: of what was open or told and \<open>n\<close> new ones nothing is told twice, and nothing is lost before the context is done.\<close>

definition ends_step :: "callback \<Rightarrow> nat \<Rightarrow> tts_world \<Rightarrow> tts_world \<Rightarrow> bool" where
  "ends_step f n w w' \<longleftrightarrow> ends_ok w' \<and> told_ends f w' + open_ends f w' \<le> told_ends f w + open_ends f w + n \<and>
     (\<not> tw_ctxDone w' \<longrightarrow> told_ends f w' + open_ends f w' = told_ends f w + open_ends f w + n) \<and>
     (tw_ctxDone w \<longrightarrow> tw_ctxDone w')"

lemma ends_in_simps [simp]: "ends_in f [] = 0" "ends_in f (e # es) = ends f e + ends_in f es"
  "ends_in f (es @ es') = ends_in f es + ends_in f es'" "ends_of_calls f [] = 0"
  "ends_of_calls f (c # cs) = call_ends f c + ends_of_calls f cs"
  by (simp_all add: ends_in_def ends_of_calls_def)

lemma told_simps [simp]: "told_ends f (tlog outs w) = told_ends f w + length (filter (is_told f) outs)"
  "length (filter (is_told f) (call_end cb e)) = of_bool (cb = Some f)"
  "filter (is_told f) (call_start cb) = []" "filter (is_told f) (call_error cb x) = []"
  by (auto simp: told_ends_def call_end_def call_start_def call_error_def split: option.splits)

lemma told_fields [simp]:
  "told_ends f (w\<lparr>tw_sessionAudioQueue := q\<rparr>) = told_ends f w" "told_ends f (w\<lparr>tw_delayedSentenceReadyQueue := q\<rparr>) = told_ends f w"
  "told_ends f (w\<lparr>tw_delayedSentenceQueue := d\<rparr>) = told_ends f w" "told_ends f (w\<lparr>tw_interruptCh := i\<rparr>) = told_ends f w"
  "told_ends f (w\<lparr>tw_delayed := pc'\<rparr>) = told_ends f w" "told_ends f (w\<lparr>tw_calls := cs\<rparr>) = told_ends f w"
  "told_ends f (w\<lparr>tw_stop := s\<rparr>) = told_ends f w" "told_ends f (w\<lparr>tw_ctxDone := b\<rparr>) = told_ends f w"
  "told_ends f (w\<lparr>tw_sentenceFrames := k\<rparr>) = told_ends f w" "told_ends f (w\<lparr>tw_totalFrames := k\<rparr>) = told_ends f w"
  "told_ends f (w\<lparr>tw_playbackTail := t\<rparr>) = told_ends f w" "told_ends f (w\<lparr>tw_senderLoopActive := b\<rparr>) = told_ends f w"
  "told_ends f (w\<lparr>tw_sender := pc\<rparr>) = told_ends f w" "told_ends f (upd_client g w) = told_ends f w" "told_ends f (at pc w) = told_ends f w"
  "told_ends f (w\<lparr>tw_audioGeneration := n, tw_audioInterruptCh := c\<rparr>) = told_ends f w" "told_ends f (w\<lparr>tw_ttsActive := b\<rparr>) = told_ends f w"
  by (simp_all add: told_ends_def)

lemma told_wire: "filter (is_told f) (filter is_wire outs) = filter (is_told f) outs"
proof (induction outs)
  case (Cons x outs)
  then show ?case by (cases x) simp_all
qed simp

lemma figures_told: "figures_only w w' \<Longrightarrow> told_ends f w' = told_ends f w"
  unfolding figures_only_def told_ends_def by (metis told_wire)

lemma figures_ends: "figures_only w w' \<Longrightarrow> open_ends f w' = open_ends f w \<and> ends_ok w' = ends_ok w"
  by (simp add: figures_only_def open_ends_def ends_ok_def)

lemma figures_step: "figures_only w w' \<Longrightarrow> ends_ok w \<Longrightarrow> ends_step f 0 w w'"
  using figures_told [of w w' f] figures_ends [of w w' f] by (simp add: ends_step_def figures_only_def)

lemma insert_ends: "ends_in f (map dt_Elem (insertDelayedSentenceTask ts t)) = ends f (dt_Elem t) + ends_in f (map dt_Elem ts)"
proof -
  have s: "ends_in f (map dt_Elem us) = sum_mset (image_mset (ends f \<circ> dt_Elem) (mset us))" for us
    unfolding ends_in_def by (simp add: sum_mset_sum_list o_def flip: mset_map)
  show ?thesis unfolding s insert_task_mset by simp
qed

lemma insert_ok: "list_all (end_ok \<circ> dt_Elem) (insertDelayedSentenceTask ts t) \<longleftrightarrow> end_ok (dt_Elem t) \<and> list_all (end_ok \<circ> dt_Elem) ts"
proof -
  have "set (insertDelayedSentenceTask ts t) = insert t (set ts)"
    by (metis insert_task_mset set_mset_add_mset_insert set_mset_mset)
  then show ?thesis by (simp add: list_all_iff)
qed

lemma delayed_step_ends:
  assumes "delayed_step clock env w = Some w'" "ends_ok w"
  shows "ends_step f 0 w w'"
proof (cases "tw_delayed w")
  case (DelayedRunning pending)
  then show ?thesis
    using assms
    by (auto simp: delayed_step_def ends_step_def ends_ok_def open_ends_def ends_def insert_ends insert_ok
        split: tts_env.splits list.splits if_splits)
next
  case (DelayedOffer e pending)
  then show ?thesis
    using assms
    by (auto simp: delayed_step_def ends_step_def ends_ok_def open_ends_def ends_def split: tts_env.splits if_splits)
qed (use assms in \<open>simp_all add: delayed_step_def\<close>)
lemma ends_none: "end_ok e \<Longrightarrow> ae_Kind e \<noteq> AudioQueueKindSentenceEnd \<Longrightarrow> ends f e = 0"
  by (auto simp: end_ok_def ends_def)

lemmas ends_unfold = ends_step_def ends_ok_def open_ends_def

text \<open>Taking an element that was just received, with the sender at a place that holds none.\<close>

definition takes :: "callback \<Rightarrow> audio_elem \<Rightarrow> tts_world \<Rightarrow> tts_world \<Rightarrow> bool" where
  "takes f e w w' \<longleftrightarrow> ends_ok w' \<and> told_ends f w' + open_ends f w' = told_ends f w + open_ends f w + ends f e \<and>
     tw_ctxDone w' = tw_ctxDone w"

lemma dispatch_ends:
  assumes "ends_ok w" "end_ok elem" "pc_ends f (tw_sender w) = 0"
  shows "takes f elem w (dispatch_elem clock elem w)"
  using assms ends_none [OF assms(2), of f]
  by (cases "ae_Kind elem") (auto simp: dispatch_elem_def Let_def takes_def ends_ok_def open_ends_def)

lemma drop_ends:
  assumes "ends_ok w" "pc_ends f (tw_sender w) = 0" "pc_ends f pc = 0" "pc_end_ok pc"
  shows "takes f elem w (at pc (tlog (call_end (ae_OnEnd elem) err) w))"
  using assms by (auto simp: takes_def ends_ok_def open_ends_def ends_def)

lemma sentence_ends:
  assumes "ends_ok w" "tw_sender w = SenderSentence elem ret"
  shows "ends_step f 0 w (at (after_sentence_pc ret) (handleDelayedSentence v elem w))"
proof -
  have ok: "end_ok elem" using assms by (simp add: ends_ok_def)
  show ?thesis
    using assms ends_none [OF ok, of f]
    by (cases ret; cases "ae_Kind elem") (auto simp: handleDelayedSentence_def Let_def ends_unfold ends_def split: option.splits)
qed

lemma take_ready_ends:
  assumes "take_ready ret w = Some w'" "ends_ok w" "pc_ends f (tw_sender w) = 0"
  shows "ends_step f 0 w w'"
proof -
  obtain e rest where q: "tw_delayedSentenceReadyQueue w = e # rest" using assms(1) by (auto simp: take_ready_def split: list.splits)
  show ?thesis
    using assms q by (cases ret; auto simp: take_ready_def Let_def ends_unfold ends_def split: if_splits)
qed

lemma idle_ends: "ends_ok w \<Longrightarrow> pc_ends f (tw_sender w) = 0 \<Longrightarrow> pc_ends f pc = 0 \<Longrightarrow> pc_end_ok pc \<Longrightarrow> ends_step f 0 w (at pc w)"
  by (simp add: ends_unfold)

lemma ends_step_trans: "ends_step f m w w1 \<Longrightarrow> ends_step f n w1 w2 \<Longrightarrow> ends_step f (m + n) w w2"
  by (auto simp: ends_step_def)

lemma ends_fields [simp]:
  "open_ends f (w\<lparr>tw_playbackTail := t\<rparr>) = open_ends f w" "ends_ok (w\<lparr>tw_playbackTail := t\<rparr>) = ends_ok w"
  "open_ends f (w\<lparr>tw_totalFrames := k\<rparr>) = open_ends f w" "ends_ok (w\<lparr>tw_totalFrames := k\<rparr>) = ends_ok w"
  "open_ends f (w\<lparr>tw_sentenceFrames := k\<rparr>) = open_ends f w" "ends_ok (w\<lparr>tw_sentenceFrames := k\<rparr>) = ends_ok w"
  "open_ends f (w\<lparr>tw_interruptCh := i\<rparr>) = open_ends f w" "ends_ok (w\<lparr>tw_interruptCh := i\<rparr>) = ends_ok w"
  "open_ends f (w\<lparr>tw_senderLoopActive := b\<rparr>) = open_ends f w" "ends_ok (w\<lparr>tw_senderLoopActive := b\<rparr>) = ends_ok w"
  "open_ends f (upd_client g w) = open_ends f w" "ends_ok (upd_client g w) = ends_ok w"
  "open_ends f (tlog outs w) = open_ends f w" "ends_ok (tlog outs w) = ends_ok w"
  by (simp_all add: open_ends_def ends_ok_def)

lemma ends_at: "pc_ends f (tw_sender w) = 0 \<Longrightarrow> pc_ends f pc = 0 \<Longrightarrow> open_ends f (at pc w) = open_ends f w"
  "pc_end_ok pc \<Longrightarrow> ends_ok w \<Longrightarrow> ends_ok (at pc w)"
  by (simp_all add: open_ends_def ends_ok_def)

text \<open>A step that touches nothing but the figures and then goes to a place that holds no element.\<close>

lemma figures_then_at:
  assumes "figures_only w w1" "ends_ok w" "pc_ends f (tw_sender w) = 0" "pc_ends f pc = 0" "pc_end_ok pc"
  shows "ends_step f 0 w (at pc w1)"
proof -
  have "tw_sender w1 = tw_sender w" "tw_ctxDone w1 = tw_ctxDone w" using assms(1) by (simp_all add: figures_only_def)
  then show ?thesis
    using figures_ends [OF assms(1), of f] figures_told [OF assms(1), of f] assms ends_at(1) [of f w1 pc] ends_at(2) [of pc w1]
    by (simp add: ends_step_def)
qed

lemma sender_step_ends:
  assumes step: "sender_step clock env h (tw_sender w) w = Some w'" and ok: "ends_ok w"
  shows "ends_step f 0 w w'"
proof (cases "tw_sender w")
  case SenderTop
  then show ?thesis using step ok take_ready_ends [of ToTop w w' f] by (auto split: if_splits intro!: idle_ends)
next
  case SenderSelect
  show ?thesis
  proof (cases "env = EnvAudio")
    case True
    obtain e rest where q: "tw_sessionAudioQueue w = e # rest" using step SenderSelect True by (auto split: list.splits)
    let ?w1 = "w\<lparr>tw_sessionAudioQueue := rest\<rparr>"
    have w1: "ends_ok ?w1" "end_ok e" "pc_ends f (tw_sender ?w1) = 0" "open_ends f w = open_ends f ?w1 + ends f e"
      using ok q SenderSelect by (simp_all add: ends_ok_def open_ends_def)
    have "takes f e ?w1 w'"
      using step True q SenderSelect w1 dispatch_ends [OF w1(1-3)] drop_ends [OF w1(1,3), of SenderTop e "Some ContextDone"]
      by (auto simp: Let_def split: if_splits)
    then show ?thesis using w1 by (simp add: takes_def ends_step_def)
  next
    case False
    then show ?thesis
      using step ok SenderSelect take_ready_ends [of ToTop w w' f]
      by (auto simp: take_interrupt_def ends_unfold split: tts_env.splits list.splits if_splits)
  qed
next
  case (SenderSentence elem ret)
  then show ?thesis using step sentence_ends [OF ok] by (auto split: tts_env.splits)
next
  case (SenderDelay elem due)
  then show ?thesis
    using step ok by (auto simp: ends_unfold ends_def split: tts_env.splits if_splits)
next
  case (SenderWait k d)
  have z: "pc_ends f (tw_sender w) = 0" using SenderWait by simp
  have r: "ends_step f 0 w (wait_reached clock v h k w)" for v
  proof (cases k)
    case (WaitFrame e)
    then show ?thesis using ok SenderWait by (auto simp: wait_reached_def ends_unfold split: option.splits)
  next
    case (WaitStop e)
    have "figures_only w (finishTtsStopWithReason clock v h True None w)" by simp
    from figures_then_at [OF this ok z, of SenderTop] show ?thesis
      using WaitStop by (simp add: wait_reached_def ends_step_def ends_ok_def open_ends_def)
  qed
  show ?thesis
    using step ok SenderWait z take_ready_ends [OF _ ok z, of "ToWait k d" w'] r
    by (auto simp: take_interrupt_def split: tts_env.splits list.splits if_splits intro!: idle_ends)
      (simp_all add: ends_unfold)
next
  case (SenderAudio elem now)
  have z: "pc_ends f (tw_sender w) = 0" using SenderAudio by simp
  obtain v where v: "w' = send_audio clock v elem now w" using step SenderAudio by (auto split: tts_env.splits)
  show ?thesis
  proof (cases v)
    case None
    let ?w1 = "tlog [OutAudio elem now] w"
    let ?w2 = "if ae_Kind elem = AudioQueueKindFrame then markTtsMetricFirstAudio clock (ae_MetricCycle elem) ?w1 else ?w1"
    have "figures_only ?w1 ?w2" by simp
    from figures_then_at [OF this _ _, of f SenderTop] have "ends_step f 0 ?w1 (at SenderTop ?w2)" using ok z by simp
    then show ?thesis unfolding v None send_audio_def option.case Let_def by (simp add: ends_step_def ends_ok_def open_ends_def)
  next
    case (Some e)
    then show ?thesis using v ok SenderAudio by (simp add: send_audio_def ends_unfold)
  qed
next
  case (SenderDrained k)
  have z: "pc_ends f (tw_sender w) = 0" using SenderDrained by simp
  obtain v where v: "w' = sender_drained clock v h k w" using step SenderDrained by (auto split: tts_env.splits)
  show ?thesis
  proof (cases k)
    case (DrainInterrupt req)
    have "figures_only w (finish_pending clock v h w)" by simp
    from figures_then_at [OF this ok z, of SenderTop] show ?thesis
      unfolding v using DrainInterrupt by (simp add: sender_drained_def Let_def ends_step_def ends_ok_def open_ends_def split: option.splits)
  next
    case DrainExit
    have "figures_only w (finishTtsStopWithReason clock v h True (Some ContextDone) w)" by simp
    from figures_then_at [OF this ok z, of SenderExited] show ?thesis
      unfolding v using DrainExit by (simp add: sender_drained_def ends_step_def ends_ok_def open_ends_def)
  qed
qed (use step ok in \<open>auto simp: ends_unfold ends_def Let_def split: tts_env.splits list.splits if_splits\<close>)
definition call_takes :: "callback \<Rightarrow> tts_call list \<Rightarrow> tts_world \<Rightarrow> tts_call list \<Rightarrow> tts_world \<Rightarrow> bool" where
  "call_takes f cs w cs' w' \<longleftrightarrow> ends_ok w' \<and> list_all call_end_ok cs' \<and> tw_ctxDone w' = tw_ctxDone w \<and> tw_calls w' = tw_calls w \<and>
     told_ends f w' + open_ends f w' + ends_of_calls f cs' = told_ends f w + open_ends f w + ends_of_calls f cs"

lemma figures_call: "figures_only w w' \<Longrightarrow> ends_ok w \<Longrightarrow> list_all call_end_ok cs \<Longrightarrow> call_ends f c = 0 \<Longrightarrow>
   call_takes f (c # cs) w cs w'"
  using figures_ends [of w w' f] figures_told [of w w' f] by (simp add: call_takes_def figures_only_def)

lemma filter_calls: "call_ends f x = 0 \<Longrightarrow> ends_of_calls f (filter (\<lambda>c. c \<noteq> x) cs) = ends_of_calls f cs"
  "list_all call_end_ok cs \<Longrightarrow> list_all call_end_ok (filter P cs)"
  by (induction cs) auto

lemma call_step_ends:
  assumes "call_step clock env h gone c cs w = Some (cs', w')" "ends_ok w" "call_end_ok c" "list_all call_end_ok cs"
  shows "call_takes f (c # cs) w cs' w'"
proof -
  have fig: "figures_only w w' \<Longrightarrow> cs' = cs \<Longrightarrow> call_ends f c = 0 \<Longrightarrow> ?thesis" using figures_call assms(2,4) by blast
  show ?thesis
  proof (cases c)
    case (CallNotifySync d reason)
    then show ?thesis
      using assms filter_calls(1) [of f "CallAwait d" cs]
      by (auto simp: call_takes_def filter_calls(2) open_ends_def ends_ok_def split: tts_env.splits if_splits)
  next
    case (CallNotify reason)
    then show ?thesis using assms by (auto simp: call_takes_def open_ends_def ends_ok_def split: if_splits)
  next
    case (CallEnqueueNow e)
    then show ?thesis using assms by (auto simp: call_takes_def ends_def end_ok_def)
  next
    case CallNextGeneration
    then show ?thesis using assms by (auto simp: call_takes_def open_ends_def ends_ok_def)
  next
    case (CallEnqueue e)
    then show ?thesis
      using assms by (auto simp: call_takes_def open_ends_def ends_ok_def ends_def split: tts_env.splits if_splits)
  next
    case (CallEndCallback g err)
    then show ?thesis using assms by (auto simp: call_takes_def)
  qed (insert assms(1), (rule fig; auto simp: Let_def split: tts_env.splits if_splits))+
qed

lemma calls_update:
  assumes "i < length css" "css ! i = c"
  shows "sum_list (map g (css[i := c'])) + g c = sum_list (map g css) + (g c' :: nat)"
proof -
  have a: "css = take i css @ c # drop (Suc i) css" using assms by (metis id_take_nth_drop)
  have b: "css[i := c'] = take i css @ c' # drop (Suc i) css" using assms(1) by (simp add: upd_conv_take_nth_drop)
  show ?thesis unfolding b by (subst (3) a) simp
qed

text \<open>The callbacks an event hands in.\<close>

fun event_ends :: "callback \<Rightarrow> tts_event \<Rightarrow> nat" where
  "event_ends f (StartCall cs) = ends_of_calls f cs"
| "event_ends f _ = 0"

fun event_ok :: "tts_event \<Rightarrow> bool" where
  "event_ok (StartCall cs) = list_all call_end_ok cs"
| "event_ok _ = True"

lemma tts_exec_ends:
  assumes "tts_exec clock ev w = Some w'" "ends_ok w" "event_ok ev"
  shows "ends_step f (event_ends f ev) w w'"
proof (cases ev)
  case (CallEvent i env h gone)
  then obtain c cs cs' w1 where c: "i < length (tw_calls w)" "tw_calls w ! i = c # cs"
    "call_step clock env h gone c cs w = Some (cs', w1)" "w' = w1\<lparr>tw_calls := (tw_calls w1)[i := cs']\<rparr>"
    using assms(1) by (auto simp: tts_exec_def split: if_splits list.splits option.splits prod.splits)
  have "c # cs \<in> set (tw_calls w)" using c(1,2) by (metis nth_mem)
  then have ok: "call_end_ok c" "list_all call_end_ok cs" using assms(2) by (auto simp: ends_ok_def list_all_iff)
  have t: "call_takes f (c # cs) w cs' w1" by (rule call_step_ends [OF c(3) assms(2) ok])
  then have s: "tw_calls w1 = tw_calls w" by (simp add: call_takes_def)
  have "open_ends f w' + ends_of_calls f (c # cs) = open_ends f w1 + ends_of_calls f cs'"
    using calls_update [OF c(1,2), of "ends_of_calls f" cs'] s unfolding c(4) open_ends_def by simp
  moreover have "ends_ok w'" using t c(1) s unfolding c(4) call_takes_def ends_ok_def by (simp add: list_all_iff) (metis insert_iff set_update_subset_insert subsetD)
  ultimately show ?thesis using t CallEvent c(4) by (simp add: call_takes_def ends_step_def)
next
  case (SenderEvent env h)
  then show ?thesis using assms sender_step_ends by (simp add: tts_exec_def)
next
  case (DelayedEvent env)
  then show ?thesis using assms delayed_step_ends by (simp add: tts_exec_def)
next
  case StartSender
  then show ?thesis using assms by (auto simp: tts_exec_def start_sender_def ends_unfold split: if_splits)
next
  case StartDelayed
  then show ?thesis using assms by (auto simp: tts_exec_def start_delayed_def ends_unfold split: if_splits)
qed (use assms in \<open>auto simp: tts_exec_def ends_unfold split: if_splits\<close>)

lemma tts_run_ends:
  "tts_run evs w = Some w' \<Longrightarrow> ends_ok w \<Longrightarrow> list_all (event_ok \<circ> snd) evs \<Longrightarrow>
    ends_step f (sum_list (map (event_ends f \<circ> snd) evs)) w w'"
proof (induction evs arbitrary: w)
  case Nil
  then show ?case by (simp add: ends_step_def)
next
  case (Cons tev evs)
  obtain t ev where tev: "tev = (t, ev)" by fastforce
  obtain w1 where w1: "tts_exec t ev w = Some w1" "tts_run evs w1 = Some w'"
    using Cons.prems(1) by (auto simp: tev split: option.splits)
  have s: "ends_step f (event_ends f ev) w w1" by (rule tts_exec_ends [OF w1(1)]) (use Cons.prems tev in simp_all)
  then have "ends_step f (sum_list (map (event_ends f \<circ> snd) evs)) w1 w'"
    using Cons.IH [OF w1(2)] Cons.prems(3) s by (simp add: ends_step_def tev comp_def)
  then show ?case using ends_step_trans [OF s] by (simp add: tev comp_def)
qed

lemma ends_from_start:
  assumes "tts_run evs (NewTTSManager frameDuration client) = Some w" "list_all (event_ok \<circ> snd) evs"
  shows "told_ends f w + open_ends f w \<le> sum_list (map (event_ends f \<circ> snd) evs) \<and>
    (\<not> tw_ctxDone w \<longrightarrow> told_ends f w + open_ends f w = sum_list (map (event_ends f \<circ> snd) evs))"
proof -
  have "ends_ok (NewTTSManager frameDuration client)" "told_ends f (NewTTSManager frameDuration client) = 0"
    "open_ends f (NewTTSManager frameDuration client) = 0"
    by (simp_all add: NewTTSManager_def ends_ok_def told_ends_def open_ends_def)
  then show ?thesis using tts_run_ends [OF assms(1) _ assms(2), of f] by (simp add: ends_step_def)
qed

text \<open>
  C38. The callback for the end of a sentence is called once. If the ends handed in are the only elements with an \<open>OnEnd\<close>, as in
  the source, then along every run a callback is called at most as often as it was handed in, whatever is interrupted,
  dropped, drained or fails to be sent; and as long as the context of the manager is not done, nothing is forgotten: it was
  called or it still waits in a queue, at a goroutine or in a call.
\<close>

theorem sentence_end_told_once:
  assumes "tts_run evs (NewTTSManager frameDuration client) = Some w" "list_all (event_ok \<circ> snd) evs"
  shows "told_ends f w + open_ends f w \<le> sum_list (map (event_ends f \<circ> snd) evs) \<and>
    (\<not> tw_ctxDone w \<longrightarrow> told_ends f w + open_ends f w = sum_list (map (event_ends f \<circ> snd) evs))"
  by (rule ends_from_start [OF assms])

subsection \<open>Concrete runs\<close>

text \<open>A call with \<open>n\<close> actions, started as call number \<open>i\<close> and run to its end; an interrupt has no element to put into the queue.\<close>

definition whole_call :: "nat \<Rightarrow> tts_call list \<Rightarrow> tts_env list \<Rightarrow> (instant \<times> tts_event) list" where
  "whole_call i cs envs = (0, StartCall cs) # map (\<lambda>env. (0, CallEvent i env True False)) envs"

definition sender_goes :: "tts_env list \<Rightarrow> (instant \<times> tts_event) list" where
  "sender_goes envs = map (\<lambda>env. (0, SenderEvent env True)) envs"

text \<open>A turn is started and its start is sent to the device.\<close>

definition started :: "(instant \<times> tts_event) list" where
  "started = (0, StartSender) # whole_call 0 (EnqueueTtsStartWithReason PolicyNone (lit ''turn'')) [EnvGo, EnvGo, EnvQueue]
     @ sender_goes [EnvGo, EnvAudio, EnvVerdict None]"

definition one_frame :: "nat \<Rightarrow> (instant \<times> tts_event) list" where
  "one_frame i = whole_call i (EnqueueMediaFrame [5] 3) [EnvGo, EnvQueue] @ sender_goes [EnvGo, EnvAudio]"

text \<open>Two frames are sent.\<close>

definition two_frames :: "(instant \<times> tts_event) list" where
  "two_frames = started @ one_frame 1 @ sender_goes [EnvVerdict None] @ one_frame 2 @ sender_goes [EnvVerdict None]"

text \<open>The output is interrupted while a frame is past the check of its generation, and then the frame is sent.\<close>

definition interrupted :: "(instant \<times> tts_event) list" where
  "interrupted = started @ one_frame 1 @ whole_call 2 (InterruptAndClearQueueWithReason (lit ''abort'')) [EnvGo, EnvGo]"

text \<open>The turn is asked to end, and its output stops.\<close>

definition whole_turn :: "(instant \<times> tts_event) list" where
  "whole_turn = started @ whole_call 1 [CallRequestStart 1, CallFinishRequest 1 None, CallRequestTurnEnd None] [EnvGo, EnvGo, EnvGo]
     @ whole_call 2 (EnqueueTtsStopWithReason (lit ''turn'')) [EnvGo, EnvQueue] @ sender_goes [EnvGo, EnvAudio]
     @ [(520000000, SenderEvent (EnvVerdict None) True)]"

text \<open>An interrupt has been asked for and the call has returned; the next turn starts; only then the interrupt is handled.\<close>

definition new_turn_lost :: "(instant \<times> tts_event) list" where
  "new_turn_lost = started @ whole_call 1 (InterruptAndClearQueueWithReason (lit ''abort'')) [EnvGo, EnvGo]
     @ whole_call 2 (EnqueueTtsStartWithReason PolicyNone (lit ''turn'')) [EnvGo, EnvGo, EnvQueue]
     @ whole_call 3 (EnqueueMediaSentenceEnd (lit ''hello'') 3 9) [EnvGo, EnvQueue]
     @ sender_goes [EnvGo, EnvInterrupt, EnvGo, EnvGo, EnvGo, EnvGo, EnvVerdict None]"

lemmas tts_run_defs = whole_call_def sender_goes_def started_def one_frame_def two_frames_def interrupted_def whole_turn_def
  new_turn_lost_def

lemmas tts_exec_defs = NewTTSManager_def EnqueueTtsStartWithReason_def EnqueueTtsStopWithReason_def EnqueueMediaSentenceEnd_def
  EnqueueMediaFrame_def InterruptAndClearQueueWithReason_def control_elem_def tts_exec_def start_sender_def
  startTtsMetricCycle_def registerTTSTurnEndPolicy_def upd_metric_def new_metric_def SessionAudioQueueCap_def at_def
  dispatch_elem_def tlog_def upd_client_def SetTtsStart_def send_audio_def take_interrupt_def sender_drained_def
  finish_pending_def consumePendingInterruptStop_def no_stop_def wait_reached_def ms_def sentenceControlDelay_def
  ttsPlaybackCompletionGrace_def sdiv_int_numeral_numeral call_end_def

abbreviation tts_demo :: "(instant \<times> tts_event) list \<Rightarrow> tts_world option" where
  "tts_demo evs \<equiv> tts_run evs (NewTTSManager 60 demo_client)"

text \<open>
  A defect: an interrupt that is not waited for also throws away what the next turn has queued. After the run
  \<open>new_turn_lost\<close> the call to interrupt has returned before the start of the next turn and a sentence of it were put into the
  queue, both of the new generation; handling the interrupt drops them. Every queue is empty, the sender waits at its
  top, every call is done, and the start of the second turn was never sent.
\<close>

theorem interrupt_drops_next_turn:
  "\<exists>w. tts_run new_turn_lost (NewTTSManager 60 demo_client) = Some w \<and> tw_audioGeneration w = 2 \<and> ms_cycleID (tw_metric w) = 2 \<and>
    tw_sessionAudioQueue w = [] \<and> tw_delayedSentenceQueue w = [] \<and> tw_delayedSentenceReadyQueue w = [] \<and> tw_interruptCh w = [] \<and>
    tw_sender w = SenderTop \<and> concat (tw_calls w) = [] \<and>
    tw_log w = [OutHookStart, OutTtsStart, OutCalledEnd 9 (Some ContextDone)]"
  by (simp add: tts_run_defs tts_exec_defs)

subsection \<open>Witnesses\<close>

lemmas turn_defs = finishTtsStopWithReason_def markTtsMetricRequestStart_def finishTtsMetricRequest_def
  maybeFinalizeTtsMetricLocked_def RequestTurnEnd_def finalizeTtsMetricLocked_def forceStopTtsMetric_def dispatchTTSTurnEndPolicy_def unixMilli_def Let_def


theorem sender_keeps_pace_witness:
  "\<exists>w. tts_run two_frames (NewTTSManager 60 demo_client) = Some w \<and> length (stretch w) = 2 \<and>
    60 * 1000000 \<le> stretch w ! 1 - stretch w ! 0 + 120 * 1000000"
proof -
  obtain w where w: "tts_demo two_frames = Some w" "length (stretch w) = 2"
    by (simp add: tts_run_defs tts_exec_defs stretch_def audio_times_def)
  then show ?thesis using sender_keeps_pace [OF w(1), of 0 1] by auto
qed

theorem stop_follows_start_witness:
  "\<exists>w. tts_run whole_turn (NewTTSManager 60 demo_client) = Some w \<and> count_out OutTtsStop w = 1 \<and>
    count_out OutTtsStop w \<le> count_out OutHookStart w"
proof -
  obtain w where w: "tts_demo whole_turn = Some w" "count_out OutTtsStop w = 1"
    by (simp add: tts_run_defs tts_exec_defs turn_defs count_out_def)
  have "int (count_out OutTtsStop w) \<le> int (count_out OutHookStart w) + of_bool False"
    using stop_follows_start [OF w(1)] by (cases "tw_ttsActive w") (simp_all add: NewTTSManager_def count_out_def)
  then show ?thesis using w by auto
qed

theorem turn_traced_once_witness:
  "\<exists>w. tts_run whole_turn (NewTTSManager 60 demo_client) = Some w \<and> ms_turnEnded (tw_metric w) \<and> ms_cycleID (tw_metric w) = 1 \<and>
    traced 1 TraceTurnEnd w = 1 \<and> traced 1 TraceTtsStop w \<le> 1"
proof -
  obtain w where w: "tts_demo whole_turn = Some w" "ms_turnEndRequested (tw_metric w)" "ms_pendingItems (tw_metric w) = 0"
    "ms_activeRequests (tw_metric w) = 0" "ms_cycleID (tw_metric w) = 1"
    by (simp add: tts_run_defs tts_exec_defs turn_defs)
  then show ?thesis using turn_traced_once [OF w(1), of 1 TraceTtsStop] by auto
qed

definition demo_task :: "instant \<Rightarrow> delayed_task" where
  "demo_task t = \<lparr>dt_Elem = control_elem AudioQueueKindSentenceEnd [], dt_ExecuteAt = t\<rparr>"

theorem delayed_tasks_in_order_witness:
  "insertDelayedSentenceTask [demo_task 1, demo_task 3] (demo_task 2) = [demo_task 1, demo_task 2, demo_task 3]"
proof -
  have "due_order [demo_task 1, demo_task 3]" by (simp add: due_order_def demo_task_def)
  then show ?thesis using delayed_tasks_in_order [of "[demo_task 1, demo_task 3]" "demo_task 2"] by (simp add: demo_task_def)
qed

theorem sentence_end_told_once_witness:
  "\<exists>w. tts_run new_turn_lost (NewTTSManager 60 demo_client) = Some w \<and> told_ends 9 w + open_ends 9 w = 1"
proof -
  obtain w where w: "tts_demo new_turn_lost = Some w" "\<not> tw_ctxDone w" by (simp add: tts_run_defs tts_exec_defs)
  have ok: "list_all (event_ok \<circ> snd) new_turn_lost"
    by (simp add: tts_run_defs EnqueueTtsStartWithReason_def InterruptAndClearQueueWithReason_def EnqueueMediaSentenceEnd_def
        control_elem_def end_ok_def)
  have "sum_list (map (event_ends 9 \<circ> snd) new_turn_lost) = 1"
    by (simp add: tts_run_defs EnqueueTtsStartWithReason_def InterruptAndClearQueueWithReason_def EnqueueMediaSentenceEnd_def
        control_elem_def ends_of_calls_def ends_def)
  then show ?thesis using sentence_end_told_once [OF w(1) ok, of 9] w by auto
qed

end
