(* ===== verification/TtsItems.thy ===== *)
theory TtsItems
  imports TtsRuns
begin

text \<open>
  The consumer of the queue of texts to speak (\<open>processTTSQueue\<close> of \<open>internal/app/server/chat/tts.go\<close>): how one item becomes
  marks, frames and callbacks, on every path, and what clearing the queue does.

  The handlers run for a long time and depend on the providers, the audio queue and the context, so each is a function of
  the answers it gets, in order; its value is the list of what it does, \<open>None\<close> when the answers are not enough. \<open>item_calls\<close> turns what it does into a call of the manager of \<open>TtsSender\<close>, which runs interleaved with
  the sender.
\<close>

subsection \<open>Items and what handling them does\<close>

record tts_response =
  lr_Text :: gotext
  lr_IsStart :: bool
  lr_IsEnd :: bool

record tts_item =
  ti_llmResponse :: tts_response
  ti_stream :: bool
  ti_generation :: nat
  ti_metricCycle :: nat
  ti_enqueueSeq :: nat
  ti_onStartFunc :: "callback option"
  ti_onEndFunc :: "callback option"

text \<open>
  The answers. A verdict says whether an element was queued, and then whether the context is done right after. Each value is
  one turn of a loop; \<open>ContextEnded\<close> is the branch of \<open>ctx.Done()\<close>. \<open>GenNil\<close> is a provider that returns neither a channel nor
  an error. A text that comes in a stream has two verdicts for the marks of the case that it cannot be synthesised. An event
  of the streaming provider is its signals followed by its sound.
\<close>

datatype verdict = Queued bool | NotQueued

datatype frame_answer = FrameIn bytes verdict | FramesClosed verdict | FramesContextEnded

datatype gen_answer = GenAcquireFailed tts_error | GenFailed nat | GenNil | GenStream verdict "frame_answer list"

datatype text_answer = ResponseIn tts_response gen_answer verdict verdict | ResponsesClosed verdict | TextsContextEnded verdict

datatype event_answer = SignalEnd gotext verdict | SignalStart gotext verdict | SoundIn bytes verdict | EventsClosed verdict

datatype dual_answer = DualAcquireFailed | DualUnsupported | DualFailed nat | DualStream "event_answer list"

datatype item_act =
    ActAcquire
  | ActRelease
  | ActStartRequest
  | ActFinishRequest "tts_error option"
  | ActFirstAudio
  | ActQueue audio_elem
  | ActEnd callback "tts_error option"
  | ActFinishItem "tts_error option"

type_synonym item_result = "(item_act list \<times> tts_error option) option"

definition first_do :: "item_act list \<Rightarrow> item_result \<Rightarrow> item_result" where
  "first_do acts r = map_option (\<lambda>(ans, err). (acts @ ans, err)) r"

definition call_onEnd :: "tts_item \<Rightarrow> tts_error option \<Rightarrow> item_act list" where
  "call_onEnd it err = (case ti_onEndFunc it of None \<Rightarrow> [] | Some f \<Rightarrow> [ActEnd f err])"

text \<open>An element for the audio queue, with the item's generation.\<close>

definition item_elem :: "tts_item \<Rightarrow> audio_kind \<Rightarrow> gotext \<Rightarrow> audio_elem" where
  "item_elem it kind txt = (control_elem kind [])\<lparr>ae_Text := txt, ae_Generation := ti_generation it\<rparr>"

definition start_elem :: "tts_item \<Rightarrow> gotext \<Rightarrow> bool \<Rightarrow> audio_elem" where
  "start_elem it txt withStart =
     (item_elem it AudioQueueKindSentenceStart txt)\<lparr>ae_OnStart := (if withStart then ti_onStartFunc it else None)\<rparr>"

definition frame_elem :: "tts_item \<Rightarrow> bytes \<Rightarrow> audio_elem" where
  "frame_elem it frame =
     (item_elem it AudioQueueKindFrame [])\<lparr>ae_Data := frame, ae_MetricCycle := ti_metricCycle it\<rparr>"

text \<open>The last mark of an item, with its callback and the error it reports.\<close>

definition end_elem :: "tts_item \<Rightarrow> gotext \<Rightarrow> tts_error option \<Rightarrow> audio_elem" where
  "end_elem it txt err =
     (item_elem it AudioQueueKindSentenceEnd txt)\<lparr>ae_OnEnd := ti_onEndFunc it, ae_Err := err\<rparr>"

text \<open>Leaving early because the context is done; the request is finished and the callback told.\<close>

definition give_up :: "tts_item \<Rightarrow> item_act list" where
  "give_up it = [ActFinishRequest (Some ContextDone)] @ call_onEnd it (Some ContextDone)"

definition first_audio :: "bool \<Rightarrow> item_act list" where
  "first_audio reported = (if reported then [] else [ActFirstAudio])"

text \<open>The last mark of an item, or telling its callback if it cannot be queued (\<open>err'\<close> is what it is told then).\<close>

definition close_item :: "tts_item \<Rightarrow> gotext \<Rightarrow> tts_error option \<Rightarrow> tts_error option \<Rightarrow> verdict \<Rightarrow> item_act list" where
  "close_item it txt err err' v =
     (case v of Queued _ \<Rightarrow> [ActQueue (end_elem it txt err)] | NotQueued \<Rightarrow> call_onEnd it err')"

fun ctx_err :: "verdict \<Rightarrow> tts_error option" where
  "ctx_err (Queued ended) = (if ended then Some ContextDone else None)"
| "ctx_err NotQueued = Some ContextDone"

subsection \<open>One text (\<open>handleTts\<close>)\<close>

fun tts_frames :: "tts_item \<Rightarrow> bool \<Rightarrow> frame_answer list \<Rightarrow> item_result" where
  "tts_frames it reported [] = None"
| "tts_frames it reported (FramesContextEnded # ans) = Some ([ActRelease] @ give_up it, Some ContextDone)"
| "tts_frames it reported (FramesClosed v # ans) =
     Some ([ActRelease, ActFinishRequest None] @ close_item it (lr_Text (ti_llmResponse it)) None (Some ContextDone) v, ctx_err v)"
| "tts_frames it reported (FrameIn frame (Queued ended) # ans) =
     first_do (first_audio reported @ [ActQueue (frame_elem it frame)]) (tts_frames it True ans)"
| "tts_frames it reported (FrameIn frame NotQueued # ans) = Some (first_audio reported @ [ActRelease] @ give_up it, Some ContextDone)"

text \<open>The error of the provider is wrapped; a text of blanks needs no synthesis.\<close>

definition handleTts :: "tts_item \<Rightarrow> gen_answer \<Rightarrow> item_result" where
  "handleTts it gen =
     (if trim_space (lr_Text (ti_llmResponse it)) = [] then Some (call_onEnd it None, None)
      else case gen of
        GenAcquireFailed e \<Rightarrow> Some (call_onEnd it (Some e), Some e)
      | GenFailed n \<Rightarrow>
          Some ([ActAcquire, ActStartRequest, ActRelease, ActFinishRequest (Some (TransportFailed n))]
            @ call_onEnd it (Some (SynthesisFailed n)), Some (SynthesisFailed n))
      | GenNil \<Rightarrow> Some ([ActAcquire, ActStartRequest, ActRelease] @ call_onEnd it None, None)
      | GenStream NotQueued ans \<Rightarrow> Some ([ActAcquire, ActStartRequest, ActRelease] @ give_up it, Some ContextDone)
      | GenStream (Queued ended) ans \<Rightarrow>
          first_do [ActAcquire, ActStartRequest, ActQueue (start_elem it (lr_Text (ti_llmResponse it)) True)]
            (tts_frames it False ans))"

subsection \<open>A stream of texts (\<open>handleStreamTts\<close>)\<close>

text \<open>The frames of one text of a stream: \<open>Inl\<close> the error the function returns, or \<open>Inr\<close> to go on with the next text.\<close>

fun stream_frames ::
  "tts_item \<Rightarrow> gotext \<Rightarrow> bool \<Rightarrow> frame_answer list \<Rightarrow> (item_act list \<times> (tts_error option + unit)) option" where
  "stream_frames it txt reported [] = None"
| "stream_frames it txt reported (FramesContextEnded # ans) = Some ([ActRelease] @ give_up it, Inl (Some ContextDone))"
| "stream_frames it txt reported (FramesClosed (Queued ended) # ans) =
     Some ([ActRelease, ActFinishRequest None, ActQueue (item_elem it AudioQueueKindSentenceEnd txt)], Inr ())"
| "stream_frames it txt reported (FramesClosed NotQueued # ans) =
     Some ([ActRelease, ActFinishRequest None] @ call_onEnd it (Some ContextDone), Inr ())"
| "stream_frames it txt reported (FrameIn frame (Queued ended) # ans) =
     map_option (\<lambda>(acts, r). (first_audio reported @ [ActQueue (frame_elem it frame)] @ acts, r)) (stream_frames it txt True ans)"
| "stream_frames it txt reported (FrameIn frame NotQueued # ans) =
     Some (first_audio reported @ [ActRelease] @ give_up it, Inl (Some ContextDone))"

text \<open>The end of a stream whose next text cannot be synthesised. The very first mark carries the callback for the start.\<close>

definition stream_failed :: "tts_item \<Rightarrow> bool \<Rightarrow> tts_error \<Rightarrow> verdict \<Rightarrow> verdict \<Rightarrow> item_act list \<times> tts_error option" where
  "stream_failed it first e startV endV =
     (if first then
        (case startV of
           NotQueued \<Rightarrow> (call_onEnd it (Some ContextDone), Some ContextDone)
         | Queued ended \<Rightarrow> (ActQueue (start_elem it [] True) # close_item it [] (Some e) (Some e) endV, Some e))
      else (close_item it [] (Some e) (Some e) endV, Some e))"

text \<open>A text of blanks makes \<open>generateTtsOnly\<close> return nothing, and the loop goes on.\<close>

fun stream_texts :: "tts_item \<Rightarrow> bool \<Rightarrow> text_answer list \<Rightarrow> item_result" where
  "stream_texts it first [] = None"
| "stream_texts it first (TextsContextEnded v # ans) =
     Some (close_item it [] (Some ContextDone) (Some ContextDone) v, Some ContextDone)"
| "stream_texts it first (ResponsesClosed v # ans) = Some (close_item it [] None None v, ctx_err v)"
| "stream_texts it first (ResponseIn resp gen startV endV # ans) =
     (if trim_space (lr_Text resp) = [] then stream_texts it first ans
      else case gen of
        GenAcquireFailed e \<Rightarrow> Some (stream_failed it first e startV endV)
      | GenFailed n \<Rightarrow>
          first_do [ActAcquire, ActStartRequest, ActRelease, ActFinishRequest (Some (TransportFailed n))]
            (Some (stream_failed it first (SynthesisFailed n) startV endV))
      | GenNil \<Rightarrow> first_do [ActAcquire, ActStartRequest, ActRelease] (stream_texts it first ans)
      | GenStream NotQueued frames \<Rightarrow> Some ([ActAcquire, ActStartRequest, ActRelease] @ give_up it, Some ContextDone)
      | GenStream (Queued ended) frames \<Rightarrow>
          first_do [ActAcquire, ActStartRequest, ActQueue (start_elem it (lr_Text resp) first)]
            (case stream_frames it (lr_Text resp) False frames of
               None \<Rightarrow> None
             | Some (acts, Inl err) \<Rightarrow> Some (acts, err)
             | Some (acts, Inr _) \<Rightarrow> first_do acts (stream_texts it False ans)))"

text \<open>
  The streaming provider (\<open>handleDualStreamTts\<close>) gets the texts from a goroutine of its own, which only passes them on; its
  events are handled here. The resource goes back when the function returns.
\<close>

fun dual_events :: "tts_item \<Rightarrow> bool \<Rightarrow> bool \<Rightarrow> event_answer list \<Rightarrow> item_result" where
  "dual_events it first reported [] = None"
| "dual_events it first reported (SignalEnd txt (Queued ended) # ans) =
     first_do [ActQueue (item_elem it AudioQueueKindSentenceEnd txt)] (dual_events it first reported ans)"
| "dual_events it first reported (SignalEnd txt NotQueued # ans) = Some (give_up it, Some ContextDone)"
| "dual_events it first reported (SignalStart txt (Queued ended) # ans) =
     first_do [ActQueue (start_elem it txt first)] (dual_events it False reported ans)"
| "dual_events it first reported (SignalStart txt NotQueued # ans) = Some (give_up it, Some ContextDone)"
| "dual_events it first reported (SoundIn sound v # ans) =
     (if sound = [] then dual_events it first reported ans
      else case v of
        Queued ended \<Rightarrow> first_do (first_audio reported @ [ActQueue (frame_elem it sound)]) (dual_events it first True ans)
      | NotQueued \<Rightarrow> Some (first_audio reported @ give_up it, Some ContextDone))"
| "dual_events it first reported (EventsClosed v # ans) = Some (ActFinishRequest None # close_item it [] None None v, ctx_err v)"

definition handleStreamTts :: "bool \<Rightarrow> tts_item \<Rightarrow> dual_answer \<Rightarrow> text_answer list \<Rightarrow> item_result" where
  "handleStreamTts supportsDualStream it dual ans =
     (if supportsDualStream then
        case dual of
          DualAcquireFailed \<Rightarrow> stream_texts it True ans
        | DualUnsupported \<Rightarrow> first_do [ActAcquire, ActRelease] (stream_texts it True ans)
        | DualFailed n \<Rightarrow>
            first_do [ActAcquire, ActStartRequest, ActFinishRequest (Some (TransportFailed n)), ActRelease]
              (stream_texts it True ans)
        | DualStream events \<Rightarrow>
            map_option (\<lambda>(acts, err). ([ActAcquire, ActStartRequest] @ acts @ [ActRelease], err)) (dual_events it True False events)
      else stream_texts it True ans)"

subsection \<open>The queue and its consumer\<close>

text \<open>
  A pushing caller takes its number first and then puts the item into the queue. The consumer checks twice whether its item
  was dropped, before and after it waits for the media player to give back the output. \<open>tx_done\<close> is the log of the items that
  are finished, with what was done for them.
\<close>

datatype consumer = ConsumerIdle | ConsumerPopped tts_item | ConsumerWaiting tts_item | ConsumerReady tts_item | ConsumerSpeaking tts_item

record text_world =
  tx_ttsQueueSeq :: nat
  tx_droppedTTSSeq :: nat
  tx_pushing :: "tts_item list"
  tx_queue :: "tts_item list"
  tx_consumer :: consumer
  tx_done :: "(tts_item \<times> item_act list) list"

definition shouldDropTTSQueueItem :: "text_world \<Rightarrow> tts_item \<Rightarrow> bool" where
  "shouldDropTTSQueueItem w it = (if ti_enqueueSeq it = 0 then False else ti_enqueueSeq it \<le> tx_droppedTTSSeq w)"

definition dismissTTSQueueItem :: "tts_item \<Rightarrow> tts_error option \<Rightarrow> item_act list" where
  "dismissTTSQueueItem it err = call_onEnd it err @ [ActFinishItem err]"

definition ttsQueueCap :: nat where "ttsQueueCap = 128"

text \<open>A push that fails leaves telling the callback to its caller, \<open>handleTextResponseWithHooks\<close>.\<close>

datatype text_op =
    PushBegin tts_item
  | PushDone nat
  | PushFailed nat tts_error
  | ClearTTSQueue
  | ConsumerPop
  | ConsumerCheck
  | ConsumerWaited "tts_error option"
  | ConsumerSpeak bool gen_answer dual_answer "text_answer list"

definition finished :: "tts_item \<Rightarrow> item_act list \<Rightarrow> text_world \<Rightarrow> text_world" where
  "finished it acts w = w\<lparr>tx_done := tx_done w @ [(it, acts)]\<rparr>"

definition without :: "nat \<Rightarrow> 'a list \<Rightarrow> 'a list" where
  "without i xs = take i xs @ drop (Suc i) xs"

definition text_exec :: "text_op \<Rightarrow> text_world \<Rightarrow> text_world option" where
  "text_exec op w =
     (case op of
        PushBegin it \<Rightarrow>
          let seq = tx_ttsQueueSeq w + 1
          in Some (w\<lparr>tx_ttsQueueSeq := seq, tx_pushing := tx_pushing w @ [it\<lparr>ti_enqueueSeq := seq\<rparr>]\<rparr>)
      | PushDone i \<Rightarrow>
          if i < length (tx_pushing w) \<and> length (tx_queue w) < ttsQueueCap then
            Some (w\<lparr>tx_pushing := without i (tx_pushing w), tx_queue := tx_queue w @ [tx_pushing w ! i]\<rparr>)
          else None
      | PushFailed i e \<Rightarrow>
          if i < length (tx_pushing w) then
            Some (finished (tx_pushing w ! i) (call_onEnd (tx_pushing w ! i) (Some e)) (w\<lparr>tx_pushing := without i (tx_pushing w)\<rparr>))
          else None
      | ClearTTSQueue \<Rightarrow>
          Some (w\<lparr>tx_droppedTTSSeq := tx_ttsQueueSeq w, tx_queue := [],
            tx_done := tx_done w @ map (\<lambda>it. (it, dismissTTSQueueItem it (Some ContextDone))) (tx_queue w)\<rparr>)
      | ConsumerPop \<Rightarrow>
          (case (tx_consumer w, tx_queue w) of
             (ConsumerIdle, it # rest) \<Rightarrow> Some (w\<lparr>tx_queue := rest, tx_consumer := ConsumerPopped it\<rparr>)
           | _ \<Rightarrow> None)
      | ConsumerCheck \<Rightarrow>
          (case tx_consumer w of
             ConsumerPopped it \<Rightarrow>
               Some (if shouldDropTTSQueueItem w it
                     then finished it (dismissTTSQueueItem it (Some ContextDone)) (w\<lparr>tx_consumer := ConsumerIdle\<rparr>)
                     else w\<lparr>tx_consumer := ConsumerWaiting it\<rparr>)
           | ConsumerReady it \<Rightarrow>
               Some (if shouldDropTTSQueueItem w it
                     then finished it (dismissTTSQueueItem it (Some ContextDone)) (w\<lparr>tx_consumer := ConsumerIdle\<rparr>)
                     else w\<lparr>tx_consumer := ConsumerSpeaking it\<rparr>)
           | _ \<Rightarrow> None)
      | ConsumerWaited waitErr \<Rightarrow>
          (case tx_consumer w of
             ConsumerWaiting it \<Rightarrow>
               Some (case waitErr of
                       None \<Rightarrow> w\<lparr>tx_consumer := ConsumerReady it\<rparr>
                     | Some e \<Rightarrow> finished it (dismissTTSQueueItem it (Some e)) (w\<lparr>tx_consumer := ConsumerIdle\<rparr>))
           | _ \<Rightarrow> None)
      | ConsumerSpeak supportsDualStream gen dual texts \<Rightarrow>
          (case tx_consumer w of
             ConsumerSpeaking it \<Rightarrow>
               (case (if ti_stream it then handleStreamTts supportsDualStream it dual texts else handleTts it gen) of
                  None \<Rightarrow> None
                | Some (acts, err) \<Rightarrow> Some (finished it (acts @ [ActFinishItem err]) (w\<lparr>tx_consumer := ConsumerIdle\<rparr>)))
           | _ \<Rightarrow> None))"

fun text_run :: "text_op list \<Rightarrow> text_world \<Rightarrow> text_world option" where
  "text_run [] w = Some w"
| "text_run (op # ops) w = (case text_exec op w of None \<Rightarrow> None | Some w1 \<Rightarrow> text_run ops w1)"

definition empty_queue :: text_world where
  "empty_queue = \<lparr>tx_ttsQueueSeq = 0, tx_droppedTTSSeq = 0, tx_pushing = [], tx_queue = [], tx_consumer = ConsumerIdle, tx_done = []\<rparr>"

subsection \<open>What is handed over\<close>

text \<open>
  \<open>hands\<close>: the callback for the end is called, or handed over to the audio queue. A provider is given back as often as it
  was taken; a request is finished as often as it was started.
\<close>

fun hands :: "item_act \<Rightarrow> nat" where
  "hands (ActEnd f err) = 1"
| "hands (ActQueue e) = of_bool (ae_OnEnd e \<noteq> None)"
| "hands _ = 0"

fun takes_resource :: "item_act \<Rightarrow> int" where
  "takes_resource ActAcquire = 1"
| "takes_resource ActRelease = -1"
| "takes_resource _ = 0"

fun opens_request :: "item_act \<Rightarrow> int" where
  "opens_request ActStartRequest = 1"
| "opens_request (ActFinishRequest err) = -1"
| "opens_request _ = 0"

definition handed :: "item_act list \<Rightarrow> nat" where
  "handed acts = sum_list (map hands acts)"

definition held :: "item_act list \<Rightarrow> int" where
  "held acts = sum_list (map takes_resource acts)"

definition requests :: "item_act list \<Rightarrow> int" where
  "requests acts = sum_list (map opens_request acts)"

definition due :: "tts_item \<Rightarrow> nat" where
  "due it = of_bool (ti_onEndFunc it \<noteq> None)"

lemma sums_simps [simp]:
  "handed [] = 0" "handed (a # ans) = hands a + handed ans" "handed (ans @ bs) = handed ans + handed bs"
  "held [] = 0" "held (a # ans) = takes_resource a + held ans" "held (ans @ bs) = held ans + held bs"
  "requests [] = 0" "requests (a # ans) = opens_request a + requests ans" "requests (ans @ bs) = requests ans + requests bs"
  by (simp_all add: handed_def held_def requests_def)

lemma elem_onEnd [simp]:
  "ae_OnEnd (item_elem it kind txt) = None" "ae_OnEnd (start_elem it txt b) = None" "ae_OnEnd (frame_elem it frame) = None"
  "ae_OnEnd (end_elem it txt err) = ti_onEndFunc it"
  by (simp_all add: item_elem_def start_elem_def frame_elem_def end_elem_def control_elem_def)

lemma call_onEnd_sums [simp]:
  "handed (call_onEnd it err) = due it" "held (call_onEnd it err) = 0" "requests (call_onEnd it err) = 0"
  by (simp_all add: call_onEnd_def due_def split: option.splits)

lemma give_up_sums [simp]: "handed (give_up it) = due it" "held (give_up it) = 0" "requests (give_up it) = -1"
  by (simp_all add: give_up_def)

lemma close_sums [simp]:
  "handed (close_item it txt err err' v) = due it" "held (close_item it txt err err' v) = 0" "requests (close_item it txt err err' v) = 0"
  by (simp_all add: close_item_def due_def split: verdict.splits)

lemma first_audio_sums [simp]: "handed (first_audio b) = 0" "held (first_audio b) = 0" "requests (first_audio b) = 0"
  by (simp_all add: first_audio_def)

lemma first_do_Some [simp]: "first_do acts r = Some (ans, err) \<longleftrightarrow> (\<exists>bs. r = Some (bs, err) \<and> ans = acts @ bs)"
  by (auto simp: first_do_def)

lemma tts_frames_sums: "tts_frames it reported ans = Some (acts, err) \<Longrightarrow> handed acts = due it \<and> held acts = -1 \<and> requests acts = -1"
  by (induction it reported ans arbitrary: acts rule: tts_frames.induct) auto

lemma handleTts_sums:
  assumes "handleTts it gen = Some (acts, err)"
  shows "handed acts = due it" "held acts = 0" "gen \<noteq> GenNil \<Longrightarrow> requests acts = 0"
  using assms tts_frames_sums [of it False]
  by (auto simp: handleTts_def due_def split: if_splits gen_answer.splits verdict.splits)

lemma dual_events_sums: "dual_events it first reported ans = Some (acts, err) \<Longrightarrow> handed acts = due it \<and> held acts = 0 \<and> requests acts = -1"
  by (induction it first reported ans arbitrary: acts rule: dual_events.induct) (auto split: if_splits verdict.splits)

subsection \<open>Streams of texts\<close>

text \<open>Once the context has ended nothing is queued any more.\<close>

fun frame_verdicts :: "frame_answer \<Rightarrow> verdict list" where
  "frame_verdicts (FrameIn frame v) = [v]"
| "frame_verdicts (FramesClosed v) = [v]"
| "frame_verdicts FramesContextEnded = [NotQueued]"

fun text_verdicts :: "text_answer \<Rightarrow> verdict list" where
  "text_verdicts (ResponseIn resp (GenStream v frames) startV endV) = v # concat (map frame_verdicts frames)"
| "text_verdicts (ResponseIn resp GenNil startV endV) = []"
| "text_verdicts (ResponseIn resp _ startV endV) = [startV, endV]"
| "text_verdicts (ResponsesClosed v) = [v]"
| "text_verdicts (TextsContextEnded v) = [NotQueued, v]"

fun stays_ended :: "verdict list \<Rightarrow> bool" where
  "stays_ended [] = True"
| "stays_ended (Queued ended # vs) = stays_ended vs"
| "stays_ended (NotQueued # vs) = (set vs \<subseteq> {NotQueued})"

definition never_nil :: "text_answer list \<Rightarrow> bool" where
  "never_nil ans \<longleftrightarrow> (\<forall>a\<in>set ans. case a of ResponseIn resp gen startV endV \<Rightarrow> gen \<noteq> GenNil | _ \<Rightarrow> True)"

lemma ended_stays: "set vs \<subseteq> {NotQueued} \<Longrightarrow> stays_ended vs"
  by (cases vs; cases "hd vs") auto

lemma stays_append: "stays_ended (us @ vs) \<Longrightarrow> stays_ended vs \<and> (NotQueued \<in> set us \<longrightarrow> set vs \<subseteq> {NotQueued})"
  by (induction us rule: stays_ended.induct) (auto intro: ended_stays)

lemma stream_failed_sums:
  "stream_failed it first e startV endV = (acts, err) \<Longrightarrow> handed acts = due it \<and> held acts = 0 \<and> requests acts = 0"
  by (auto simp: stream_failed_def due_def split: if_splits verdict.splits)

lemma stream_frames_sums:
  "stream_frames it heading reported ans = Some (acts, r) \<Longrightarrow> held acts = -1 \<and> requests acts = -1 \<and>
    (case r of Inl _ \<Rightarrow> handed acts = due it
     | Inr _ \<Rightarrow> handed acts = 0 \<or> handed acts = due it \<and> NotQueued \<in> set (concat (map frame_verdicts ans)))"
  by (induction it heading reported ans arbitrary: acts rule: stream_frames.induct) (auto split: sum.splits)

lemma stream_texts_resources: "stream_texts it first ans = Some (acts, err) \<Longrightarrow> held acts = 0 \<and> (never_nil ans \<longrightarrow> requests acts = 0)"
proof (induction it first ans arbitrary: acts rule: stream_texts.induct)
  case (4 it first resp gen startV endV ans)
  show ?case
  proof (cases gen)
    case (GenStream v frames)
    then show ?thesis
      using "4.prems" "4.IH"(1) "4.IH"(3) [of v frames]
      by (auto simp: never_nil_def split: if_splits verdict.splits option.splits sum.splits dest!: stream_frames_sums)
  qed (use "4.prems" "4.IH"(1,2) in \<open>auto simp: never_nil_def split: if_splits dest!: stream_failed_sums\<close>)
qed (auto simp: never_nil_def)

definition verdicts :: "text_answer list \<Rightarrow> verdict list" where
  "verdicts ans = concat (map text_verdicts ans)"

lemma verdicts_simps [simp]: "verdicts [] = []" "verdicts (a # ans) = text_verdicts a @ verdicts ans"
  by (simp_all add: verdicts_def)

lemma frames_after_end:
  "stream_frames it heading reported ans = Some (acts, Inr u) \<Longrightarrow> set (concat (map frame_verdicts ans)) \<subseteq> {NotQueued} \<Longrightarrow> handed acts = due it"
  by (induction it heading reported ans arbitrary: acts rule: stream_frames.induct) auto

text \<open>After the context has ended the loop tells the callback once more, whatever comes.\<close>

lemma stream_texts_ended:
  "stream_texts it first ans = Some (acts, err) \<Longrightarrow> set (verdicts ans) \<subseteq> {NotQueued} \<Longrightarrow> handed acts = due it"
proof (induction it first ans arbitrary: acts rule: stream_texts.induct)
  case (4 it first resp gen startV endV ans)
  then show ?case
    by (cases gen) (auto split: if_splits verdict.splits dest!: stream_failed_sums)
qed auto

lemma stream_texts_handed:
  "stream_texts it first ans = Some (acts, err) \<Longrightarrow> stays_ended (verdicts ans) \<Longrightarrow>
    handed acts = due it \<or> handed acts = 2 * due it \<and> NotQueued \<in> set (verdicts ans)"
proof (induction it first ans arbitrary: acts rule: stream_texts.induct)
  case (4 it first resp gen startV endV ans)
  have rest: "stays_ended (verdicts ans)" using "4.prems"(2) stays_append by simp
  show ?case
  proof (cases "trim_space (lr_Text resp) = []")
    case True
    then show ?thesis using "4.prems"(1) "4.IH"(1) [OF True _ rest] by auto
  next
    case False
    show ?thesis
    proof (cases gen)
      case (GenStream v frames)
      show ?thesis
      proof (cases v)
        case (Queued ended)
        obtain as1 r where f: "stream_frames it (lr_Text resp) False frames = Some (as1, r)"
          using "4.prems"(1) False GenStream Queued by (auto split: option.splits)
        note sums = stream_frames_sums [OF f]
        show ?thesis
        proof (cases r)
          case (Inl e)
          then show ?thesis using "4.prems"(1) False GenStream Queued f sums by auto
        next
          case (Inr u)
          obtain as2 where t: "stream_texts it False ans = Some (as2, err)" and acts: "handed acts = handed as1 + handed as2"
            using "4.prems"(1) False GenStream Queued f Inr by auto
          show ?thesis
          proof (cases "handed as1 = 0")
            case True
            then show ?thesis
              using "4.IH"(3) [OF False GenStream Queued f refl Inr t rest] acts by auto
          next
            case lost: False
            then have "NotQueued \<in> set (concat (map frame_verdicts frames))" "handed as1 = due it" using sums Inr by auto
            moreover then have "set (verdicts ans) \<subseteq> {NotQueued}"
              using "4.prems"(2) GenStream Queued stays_append [of "text_verdicts (ResponseIn resp gen startV endV)" "verdicts ans"] by auto
            ultimately show ?thesis using stream_texts_ended [OF t] acts GenStream Queued by auto
          qed
        qed
      next
        case NotQueued
        then show ?thesis using "4.prems"(1) False GenStream by auto
      qed
    next
      case GenNil
      then show ?thesis using "4.prems"(1) "4.IH"(2) [OF False GenNil _ rest] False by auto
    qed (use "4.prems"(1) False in \<open>auto dest!: stream_failed_sums\<close>)
  qed
qed auto

lemma handleStreamTts_sums:
  assumes "handleStreamTts dualOk it dual ans = Some (acts, err)"
  shows "held acts = 0" "never_nil ans \<Longrightarrow> requests acts = 0"
    "stays_ended (verdicts ans) \<Longrightarrow> handed acts = due it \<or> handed acts = 2 * due it"
  using assms stream_texts_resources [of it True ans] stream_texts_handed [of it True ans]
  by (auto simp: handleStreamTts_def split: if_splits dual_answer.splits dest!: dual_events_sums)

subsection \<open>Every item is answered\<close>

fun consumer_items :: "consumer \<Rightarrow> tts_item list" where
  "consumer_items ConsumerIdle = []"
| "consumer_items (ConsumerPopped it) = [it]"
| "consumer_items (ConsumerWaiting it) = [it]"
| "consumer_items (ConsumerReady it) = [it]"
| "consumer_items (ConsumerSpeaking it) = [it]"

definition waiting_items :: "text_world \<Rightarrow> tts_item list" where
  "waiting_items w = tx_pushing w @ tx_queue w @ consumer_items (tx_consumer w)"

definition well_answered :: "tts_item \<Rightarrow> item_act list \<Rightarrow> bool" where
  "well_answered it acts \<longleftrightarrow> held acts = 0 \<and> requests acts = 0 \<and>
     (handed acts = due it \<or> ti_stream it \<and> handed acts = 2 * due it)"

text \<open>What is assumed of the answers: a provider returns a channel or an error, and a context that has ended stays so.\<close>

fun proper_op :: "text_op \<Rightarrow> bool" where
  "proper_op (ConsumerSpeak dualOk gen dual texts) \<longleftrightarrow> gen \<noteq> GenNil \<and> never_nil texts \<and> stays_ended (verdicts texts)"
| "proper_op _ \<longleftrightarrow> True"

lemma without_mset: "i < length xs \<Longrightarrow> mset xs = add_mset (xs ! i) (mset (without i xs))"
  by (metis add_mset_add_single id_take_nth_drop mset.simps(2) mset_append union_mset_add_mset_right without_def)

lemma dismiss_answered: "well_answered it (dismissTTSQueueItem it err)"
  by (simp add: well_answered_def dismissTTSQueueItem_def)

lemma push_failed_answered: "well_answered it (call_onEnd it err)"
  by (simp add: well_answered_def)

lemma spoken_answered:
  assumes "(if ti_stream it then handleStreamTts dualOk it dual texts else handleTts it gen) = Some (acts, err)"
    "proper_op (ConsumerSpeak dualOk gen dual texts)"
  shows "well_answered it (acts @ [ActFinishItem err'])"
  using assms handleTts_sums [of it gen acts err] handleStreamTts_sums [of dualOk it dual texts acts err]
  by (auto simp: well_answered_def split: if_splits)

text \<open>The numbers from 1 to \<open>n\<close>.\<close>

definition numbers :: "nat \<Rightarrow> nat multiset" where
  "numbers n = mset [1..<Suc n]"

lemma numbers_Suc: "numbers (Suc n) = add_mset (Suc n) (numbers n)"
  unfolding numbers_def by (subst upt_Suc_append) simp_all

definition items_inv :: "text_world \<Rightarrow> bool" where
  "items_inv w \<longleftrightarrow> mset (map ti_enqueueSeq (waiting_items w @ map fst (tx_done w))) = numbers (tx_ttsQueueSeq w) \<and>
     (\<forall>(it, acts)\<in>set (tx_done w). well_answered it acts)"

lemma finished_fields [simp]:
  "tx_pushing (finished it acts w) = tx_pushing w" "tx_queue (finished it acts w) = tx_queue w"
  "tx_consumer (finished it acts w) = tx_consumer w" "tx_ttsQueueSeq (finished it acts w) = tx_ttsQueueSeq w"
  "tx_droppedTTSSeq (finished it acts w) = tx_droppedTTSSeq w" "tx_done (finished it acts w) = tx_done w @ [(it, acts)]"
  by (simp_all add: finished_def)

lemma text_exec_inv:
  assumes "text_exec op w = Some w'" "items_inv w" "proper_op op"
  shows "items_inv w'"
proof (cases op)
  case (PushDone i)
  then show ?thesis
    using assms without_mset [of i "tx_pushing w"] by (auto simp: text_exec_def items_inv_def waiting_items_def split: if_splits)
next
  case (PushFailed i e)
  then show ?thesis
    using assms without_mset [of i "tx_pushing w"]
    by (auto simp: text_exec_def items_inv_def waiting_items_def push_failed_answered split: if_splits)
next
  case (ConsumerSpeak dualOk gen dual texts)
  then show ?thesis
    using assms spoken_answered [of _ dualOk dual texts gen]
    by (auto simp: text_exec_def items_inv_def waiting_items_def split: consumer.splits option.splits simp del: proper_op.simps)
next
  case ClearTTSQueue
  then show ?thesis
    using assms by (auto simp: text_exec_def items_inv_def waiting_items_def dismiss_answered image_mset.compositionality comp_def ac_simps)
qed (use assms in \<open>auto simp: text_exec_def items_inv_def waiting_items_def dismiss_answered Let_def numbers_Suc
      split: consumer.splits list.splits option.splits if_splits\<close>)

lemma text_run_inv: "text_run ops w = Some w' \<Longrightarrow> items_inv w \<Longrightarrow> list_all proper_op ops \<Longrightarrow> items_inv w'"
  by (induction ops arbitrary: w) (auto split: option.splits intro: text_exec_inv)

text \<open>
  C39. Every text handed in for speaking is answered. Along every run of pushes, clearing and the consumer, each number
  that was given out belongs to exactly one item, which waits somewhere or is finished; and a finished item has given
  back every provider it took, finished every request it started and told its callback for the end exactly once (or handed
  it to the audio queue with the last mark) - twice at most for a stream of texts.
\<close>

theorem text_items_answered:
  assumes "text_run ops empty_queue = Some w" "list_all proper_op ops"
  shows "mset (map ti_enqueueSeq (waiting_items w @ map fst (tx_done w))) = numbers (tx_ttsQueueSeq w) \<and>
    (\<forall>(it, acts)\<in>set (tx_done w). held acts = 0 \<and> requests acts = 0 \<and>
      (handed acts = due it \<or> ti_stream it \<and> handed acts = 2 * due it))"
proof -
  have "items_inv empty_queue" by (simp add: items_inv_def waiting_items_def empty_queue_def numbers_def)
  then have "items_inv w" by (rule text_run_inv [OF assms(1) _ assms(2)])
  then show ?thesis by (auto simp: items_inv_def well_answered_def)
qed

subsection \<open>Clearing the queue\<close>

text \<open>Nothing but telling the callback and counting the item: no provider is asked and nothing is queued.\<close>

fun is_quiet :: "item_act \<Rightarrow> bool" where
  "is_quiet (ActEnd f err) = True"
| "is_quiet (ActFinishItem err) = True"
| "is_quiet _ = False"

definition cleared_inv :: "nat \<Rightarrow> consumer \<Rightarrow> nat \<Rightarrow> text_world \<Rightarrow> bool" where
  "cleared_inv n c k w \<longleftrightarrow> n \<le> tx_droppedTTSSeq w \<and> n \<le> tx_ttsQueueSeq w \<and> k \<le> length (tx_done w) \<and>
     (\<forall>it. tx_consumer w = ConsumerSpeaking it \<and> 0 < ti_enqueueSeq it \<and> ti_enqueueSeq it \<le> n \<longrightarrow> c = ConsumerSpeaking it) \<and>
     (\<forall>(it, acts)\<in>set (drop k (tx_done w)). 0 < ti_enqueueSeq it \<and> ti_enqueueSeq it \<le> n \<and> c \<noteq> ConsumerSpeaking it \<longrightarrow>
       list_all is_quiet acts)"

lemma quiet_dismiss: "list_all is_quiet (dismissTTSQueueItem it err)" "list_all is_quiet (call_onEnd it err)"
  by (simp_all add: dismissTTSQueueItem_def call_onEnd_def split: option.splits)

lemma text_exec_cleared:
  assumes "text_exec op w = Some w'" "cleared_inv n c k w"
  shows "cleared_inv n c k w'"
proof (cases op)
  case (ConsumerSpeak dualOk gen dual texts)
  then show ?thesis
    using assms by (auto simp: text_exec_def cleared_inv_def split: consumer.splits option.splits)
next
  case ConsumerCheck
  then show ?thesis
    using assms
    by (auto simp: text_exec_def cleared_inv_def quiet_dismiss shouldDropTTSQueueItem_def split: consumer.splits if_splits)
qed (use assms in \<open>auto simp: text_exec_def cleared_inv_def quiet_dismiss Let_def
      split: consumer.splits list.splits option.splits if_splits\<close>)

lemma text_run_cleared: "text_run ops w = Some w' \<Longrightarrow> cleared_inv n c k w \<Longrightarrow> cleared_inv n c k w'"
  by (induction ops arbitrary: w) (auto split: option.splits intro: text_exec_cleared)


subsection \<open>A stream whose callback is told twice\<close>

text \<open>
  A defect: when the closing mark of one text of a stream cannot be queued because the context has ended,
  \<open>handleStreamTts\<close> tells the callback for the end and goes on with the loop, which finds the context ended and tells it again.
  This holds for every stream item with a callback and every text that is not blank.
\<close>

theorem stream_told_twice:
  assumes "ti_onEndFunc it = Some f" "trim_space (lr_Text resp) \<noteq> []"
  shows "\<exists>acts err. handleStreamTts False it dual
      [ResponseIn resp (GenStream (Queued ended) [FramesClosed NotQueued]) v v', TextsContextEnded NotQueued] = Some (acts, err) \<and>
    filter (\<lambda>a. hands a = 1) acts = [ActEnd f (Some ContextDone), ActEnd f (Some ContextDone)]"
  using assms by (simp add: handleStreamTts_def first_do_def call_onEnd_def close_item_def start_elem_def item_elem_def control_elem_def)

subsection \<open>From a text to its end on the device\<close>

text \<open>What handling an item does, as a call of the manager that runs interleaved with the sender.\<close>

fun act_calls :: "tts_item \<Rightarrow> item_act \<Rightarrow> tts_call list" where
  "act_calls it (ActQueue e) = [CallEnqueue e]"
| "act_calls it (ActEnd f err) = [CallEndCallback f err]"
| "act_calls it ActStartRequest = [CallRequestStart (ti_metricCycle it)]"
| "act_calls it (ActFinishRequest err) = [CallFinishRequest (ti_metricCycle it) err]"
| "act_calls it ActFirstAudio = [CallFirstAudio (ti_metricCycle it)]"
| "act_calls it (ActFinishItem err) = [CallFinishItem (ti_metricCycle it) err]"
| "act_calls it ActAcquire = []"
| "act_calls it ActRelease = []"

definition item_calls :: "tts_item \<Rightarrow> item_act list \<Rightarrow> tts_call list" where
  "item_calls it acts = concat (map (act_calls it) acts)"

text \<open>Only the last mark of an item carries its callback, and no other callback is handed over.\<close>

fun own_act :: "tts_item \<Rightarrow> item_act \<Rightarrow> bool" where
  "own_act it (ActQueue e) \<longleftrightarrow> ae_OnEnd e = None \<or> ae_Kind e = AudioQueueKindSentenceEnd \<and> ae_OnEnd e = ti_onEndFunc it"
| "own_act it (ActEnd f err) \<longleftrightarrow> ti_onEndFunc it = Some f"
| "own_act it _ \<longleftrightarrow> True"

lemma own_parts [simp]:
  "list_all (own_act it) (call_onEnd it err)" "list_all (own_act it) (give_up it)" "list_all (own_act it) (first_audio b)"
  "list_all (own_act it) (close_item it txt err err' v)"
  by (auto simp: call_onEnd_def give_up_def first_audio_def close_item_def end_elem_def item_elem_def control_elem_def
      split: option.splits verdict.splits)

lemma tts_frames_own: "tts_frames it reported ans = Some (acts, err) \<Longrightarrow> list_all (own_act it) acts"
  by (induction it reported ans arbitrary: acts rule: tts_frames.induct) auto

lemma handleTts_own: "handleTts it gen = Some (acts, err) \<Longrightarrow> list_all (own_act it) acts"
  by (auto simp: handleTts_def split: if_splits gen_answer.splits verdict.splits intro: tts_frames_own)

lemma own_calls:
  assumes "list_all (own_act it) acts" "ti_onEndFunc it = Some f"
  shows "ends_of_calls f (item_calls it acts) = handed acts" "list_all call_end_ok (item_calls it acts)"
  using assms
proof (induction acts)
  case (Cons a acts)
  {
    case 1
    then show ?case using Cons by (cases a) (auto simp: item_calls_def ends_of_calls_def ends_def)
  next
    case 2
    then show ?case using Cons by (cases a) (auto simp: item_calls_def end_ok_def)
  }
qed (simp_all add: item_calls_def ends_of_calls_def)

text \<open>
  From the text to the device: whatever happens before, after and in between - interrupts, drops, failing sends - the
  callback for the end of a spoken text, handed in with the call of \<open>handleTts\<close> only, is called exactly once or still waits,
  as long as the manager's context is not done.
\<close>

theorem spoken_text_end_told_once:
  assumes "handleTts it gen = Some (acts, err)" "ti_onEndFunc it = Some f"
    "tts_run (before @ (t, StartCall (item_calls it acts)) # after) (NewTTSManager frameDuration client) = Some w"
    "list_all (event_ok \<circ> snd) (before @ after)" "list_all (\<lambda>ev. event_ends f (snd ev) = 0) (before @ after)" "\<not> tw_ctxDone w"
  shows "told_ends f w + open_ends f w = 1"
proof -
  let ?evs = "before @ (t, StartCall (item_calls it acts)) # after"
  note own = own_calls [OF handleTts_own [OF assms(1)] assms(2)]
  have h: "handed acts = 1" using handleTts_sums(1) [OF assms(1)] assms(2) by (simp add: due_def)
  have "sum_list (map (event_ends f \<circ> snd) before) = 0" "sum_list (map (event_ends f \<circ> snd) after) = 0"
    using assms(5) by (auto simp: list_all_iff intro!: sum_list_nonneg_eq_0_iff [THEN iffD2])
  then have "sum_list (map (event_ends f \<circ> snd) ?evs) = 1" using own(1) h by simp
  moreover have "list_all (event_ok \<circ> snd) ?evs" using assms(4) own(2) by simp
  ultimately show ?thesis using ends_from_start [OF assms(3)] assms(6) by auto
qed

subsection \<open>Witnesses\<close>

definition a_text :: "bool \<Rightarrow> tts_item" where
  "a_text stream = \<lparr>ti_llmResponse = \<lparr>lr_Text = lit ''hello'', lr_IsStart = True, lr_IsEnd = False\<rparr>, ti_stream = stream, ti_generation = 1,
     ti_metricCycle = 1, ti_enqueueSeq = 0, ti_onStartFunc = None, ti_onEndFunc = Some 9\<rparr>"

definition one_frame_answers :: gen_answer where
  "one_frame_answers = GenStream (Queued False) [FrameIn [5] (Queued False), FramesClosed (Queued False)]"

lemma hello_text: "trim_space (lit ''hello'') \<noteq> []" "trim_space (lr_Text (ti_llmResponse (a_text b))) \<noteq> []"
  by (simp_all add: a_text_def) code_simp+

lemmas item_defs = handleTts_def hello_text one_frame_answers_def first_do_def first_audio_def close_item_def start_elem_def
  frame_elem_def end_elem_def item_elem_def control_elem_def

text \<open>Two texts are queued, the first is spoken, then the queue is cleared.\<close>

definition speak_then_clear :: "text_op list" where
  "speak_then_clear = [PushBegin (a_text False), PushDone 0, PushBegin (a_text False), PushDone 0, ConsumerPop, ConsumerCheck,
     ConsumerWaited None, ConsumerCheck, ConsumerSpeak False one_frame_answers DualUnsupported []]"

lemmas text_run_defs = text_exec_def empty_queue_def without_def ttsQueueCap_def shouldDropTTSQueueItem_def finished_def Let_def

lemma speak_runs: "\<exists>w. text_run speak_then_clear empty_queue = Some w \<and> tx_ttsQueueSeq w = 2 \<and> length (tx_done w) = 1 \<and>
    tx_consumer w = ConsumerIdle \<and> tx_queue w = [(a_text False)\<lparr>ti_enqueueSeq := 2\<rparr>]"
  by (simp add: speak_then_clear_def text_run_defs item_defs a_text_def)

theorem text_items_answered_witness:
  "\<exists>w. text_run speak_then_clear empty_queue = Some w \<and> length (waiting_items w @ map fst (tx_done w)) = 2"
proof -
  obtain w where w: "text_run speak_then_clear empty_queue = Some w" "tx_ttsQueueSeq w = 2" using speak_runs by blast
  have "list_all proper_op speak_then_clear"
    by (simp add: speak_then_clear_def one_frame_answers_def never_nil_def)
  then have "mset (map ti_enqueueSeq (waiting_items w @ map fst (tx_done w))) = numbers 2"
    using text_items_answered [OF w(1)] w(2) by simp
  then have "size (mset (map ti_enqueueSeq (waiting_items w @ map fst (tx_done w)))) = 2" by (simp add: numbers_def)
  then show ?thesis using w(1) by simp
qed


theorem stream_told_twice_witness:
  "\<exists>acts err. handleStreamTts False (a_text True) DualUnsupported
      [ResponseIn (ti_llmResponse (a_text True)) (GenStream (Queued False) [FramesClosed NotQueued]) NotQueued NotQueued, TextsContextEnded NotQueued]
        = Some (acts, err) \<and> handed acts = 2"
proof -
  obtain acts err where a: "handleStreamTts False (a_text True) DualUnsupported
      [ResponseIn (ti_llmResponse (a_text True)) (GenStream (Queued False) [FramesClosed NotQueued]) NotQueued NotQueued, TextsContextEnded NotQueued]
        = Some (acts, err)" "filter (\<lambda>a. hands a = 1) acts = [ActEnd 9 (Some ContextDone), ActEnd 9 (Some ContextDone)]"
    using stream_told_twice [of "a_text True" 9 "ti_llmResponse (a_text True)" DualUnsupported False NotQueued NotQueued] hello_text(2)
    by (simp add: a_text_def) blast
  have le: "hands a \<le> 1" for a by (cases a) auto
  have "handed acts = length (filter (\<lambda>a. hands a = 1) acts)"
    unfolding handed_def by (induction acts) (use le le_Suc_eq in \<open>fastforce+\<close>)
  then show ?thesis using a by auto
qed

theorem spoken_text_end_told_once_witness:
  "\<exists>acts w. handleTts (a_text False) one_frame_answers = Some (acts, None) \<and>
    tts_run ([(0, StartSender)] @ (0, StartCall (item_calls (a_text False) acts)) # [(0, CallEvent 0 EnvGo True False)])
      (NewTTSManager 60 demo_client) = Some w \<and> told_ends 9 w + open_ends 9 w = 1"
proof -
  obtain acts where a: "handleTts (a_text False) one_frame_answers = Some (acts, None)"
    "\<exists>w. tts_run ([(0, StartSender)] @ (0, StartCall (item_calls (a_text False) acts)) # [(0, CallEvent 0 EnvGo True False)])
      (NewTTSManager 60 demo_client) = Some w \<and> \<not> tw_ctxDone w"
    by (simp add: item_defs a_text_def item_calls_def tts_exec_defs turn_defs)
  then obtain w where w: "tts_run ([(0, StartSender)] @ (0, StartCall (item_calls (a_text False) acts)) # [(0, CallEvent 0 EnvGo True False)])
      (NewTTSManager 60 demo_client) = Some w" "\<not> tw_ctxDone w" by blast
  have "told_ends 9 w + open_ends 9 w = 1"
    by (rule spoken_text_end_told_once [OF a(1) _ w(1) _ _ w(2)]) (simp_all add: a_text_def)
  then show ?thesis using a(1) w(1) by blast
qed

end
