(* ===== verification/GoGcm.thy ===== *)
theory GoGcm
  imports GoCrypto
begin

text \<open>
  What the manager's privacy package uses of \<open>crypto/cipher\<close>'s GCM, written out over the block function of
  \<open>GoCrypto\<close>: the 12-byte nonce with a 32-bit block counter, GHASH in the field of \<open>2^128\<close> elements, and the
  16-byte tag that \<open>Open\<close> recomputes. Both callers pass no additional data. Also the UTF-8 form of a
  Go string and \<open>strings.IndexByte\<close>.
\<close>

unbundle bit_operations_syntax

subsection \<open>GHASH\<close>

text \<open>Bit 0 of the standard is the most significant one of the word.\<close>

definition gf_half :: "128 word \<Rightarrow> 128 word" where
  "gf_half v = (if bit v 0 then drop_bit 1 v XOR push_bit 120 0xE1 else drop_bit 1 v)"

fun gf_mul_loop :: "nat \<Rightarrow> 128 word \<Rightarrow> 128 word \<Rightarrow> 128 word \<Rightarrow> 128 word" where
  "gf_mul_loop 0 x v z = z"
| "gf_mul_loop (Suc n) x v z = gf_mul_loop n x (gf_half v) (if bit x n then z XOR v else z)"

definition gf_mul :: "128 word \<Rightarrow> 128 word \<Rightarrow> 128 word" where
  "gf_mul x h = gf_mul_loop 128 x h 0"

definition gcm_block :: "bytes \<Rightarrow> 128 word" where
  "gcm_block bs = of_nat (be_nat (take 16 (bs @ replicate 16 0)))"

fun ghash :: "128 word \<Rightarrow> 128 word \<Rightarrow> bytes \<Rightarrow> 128 word" where
  "ghash h y bs = (if bs = [] then y else ghash h (gf_mul (y XOR gcm_block (take 16 bs)) h) (drop 16 bs))"

declare ghash.simps [simp del]

subsection \<open>Seal and Open\<close>

definition gcm_keystream :: "block_cipher \<Rightarrow> bytes \<Rightarrow> nat \<Rightarrow> bytes" where
  "gcm_keystream blk nonce n = concat (map (\<lambda>i. blk (nonce @ be_bytes 4 (i + 2))) [0..<n])"

definition gcm_crypt :: "block_cipher \<Rightarrow> bytes \<Rightarrow> bytes \<Rightarrow> bytes" where
  "gcm_crypt blk nonce src = map2 (XOR) src (gcm_keystream blk nonce ((length src + 15) div 16))"

definition gcm_tag :: "block_cipher \<Rightarrow> bytes \<Rightarrow> bytes \<Rightarrow> bytes" where
  "gcm_tag blk nonce ct =
     (let h = gcm_block (blk (replicate 16 0));
          s = ghash h (ghash h 0 ct) (be_bytes 8 0 @ be_bytes 8 (8 * length ct))
      in be_bytes 16 (unat (s XOR gcm_block (blk (nonce @ be_bytes 4 1)))))"

definition gcm_Seal :: "block_cipher \<Rightarrow> bytes \<Rightarrow> bytes \<Rightarrow> bytes" where
  "gcm_Seal blk nonce plaintext = (let ct = gcm_crypt blk nonce plaintext in ct @ gcm_tag blk nonce ct)"

definition gcm_Open :: "block_cipher \<Rightarrow> bytes \<Rightarrow> bytes \<Rightarrow> bytes option" where
  "gcm_Open blk nonce ciphertext =
     (if length ciphertext < 16 then None
      else let ct = take (length ciphertext - 16) ciphertext;
               tag = drop (length ciphertext - 16) ciphertext
           in if gcm_tag blk nonce ct \<noteq> tag then None else Some (gcm_crypt blk nonce ct))"

text \<open>AES is a block cipher under each of its key sizes.\<close>

definition aes_blocks :: "(bytes \<Rightarrow> block_cipher) \<Rightarrow> bool" where
  "aes_blocks aes \<longleftrightarrow> (\<forall>key blk. NewCipher aes key = Some blk \<longrightarrow> block_size_16 blk)"

lemma length_gcm_keystream:
  assumes "block_size_16 blk" "length nonce = 12"
  shows "length (gcm_keystream blk nonce n) = 16 * n"
  using assms by (induction n) (auto simp: gcm_keystream_def block_size_16_def)

lemma gcm_covers:
  "block_size_16 blk \<Longrightarrow> length nonce = 12 \<Longrightarrow> length src \<le> length (gcm_keystream blk nonce ((length src + 15) div 16))"
  by (simp add: length_gcm_keystream)

lemma length_gcm_crypt [simp]:
  "block_size_16 blk \<Longrightarrow> length nonce = 12 \<Longrightarrow> length (gcm_crypt blk nonce src) = length src"
  using gcm_covers [of blk nonce src] by (simp add: gcm_crypt_def)

lemma gcm_crypt_twice:
  assumes "block_size_16 blk" "length nonce = 12"
  shows "gcm_crypt blk nonce (gcm_crypt blk nonce src) = src"
proof -
  have "length (gcm_crypt blk nonce src) = length src" using assms by simp
  then show ?thesis
    using map2_xor_twice [OF gcm_covers [OF assms, of src]] by (simp add: gcm_crypt_def)
qed

lemma length_gcm_tag [simp]: "length (gcm_tag blk nonce ct) = 16"
  by (simp add: gcm_tag_def Let_def)

lemma gcm_Open_Seal:
  "block_size_16 blk \<Longrightarrow> length nonce = 12 \<Longrightarrow> gcm_Open blk nonce (gcm_Seal blk nonce plaintext) = Some plaintext"
  by (simp add: gcm_Open_def gcm_Seal_def Let_def gcm_crypt_twice)

text \<open>What \<open>Open\<close> accepts is a sealed message: it is the sealing of what it answers.\<close>

lemma gcm_Seal_Open:
  assumes "block_size_16 blk" "length nonce = 12" "gcm_Open blk nonce c = Some p"
  shows "c = gcm_Seal blk nonce p"
  using assms
  by (auto simp: gcm_Open_def gcm_Seal_def Let_def gcm_crypt_twice split: if_splits)

subsection \<open>Strings as bytes\<close>

definition utf8_rune :: "rune \<Rightarrow> bytes" where
  "utf8_rune r =
     (if r < 0x80 then [of_nat r]
      else if r < 0x800 then [of_nat (0xC0 + r div 64), of_nat (0x80 + r mod 64)]
      else if 0x10FFFF < r \<or> 0xD800 \<le> r \<and> r < 0xE000 then [0xEF, 0xBF, 0xBD]
      else if r < 0x10000 then [of_nat (0xE0 + r div 4096), of_nat (0x80 + r div 64 mod 64), of_nat (0x80 + r mod 64)]
      else [of_nat (0xF0 + r div 262144), of_nat (0x80 + r div 4096 mod 64), of_nat (0x80 + r div 64 mod 64),
            of_nat (0x80 + r mod 64)])"

definition utf8 :: "gotext \<Rightarrow> bytes" where
  "utf8 s = concat (map utf8_rune s)"

fun IndexByte :: "bytes \<Rightarrow> byte \<Rightarrow> nat option" where
  "IndexByte [] c = None"
| "IndexByte (b # bs) c = (if b = c then Some 0 else map_option Suc (IndexByte bs c))"

lemma IndexByte_first: "c \<notin> set xs \<Longrightarrow> IndexByte (xs @ c # ys) c = Some (length xs)"
  by (induction xs) auto

lemma IndexByte_Some: "IndexByte bs c = Some i \<Longrightarrow> i < length bs \<and> bs = take i bs @ c # drop (Suc i) bs \<and> c \<notin> set (take i bs)"
  by (induction bs arbitrary: i) (auto split: if_splits)

lemma byte_of_nat_eq: "n < 256 \<Longrightarrow> m < 256 \<Longrightarrow> (of_nat n :: byte) = of_nat m \<longleftrightarrow> n = m"
  by (metis mod_less unat_byte)

lemma byte_of_nat_neq: "m < 128 \<Longrightarrow> 128 \<le> n \<Longrightarrow> n < 256 \<Longrightarrow> (of_nat m :: byte) \<noteq> of_nat n"
  by (simp add: byte_of_nat_eq)

text \<open>An ASCII byte occurs in the UTF-8 form exactly where the rune does.\<close>

lemma utf8_rune_ascii:
  assumes "m < 128"
  shows "of_nat m \<in> set (utf8_rune r) \<longleftrightarrow> r = m"
proof -
  have neq: "(of_nat m :: byte) \<noteq> of_nat n" if "128 \<le> n" "n < 256" for n
    using assms that by (rule byte_of_nat_neq)
  have c: "(of_nat m :: byte) \<noteq> 0xEF" "(of_nat m :: byte) \<noteq> 0xBF" "(of_nat m :: byte) \<noteq> 0xBD"
    using neq [of 239] neq [of 191] neq [of 189] by simp_all
  have t: "(of_nat m :: byte) \<noteq> of_nat (0x80 + a mod 64)" for a
    by (rule neq) (use mod_less_divisor [of 64 a] in linarith)+
  consider "r < 0x80" | "0x80 \<le> r" "r < 0x800" | "0x800 \<le> r" "0x10FFFF < r \<or> 0xD800 \<le> r \<and> r < 0xE000"
    | "0x800 \<le> r" "r < 0x10000" "\<not> (0x10FFFF < r \<or> 0xD800 \<le> r \<and> r < 0xE000)"
    | "0x10000 \<le> r" "\<not> (0x10FFFF < r \<or> 0xD800 \<le> r \<and> r < 0xE000)"
    by linarith
  then show ?thesis
  proof cases
    case 1
    then show ?thesis using assms by (auto simp: utf8_rune_def byte_of_nat_eq)
  next
    case 2
    moreover have "(of_nat m :: byte) \<noteq> of_nat (0xC0 + r div 64)" by (rule neq) (use 2 in linarith)+
    ultimately show ?thesis using assms t [of r] by (simp add: utf8_rune_def)
  next
    case 3
    then show ?thesis using assms c by (auto simp: utf8_rune_def)
  next
    case 4
    moreover have "(of_nat m :: byte) \<noteq> of_nat (0xE0 + r div 4096)" by (rule neq) (use 4 in linarith)+
    ultimately show ?thesis using assms t [of r] t [of "r div 64"] by (auto simp: utf8_rune_def simp del: of_nat_add)
  next
    case 5
    moreover have "(of_nat m :: byte) \<noteq> of_nat (0xF0 + r div 262144)" by (rule neq) (use 5 in linarith)+
    ultimately show ?thesis using assms t [of r] t [of "r div 64"] t [of "r div 4096"]
      by (auto simp: utf8_rune_def simp del: of_nat_add)
  qed
qed

lemma utf8_ascii: "m < 128 \<Longrightarrow> of_nat m \<in> set (utf8 s) \<longleftrightarrow> m \<in> set s"
  by (auto simp: utf8_def utf8_rune_ascii)

subsection \<open>Base64 text as bytes\<close>

lemma base64_ascii: "r \<in> set (base64_EncodeToString bs) \<Longrightarrow> r < 128 \<and> r \<noteq> 124"
proof -
  have c: "b64_char n < 128 \<and> b64_char n \<noteq> 124" if "n < 64" for n
    using that by (auto simp: b64_char_def)
  show "r \<in> set (base64_EncodeToString bs) \<Longrightarrow> r < 128 \<and> r \<noteq> 124"
    by (induction bs rule: base64_EncodeToString.induct) (auto simp: c)
qed

lemma base64_as_bytes:
  "map unat (map of_nat (base64_EncodeToString bs) :: bytes) = base64_EncodeToString bs"
  by (simp add: map_idI base64_ascii less_imp_le_nat order.strict_trans2 comp_def)
    (intro map_idI, use base64_ascii in fastforce)

lemma b64_quads_alphabet: "b64_quads s = Some bs \<Longrightarrow> c \<in> set s \<Longrightarrow> b64_val c \<noteq> None \<or> c = 61"
  by (induction s arbitrary: bs rule: b64_quads.induct) (auto split: option.splits if_splits)

lemma base64_alphabet: "base64_DecodeString s = Some bs \<Longrightarrow> 124 \<notin> set s"
  using b64_quads_alphabet [of "filter (\<lambda>c. c \<noteq> 10 \<and> c \<noteq> 13) s" bs 124]
  by (auto simp: base64_DecodeString_def b64_val_def)

end
