(* ===== verification/Privacy.thy ===== *)
theory Privacy
  imports GoGcm Gorm
begin

text \<open>
  Field and file encryption of the manager (\<open>src/manager/backend/privacy\<close>): \<open>cipher.go\<close> with the ciphertext format
  \<open>v1|<key id>|<base64>\<close>, and \<open>service.go\<close> with one data key per device, wrapped by the master key and stored in a
  table, and a cache of unwrapped keys in every process. Strings and slices are bytes; what \<open>rand.Reader\<close>
  answers (\<open>None\<close> when it fails) is an argument. The table is used through the interface of theory \<open>Gorm\<close>.
\<close>

subsection \<open>Ciphertexts\<close>

datatype privacy_error =
    NoAES | NonceUnread | TooShort | OpenFailed | NotCiphertext | BadFormat | BadBase64
  | KekLength | DekLength | UnwrappedLength | DekUnread
  | DeviceIdInvalid | KekMissing | StoreError gorm_error | UnwrapFailed privacy_error | SaveFailed gorm_error
  | NotInitialised | MigrationNeedsKek | EnvMissing | EnvNotBase64 | EnvLength nat | EnabledWithoutKek privacy_error

definition CipherPrefix :: bytes where "CipherPrefix = utf8 (lit ''v1|'')"

definition nonceSize :: nat where "nonceSize = 12"

definition bar :: byte where "bar = of_nat 124"

definition IsCiphertext :: "bytes \<Rightarrow> bool" where
  "IsCiphertext s \<longleftrightarrow> take (length CipherPrefix) s = CipherPrefix"

definition formatCiphertext :: "gotext \<Rightarrow> bytes \<Rightarrow> bytes" where
  "formatCiphertext keyID raw =
     (let keyID1 = trim_space keyID;
          keyID2 = (if keyID1 = [] then lit ''k1'' else keyID1)
      in CipherPrefix @ utf8 keyID2 @ [bar] @ map of_nat (base64_EncodeToString raw))"

definition parseCiphertext :: "bytes \<Rightarrow> privacy_error + bytes" where
  "parseCiphertext s =
     (if \<not> IsCiphertext s then Inl NotCiphertext
      else let rest = drop (length CipherPrefix) s in
        (case IndexByte rest bar of
           None \<Rightarrow> Inl BadFormat
         | Some idx \<Rightarrow>
             if idx = length rest - 1 then Inl BadFormat
             else (case base64_DecodeString (map unat (drop (idx + 1) rest)) of
                     None \<Rightarrow> Inl BadBase64
                   | Some raw \<Rightarrow> Inr raw)))"

text \<open>\<open>cipher.NewGCM\<close> of an AES block has the nonce size 12, so neither it nor the check after it fails.\<close>

definition encryptBytes :: "(bytes \<Rightarrow> block_cipher) \<Rightarrow> bytes option \<Rightarrow> bytes \<Rightarrow> bytes \<Rightarrow> privacy_error + bytes" where
  "encryptBytes aes rnd key plaintext =
     (case NewCipher aes key of
        None \<Rightarrow> Inl NoAES
      | Some block \<Rightarrow>
          (case rnd of
             None \<Rightarrow> Inl NonceUnread
           | Some nonce \<Rightarrow> Inr (nonce @ gcm_Seal block nonce plaintext)))"

definition decryptBytes :: "(bytes \<Rightarrow> block_cipher) \<Rightarrow> bytes \<Rightarrow> bytes \<Rightarrow> privacy_error + bytes" where
  "decryptBytes aes key raw =
     (if length raw < nonceSize + 16 then Inl TooShort
      else (case NewCipher aes key of
              None \<Rightarrow> Inl NoAES
            | Some block \<Rightarrow>
                (case gcm_Open block (take nonceSize raw) (drop nonceSize raw) of
                   None \<Rightarrow> Inl OpenFailed
                 | Some plain \<Rightarrow> Inr plain)))"

definition privacy_Encrypt :: "(bytes \<Rightarrow> block_cipher) \<Rightarrow> bytes option \<Rightarrow> bytes \<Rightarrow> gotext \<Rightarrow> bytes \<Rightarrow> privacy_error + bytes" where
  "privacy_Encrypt aes rnd dek keyID plaintext =
     (if plaintext = [] then Inr []
      else case encryptBytes aes rnd dek plaintext of Inl e \<Rightarrow> Inl e | Inr raw \<Rightarrow> Inr (formatCiphertext keyID raw))"

definition privacy_Decrypt :: "(bytes \<Rightarrow> block_cipher) \<Rightarrow> bytes \<Rightarrow> bytes \<Rightarrow> privacy_error + bytes" where
  "privacy_Decrypt aes dek ciphertext =
     (if ciphertext = [] then Inr []
      else if \<not> IsCiphertext ciphertext then Inr ciphertext
      else case parseCiphertext ciphertext of
             Inl e \<Rightarrow> Inl e
           | Inr raw \<Rightarrow> (case decryptBytes aes dek raw of Inl e \<Rightarrow> Inl e | Inr plain \<Rightarrow> Inr plain))"

definition EncryptBytes :: "(bytes \<Rightarrow> block_cipher) \<Rightarrow> bytes option \<Rightarrow> bytes \<Rightarrow> gotext \<Rightarrow> bytes \<Rightarrow> privacy_error + bytes" where
  "EncryptBytes aes rnd dek keyID plain =
     (if length plain = 0 then Inr []
      else case encryptBytes aes rnd dek plain of Inl e \<Rightarrow> Inl e | Inr raw \<Rightarrow> Inr (formatCiphertext keyID raw))"

definition DecryptBytes :: "(bytes \<Rightarrow> block_cipher) \<Rightarrow> bytes \<Rightarrow> bytes \<Rightarrow> privacy_error + bytes" where
  "DecryptBytes aes dek data =
     (if length data = 0 then Inr data
      else if \<not> IsCiphertext data then Inr data
      else case parseCiphertext data of Inl e \<Rightarrow> Inl e | Inr raw \<Rightarrow> decryptBytes aes dek raw)"

definition WrapDEK :: "(bytes \<Rightarrow> block_cipher) \<Rightarrow> bytes option \<Rightarrow> bytes \<Rightarrow> bytes \<Rightarrow> privacy_error + bytes" where
  "WrapDEK aes rnd kek dek =
     (if length kek \<noteq> 32 then Inl KekLength
      else if length dek \<noteq> 32 then Inl DekLength
      else case encryptBytes aes rnd kek dek of
             Inl e \<Rightarrow> Inl e
           | Inr raw \<Rightarrow> Inr (formatCiphertext (lit ''wrap'') raw))"

definition UnwrapDEK :: "(bytes \<Rightarrow> block_cipher) \<Rightarrow> bytes \<Rightarrow> bytes \<Rightarrow> privacy_error + bytes" where
  "UnwrapDEK aes kek wrapped =
     (if length kek \<noteq> 32 then Inl KekLength
      else case parseCiphertext wrapped of
             Inl e \<Rightarrow> Inl e
           | Inr raw \<Rightarrow>
               (case decryptBytes aes kek raw of
                  Inl e \<Rightarrow> Inl e
                | Inr dek \<Rightarrow> if length dek \<noteq> 32 then Inl UnwrappedLength else Inr dek))"

definition GenerateDEK :: "bytes option \<Rightarrow> privacy_error + bytes" where
  "GenerateDEK rnd = (case rnd of None \<Rightarrow> Inl DekUnread | Some dek \<Rightarrow> Inr dek)"

text \<open>\<open>io.ReadFull(rand.Reader, buf)\<close> fills the whole buffer or fails.\<close>

definition draw_of :: "nat \<Rightarrow> bytes option \<Rightarrow> bool" where
  "draw_of n rnd \<longleftrightarrow> (case rnd of None \<Rightarrow> True | Some bs \<Rightarrow> length bs = n)"

subsection \<open>The format reads back\<close>

lemma CipherPrefix_eq: "CipherPrefix = [118, 49, 124]"
  by (simp add: CipherPrefix_def utf8_def lit_def utf8_rune_def)

lemma Is_format [simp]: "IsCiphertext (formatCiphertext keyID raw)"
  by (simp add: IsCiphertext_def formatCiphertext_def Let_def)

lemma format_not_Nil [simp]: "formatCiphertext keyID raw \<noteq> []"
  by (simp add: formatCiphertext_def Let_def)

text \<open>The key id must not hold the separator: a ciphertext written with such an id cannot be parsed.\<close>

lemma k1_no_bar: "124 \<notin> set (lit ''k1'')"
  by (simp add: lit_def)

lemma parse_format:
  assumes "124 \<notin> set (trim_space keyID)" "raw \<noteq> []"
  shows "parseCiphertext (formatCiphertext keyID raw) = Inr raw"
proof -
  define k where "k = (if trim_space keyID = [] then lit ''k1'' else trim_space keyID)"
  define b where "b = (map of_nat (base64_EncodeToString raw) :: bytes)"
  have "124 \<notin> set k" using assms(1) k1_no_bar by (simp add: k_def)
  then have "bar \<notin> set (utf8 k)" by (simp add: bar_def utf8_ascii del: of_nat_numeral)
  then have i: "IndexByte (utf8 k @ bar # b) bar = Some (length (utf8 k))" by (rule IndexByte_first)
  have "b \<noteq> []" using assms(2) by (simp add: b_def)
  moreover have "map unat b = base64_EncodeToString raw" using base64_as_bytes [of raw] by (simp add: b_def)
  moreover have f: "formatCiphertext keyID raw = CipherPrefix @ utf8 k @ bar # b"
    by (simp add: formatCiphertext_def Let_def k_def b_def)
  moreover have "IsCiphertext (CipherPrefix @ utf8 k @ bar # b)" by (simp add: IsCiphertext_def)
  ultimately show ?thesis by (simp add: parseCiphertext_def Let_def i)
qed

lemma parse_format_bar:
  assumes "124 \<in> set (trim_space keyID)"
  shows "\<exists>e. parseCiphertext (formatCiphertext keyID raw) = Inl e"
proof -
  define k where "k = trim_space keyID"
  define b where "b = (map of_nat (base64_EncodeToString raw) :: bytes)"
  have "k \<noteq> []" using assms by (auto simp: k_def)
  then have f: "formatCiphertext keyID raw = CipherPrefix @ utf8 k @ bar # b"
    by (simp add: formatCiphertext_def Let_def k_def b_def)
  have "bar \<in> set (utf8 k)" using assms by (simp add: bar_def k_def utf8_ascii del: of_nat_numeral)
  then obtain xs ys where k: "utf8 k = xs @ bar # ys" "bar \<notin> set xs" by (meson split_list_first)
  then have "IndexByte (utf8 k @ bar # b) bar = Some (length xs)" using IndexByte_first [of bar xs "ys @ bar # b"] by simp
  moreover have "base64_DecodeString (map unat (ys @ bar # b)) = None"
    using base64_alphabet [of "map unat (ys @ bar # b)"] by (cases "base64_DecodeString (map unat (ys @ bar # b))") (auto simp: bar_def)
  moreover have "IsCiphertext (CipherPrefix @ utf8 k @ bar # b)" by (simp add: IsCiphertext_def)
  ultimately show ?thesis by (simp add: parseCiphertext_def Let_def f k)
qed

lemma encrypt_decryptBytes:
  assumes "aes_blocks aes" "draw_of 12 rnd" "encryptBytes aes rnd key plaintext = Inr raw"
  shows "decryptBytes aes key raw = Inr plaintext \<and> 28 \<le> length raw"
proof -
  obtain block nonce where b: "NewCipher aes key = Some block" "rnd = Some nonce" "raw = nonce @ gcm_Seal block nonce plaintext"
    using assms(3) by (auto simp: encryptBytes_def split: option.splits)
  moreover have "block_size_16 block" using assms(1) b(1) by (auto simp: aes_blocks_def)
  moreover have "length nonce = 12" using assms(2) b(2) by (simp add: draw_of_def)
  ultimately show ?thesis
    by (simp add: decryptBytes_def nonceSize_def gcm_Open_Seal) (simp add: gcm_Seal_def Let_def)
qed

lemma Decrypt_Encrypt:
  assumes "aes_blocks aes" "draw_of 12 rnd" "privacy_Encrypt aes rnd dek keyID p = Inr c" "124 \<notin> set (trim_space keyID)"
  shows "privacy_Decrypt aes dek c = Inr p"
proof (cases "p = []")
  case True
  then show ?thesis using assms(3) by (simp add: privacy_Encrypt_def privacy_Decrypt_def)
next
  case False
  then obtain raw where "encryptBytes aes rnd dek p = Inr raw" "c = formatCiphertext keyID raw"
    using assms(3) by (auto simp: privacy_Encrypt_def split: sum.splits)
  then show ?thesis
    using encrypt_decryptBytes [OF assms(1,2)] parse_format [OF assms(4), of raw]
    by (fastforce simp: privacy_Decrypt_def)
qed

lemma DecryptBytes_Encrypt:
  assumes "aes_blocks aes" "draw_of 12 rnd" "EncryptBytes aes rnd dek keyID p = Inr c" "124 \<notin> set (trim_space keyID)"
  shows "DecryptBytes aes dek c = Inr p"
proof -
  have "EncryptBytes aes rnd dek keyID p = privacy_Encrypt aes rnd dek keyID p" by (simp add: EncryptBytes_def privacy_Encrypt_def)
  moreover have "DecryptBytes aes dek c = privacy_Decrypt aes dek c" by (auto simp: DecryptBytes_def privacy_Decrypt_def split: sum.splits)
  ultimately show ?thesis using Decrypt_Encrypt [of aes rnd dek keyID p c] assms by simp
qed

lemma Unwrap_Wrap:
  assumes "aes_blocks aes" "draw_of 12 rnd" "WrapDEK aes rnd kek dek = Inr w"
  shows "UnwrapDEK aes kek w = Inr dek \<and> length dek = 32"
proof -
  obtain raw where r: "encryptBytes aes rnd kek dek = Inr raw" "w = formatCiphertext (lit ''wrap'') raw"
      "length kek = 32" "length dek = 32"
    using assms(3) by (auto simp: WrapDEK_def split: sum.splits if_splits)
  have "124 \<notin> set (trim_space (lit ''wrap''))" by (simp add: lit_def trim_space_def is_space_code)
  then show ?thesis
    using encrypt_decryptBytes [OF assms(1,2) r(1)] parse_format [of "lit ''wrap''" raw] r
    by (fastforce simp: UnwrapDEK_def)
qed

end
