(* ===== verification/PrivacyService.thy ===== *)
theory PrivacyService
  imports Privacy
begin

text \<open>
  \<open>service.go\<close> of the privacy package: the data keys of the devices and the operations on texts and files. Any
  number of processes (the server, the migration command) with the same master key share the table; each has
  its own cache. \<open>getOrCreateDEK\<close> is given twice, as one call and as the steps between which other calls run.
\<close>

subsection \<open>Data\<close>

record privacy_config =
  pc_Enabled :: bool
  pc_KeyID :: gotext
  pc_KEK :: bytes

record DeviceEncryptionKey =
  ek_ID :: nat
  ek_DeviceID :: nat
  ek_KeyID :: gotext
  ek_WrappedDEK :: bytes

text \<open>\<open>Service\<close>; the database handle is the connection state \<open>sv_db\<close>. A nil pointer is \<open>None\<close>.\<close>

record 'db privacy_service =
  sv_db :: 'db
  sv_cfg :: privacy_config
  sv_dekCache :: "nat \<Rightarrow> bytes option"

definition LoadKEKFromEnv :: "gotext \<Rightarrow> privacy_error + bytes" where
  "LoadKEKFromEnv env =
     (let raw = trim_space env in
      if raw = [] then Inl EnvMissing
      else case base64_DecodeString raw of
             None \<Rightarrow> Inl EnvNotBase64
           | Some decoded \<Rightarrow> if length decoded \<noteq> 32 then Inl (EnvLength (length decoded)) else Inr decoded)"

definition NewService :: "gotext \<Rightarrow> 'db \<Rightarrow> privacy_config \<Rightarrow> privacy_error + 'db privacy_service" where
  "NewService env db cfg =
     (let cfg1 = (if pc_KeyID cfg = [] then cfg\<lparr>pc_KeyID := lit ''k1''\<rparr> else cfg);
          loaded = (if length (pc_KEK cfg1) = 0
                    then (case LoadKEKFromEnv env of
                            Inr kek \<Rightarrow> Inr (cfg1\<lparr>pc_KEK := kek\<rparr>)
                          | Inl err \<Rightarrow> if pc_Enabled cfg1 then Inl (EnabledWithoutKek err) else Inr cfg1)
                    else Inr cfg1)
      in case loaded of
           Inl e \<Rightarrow> Inl e
         | Inr cfg2 \<Rightarrow>
             if pc_Enabled cfg2 \<and> length (pc_KEK cfg2) \<noteq> 32 then Inl KekLength
             else Inr \<lparr>sv_db = db, sv_cfg = cfg2, sv_dekCache = (\<lambda>_. None)\<rparr>)"

definition privacy_Enabled :: "'db privacy_service option \<Rightarrow> bool" where
  "privacy_Enabled s = (case s of None \<Rightarrow> False | Some sv \<Rightarrow> pc_Enabled (sv_cfg sv))"

definition privacy_KeyID :: "'db privacy_service option \<Rightarrow> gotext" where
  "privacy_KeyID s = (case s of None \<Rightarrow> lit ''k1''
     | Some sv \<Rightarrow> if pc_KeyID (sv_cfg sv) = [] then lit ''k1'' else pc_KeyID (sv_cfg sv))"

text \<open>What the random source answers to the draws of one call, in their order.\<close>

record draws =
  dr_dek :: "bytes option"
  dr_wrap :: "bytes option"
  dr_nonce :: "bytes option"

definition draws_ok :: "draws \<Rightarrow> bool" where
  "draws_ok r \<longleftrightarrow> draw_of 32 (dr_dek r) \<and> draw_of 12 (dr_wrap r) \<and> draw_of 12 (dr_nonce r)"

abbreviation for_device :: "nat \<Rightarrow> DeviceEncryptionKey \<Rightarrow> bool" where
  "for_device d r \<equiv> ek_DeviceID r = d"

subsection \<open>\<open>getOrCreateDEK\<close>\<close>

definition cache_store :: "nat \<Rightarrow> bytes \<Rightarrow> 'db privacy_service \<Rightarrow> 'db privacy_service" where
  "cache_store d dek s = s\<lparr>sv_dekCache := (sv_dekCache s)(d \<mapsto> dek)\<rparr>"

definition reread_DEK :: "(DeviceEncryptionKey, 'db) table_ops \<Rightarrow> (bytes \<Rightarrow> block_cipher) \<Rightarrow> nat \<Rightarrow> gorm_error
    \<Rightarrow> 'db privacy_service \<Rightarrow> (privacy_error + bytes) \<times> 'db privacy_service" where
  "reread_DEK T aes d err s =
     (let (r, db') = t_first T (for_device d) (sv_db s); s1 = s\<lparr>sv_db := db'\<rparr> in
      case r of
        Inr existing \<Rightarrow>
          (case UnwrapDEK aes (pc_KEK (sv_cfg s)) (ek_WrappedDEK existing) of
             Inl e \<Rightarrow> (Inl e, s1)
           | Inr dek2 \<Rightarrow> (Inr dek2, cache_store d dek2 s1))
      | Inl e2 \<Rightarrow> (Inl (SaveFailed err), s1))"

definition create_DEK :: "(DeviceEncryptionKey, 'db) table_ops \<Rightarrow> (bytes \<Rightarrow> block_cipher) \<Rightarrow> draws \<Rightarrow> nat
    \<Rightarrow> 'db privacy_service \<Rightarrow> (privacy_error + bytes) \<times> 'db privacy_service" where
  "create_DEK T aes rnd d s =
     (case GenerateDEK (dr_dek rnd) of
        Inl e \<Rightarrow> (Inl e, s)
      | Inr dek \<Rightarrow>
          (case WrapDEK aes (dr_wrap rnd) (pc_KEK (sv_cfg s)) dek of
             Inl e \<Rightarrow> (Inl e, s)
           | Inr wrapped \<Rightarrow>
               (let row = \<lparr>ek_ID = 0, ek_DeviceID = d, ek_KeyID = privacy_KeyID (Some s), ek_WrappedDEK = wrapped\<rparr>;
                    (r, db') = t_create T row (sv_db s); s1 = s\<lparr>sv_db := db'\<rparr> in
                case r of
                  Inl err \<Rightarrow> reread_DEK T aes d err s1
                | Inr _ \<Rightarrow> (Inr dek, cache_store d dek s1))))"

definition getOrCreateDEK :: "(DeviceEncryptionKey, 'db) table_ops \<Rightarrow> (bytes \<Rightarrow> block_cipher) \<Rightarrow> draws \<Rightarrow> nat
    \<Rightarrow> 'db privacy_service \<Rightarrow> (privacy_error + bytes) \<times> 'db privacy_service" where
  "getOrCreateDEK T aes rnd d s =
     (if d = 0 then (Inl DeviceIdInvalid, s)
      else if length (pc_KEK (sv_cfg s)) \<noteq> 32 then (Inl KekMissing, s)
      else case sv_dekCache s d of
             Some dek \<Rightarrow> (Inr dek, s)
           | None \<Rightarrow>
               (let (r, db') = t_first T (for_device d) (sv_db s); s1 = s\<lparr>sv_db := db'\<rparr> in
                case r of
                  Inr row \<Rightarrow>
                    (case UnwrapDEK aes (pc_KEK (sv_cfg s)) (ek_WrappedDEK row) of
                       Inl e \<Rightarrow> (Inl (UnwrapFailed e), s1)
                     | Inr dek \<Rightarrow> (Inr dek, cache_store d dek s1))
                | Inl err \<Rightarrow>
                    if err \<noteq> ErrRecordNotFound then (Inl (StoreError err), s1)
                    else create_DEK T aes rnd d s1))"

subsection \<open>Texts and files\<close>

definition EncryptText :: "(DeviceEncryptionKey, 'db) table_ops \<Rightarrow> (bytes \<Rightarrow> block_cipher) \<Rightarrow> draws \<Rightarrow> nat \<Rightarrow> bytes
    \<Rightarrow> 'db privacy_service option \<Rightarrow> (privacy_error + bytes) \<times> 'db privacy_service option" where
  "EncryptText T aes rnd d plaintext s =
     (if plaintext = [] then (Inr [], s)
      else case s of
             None \<Rightarrow> (Inr plaintext, s)
           | Some sv \<Rightarrow>
               if \<not> pc_Enabled (sv_cfg sv) then (Inr plaintext, s)
               else (case getOrCreateDEK T aes rnd d sv of
                       (Inl e, sv1) \<Rightarrow> (Inl e, Some sv1)
                     | (Inr dek, sv1) \<Rightarrow> (privacy_Encrypt aes (dr_nonce rnd) dek (privacy_KeyID (Some sv1)) plaintext, Some sv1)))"

definition DecryptText :: "(DeviceEncryptionKey, 'db) table_ops \<Rightarrow> (bytes \<Rightarrow> block_cipher) \<Rightarrow> draws \<Rightarrow> nat \<Rightarrow> bytes
    \<Rightarrow> 'db privacy_service option \<Rightarrow> (privacy_error + bytes) \<times> 'db privacy_service option" where
  "DecryptText T aes rnd d text1 s =
     (if text1 = [] then (Inr [], s)
      else if \<not> IsCiphertext text1 then (Inr text1, s)
      else case s of
             None \<Rightarrow> (Inl NotInitialised, s)
           | Some sv \<Rightarrow>
               (case getOrCreateDEK T aes rnd d sv of
                  (Inl e, sv1) \<Rightarrow> (Inl e, Some sv1)
                | (Inr dek, sv1) \<Rightarrow> (privacy_Decrypt aes dek text1, Some sv1)))"

definition EncryptFileBytes :: "(DeviceEncryptionKey, 'db) table_ops \<Rightarrow> (bytes \<Rightarrow> block_cipher) \<Rightarrow> draws \<Rightarrow> nat \<Rightarrow> bytes
    \<Rightarrow> 'db privacy_service option \<Rightarrow> (privacy_error + bytes) \<times> 'db privacy_service option" where
  "EncryptFileBytes T aes rnd d plain s =
     (if length plain = 0 then (Inr plain, s)
      else case s of
             None \<Rightarrow> (Inr plain, s)
           | Some sv \<Rightarrow>
               if \<not> pc_Enabled (sv_cfg sv) then (Inr plain, s)
               else (case getOrCreateDEK T aes rnd d sv of
                       (Inl e, sv1) \<Rightarrow> (Inl e, Some sv1)
                     | (Inr dek, sv1) \<Rightarrow> (EncryptBytes aes (dr_nonce rnd) dek (privacy_KeyID (Some sv1)) plain, Some sv1)))"

definition DecryptFileBytes :: "(DeviceEncryptionKey, 'db) table_ops \<Rightarrow> (bytes \<Rightarrow> block_cipher) \<Rightarrow> draws \<Rightarrow> nat \<Rightarrow> bytes
    \<Rightarrow> 'db privacy_service option \<Rightarrow> (privacy_error + bytes) \<times> 'db privacy_service option" where
  "DecryptFileBytes T aes rnd d data s =
     (if length data = 0 then (Inr data, s)
      else if \<not> IsCiphertext data then (Inr data, s)
      else case s of
             None \<Rightarrow> (Inl NotInitialised, s)
           | Some sv \<Rightarrow>
               (case getOrCreateDEK T aes rnd d sv of
                  (Inl e, sv1) \<Rightarrow> (Inl e, Some sv1)
                | (Inr dek, sv1) \<Rightarrow> (DecryptBytes aes dek data, Some sv1)))"

definition EncryptExistingText :: "(DeviceEncryptionKey, 'db) table_ops \<Rightarrow> (bytes \<Rightarrow> block_cipher) \<Rightarrow> draws \<Rightarrow> nat \<Rightarrow> bytes
    \<Rightarrow> 'db privacy_service option \<Rightarrow> (privacy_error + bytes) \<times> 'db privacy_service option" where
  "EncryptExistingText T aes rnd d plaintext s =
     (if plaintext = [] \<or> IsCiphertext plaintext then (Inr plaintext, s)
      else case s of
             None \<Rightarrow> (Inl MigrationNeedsKek, s)
           | Some sv \<Rightarrow>
               if length (pc_KEK (sv_cfg sv)) \<noteq> 32 then (Inl MigrationNeedsKek, s)
               else (case getOrCreateDEK T aes rnd d sv of
                       (Inl e, sv1) \<Rightarrow> (Inl e, Some sv1)
                     | (Inr dek, sv1) \<Rightarrow> (privacy_Encrypt aes (dr_nonce rnd) dek (privacy_KeyID (Some sv1)) plaintext, Some sv1)))"

definition EncryptExistingFileBytes :: "(DeviceEncryptionKey, 'db) table_ops \<Rightarrow> (bytes \<Rightarrow> block_cipher) \<Rightarrow> draws \<Rightarrow> nat \<Rightarrow> bytes
    \<Rightarrow> 'db privacy_service option \<Rightarrow> (privacy_error + bytes) \<times> 'db privacy_service option" where
  "EncryptExistingFileBytes T aes rnd d plain s =
     (if length plain = 0 \<or> IsCiphertext plain then (Inr plain, s)
      else case s of
             None \<Rightarrow> (Inl MigrationNeedsKek, s)
           | Some sv \<Rightarrow>
               if length (pc_KEK (sv_cfg sv)) \<noteq> 32 then (Inl MigrationNeedsKek, s)
               else (case getOrCreateDEK T aes rnd d sv of
                       (Inl e, sv1) \<Rightarrow> (Inl e, Some sv1)
                     | (Inr dek, sv1) \<Rightarrow> (EncryptBytes aes (dr_nonce rnd) dek (privacy_KeyID (Some sv1)) plain, Some sv1)))"

subsection \<open>Calls in steps\<close>

text \<open>
  One call of \<open>getOrCreateDEK\<close> between its accesses to shared state: the guards and the cache under the mutex, the
  query, the insertion (with the key already drawn and wrapped), the query after a failed insertion, the
  store into the cache. \<open>Killed\<close>: its process ended.
\<close>

datatype dek_pc =
    AtCache nat draws
  | AtQuery nat draws
  | AtCreate nat draws
  | AtReread nat gorm_error
  | AtStore nat bytes
  | DekDone nat "privacy_error + bytes"
  | DekKilled

definition dek_step :: "(DeviceEncryptionKey, 'db) table_ops \<Rightarrow> (bytes \<Rightarrow> block_cipher) \<Rightarrow> dek_pc \<Rightarrow> 'db privacy_service
    \<Rightarrow> dek_pc \<times> 'db privacy_service" where
  "dek_step T aes pc s =
     (case pc of
        AtCache d rnd \<Rightarrow>
          if d = 0 then (DekDone d (Inl DeviceIdInvalid), s)
          else if length (pc_KEK (sv_cfg s)) \<noteq> 32 then (DekDone d (Inl KekMissing), s)
          else (case sv_dekCache s d of Some dek \<Rightarrow> (DekDone d (Inr dek), s) | None \<Rightarrow> (AtQuery d rnd, s))
      | AtQuery d rnd \<Rightarrow>
          (let (r, db') = t_first T (for_device d) (sv_db s); s1 = s\<lparr>sv_db := db'\<rparr> in
           case r of
             Inr row \<Rightarrow>
               (case UnwrapDEK aes (pc_KEK (sv_cfg s)) (ek_WrappedDEK row) of
                  Inl e \<Rightarrow> (DekDone d (Inl (UnwrapFailed e)), s1)
                | Inr dek \<Rightarrow> (AtStore d dek, s1))
           | Inl err \<Rightarrow> if err \<noteq> ErrRecordNotFound then (DekDone d (Inl (StoreError err)), s1) else (AtCreate d rnd, s1))
      | AtCreate d rnd \<Rightarrow>
          (case GenerateDEK (dr_dek rnd) of
             Inl e \<Rightarrow> (DekDone d (Inl e), s)
           | Inr dek \<Rightarrow>
               (case WrapDEK aes (dr_wrap rnd) (pc_KEK (sv_cfg s)) dek of
                  Inl e \<Rightarrow> (DekDone d (Inl e), s)
                | Inr wrapped \<Rightarrow>
                    (let row = \<lparr>ek_ID = 0, ek_DeviceID = d, ek_KeyID = privacy_KeyID (Some s), ek_WrappedDEK = wrapped\<rparr>;
                         (r, db') = t_create T row (sv_db s); s1 = s\<lparr>sv_db := db'\<rparr> in
                     case r of Inl err \<Rightarrow> (AtReread d err, s1) | Inr _ \<Rightarrow> (AtStore d dek, s1))))
      | AtReread d err \<Rightarrow>
          (let (r, db') = t_first T (for_device d) (sv_db s); s1 = s\<lparr>sv_db := db'\<rparr> in
           case r of
             Inr existing \<Rightarrow>
               (case UnwrapDEK aes (pc_KEK (sv_cfg s)) (ek_WrappedDEK existing) of
                  Inl e \<Rightarrow> (DekDone d (Inl e), s1)
                | Inr dek2 \<Rightarrow> (AtStore d dek2, s1))
           | Inl e2 \<Rightarrow> (DekDone d (Inl (SaveFailed err)), s1))
      | AtStore d dek \<Rightarrow> (DekDone d (Inr dek), cache_store d dek s)
      | DekDone d r \<Rightarrow> (pc, s)
      | DekKilled \<Rightarrow> (pc, s))"

fun dek_steps :: "nat \<Rightarrow> (DeviceEncryptionKey, 'db) table_ops \<Rightarrow> (bytes \<Rightarrow> block_cipher) \<Rightarrow> dek_pc \<times> 'db privacy_service
    \<Rightarrow> dek_pc \<times> 'db privacy_service" where
  "dek_steps 0 T aes x = x"
| "dek_steps (Suc n) T aes x = dek_steps n T aes (dek_step T aes (fst x) (snd x))"

text \<open>The processes: what each was configured with and has in its cache, and the calls of all of them.\<close>

record 'db key_world =
  kw_db :: 'db
  kw_cfg :: "nat \<Rightarrow> privacy_config"
  kw_cache :: "nat \<Rightarrow> nat \<Rightarrow> bytes option"
  kw_calls :: "(nat \<times> dek_pc) list"

datatype key_event =
    KeyCall nat nat draws
  | KeyStep nat
  | KeyRestart nat

definition service_of :: "'db key_world \<Rightarrow> nat \<Rightarrow> 'db privacy_service" where
  "service_of w p = \<lparr>sv_db = kw_db w, sv_cfg = kw_cfg w p, sv_dekCache = kw_cache w p\<rparr>"

definition put_service :: "nat \<Rightarrow> 'db privacy_service \<Rightarrow> 'db key_world \<Rightarrow> 'db key_world" where
  "put_service p s w = w\<lparr>kw_db := sv_db s, kw_cache := (kw_cache w)(p := sv_dekCache s)\<rparr>"

definition key_exec :: "(DeviceEncryptionKey, 'db) table_ops \<Rightarrow> (bytes \<Rightarrow> block_cipher) \<Rightarrow> key_event
    \<Rightarrow> 'db key_world \<Rightarrow> 'db key_world" where
  "key_exec T aes e w =
     (case e of
        KeyCall p d rnd \<Rightarrow> w\<lparr>kw_calls := kw_calls w @ [(p, AtCache d rnd)]\<rparr>
      | KeyStep i \<Rightarrow>
          if i < length (kw_calls w)
          then (let (p, pc) = kw_calls w ! i; (pc', s) = dek_step T aes pc (service_of w p)
                in (put_service p s w)\<lparr>kw_calls := (kw_calls w)[i := (p, pc')]\<rparr>)
          else w
      | KeyRestart p \<Rightarrow>
          w\<lparr>kw_cache := (kw_cache w)(p := (\<lambda>_. None)),
            kw_calls := map (\<lambda>(q, pc). (q, case pc of DekDone d r \<Rightarrow> pc | _ \<Rightarrow> if q = p then DekKilled else pc)) (kw_calls w)\<rparr>)"

fun key_run :: "(DeviceEncryptionKey, 'db) table_ops \<Rightarrow> (bytes \<Rightarrow> block_cipher) \<Rightarrow> key_event list
    \<Rightarrow> 'db key_world \<Rightarrow> 'db key_world" where
  "key_run T aes [] w = w"
| "key_run T aes (e # es) w = key_run T aes es (key_exec T aes e w)"

text \<open>Draws of the right sizes, and the processes as they start.\<close>

definition event_draws_ok :: "key_event \<Rightarrow> bool" where
  "event_draws_ok e = (case e of KeyCall p d rnd \<Rightarrow> draws_ok rnd | _ \<Rightarrow> True)"

definition key_init :: "'db \<Rightarrow> (nat \<Rightarrow> privacy_config) \<Rightarrow> 'db key_world" where
  "key_init db cfg = \<lparr>kw_db = db, kw_cfg = cfg, kw_cache = (\<lambda>_ _. None), kw_calls = []\<rparr>"

text \<open>Run without interruption, the steps are the call.\<close>

lemmas dek_defs = getOrCreateDEK_def create_DEK_def reread_DEK_def
lemma dek_steps_done [simp]: "dek_steps n T aes (DekDone d r, s) = (DekDone d r, s)"
  by (induction n) (simp_all add: dek_step_def)

lemma reread_steps:
  "dek_steps (Suc (Suc 0)) T aes (AtReread d err, s) = (let (r, s') = reread_DEK T aes d err s in (DekDone d r, s'))"
proof -
  obtain r db' where f: "t_first T (for_device d) (sv_db s) = (r, db')" by fastforce
  show ?thesis
    by (cases r) (simp_all add: f dek_step_def reread_DEK_def Let_def split: sum.splits)
qed

lemma create_steps:
  "dek_steps (Suc (Suc (Suc 0))) T aes (AtCreate d rnd, s) = (let (r, s') = create_DEK T aes rnd d s in (DekDone d r, s'))"
proof (cases "GenerateDEK (dr_dek rnd)")
  case (Inl e)
  then show ?thesis by (simp add: dek_step_def create_DEK_def)
next
  case (Inr dek)
  show ?thesis
  proof (cases "WrapDEK aes (dr_wrap rnd) (pc_KEK (sv_cfg s)) dek")
    case (Inl e)
    with Inr show ?thesis by (simp add: dek_step_def create_DEK_def)
  next
    case w: (Inr wrapped)
    obtain r db' where c: "t_create T \<lparr>ek_ID = 0, ek_DeviceID = d, ek_KeyID = privacy_KeyID (Some s), ek_WrappedDEK = wrapped\<rparr>
        (sv_db s) = (r, db')"
      by fastforce
    show ?thesis
    proof (cases r)
      case (Inl err)
      have "dek_steps (Suc (Suc (Suc 0))) T aes (AtCreate d rnd, s) = dek_steps (Suc (Suc 0)) T aes (AtReread d err, s\<lparr>sv_db := db'\<rparr>)"
        using Inl c w Inr by (simp add: dek_step_def)
      also have "\<dots> = (let (r, s') = create_DEK T aes rnd d s in (DekDone d r, s'))"
        unfolding reread_steps using Inl c w Inr by (simp add: create_DEK_def)
      finally show ?thesis .
    next
      case (Inr y)
      with c w \<open>GenerateDEK (dr_dek rnd) = Inr dek\<close> show ?thesis by (simp add: dek_step_def create_DEK_def)
    qed
  qed
qed

lemma query_steps:
  assumes "d \<noteq> 0" "length (pc_KEK (sv_cfg s)) = 32" "sv_dekCache s d = None"
  shows "dek_steps (Suc (Suc (Suc (Suc 0)))) T aes (AtQuery d rnd, s)
    = (let (r, s') = getOrCreateDEK T aes rnd d s in (DekDone d r, s'))"
proof -
  obtain r db' where f: "t_first T (for_device d) (sv_db s) = (r, db')" by fastforce
  show ?thesis
  proof (cases "r = Inl ErrRecordNotFound")
    case True
    then have "dek_steps (Suc (Suc (Suc (Suc 0)))) T aes (AtQuery d rnd, s)
        = dek_steps (Suc (Suc (Suc 0))) T aes (AtCreate d rnd, s\<lparr>sv_db := db'\<rparr>)"
      using f by (simp add: dek_step_def)
    also have "\<dots> = (let (r, s') = getOrCreateDEK T aes rnd d s in (DekDone d r, s'))"
      unfolding create_steps using True f assms by (simp add: getOrCreateDEK_def)
    finally show ?thesis .
  next
    case False
    with f assms show ?thesis
      by (cases r) (auto simp: dek_step_def getOrCreateDEK_def Let_def split: sum.splits)
  qed
qed

lemma dek_steps_call:
  assumes "getOrCreateDEK T aes rnd d s = (r, s')"
  shows "dek_steps 5 T aes (AtCache d rnd, s) = (DekDone d r, s')"
proof -
  have e: "dek_steps 5 T aes (AtCache d rnd, s)
      = dek_steps (Suc (Suc (Suc (Suc 0)))) T aes (dek_step T aes (AtCache d rnd) s)"
    by (simp add: numeral_eq_Suc)
  show ?thesis
  proof (cases "d = 0 \<or> length (pc_KEK (sv_cfg s)) \<noteq> 32 \<or> sv_dekCache s d \<noteq> None")
    case True
    with assms show ?thesis unfolding e by (auto simp: dek_step_def getOrCreateDEK_def simp del: dek_steps.simps)
  next
    case False
    with assms query_steps [of d s T aes rnd] show ?thesis unfolding e by (simp add: dek_step_def del: dek_steps.simps)
  qed
qed

subsection \<open>One key per device\<close>

text \<open>The key the table holds for a device: the first row of the device, unwrapped.\<close>

definition device_key :: "(bytes \<Rightarrow> block_cipher) \<Rightarrow> bytes \<Rightarrow> DeviceEncryptionKey list \<Rightarrow> nat \<Rightarrow> bytes option" where
  "device_key aes kek rows d =
     (case List.find (for_device d) rows of
        None \<Rightarrow> None
      | Some row \<Rightarrow> (case UnwrapDEK aes kek (ek_WrappedDEK row) of Inl e \<Rightarrow> None | Inr k \<Rightarrow> Some k))"

definition keys_kept :: "(bytes \<Rightarrow> block_cipher) \<Rightarrow> bytes \<Rightarrow> DeviceEncryptionKey list \<Rightarrow> DeviceEncryptionKey list \<Rightarrow> bool" where
  "keys_kept aes kek rows rows' \<longleftrightarrow> (\<forall>d k. device_key aes kek rows d = Some k \<longrightarrow> device_key aes kek rows' d = Some k)"

fun pc_ok :: "(bytes \<Rightarrow> block_cipher) \<Rightarrow> bytes \<Rightarrow> DeviceEncryptionKey list \<Rightarrow> dek_pc \<Rightarrow> bool" where
  "pc_ok aes kek rows (AtStore d k) \<longleftrightarrow> device_key aes kek rows d = Some k"
| "pc_ok aes kek rows (DekDone d (Inr k)) \<longleftrightarrow> device_key aes kek rows d = Some k"
| "pc_ok aes kek rows (AtCache d rnd) \<longleftrightarrow> draws_ok rnd"
| "pc_ok aes kek rows (AtQuery d rnd) \<longleftrightarrow> draws_ok rnd"
| "pc_ok aes kek rows (AtCreate d rnd) \<longleftrightarrow> draws_ok rnd"
| "pc_ok aes kek rows _ \<longleftrightarrow> True"

definition cache_ok :: "(bytes \<Rightarrow> block_cipher) \<Rightarrow> bytes \<Rightarrow> DeviceEncryptionKey list \<Rightarrow> (nat \<Rightarrow> bytes option) \<Rightarrow> bool" where
  "cache_ok aes kek rows c \<longleftrightarrow> (\<forall>d k. c d = Some k \<longrightarrow> device_key aes kek rows d = Some k)"

lemma keys_kept_refl [simp]: "keys_kept aes kek rows rows"
  by (simp add: keys_kept_def)

lemma keys_kept_trans: "keys_kept aes kek a b \<Longrightarrow> keys_kept aes kek b c \<Longrightarrow> keys_kept aes kek a c"
  by (simp add: keys_kept_def)

lemma pc_ok_kept: "keys_kept aes kek rows rows' \<Longrightarrow> pc_ok aes kek rows pc \<Longrightarrow> pc_ok aes kek rows' pc"
  by (cases "(aes, kek, rows, pc)" rule: pc_ok.cases) (auto simp: keys_kept_def)

lemma cache_ok_kept: "keys_kept aes kek rows rows' \<Longrightarrow> cache_ok aes kek rows c \<Longrightarrow> cache_ok aes kek rows' c"
  by (auto simp: keys_kept_def cache_ok_def)

lemma cache_ok_store: "cache_ok aes kek rows c \<Longrightarrow> device_key aes kek rows d = Some k \<Longrightarrow> cache_ok aes kek rows (c(d \<mapsto> k))"
  by (auto simp: cache_ok_def)

lemma find_append: "List.find P (xs @ ys) = (case List.find P xs of None \<Rightarrow> List.find P ys | Some x \<Rightarrow> Some x)"
  by (induction xs) auto

lemma keys_kept_append: "keys_kept aes kek rows (rows @ rest)"
  by (auto simp: keys_kept_def device_key_def find_append split: option.splits)

lemma device_key_new:
  assumes "ek_DeviceID row \<notin> ek_DeviceID ` set rows" "UnwrapDEK aes kek (ek_WrappedDEK row) = Inr k"
  shows "device_key aes kek (rows @ [row]) (ek_DeviceID row) = Some k"
proof -
  have "List.find (for_device (ek_DeviceID row)) rows = None"
    unfolding find_None_iff using assms(1) by (metis image_eqI)
  then show ?thesis using assms(2) by (simp add: device_key_def find_append)
qed

locale key_store =
  gorm_unique T view "\<lambda>rows. rows" "\<lambda>f. f" ek_ID "\<lambda>i. ek_ID_update (\<lambda>_. i)" ek_DeviceID
  for T :: "(DeviceEncryptionKey, 'db) table_ops" and view :: "'db \<Rightarrow> DeviceEncryptionKey list"
begin

lemma first_key:
  assumes "t_first T (for_device d) db = (Inr row, db')" "UnwrapDEK aes kek (ek_WrappedDEK row) = Inr k"
  shows "view db' = view db \<and> device_key aes kek (view db) d = Some k"
  using first_Inr [OF assms(1)] assms(2) by (simp add: device_key_def)

lemma create_key:
  assumes "t_create T \<lparr>ek_ID = 0, ek_DeviceID = d, ek_KeyID = kid, ek_WrappedDEK = wrapped\<rparr> db = (Inr y, db')"
    and "UnwrapDEK aes kek wrapped = Inr k"
  shows "keys_kept aes kek (view db) (view db') \<and> device_key aes kek (view db') d = Some k"
proof -
  obtain i where "view db' = view db @ [\<lparr>ek_ID = i, ek_DeviceID = d, ek_KeyID = kid, ek_WrappedDEK = wrapped\<rparr>]"
      "d \<notin> ek_DeviceID ` set (view db)"
    using create_new [OF assms(1)] by auto
  then show ?thesis
    using keys_kept_append device_key_new [of "\<lparr>ek_ID = i, ek_DeviceID = d, ek_KeyID = kid, ek_WrappedDEK = wrapped\<rparr>"] assms(2)
    by simp
qed

text \<open>One step of a call: it keeps the keys of the table, and what it knows or caches is the key of the table.\<close>

definition step_good :: "(bytes \<Rightarrow> block_cipher) \<Rightarrow> 'db privacy_service \<Rightarrow> dek_pc \<times> 'db privacy_service \<Rightarrow> bool" where
  "step_good aes s x \<longleftrightarrow> (let kek = pc_KEK (sv_cfg s); rows = view (sv_db (snd x)) in
     sv_cfg (snd x) = sv_cfg s \<and> keys_kept aes kek (view (sv_db s)) rows \<and> cache_ok aes kek rows (sv_dekCache (snd x)) \<and>
     pc_ok aes kek rows (fst x))"

lemma step_good_quiet:
  assumes "cache_ok aes (pc_KEK (sv_cfg s)) (view (sv_db s)) (sv_dekCache s)" "view db' = view (sv_db s)"
    and "pc_ok aes (pc_KEK (sv_cfg s)) (view (sv_db s)) pc"
  shows "step_good aes s (pc, s\<lparr>sv_db := db'\<rparr>)"
  using assms by (simp add: step_good_def Let_def)

lemma step_good_same:
  assumes "cache_ok aes (pc_KEK (sv_cfg s)) (view (sv_db s)) (sv_dekCache s)"
    and "pc_ok aes (pc_KEK (sv_cfg s)) (view (sv_db s)) pc"
  shows "step_good aes s (pc, s)"
  using assms by (simp add: step_good_def Let_def)

lemma create_step_good:
  assumes aes: "aes_blocks aes" and rnd: "draws_ok rnd"
    and cache: "cache_ok aes (pc_KEK (sv_cfg s)) (view (sv_db s)) (sv_dekCache s)"
  shows "step_good aes s (dek_step T aes (AtCreate d rnd) s)"
proof (cases "GenerateDEK (dr_dek rnd)")
  case (Inl e)
  then show ?thesis using cache by (simp add: dek_step_def step_good_same)
next
  case (Inr dek)
  show ?thesis
  proof (cases "WrapDEK aes (dr_wrap rnd) (pc_KEK (sv_cfg s)) dek")
    case (Inl e)
    with Inr show ?thesis using cache by (simp add: dek_step_def step_good_same)
  next
    case w: (Inr wrapped)
    have u: "UnwrapDEK aes (pc_KEK (sv_cfg s)) wrapped = Inr dek"
      using Unwrap_Wrap [OF aes _ w] rnd by (simp add: draws_ok_def)
    obtain r db' where c: "t_create T \<lparr>ek_ID = 0, ek_DeviceID = d, ek_KeyID = privacy_KeyID (Some s), ek_WrappedDEK = wrapped\<rparr>
        (sv_db s) = (r, db')"
      by fastforce
    show ?thesis
    proof (cases r)
      case (Inl err)
      with create_Inl c have "view db' = view (sv_db s)" by blast
      with Inl c w Inr cache show ?thesis by (simp add: dek_step_def step_good_quiet)
    next
      case r: (Inr y)
      with create_key [of d _ _ "sv_db s" y db'] c u
      have k: "keys_kept aes (pc_KEK (sv_cfg s)) (view (sv_db s)) (view db')"
          "device_key aes (pc_KEK (sv_cfg s)) (view db') d = Some dek"
        by blast+
      from r c w Inr have "dek_step T aes (AtCreate d rnd) s = (AtStore d dek, s\<lparr>sv_db := db'\<rparr>)"
        by (simp add: dek_step_def)
      with k cache_ok_kept [OF k(1) cache] show ?thesis by (simp add: step_good_def Let_def)
    qed
  qed
qed

lemma query_step_good:
  assumes rnd: "draws_ok rnd" and cache: "cache_ok aes (pc_KEK (sv_cfg s)) (view (sv_db s)) (sv_dekCache s)"
  shows "step_good aes s (dek_step T aes (AtQuery d rnd) s)" "step_good aes s (dek_step T aes (AtReread d err) s)"
proof -
  obtain r db' where f: "t_first T (for_device d) (sv_db s) = (r, db')" by fastforce
  then have v: "view db' = view (sv_db s)" by (rule first_view)
  note known = first_key [of d "sv_db s" _ db' aes "pc_KEK (sv_cfg s)"]
  show "step_good aes s (dek_step T aes (AtQuery d rnd) s)"
    using f v rnd cache known
    by (cases r) (auto simp: dek_step_def Let_def intro!: step_good_quiet split: sum.splits)
  show "step_good aes s (dek_step T aes (AtReread d err) s)"
    using f v cache known
    by (cases r) (auto simp: dek_step_def Let_def intro!: step_good_quiet split: sum.splits)
qed

lemma dek_step_good:
  assumes "aes_blocks aes" and cache: "cache_ok aes (pc_KEK (sv_cfg s)) (view (sv_db s)) (sv_dekCache s)"
    and pc: "pc_ok aes (pc_KEK (sv_cfg s)) (view (sv_db s)) pc"
  shows "step_good aes s (dek_step T aes pc s)"
proof (cases pc)
  case (AtCache d rnd)
  then show ?thesis using cache pc
    by (auto simp: dek_step_def cache_ok_def intro!: step_good_same split: option.splits)
next
  case (AtQuery d rnd)
  then show ?thesis using query_step_good(1) [OF _ cache] pc by simp
next
  case (AtCreate d rnd)
  then show ?thesis using create_step_good [OF assms(1) _ cache] pc by simp
next
  case (AtReread d err)
  have "draws_ok \<lparr>dr_dek = None, dr_wrap = None, dr_nonce = None\<rparr>" by (simp add: draws_ok_def draw_of_def)
  then show ?thesis using AtReread query_step_good(2) [OF _ cache] by simp
next
  case (AtStore d k)
  then show ?thesis using pc cache_ok_store [OF cache, of d k]
    by (simp add: dek_step_def step_good_def cache_store_def Let_def)
next
  case (DekDone d r)
  then show ?thesis using cache pc by (simp add: dek_step_def step_good_same)
next
  case DekKilled
  then show ?thesis using cache by (simp add: dek_step_def step_good_same)
qed

lemma dek_steps_good:
  assumes "aes_blocks aes"
  shows "cache_ok aes (pc_KEK (sv_cfg s)) (view (sv_db s)) (sv_dekCache s) \<Longrightarrow> pc_ok aes (pc_KEK (sv_cfg s)) (view (sv_db s)) pc
    \<Longrightarrow> step_good aes s (dek_steps n T aes (pc, s))"
proof (induction n arbitrary: pc s)
  case 0
  then show ?case by (simp add: step_good_same)
next
  case (Suc n)
  obtain pc1 s1 where st: "dek_step T aes pc s = (pc1, s1)" by fastforce
  with dek_step_good [OF assms Suc.prems] have g: "step_good aes s (pc1, s1)" by simp
  with Suc.IH [of s1 pc1] have "step_good aes s1 (dek_steps n T aes (pc1, s1))"
    by (simp add: step_good_def Let_def)
  with g st show ?case by (auto simp: step_good_def Let_def intro: keys_kept_trans)
qed

text \<open>The same of a whole call.\<close>

lemma call_good:
  assumes "aes_blocks aes" "draws_ok rnd" "getOrCreateDEK T aes rnd d s = (r, s')"
    and "cache_ok aes (pc_KEK (sv_cfg s)) (view (sv_db s)) (sv_dekCache s)"
  shows "step_good aes s (DekDone d r, s')"
  using dek_steps_good [OF assms(1,4), of "AtCache d rnd" 5] dek_steps_call [OF assms(3)] assms(2) by simp

text \<open>A call for a device that has a key answers it, unless the table cannot be read.\<close>

lemma call_known:
  assumes "getOrCreateDEK T aes rnd d s = (r, s')" "device_key aes (pc_KEK (sv_cfg s)) (view (sv_db s)) d = Some k"
    and "cache_ok aes (pc_KEK (sv_cfg s)) (view (sv_db s)) (sv_dekCache s)" "d \<noteq> 0" "length (pc_KEK (sv_cfg s)) = 32"
  shows "r = Inr k \<or> r = Inl (StoreError DriverError)"
proof (cases "sv_dekCache s d")
  case (Some k')
  then show ?thesis using assms by (auto simp: getOrCreateDEK_def cache_ok_def)
next
  case None
  obtain q db' where f: "t_first T (for_device d) (sv_db s) = (q, db')" by fastforce
  obtain row where row: "List.find (for_device d) (view (sv_db s)) = Some row"
      "UnwrapDEK aes (pc_KEK (sv_cfg s)) (ek_WrappedDEK row) = Inr k"
    using assms(2) by (auto simp: device_key_def split: option.splits sum.splits)
  then have "q = Inl DriverError \<or> q = Inr row" using first_law [OF f] by simp
  then show ?thesis using None f row assms(1,4,5) by (auto simp: getOrCreateDEK_def)
qed

definition world_ok :: "(bytes \<Rightarrow> block_cipher) \<Rightarrow> bytes \<Rightarrow> 'db key_world \<Rightarrow> bool" where
  "world_ok aes kek w \<longleftrightarrow>
     (\<forall>p. pc_KEK (kw_cfg w p) = kek \<and> cache_ok aes kek (view (kw_db w)) (kw_cache w p)) \<and>
     (\<forall>(p, pc)\<in>set (kw_calls w). pc_ok aes kek (view (kw_db w)) pc)"

lemma world_ok_service:
  assumes "world_ok aes kek w"
  shows "cache_ok aes (pc_KEK (sv_cfg (service_of w p))) (view (sv_db (service_of w p))) (sv_dekCache (service_of w p))"
    and "pc_KEK (sv_cfg (service_of w p)) = kek"
  using assms by (simp_all add: world_ok_def service_of_def)

lemma world_ok_put:
  assumes w: "world_ok aes kek w" and good: "step_good aes (service_of w p) (pc, s)"
  shows "world_ok aes kek (put_service p s w) \<and> keys_kept aes kek (view (kw_db w)) (view (kw_db (put_service p s w))) \<and>
    pc_ok aes kek (view (kw_db (put_service p s w))) pc"
proof -
  have k: "keys_kept aes kek (view (kw_db w)) (view (sv_db s))" "cache_ok aes kek (view (sv_db s)) (sv_dekCache s)"
      "pc_ok aes kek (view (sv_db s)) pc"
    using good world_ok_service(2) [OF w, of p] by (simp_all add: step_good_def Let_def service_of_def)
  with w cache_ok_kept [OF k(1)] pc_ok_kept [OF k(1)] show ?thesis
    by (auto simp: world_ok_def put_service_def)
qed

lemma world_ok_exec:
  assumes "aes_blocks aes" "world_ok aes kek w" "event_draws_ok e"
  shows "world_ok aes kek (key_exec T aes e w) \<and> keys_kept aes kek (view (kw_db w)) (view (kw_db (key_exec T aes e w))) \<and>
    kw_cfg (key_exec T aes e w) = kw_cfg w"
proof (cases e)
  case (KeyCall p d rnd)
  then show ?thesis using assms(2,3) by (auto simp: key_exec_def world_ok_def event_draws_ok_def)
next
  case (KeyRestart p)
  then show ?thesis using assms(2)
    by (auto simp: key_exec_def world_ok_def cache_ok_def split: prod.splits dek_pc.splits)
next
  case (KeyStep i)
  show ?thesis
  proof (cases "i < length (kw_calls w)")
    case True
    obtain p pc where c: "kw_calls w ! i = (p, pc)" by fastforce
    then have pc: "pc_ok aes kek (view (kw_db w)) pc" using assms(2) True nth_mem by (fastforce simp: world_ok_def)
    obtain pc' s where st: "dek_step T aes pc (service_of w p) = (pc', s)" by fastforce
    have "step_good aes (service_of w p) (pc', s)"
      using dek_step_good [OF assms(1) world_ok_service(1) [OF assms(2)], of p pc] pc st world_ok_service(2) [OF assms(2), of p]
      by (simp add: service_of_def)
    from world_ok_put [OF assms(2) this] have put: "world_ok aes kek (put_service p s w)"
        "keys_kept aes kek (view (kw_db w)) (view (kw_db (put_service p s w)))"
        "pc_ok aes kek (view (kw_db (put_service p s w))) pc'"
      by blast+
    have "key_exec T aes e w = (put_service p s w)\<lparr>kw_calls := (kw_calls w)[i := (p, pc')]\<rparr>"
      using KeyStep True c st by (simp add: key_exec_def)
    moreover have "kw_calls (put_service p s w) = kw_calls w" "kw_cfg (put_service p s w) = kw_cfg w"
      by (simp_all add: put_service_def)
    ultimately show ?thesis using put set_update_subset_insert [of "kw_calls w" i "(p, pc')"]
      by (auto simp: world_ok_def)
  next
    case False
    with KeyStep assms(2) show ?thesis by (simp add: key_exec_def)
  qed
qed

lemma world_ok_run:
  assumes "aes_blocks aes"
  shows "world_ok aes kek w \<Longrightarrow> list_all event_draws_ok es \<Longrightarrow> world_ok aes kek (key_run T aes es w) \<and>
    keys_kept aes kek (view (kw_db w)) (view (kw_db (key_run T aes es w))) \<and> kw_cfg (key_run T aes es w) = kw_cfg w"
proof (induction es arbitrary: w)
  case Nil
  then show ?case by simp
next
  case (Cons e es)
  with world_ok_exec [OF assms, of kek w e] show ?case by (auto intro: keys_kept_trans)
qed

lemma world_ok_init: "(\<forall>p. pc_KEK (cfg p) = kek) \<Longrightarrow> world_ok aes kek (key_init db cfg)"
  by (simp add: world_ok_def key_init_def cache_ok_def)

end

definition mem_keys :: "(DeviceEncryptionKey, DeviceEncryptionKey list) table_ops" where
  "mem_keys = mem_unique (\<lambda>rows. rows) (\<lambda>f. f) ek_ID (\<lambda>i. ek_ID_update (\<lambda>_. i)) ek_DeviceID"

interpretation mem_keys: key_store mem_keys "\<lambda>rows. rows"
  unfolding key_store_def mem_keys_def by (rule mem_uq.gorm_unique_axioms)
subsection \<open>Lengths\<close>

lemma b64_quads_length: "b64_quads s = Some bs \<Longrightarrow> length bs \<le> length s"
  by (induction s arbitrary: bs rule: b64_quads.induct) (force split: option.splits if_splits)+

lemma base64_length: "base64_DecodeString s = Some bs \<Longrightarrow> length bs \<le> length s"
  unfolding base64_DecodeString_def by (meson b64_quads_length le_trans length_filter_le)

lemma parse_length: "parseCiphertext s = Inr raw \<Longrightarrow> length raw \<le> length s"
  using base64_length by (fastforce simp: parseCiphertext_def Let_def split: if_splits option.splits)

lemma Open_length: "block_size_16 blk \<Longrightarrow> length nonce = 12 \<Longrightarrow> gcm_Open blk nonce c = Some p \<Longrightarrow> length p + 16 = length c"
  by (auto simp: gcm_Open_def Let_def split: if_splits)

lemma Decrypt_shorter:
  assumes "aes_blocks aes" "IsCiphertext c" "privacy_Decrypt aes dek c = Inr p"
  shows "length p < length c"
proof -
  have "c \<noteq> []" using assms(2) by (auto simp: IsCiphertext_def CipherPrefix_eq)
  then obtain raw where raw: "parseCiphertext c = Inr raw" "decryptBytes aes dek raw = Inr p"
    using assms(2,3) by (auto simp: privacy_Decrypt_def split: sum.splits)
  then obtain blk where b: "28 \<le> length raw" "NewCipher aes dek = Some blk" "gcm_Open blk (take 12 raw) (drop 12 raw) = Some p"
    by (auto simp: decryptBytes_def nonceSize_def split: if_splits option.splits)
  then have "block_size_16 blk" using assms(1) by (auto simp: aes_blocks_def)
  then have "length p + 16 = length (drop 12 raw)" by (rule Open_length) (use b in simp_all)
  then show ?thesis using parse_length [OF raw(1)] b(1) by simp
qed

lemma call_Inr_guards: "getOrCreateDEK T aes rnd d s = (Inr k, s') \<Longrightarrow> d \<noteq> 0 \<and> length (pc_KEK (sv_cfg s)) = 32"
  by (auto simp: getOrCreateDEK_def split: if_splits)

lemma KeyID_no_bar: "124 \<notin> set (trim_space (pc_KeyID (sv_cfg s))) \<Longrightarrow> 124 \<notin> set (trim_space (privacy_KeyID (Some s)))"
  by (simp add: privacy_KeyID_def lit_def trim_space_def is_space_code)

text \<open>Files are handled as texts are.\<close>

lemma files_as_texts:
  "EncryptFileBytes T aes rnd d p s = EncryptText T aes rnd d p s" "DecryptFileBytes T aes rnd d p s = DecryptText T aes rnd d p s"
  "EncryptExistingFileBytes T aes rnd d p s = EncryptExistingText T aes rnd d p s"
proof -
  have e: "EncryptBytes = privacy_Encrypt" by (intro ext) (simp add: EncryptBytes_def privacy_Encrypt_def)
  have d: "DecryptBytes = privacy_Decrypt" by (intro ext) (auto simp: DecryptBytes_def privacy_Decrypt_def split: sum.splits)
  show "EncryptFileBytes T aes rnd d p s = EncryptText T aes rnd d p s" unfolding EncryptFileBytes_def EncryptText_def e by auto
  show "DecryptFileBytes T aes rnd d p s = DecryptText T aes rnd d p s" unfolding DecryptFileBytes_def DecryptText_def d by auto
  show "EncryptExistingFileBytes T aes rnd d p s = EncryptExistingText T aes rnd d p s"
    unfolding EncryptExistingFileBytes_def EncryptExistingText_def e by auto
qed

context key_store
begin

lemma reads_back:
  assumes aes: "aes_blocks aes" and kek: "\<forall>p. pc_KEK (cfg p) = kek" and draws: "list_all event_draws_ok evs" "list_all event_draws_ok evs'" "draws_ok rnd"
    and w: "w = key_run T aes evs (key_init db cfg)"
    and enc: "EncryptText T aes rnd d p (Some (service_of w a)) = (Inr c, Some s1)"
    and w': "w' = key_run T aes evs' (put_service a s1 w)"
    and dec: "DecryptText T aes rnd' d c (Some (service_of w' b)) = (r, s2)"
    and id: "124 \<notin> set (trim_space (pc_KeyID (cfg a)))" and form: "pc_Enabled (cfg a) \<or> \<not> IsCiphertext p"
  shows "r = Inr p \<or> r = Inl (StoreError DriverError)"
proof (cases "p = [] \<or> \<not> pc_Enabled (sv_cfg (service_of w a))")
  case True
  have "kw_cfg w = cfg" using world_ok_run [OF aes world_ok_init [OF kek] draws(1)] by (simp add: w key_init_def)
  then have "c = p" "\<not> IsCiphertext p \<or> p = []" using True enc form by (auto simp: EncryptText_def service_of_def split: if_splits)
  then show ?thesis using dec by (auto simp: DecryptText_def split: if_splits)
next
  case False
  let ?s = "service_of w a"
  have wok: "world_ok aes kek w" and cfg: "kw_cfg w = cfg"
    using world_ok_run [OF aes world_ok_init [OF kek] draws(1)] by (simp_all add: w key_init_def)
  obtain k where call: "getOrCreateDEK T aes rnd d ?s = (Inr k, s1)"
      and e: "privacy_Encrypt aes (dr_nonce rnd) k (privacy_KeyID (Some s1)) p = Inr c"
    using enc False by (auto simp: EncryptText_def split: prod.splits sum.splits)
  have good: "step_good aes ?s (DekDone d (Inr k), s1)"
    by (rule call_good [OF aes draws(3) call world_ok_service(1) [OF wok]])
  from world_ok_put [OF wok good] have put: "world_ok aes kek (put_service a s1 w)"
      "device_key aes kek (view (kw_db (put_service a s1 w))) d = Some k"
    by simp_all
  from world_ok_run [OF aes put(1) draws(2)] put(2) have w2: "world_ok aes kek w'" "device_key aes kek (view (kw_db w')) d = Some k"
    by (simp_all add: w' keys_kept_def)
  have "c \<noteq> [] \<and> IsCiphertext c" using e False by (auto simp: privacy_Encrypt_def split: sum.splits)
  then obtain q s3 where call2: "getOrCreateDEK T aes rnd' d (service_of w' b) = (q, s3)"
      and r: "r = (case q of Inl e \<Rightarrow> Inl e | Inr dek \<Rightarrow> privacy_Decrypt aes dek c)"
    using dec by (auto simp: DecryptText_def split: prod.splits sum.splits)
  have "q = Inr k \<or> q = Inl (StoreError DriverError)"
    using call_known [OF call2 _ world_ok_service(1) [OF w2(1)]] w2 call_Inr_guards [OF call] world_ok_service(2) [OF w2(1), of b]
      world_ok_service(2) [OF wok, of a]
    by (simp add: service_of_def)
  moreover have "privacy_Decrypt aes k c = Inr p"
  proof (rule Decrypt_Encrypt [OF aes _ e])
    show "draw_of 12 (dr_nonce rnd)" using draws(3) by (simp add: draws_ok_def)
    have "sv_cfg s1 = cfg a" using good cfg by (simp add: step_good_def Let_def service_of_def)
    then show "124 \<notin> set (trim_space (privacy_KeyID (Some s1)))" using KeyID_no_bar [of s1] id by simp
  qed
  ultimately show ?thesis using r by auto
qed

lemma done_agree:
  assumes "aes_blocks aes" "\<forall>p. pc_KEK (cfg p) = kek" "list_all event_draws_ok evs" "w = key_run T aes evs (key_init db cfg)"
    and "(p, DekDone d (Inr k)) \<in> set (kw_calls w)"
  shows "device_key aes kek (view (kw_db w)) d = Some k"
  using world_ok_run [OF assms(1) world_ok_init [OF assms(2)] assms(3), of db] assms(4,5) by (fastforce simp: world_ok_def)

end

subsection \<open>Properties\<close>

definition demo_aes :: "bytes \<Rightarrow> block_cipher" where "demo_aes key b = b"

definition demo_draws :: "byte \<Rightarrow> draws" where
  "demo_draws b = \<lparr>dr_dek = Some (replicate 32 b), dr_wrap = Some (replicate 12 7), dr_nonce = Some (replicate 12 8)\<rparr>"

definition demo_keys :: "nat \<Rightarrow> privacy_config" where
  "demo_keys p = \<lparr>pc_Enabled = True, pc_KeyID = lit ''k1'', pc_KEK = replicate 32 9\<rparr>"

definition demo_wrapped :: "byte \<Rightarrow> bytes" where
  "demo_wrapped b = formatCiphertext (lit ''wrap'') (replicate 12 7 @ gcm_Seal (demo_aes (replicate 32 9)) (replicate 12 7) (replicate 32 b))"

lemma demo_aes_ok: "aes_blocks demo_aes"
  by (auto simp: aes_blocks_def NewCipher_def block_size_16_def demo_aes_def split: if_splits)

lemma demo_draws_ok: "draws_ok (demo_draws b)"
  by (simp add: draws_ok_def draw_of_def demo_draws_def)

lemma demo_wrap: "WrapDEK demo_aes (Some (replicate 12 7)) (replicate 32 9) (replicate 32 b) = Inr (demo_wrapped b)"
  by (simp add: WrapDEK_def encryptBytes_def NewCipher_def demo_wrapped_def del: replicate.simps)

lemma demo_unwrap: "UnwrapDEK demo_aes (replicate 32 9) (demo_wrapped b) = Inr (replicate 32 b)"
  using Unwrap_Wrap [OF demo_aes_ok _ demo_wrap] by (simp add: draw_of_def del: replicate.simps)

lemma mem_keys_ops:
  "t_first mem_keys P rows = (case List.find P rows of None \<Rightarrow> Inl ErrRecordNotFound | Some x \<Rightarrow> Inr x, rows)"
  "t_create mem_keys x rows = (if ek_DeviceID x \<in> ek_DeviceID ` set rows then (Inl DriverError, rows)
     else let y = x\<lparr>ek_ID := mem_next_pk ek_ID rows\<rparr> in (Inr y, rows @ [y]))"
  by (simp_all add: mem_keys_def mem_unique_def mem_table_def)

lemmas key_run_defs = key_exec_def dek_step_def service_of_def put_service_def key_init_def cache_store_def Let_def
  mem_keys_ops GenerateDEK_def privacy_KeyID_def demo_draws_def demo_keys_def demo_wrap demo_unwrap

text \<open>
  C6. Encryption reads back exactly when the key id, trimmed, holds no separator: \<open>Decrypt\<close> under the same data
  key returns the text that \<open>Encrypt\<close> was given.
\<close>

theorem ciphertext_reads_back_iff:
  assumes "aes_blocks aes" "draw_of 12 rnd" "privacy_Encrypt aes rnd dek keyID p = Inr c" "p \<noteq> []"
  shows "privacy_Decrypt aes dek c = Inr p \<longleftrightarrow> 124 \<notin> set (trim_space keyID)"
proof (cases "124 \<in> set (trim_space keyID)")
  case True
  obtain raw where "c = formatCiphertext keyID raw" using assms(3,4) by (auto simp: privacy_Encrypt_def split: sum.splits)
  with parse_format_bar [OF True, of raw] have "\<exists>e. privacy_Decrypt aes dek c = Inl e" by (auto simp: privacy_Decrypt_def)
  with True show ?thesis by auto
qed (use Decrypt_Encrypt [OF assms(1-3)] in simp)

theorem ciphertext_reads_back_iff_witness:
  "privacy_Decrypt demo_aes (replicate 32 9) (formatCiphertext (lit ''k1'')
    (replicate 12 7 @ gcm_Seal (demo_aes (replicate 32 9)) (replicate 12 7) [104, 105])) = Inr [104, 105]"
proof -
  have "privacy_Encrypt demo_aes (Some (replicate 12 7)) (replicate 32 9) (lit ''k1'') [104, 105] = Inr (formatCiphertext (lit ''k1'')
    (replicate 12 7 @ gcm_Seal (demo_aes (replicate 32 9)) (replicate 12 7) [104, 105]))"
    by (simp add: privacy_Encrypt_def encryptBytes_def NewCipher_def del: replicate.simps)
  from ciphertext_reads_back_iff [OF demo_aes_ok _ this] show ?thesis
    by (simp add: draw_of_def lit_def trim_space_def is_space_code del: replicate.simps)
qed

text \<open>
  C5. One key per device: however the calls of all processes interleave, whatever the driver refuses and
  whichever process restarts, two calls for the same device that answer a key answer the same one, and it is
  the key the table holds.
\<close>

theorem one_key_per_device:
  assumes "key_store T view" "aes_blocks aes" "\<forall>p. pc_KEK (cfg p) = kek" "list_all event_draws_ok evs"
    and "w = key_run T aes evs (key_init db cfg)"
    and "(p, DekDone d (Inr k)) \<in> set (kw_calls w)" "(q, DekDone d (Inr k')) \<in> set (kw_calls w)"
  shows "k = k' \<and> device_key aes kek (view (kw_db w)) d = Some k"
  using key_store.done_agree [OF assms(1-6)] key_store.done_agree [OF assms(1-5) assms(7)] by simp

theorem one_key_per_device_witness:
  "kw_calls (key_run mem_keys demo_aes [KeyCall 0 7 (demo_draws 1), KeyCall 1 7 (demo_draws 2), KeyStep 0, KeyStep 1, KeyStep 0,
      KeyStep 1, KeyStep 0, KeyStep 1, KeyStep 1, KeyStep 1, KeyRestart 0, KeyStep 0, KeyCall 0 7 (demo_draws 3),
      KeyStep 2, KeyStep 2, KeyStep 2] (key_init [] demo_keys))
    = [(0, DekKilled), (1, DekDone 7 (Inr (replicate 32 1))), (0, DekDone 7 (Inr (replicate 32 1)))] \<and>
   device_key demo_aes (replicate 32 9) (kw_db (key_run mem_keys demo_aes [KeyCall 0 7 (demo_draws 1), KeyCall 1 7 (demo_draws 2), KeyStep 0,
      KeyStep 1, KeyStep 0, KeyStep 1, KeyStep 0, KeyStep 1, KeyStep 1, KeyStep 1, KeyRestart 0, KeyStep 0, KeyCall 0 7 (demo_draws 3),
      KeyStep 2, KeyStep 2, KeyStep 2] (key_init [] demo_keys))) 7 = Some (replicate 32 1)"
  (is "kw_calls ?w = ?calls \<and> _")
proof -
  have c: "kw_calls ?w = ?calls" by (simp add: key_run_defs del: replicate.simps)
  have "device_key demo_aes (replicate 32 9) ((\<lambda>rows. rows) (kw_db ?w)) 7 = Some (replicate 32 1)"
    by (rule conjunct2 [OF one_key_per_device [OF mem_keys.key_store_axioms demo_aes_ok _ _ refl]])
      (use c in \<open>auto simp: demo_keys_def event_draws_ok_def demo_draws_ok\<close>)
  with c show ?thesis by simp
qed



text \<open>
  A text that happens to begin like a ciphertext cannot be stored while encryption is off: \<open>EncryptText\<close>
  stores it as it is and \<open>DecryptText\<close> never answers it.
\<close>

theorem lookalike_text_lost:
  assumes "aes_blocks aes" "IsCiphertext p" "\<not> pc_Enabled (sv_cfg sv)"
  shows "EncryptText T aes rnd d p (Some sv) = (Inr p, Some sv) \<and> fst (DecryptText T aes rnd' d p (Some sv)) \<noteq> Inr p"
proof -
  have "p \<noteq> []" using assms(2) by (auto simp: IsCiphertext_def CipherPrefix_eq)
  moreover have "privacy_Decrypt aes dek p \<noteq> Inr p" for dek using Decrypt_shorter [OF assms(1,2), of dek p] by auto
  ultimately show ?thesis using assms(2,3)
    by (auto simp: EncryptText_def DecryptText_def split: prod.splits sum.splits)
qed

theorem lookalike_text_lost_witness:
  "fst (DecryptText mem_keys demo_aes (demo_draws 1) 7 (utf8 (lit ''v1|x'')) (Some \<lparr>sv_db = [],
      sv_cfg = \<lparr>pc_Enabled = False, pc_KeyID = [], pc_KEK = []\<rparr>, sv_dekCache = (\<lambda>_. None)\<rparr>)) \<noteq> Inr (utf8 (lit ''v1|x''))"
  by (rule conjunct2 [OF lookalike_text_lost [OF demo_aes_ok, where rnd = "demo_draws 1"]])
    (simp_all add: IsCiphertext_def CipherPrefix_eq utf8_def lit_def utf8_rune_def)

text \<open>Migrating is idempotent: a migrated text is a ciphertext (or empty) and is left as it is from then on.\<close>

lemma migration_idempotent:
  assumes "EncryptExistingText T aes rnd d p s = (Inr c, s')"
  shows "(c = [] \<longleftrightarrow> p = []) \<and> (c = [] \<or> IsCiphertext c) \<and> EncryptExistingText T aes rnd' d c s'' = (Inr c, s'')"
proof -
  have "(c = [] \<longleftrightarrow> p = []) \<and> (c = [] \<or> IsCiphertext c)"
    using assms by (auto simp: EncryptExistingText_def privacy_Encrypt_def split: if_splits option.splits prod.splits sum.splits)
  then show ?thesis by (auto simp: EncryptExistingText_def)
qed

end
