(* ===== verification/Spec2Isabelle.thy ===== *)
theory Spec2Isabelle
  imports ChatReturns DeviceAclStore GoQueue PoolManager StreamTransform ChatHooks AdapterRuns MqttBroker PcmFrames MediaRuns TtsItems PrivacyService
begin

text \<open>
  A verification of the dilidili voice backend, a Go server for talking toys.

  \<^bold>\<open>The program.\<close> A device connects over MQTT and UDP (or over a WebSocket). The embedded broker
  (\<open>internal/app/mqtt_server\<close>) authenticates it and forwards its messages; the MQTT-UDP adapter
  (\<open>internal/app/server/mqtt_udp\<close>) keeps one connection object per device and an encrypted UDP session for its audio. A
  chat session (\<open>internal/app/server/chat\<close>) keeps the state of its client (\<open>internal/data/client\<close>), borrows recognition,
  language-model and synthesis providers from resource pools (\<open>internal/pool\<close>, \<open>internal/util/resource_pool.go\<close>), runs the
  deltas of the language model through a pipeline of transformers (\<open>internal/domain/chat/streamtransform\<close>) that cuts them
  into sentences (\<open>internal/util/sentence.go\<close>), passes items through clearable queues (\<open>internal/util/queue.go\<close>), and
  calls plugins at fixed points of a turn (\<open>internal/pkg/hooks\<close>, \<open>internal/domain/chat/hooks\<close>). What it says goes through
  the speech output (\<open>tts.go\<close>), which paces sound and sentence marks for the device; a media player (\<open>media_player.go\<close>), which
  outlives the session, borrows that output for music and stories. A management backend (\<open>manager/backend\<close>) stores
  devices, users and who may use which device (\<open>manager/backend/services/device_acl\<close>).

  \<^bold>\<open>The theories.\<close> Each opens with a text that says how its state and operations correspond to the code;
  definitions keep the names of the functions they translate.

  \<^item> Foundations. \<^verbatim>\<open>Prelude\<close>: text as code points, instants, collections of lemmas. \<^verbatim>\<open>Bytes\<close>: byte orders, hex,
    base64, string functions of Go's library, with their round trips. \<^verbatim>\<open>GoChan\<close>: buffered channels, and \<open>run\<close>, a call
    that returns or panics. \<^verbatim>\<open>GoCrypto\<close>, \<^verbatim>\<open>GoGcm\<close>: counter mode and GCM over a block cipher. \<^verbatim>\<open>Gorm\<close>: a database table as a record of
    operations, the locale \<open>gorm_table\<close> of the laws the code relies on, and an in-memory table that satisfies them.
  \<^item> Device families. \<^verbatim>\<open>DeviceAcl\<close> translates \<open>acl.go\<close> and \<open>invite.go\<close> and defines the abstract machine \<open>acl_change\<close>;
    \<^verbatim>\<open>DeviceAclStore\<close> proves, over any store of the locale \<open>acl_store\<close>, who has access (C1), what joining
    and revoking do (C2, \<open>RevokeMember_effect\<close>; likewise refusing, leaving, inviting,
    backfilling and deleting), and that every run of operations with any driver failures refines the machine
    (C3).
  \<^item> Queues. \<^verbatim>\<open>GoQueue\<close> is a transition system of callers and channels: order and loss (C10), the meaning of the
    closed error, termination of clearing.
  \<^item> Pools. \<^verbatim>\<open>ResourcePool\<close> (locales \<open>factory_laws\<close>, \<open>factory_grows\<close> for the factory a pool is given) and
    \<^verbatim>\<open>PoolManager\<close> (their interpretations on the wrapper factory of \<open>adapter.go\<close>): exactly when shrinking returns
    (C11), closing, the panic of a late borrower,
    exclusiveness under interleaving (C12), releases find the pool they came from (C13).
  \<^item> Text output. \<^verbatim>\<open>Sentence\<close>: split points and sentences against their specifications (C14) and a heading that is lost. \<^verbatim>\<open>StreamTransform\<close>: the pipeline and the segmenter, with the
    locale \<open>conserving_stage\<close> of stages that lose no tool call (C15), and the end marker of a turn.
  \<^item> Plugins. \<^verbatim>\<open>HookHub\<close>: chains of interceptors (C16), bounded observers, order of registration, the
    submitter nobody wakes. \<^verbatim>\<open>TurnMetrics\<close>: the turn statistics (C17). \<^verbatim>\<open>ChatHooks\<close>: events and kinds
    (C18).
  \<^item> Transport. \<^verbatim>\<open>UdpSession\<close> and \<^verbatim>\<open>UdpServer\<close>: the packets round trip (C19), key stream reuse
    (C20), the sender loop. \<^verbatim>\<open>MqttUdpAdapter\<close> holds the handlers of connection and adapter, \<^verbatim>\<open>AdapterInvariant\<close>
    that each keeps the ownership invariant, \<^verbatim>\<open>AdapterRuns\<close> the step relation \<open>adapter_step\<close> and what holds along its runs
    (C21, C22). \<^verbatim>\<open>MqttBroker\<close>: who is admitted
    (C23), and one identity from issued credentials through the broker's hooks to the adapter's topics
    (C24).
  \<^item> Chat sessions. \<^verbatim>\<open>SpeakPath\<close>: the request a device answers before it is spoken to (C30).
    \<^verbatim>\<open>ChatManager\<close> translates how \<open>chat.go\<close> starts, keeps and closes the session of a connection, as goroutines of frames;
    \<^verbatim>\<open>ChatStacks\<close> and \<^verbatim>\<open>ChatManagerRuns\<close> prove the discipline of their stacks and locks; \<^verbatim>\<open>ChatReturns\<close> proves that at most
    one session is open (C7), by a measure that calls return (C8), and has the
    deadlock of a WebSocket (C9) and two races of a close (\<open>close_races\<close>).
  \<^item> Client state. \<^verbatim>\<open>ClientData\<close>: the clock of idle time against a stopwatch (C31), the watchdog, and the history that goes to the language model (C32, \<open>tool_calls_repeated\<close>).
  \<^item> Media player. \<^verbatim>\<open>MediaPlayer\<close> translates the playlists, the runtime of a device and its playing goroutine;
    \<^verbatim>\<open>MediaRuns\<close> proves what holds along all runs (C33, C34,
    C35), the playlist as a circle, and two defects (\<open>late_release_takes_output\<close>).
  \<^item> Speech output. \<^verbatim>\<open>TtsSender\<close> translates the manager with its two goroutines and the calls into it; \<^verbatim>\<open>TtsRuns\<close> proves
    what an interrupt cuts off (C36), the pace (C37), the figures of a turn
    (\<open>turn_traced_once\<close>) and that the end of a sentence is told once (C38), with the locale
    \<open>figure_invariant\<close> for what depends on the log of figures only. \<^verbatim>\<open>TtsItems\<close> has the queue of texts and its consumer
    (C39, C40), and composes it with the manager.
  \<^item> Audio files. \<^verbatim>\<open>OggOpus\<close>: pages byte by byte, and a reader that gets the packets back, up to the exact bound
    (C25). \<^verbatim>\<open>OpusPackets\<close> has the program's own readers, of pages (C26) and of frames with a
    length; \<^verbatim>\<open>OpusStreams\<close> packet durations, passing packets through and regrouping them (C27);
    \<^verbatim>\<open>PcmFrames\<close> the decoders that cut samples into frames (C28, C29).
  \<^item> Privacy. \<^verbatim>\<open>Privacy\<close>: the ciphertext format over GCM (C6). \<^verbatim>\<open>PrivacyService\<close>: the keys of the
    devices, in the locale \<open>key_store\<close> of a table with a unique index, as calls of several processes in steps
    (C5), and texts that stay readable (C4).

  \<^bold>\<open>Atomicity.\<close> Code that works under a lock to its end is one function. Where the code leaves its lock or waits, the model
  has a step there: \<open>tick\<close> (queue), \<open>acquire_step\<close> and \<open>pstep\<close> (pool), \<open>worker_step\<close> (hub), the two halves of a
  sender round (UDP), the removal after a cleanup mark (statistics), the program counters \<open>runner\<close> (media) and \<open>sender_pc\<close>,
  \<open>delayed_pc\<close>, \<open>tts_call\<close> (speech). Handlers of the MQTT-UDP adapter run to their end one after the other, as its single
  message loop does; timers, packets, closing sessions and reloads come between them in any order.
  \<open>BeginExclusiveMediaPlayback\<close> and \<open>finishTtsStopWithReason\<close>, whose parts are under different locks, are one step each.

  \<^bold>\<open>Parameters.\<close> Code outside the repository is an argument: the database (laws in \<open>gorm_table\<close>), the AES block
  function (\<open>cipher_ok\<close>, \<open>aes_blocks\<close>: blocks of 16 bytes), HMAC, SHA-256, JSON decoding, the Opus codec and repacketizer (\<open>repacketizer_ok\<close>), the verdicts of the MQTT
  library, random bytes, the clock, URL parsing, the order in which Go walks a map, the non-ASCII part of upper-casing.
  What a provider or a transport answers is part of the step that waits for it. Each property that assumes something of
  them has a witness with concrete functions.

  \<^bold>\<open>Loops and fuel.\<close> Loops that end are recursive functions with their termination proofs. Fuel appears in
  \<open>resize_loop\<close> (C11 says for every amount of fuel when it suffices), in \<open>metric_loop\<close> (two rounds are
  proved enough, C17), and in the reader of Ogg pages, which is part of the specification (one unit per page).
  \<open>DrainPendingAudio\<close> may run forever and is a \<open>partial_function\<close>; \<open>sender_spins_after_close\<close> says when it does not return.
  The goroutines of media player and speech output run for as long as the list of events that drives them.

  \<^bold>\<open>Integers.\<close> Sequence numbers, generations of the UDP sessions, granule positions, header fields and durations that are
  multiplied are words of their width, and wrap. Counters the code keeps in \<open>int\<close>, \<open>int64\<close> or \<open>uint64\<close> and that grow by one
  per event are integers.

  \<^bold>\<open>Not modelled.\<close> Clients of remote services (recognition, synthesis, language models, memory, MCP, knowledge bases), which are
  network I/O and JSON; cgo bindings (VAD, codecs); HTTP controllers of the manager, whose logic is request parsing
  around database calls; the front end; logging and metrics. Of the chat session the turns between its start and its close
  (listening, the intent router, the way to the language model and its tools), stories and messages of parents; of the media player the decoding of streams; of the speech
  output the way from a response of the language model to items.
\<close>

end
